(* ===== verification/Prelude.thy ===== *)
theory Prelude
  imports Main
begin

text \<open>
  Shared vocabulary of the development: the theorem collections the component theories
  feed, the type names of the wire protocol, the presence of a Redis key, signed 64-bit
  arithmetic of Go written out on \<open>int\<close>, and the generic lemmas on lists that several
  components use.
\<close>

section \<open>Theorem collections\<close>

named_theorems script_simps \<open>equations that evaluate the Redis scripts\<close>
named_theorems frame_simps \<open>what an operation leaves alone\<close>
named_theorems row_simps \<open>equations of the relational tables\<close>

section \<open>Names used on the wire\<close>

type_synonym aid = string
type_synonym uid = string
type_synonym bidid = string
type_synonym money = string

section \<open>A Redis key: missing, of another type, or holding the wanted type\<close>

datatype 'a slot = Absent | WrongType | Present 'a

fun bad_type :: "'a slot \<Rightarrow> bool" where
  "bad_type WrongType = True"
| "bad_type Absent = False"
| "bad_type (Present v) = False"

fun slot_get :: "'a \<Rightarrow> 'a slot \<Rightarrow> 'a" where
  "slot_get d (Present v) = v"
| "slot_get d Absent = d"
| "slot_get d WrongType = d"

lemma bad_type_iff: "bad_type s \<longleftrightarrow> s = WrongType"
  by (cases s) auto

section \<open>Go's int64\<close>

text \<open>Two's complement wrap-around of a 64-bit signed result, and the int64 range.\<close>

definition wrap64 :: "int \<Rightarrow> int" where
  "wrap64 x = (x + 2 ^ 63) mod 2 ^ 64 - 2 ^ 63"

definition int64 :: "int \<Rightarrow> bool" where
  "int64 x \<longleftrightarrow> - (2 ^ 63) \<le> x \<and> x < 2 ^ 63"

definition MaxInt64 :: int where
  "MaxInt64 = 2 ^ 63 - 1"

lemma wrap64_id [simp]: "int64 x \<Longrightarrow> wrap64 x = x"
  by (simp add: wrap64_def int64_def)

lemma int64_wrap64 [simp]: "int64 (wrap64 x)"
proof -
  have "0 \<le> (x + 2 ^ 63) mod 2 ^ 64" "(x + 2 ^ 63) mod 2 ^ 64 < (2 ^ 64 :: int)"
    by simp_all
  then show ?thesis by (simp add: wrap64_def int64_def)
qed

section \<open>Lists\<close>

fun last_opt :: "'a list \<Rightarrow> 'a option" where
  "last_opt [] = None"
| "last_opt [x] = Some x"
| "last_opt (x # y # xs) = last_opt (y # xs)"

lemma last_opt_eq: "last_opt xs = (if xs = [] then None else Some (last xs))"
  by (induction xs rule: last_opt.induct) auto

lemma last_opt_snoc [simp]: "last_opt (xs @ [x]) = Some x"
  by (simp add: last_opt_eq)

lemma last_opt_append2 [simp]: "last_opt (xs @ [x, y]) = Some y"
  by (simp add: last_opt_eq)

lemma map_upt_Suc_snoc: "map f [0..<Suc n] = map f [0..<n] @ [f n]"
  by simp

end
