(* ===== verification/Decimal.thy ===== *)
theory Decimal
  imports Prelude
begin

text \<open>
  Decimal text: the parts of Go's \<^verbatim>\<open>strconv\<close> the program uses on money strings
  (\<^verbatim>\<open>ParseInt(s, 10, 64)\<close> with its syntax and range errors, \<^verbatim>\<open>FormatInt(n, 10)\<close>), Lua's
  \<^verbatim>\<open>tonumber\<close> on decimal integers, and the gateway's \<^verbatim>\<open>canonicalAmount\<close>.
  The main fact is the round trip: formatting and parsing back gives the number in Go, and in the
  scripts up to \<open>2^53\<close>, so a money string within the bound of the program is read as the same amount by both.
\<close>

section \<open>Digits\<close>

definition digit_of :: "char \<Rightarrow> int" where
  "digit_of c = int (of_char c) - 48"

definition is_digit :: "char \<Rightarrow> bool" where
  "is_digit c \<longleftrightarrow> 0 \<le> digit_of c \<and> digit_of c \<le> 9"

definition digit_char :: "int \<Rightarrow> char" where
  "digit_char d = char_of (nat (48 + d))"

lemma digit_of_char [simp]: "0 \<le> d \<Longrightarrow> d \<le> 9 \<Longrightarrow> digit_of (digit_char d) = d"
  by (simp add: digit_of_def digit_char_def)

lemma is_digit_char [simp]: "0 \<le> d \<Longrightarrow> d \<le> 9 \<Longrightarrow> is_digit (digit_char d)"
  by (simp add: is_digit_def)

lemma is_digit_not_sign: "is_digit c \<Longrightarrow> c \<noteq> CHR ''+'' \<and> c \<noteq> CHR ''-''"
  by (auto simp: is_digit_def digit_of_def)

section \<open>Formatting\<close>

text \<open>\<^verbatim>\<open>strconv.FormatInt(n, 10)\<close>.\<close>

function show_nonneg :: "int \<Rightarrow> string" where
  "show_nonneg n = (if n < 10 then [digit_char n] else show_nonneg (n div 10) @ [digit_char (n mod 10)])"
  by pat_completeness auto
termination
  by (relation "measure nat") auto

declare show_nonneg.simps [simp del]

definition FormatInt :: "int \<Rightarrow> string" where
  "FormatInt n = (if n < 0 then CHR ''-'' # show_nonneg (- n) else show_nonneg n)"

lemma show_nonneg_digits: "0 \<le> n \<Longrightarrow> \<forall>c\<in>set (show_nonneg n). is_digit c"
proof (induction n rule: show_nonneg.induct)
  case (1 n)
  then show ?case by (subst show_nonneg.simps) auto
qed

lemma show_nonneg_ne [simp]: "show_nonneg n \<noteq> []"
  by (subst show_nonneg.simps) simp

lemma show_nonneg_hd_digit: "0 \<le> n \<Longrightarrow> is_digit (hd (show_nonneg n))"
  using show_nonneg_digits [of n] by (cases "show_nonneg n") auto

section \<open>Lua's numbers\<close>

text \<open>
  A Lua number is a float64. On integers: up to \<open>2^53\<close> in magnitude a value is exact, above
  that it is rounded to 53 significant bits, to the even neighbour when it lies half-way. \<open>excess_bits\<close> is the number
  of low bits that have no room. Values from \<open>2^1024\<close> on are infinite, which compares with finite
  numbers as \<open>2^1024\<close> does.
\<close>

function excess_bits :: "int \<Rightarrow> nat" where
  "excess_bits m = (if m < 2 ^ 53 then 0 else Suc (excess_bits (m div 2)))"
  by pat_completeness auto
termination
  by (relation "measure nat") auto

declare excess_bits.simps [simp del]

definition round_half_even :: "nat \<Rightarrow> int \<Rightarrow> int" where
  "round_half_even e m =
     (let q = m div 2 ^ e; r = m mod 2 ^ e
      in (if 2 * r > 2 ^ e \<or> 2 * r = 2 ^ e \<and> odd q then q + 1 else q) * 2 ^ e)"

definition round53 :: "int \<Rightarrow> int" where
  "round53 m = min (2 ^ 1024) (round_half_even (excess_bits m) m)"

definition lua_num :: "int \<Rightarrow> int" where
  "lua_num n = (if \<bar>n\<bar> \<le> 2 ^ 53 then n else if n < 0 then - round53 (- n) else round53 n)"

lemma lua_num_exact [simp]: "- (2 ^ 53) \<le> n \<Longrightarrow> n \<le> 2 ^ 53 \<Longrightarrow> lua_num n = n"
  by (simp add: lua_num_def)

lemma excess_bits_high: "2 ^ 53 \<le> m \<Longrightarrow> 1 \<le> excess_bits m \<and> 2 ^ 52 \<le> m div 2 ^ excess_bits m"
proof (induction m rule: excess_bits.induct)
  case (1 m)
  have e: "excess_bits m = Suc (excess_bits (m div 2))" using 1(2) by (subst excess_bits.simps) simp
  have d: "m div 2 ^ Suc n = m div 2 div 2 ^ n" for n by (simp add: zdiv_zmult2_eq)
  show ?case
  proof (cases "m div 2 < 2 ^ 53")
    case True
    then have "excess_bits (m div 2) = 0" by (subst excess_bits.simps) simp
    then show ?thesis using 1(2) by (simp add: e)
  next
    case False
    then have "2 ^ 52 \<le> m div 2 div 2 ^ excess_bits (m div 2)" using 1 by simp
    then show ?thesis unfolding e d by simp
  qed
qed

text \<open>Rounding never crosses \<open>2^53\<close>.\<close>

lemma round53_high:
  assumes "2 ^ 53 \<le> m"
  shows "2 ^ 53 \<le> round53 m"
proof -
  let ?e = "excess_bits m"
  have e: "1 \<le> ?e" "2 ^ 52 \<le> m div 2 ^ ?e" using excess_bits_high [OF assms] by auto
  have "(2::int) ^ 1 \<le> 2 ^ ?e" using e(1) by (rule power_increasing) simp
  then have "(2 ^ 52 :: int) * 2 \<le> (m div 2 ^ ?e) * 2 ^ ?e" using e(2) by (intro mult_mono) auto
  also have "\<dots> \<le> round_half_even ?e m" by (simp add: round_half_even_def Let_def)
  finally show ?thesis by (simp add: round53_def)
qed

lemma lua_num_high: "2 ^ 53 < n \<Longrightarrow> 2 ^ 53 \<le> lua_num n"
  using round53_high [of n] by (simp add: lua_num_def)

lemma lua_num_low: "n < - (2 ^ 53) \<Longrightarrow> lua_num n \<le> - (2 ^ 53)"
  using round53_high [of "- n"] by (simp add: lua_num_def)

text \<open>So comparing an exact amount with a rounded number is comparing with the number itself.\<close>

lemma lua_num_le_iff:
  assumes "0 \<le> a" "a < 2 ^ 53"
  shows "lua_num n \<le> a \<longleftrightarrow> n \<le> a"
  using assms lua_num_high [of n] lua_num_low [of n] lua_num_exact [of n]
  by (cases "n < - (2 ^ 53)"; cases "2 ^ 53 < n") auto

lemma lua_num_less_iff:
  assumes "0 \<le> a" "a \<le> 2 ^ 53"
  shows "lua_num n < a \<longleftrightarrow> n < a"
  using assms lua_num_high [of n] lua_num_low [of n] lua_num_exact [of n]
  by (cases "n < - (2 ^ 53)"; cases "2 ^ 53 < n") auto

lemma lua_num_pos: "0 < lua_num n \<longleftrightarrow> 0 < n"
  using lua_num_le_iff [of 0 n] by simp linarith

text \<open>Above the bound a number may be rounded.\<close>

lemma lua_num_rounds: "lua_num (2 ^ 53 + 1) = 2 ^ 53"
  by code_simp

section \<open>Lua's tonumber on decimal integers\<close>

text \<open>
  The scripts call \<^verbatim>\<open>tonumber\<close> on money strings only. They are written by
  \<^verbatim>\<open>FormatInt\<close> (the gateway's canonical amount, the JSON form of \<^verbatim>\<open>Cents\<close>) or by
  \<^verbatim>\<open>string.format('%.0f')\<close>, so the model reads decimal integers with an optional minus
  sign; any other text is nil. (Lua would also read hexadecimal, exponents and blanks,
  which no caller produces.) \<open>dec_int\<close> is the exact value of the text, \<^verbatim>\<open>tonumber\<close> the
  float64 nearest to it.
\<close>

fun digits_val :: "int \<Rightarrow> string \<Rightarrow> int option" where
  "digits_val acc [] = Some acc"
| "digits_val acc (c # cs) = (if is_digit c then digits_val (10 * acc + digit_of c) cs else None)"

fun dec_int :: "string \<Rightarrow> int option" where
  "dec_int [] = None"
| "dec_int (c # cs) =
     (if c = CHR ''-'' then (if cs = [] then None else map_option uminus (digits_val 0 cs))
      else digits_val 0 (c # cs))"

definition tonumber :: "string \<Rightarrow> int option" where
  "tonumber s = map_option lua_num (dec_int s)"

lemma tonumber_Nil [simp]: "tonumber [] = None"
  by (simp add: tonumber_def)

lemma digits_val_snoc:
  "digits_val acc (xs @ [c]) =
     (case digits_val acc xs of None \<Rightarrow> None
      | Some v \<Rightarrow> if is_digit c then Some (10 * v + digit_of c) else None)"
  by (induction xs arbitrary: acc) auto

lemma digits_val_show: "0 \<le> n \<Longrightarrow> digits_val 0 (show_nonneg n) = Some n"
proof (induction n rule: show_nonneg.induct)
  case (1 n)
  show ?case
  proof (cases "n < 10")
    case True
    with "1.prems" show ?thesis by (subst show_nonneg.simps) simp
  next
    case False
    with "1.IH" "1.prems" have "digits_val 0 (show_nonneg (n div 10)) = Some (n div 10)"
      by simp
    with False show ?thesis
      by (subst show_nonneg.simps) (simp add: digits_val_snoc)
  qed
qed

lemma dec_int_cons_digit: "is_digit c \<Longrightarrow> dec_int (c # cs) = digits_val 0 (c # cs)"
  using is_digit_not_sign [of c] by simp

lemma dec_int_FormatInt [simp]: "dec_int (FormatInt n) = Some n"
proof (cases "n < 0")
  case True
  then show ?thesis by (simp add: FormatInt_def digits_val_show)
next
  case False
  then have n: "0 \<le> n" by simp
  then obtain c cs where s: "show_nonneg n = c # cs" and c: "is_digit c"
    using show_nonneg_hd_digit [OF n] by (cases "show_nonneg n") auto
  have "dec_int (c # cs) = digits_val 0 (c # cs)"
    using c by (rule dec_int_cons_digit)
  with digits_val_show [OF n] s have "dec_int (c # cs) = Some n" by simp
  with False s show ?thesis by (simp add: FormatInt_def)
qed

lemma tonumber_FormatInt [simp]: "tonumber (FormatInt n) = Some (lua_num n)"
  by (simp add: tonumber_def)

lemma FormatInt_inject: "FormatInt m = FormatInt n \<longleftrightarrow> m = n"
  using dec_int_FormatInt by (metis option.inject)

section \<open>strconv.ParseInt(s, 10, 64)\<close>

text \<open>
  \<^verbatim>\<open>ParseInt\<close> returns a value and an error. A syntax error returns 0, a range error the
  nearest representable value. The scan is \<^verbatim>\<open>ParseUint\<close>'s: left to right, stopping at
  the first character that is no digit (syntax) or makes the value pass
  \<^verbatim>\<open>2^64 - 1\<close> (range).
\<close>

datatype parsed = POk int | PSyntax | PRange int

fun parse_scan :: "int \<Rightarrow> string \<Rightarrow> parsed" where
  "parse_scan acc [] = POk acc"
| "parse_scan acc (c # cs) =
     (if \<not> is_digit c then PSyntax
      else if 10 * acc + digit_of c > 2 ^ 64 - 1 then PRange (2 ^ 64 - 1)
      else parse_scan (10 * acc + digit_of c) cs)"

definition parse_magnitude :: "string \<Rightarrow> parsed" where
  "parse_magnitude s = (if s = [] then PSyntax else parse_scan 0 s)"

definition signed_result :: "bool \<Rightarrow> parsed \<Rightarrow> parsed" where
  "signed_result neg r =
     (case r of
        PSyntax \<Rightarrow> PSyntax
      | PRange n \<Rightarrow> (if neg then PRange (- (2 ^ 63)) else PRange (2 ^ 63 - 1))
      | POk n \<Rightarrow>
          (if \<not> neg \<and> n \<ge> 2 ^ 63 then PRange (2 ^ 63 - 1)
           else if neg \<and> n > 2 ^ 63 then PRange (- (2 ^ 63))
           else POk (if neg then - n else n)))"

fun ParseInt :: "string \<Rightarrow> parsed" where
  "ParseInt [] = PSyntax"
| "ParseInt (c # cs) =
     (if c = CHR ''+'' then signed_result False (parse_magnitude cs)
      else if c = CHR ''-'' then signed_result True (parse_magnitude cs)
      else signed_result False (parse_magnitude (c # cs)))"

text \<open>The value with the error dropped: the helper \<^verbatim>\<open>parseInt\<close> of the store.\<close>

definition parseInt :: "string \<Rightarrow> int" where
  "parseInt s = (case ParseInt s of POk n \<Rightarrow> n | PSyntax \<Rightarrow> 0 | PRange n \<Rightarrow> n)"

lemma parse_scan_bound: "parse_scan acc s = POk n \<Longrightarrow> 0 \<le> acc \<Longrightarrow> acc \<le> n"
proof (induction s arbitrary: acc)
  case (Cons c cs)
  then have "is_digit c" and "parse_scan (10 * acc + digit_of c) cs = POk n"
    by (auto split: if_splits)
  with Cons show ?case by (fastforce simp: is_digit_def)
qed simp

lemma digits_val_mono: "digits_val acc s = Some n \<Longrightarrow> 0 \<le> acc \<Longrightarrow> acc \<le> n"
proof (induction s arbitrary: acc)
  case (Cons c cs)
  then have "is_digit c" and "digits_val (10 * acc + digit_of c) cs = Some n"
    by (auto split: if_splits)
  with Cons show ?case by (fastforce simp: is_digit_def)
qed simp

lemma parse_scan_digits:
  "digits_val acc s = Some n \<Longrightarrow> 0 \<le> acc \<Longrightarrow> n \<le> 2 ^ 64 - 1 \<Longrightarrow> parse_scan acc s = POk n"
proof (induction s arbitrary: acc)
  case (Cons c cs)
  then have c: "is_digit c" and d: "digits_val (10 * acc + digit_of c) cs = Some n"
    by (auto split: if_splits)
  have "0 \<le> 10 * acc + digit_of c" using c Cons.prems(2) by (simp add: is_digit_def)
  moreover have "10 * acc + digit_of c \<le> n"
    using d calculation by (rule digits_val_mono)
  ultimately show ?case using c d Cons by simp
qed simp

lemma parse_scan_digits_rev:
  "parse_scan acc s = POk n \<Longrightarrow> digits_val acc s = Some n"
  by (induction s arbitrary: acc) (auto split: if_splits)

lemma parse_magnitude_show:
  "0 \<le> n \<Longrightarrow> n \<le> 2 ^ 64 - 1 \<Longrightarrow> parse_magnitude (show_nonneg n) = POk n"
  by (simp add: parse_magnitude_def parse_scan_digits digits_val_show)

lemma ParseInt_digits:
  assumes "0 \<le> n"
  shows "ParseInt (show_nonneg n) = signed_result False (parse_magnitude (show_nonneg n))"
proof -
  obtain c cs where s: "show_nonneg n = c # cs" and c: "is_digit c"
    using show_nonneg_hd_digit [OF assms] by (cases "show_nonneg n") auto
  show ?thesis unfolding s using is_digit_not_sign [OF c] by simp
qed

lemma ParseInt_FormatInt [simp]:
  assumes "int64 n"
  shows "ParseInt (FormatInt n) = POk n"
proof (cases "n < 0")
  case True
  with assms have "parse_magnitude (show_nonneg (- n)) = POk (- n)"
    by (intro parse_magnitude_show) (auto simp: int64_def)
  with True assms show ?thesis by (simp add: FormatInt_def signed_result_def int64_def)
next
  case False
  with assms have "parse_magnitude (show_nonneg n) = POk n"
    by (intro parse_magnitude_show) (auto simp: int64_def)
  with False assms show ?thesis
    by (simp add: FormatInt_def signed_result_def int64_def ParseInt_digits)
qed

lemma parseInt_FormatInt [simp]: "int64 n \<Longrightarrow> parseInt (FormatInt n) = n"
  by (simp add: parseInt_def)

lemma signed_result_int64:
  "signed_result neg (parse_magnitude s) = POk n \<Longrightarrow> int64 n"
proof -
  assume r: "signed_result neg (parse_magnitude s) = POk n"
  then obtain m where m: "parse_magnitude s = POk m"
    by (auto simp: signed_result_def split: parsed.splits if_splits)
  then have "0 \<le> m"
    by (auto simp: parse_magnitude_def split: if_splits dest: parse_scan_bound)
  with r m show "int64 n"
    by (auto simp: signed_result_def int64_def split: if_splits)
qed

lemma ParseInt_int64: "ParseInt s = POk n \<Longrightarrow> int64 n"
  by (cases s) (auto split: if_splits dest: signed_result_int64)

section \<open>The gateway's canonical amount\<close>

definition MaxMoneyCents :: int where
  "MaxMoneyCents = 2 ^ 53 - 1"

definition canonicalAmount :: "string \<Rightarrow> string option" where
  "canonicalAmount s =
     (case ParseInt s of
        POk n \<Rightarrow> (if n \<le> 0 \<or> n > MaxMoneyCents then None else Some (FormatInt n))
      | _ \<Rightarrow> None)"

lemma money_int64: "0 \<le> n \<Longrightarrow> n \<le> MaxMoneyCents \<Longrightarrow> int64 n"
  by (simp add: MaxMoneyCents_def int64_def)

lemma canonicalAmount_SomeD:
  assumes "canonicalAmount s = Some t"
  obtains n where "ParseInt s = POk n" "0 < n" "n \<le> MaxMoneyCents" "t = FormatInt n"
  using assms by (auto simp: canonicalAmount_def split: parsed.splits if_splits)

end
