(* ===== verification/Model.thy ===== *)
theory Model
  imports Decimal
begin

text \<open>
  The contract types of \<^verbatim>\<open>internal/model/model.go\<close>: auction states, auction modes,
  result codes, message types, the frozen rules of an auction with their validation, the
  rules a room snapshot shows, and money on the JSON and SQL boundary.
\<close>

section \<open>Canonical auction states\<close>

datatype auction_state = DRAFT | SCHEDULED | LIVE | SOLD | NO_BID | CANCELLED | ORDER_CREATED

fun IsTerminal :: "auction_state \<Rightarrow> bool" where
  "IsTerminal SOLD = True"
| "IsTerminal NO_BID = True"
| "IsTerminal CANCELLED = True"
| "IsTerminal ORDER_CREATED = True"
| "IsTerminal _ = False"

lemma IsTerminal_iff: "IsTerminal s \<longleftrightarrow> s \<notin> {DRAFT, SCHEDULED, LIVE}"
  by (cases s) auto

text \<open>The wire name of a state, as event payloads carry it.\<close>

fun state_name :: "auction_state \<Rightarrow> string" where
  "state_name DRAFT = ''DRAFT''"
| "state_name SCHEDULED = ''SCHEDULED''"
| "state_name LIVE = ''LIVE''"
| "state_name SOLD = ''SOLD''"
| "state_name NO_BID = ''NO_BID''"
| "state_name CANCELLED = ''CANCELLED''"
| "state_name ORDER_CREATED = ''ORDER_CREATED''"

lemma state_name_eq_iff [simp]: "state_name a = state_name b \<longleftrightarrow> a = b"
  by (cases a; cases b) simp_all

declare state_name.simps [simp del]

section \<open>Auction modes\<close>

text \<open>The empty string is \<^verbatim>\<open>ModeEmpty\<close>, a name the contract does not know is
  \<^verbatim>\<open>ModeOther\<close>.\<close>

datatype mode = ModeEmpty | ENGLISH | SUDDEN_DEATH | SEALED_FIRST | VICKREY
  | HYBRID_REVEAL | ALL_PAY | PREQUALIFY | ModeOther string

fun NormalizeMode :: "mode \<Rightarrow> mode" where
  "NormalizeMode ModeEmpty = ENGLISH"
| "NormalizeMode m = m"

fun ValidMode :: "mode \<Rightarrow> bool" where
  "ValidMode (ModeOther s) = False"
| "ValidMode m = True"

fun IsSealedMode :: "mode \<Rightarrow> bool" where
  "IsSealedMode m =
     (case NormalizeMode m of SEALED_FIRST \<Rightarrow> True | VICKREY \<Rightarrow> True | ALL_PAY \<Rightarrow> True
      | PREQUALIFY \<Rightarrow> True | _ \<Rightarrow> False)"

fun UsesSealedEngine :: "mode \<Rightarrow> bool" where
  "UsesSealedEngine m =
     (case NormalizeMode m of SEALED_FIRST \<Rightarrow> True | VICKREY \<Rightarrow> True | ALL_PAY \<Rightarrow> True
      | _ \<Rightarrow> False)"

definition UsesHybridEngine :: "mode \<Rightarrow> bool" where
  "UsesHybridEngine m \<longleftrightarrow> NormalizeMode m = HYBRID_REVEAL"

lemma NormalizeMode_idem [simp]: "NormalizeMode (NormalizeMode m) = NormalizeMode m"
  by (cases m) auto

lemma engines_disjoint: "UsesSealedEngine m \<Longrightarrow> \<not> UsesHybridEngine m"
  by (cases m) (auto simp: UsesHybridEngine_def)

lemma sealed_engine_hidden: "UsesSealedEngine m \<Longrightarrow> IsSealedMode m"
  by (cases m) auto

section \<open>Message types and result codes\<close>

datatype msg_type =
    ROOM_JOIN | BID_PLACE | PING | ROOM_SNAPSHOT | ROOM_STATE_PATCH
  | BID_ACCEPTED | BID_REJECTED | AUCTION_EXTENDED | AUCTION_SOLD | AUCTION_NO_BID
  | AUCTION_CANCELLED | AI_COMMENTARY | ROOM_SOCIAL | PONG
  | SEALED_BID_RECEIVED | AUCTION_REVEALED | ALL_PAY_FORFEIT | PREQUALIFY_RESULT

datatype code =
    OK_ACCEPTED | OK_EXTENDED | OK_SOLD | OK_NO_BID | OK_CANCELLED | OK_FROZEN | OK_LIVE
  | DUPLICATE | ERR_NOT_LIVE | ERR_AFTER_END | ERR_TOO_LOW | ERR_BAD_STATE
  | ERR_NOT_ALLOWED | ERR_NOT_DUE | ERR_ALREADY_TERMINAL | ERR_AUCTION_PAUSED
  | ERR_INTERNAL | ERR_FACTS_NOT_CONFIRMED | ERR_BAD_INPUT

definition SchemaVersion :: int where
  "SchemaVersion = 2"

section \<open>Rules\<close>

record Rules =
  Mode :: mode
  StartPriceCents :: int
  IncrementCents :: int
  CapPriceCents :: int
  DurationSec :: int
  ExtendWindowSec :: int
  ExtendSec :: int
  MaxExtensions :: int
  LivePlayUrl :: string
  LiveStreamKey :: string

datatype rules_error =
    UnknownMode mode | StartNegative | IncrementNotPositive | CapNegative | CapNotAboveStart
  | MoneyTooLarge | FirstBidUnreachable | DurationNotPositive | ExtendNegative
  | MaxExtensionsNegative

text \<open>\<^verbatim>\<open>Rules.Validate\<close>: the first failing case, \<^term>\<open>None\<close> for nil.\<close>

definition Validate :: "Rules \<Rightarrow> rules_error option" where
  "Validate r =
     (if \<not> ValidMode (Mode r) then Some (UnknownMode (Mode r))
      else if StartPriceCents r < 0 then Some StartNegative
      else if IncrementCents r \<le> 0 then Some IncrementNotPositive
      else if CapPriceCents r < 0 then Some CapNegative
      else if CapPriceCents r > 0 \<and> CapPriceCents r \<le> StartPriceCents r
        then Some CapNotAboveStart
      else if StartPriceCents r > MaxMoneyCents \<or> IncrementCents r > MaxMoneyCents
              \<or> CapPriceCents r > MaxMoneyCents
        then Some MoneyTooLarge
      else if CapPriceCents r = 0
              \<and> StartPriceCents r > wrap64 (MaxMoneyCents - IncrementCents r)
        then Some FirstBidUnreachable
      else if DurationSec r \<le> 0 then Some DurationNotPositive
      else if ExtendWindowSec r < 0 \<or> ExtendSec r < 0 then Some ExtendNegative
      else if MaxExtensions r < 0 then Some MaxExtensionsNegative
      else None)"

text \<open>What a validated rule set guarantees; the subtraction of the reachability case
  cannot wrap, because both operands have been bounded by then.\<close>

lemma Validate_NoneD:
  assumes "Validate r = None"
  shows "ValidMode (Mode r)" "0 \<le> StartPriceCents r" "0 < IncrementCents r"
    "0 \<le> CapPriceCents r" "CapPriceCents r > 0 \<Longrightarrow> StartPriceCents r < CapPriceCents r"
    "StartPriceCents r \<le> MaxMoneyCents" "IncrementCents r \<le> MaxMoneyCents"
    "CapPriceCents r \<le> MaxMoneyCents"
    "CapPriceCents r = 0 \<Longrightarrow> StartPriceCents r + IncrementCents r \<le> MaxMoneyCents"
    "0 < DurationSec r" "0 \<le> ExtendWindowSec r" "0 \<le> ExtendSec r" "0 \<le> MaxExtensions r"
proof -
  from assms have inc: "0 < IncrementCents r" "IncrementCents r \<le> MaxMoneyCents"
    by (auto simp: Validate_def split: if_splits)
  then have "wrap64 (MaxMoneyCents - IncrementCents r) = MaxMoneyCents - IncrementCents r"
    by (intro wrap64_id) (auto simp: int64_def MaxMoneyCents_def)
  with assms inc show "ValidMode (Mode r)" "0 \<le> StartPriceCents r" "0 < IncrementCents r"
    "0 \<le> CapPriceCents r" "CapPriceCents r > 0 \<Longrightarrow> StartPriceCents r < CapPriceCents r"
    "StartPriceCents r \<le> MaxMoneyCents" "IncrementCents r \<le> MaxMoneyCents"
    "CapPriceCents r \<le> MaxMoneyCents"
    "CapPriceCents r = 0 \<Longrightarrow> StartPriceCents r + IncrementCents r \<le> MaxMoneyCents"
    "0 < DurationSec r" "0 \<le> ExtendWindowSec r" "0 \<le> ExtendSec r" "0 \<le> MaxExtensions r"
    by (auto simp: Validate_def split: if_splits)
qed

text \<open>The amounts of valid rules are exact as Lua numbers.\<close>

lemma Validate_exact:
  assumes "Validate r = None"
  shows "lua_num (StartPriceCents r) = StartPriceCents r" "lua_num (IncrementCents r) = IncrementCents r"
    "lua_num (CapPriceCents r) = CapPriceCents r"
  using Validate_NoneD [OF assms] by (auto simp: MaxMoneyCents_def intro!: lua_num_exact)

section \<open>The rules shown in a room snapshot\<close>

record RoomSnapshotRules =
  rs_mode :: mode
  rs_stepCents :: money
  rs_capCents :: "money option"
  rs_reserveCents :: money
  rs_maxExtensions :: int
  rs_antiSnipeWindowMs :: int

definition RoomSnapshotRules_of :: "Rules \<Rightarrow> RoomSnapshotRules" where
  "RoomSnapshotRules_of r =
     \<lparr>rs_mode = NormalizeMode (Mode r),
      rs_stepCents = FormatInt (IncrementCents r),
      rs_capCents = (if CapPriceCents r > 0 then Some (FormatInt (CapPriceCents r)) else None),
      rs_reserveCents = FormatInt (StartPriceCents r),
      rs_maxExtensions = MaxExtensions r,
      rs_antiSnipeWindowMs = wrap64 (ExtendWindowSec r * 1000)\<rparr>"

section \<open>Money on the JSON and SQL boundary\<close>

definition quote :: char where
  "quote = CHR 0x22"

text \<open>\<^verbatim>\<open>Cents.MarshalJSON\<close>: a quoted decimal string.\<close>

definition Cents_MarshalJSON :: "int \<Rightarrow> string" where
  "Cents_MarshalJSON c = [quote] @ FormatInt c @ [quote]"

text \<open>\<^verbatim>\<open>Cents.UnmarshalJSON\<close>: an opening quote strips the first and the last byte; the
  empty string and null are 0; \<^term>\<open>None\<close> is the error.\<close>

definition Cents_UnmarshalJSON :: "string \<Rightarrow> int option" where
  "Cents_UnmarshalJSON b =
     (let s = (if 2 \<le> length b \<and> hd b = quote then butlast (tl b) else b)
      in if s = [] \<or> s = ''null'' then Some 0
         else (case ParseInt s of POk n \<Rightarrow> Some n | _ \<Rightarrow> None))"

datatype sql_value = SqlInt int | SqlBytes string | SqlNull | SqlOther

fun Cents_Scan :: "sql_value \<Rightarrow> int option" where
  "Cents_Scan (SqlInt x) = Some x"
| "Cents_Scan (SqlBytes x) = (case ParseInt x of POk n \<Rightarrow> Some n | _ \<Rightarrow> None)"
| "Cents_Scan SqlNull = Some 0"
| "Cents_Scan SqlOther = None"

definition Cents_Value :: "int \<Rightarrow> sql_value" where
  "Cents_Value c = SqlInt c"

lemma FormatInt_ne [simp]: "FormatInt n \<noteq> []"
  by (simp add: FormatInt_def)

lemma FormatInt_not_null: "FormatInt n \<noteq> ''null''"
proof
  assume "FormatInt n = ''null''"
  then have "dec_int (FormatInt n) = dec_int ''null''" by simp
  then show False by (simp add: is_digit_def digit_of_def)
qed

lemma Cents_json_roundtrip:
  "int64 c \<Longrightarrow> Cents_UnmarshalJSON (Cents_MarshalJSON c) = Some c"
  by (simp add: Cents_UnmarshalJSON_def Cents_MarshalJSON_def FormatInt_not_null Let_def)

lemma Cents_sql_roundtrip: "Cents_Scan (Cents_Value c) = Some c"
  by (simp add: Cents_Value_def)

lemma Cents_sql_bytes: "int64 c \<Longrightarrow> Cents_Scan (SqlBytes (FormatInt c)) = Some c"
  by simp

end
