(* ===== verification/Json.thy ===== *)
theory Json
  imports Model
begin

text \<open>
  Event payloads. The scripts build them with \<^verbatim>\<open>cjson.encode\<close>, Go decodes them into the
  structs of \<^verbatim>\<open>model.go\<close>. A payload is a JSON value whose object keys are the field names
  of those structs; \<^verbatim>\<open>JBad\<close> is text that is no JSON. The decoders follow
  \<^verbatim>\<open>json.Unmarshal\<close>: a missing field or null leaves the zero value, unknown fields are
  ignored, a value of the wrong type or out of the int64 range is an error.
\<close>

datatype jfield = Jseq | JuserId | JdisplayName | JamountCents | JendAtMs | Jstatus
  | JbidCount | JserverTimeMs | JextendCount | JwinnerId | Jcount | Jbids | JcoinsForfeit

datatype json = JStr string | JNum int | JNull | JObj "(jfield \<times> json) list" | JArr "json list"
  | JBad

fun jlookup :: "jfield \<Rightarrow> json \<Rightarrow> json option" where
  "jlookup k (JObj fs) = map_of fs k"
| "jlookup k _ = None"

definition jint :: "jfield \<Rightarrow> json \<Rightarrow> int option" where
  "jint k j = (case jlookup k j of None \<Rightarrow> Some 0 | Some JNull \<Rightarrow> Some 0
     | Some (JNum n) \<Rightarrow> (if int64 n then Some n else None) | Some _ \<Rightarrow> None)"

definition jstr :: "jfield \<Rightarrow> json \<Rightarrow> string option" where
  "jstr k j = (case jlookup k j of None \<Rightarrow> Some [] | Some JNull \<Rightarrow> Some []
     | Some (JStr s) \<Rightarrow> Some s | Some _ \<Rightarrow> None)"

definition jarr :: "jfield \<Rightarrow> json \<Rightarrow> json list option" where
  "jarr k j = (case jlookup k j of None \<Rightarrow> Some [] | Some JNull \<Rightarrow> Some []
     | Some (JArr xs) \<Rightarrow> Some xs | Some _ \<Rightarrow> None)"

fun is_struct :: "json \<Rightarrow> bool" where
  "is_struct (JObj fs) = True"
| "is_struct JNull = True"
| "is_struct _ = False"

section \<open>The payload structs\<close>

record BidAcceptedData =
  bid_seq :: int
  bid_userId :: uid
  bid_displayName :: string
  bid_amountCents :: money
  bid_endAtMs :: int
  bid_status :: string
  bid_bidCount :: int
  bid_serverTimeMs :: int

record AuctionExtendedData =
  ext_seq :: int
  ext_endAtMs :: int
  ext_extendCount :: int
  ext_serverTimeMs :: int

record AuctionSoldData =
  sold_seq :: int
  sold_winnerId :: uid
  sold_amountCents :: money
  sold_status :: string
  sold_serverTimeMs :: int

record RevealedBid =
  rev_userId :: uid
  rev_displayName :: string
  rev_amountCents :: money

record AuctionRevealedData =
  reveal_seq :: int
  reveal_bids :: "RevealedBid list"
  reveal_winnerId :: uid
  reveal_amountCents :: money
  reveal_serverTimeMs :: int

record AllPayForfeitData =
  forfeit_seq :: int
  forfeit_userId :: uid
  forfeit_coins :: money
  forfeit_serverTimeMs :: int

section \<open>Decoding\<close>

definition decode_bid :: "json \<Rightarrow> BidAcceptedData option" where
  "decode_bid j =
     (if \<not> is_struct j then None else
      (case (jint Jseq j, jstr JuserId j, jstr JdisplayName j, jstr JamountCents j,
             jint JendAtMs j, jstr Jstatus j, jint JbidCount j, jint JserverTimeMs j) of
         (Some a, Some b, Some c, Some d, Some e, Some f, Some g, Some h) \<Rightarrow>
           Some \<lparr>bid_seq = a, bid_userId = b, bid_displayName = c, bid_amountCents = d,
                 bid_endAtMs = e, bid_status = f, bid_bidCount = g, bid_serverTimeMs = h\<rparr>
       | _ \<Rightarrow> None))"

definition decode_ext :: "json \<Rightarrow> AuctionExtendedData option" where
  "decode_ext j =
     (if \<not> is_struct j then None else
      (case (jint Jseq j, jint JendAtMs j, jint JextendCount j, jint JserverTimeMs j) of
         (Some a, Some b, Some c, Some d) \<Rightarrow>
           Some \<lparr>ext_seq = a, ext_endAtMs = b, ext_extendCount = c, ext_serverTimeMs = d\<rparr>
       | _ \<Rightarrow> None))"

definition decode_sold :: "json \<Rightarrow> AuctionSoldData option" where
  "decode_sold j =
     (if \<not> is_struct j then None else
      (case (jint Jseq j, jstr JwinnerId j, jstr JamountCents j, jstr Jstatus j,
             jint JserverTimeMs j) of
         (Some a, Some b, Some c, Some d, Some e) \<Rightarrow>
           Some \<lparr>sold_seq = a, sold_winnerId = b, sold_amountCents = c, sold_status = d,
                 sold_serverTimeMs = e\<rparr>
       | _ \<Rightarrow> None))"

definition decode_revealed_bid :: "json \<Rightarrow> RevealedBid option" where
  "decode_revealed_bid j =
     (if \<not> is_struct j then None else
      (case (jstr JuserId j, jstr JdisplayName j, jstr JamountCents j) of
         (Some a, Some b, Some c) \<Rightarrow>
           Some \<lparr>rev_userId = a, rev_displayName = b, rev_amountCents = c\<rparr>
       | _ \<Rightarrow> None))"

fun decode_list :: "('a \<Rightarrow> 'b option) \<Rightarrow> 'a list \<Rightarrow> 'b list option" where
  "decode_list f [] = Some []"
| "decode_list f (x # xs) =
     (case f x of None \<Rightarrow> None | Some y \<Rightarrow> map_option ((#) y) (decode_list f xs))"

definition decode_reveal :: "json \<Rightarrow> AuctionRevealedData option" where
  "decode_reveal j =
     (if \<not> is_struct j then None else
      (case (jint Jseq j, Option.bind (jarr Jbids j) (decode_list decode_revealed_bid),
             jstr JwinnerId j, jstr JamountCents j, jint JserverTimeMs j) of
         (Some a, Some b, Some c, Some d, Some e) \<Rightarrow>
           Some \<lparr>reveal_seq = a, reveal_bids = b, reveal_winnerId = c,
                 reveal_amountCents = d, reveal_serverTimeMs = e\<rparr>
       | _ \<Rightarrow> None))"

definition decode_forfeit :: "json \<Rightarrow> AllPayForfeitData option" where
  "decode_forfeit j =
     (if \<not> is_struct j then None else
      (case (jint Jseq j, jstr JuserId j, jstr JcoinsForfeit j, jint JserverTimeMs j) of
         (Some a, Some b, Some c, Some d) \<Rightarrow>
           Some \<lparr>forfeit_seq = a, forfeit_userId = b, forfeit_coins = c,
                 forfeit_serverTimeMs = d\<rparr>
       | _ \<Rightarrow> None))"

section \<open>The objects the scripts encode\<close>

definition bid_json :: "int \<Rightarrow> uid \<Rightarrow> string \<Rightarrow> money \<Rightarrow> int \<Rightarrow> auction_state \<Rightarrow> int \<Rightarrow> int \<Rightarrow> json" where
  "bid_json q u d a e st n now =
     JObj [(Jseq, JNum q), (JuserId, JStr u), (JdisplayName, JStr d), (JamountCents, JStr a),
           (JendAtMs, JNum e), (Jstatus, JStr (state_name st)), (JbidCount, JNum n),
           (JserverTimeMs, JNum now)]"

definition ext_json :: "int \<Rightarrow> int \<Rightarrow> int \<Rightarrow> int \<Rightarrow> json" where
  "ext_json q e n now =
     JObj [(Jseq, JNum q), (JendAtMs, JNum e), (JextendCount, JNum n), (JserverTimeMs, JNum now)]"

definition sold_json :: "int \<Rightarrow> uid \<Rightarrow> money \<Rightarrow> int \<Rightarrow> json" where
  "sold_json q w a now =
     JObj [(Jseq, JNum q), (JwinnerId, JStr w), (JamountCents, JStr a),
           (Jstatus, JStr (state_name SOLD)), (JserverTimeMs, JNum now)]"

definition end_json :: "int \<Rightarrow> auction_state \<Rightarrow> int \<Rightarrow> json" where
  "end_json q st now =
     JObj [(Jseq, JNum q), (Jstatus, JStr (state_name st)), (JserverTimeMs, JNum now)]"

definition sealed_json :: "int \<Rightarrow> string \<Rightarrow> int \<Rightarrow> int \<Rightarrow> json" where
  "sealed_json q d n now =
     JObj [(Jseq, JNum q), (JdisplayName, JStr d), (Jcount, JNum n), (JserverTimeMs, JNum now)]"

definition sealed_ack_json :: "int \<Rightarrow> uid \<Rightarrow> string \<Rightarrow> money \<Rightarrow> int \<Rightarrow> int \<Rightarrow> json" where
  "sealed_ack_json q u d a e now =
     JObj [(Jseq, JNum q), (JuserId, JStr u), (JdisplayName, JStr d), (JamountCents, JStr a),
           (JendAtMs, JNum e), (Jstatus, JStr (state_name LIVE)), (JserverTimeMs, JNum now)]"

definition revealed_bid_json :: "uid \<Rightarrow> string \<Rightarrow> money \<Rightarrow> json" where
  "revealed_bid_json u d a = JObj [(JuserId, JStr u), (JdisplayName, JStr d), (JamountCents, JStr a)]"

definition reveal_json :: "int \<Rightarrow> json list \<Rightarrow> uid \<Rightarrow> money \<Rightarrow> int \<Rightarrow> json" where
  "reveal_json q bids w a now =
     JObj [(Jseq, JNum q), (Jbids, JArr bids), (JwinnerId, JStr w), (JamountCents, JStr a),
           (JserverTimeMs, JNum now)]"

definition forfeit_json :: "int \<Rightarrow> uid \<Rightarrow> money \<Rightarrow> int \<Rightarrow> json" where
  "forfeit_json q u a now =
     JObj [(Jseq, JNum q), (JuserId, JStr u), (JcoinsForfeit, JStr a), (JserverTimeMs, JNum now)]"

section \<open>What a script encodes, Go decodes\<close>

lemmas jfield_defs = jint_def jstr_def jarr_def

lemma decode_bid_json [simp]:
  "int64 q \<Longrightarrow> int64 e \<Longrightarrow> int64 n \<Longrightarrow> int64 now \<Longrightarrow>
   decode_bid (bid_json q u d a e st n now) =
     Some \<lparr>bid_seq = q, bid_userId = u, bid_displayName = d, bid_amountCents = a,
           bid_endAtMs = e, bid_status = state_name st, bid_bidCount = n, bid_serverTimeMs = now\<rparr>"
  by (simp add: decode_bid_def bid_json_def jfield_defs)

lemma decode_ext_json [simp]:
  "int64 q \<Longrightarrow> int64 e \<Longrightarrow> int64 n \<Longrightarrow> int64 now \<Longrightarrow>
   decode_ext (ext_json q e n now) =
     Some \<lparr>ext_seq = q, ext_endAtMs = e, ext_extendCount = n, ext_serverTimeMs = now\<rparr>"
  by (simp add: decode_ext_def ext_json_def jfield_defs)

lemma decode_sold_json [simp]:
  "int64 q \<Longrightarrow> int64 now \<Longrightarrow>
   decode_sold (sold_json q w a now) =
     Some \<lparr>sold_seq = q, sold_winnerId = w, sold_amountCents = a,
           sold_status = state_name SOLD, sold_serverTimeMs = now\<rparr>"
  by (simp add: decode_sold_def sold_json_def jfield_defs)

lemma decode_forfeit_json [simp]:
  "int64 q \<Longrightarrow> int64 now \<Longrightarrow>
   decode_forfeit (forfeit_json q u a now) =
     Some \<lparr>forfeit_seq = q, forfeit_userId = u, forfeit_coins = a, forfeit_serverTimeMs = now\<rparr>"
  by (simp add: decode_forfeit_def forfeit_json_def jfield_defs)

lemma decode_revealed_bid_json [simp]:
  "decode_revealed_bid (revealed_bid_json u d a) =
     Some \<lparr>rev_userId = u, rev_displayName = d, rev_amountCents = a\<rparr>"
  by (simp add: decode_revealed_bid_def revealed_bid_json_def jfield_defs)

lemma decode_list_map:
  "(\<And>x. x \<in> set xs \<Longrightarrow> f (g x) = Some (h x)) \<Longrightarrow> decode_list f (map g xs) = Some (map h xs)"
  by (induction xs) auto

lemma decode_reveal_json:
  "int64 q \<Longrightarrow> int64 now \<Longrightarrow>
   decode_reveal (reveal_json q (map (\<lambda>b. revealed_bid_json (rev_userId b) (rev_displayName b) (rev_amountCents b)) bs) w a now) =
     Some \<lparr>reveal_seq = q, reveal_bids = bs, reveal_winnerId = w, reveal_amountCents = a,
           reveal_serverTimeMs = now\<rparr>"
  by (simp add: decode_reveal_def reveal_json_def jfield_defs
      decode_list_map [where h = "\<lambda>b. b"])

end
