(* ===== verification/Redis.thy ===== *)
theory Redis
  imports Json "HOL-Library.Char_ord" "HOL-Library.List_Lexorder"
begin

text \<open>
  The Redis data an auction owns, as the scripts use it: the state hash, the
  leaderboard and the private sealed set (sorted sets), the event stream, one
  deduplication hash per bidder with the time it expires, and the messages published. Commands that can fail on
  a live key (\<^verbatim>\<open>XADD\<close> with an id not above the last one) return \<^term>\<open>None\<close>.
\<close>

section \<open>Sorted sets\<close>

text \<open>A sorted set is the list \<^verbatim>\<open>ZREVRANGE key 0 -1 WITHSCORES\<close> returns: highest score
  first, equal scores by descending member.\<close>

type_synonym zset = "(string \<times> int) list"

definition zbefore :: "string \<times> int \<Rightarrow> string \<times> int \<Rightarrow> bool" where
  "zbefore x y \<longleftrightarrow> snd x > snd y \<or> (snd x = snd y \<and> fst x > fst y)"

fun zins :: "string \<times> int \<Rightarrow> zset \<Rightarrow> zset" where
  "zins e [] = [e]"
| "zins e (x # xs) = (if zbefore e x then e # x # xs else x # zins e xs)"

definition zrem :: "string \<Rightarrow> zset \<Rightarrow> zset" where
  "zrem m z = filter (\<lambda>x. fst x \<noteq> m) z"

definition zadd :: "string \<Rightarrow> int \<Rightarrow> zset \<Rightarrow> zset" where
  "zadd m s z = zins (m, s) (zrem m z)"

definition zscore :: "zset \<Rightarrow> string \<Rightarrow> int option" where
  "zscore z m = map_of z m"

definition zset_ok :: "zset \<Rightarrow> bool" where
  "zset_ok z \<longleftrightarrow> distinct (map fst z) \<and> sorted_wrt zbefore z"

lemma zbefore_trans: "zbefore x y \<Longrightarrow> zbefore y z \<Longrightarrow> zbefore x z"
  by (auto simp: zbefore_def)

lemma zbefore_total: "fst x \<noteq> fst y \<Longrightarrow> \<not> zbefore x y \<Longrightarrow> zbefore y x"
  by (auto simp: zbefore_def)

lemma set_zins [simp]: "set (zins e z) = insert e (set z)"
  by (induction z) auto

lemma length_zins [simp]: "length (zins e z) = Suc (length z)"
  by (induction z) auto

lemma zins_ne [simp]: "zins e z \<noteq> []"
  by (cases z) auto

lemma map_of_zins: "fst e \<notin> fst ` set z \<Longrightarrow> map_of (zins e z) = (map_of z)(fst e \<mapsto> snd e)"
  by (induction z) (auto simp: fun_eq_iff)

lemma map_of_zrem: "map_of (zrem m z) = (map_of z)(m := None)"
  by (induction z) (auto simp: zrem_def fun_eq_iff)

lemma zrem_notin [simp]: "m \<notin> fst ` set (zrem m z)"
  by (auto simp: zrem_def)

lemma zscore_zadd [simp]: "zscore (zadd m s z) = (zscore z)(m \<mapsto> s)"
  by (simp add: zscore_def [abs_def] zadd_def map_of_zins map_of_zrem)

lemma sorted_zins:
  "sorted_wrt zbefore z \<Longrightarrow> fst e \<notin> fst ` set z \<Longrightarrow> sorted_wrt zbefore (zins e z)"
proof (induction z)
  case (Cons x xs)
  then show ?case
    using zbefore_total [of e x] by (auto intro: zbefore_trans)
qed simp

lemma distinct_zins:
  "distinct (map fst z) \<Longrightarrow> fst e \<notin> fst ` set z \<Longrightarrow> distinct (map fst (zins e z))"
proof (induction z)
  case (Cons x xs)
  then have "distinct (map fst (zins e xs))" by auto
  with Cons.prems show ?case by (auto simp: image_iff)
qed simp

lemma zrem_ok: "zset_ok z \<Longrightarrow> zset_ok (zrem m z)"
  by (auto simp: zset_ok_def zrem_def sorted_wrt_filter distinct_map_filter)

lemma zadd_ok: "zset_ok z \<Longrightarrow> zset_ok (zadd m s z)"
  using zrem_ok [of z m] sorted_zins [of "zrem m z" "(m, s)"] distinct_zins [of "zrem m z" "(m, s)"]
  unfolding zadd_def by (simp add: zset_ok_def)

lemma zset_ok_Nil [simp]: "zset_ok []"
  by (simp add: zset_ok_def)

lemma zadd_ne [simp]: "zadd m s z \<noteq> []"
  by (simp add: zadd_def)

text \<open>The head of a well-formed set has the greatest score.\<close>

lemma zset_head_max:
  assumes "zset_ok (x # z)" and "(m, s) \<in> set (x # z)"
  shows "s \<le> snd x"
  using assms by (force simp: zset_ok_def zbefore_def)

section \<open>Streams\<close>

record entry =
  e_id :: "int \<times> int"
  e_type :: msg_type
  e_seq :: int
  e_payload :: json

definition id_less :: "int \<times> int \<Rightarrow> int \<times> int \<Rightarrow> bool" where
  "id_less x y \<longleftrightarrow> fst x < fst y \<or> (fst x = fst y \<and> snd x < snd y)"

text \<open>\<^verbatim>\<open>XADD key id\<close>: the id must be above 0-0 and above the last id.\<close>

definition xadd :: "entry \<Rightarrow> entry list \<Rightarrow> entry list option" where
  "xadd e es =
     (if \<not> id_less (0, 0) (e_id e) \<or> snd (e_id e) < 0 then None
      else (case last_opt es of
              None \<Rightarrow> Some (es @ [e])
            | Some l \<Rightarrow> (if id_less (e_id l) (e_id e) then Some (es @ [e]) else None)))"

text \<open>The scripts' lockstep probe: \<^verbatim>\<open>XREVRANGE + - COUNT 1\<close>, the digits before the dash.\<close>

definition lastStreamSeq :: "entry list \<Rightarrow> int" where
  "lastStreamSeq es = (case last_opt es of None \<Rightarrow> 0 | Some e \<Rightarrow> fst (e_id e))"

definition seq_entry :: "int \<Rightarrow> msg_type \<Rightarrow> json \<Rightarrow> entry" where
  "seq_entry q t p = \<lparr>e_id = (q, 0), e_type = t, e_seq = q, e_payload = p\<rparr>"

lemma seq_entry_sel [simp]:
  "e_id (seq_entry q t p) = (q, 0)" "e_type (seq_entry q t p) = t"
  "e_seq (seq_entry q t p) = q" "e_payload (seq_entry q t p) = p"
  by (simp_all add: seq_entry_def)

lemma lastStreamSeq_Nil [simp]: "lastStreamSeq [] = 0"
  by (simp add: lastStreamSeq_def)

lemma lastStreamSeq_snoc [simp]: "lastStreamSeq (es @ [e]) = fst (e_id e)"
  by (simp add: lastStreamSeq_def)

text \<open>After the probe agrees with the counter, the next two explicit ids are accepted:
  this is why no script writes half of its effects.\<close>

lemma xadd_next:
  "0 \<le> q \<Longrightarrow> lastStreamSeq es = q \<Longrightarrow> xadd (seq_entry (q + 1) t p) es = Some (es @ [seq_entry (q + 1) t p])"
  by (auto simp: xadd_def lastStreamSeq_def id_less_def split: option.splits)

section \<open>The state hash\<close>

text \<open>
  The fields the scripts and the store read. Every reader turns a missing number into 0
  and a missing text into the empty string, so those fields hold that value when they
  are missing; the status, the mode and the current price are read differently and keep
  an option (the mode is \<^const>\<open>ModeEmpty\<close> when missing). Money is decimal text, as the
  code stores it.
\<close>

record room_hash =
  h_status :: "auction_state option"
  h_mode :: mode
  h_startPriceCents :: money
  h_currentPriceCents :: "money option"
  h_incrementCents :: money
  h_capPriceCents :: money
  h_extendWindowSec :: int
  h_extendSec :: int
  h_maxExtensions :: int
  h_extendCount :: int
  h_winnerId :: uid
  h_winnerDisplayName :: string
  h_sellerId :: uid
  h_seq :: int
  h_bidCount :: int
  h_endAtMs :: int
  h_paused :: bool
  h_suppressUntilMs :: int
  h_errInternalReason :: string
  h_errInternalAtMs :: int

definition empty_hash :: room_hash where
  "empty_hash =
     \<lparr>h_status = None, h_mode = ModeEmpty, h_startPriceCents = [], h_currentPriceCents = None,
      h_incrementCents = [], h_capPriceCents = [], h_extendWindowSec = 0, h_extendSec = 0,
      h_maxExtensions = 0, h_extendCount = 0, h_winnerId = [], h_winnerDisplayName = [],
      h_sellerId = [], h_seq = 0, h_bidCount = 0, h_endAtMs = 0, h_paused = False,
      h_suppressUntilMs = 0, h_errInternalReason = [], h_errInternalAtMs = 0\<rparr>"

text \<open>\<^verbatim>\<open>tonumber(x) or 0\<close> on a money field.\<close>

definition num0 :: "money \<Rightarrow> int" where
  "num0 s = (case tonumber s of None \<Rightarrow> 0 | Some n \<Rightarrow> n)"

lemma num0_FormatInt [simp]: "num0 (FormatInt n) = lua_num n"
  by (simp add: num0_def)

lemma num0_Nil [simp]: "num0 [] = 0"
  by (simp add: num0_def)

definition price_str :: "room_hash \<Rightarrow> money" where
  "price_str h = (case h_currentPriceCents h of None \<Rightarrow> ''0'' | Some s \<Rightarrow> s)"

definition price_num :: "room_hash \<Rightarrow> int" where
  "price_num h = (case h_currentPriceCents h of None \<Rightarrow> 0 | Some s \<Rightarrow> num0 s)"

lemma num0_price_str: "num0 (price_str h) = price_num h"
  by (simp add: price_str_def price_num_def num0_def tonumber_def is_digit_def digit_of_def split: option.splits)

section \<open>The keys of one auction\<close>

text \<open>A bidder's deduplication hash: acks by client bid id, and the time in milliseconds at which
  Redis expires the key, if it has one.\<close>

record dedupe =
  d_acks :: "bidid \<rightharpoonup> json"
  d_expireAt :: "int option"

definition empty_dedupe :: dedupe where
  "empty_dedupe = \<lparr>d_acks = Map.empty, d_expireAt = None\<rparr>"

record akeys =
  k_state :: "room_hash slot"
  k_leaderboard :: "zset slot"
  k_events :: "entry list slot"
  k_dedupe :: "uid \<Rightarrow> dedupe slot"
  k_sealed :: "zset slot"
  k_sealednames :: "(uid \<rightharpoonup> string) slot"
  k_pub :: "(msg_type \<times> int \<times> json) list"

definition empty_keys :: akeys where
  "empty_keys = \<lparr>k_state = Absent, k_leaderboard = Absent, k_events = Absent,
     k_dedupe = (\<lambda>_. Absent), k_sealed = Absent, k_sealednames = Absent, k_pub = []\<rparr>"

abbreviation hash_of :: "akeys \<Rightarrow> room_hash" where
  "hash_of k \<equiv> slot_get empty_hash (k_state k)"

abbreviation events_of :: "akeys \<Rightarrow> entry list" where
  "events_of k \<equiv> slot_get [] (k_events k)"

abbreviation board_of :: "akeys \<Rightarrow> zset" where
  "board_of k \<equiv> slot_get [] (k_leaderboard k)"

abbreviation sealed_of :: "akeys \<Rightarrow> zset" where
  "sealed_of k \<equiv> slot_get [] (k_sealed k)"

abbreviation names_of :: "akeys \<Rightarrow> uid \<rightharpoonup> string" where
  "names_of k \<equiv> slot_get Map.empty (k_sealednames k)"

text \<open>What a command at time \<open>now\<close> finds under the deduplication key: a key whose time has passed
  is missing.\<close>

definition live_dedupe :: "int \<Rightarrow> akeys \<Rightarrow> uid \<Rightarrow> dedupe slot" where
  "live_dedupe now k u =
     (case k_dedupe k u of
        Present d \<Rightarrow> (case d_expireAt d of
            None \<Rightarrow> Present d | Some x \<Rightarrow> (if x < now then Absent else Present d))
      | s \<Rightarrow> s)"

abbreviation dedupe_at :: "int \<Rightarrow> akeys \<Rightarrow> uid \<Rightarrow> dedupe" where
  "dedupe_at now k u \<equiv> slot_get empty_dedupe (live_dedupe now k u)"

text \<open>Replies of the scripts. \<^verbatim>\<open>ScriptErr\<close> is a script that stopped on a failed command,
  with whatever it had written before.\<close>

datatype rval = RInt int | RStr string | RJson json | RState "auction_state option"

datatype reply = Reply code "rval list" | ScriptErr

fun reply_code :: "reply \<Rightarrow> code option" where
  "reply_code (Reply c vs) = Some c"
| "reply_code ScriptErr = None"

text \<open>Redis \<^verbatim>\<open>TIME\<close> (seconds, microseconds) in milliseconds, as every script computes it.\<close>

definition redis_now :: "int \<times> int \<Rightarrow> int" where
  "redis_now t = fst t * 1000 + snd t div 1000"

section \<open>Writing\<close>

text \<open>Append an event under \<^verbatim>\<open><seq>-0\<close> and publish the fan-out hint.\<close>

definition append_event :: "int \<Rightarrow> msg_type \<Rightarrow> json \<Rightarrow> akeys \<Rightarrow> akeys option" where
  "append_event q t p k =
     (case xadd (seq_entry q t p) (events_of k) of
        None \<Rightarrow> None
      | Some es \<Rightarrow> Some (k\<lparr>k_events := Present es\<rparr>))"

definition publish :: "int \<Rightarrow> msg_type \<Rightarrow> json \<Rightarrow> akeys \<Rightarrow> akeys" where
  "publish q t p k = k\<lparr>k_pub := k_pub k @ [(t, q, p)]\<rparr>"

definition set_hash :: "room_hash \<Rightarrow> akeys \<Rightarrow> akeys" where
  "set_hash h k = k\<lparr>k_state := Present h\<rparr>"

text \<open>Keep each member's greatest accepted score, without \<^verbatim>\<open>ZADD GT\<close>.\<close>

definition raise_score :: "uid \<Rightarrow> int \<Rightarrow> zset \<Rightarrow> zset" where
  "raise_score u amount z =
     (case zscore z u of
        None \<Rightarrow> zadd u amount z
      | Some s \<Rightarrow> (if s < amount then zadd u amount z else z))"

lemma live_dedupe_frame [simp]:
  "live_dedupe now (k\<lparr>k_state := a\<rparr>) u = live_dedupe now k u"
  "live_dedupe now (k\<lparr>k_leaderboard := b\<rparr>) u = live_dedupe now k u"
  "live_dedupe now (k\<lparr>k_events := c\<rparr>) u = live_dedupe now k u"
  "live_dedupe now (k\<lparr>k_sealed := d\<rparr>) u = live_dedupe now k u"
  "live_dedupe now (k\<lparr>k_sealednames := e\<rparr>) u = live_dedupe now k u"
  "live_dedupe now (k\<lparr>k_pub := f\<rparr>) u = live_dedupe now k u"
  by (simp_all add: live_dedupe_def)

text \<open>\<^verbatim>\<open>EXPIRE key 86400\<close>: a day from now.\<close>

definition dedupe_ms :: int where
  "dedupe_ms = 86400 * 1000"

definition cache_ack :: "uid \<Rightarrow> bidid \<Rightarrow> json \<Rightarrow> int \<Rightarrow> akeys \<Rightarrow> akeys" where
  "cache_ack u cb j now k =
     k\<lparr>k_dedupe := (k_dedupe k)(u := Present
        ((dedupe_at now k u)\<lparr>d_acks := (d_acks (dedupe_at now k u))(cb \<mapsto> j),
           d_expireAt := Some (now + dedupe_ms)\<rparr>))\<rparr>"

lemma cache_ack_frame [frame_simps]:
  "k_state (cache_ack u c j now k) = k_state k" "k_leaderboard (cache_ack u c j now k) = k_leaderboard k"
  "k_events (cache_ack u c j now k) = k_events k" "k_sealed (cache_ack u c j now k) = k_sealed k"
  "k_sealednames (cache_ack u c j now k) = k_sealednames k" "k_pub (cache_ack u c j now k) = k_pub k"
  by (simp_all add: cache_ack_def)

text \<open>\<^verbatim>\<open>ensure_dedupe_ttl\<close>: only a key without a deadline gets one.\<close>

definition ensure_dedupe_ttl :: "uid \<Rightarrow> int \<Rightarrow> akeys \<Rightarrow> akeys" where
  "ensure_dedupe_ttl u now k =
     (case live_dedupe now k u of
        Present d \<Rightarrow> (if d_expireAt d = None
                        then k\<lparr>k_dedupe := (k_dedupe k)(u := Present (d\<lparr>d_expireAt := Some (now + dedupe_ms)\<rparr>))\<rparr>
                        else k)
      | _ \<Rightarrow> k)"

lemma raise_score_ok: "zset_ok z \<Longrightarrow> zset_ok (raise_score u a z)"
  by (auto simp: raise_score_def zadd_ok split: option.splits)

lemma zscore_raise_score:
  "zscore (raise_score u a z) m =
     (if m = u then Some (case zscore z u of None \<Rightarrow> a | Some s \<Rightarrow> max s a) else zscore z m)"
  by (auto simp: raise_score_def split: option.splits)

lemma ensure_ttl_frame [frame_simps]:
  "k_state (ensure_dedupe_ttl u now k) = k_state k"
  "k_leaderboard (ensure_dedupe_ttl u now k) = k_leaderboard k"
  "k_events (ensure_dedupe_ttl u now k) = k_events k"
  "k_sealed (ensure_dedupe_ttl u now k) = k_sealed k"
  "k_sealednames (ensure_dedupe_ttl u now k) = k_sealednames k"
  "k_pub (ensure_dedupe_ttl u now k) = k_pub k"
  by (auto simp: ensure_dedupe_ttl_def split: slot.splits)

lemma live_dedupe_Present: "live_dedupe now k u = Present d \<longleftrightarrow>
    k_dedupe k u = Present d \<and> (\<forall>x. d_expireAt d = Some x \<longrightarrow> now \<le> x)"
  by (auto simp: live_dedupe_def not_less split: slot.splits option.splits if_splits)

lemma live_dedupe_cong: "k_dedupe k' u = k_dedupe k u \<Longrightarrow> live_dedupe now k' u = live_dedupe now k u"
  by (simp add: live_dedupe_def)

lemma ensure_ttl_dedupe_type:
  "bad_type (k_dedupe (ensure_dedupe_ttl u now k) v) = bad_type (k_dedupe k v)"
  by (auto simp: ensure_dedupe_ttl_def live_dedupe_Present split: slot.splits)

text \<open>An ack that a command at time \<open>T\<close> would find.\<close>

lemma ack_at_iff: "d_acks (dedupe_at T k u) c = Some j \<longleftrightarrow>
    (\<exists>d. k_dedupe k u = Present d \<and> d_acks d c = Some j \<and> (\<forall>x. d_expireAt d = Some x \<longrightarrow> T \<le> x))"
  by (cases "live_dedupe T k u")
     (auto simp: empty_dedupe_def live_dedupe_def split: slot.splits option.splits if_splits)

text \<open>Caching another ack, or giving the key its deadline, loses no ack for a day.\<close>

lemma cache_ack_holds:
  assumes "d_acks (dedupe_at T k u) c = Some j" "now \<le> T" "T \<le> now + dedupe_ms" "v = u \<longrightarrow> c \<noteq> cb"
  shows "d_acks (dedupe_at T (cache_ack v cb j' now k) u) c = Some j"
proof -
  obtain d where d: "k_dedupe k u = Present d" "d_acks d c = Some j" "\<forall>x. d_expireAt d = Some x \<longrightarrow> T \<le> x"
    using assms(1) by (auto simp: ack_at_iff)
  then have "live_dedupe now k u = Present d" using assms(2) by (auto simp: live_dedupe_Present)
  then show ?thesis using d assms by (auto simp: ack_at_iff cache_ack_def)
qed

lemma ensure_ttl_holds:
  assumes "d_acks (dedupe_at T k u) c = Some j" "T \<le> now + dedupe_ms"
  shows "d_acks (dedupe_at T (ensure_dedupe_ttl v now k) u) c = Some j"
proof -
  obtain d where d: "k_dedupe k u = Present d" "d_acks d c = Some j" "\<forall>x. d_expireAt d = Some x \<longrightarrow> T \<le> x"
    using assms(1) by (auto simp: ack_at_iff)
  show ?thesis
  proof (cases "v = u \<and> d_expireAt d = None")
    case True
    then have "live_dedupe now k u = Present d" using d by (simp add: live_dedupe_Present)
    then show ?thesis using True d assms(2) by (auto simp: ensure_dedupe_ttl_def ack_at_iff)
  next
    case False
    then have "k_dedupe (ensure_dedupe_ttl v now k) u = k_dedupe k u"
      using d(1) by (auto simp: ensure_dedupe_ttl_def live_dedupe_Present split: slot.splits)
    then show ?thesis using assms(1) live_dedupe_cong by metis
  qed
qed

lemma cache_ack_found: "now \<le> T \<Longrightarrow> T \<le> now + dedupe_ms \<Longrightarrow>
    d_acks (dedupe_at T (cache_ack u cb j now k) u) cb = Some j"
  by (auto simp: ack_at_iff cache_ack_def)

end
