(* ===== verification/Room.thy ===== *)
theory Room
  imports Redis
begin

text \<open>
  The invariant of one auction's keys and the contract every hot-path script obeys.
  \<^verbatim>\<open>room_inv\<close> says that the event log holds exactly the ids \<^verbatim>\<open>1-0 .. n-0\<close> with the
  same \<^verbatim>\<open>seq\<close> fields and that the counter in the state hash is \<^verbatim>\<open>n\<close> (one gap-free
  sequence), that nothing was logged before the auction went live, that a terminal event
  is the last one and is there exactly when the status is terminal, and that both sorted
  sets are well-formed. The locale \<^verbatim>\<open>hot_script\<close> states what the callers of a script
  rely on; every script theory interprets it.
\<close>

section \<open>The gap-free log\<close>

definition log_ok :: "entry list \<Rightarrow> bool" where
  "log_ok es \<longleftrightarrow> map e_id es = map (\<lambda>i. (int i + 1, 0)) [0..<length es]
                \<and> map e_seq es = map (\<lambda>i. int i + 1) [0..<length es]"

lemma log_ok_Nil [simp]: "log_ok []"
  by (simp add: log_ok_def)

lemma log_ok_snoc: "log_ok es \<Longrightarrow> q = int (length es) + 1 \<Longrightarrow> log_ok (es @ [seq_entry q t p])"
  by (simp add: log_ok_def)

lemma log_ok_lastStreamSeq: "log_ok es \<Longrightarrow> lastStreamSeq es = int (length es)"
proof (cases es rule: rev_cases)
  case (snoc xs x)
  moreover assume "log_ok es"
  ultimately show ?thesis by (simp add: log_ok_def)
qed simp

lemma log_ok_nth_seq: "log_ok es \<Longrightarrow> i < length es \<Longrightarrow> e_seq (es ! i) = int i + 1"
proof -
  assume l: "log_ok es" and i: "i < length es"
  have "map e_seq es ! i = map (\<lambda>i. int i + 1) [0..<length es] ! i"
    using l by (simp add: log_ok_def)
  with i show ?thesis by simp
qed

lemma log_ok_nth_id: "log_ok es \<Longrightarrow> i < length es \<Longrightarrow> e_id (es ! i) = (int i + 1, 0)"
proof -
  assume l: "log_ok es" and i: "i < length es"
  have "map e_id es ! i = map (\<lambda>i. (int i + 1, 0)) [0..<length es] ! i"
    using l by (simp add: log_ok_def)
  with i show ?thesis by simp
qed

lemma log_ok_prefix: "log_ok (es @ fs) \<Longrightarrow> log_ok es"
  by (simp add: log_ok_def upt_add_eq_append [of 0 "length es" "length fs"])

section \<open>Terminal events\<close>

fun final_event :: "msg_type \<Rightarrow> bool" where
  "final_event AUCTION_SOLD = True"
| "final_event AUCTION_NO_BID = True"
| "final_event AUCTION_CANCELLED = True"
| "final_event _ = False"

definition has_final :: "entry list \<Rightarrow> bool" where
  "has_final es \<longleftrightarrow> (\<exists>e\<in>set es. final_event (e_type e))"

definition ends_final :: "entry list \<Rightarrow> bool" where
  "ends_final es \<longleftrightarrow> es \<noteq> [] \<and> final_event (e_type (last es)) \<and> \<not> has_final (butlast es)"

lemma has_final_simps [simp]:
  "\<not> has_final []"
  "has_final (es @ fs) \<longleftrightarrow> has_final es \<or> has_final fs"
  "has_final (e # es) \<longleftrightarrow> final_event (e_type e) \<or> has_final es"
  by (auto simp: has_final_def)

lemma ends_final_snoc [simp]:
  "ends_final (es @ [e]) \<longleftrightarrow> final_event (e_type e) \<and> \<not> has_final es"
  by (simp add: ends_final_def)

section \<open>The room invariant\<close>

definition status_terminal :: "room_hash \<Rightarrow> bool" where
  "status_terminal h \<longleftrightarrow> (case h_status h of None \<Rightarrow> False | Some s \<Rightarrow> IsTerminal s)"

definition not_started :: "room_hash \<Rightarrow> bool" where
  "not_started h \<longleftrightarrow> h_status h \<in> {None, Some DRAFT, Some SCHEDULED}"

definition room_inv :: "akeys \<Rightarrow> bool" where
  "room_inv k \<longleftrightarrow>
     log_ok (events_of k) \<and> h_seq (hash_of k) = int (length (events_of k))
     \<and> (not_started (hash_of k) \<longrightarrow> events_of k = [])
     \<and> (if status_terminal (hash_of k) then ends_final (events_of k) else \<not> has_final (events_of k))
     \<and> zset_ok (board_of k) \<and> zset_ok (sealed_of k)"

lemma room_inv_empty: "room_inv empty_keys"
  by (simp add: room_inv_def empty_keys_def empty_hash_def status_terminal_def)

lemma room_invD:
  assumes "room_inv k"
  shows "log_ok (events_of k)" "h_seq (hash_of k) = int (length (events_of k))"
    "0 \<le> h_seq (hash_of k)" "lastStreamSeq (events_of k) = h_seq (hash_of k)"
    "zset_ok (board_of k)" "zset_ok (sealed_of k)"
  using assms log_ok_lastStreamSeq [of "events_of k"] by (auto simp: room_inv_def)

lemma room_inv_live:
  "room_inv k \<Longrightarrow> h_status (hash_of k) = Some LIVE \<Longrightarrow> \<not> has_final (events_of k)"
  by (simp add: room_inv_def status_terminal_def)

text \<open>How an accepting script re-establishes the invariant: one event, or two.\<close>

lemma room_inv_append1:
  assumes "room_inv k" and "\<not> has_final (events_of k)"
    and "events_of k' = events_of k @ [seq_entry (h_seq (hash_of k) + 1) t p]"
    and "h_seq (hash_of k') = h_seq (hash_of k) + 1"
    and "status_terminal (hash_of k') \<longleftrightarrow> final_event t" and "\<not> not_started (hash_of k')"
    and "zset_ok (board_of k')" and "zset_ok (sealed_of k')"
  shows "room_inv k'"
  using assms room_invD [OF assms(1)]
  by (simp add: room_inv_def log_ok_snoc)

lemma room_inv_append2:
  assumes "room_inv k" and "\<not> has_final (events_of k)" and "\<not> final_event t1"
    and "events_of k' = events_of k @ [seq_entry (h_seq (hash_of k) + 1) t1 p1,
                                       seq_entry (h_seq (hash_of k) + 2) t2 p2]"
    and "h_seq (hash_of k') = h_seq (hash_of k) + 2"
    and "status_terminal (hash_of k') \<longleftrightarrow> final_event t2" and "\<not> not_started (hash_of k')"
    and "zset_ok (board_of k')" and "zset_ok (sealed_of k')"
  shows "room_inv k'"
proof -
  let ?e1 = "seq_entry (h_seq (hash_of k) + 1) t1 p1"
  let ?e2 = "seq_entry (h_seq (hash_of k) + 2) t2 p2"
  have ev: "events_of k' = (events_of k @ [?e1]) @ [?e2]" using assms(4) by simp
  have "log_ok (events_of k @ [?e1])"
    using room_invD [OF assms(1)] by (intro log_ok_snoc) auto
  then have "log_ok (events_of k')" unfolding ev
    using room_invD [OF assms(1)] by (intro log_ok_snoc) auto
  moreover have "ends_final (events_of k') \<longleftrightarrow> final_event t2"
    unfolding ev ends_final_snoc using assms(2,3) by simp
  moreover have "has_final (events_of k') \<longleftrightarrow> final_event t2"
    unfolding ev using assms(2,3) by simp
  moreover have "h_seq (hash_of k') = int (length (events_of k'))"
    unfolding ev using assms(5) room_invD [OF assms(1)] by simp
  ultimately show ?thesis using assms(6-9) by (simp add: room_inv_def)
qed

text \<open>A change that touches neither log, sets, status nor counter keeps it.\<close>

lemma room_inv_cong:
  assumes "room_inv k" "events_of k' = events_of k" "hash_of k' = hash_of k"
    "board_of k' = board_of k" "sealed_of k' = sealed_of k"
  shows "room_inv k'"
  using assms by (simp add: room_inv_def)

section \<open>The contract of a hot-path script\<close>

text \<open>A reply that reports success or a replay; every other reply promises no write.\<close>

fun accepting :: "reply \<Rightarrow> bool" where
  "accepting (Reply c vs) \<longleftrightarrow> c \<in> {OK_ACCEPTED, OK_EXTENDED, OK_SOLD, OK_NO_BID, OK_CANCELLED,
     OK_FROZEN, OK_LIVE, DUPLICATE}"
| "accepting ScriptErr \<longleftrightarrow> True"

lemma refusal_code: "\<not> accepting r \<Longrightarrow> reply_code r = Some c \<Longrightarrow> \<not> accepting (Reply c [])"
  by (cases r) auto

text \<open>What the rest of the system can see of an auction: everything but the
  deduplication hashes.\<close>

definition same_room :: "akeys \<Rightarrow> akeys \<Rightarrow> bool" where
  "same_room k k' \<longleftrightarrow> k_state k' = k_state k \<and> k_leaderboard k' = k_leaderboard k
     \<and> k_events k' = k_events k \<and> k_sealed k' = k_sealed k
     \<and> k_sealednames k' = k_sealednames k \<and> k_pub k' = k_pub k"

lemma same_room_refl [simp, intro]: "same_room k k"
  by (simp add: same_room_def)

lemma same_room_trans: "same_room a b \<Longrightarrow> same_room b c \<Longrightarrow> same_room a c"
  by (simp add: same_room_def)

lemma same_room_ensure_ttl [simp]: "same_room k (ensure_dedupe_ttl u now k)"
  by (simp add: same_room_def frame_simps)

lemma same_room_inv: "same_room k k' \<Longrightarrow> room_inv k \<Longrightarrow> room_inv k'"
  by (simp add: same_room_def room_inv_def)

locale hot_script =
  fixes run :: "'a \<Rightarrow> int \<times> int \<Rightarrow> akeys \<Rightarrow> reply \<times> akeys"
  assumes keeps_inv: "room_inv k \<Longrightarrow> room_inv (snd (run a t k))"
    and no_dirty_stop: "room_inv k \<Longrightarrow> fst (run a t k) \<noteq> ScriptErr"
    and refusal_writes_nothing: "\<not> accepting (fst (run a t k)) \<Longrightarrow> snd (run a t k) = k"
    and log_grows: "room_inv k \<Longrightarrow> \<exists>es. events_of (snd (run a t k)) = events_of k @ es"
    and terminal_frozen: "status_terminal (hash_of k) \<Longrightarrow> same_room k (snd (run a t k))"
begin

text \<open>A sequence of calls, with the time each one reads.\<close>

fun runs :: "('a \<times> int \<times> int) list \<Rightarrow> akeys \<Rightarrow> akeys" where
  "runs [] k = k"
| "runs ((a, t) # cs) k = runs cs (snd (run a t k))"

lemma runs_append: "runs (cs @ ds) k = runs ds (runs cs k)"
  by (induction cs k rule: runs.induct) auto

lemma runs_inv: "room_inv k \<Longrightarrow> room_inv (runs cs k)"
  by (induction cs k rule: runs.induct) (auto intro: keeps_inv)

lemma runs_log_prefix: "room_inv k \<Longrightarrow> \<exists>es. events_of (runs cs k) = events_of k @ es"
proof (induction cs k rule: runs.induct)
  case (2 a t cs k)
  then obtain es where "events_of (runs cs (snd (run a t k))) = events_of (snd (run a t k)) @ es"
    by (auto dest: keeps_inv)
  moreover obtain fs where "events_of (snd (run a t k)) = events_of k @ fs"
    using log_grows [OF 2(2)] by blast
  ultimately show ?case by auto
qed simp

lemma runs_terminal: "status_terminal (hash_of k) \<Longrightarrow> same_room k (runs cs k)"
proof (induction cs k rule: runs.induct)
  case (2 a t cs k)
  then have s: "same_room k (snd (run a t k))" by (auto dest: terminal_frozen)
  with 2(2) have "status_terminal (hash_of (snd (run a t k)))" by (simp add: same_room_def)
  with 2(1) s show ?case by (auto intro: same_room_trans)
qed simp

lemma runs_seq_contiguous:
  assumes "room_inv k" "i < length (events_of (runs cs k))"
  shows "e_seq (events_of (runs cs k) ! i) = int i + 1"
  using room_invD(1) [OF runs_inv [OF assms(1)]] assms(2) by (rule log_ok_nth_seq)

end

end
