(* ===== verification/PlaceBid.thy ===== *)
theory PlaceBid
  imports Room
begin

text \<open>
  \<^verbatim>\<open>place_bid.lua\<close>: the atomic bid of the ascending modes. The definitions follow the
  script's numbered steps: type guard, deduplication, state guards, time, amount, stream
  probe, accept, secondary event. Then: what each refusal means, what an accepted bid
  writes, and the interpretation of \<^verbatim>\<open>hot_script\<close>.
\<close>

record bid_args =
  ba_userId :: uid
  ba_clientBidId :: bidid
  ba_amountStr :: money
  ba_displayName :: string

section \<open>Steps 2 to 4: state, time and amount\<close>

definition cap_of :: "room_hash \<Rightarrow> int" where
  "cap_of h = num0 (h_capPriceCents h)"

definition required_bid :: "room_hash \<Rightarrow> int" where
  "required_bid h =
     (let required = lua_num (price_num h + num0 (h_incrementCents h))
      in if cap_of h > 0 \<and> required > cap_of h then cap_of h else required)"

definition bid_guard :: "room_hash \<Rightarrow> uid \<Rightarrow> int option \<Rightarrow> int \<Rightarrow> reply option" where
  "bid_guard h userId amount now =
     (if h_paused h then Some (Reply ERR_AUCTION_PAUSED [])
      else if h_status h \<noteq> Some LIVE then Some (Reply ERR_NOT_LIVE [RState (h_status h)])
      else if h_sellerId h \<noteq> [] \<and> userId = h_sellerId h
        then Some (Reply ERR_NOT_ALLOWED [RStr ''seller_self_bid''])
      else if now \<ge> h_endAtMs h then Some (Reply ERR_AFTER_END [RInt (h_endAtMs h), RInt now])
      else (case amount of
              None \<Rightarrow> Some (Reply ERR_TOO_LOW [RInt 0, RInt 0])
            | Some a \<Rightarrow>
                (if a \<le> 0 \<or> a > MaxMoneyCents then Some (Reply ERR_TOO_LOW [RInt a, RInt 0])
                 else if a < required_bid h
                   then Some (Reply ERR_TOO_LOW [RInt a, RInt (required_bid h)])
                 else if cap_of h > 0 \<and> a > cap_of h
                   then Some (Reply ERR_TOO_LOW [RInt a, RInt (required_bid h)])
                 else None)))"

section \<open>Steps 6 to 8: accept\<close>

definition cap_hit :: "room_hash \<Rightarrow> int \<Rightarrow> bool" where
  "cap_hit h amount \<longleftrightarrow> cap_of h > 0 \<and> amount \<ge> cap_of h"

definition anti_snipe :: "room_hash \<Rightarrow> int \<Rightarrow> int \<Rightarrow> bool" where
  "anti_snipe h amount now \<longleftrightarrow>
     \<not> cap_hit h amount \<and> h_extendWindowSec h > 0 \<and> h_extendSec h > 0
     \<and> h_endAtMs h - now \<le> h_extendWindowSec h * 1000
     \<and> (h_maxExtensions h \<le> 0 \<or> h_extendCount h < h_maxExtensions h)"

definition newEndAtMs :: "room_hash \<Rightarrow> int \<Rightarrow> int \<Rightarrow> int" where
  "newEndAtMs h amount now =
     (if anti_snipe h amount now then h_endAtMs h + h_extendSec h * 1000 else h_endAtMs h)"

text \<open>The state hash after the writes of step 6.\<close>

definition bid_hash :: "bid_args \<Rightarrow> int \<Rightarrow> int \<Rightarrow> room_hash \<Rightarrow> room_hash" where
  "bid_hash b amount now h =
     (let h1 = h\<lparr>h_seq := h_seq h + 1, h_bidCount := h_bidCount h + 1,
                 h_currentPriceCents := Some (ba_amountStr b), h_winnerId := ba_userId b\<rparr>;
          h2 = (if anti_snipe h amount now
                then h1\<lparr>h_extendCount := h_extendCount h + 1,
                        h_endAtMs := newEndAtMs h amount now\<rparr>
                else h1)
      in if cap_hit h amount then h2\<lparr>h_status := Some SOLD\<rparr> else h2)"

definition bid_payload :: "bid_args \<Rightarrow> int \<Rightarrow> int \<Rightarrow> room_hash \<Rightarrow> json" where
  "bid_payload b amount now h =
     bid_json (h_seq h + 1) (ba_userId b) (ba_displayName b) (ba_amountStr b)
       (newEndAtMs h amount now) (if cap_hit h amount then SOLD else LIVE)
       (h_bidCount h + 1) now"

text \<open>
  Steps 7 and 8, shared with the hybrid script: append and publish the bid event, cache
  the ack, then the extension or the sale under the next sequence number. \<^verbatim>\<open>h'\<close> is the
  state hash after step 6, \<^verbatim>\<open>ack\<close> what the bidder gets, \<^verbatim>\<open>bid\<close> what the room sees.
\<close>

definition commit_bid ::
  "bid_args \<Rightarrow> int \<Rightarrow> int \<Rightarrow> room_hash \<Rightarrow> room_hash \<Rightarrow> json \<Rightarrow> json \<Rightarrow> akeys \<Rightarrow> reply \<times> akeys" where
  "commit_bid b amount now h h' ack bid k =
     (let seq = h_seq h + 1; seq2 = seq + 1;
          k1 = (set_hash h' k)\<lparr>k_leaderboard :=
                 Present (raise_score (ba_userId b) amount (board_of k))\<rparr>
      in case append_event seq BID_ACCEPTED bid k1 of
           None \<Rightarrow> (ScriptErr, k1)
         | Some k2 \<Rightarrow>
             (let k3 = publish seq BID_ACCEPTED bid
                         (cache_ack (ba_userId b) (ba_clientBidId b) ack now k2)
              in if anti_snipe h amount now then
                   (let ext = ext_json seq2 (newEndAtMs h amount now) (h_extendCount h + 1) now;
                        k4 = set_hash (h'\<lparr>h_seq := seq2\<rparr>) k3
                    in case append_event seq2 AUCTION_EXTENDED ext k4 of
                         None \<Rightarrow> (ScriptErr, k4)
                       | Some k5 \<Rightarrow>
                           (Reply OK_EXTENDED [RInt seq, RJson ack, RInt seq2, RJson ext],
                            publish seq2 AUCTION_EXTENDED ext k5))
                 else if cap_hit h amount then
                   (let sold = sold_json seq2 (ba_userId b) (ba_amountStr b) now;
                        k4 = set_hash (h'\<lparr>h_seq := seq2\<rparr>) k3
                    in case append_event seq2 AUCTION_SOLD sold k4 of
                         None \<Rightarrow> (ScriptErr, k4)
                       | Some k5 \<Rightarrow>
                           (Reply OK_SOLD [RInt seq, RJson ack, RInt seq2, RJson sold],
                            publish seq2 AUCTION_SOLD sold k5))
                 else (Reply OK_ACCEPTED [RInt seq, RJson ack], k3)))"

section \<open>The script\<close>

definition bid_keys_bad :: "uid \<Rightarrow> akeys \<Rightarrow> bool" where
  "bid_keys_bad u k \<longleftrightarrow> bad_type (k_state k) \<or> bad_type (k_leaderboard k)
     \<or> bad_type (k_events k) \<or> bad_type (k_dedupe k u)"

text \<open>Steps 0 to 5, the same in the ascending and the hybrid script: every way not to
  accept. \<^verbatim>\<open>accept\<close> is the rest of the script, given the amount, the time and the state
  that was read.\<close>

definition bid_prologue ::
  "bid_args \<Rightarrow> int \<times> int \<Rightarrow> akeys \<Rightarrow> (int \<Rightarrow> int \<Rightarrow> room_hash \<Rightarrow> reply \<times> akeys) \<Rightarrow> reply \<times> akeys" where
  "bid_prologue b t k accept =
     (if bid_keys_bad (ba_userId b) k then (Reply ERR_INTERNAL [RStr ''key_type''], k)
      else case d_acks (dedupe_at (redis_now t) k (ba_userId b)) (ba_clientBidId b) of
        Some cached \<Rightarrow> (Reply DUPLICATE [RJson cached], ensure_dedupe_ttl (ba_userId b) (redis_now t) k)
      | None \<Rightarrow>
          (let h = hash_of k; now = redis_now t
           in case bid_guard h (ba_userId b) (tonumber (ba_amountStr b)) now of
                Some r \<Rightarrow> (r, k)
              | None \<Rightarrow>
                  (if lastStreamSeq (events_of k) \<noteq> h_seq h
                   then (Reply ERR_INTERNAL [RStr ''seq_stream_mismatch''], k)
                   else accept (num0 (ba_amountStr b)) now h)))"

definition place_bid :: "bid_args \<Rightarrow> int \<times> int \<Rightarrow> akeys \<Rightarrow> reply \<times> akeys" where
  "place_bid b t k =
     bid_prologue b t k (\<lambda>amount now h.
       commit_bid b amount now h (bid_hash b amount now h)
         (bid_payload b amount now h) (bid_payload b amount now h) k)"

section \<open>The guards, read back\<close>

lemma bid_guard_None_iff:
  "bid_guard h u (Some a) now = None \<longleftrightarrow> \<not> h_paused h \<and> h_status h = Some LIVE
     \<and> \<not> (h_sellerId h \<noteq> [] \<and> u = h_sellerId h) \<and> now < h_endAtMs h
     \<and> 0 < a \<and> a \<le> MaxMoneyCents \<and> required_bid h \<le> a \<and> \<not> (cap_of h > 0 \<and> a > cap_of h)"
  by (simp add: bid_guard_def not_le not_less)

text \<open>The sum of price and increment is a float64 too; amounts are small enough for the comparison
  to be exact.\<close>

lemma required_le:
  assumes "0 \<le> a" "a \<le> MaxMoneyCents"
  shows "required_bid h \<le> a \<longleftrightarrow> price_num h + num0 (h_incrementCents h) \<le> a \<or> (cap_of h > 0 \<and> cap_of h \<le> a)"
proof -
  have "lua_num (price_num h + num0 (h_incrementCents h)) \<le> a \<longleftrightarrow> price_num h + num0 (h_incrementCents h) \<le> a"
    using assms by (intro lua_num_le_iff) (auto simp: MaxMoneyCents_def)
  then show ?thesis by (auto simp: required_bid_def Let_def)
qed

lemma bid_guard_NoneD:
  assumes "bid_guard h u (tonumber s) now = None"
  shows "\<not> h_paused h" "h_status h = Some LIVE" "h_sellerId h \<noteq> [] \<Longrightarrow> u \<noteq> h_sellerId h"
    "now < h_endAtMs h" "tonumber s = Some (num0 s)" "0 < num0 s" "num0 s \<le> MaxMoneyCents"
    "required_bid h \<le> num0 s" "cap_of h > 0 \<Longrightarrow> num0 s \<le> cap_of h"
  using assms by (auto simp: bid_guard_def num0_def split: if_splits option.splits)

lemma bid_guard_refuses: "bid_guard h u a now = Some r \<Longrightarrow> \<not> accepting r"
  by (auto simp: bid_guard_def split: if_splits option.splits)

lemma bid_guard_terminal: "status_terminal h \<Longrightarrow> bid_guard h u a now \<noteq> None"
  by (auto simp: bid_guard_def status_terminal_def)

section \<open>What committing writes\<close>

text \<open>The events of an accepted bid, and the counter after it.\<close>

definition second_event :: "bid_args \<Rightarrow> int \<Rightarrow> int \<Rightarrow> room_hash \<Rightarrow> (msg_type \<times> json) option" where
  "second_event b amount now h =
     (if anti_snipe h amount now
      then Some (AUCTION_EXTENDED, ext_json (h_seq h + 2) (newEndAtMs h amount now) (h_extendCount h + 1) now)
      else if cap_hit h amount
      then Some (AUCTION_SOLD, sold_json (h_seq h + 2) (ba_userId b) (ba_amountStr b) now)
      else None)"

definition bid_events :: "bid_args \<Rightarrow> int \<Rightarrow> int \<Rightarrow> room_hash \<Rightarrow> json \<Rightarrow> (int \<times> msg_type \<times> json) list" where
  "bid_events b amount now h bid =
     (h_seq h + 1, BID_ACCEPTED, bid) #
     (case second_event b amount now h of None \<Rightarrow> [] | Some (t, p) \<Rightarrow> [(h_seq h + 2, t, p)])"

definition entries :: "(int \<times> msg_type \<times> json) list \<Rightarrow> entry list" where
  "entries xs = map (\<lambda>(q, t, p). seq_entry q t p) xs"

definition bid_reply :: "bid_args \<Rightarrow> int \<Rightarrow> int \<Rightarrow> room_hash \<Rightarrow> json \<Rightarrow> reply" where
  "bid_reply b amount now h ack =
     (case second_event b amount now h of
        None \<Rightarrow> Reply OK_ACCEPTED [RInt (h_seq h + 1), RJson ack]
      | Some (t, p) \<Rightarrow> Reply (if t = AUCTION_EXTENDED then OK_EXTENDED else OK_SOLD)
          [RInt (h_seq h + 1), RJson ack, RInt (h_seq h + 2), RJson p])"

text \<open>With the probe passed, committing never stops half-way and its result is the
  closed form below.\<close>

lemma commit_bid_eq:
  assumes "lastStreamSeq (events_of k) = h_seq h" "0 \<le> h_seq h" "h_seq h' = h_seq h + 1"
  shows "commit_bid b amount now h h' ack bid k =
    (bid_reply b amount now h ack,
     (cache_ack (ba_userId b) (ba_clientBidId b) ack now k)
       \<lparr>k_state := Present (h'\<lparr>h_seq := h_seq h + int (length (bid_events b amount now h bid))\<rparr>),
        k_leaderboard := Present (raise_score (ba_userId b) amount (board_of k)),
        k_events := Present (events_of k @ entries (bid_events b amount now h bid)),
        k_pub := k_pub k @ map (\<lambda>(q, t, p). (t, q, p)) (bid_events b amount now h bid)\<rparr>)"
proof -
  have two: "2 + h_seq h = h_seq h + 2" "h_seq h + 1 + 1 = h_seq h + 2" by simp_all
  have x1: "xadd (seq_entry (h_seq h + 1) BID_ACCEPTED bid) (events_of k)
      = Some (events_of k @ [seq_entry (h_seq h + 1) BID_ACCEPTED bid])"
    using assms(2,1) by (rule xadd_next)
  have x2: "xadd (seq_entry (h_seq h + 2) t p) (events_of k @ [seq_entry (h_seq h + 1) BID_ACCEPTED bid])
      = Some ((events_of k @ [seq_entry (h_seq h + 1) BID_ACCEPTED bid]) @ [seq_entry (h_seq h + 2) t p])"
    for t p
    using xadd_next [of "h_seq h + 1" "events_of k @ [seq_entry (h_seq h + 1) BID_ACCEPTED bid]" t p] assms(2)
    unfolding two by simp
  show ?thesis
    using assms(3) x1 x2
    by (auto simp: commit_bid_def Let_def append_event_def set_hash_def publish_def cache_ack_def
        bid_reply_def bid_events_def second_event_def entries_def two)
qed

lemma commit_bid_code:
  "fst (commit_bid b amount now h h' ack bid k) \<in>
     {ScriptErr} \<union> {Reply c vs | c vs. c \<in> {OK_ACCEPTED, OK_EXTENDED, OK_SOLD}}"
  by (auto simp: commit_bid_def Let_def split: option.splits)

lemma commit_bid_accepting: "accepting (fst (commit_bid b amount now h h' ack bid k))"
  using commit_bid_code [of b amount now h h' ack bid k] by auto


lemma anti_snipe_no_cap: "anti_snipe h a now \<Longrightarrow> \<not> cap_hit h a"
  by (simp add: anti_snipe_def)

lemma commit_bid_inv:
  assumes inv: "room_inv k" and live: "h_status (hash_of k) = Some LIVE"
    and seq': "h_seq h' = h_seq (hash_of k) + 1"
    and st': "h_status h' = (if cap_hit (hash_of k) amount then Some SOLD else Some LIVE)"
  shows "room_inv (snd (commit_bid b amount now (hash_of k) h' ack bid k))"
proof -
  let ?h = "hash_of k"
  let ?k' = "snd (commit_bid b amount now ?h h' ack bid k)"
  note eq = commit_bid_eq [OF room_invD(4) [OF inv] room_invD(3) [OF inv] seq']
  have nf: "\<not> has_final (events_of k)" using inv live by (rule room_inv_live)
  have zs: "zset_ok (board_of ?k')" "zset_ok (sealed_of ?k')"
    using room_invD(5,6) [OF inv] by (simp_all add: eq cache_ack_def raise_score_ok)
  show ?thesis
  proof (cases "second_event b amount now ?h")
    case None
    then have nc: "\<not> cap_hit ?h amount" by (auto simp: second_event_def split: if_splits)
    show ?thesis
    proof (rule room_inv_append1 [OF inv nf _ _ _ _ zs])
      show "events_of ?k' = events_of k @ [seq_entry (h_seq ?h + 1) BID_ACCEPTED bid]"
        using None by (simp add: eq bid_events_def entries_def)
      show "h_seq (hash_of ?k') = h_seq ?h + 1"
        using None by (simp add: eq bid_events_def)
      show "status_terminal (hash_of ?k') \<longleftrightarrow> final_event BID_ACCEPTED"
        using nc st' by (simp add: eq status_terminal_def)
      show "\<not> not_started (hash_of ?k')"
        using nc st' by (simp add: eq not_started_def)
    qed
  next
    case (Some tp)
    then obtain t2 p2 where tp: "second_event b amount now ?h = Some (t2, p2)" by (cases tp) auto
    then have t2: "final_event t2 \<longleftrightarrow> cap_hit ?h amount"
      by (auto simp: second_event_def dest: anti_snipe_no_cap split: if_splits)
    show ?thesis
    proof (rule room_inv_append2 [OF inv nf _ _ _ _ _ zs])
      show "\<not> final_event BID_ACCEPTED" by simp
      show "events_of ?k' = events_of k @ [seq_entry (h_seq ?h + 1) BID_ACCEPTED bid,
              seq_entry (h_seq ?h + 2) t2 p2]"
        using tp by (simp add: eq bid_events_def entries_def)
      show "h_seq (hash_of ?k') = h_seq ?h + 2"
        using tp by (simp add: eq bid_events_def)
      show "status_terminal (hash_of ?k') \<longleftrightarrow> final_event t2"
        using st' t2 by (simp add: eq status_terminal_def)
      show "\<not> not_started (hash_of ?k')"
        using st' by (simp add: eq not_started_def)
    qed
  qed
qed

section \<open>The three outcomes of the script\<close>

lemma bid_prologue_cases:
  obtains (refused) r where "bid_prologue b t k acc = (r, k)" "\<not> accepting r"
  | (replayed) cached where
      "bid_prologue b t k acc = (Reply DUPLICATE [RJson cached], ensure_dedupe_ttl (ba_userId b) (redis_now t) k)"
      "d_acks (dedupe_at (redis_now t) k (ba_userId b)) (ba_clientBidId b) = Some cached"
      "\<not> bid_keys_bad (ba_userId b) k"
  | (accepted)
      "\<not> bid_keys_bad (ba_userId b) k"
      "d_acks (dedupe_at (redis_now t) k (ba_userId b)) (ba_clientBidId b) = None"
      "bid_guard (hash_of k) (ba_userId b) (tonumber (ba_amountStr b)) (redis_now t) = None"
      "lastStreamSeq (events_of k) = h_seq (hash_of k)"
      "bid_prologue b t k acc = acc (num0 (ba_amountStr b)) (redis_now t) (hash_of k)"
proof (cases "bid_keys_bad (ba_userId b) k")
  case True
  then show ?thesis by (intro refused) (auto simp: bid_prologue_def)
next
  case ok: False
  show ?thesis
  proof (cases "d_acks (dedupe_at (redis_now t) k (ba_userId b)) (ba_clientBidId b)")
    case (Some c)
    with ok show ?thesis by (intro replayed) (auto simp: bid_prologue_def)
  next
    case new: None
    show ?thesis
    proof (cases "bid_guard (hash_of k) (ba_userId b) (tonumber (ba_amountStr b)) (redis_now t)")
      case (Some r)
      with ok new bid_guard_refuses [OF Some] show ?thesis
        by (intro refused) (auto simp: bid_prologue_def Let_def)
    next
      case pass: None
      show ?thesis
      proof (cases "lastStreamSeq (events_of k) = h_seq (hash_of k)")
        case True
        with ok new pass show ?thesis by (intro accepted) (auto simp: bid_prologue_def Let_def)
      next
        case False
        with ok new pass show ?thesis
          by (intro refused) (auto simp: bid_prologue_def Let_def)
      qed
    qed
  qed
qed

text \<open>A script made of this prologue and a commit obeys the contract. \<^verbatim>\<open>next\<close> is the state
  hash it writes, \<^verbatim>\<open>bid\<close> and \<^verbatim>\<open>ack\<close> the payloads it builds.\<close>

lemma bid_script_contract:
  assumes nx: "\<And>b a now h. h_seq (nxt b a now h) = h_seq h + 1"
      "\<And>b a now h. h_status h = Some LIVE \<Longrightarrow>
         h_status (nxt b a now h) = (if cap_hit h a then Some SOLD else Some LIVE)"
    and run: "\<And>b t k. run b t k = bid_prologue b t k (\<lambda>a now h.
         commit_bid b a now h (nxt b a now h) (ack b a now h) (bid b a now h) k)"
  shows "hot_script run"
proof unfold_locales
  fix k b t
  assume inv: "room_inv k"
  show "room_inv (snd (run b t k))"
  proof (cases rule: bid_prologue_cases [of b t k "\<lambda>a now h.
         commit_bid b a now h (nxt b a now h) (ack b a now h) (bid b a now h) k"])
    case accepted
    then show ?thesis
      using bid_guard_NoneD(2) [OF accepted(3)] inv by (simp add: commit_bid_inv nx run)
  qed (use inv in \<open>auto simp: run intro: same_room_inv [OF same_room_ensure_ttl]\<close>)
  show "fst (run b t k) \<noteq> ScriptErr"
  proof (cases rule: bid_prologue_cases [of b t k "\<lambda>a now h.
         commit_bid b a now h (nxt b a now h) (ack b a now h) (bid b a now h) k"])
    case accepted
    then show ?thesis
      using commit_bid_eq [OF room_invD(4) [OF inv] room_invD(3) [OF inv]] nx
      by (simp add: bid_reply_def run split: option.splits)
  qed (auto simp: run)
  show "\<exists>es. events_of (snd (run b t k)) = events_of k @ es"
  proof (cases rule: bid_prologue_cases [of b t k "\<lambda>a now h.
         commit_bid b a now h (nxt b a now h) (ack b a now h) (bid b a now h) k"])
    case accepted
    then show ?thesis
      using commit_bid_eq [OF room_invD(4) [OF inv] room_invD(3) [OF inv]] nx by (simp add: run)
  qed (auto simp: frame_simps run)
next
  fix k b t
  assume "\<not> accepting (fst (run b t k))"
  then show "snd (run b t k) = k"
    by (cases rule: bid_prologue_cases [of b t k "\<lambda>a now h.
         commit_bid b a now h (nxt b a now h) (ack b a now h) (bid b a now h) k"])
      (auto simp: commit_bid_accepting run)
next
  fix k b t
  assume "status_terminal (hash_of k)"
  then show "same_room k (snd (run b t k))"
    by (cases rule: bid_prologue_cases [of b t k "\<lambda>a now h.
         commit_bid b a now h (nxt b a now h) (ack b a now h) (bid b a now h) k"])
      (auto simp: run dest: bid_guard_terminal)
qed

lemma bid_hash_sel [simp]:
  "h_seq (bid_hash b a now h) = h_seq h + 1"
  "h_status h = Some LIVE \<Longrightarrow>
     h_status (bid_hash b a now h) = (if cap_hit h a then Some SOLD else Some LIVE)"
  "h_currentPriceCents (bid_hash b a now h) = Some (ba_amountStr b)"
  "h_winnerId (bid_hash b a now h) = ba_userId b"
  "h_endAtMs (bid_hash b a now h) = newEndAtMs h a now"
  "h_bidCount (bid_hash b a now h) = h_bidCount h + 1"
  "h_extendCount (bid_hash b a now h) = h_extendCount h + (if anti_snipe h a now then 1 else 0)"
  "h_capPriceCents (bid_hash b a now h) = h_capPriceCents h"
  "h_incrementCents (bid_hash b a now h) = h_incrementCents h"
  "h_startPriceCents (bid_hash b a now h) = h_startPriceCents h"
  "h_sellerId (bid_hash b a now h) = h_sellerId h"
  "h_mode (bid_hash b a now h) = h_mode h"
  "h_extendWindowSec (bid_hash b a now h) = h_extendWindowSec h"
  "h_extendSec (bid_hash b a now h) = h_extendSec h"
  "h_maxExtensions (bid_hash b a now h) = h_maxExtensions h"
  "h_paused (bid_hash b a now h) = h_paused h"
  "h_winnerDisplayName (bid_hash b a now h) = h_winnerDisplayName h"
  by (auto simp: bid_hash_def Let_def newEndAtMs_def)

lemma place_bid_cases:
  obtains (refused) r where "place_bid b t k = (r, k)" "\<not> accepting r"
  | (replayed) cached where
      "place_bid b t k = (Reply DUPLICATE [RJson cached], ensure_dedupe_ttl (ba_userId b) (redis_now t) k)"
      "d_acks (dedupe_at (redis_now t) k (ba_userId b)) (ba_clientBidId b) = Some cached"
  | (accepted)
      "bid_guard (hash_of k) (ba_userId b) (tonumber (ba_amountStr b)) (redis_now t) = None"
      "d_acks (dedupe_at (redis_now t) k (ba_userId b)) (ba_clientBidId b) = None"
      "lastStreamSeq (events_of k) = h_seq (hash_of k)"
      "place_bid b t k =
         commit_bid b (num0 (ba_amountStr b)) (redis_now t) (hash_of k)
           (bid_hash b (num0 (ba_amountStr b)) (redis_now t) (hash_of k))
           (bid_payload b (num0 (ba_amountStr b)) (redis_now t) (hash_of k))
           (bid_payload b (num0 (ba_amountStr b)) (redis_now t) (hash_of k)) k"
  unfolding place_bid_def by (rule bid_prologue_cases) blast+

interpretation ascending: hot_script place_bid
  by (rule bid_script_contract [OF _ _ place_bid_def]) simp_all

text \<open>The ascending script leaves the sealed bids alone.\<close>

lemma place_bid_sealed_of:
  assumes "room_inv k"
  shows "k_sealed (snd (place_bid b t k)) = k_sealed k"
  using room_invD(3,4) [OF assms]
  by (cases rule: place_bid_cases [of b t k])
     (simp_all add: commit_bid_eq cache_ack_def ensure_dedupe_ttl_def Let_def split: slot.splits)

end
