(* ===== verification/HybridBid.thy ===== *)
theory HybridBid
  imports PlaceBid
begin

text \<open>
  \<^verbatim>\<open>place_bid_hybrid.lua\<close>: the adjudication of \<^verbatim>\<open>place_bid\<close> with a redacted broadcast. The
  state hash also keeps the leader's display name, and the room sees the previous leader
  and price instead of the new ones, unless the bid reaches the cap.
\<close>

section \<open>The script\<close>

definition hybrid_hash :: "bid_args \<Rightarrow> int \<Rightarrow> int \<Rightarrow> room_hash \<Rightarrow> room_hash" where
  "hybrid_hash b amount now h = (bid_hash b amount now h)\<lparr>h_winnerDisplayName := ba_displayName b\<rparr>"

text \<open>\<^verbatim>\<open>streamBid\<close>: what the stream and the channel carry.\<close>

definition stream_bid :: "bid_args \<Rightarrow> int \<Rightarrow> int \<Rightarrow> room_hash \<Rightarrow> json" where
  "stream_bid b amount now h =
     (if cap_hit h amount then bid_payload b amount now h
      else bid_json (h_seq h + 1) (h_winnerId h) (h_winnerDisplayName h) (price_str h)
             (newEndAtMs h amount now) LIVE (h_bidCount h + 1) now)"

definition place_bid_hybrid :: "bid_args \<Rightarrow> int \<times> int \<Rightarrow> akeys \<Rightarrow> reply \<times> akeys" where
  "place_bid_hybrid b t k =
     bid_prologue b t k (\<lambda>amount now h.
       commit_bid b amount now h (hybrid_hash b amount now h)
         (bid_payload b amount now h) (stream_bid b amount now h) k)"

lemma hybrid_hash_sel [simp]:
  "h_seq (hybrid_hash b a now h) = h_seq h + 1"
  "h_status h = Some LIVE \<Longrightarrow>
     h_status (hybrid_hash b a now h) = (if cap_hit h a then Some SOLD else Some LIVE)"
  "h_currentPriceCents (hybrid_hash b a now h) = Some (ba_amountStr b)"
  "h_winnerId (hybrid_hash b a now h) = ba_userId b"
  "h_winnerDisplayName (hybrid_hash b a now h) = ba_displayName b"
  "h_endAtMs (hybrid_hash b a now h) = newEndAtMs h a now"
  "h_bidCount (hybrid_hash b a now h) = h_bidCount h + 1"
  "h_extendCount (hybrid_hash b a now h) = h_extendCount h + (if anti_snipe h a now then 1 else 0)"
  "h_capPriceCents (hybrid_hash b a now h) = h_capPriceCents h"
  "h_incrementCents (hybrid_hash b a now h) = h_incrementCents h"
  "h_startPriceCents (hybrid_hash b a now h) = h_startPriceCents h"
  "h_sellerId (hybrid_hash b a now h) = h_sellerId h"
  "h_mode (hybrid_hash b a now h) = h_mode h"
  "h_extendWindowSec (hybrid_hash b a now h) = h_extendWindowSec h"
  "h_extendSec (hybrid_hash b a now h) = h_extendSec h"
  "h_maxExtensions (hybrid_hash b a now h) = h_maxExtensions h"
  "h_paused (hybrid_hash b a now h) = h_paused h"
  by (simp_all add: hybrid_hash_def)

interpretation hybrid: hot_script place_bid_hybrid
  by (rule bid_script_contract [OF _ _ place_bid_hybrid_def]) simp_all

lemma place_bid_hybrid_cases:
  obtains (refused) r where "place_bid_hybrid b t k = (r, k)" "\<not> accepting r"
  | (replayed) cached where
      "place_bid_hybrid b t k = (Reply DUPLICATE [RJson cached], ensure_dedupe_ttl (ba_userId b) (redis_now t) k)"
      "d_acks (dedupe_at (redis_now t) k (ba_userId b)) (ba_clientBidId b) = Some cached"
  | (accepted)
      "bid_guard (hash_of k) (ba_userId b) (tonumber (ba_amountStr b)) (redis_now t) = None"
      "d_acks (dedupe_at (redis_now t) k (ba_userId b)) (ba_clientBidId b) = None"
      "lastStreamSeq (events_of k) = h_seq (hash_of k)"
      "place_bid_hybrid b t k =
         commit_bid b (num0 (ba_amountStr b)) (redis_now t) (hash_of k)
           (hybrid_hash b (num0 (ba_amountStr b)) (redis_now t) (hash_of k))
           (bid_payload b (num0 (ba_amountStr b)) (redis_now t) (hash_of k))
           (stream_bid b (num0 (ba_amountStr b)) (redis_now t) (hash_of k)) k"
  unfolding place_bid_hybrid_def by (rule bid_prologue_cases) blast+

section \<open>The same adjudication as the ascending script\<close>

text \<open>Only what the room may see differs: the leader's name in the hash, the bid event.\<close>

definition erase_name :: "akeys \<Rightarrow> akeys" where
  "erase_name k = (case k_state k of
      Present h \<Rightarrow> k\<lparr>k_state := Present (h\<lparr>h_winnerDisplayName := []\<rparr>)\<rparr> | _ \<Rightarrow> k)"

text \<open>The outcome of a bid without the contents of the broadcast: the reply, the hash
  without the leader's name, the leaderboard, the dedupe hashes, the ids, types and
  numbers of the events.\<close>

definition outcome :: "reply \<times> akeys \<Rightarrow> reply \<times> room_hash slot \<times> zset slot \<times> (uid \<Rightarrow> dedupe slot)
    \<times> ((int \<times> int) \<times> msg_type \<times> int) list" where
  "outcome r = (fst r, k_state (erase_name (snd r)), k_leaderboard (snd r), k_dedupe (snd r),
     map (\<lambda>e. (e_id e, e_type e, e_seq e)) (events_of (snd r)))"

lemma bid_events_shape:
  "map (\<lambda>(q, t, p). (q, t)) (bid_events b a now h x) = map (\<lambda>(q, t, p). (q, t)) (bid_events b a now h y)"
  by (auto simp: bid_events_def split: option.splits)

lemma length_bid_events: "length (bid_events b a now h x) = length (bid_events b a now h y)"
  by (auto simp: bid_events_def split: option.splits)

lemma entries_shape:
  assumes "map (\<lambda>(q, t, p). (q, t)) xs = map (\<lambda>(q, t, p). (q, t)) ys"
  shows "map (\<lambda>e. (e_id e, e_type e, e_seq e)) (entries xs) =
         map (\<lambda>e. (e_id e, e_type e, e_seq e)) (entries ys)"
proof -
  let ?g = "\<lambda>(q, t). ((q :: int, 0 :: int), t :: msg_type, q)"
  have "map (\<lambda>e. (e_id e, e_type e, e_seq e)) (entries zs) = map ?g (map (\<lambda>(q, t, p). (q, t)) zs)" for zs
    by (simp add: entries_def split_def comp_def)
  then show ?thesis using assms by (simp only:)
qed

lemma commit_bid_outcome:
  assumes "lastStreamSeq (events_of k) = h_seq h" "0 \<le> h_seq h" "h_seq h1 = h_seq h + 1"
    and "h1 = h2\<lparr>h_winnerDisplayName := w\<rparr>"
  shows "outcome (commit_bid b a now h h1 ack x k) = outcome (commit_bid b a now h h2 ack y k)"
proof -
  have s2: "h_seq h2 = h_seq h + 1" using assms(3,4) by simp
  show ?thesis
    unfolding commit_bid_eq [OF assms(1-3)] commit_bid_eq [OF assms(1,2) s2]
    using entries_shape [OF bid_events_shape [of b a now h x y]] length_bid_events [of b a now h x y]
    by (simp add: outcome_def erase_name_def cache_ack_def assms(4))
qed

lemma bid_prologue_outcome:
  assumes "lastStreamSeq (events_of k) = h_seq (hash_of k) \<Longrightarrow>
     outcome (acc (num0 (ba_amountStr b)) (redis_now t) (hash_of k)) =
     outcome (acc' (num0 (ba_amountStr b)) (redis_now t) (hash_of k))"
  shows "outcome (bid_prologue b t k acc) = outcome (bid_prologue b t k acc')"
  using assms by (auto simp: bid_prologue_def Let_def split: option.splits)

lemma hybrid_same_outcome:
  "room_inv k \<Longrightarrow> outcome (place_bid_hybrid b t k) = outcome (place_bid b t k)"
  unfolding place_bid_hybrid_def place_bid_def
  by (rule bid_prologue_outcome, rule commit_bid_outcome)
     (auto dest: room_invD(3) simp: hybrid_hash_def)

section \<open>What the room cannot tell\<close>

lemma stream_bid_indep:
  assumes "\<not> cap_hit h a" "\<not> cap_hit h a'"
  shows "bid_events b a now h (stream_bid b a now h) = bid_events b' a' now h (stream_bid b' a' now h)"
  using assms by (simp add: bid_events_def second_event_def stream_bid_def newEndAtMs_def anti_snipe_def)

lemma hybrid_accept_form:
  assumes inv: "room_inv k"
    and ok: "reply_code (fst (place_bid_hybrid b t k)) \<in> {Some OK_ACCEPTED, Some OK_EXTENDED}"
  shows "\<not> cap_hit (hash_of k) (num0 (ba_amountStr b))"
    and "events_of (snd (place_bid_hybrid b t k)) = events_of k @ entries
          (bid_events b (num0 (ba_amountStr b)) (redis_now t) (hash_of k)
             (stream_bid b (num0 (ba_amountStr b)) (redis_now t) (hash_of k)))"
    and "k_pub (snd (place_bid_hybrid b t k)) = k_pub k @ map (\<lambda>(q, t, p). (t, q, p))
          (bid_events b (num0 (ba_amountStr b)) (redis_now t) (hash_of k)
             (stream_bid b (num0 (ba_amountStr b)) (redis_now t) (hash_of k)))"
    and "bid_guard (hash_of k) (ba_userId b) (tonumber (ba_amountStr b)) (redis_now t) = None"
proof -
  have *: "\<not> cap_hit (hash_of k) (num0 (ba_amountStr b)) \<and>
     events_of (snd (place_bid_hybrid b t k)) = events_of k @ entries
          (bid_events b (num0 (ba_amountStr b)) (redis_now t) (hash_of k)
             (stream_bid b (num0 (ba_amountStr b)) (redis_now t) (hash_of k))) \<and>
     k_pub (snd (place_bid_hybrid b t k)) = k_pub k @ map (\<lambda>(q, t, p). (t, q, p))
          (bid_events b (num0 (ba_amountStr b)) (redis_now t) (hash_of k)
             (stream_bid b (num0 (ba_amountStr b)) (redis_now t) (hash_of k))) \<and>
     bid_guard (hash_of k) (ba_userId b) (tonumber (ba_amountStr b)) (redis_now t) = None"
  proof (cases rule: place_bid_hybrid_cases [of b t k])
    case (refused r)
    with ok show ?thesis by (cases r) auto
  next
    case (replayed c)
    with ok show ?thesis by auto
  next
    case accepted
    show ?thesis
      using ok commit_bid_eq [OF room_invD(4) [OF inv] room_invD(3) [OF inv]] accepted
      by (auto simp: bid_reply_def second_event_def dest: anti_snipe_no_cap split: if_splits)
  qed
  then show "\<not> cap_hit (hash_of k) (num0 (ba_amountStr b))"
    and "events_of (snd (place_bid_hybrid b t k)) = events_of k @ entries
          (bid_events b (num0 (ba_amountStr b)) (redis_now t) (hash_of k)
             (stream_bid b (num0 (ba_amountStr b)) (redis_now t) (hash_of k)))"
    and "k_pub (snd (place_bid_hybrid b t k)) = k_pub k @ map (\<lambda>(q, t, p). (t, q, p))
          (bid_events b (num0 (ba_amountStr b)) (redis_now t) (hash_of k)
             (stream_bid b (num0 (ba_amountStr b)) (redis_now t) (hash_of k)))"
    and "bid_guard (hash_of k) (ba_userId b) (tonumber (ba_amountStr b)) (redis_now t) = None"
    by blast+
qed

lemma hybrid_broadcast_indep:
  assumes "room_inv k"
    and "reply_code (fst (place_bid_hybrid b t k)) \<in> {Some OK_ACCEPTED, Some OK_EXTENDED}"
    and "reply_code (fst (place_bid_hybrid b' t k)) \<in> {Some OK_ACCEPTED, Some OK_EXTENDED}"
  shows "events_of (snd (place_bid_hybrid b t k)) = events_of (snd (place_bid_hybrid b' t k))
       \<and> k_pub (snd (place_bid_hybrid b t k)) = k_pub (snd (place_bid_hybrid b' t k))"
  using hybrid_accept_form [OF assms(1,2)] hybrid_accept_form [OF assms(1,3)]
    stream_bid_indep [of "hash_of k" "num0 (ba_amountStr b)" "num0 (ba_amountStr b')" b "redis_now t" b']
  by simp

end
