(* ===== verification/Lifecycle.thy ===== *)
theory Lifecycle
  imports Room
begin

text \<open>
  The scripts that move an auction through its states without a bid:
  \<^verbatim>\<open>freeze_rules.lua\<close> (to SCHEDULED), \<^verbatim>\<open>start_auction.lua\<close> (to LIVE),
  \<^verbatim>\<open>close_auction.lua\<close> (the hammer: SOLD or NO_BID) and \<^verbatim>\<open>cancel_auction.lua\<close>.
\<close>

section \<open>Freeze and start\<close>

record freeze_args =
  fr_rules :: Rules
  fr_sellerId :: uid

text \<open>The hash after \<^verbatim>\<open>HMSET\<close>: money arrives as JSON strings, so the fields hold the
  decimal text \<^const>\<open>Cents_MarshalJSON\<close> quotes; an empty mode is omitted from the JSON and
  becomes ENGLISH.\<close>

definition frozen_hash :: "freeze_args \<Rightarrow> room_hash \<Rightarrow> room_hash" where
  "frozen_hash a h =
     (let r = fr_rules a in
      h\<lparr>h_status := Some SCHEDULED, h_mode := NormalizeMode (Mode r),
        h_startPriceCents := FormatInt (StartPriceCents r),
        h_currentPriceCents := Some (FormatInt (StartPriceCents r)),
        h_incrementCents := FormatInt (IncrementCents r),
        h_capPriceCents := FormatInt (CapPriceCents r),
        h_extendWindowSec := ExtendWindowSec r, h_extendSec := ExtendSec r,
        h_maxExtensions := MaxExtensions r, h_extendCount := 0, h_winnerId := [],
        h_sellerId := fr_sellerId a, h_seq := 0, h_paused := False\<rparr>)"

definition freeze_rules :: "freeze_args \<Rightarrow> int \<times> int \<Rightarrow> akeys \<Rightarrow> reply \<times> akeys" where
  "freeze_rules a t k =
     (if bad_type (k_state k) then (Reply ERR_BAD_STATE [RStr ''key_type''], k)
      else (let h = hash_of k in
        if h_status h \<notin> {None, Some DRAFT} then (Reply ERR_BAD_STATE [RState (h_status h)], k)
        else (Reply OK_FROZEN [], set_hash (frozen_hash a h) k)))"

text \<open>The argument is the duration in milliseconds.\<close>

definition start_auction :: "int \<Rightarrow> int \<times> int \<Rightarrow> akeys \<Rightarrow> reply \<times> akeys" where
  "start_auction durationMs t k =
     (if bad_type (k_state k) then (Reply ERR_BAD_STATE [RStr ''key_type''], k)
      else (let h = hash_of k in
        if h_status h \<noteq> Some SCHEDULED then (Reply ERR_BAD_STATE [RState (h_status h)], k)
        else (let endAtMs = redis_now t + durationMs
              in (Reply OK_LIVE [RInt endAtMs],
                  set_hash (h\<lparr>h_status := Some LIVE, h_endAtMs := endAtMs\<rparr>) k))))"

section \<open>One terminal event\<close>

definition end_auction ::
  "code \<Rightarrow> auction_state \<Rightarrow> msg_type \<Rightarrow> json \<Rightarrow> room_hash \<Rightarrow> akeys \<Rightarrow> reply \<times> akeys" where
  "end_auction c st ty p h k =
     (let seq = h_seq h + 1; k1 = set_hash (h\<lparr>h_seq := seq, h_status := Some st\<rparr>) k
      in case append_event seq ty p k1 of
           None \<Rightarrow> (ScriptErr, k1)
         | Some k2 \<Rightarrow> (Reply c [RInt seq, RJson p], publish seq ty p k2))"

lemma end_auction_eq:
  assumes "lastStreamSeq (events_of k) = h_seq h" "0 \<le> h_seq h"
  shows "end_auction c st ty p h k =
    (Reply c [RInt (h_seq h + 1), RJson p],
     k\<lparr>k_state := Present (h\<lparr>h_seq := h_seq h + 1, h_status := Some st\<rparr>),
       k_events := Present (events_of k @ [seq_entry (h_seq h + 1) ty p]),
       k_pub := k_pub k @ [(ty, h_seq h + 1, p)]\<rparr>)"
  using xadd_next [OF assms(2,1)]
  by (simp add: end_auction_def Let_def append_event_def set_hash_def publish_def)

lemma end_auction_code: "fst (end_auction c st ty p h k) \<in> {ScriptErr, Reply c [RInt (h_seq h + 1), RJson p]}"
  by (simp add: end_auction_def Let_def split: option.splits)

lemma end_auction_inv:
  assumes inv: "room_inv k" and nf: "\<not> status_terminal (hash_of k)"
    and ty: "final_event ty" and st: "IsTerminal st"
  shows "room_inv (snd (end_auction c st ty p (hash_of k) k))"
proof -
  note eq = end_auction_eq [OF room_invD(4) [OF inv] room_invD(3) [OF inv]]
  have "\<not> has_final (events_of k)" using inv nf by (simp add: room_inv_def)
  then show ?thesis
    using inv ty st room_invD [OF inv]
    by (intro room_inv_append1 [OF inv, where t = ty and p = p])
       (auto simp: eq status_terminal_def not_started_def IsTerminal_iff)
qed

section \<open>The hammer\<close>

definition close_auction :: "unit \<Rightarrow> int \<times> int \<Rightarrow> akeys \<Rightarrow> reply \<times> akeys" where
  "close_auction u t k =
     (if bad_type (k_state k) \<or> bad_type (k_events k)
      then (Reply ERR_INTERNAL [RStr ''key_type''], k)
      else (let h = hash_of k; now = redis_now t; seq = h_seq h + 1 in
        if h_status h \<noteq> Some LIVE then (Reply ERR_ALREADY_TERMINAL [RState (h_status h)], k)
        else if now < h_endAtMs h then (Reply ERR_NOT_DUE [RInt (h_endAtMs h), RInt now], k)
        else if lastStreamSeq (events_of k) \<noteq> h_seq h
          then (Reply ERR_INTERNAL [RStr ''seq_stream_mismatch''], k)
        else if h_winnerId h \<noteq> []
          then end_auction OK_SOLD SOLD AUCTION_SOLD
                 (sold_json seq (h_winnerId h) (price_str h) now) h k
        else end_auction OK_NO_BID NO_BID AUCTION_NO_BID (end_json seq NO_BID now) h k))"

section \<open>Cancel\<close>

definition cancel_auction :: "uid \<Rightarrow> int \<times> int \<Rightarrow> akeys \<Rightarrow> reply \<times> akeys" where
  "cancel_auction callerId t k =
     (if bad_type (k_state k) \<or> bad_type (k_events k)
      then (Reply ERR_INTERNAL [RStr ''key_type''], k)
      else (let h = hash_of k; now = redis_now t; seq = h_seq h + 1 in
        if h_status h = None \<or> status_terminal h
          then (Reply ERR_ALREADY_TERMINAL [RState (h_status h)], k)
        else if h_sellerId h = [] \<or> callerId \<noteq> h_sellerId h
          then (Reply ERR_NOT_ALLOWED [RStr ''not_owner''], k)
        else if lastStreamSeq (events_of k) \<noteq> h_seq h
          then (Reply ERR_INTERNAL [RStr ''seq_stream_mismatch''], k)
        else end_auction OK_CANCELLED CANCELLED AUCTION_CANCELLED (end_json seq CANCELLED now) h k))"

section \<open>Outcomes\<close>

lemma freeze_rules_cases:
  obtains (refused) r where "freeze_rules a t k = (r, k)" "\<not> accepting r"
  | (frozen) "freeze_rules a t k = (Reply OK_FROZEN [], set_hash (frozen_hash a (hash_of k)) k)"
      "h_status (hash_of k) \<in> {None, Some DRAFT}"
  by (cases "bad_type (k_state k)"; cases "h_status (hash_of k) \<in> {None, Some DRAFT}")
     (auto simp: freeze_rules_def Let_def)

lemma start_auction_cases:
  obtains (refused) r where "start_auction d t k = (r, k)" "\<not> accepting r"
  | (live) "start_auction d t k = (Reply OK_LIVE [RInt (redis_now t + d)],
        set_hash ((hash_of k)\<lparr>h_status := Some LIVE, h_endAtMs := redis_now t + d\<rparr>) k)"
      "h_status (hash_of k) = Some SCHEDULED"
  by (cases "bad_type (k_state k)"; cases "h_status (hash_of k) = Some SCHEDULED")
     (auto simp: start_auction_def Let_def)

lemma close_auction_cases:
  obtains (refused) r where "close_auction u t k = (r, k)" "\<not> accepting r"
  | (sold) "close_auction u t k = end_auction OK_SOLD SOLD AUCTION_SOLD
        (sold_json (h_seq (hash_of k) + 1) (h_winnerId (hash_of k)) (price_str (hash_of k)) (redis_now t))
        (hash_of k) k"
      "h_status (hash_of k) = Some LIVE" "h_endAtMs (hash_of k) \<le> redis_now t"
      "h_winnerId (hash_of k) \<noteq> []"
  | (no_bid) "close_auction u t k = end_auction OK_NO_BID NO_BID AUCTION_NO_BID
        (end_json (h_seq (hash_of k) + 1) NO_BID (redis_now t)) (hash_of k) k"
      "h_status (hash_of k) = Some LIVE" "h_endAtMs (hash_of k) \<le> redis_now t"
      "h_winnerId (hash_of k) = []"
  unfolding close_auction_def Let_def
  by (cases "bad_type (k_state k) \<or> bad_type (k_events k)"; cases "h_status (hash_of k) = Some LIVE";
      cases "redis_now t < h_endAtMs (hash_of k)";
      cases "lastStreamSeq (events_of k) = h_seq (hash_of k)"; cases "h_winnerId (hash_of k) = []")
     (simp_all add: not_less)

lemma cancel_auction_cases:
  obtains (refused) r where "cancel_auction c t k = (r, k)" "\<not> accepting r"
  | (cancelled) "cancel_auction c t k = end_auction OK_CANCELLED CANCELLED AUCTION_CANCELLED
        (end_json (h_seq (hash_of k) + 1) CANCELLED (redis_now t)) (hash_of k) k"
      "h_status (hash_of k) \<noteq> None" "\<not> status_terminal (hash_of k)"
      "h_sellerId (hash_of k) \<noteq> []" "c = h_sellerId (hash_of k)"
  unfolding cancel_auction_def Let_def
  by (cases "bad_type (k_state k) \<or> bad_type (k_events k)";
      cases "h_status (hash_of k) = None \<or> status_terminal (hash_of k)";
      cases "h_sellerId (hash_of k) = [] \<or> c \<noteq> h_sellerId (hash_of k)";
      cases "lastStreamSeq (events_of k) = h_seq (hash_of k)")
     auto

section \<open>The contract holds\<close>

lemma frozen_inv: "room_inv k \<Longrightarrow> h_status (hash_of k) \<in> {None, Some DRAFT} \<Longrightarrow>
    room_inv (set_hash (frozen_hash a (hash_of k)) k)"
  by (auto simp: room_inv_def set_hash_def frozen_hash_def Let_def not_started_def
      status_terminal_def)

lemma live_inv: "room_inv k \<Longrightarrow> h_status (hash_of k) = Some SCHEDULED \<Longrightarrow>
    room_inv (set_hash ((hash_of k)\<lparr>h_status := Some LIVE, h_endAtMs := e\<rparr>) k)"
  by (auto simp: room_inv_def set_hash_def not_started_def status_terminal_def)

interpretation freeze: hot_script freeze_rules
proof unfold_locales
  fix k a t
  assume inv: "room_inv k"
  show "room_inv (snd (freeze_rules a t k))"
    using inv by (cases rule: freeze_rules_cases [of a t k]) (auto simp: frozen_inv)
  show "fst (freeze_rules a t k) \<noteq> ScriptErr"
    by (cases rule: freeze_rules_cases [of a t k]) auto
  show "\<exists>es. events_of (snd (freeze_rules a t k)) = events_of k @ es"
    by (cases rule: freeze_rules_cases [of a t k]) (auto simp: set_hash_def)
next
  fix k a t
  assume "\<not> accepting (fst (freeze_rules a t k))"
  then show "snd (freeze_rules a t k) = k"
    by (cases rule: freeze_rules_cases [of a t k]) auto
next
  fix k a t
  assume "status_terminal (hash_of k)"
  then show "same_room k (snd (freeze_rules a t k))"
    by (cases rule: freeze_rules_cases [of a t k]) (auto simp: status_terminal_def)
qed

interpretation start: hot_script start_auction
proof unfold_locales
  fix k d t
  assume inv: "room_inv k"
  show "room_inv (snd (start_auction d t k))"
    using inv by (cases rule: start_auction_cases [of d t k]) (auto simp: live_inv)
  show "fst (start_auction d t k) \<noteq> ScriptErr"
    by (cases rule: start_auction_cases [of d t k]) auto
  show "\<exists>es. events_of (snd (start_auction d t k)) = events_of k @ es"
    by (cases rule: start_auction_cases [of d t k]) (auto simp: set_hash_def)
next
  fix k d t
  assume "\<not> accepting (fst (start_auction d t k))"
  then show "snd (start_auction d t k) = k"
    by (cases rule: start_auction_cases [of d t k]) auto
next
  fix k d t
  assume "status_terminal (hash_of k)"
  then show "same_room k (snd (start_auction d t k))"
    by (cases rule: start_auction_cases [of d t k]) (auto simp: status_terminal_def)
qed

lemma live_not_terminal: "h_status h = Some LIVE \<Longrightarrow> \<not> status_terminal h"
  by (simp add: status_terminal_def)

lemma end_auction_accepting: "accepting (Reply c []) \<Longrightarrow> accepting (fst (end_auction c st ty p h k))"
  using end_auction_code [of c st ty p h k] by auto

interpretation hammer: hot_script close_auction
proof unfold_locales
  fix k u t
  assume inv: "room_inv k"
  note eq = end_auction_eq [OF room_invD(4) [OF inv] room_invD(3) [OF inv]]
  show "room_inv (snd (close_auction u t k))"
    using inv by (cases rule: close_auction_cases [of u t k])
      (auto simp: live_not_terminal intro!: end_auction_inv)
  show "fst (close_auction u t k) \<noteq> ScriptErr"
    by (cases rule: close_auction_cases [of u t k]) (auto simp: eq)
  show "\<exists>es. events_of (snd (close_auction u t k)) = events_of k @ es"
    by (cases rule: close_auction_cases [of u t k]) (auto simp: eq)
next
  fix k u t
  assume "\<not> accepting (fst (close_auction u t k))"
  then show "snd (close_auction u t k) = k"
    by (cases rule: close_auction_cases [of u t k]) (auto simp: end_auction_accepting)
next
  fix k u t
  assume "status_terminal (hash_of k)"
  then show "same_room k (snd (close_auction u t k))"
    by (cases rule: close_auction_cases [of u t k]) (auto simp: status_terminal_def)
qed

interpretation cancel: hot_script cancel_auction
proof unfold_locales
  fix k c t
  assume inv: "room_inv k"
  note eq = end_auction_eq [OF room_invD(4) [OF inv] room_invD(3) [OF inv]]
  show "room_inv (snd (cancel_auction c t k))"
    using inv by (cases rule: cancel_auction_cases [of c t k]) (auto intro!: end_auction_inv)
  show "fst (cancel_auction c t k) \<noteq> ScriptErr"
    by (cases rule: cancel_auction_cases [of c t k]) (auto simp: eq)
  show "\<exists>es. events_of (snd (cancel_auction c t k)) = events_of k @ es"
    by (cases rule: cancel_auction_cases [of c t k]) (auto simp: eq)
next
  fix k c t
  assume "\<not> accepting (fst (cancel_auction c t k))"
  then show "snd (cancel_auction c t k) = k"
    by (cases rule: cancel_auction_cases [of c t k]) (auto simp: end_auction_accepting)
next
  fix k c t
  assume "status_terminal (hash_of k)"
  then show "same_room k (snd (cancel_auction c t k))"
    by (cases rule: cancel_auction_cases [of c t k]) auto
qed

end
