(* ===== verification/SealedBid.thy ===== *)
theory SealedBid
  imports PlaceBid Lifecycle
begin

text \<open>
  The sealed modes: \<^verbatim>\<open>place_bid_sealed.lua\<close> records amounts in private keys and tells the
  room a count; \<^verbatim>\<open>close_auction_sealed.lua\<close> (first price and Vickrey) and
  \<^verbatim>\<open>close_auction_allpay.lua\<close> reveal the amounts and sell in one step.
\<close>

section \<open>Bidding\<close>

definition sealed_guard :: "room_hash \<Rightarrow> uid \<Rightarrow> int option \<Rightarrow> int \<Rightarrow> reply option" where
  "sealed_guard h userId amount now =
     (let startPriceCents = num0 (h_startPriceCents h); capPriceCents = cap_of h in
      if h_paused h then Some (Reply ERR_AUCTION_PAUSED [])
      else if h_status h \<noteq> Some LIVE then Some (Reply ERR_NOT_LIVE [RState (h_status h)])
      else if h_sellerId h \<noteq> [] \<and> userId = h_sellerId h
        then Some (Reply ERR_NOT_ALLOWED [RStr ''seller_self_bid''])
      else if now \<ge> h_endAtMs h then Some (Reply ERR_AFTER_END [RInt (h_endAtMs h), RInt now])
      else (case amount of
              None \<Rightarrow> Some (Reply ERR_TOO_LOW [RInt 0, RInt startPriceCents])
            | Some a \<Rightarrow>
                (if a \<le> 0 \<or> a > MaxMoneyCents
                   then Some (Reply ERR_TOO_LOW [RInt a, RInt startPriceCents])
                 else if a < startPriceCents
                   then Some (Reply ERR_TOO_LOW [RInt a, RInt startPriceCents])
                 else if capPriceCents > 0 \<and> a > capPriceCents
                   then Some (Reply ERR_TOO_LOW [RInt a, RInt capPriceCents])
                 else None)))"

definition sealed_keys_bad :: "uid \<Rightarrow> akeys \<Rightarrow> bool" where
  "sealed_keys_bad u k \<longleftrightarrow> bad_type (k_state k) \<or> bad_type (k_sealed k)
     \<or> bad_type (k_sealednames k) \<or> bad_type (k_events k) \<or> bad_type (k_dedupe k u)"

text \<open>Steps 6 to 8: record privately, broadcast the count, cache the private ack.\<close>

definition record_sealed :: "bid_args \<Rightarrow> int \<Rightarrow> int \<Rightarrow> room_hash \<Rightarrow> akeys \<Rightarrow> reply \<times> akeys" where
  "record_sealed b amount now h k =
     (let z = raise_score (ba_userId b) amount (sealed_of k);
          seq = h_seq h + 1;
          k1 = set_hash (h\<lparr>h_seq := seq\<rparr>)
                 (k\<lparr>k_sealed := Present z,
                    k_sealednames := Present ((names_of k)(ba_userId b \<mapsto> ba_displayName b))\<rparr>);
          recv = sealed_json seq (ba_displayName b) (int (length z)) now
      in case append_event seq SEALED_BID_RECEIVED recv k1 of
           None \<Rightarrow> (ScriptErr, k1)
         | Some k2 \<Rightarrow>
             (let ack = sealed_ack_json seq (ba_userId b) (ba_displayName b) (ba_amountStr b)
                          (h_endAtMs h) now
              in (Reply OK_ACCEPTED [RInt seq, RJson ack],
                  cache_ack (ba_userId b) (ba_clientBidId b) ack now
                    (publish seq SEALED_BID_RECEIVED recv k2))))"

definition place_bid_sealed :: "bid_args \<Rightarrow> int \<times> int \<Rightarrow> akeys \<Rightarrow> reply \<times> akeys" where
  "place_bid_sealed b t k =
     (if sealed_keys_bad (ba_userId b) k then (Reply ERR_INTERNAL [RStr ''key_type''], k)
      else case d_acks (dedupe_at (redis_now t) k (ba_userId b)) (ba_clientBidId b) of
        Some cached \<Rightarrow> (Reply DUPLICATE [RJson cached], ensure_dedupe_ttl (ba_userId b) (redis_now t) k)
      | None \<Rightarrow>
          (let h = hash_of k; now = redis_now t
           in case sealed_guard h (ba_userId b) (tonumber (ba_amountStr b)) now of
                Some r \<Rightarrow> (r, k)
              | None \<Rightarrow>
                  (if lastStreamSeq (events_of k) \<noteq> h_seq h
                   then (Reply ERR_INTERNAL [RStr ''seq_stream_mismatch''], k)
                   else record_sealed b (num0 (ba_amountStr b)) now h k)))"

section \<open>Closing\<close>

text \<open>One event with its own sequence number: \<^verbatim>\<open>HINCRBY\<close>, \<^verbatim>\<open>XADD\<close>, \<^verbatim>\<open>PUBLISH\<close>. \<^verbatim>\<open>Inl\<close> is the
  state at a failed \<^verbatim>\<open>XADD\<close>.\<close>

definition emit :: "msg_type \<Rightarrow> (int \<Rightarrow> json) \<Rightarrow> akeys \<Rightarrow> akeys + akeys" where
  "emit ty mk k =
     (let q = h_seq (hash_of k) + 1; k1 = set_hash ((hash_of k)\<lparr>h_seq := q\<rparr>) k
      in case append_event q ty (mk q) k1 of
           None \<Rightarrow> Inl k1
         | Some k2 \<Rightarrow> Inr (publish q ty (mk q) k2))"

fun emit_all :: "(msg_type \<times> (int \<Rightarrow> json)) list \<Rightarrow> akeys \<Rightarrow> akeys + akeys" where
  "emit_all [] k = Inr k"
| "emit_all ((ty, mk) # ms) k = (case emit ty mk k of Inl k1 \<Rightarrow> Inl k1 | Inr k1 \<Rightarrow> emit_all ms k1)"

definition revealed_bids :: "(uid \<rightharpoonup> string) \<Rightarrow> zset \<Rightarrow> json list" where
  "revealed_bids nm z =
     map (\<lambda>(u, s). revealed_bid_json u (case nm u of None \<Rightarrow> [] | Some n \<Rightarrow> n) (FormatInt s)) z"

text \<open>The guards both closing scripts share; \<^verbatim>\<open>settle\<close> is the rest, for a set of bids that
  is not empty.\<close>

definition close_prologue ::
  "int \<times> int \<Rightarrow> akeys \<Rightarrow> (room_hash \<Rightarrow> int \<Rightarrow> zset \<Rightarrow> reply \<times> akeys) \<Rightarrow> reply \<times> akeys" where
  "close_prologue t k settle =
     (if bad_type (k_state k) \<or> bad_type (k_events k) \<or> bad_type (k_sealed k)
         \<or> bad_type (k_sealednames k) \<or> bad_type (k_leaderboard k)
      then (Reply ERR_INTERNAL [RStr ''key_type''], k)
      else (let h = hash_of k; now = redis_now t; z = sealed_of k in
        if h_status h \<noteq> Some LIVE then (Reply ERR_ALREADY_TERMINAL [RState (h_status h)], k)
        else if now < h_endAtMs h then (Reply ERR_NOT_DUE [RInt (h_endAtMs h), RInt now], k)
        else if lastStreamSeq (events_of k) \<noteq> h_seq h
          then (Reply ERR_INTERNAL [RStr ''seq_stream_mismatch''], k)
        else if z = []
          then end_auction OK_NO_BID NO_BID AUCTION_NO_BID (end_json (h_seq h + 1) NO_BID now) h k
        else settle h now z))"

text \<open>Publish the bids on the leaderboard, write winner and price, emit the reveal, the
  events between it and the sale, and the sale, then drop the private keys.\<close>

definition reveal_and_sell ::
  "money \<Rightarrow> (msg_type \<times> (int \<Rightarrow> json)) list \<Rightarrow> room_hash \<Rightarrow> int \<Rightarrow> zset \<Rightarrow> akeys \<Rightarrow> reply \<times> akeys" where
  "reveal_and_sell price extra h now z k =
     (let winnerId = fst (hd z);
          bids = revealed_bids (names_of k) z;
          k1 = set_hash (h\<lparr>h_winnerId := winnerId, h_currentPriceCents := Some price,
                           h_status := Some SOLD\<rparr>)
                 (k\<lparr>k_leaderboard := Present (fold (\<lambda>(u, s). zadd u s) z (board_of k))\<rparr>)
      in case emit_all ([(AUCTION_REVEALED, \<lambda>q. reveal_json q bids winnerId price now)] @ extra
                        @ [(AUCTION_SOLD, \<lambda>q. sold_json q winnerId price now)]) k1 of
           Inl k2 \<Rightarrow> (ScriptErr, k2)
         | Inr k2 \<Rightarrow>
             (let sseq = h_seq (hash_of k2)
              in (Reply OK_SOLD [RInt sseq, RJson (sold_json sseq winnerId price now)],
                  k2\<lparr>k_sealed := Absent, k_sealednames := Absent\<rparr>)))"

datatype priceMode = FIRST | SECOND

fun finalPrice :: "priceMode \<Rightarrow> room_hash \<Rightarrow> zset \<Rightarrow> money" where
  "finalPrice SECOND h (x # y # z) = FormatInt (snd y)"
| "finalPrice SECOND h z = FormatInt (num0 (h_startPriceCents h))"
| "finalPrice FIRST h z = FormatInt (snd (hd z))"

definition close_auction_sealed :: "priceMode \<Rightarrow> int \<times> int \<Rightarrow> akeys \<Rightarrow> reply \<times> akeys" where
  "close_auction_sealed m t k =
     close_prologue t k (\<lambda>h now z. reveal_and_sell (finalPrice m h z) [] h now z k)"

text \<open>The all-pay close adds the runner-up's forfeit.\<close>

fun forfeits :: "zset \<Rightarrow> int \<Rightarrow> (msg_type \<times> (int \<Rightarrow> json)) list" where
  "forfeits (x # y # z) now =
     [(ALL_PAY_FORFEIT, \<lambda>q. forfeit_json q (fst y) (FormatInt (snd y)) now)]"
| "forfeits z now = []"

definition close_auction_allpay :: "unit \<Rightarrow> int \<times> int \<Rightarrow> akeys \<Rightarrow> reply \<times> akeys" where
  "close_auction_allpay u t k =
     close_prologue t k (\<lambda>h now z.
       reveal_and_sell (FormatInt (snd (hd z))) (forfeits z now) h now z k)"

section \<open>The sealed bid, read back\<close>

lemma sealed_guard_NoneD:
  assumes "sealed_guard h u (tonumber s) now = None"
  shows "\<not> h_paused h" "h_status h = Some LIVE" "now < h_endAtMs h" "tonumber s = Some (num0 s)"
    "0 < num0 s" "num0 s \<le> MaxMoneyCents" "num0 (h_startPriceCents h) \<le> num0 s"
    "cap_of h > 0 \<Longrightarrow> num0 s \<le> cap_of h"
  using assms by (auto simp: sealed_guard_def Let_def num0_def [of s] split: if_splits option.splits)

lemma sealed_guard_refuses: "sealed_guard h u a now = Some r \<Longrightarrow> \<not> accepting r"
  by (auto simp: sealed_guard_def Let_def split: if_splits option.splits)

lemma record_sealed_eq:
  assumes "lastStreamSeq (events_of k) = h_seq h" "0 \<le> h_seq h"
  shows "record_sealed b a now h k =
    (Reply OK_ACCEPTED [RInt (h_seq h + 1), RJson (sealed_ack_json (h_seq h + 1) (ba_userId b)
        (ba_displayName b) (ba_amountStr b) (h_endAtMs h) now)],
     cache_ack (ba_userId b) (ba_clientBidId b)
       (sealed_ack_json (h_seq h + 1) (ba_userId b) (ba_displayName b) (ba_amountStr b) (h_endAtMs h) now) now
       (k\<lparr>k_state := Present (h\<lparr>h_seq := h_seq h + 1\<rparr>),
          k_sealed := Present (raise_score (ba_userId b) a (sealed_of k)),
          k_sealednames := Present ((names_of k)(ba_userId b \<mapsto> ba_displayName b)),
          k_events := Present (events_of k @ [seq_entry (h_seq h + 1) SEALED_BID_RECEIVED
             (sealed_json (h_seq h + 1) (ba_displayName b)
                (int (length (raise_score (ba_userId b) a (sealed_of k)))) now)]),
          k_pub := k_pub k @ [(SEALED_BID_RECEIVED, h_seq h + 1,
             sealed_json (h_seq h + 1) (ba_displayName b)
                (int (length (raise_score (ba_userId b) a (sealed_of k)))) now)]\<rparr>))"
  using xadd_next [OF assms(2,1)]
  by (simp add: record_sealed_def Let_def append_event_def set_hash_def publish_def cache_ack_def)

lemma record_sealed_accepting: "accepting (fst (record_sealed b a now h k))"
  by (simp add: record_sealed_def Let_def split: option.splits)

lemma place_bid_sealed_cases:
  obtains (refused) r where "place_bid_sealed b t k = (r, k)" "\<not> accepting r"
  | (replayed) cached where
      "place_bid_sealed b t k = (Reply DUPLICATE [RJson cached], ensure_dedupe_ttl (ba_userId b) (redis_now t) k)"
      "d_acks (dedupe_at (redis_now t) k (ba_userId b)) (ba_clientBidId b) = Some cached"
  | (accepted)
      "sealed_guard (hash_of k) (ba_userId b) (tonumber (ba_amountStr b)) (redis_now t) = None"
      "d_acks (dedupe_at (redis_now t) k (ba_userId b)) (ba_clientBidId b) = None"
      "lastStreamSeq (events_of k) = h_seq (hash_of k)"
      "place_bid_sealed b t k =
         record_sealed b (num0 (ba_amountStr b)) (redis_now t) (hash_of k) k"
proof (cases "sealed_keys_bad (ba_userId b) k")
  case True
  then show ?thesis by (intro refused) (auto simp: place_bid_sealed_def)
next
  case ok: False
  show ?thesis
  proof (cases "d_acks (dedupe_at (redis_now t) k (ba_userId b)) (ba_clientBidId b)")
    case (Some c)
    with ok show ?thesis by (intro replayed) (auto simp: place_bid_sealed_def)
  next
    case new: None
    show ?thesis
    proof (cases "sealed_guard (hash_of k) (ba_userId b) (tonumber (ba_amountStr b)) (redis_now t)")
      case (Some r)
      with ok new sealed_guard_refuses [OF Some] show ?thesis
        by (intro refused) (auto simp: place_bid_sealed_def Let_def)
    next
      case pass: None
      with ok new refused accepted show ?thesis
        by (cases "lastStreamSeq (events_of k) = h_seq (hash_of k)")
           (auto simp: place_bid_sealed_def Let_def)
    qed
  qed
qed

interpretation sealed: hot_script place_bid_sealed
proof unfold_locales
  fix k b t
  assume inv: "room_inv k"
  note eq = record_sealed_eq [OF room_invD(4) [OF inv] room_invD(3) [OF inv]]
  show "room_inv (snd (place_bid_sealed b t k))"
  proof (cases rule: place_bid_sealed_cases [of b t k])
    case accepted
    note live = sealed_guard_NoneD(2) [OF accepted(1)]
    show ?thesis
      using room_invD(5,6) [OF inv] live accepted(4)
      by (intro room_inv_append1 [OF inv room_inv_live [OF inv live], where t = SEALED_BID_RECEIVED])
         (auto simp: eq cache_ack_def status_terminal_def not_started_def raise_score_ok)
  qed (use inv in \<open>auto intro: same_room_inv [OF same_room_ensure_ttl]\<close>)
  show "fst (place_bid_sealed b t k) \<noteq> ScriptErr"
    by (cases rule: place_bid_sealed_cases [of b t k]) (auto simp: eq)
  show "\<exists>es. events_of (snd (place_bid_sealed b t k)) = events_of k @ es"
    by (cases rule: place_bid_sealed_cases [of b t k]) (auto simp: eq cache_ack_def frame_simps)
next
  fix k b t
  assume "\<not> accepting (fst (place_bid_sealed b t k))"
  then show "snd (place_bid_sealed b t k) = k"
    by (cases rule: place_bid_sealed_cases [of b t k]) (auto simp: record_sealed_accepting)
next
  fix k b t
  assume "status_terminal (hash_of k)"
  then show "same_room k (snd (place_bid_sealed b t k))"
    by (cases rule: place_bid_sealed_cases [of b t k])
       (auto simp: status_terminal_def dest: sealed_guard_NoneD(2))
qed

section \<open>The closing scripts, read back\<close>

fun numbered :: "int \<Rightarrow> (msg_type \<times> (int \<Rightarrow> json)) list \<Rightarrow> (int \<times> msg_type \<times> json) list" where
  "numbered q [] = []"
| "numbered q ((ty, mk) # ms) = (q, ty, mk q) # numbered (q + 1) ms"

lemma length_numbered [simp]: "length (numbered q ms) = length ms"
  by (induction q ms rule: numbered.induct) auto

lemma entries_simps [simp]:
  "entries [] = []" "entries ((q, ty, p) # xs) = seq_entry q ty p # entries xs"
  "entries (xs @ ys) = entries xs @ entries ys" "length (entries xs) = length xs"
  by (simp_all add: entries_def)

lemma numbered_append: "numbered q (ms @ ns) = numbered q ms @ numbered (q + int (length ms)) ns"
  by (induction q ms rule: numbered.induct) (auto simp: algebra_simps)

lemma emit_eq:
  assumes "lastStreamSeq (events_of k) = h_seq (hash_of k)" "0 \<le> h_seq (hash_of k)"
  shows "emit ty mk k = Inr (k
    \<lparr>k_state := Present ((hash_of k)\<lparr>h_seq := h_seq (hash_of k) + 1\<rparr>),
     k_events := Present (events_of k @ [seq_entry (h_seq (hash_of k) + 1) ty (mk (h_seq (hash_of k) + 1))]),
     k_pub := k_pub k @ [(ty, h_seq (hash_of k) + 1, mk (h_seq (hash_of k) + 1))]\<rparr>)"
  using xadd_next [OF assms(2,1)]
  by (simp add: emit_def Let_def append_event_def set_hash_def publish_def)

lemma emit_all_eq:
  assumes "lastStreamSeq (events_of k) = h_seq (hash_of k)" "0 \<le> h_seq (hash_of k)" "ms \<noteq> []"
  shows "emit_all ms k = Inr (k
    \<lparr>k_state := Present ((hash_of k)\<lparr>h_seq := h_seq (hash_of k) + int (length ms)\<rparr>),
     k_events := Present (events_of k @ entries (numbered (h_seq (hash_of k) + 1) ms)),
     k_pub := k_pub k @ map (\<lambda>(q, t, p). (t, q, p)) (numbered (h_seq (hash_of k) + 1) ms)\<rparr>)"
  using assms
proof (induction ms arbitrary: k)
  case (Cons m ms)
  obtain ty mk where m: "m = (ty, mk)" by (cases m)
  let ?q = "h_seq (hash_of k) + 1"
  let ?k1 = "k\<lparr>k_state := Present ((hash_of k)\<lparr>h_seq := ?q\<rparr>),
     k_events := Present (events_of k @ [seq_entry ?q ty (mk ?q)]),
     k_pub := k_pub k @ [(ty, ?q, mk ?q)]\<rparr>"
  have e: "emit ty mk k = Inr ?k1"
    using emit_eq [OF Cons.prems(1,2), of ty mk] by simp
  show ?case
  proof (cases "ms = []")
    case True
    with e show ?thesis by (simp add: m)
  next
    case False
    then show ?thesis
      using e Cons.IH [of ?k1] Cons.prems by (simp add: m algebra_simps)
  qed
qed simp

lemma log_ok_numbered:
  "log_ok es \<Longrightarrow> q = int (length es) + 1 \<Longrightarrow> log_ok (es @ entries (numbered q ms))"
proof (induction q ms arbitrary: es rule: numbered.induct)
  case (2 q ty mk ms)
  have "log_ok (es @ [seq_entry q ty (mk q)])" using 2(2,3) by (rule log_ok_snoc)
  then have "log_ok ((es @ [seq_entry q ty (mk q)]) @ entries (numbered (q + 1) ms))"
    using 2(3) by (intro 2(1)) auto
  then show ?case by simp
qed simp

lemma has_final_numbered:
  "has_final (entries (numbered q ms)) \<longleftrightarrow> (\<exists>m\<in>set ms. final_event (fst m))"
  by (induction q ms rule: numbered.induct) auto

definition reveal_msgs :: "money \<Rightarrow> (msg_type \<times> (int \<Rightarrow> json)) list \<Rightarrow> int \<Rightarrow> zset \<Rightarrow> (uid \<rightharpoonup> string)
    \<Rightarrow> (msg_type \<times> (int \<Rightarrow> json)) list" where
  "reveal_msgs price extra now z nm =
     [(AUCTION_REVEALED, \<lambda>q. reveal_json q (revealed_bids nm z) (fst (hd z)) price now)] @ extra"

lemma reveal_and_sell_eq:
  fixes price :: money and extra :: "(msg_type \<times> (int \<Rightarrow> json)) list" and now :: int and z :: zset
    and k :: akeys and h :: room_hash
  assumes "lastStreamSeq (events_of k) = h_seq h" "0 \<le> h_seq h"
  defines "ms \<equiv> reveal_msgs price extra now z (names_of k)"
  defines "q \<equiv> h_seq h + int (length ms) + 1"
  shows "reveal_and_sell price extra h now z k =
    (Reply OK_SOLD [RInt q, RJson (sold_json q (fst (hd z)) price now)],
     k\<lparr>k_state := Present (h\<lparr>h_winnerId := fst (hd z), h_currentPriceCents := Some price,
                             h_status := Some SOLD, h_seq := q\<rparr>),
       k_leaderboard := Present (fold (\<lambda>(u, s). zadd u s) z (board_of k)),
       k_events := Present (events_of k @ entries (numbered (h_seq h + 1) ms)
                               @ [seq_entry q AUCTION_SOLD (sold_json q (fst (hd z)) price now)]),
       k_sealed := Absent, k_sealednames := Absent,
       k_pub := k_pub k @ map (\<lambda>(q, t, p). (t, q, p)) (numbered (h_seq h + 1) ms)
                        @ [(AUCTION_SOLD, q, sold_json q (fst (hd z)) price now)]\<rparr>)"
proof -
  let ?h = "h\<lparr>h_winnerId := fst (hd z), h_currentPriceCents := Some price, h_status := Some SOLD\<rparr>"
  let ?k1 = "set_hash ?h (k\<lparr>k_leaderboard := Present (fold (\<lambda>(u, s). zadd u s) z (board_of k))\<rparr>)"
  let ?ms = "ms @ [(AUCTION_SOLD, \<lambda>q. sold_json q (fst (hd z)) price now)]"
  have "emit_all ?ms ?k1 = Inr (?k1
    \<lparr>k_state := Present (?h\<lparr>h_seq := h_seq ?h + int (length ?ms)\<rparr>),
     k_events := Present (events_of k @ entries (numbered (h_seq ?h + 1) ?ms)),
     k_pub := k_pub ?k1 @ map (\<lambda>(q, t, p). (t, q, p)) (numbered (h_seq ?h + 1) ?ms)\<rparr>)"
    using emit_all_eq [of ?k1 ?ms] assms(1,2) by (simp add: set_hash_def)
  then show ?thesis
    unfolding reveal_and_sell_def Let_def
    by (simp add: ms_def reveal_msgs_def q_def numbered_append set_hash_def algebra_simps)
qed

end
