(* ===== verification/SealedClose.thy ===== *)
theory SealedClose
  imports SealedBid
begin

text \<open>
  What the closing scripts of the sealed modes do: they obey the contract, they sell to the
  highest bid at the price of the mode, the second price does not depend on the winner's
  own bid, and the private keys are gone afterwards. Then: what bidders in a live sealed
  auction can observe.
\<close>

section \<open>Outcomes\<close>

lemma close_prologue_cases:
  obtains (refused) r where "close_prologue t k settle = (r, k)" "\<not> accepting r"
  | (no_bid) "close_prologue t k settle = end_auction OK_NO_BID NO_BID AUCTION_NO_BID
        (end_json (h_seq (hash_of k) + 1) NO_BID (redis_now t)) (hash_of k) k"
      "h_status (hash_of k) = Some LIVE" "h_endAtMs (hash_of k) \<le> redis_now t" "sealed_of k = []"
  | (settled) "close_prologue t k settle = settle (hash_of k) (redis_now t) (sealed_of k)"
      "h_status (hash_of k) = Some LIVE" "h_endAtMs (hash_of k) \<le> redis_now t" "sealed_of k \<noteq> []"
proof -
  let ?bad = "bad_type (k_state k) \<or> bad_type (k_events k) \<or> bad_type (k_sealed k)
         \<or> bad_type (k_sealednames k) \<or> bad_type (k_leaderboard k)"
  show ?thesis
  proof (cases "?bad \<or> h_status (hash_of k) \<noteq> Some LIVE \<or> redis_now t < h_endAtMs (hash_of k)
      \<or> lastStreamSeq (events_of k) \<noteq> h_seq (hash_of k)")
    case True
    then have "\<exists>r. close_prologue t k settle = (r, k) \<and> \<not> accepting r"
      unfolding close_prologue_def Let_def by auto
    then show ?thesis using refused by blast
  next
    case False
    then show ?thesis
      using no_bid settled by (cases "sealed_of k = []") (auto simp: close_prologue_def Let_def)
  qed
qed

lemma fold_zadd_ok: "zset_ok lb \<Longrightarrow> zset_ok (fold (\<lambda>(u, s). zadd u s) z lb)"
  by (induction z arbitrary: lb) (auto simp: zadd_ok)

lemma reveal_and_sell_accepting: "accepting (fst (reveal_and_sell price extra h now z k))"
  by (simp add: reveal_and_sell_def Let_def split: sum.splits)

lemma reveal_and_sell_inv:
  assumes inv: "room_inv k" and live: "h_status (hash_of k) = Some LIVE"
    and extra: "\<forall>m\<in>set extra. \<not> final_event (fst m)"
  shows "room_inv (snd (reveal_and_sell price extra (hash_of k) now z k))"
proof -
  let ?ms = "reveal_msgs price extra now z (names_of k)"
  let ?es = "events_of k @ entries (numbered (h_seq (hash_of k) + 1) ?ms)"
  note len = room_invD(2) [OF inv]
  have "log_ok ?es" using room_invD(1,2) [OF inv] by (intro log_ok_numbered) auto
  then have "log_ok (?es @ [seq_entry (h_seq (hash_of k) + int (length ?ms) + 1) AUCTION_SOLD p])" for p
    using len by (intro log_ok_snoc) auto
  moreover have "\<not> has_final ?es"
    using room_inv_live [OF inv live] extra by (auto simp: has_final_numbered reveal_msgs_def)
  ultimately show ?thesis
    using len room_invD(5) [OF inv] ends_final_snoc [of ?es]
    by (simp add: room_inv_def reveal_and_sell_eq [OF room_invD(4) [OF inv] room_invD(3) [OF inv]]
        status_terminal_def not_started_def fold_zadd_ok del: ends_final_snoc)
qed

lemma close_contract:
  assumes run: "\<And>a t k. run a t k = close_prologue t k (\<lambda>h now z.
      reveal_and_sell (price a h z) (extra a z now) h now z k)"
    and extra: "\<And>a z now m. m \<in> set (extra a z now) \<Longrightarrow> \<not> final_event (fst m)"
  shows "hot_script run"
proof unfold_locales
  fix k a t
  let ?settle = "\<lambda>h now z. reveal_and_sell (price a h z) (extra a z now) h now z k"
  assume inv: "room_inv k"
  note eqs = end_auction_eq [OF room_invD(4) [OF inv] room_invD(3) [OF inv]]
    reveal_and_sell_eq [OF room_invD(4) [OF inv] room_invD(3) [OF inv]]
  show "room_inv (snd (run a t k))"
    using inv by (cases rule: close_prologue_cases [of t k ?settle])
      (auto simp: run live_not_terminal extra intro!: end_auction_inv reveal_and_sell_inv dest: extra)
  show "fst (run a t k) \<noteq> ScriptErr"
    by (cases rule: close_prologue_cases [of t k ?settle]) (auto simp: run eqs)
  show "\<exists>es. events_of (snd (run a t k)) = events_of k @ es"
    by (cases rule: close_prologue_cases [of t k ?settle]) (auto simp: run eqs)
next
  fix k a t
  let ?settle = "\<lambda>h now z. reveal_and_sell (price a h z) (extra a z now) h now z k"
  assume "\<not> accepting (fst (run a t k))"
  then show "snd (run a t k) = k"
    by (cases rule: close_prologue_cases [of t k ?settle])
       (auto simp: run end_auction_accepting reveal_and_sell_accepting)
next
  fix k a t
  let ?settle = "\<lambda>h now z. reveal_and_sell (price a h z) (extra a z now) h now z k"
  assume "status_terminal (hash_of k)"
  then show "same_room k (snd (run a t k))"
    by (cases rule: close_prologue_cases [of t k ?settle]) (auto simp: run status_terminal_def)
qed

lemma forfeits_not_final: "m \<in> set (forfeits z now) \<Longrightarrow> \<not> final_event (fst m)"
  by (cases "(z, now)" rule: forfeits.cases) auto

interpretation reveal: hot_script close_auction_sealed
  by (rule close_contract [OF close_auction_sealed_def]) simp

interpretation allpay: hot_script close_auction_allpay
  by (rule close_contract [OF close_auction_allpay_def forfeits_not_final])

section \<open>Winner and price\<close>

lemma fold_zadd_score:
  assumes "distinct (map fst z)"
  shows "zscore (fold (\<lambda>(u, s). zadd u s) z lb) m =
    (case map_of z m of Some s \<Rightarrow> Some s | None \<Rightarrow> zscore lb m)"
  using assms
proof (induction z arbitrary: lb)
  case (Cons x z)
  have "map_of z (fst x) = None" using Cons.prems by (simp add: map_of_eq_None_iff)
  with Cons show ?case by (cases x) (auto split: option.splits)
qed simp

lemma close_sealed_sold:
  assumes inv: "room_inv k" and ok: "reply_code (fst (close_auction_sealed m t k)) = Some OK_SOLD"
  shows "sealed_of k \<noteq> []"
    and "h_winnerId (hash_of (snd (close_auction_sealed m t k))) = fst (hd (sealed_of k))"
    and "h_currentPriceCents (hash_of (snd (close_auction_sealed m t k)))
           = Some (finalPrice m (hash_of k) (sealed_of k))"
    and "k_sealed (snd (close_auction_sealed m t k)) = Absent"
    and "k_sealednames (snd (close_auction_sealed m t k)) = Absent"
    and "board_of (snd (close_auction_sealed m t k))
           = fold (\<lambda>(u, s). zadd u s) (sealed_of k) (board_of k)"
proof -
  note eqs = end_auction_eq [OF room_invD(4) [OF inv] room_invD(3) [OF inv]]
    reveal_and_sell_eq [OF room_invD(4) [OF inv] room_invD(3) [OF inv]]
  let ?settle = "\<lambda>h now z. reveal_and_sell (finalPrice m h z) [] h now z k"
  have "sealed_of k \<noteq> [] \<and> snd (close_auction_sealed m t k) = snd (?settle (hash_of k) (redis_now t) (sealed_of k))"
    using ok unfolding close_auction_sealed_def
    by (cases rule: close_prologue_cases [of t k ?settle]) (auto simp: eqs dest: refusal_code)
  then show "sealed_of k \<noteq> []"
    and "h_winnerId (hash_of (snd (close_auction_sealed m t k))) = fst (hd (sealed_of k))"
    and "h_currentPriceCents (hash_of (snd (close_auction_sealed m t k)))
           = Some (finalPrice m (hash_of k) (sealed_of k))"
    and "k_sealed (snd (close_auction_sealed m t k)) = Absent"
    and "k_sealednames (snd (close_auction_sealed m t k)) = Absent"
    and "board_of (snd (close_auction_sealed m t k))
           = fold (\<lambda>(u, s). zadd u s) (sealed_of k) (board_of k)"
    by (simp_all add: eqs)
qed

text \<open>Once due, with sound keys, a sealed auction with a bid is sold.\<close>

definition close_ready :: "int \<times> int \<Rightarrow> akeys \<Rightarrow> bool" where
  "close_ready t k \<longleftrightarrow> room_inv k \<and> \<not> bad_type (k_state k) \<and> \<not> bad_type (k_events k)
     \<and> \<not> bad_type (k_sealed k) \<and> \<not> bad_type (k_sealednames k) \<and> \<not> bad_type (k_leaderboard k)
     \<and> h_status (hash_of k) = Some LIVE \<and> h_endAtMs (hash_of k) \<le> redis_now t"

lemma close_ready_sold:
  assumes "close_ready t k" "sealed_of k \<noteq> []"
  shows "reply_code (fst (close_auction_sealed m t k)) = Some OK_SOLD"
  using assms room_invD(3,4) [of k]
  by (simp add: close_ready_def close_auction_sealed_def close_prologue_def Let_def reveal_and_sell_eq)

lemma close_ready_no_bid:
  assumes "close_ready t k" "sealed_of k = []"
  shows "reply_code (fst (close_auction_sealed m t k)) = Some OK_NO_BID"
  using assms room_invD(3,4) [of k]
  by (simp add: close_ready_def close_auction_sealed_def close_prologue_def Let_def end_auction_eq)

text \<open>The price of a sale is the exact value of its text.\<close>

definition price_cents :: "room_hash \<Rightarrow> int" where
  "price_cents h = (case h_currentPriceCents h of
      None \<Rightarrow> 0 | Some s \<Rightarrow> (case dec_int s of None \<Rightarrow> 0 | Some n \<Rightarrow> n))"

text \<open>The outcome of a Vickrey close for a bidder whose only bid is \<open>a\<close> among others.\<close>

definition with_sealed :: "zset \<Rightarrow> akeys \<Rightarrow> akeys" where
  "with_sealed z k = k\<lparr>k_sealed := Present z\<rparr>"

lemma close_ready_with_sealed:
  "close_ready t k \<Longrightarrow> zset_ok z \<Longrightarrow> close_ready t (with_sealed z k)"
  by (auto simp: close_ready_def with_sealed_def room_inv_def)

definition utility :: "uid \<Rightarrow> int \<Rightarrow> akeys \<Rightarrow> int" where
  "utility u v k' = (if h_winnerId (hash_of k') = u then v - price_cents (hash_of k') else 0)"

lemma vickrey_utility:
  assumes ready: "close_ready t k" and z: "zset_ok z" and u: "u \<notin> fst ` set z"
  shows "utility u v (snd (close_auction_sealed SECOND t (with_sealed (zadd u a z) k))) =
    (if z = [] then v - num0 (h_startPriceCents (hash_of k))
     else if zbefore (u, a) (hd z) then v - snd (hd z) else 0)"
proof -
  let ?k = "with_sealed (zadd u a z) k"
  have rem: "zrem u z = z" using u by (force simp: zrem_def intro: filter_True)
  have rdy: "close_ready t ?k" using ready z by (intro close_ready_with_sealed zadd_ok)
  then have inv: "room_inv ?k" by (simp add: close_ready_def)
  have sz: "sealed_of ?k = zins (u, a) z" by (simp add: with_sealed_def zadd_def rem)
  then have "sealed_of ?k \<noteq> []" by simp
  note sold = close_sealed_sold [OF inv close_ready_sold [where m = SECOND, OF rdy this]]
  have h: "hash_of ?k = hash_of k" by (simp add: with_sealed_def)
  note w = sold(2) [unfolded sz] and p = sold(3) [unfolded sz h]
  show ?thesis
  proof (cases z)
    case Nil
    with w p show ?thesis by (simp add: utility_def price_cents_def)
  next
    case (Cons x xs)
    then have "fst x \<noteq> u" using u by auto
    with w p Cons show ?thesis by (simp add: utility_def price_cents_def)
  qed
qed

section \<open>What the room sees of a live sealed auction\<close>

text \<open>The amount a sealed bid must have to be taken, which does not depend on other bids.\<close>

definition sealed_amount_ok :: "room_hash \<Rightarrow> money \<Rightarrow> bool" where
  "sealed_amount_ok h s \<longleftrightarrow> (case tonumber s of None \<Rightarrow> False | Some a \<Rightarrow>
     0 < a \<and> a \<le> MaxMoneyCents \<and> num0 (h_startPriceCents h) \<le> a \<and> (cap_of h > 0 \<longrightarrow> a \<le> cap_of h))"

text \<open>Two bids that differ in the amount only.\<close>

definition same_but_amount :: "bid_args \<Rightarrow> bid_args \<Rightarrow> bool" where
  "same_but_amount b b' \<longleftrightarrow> ba_userId b = ba_userId b' \<and> ba_clientBidId b = ba_clientBidId b'
     \<and> ba_displayName b = ba_displayName b'"

text \<open>Two deduplication hashes with the same ids and deadline; the acks may differ.\<close>

definition same_dedupe :: "dedupe \<Rightarrow> dedupe \<Rightarrow> bool" where
  "same_dedupe d d' \<longleftrightarrow> dom (d_acks d) = dom (d_acks d') \<and> d_expireAt d = d_expireAt d'"

text \<open>Two states that differ in the private amounts and acks only.\<close>

definition same_public :: "akeys \<Rightarrow> akeys \<Rightarrow> bool" where
  "same_public k k' \<longleftrightarrow> k_state k = k_state k' \<and> k_leaderboard k = k_leaderboard k'
     \<and> k_events k = k_events k' \<and> k_pub k = k_pub k' \<and> k_sealednames k = k_sealednames k'
     \<and> bad_type (k_sealed k) = bad_type (k_sealed k')
     \<and> fst ` set (sealed_of k) = fst ` set (sealed_of k')
     \<and> distinct (map fst (sealed_of k)) \<and> distinct (map fst (sealed_of k'))
     \<and> (\<forall>u. rel_slot same_dedupe (k_dedupe k u) (k_dedupe k' u))"

lemma slot_same_type: "rel_slot R x y \<Longrightarrow> bad_type x = bad_type y"
  by (cases x; cases y) auto

lemma rel_slot_refl: "(\<And>d. R d d) \<Longrightarrow> rel_slot R x x"
  by (cases x) auto

lemma same_public_refl: "zset_ok (sealed_of k) \<Longrightarrow> same_public k k"
  by (simp add: same_public_def zset_ok_def rel_slot_refl same_dedupe_def)

text \<open>What the same command finds of the hashes, and leaves of them.\<close>

lemma same_live:
  "rel_slot same_dedupe (k_dedupe k u) (k_dedupe k' u) \<Longrightarrow> rel_slot same_dedupe (live_dedupe now k u) (live_dedupe now k' u)"
  by (cases "k_dedupe k u"; cases "k_dedupe k' u") (auto simp: live_dedupe_def same_dedupe_def split: option.splits)

lemma same_dedupe_at:
  "rel_slot same_dedupe (k_dedupe k u) (k_dedupe k' u) \<Longrightarrow> same_dedupe (dedupe_at now k u) (dedupe_at now k' u)"
  using same_live [of k u k' now]
  by (cases "live_dedupe now k u"; cases "live_dedupe now k' u") (auto simp: same_dedupe_def)

lemma same_cache_ack:
  assumes "\<And>v. rel_slot same_dedupe (k_dedupe k v) (k_dedupe k' v)"
  shows "rel_slot same_dedupe (k_dedupe (cache_ack u c j now k) v) (k_dedupe (cache_ack u c j' now k') v)"
  using assms same_dedupe_at [OF assms, of now u] by (simp add: cache_ack_def same_dedupe_def)

lemma same_ensure_ttl:
  assumes "\<And>v. rel_slot same_dedupe (k_dedupe k v) (k_dedupe k' v)"
  shows "rel_slot same_dedupe (k_dedupe (ensure_dedupe_ttl u now k) v) (k_dedupe (ensure_dedupe_ttl u now k') v)"
  using assms same_live [OF assms, of now u]
  by (cases "live_dedupe now k u"; cases "live_dedupe now k' u") (auto simp: ensure_dedupe_ttl_def same_dedupe_def)

lemma same_public_room: "same_room k k1 \<Longrightarrow> same_room k' k1' \<Longrightarrow>
    (\<And>u. rel_slot same_dedupe (k_dedupe k1 u) (k_dedupe k1' u)) \<Longrightarrow>
    same_public k k' \<Longrightarrow> same_public k1 k1'"
  by (simp add: same_public_def same_room_def)

lemma members_zadd: "fst ` set (zadd u a z) = insert u (fst ` set z)"
  by (auto simp: zadd_def zrem_def)

lemma zscore_None_iff: "zscore z u = None \<longleftrightarrow> u \<notin> fst ` set z"
  by (simp add: zscore_def map_of_eq_None_iff)

lemma members_raise_score: "fst ` set (raise_score u a z) = insert u (fst ` set z)"
  using zscore_None_iff [of z u] members_zadd [of u a z]
  by (auto simp: raise_score_def split: option.splits)

lemma distinct_zadd: "distinct (map fst z) \<Longrightarrow> distinct (map fst (zadd u a z))"
  unfolding zadd_def by (rule distinct_zins) (auto simp: zrem_def distinct_map_filter)

lemma distinct_raise_score: "distinct (map fst z) \<Longrightarrow> distinct (map fst (raise_score u a z))"
  by (auto simp: raise_score_def distinct_zadd split: option.splits)

lemma length_by_members:
  "distinct (map fst z) \<Longrightarrow> distinct (map fst z') \<Longrightarrow> fst ` set z = fst ` set z' \<Longrightarrow> length z = length z'"
  using distinct_card [of "map fst z"] distinct_card [of "map fst z'"] by simp

lemma length_raise_score:
  assumes "distinct (map fst z)" "distinct (map fst z')" "fst ` set z = fst ` set z'"
  shows "length (raise_score u a z) = length (raise_score u a' z')"
  using assms by (intro length_by_members distinct_raise_score) (auto simp: members_raise_score)

lemma sealed_guard_amount:
  assumes "sealed_amount_ok h s" "sealed_amount_ok h s'"
  shows "sealed_guard h u (tonumber s) now = sealed_guard h u (tonumber s') now"
  using assms by (auto simp: sealed_guard_def sealed_amount_ok_def Let_def split: option.splits)

lemma record_sealed_public:
  assumes pub: "same_public k k'" and b: "same_but_amount b b'"
    and q: "lastStreamSeq (events_of k) = h_seq h" "0 \<le> h_seq h"
  shows "same_public (snd (record_sealed b a now h k)) (snd (record_sealed b' a' now h k'))"
proof -
  have q': "lastStreamSeq (events_of k') = h_seq h" using pub q by (simp add: same_public_def)
  have len: "length (raise_score (ba_userId b) a (sealed_of k))
           = length (raise_score (ba_userId b') a' (sealed_of k'))"
    using pub b length_raise_score [of "sealed_of k" "sealed_of k'"]
    by (simp add: same_public_def same_but_amount_def)
  have mem: "fst ` set (raise_score (ba_userId b) a (sealed_of k))
      = fst ` set (raise_score (ba_userId b') a' (sealed_of k'))"
    using pub b by (simp add: members_raise_score same_public_def same_but_amount_def)
  have rel: "rel_slot same_dedupe (k_dedupe k v) (k_dedupe k' v)" for v using pub by (simp add: same_public_def)
  have pubs: "k_state k' = k_state k" "k_leaderboard k' = k_leaderboard k" "k_events k' = k_events k"
    "k_pub k' = k_pub k" "k_sealednames k' = k_sealednames k" "distinct (map fst (sealed_of k))"
    "distinct (map fst (sealed_of k'))" "ba_userId b' = ba_userId b" "ba_clientBidId b' = ba_clientBidId b"
    "ba_displayName b' = ba_displayName b"
    using pub b by (simp_all add: same_public_def same_but_amount_def)
  show ?thesis
    unfolding record_sealed_eq [OF q] record_sealed_eq [OF q' q(2)] same_public_def
    using pubs len mem rel
    by (intro conjI allI) (simp_all add: cache_ack_frame distinct_raise_score same_cache_ack)
qed

lemma place_bid_sealed_public:
  assumes pub: "same_public k k'" and inv: "room_inv k" and b: "same_but_amount b b'"
    and ok: "sealed_amount_ok (hash_of k) (ba_amountStr b)" "sealed_amount_ok (hash_of k) (ba_amountStr b')"
  shows "same_public (snd (place_bid_sealed b t k)) (snd (place_bid_sealed b' t k'))"
    and "reply_code (fst (place_bid_sealed b t k)) = reply_code (fst (place_bid_sealed b' t k'))"
proof -
  let ?u = "ba_userId b" and ?c = "ba_clientBidId b"
  have id: "ba_userId b' = ?u" "ba_clientBidId b' = ?c"
    using b by (simp_all add: same_but_amount_def)
  have same: "hash_of k' = hash_of k" "events_of k' = events_of k"
    "sealed_keys_bad ?u k' = sealed_keys_bad ?u k"
    using pub slot_same_type [of same_dedupe "k_dedupe k ?u" "k_dedupe k' ?u"]
    by (simp_all add: same_public_def sealed_keys_bad_def)
  have dd: "rel_slot same_dedupe (k_dedupe k v) (k_dedupe k' v)" for v using pub by (simp add: same_public_def)
  have "dom (d_acks (dedupe_at (redis_now t) k ?u)) = dom (d_acks (dedupe_at (redis_now t) k' ?u))"
    using same_dedupe_at [OF dd] unfolding same_dedupe_def by blast
  then have ack: "d_acks (dedupe_at (redis_now t) k' ?u) ?c = None \<longleftrightarrow> d_acks (dedupe_at (redis_now t) k ?u) ?c = None"
    by (metis domIff)
  have guard: "sealed_guard (hash_of k) ?u (tonumber (ba_amountStr b')) (redis_now t)
             = sealed_guard (hash_of k) ?u (tonumber (ba_amountStr b)) (redis_now t)"
    using ok by (intro sealed_guard_amount)
  have q: "0 \<le> h_seq (hash_of k)" using inv by (rule room_invD(3))
  have "same_public (snd (place_bid_sealed b t k)) (snd (place_bid_sealed b' t k'))
      \<and> reply_code (fst (place_bid_sealed b t k)) = reply_code (fst (place_bid_sealed b' t k'))"
  proof (cases "sealed_keys_bad ?u k")
    case True
    then show ?thesis using pub by (simp add: place_bid_sealed_def same id)
  next
    case ok: False
    show ?thesis
    proof (cases "d_acks (dedupe_at (redis_now t) k ?u) ?c")
      case (Some j)
      then obtain j' where "d_acks (dedupe_at (redis_now t) k' ?u) ?c = Some j'" using ack by auto
      then show ?thesis
        using ok Some same_public_room [OF _ _ same_ensure_ttl [OF dd] pub]
        by (simp add: place_bid_sealed_def same id)
    next
      case new: None
      then have new': "d_acks (dedupe_at (redis_now t) k' ?u) ?c = None" using ack by simp
      show ?thesis
      proof (cases "sealed_guard (hash_of k) ?u (tonumber (ba_amountStr b)) (redis_now t)")
        case (Some r)
        then show ?thesis
          using ok new new' pub guard by (simp add: place_bid_sealed_def same id Let_def)
      next
        case None
        then show ?thesis
          using ok new new' pub guard q record_sealed_public [OF pub b _ q]
            record_sealed_eq [of k "hash_of k"] record_sealed_eq [of k' "hash_of k"]
          by (simp add: place_bid_sealed_def same id Let_def)
      qed
    qed
  qed
  then show "same_public (snd (place_bid_sealed b t k)) (snd (place_bid_sealed b' t k'))"
    and "reply_code (fst (place_bid_sealed b t k)) = reply_code (fst (place_bid_sealed b' t k'))"
    by simp_all
qed

text \<open>The limits on amounts do not move while bids come in.\<close>

lemma sealed_amount_ok_cong:
  "h_startPriceCents h' = h_startPriceCents h \<Longrightarrow> h_capPriceCents h' = h_capPriceCents h \<Longrightarrow>
   sealed_amount_ok h' s = sealed_amount_ok h s"
  by (simp add: sealed_amount_ok_def cap_of_def split: option.splits)

lemma sealed_amount_ok_stable:
  assumes "room_inv k"
  shows "sealed_amount_ok (hash_of (snd (place_bid_sealed b t k))) s = sealed_amount_ok (hash_of k) s"
  using record_sealed_eq [OF room_invD(4) [OF assms] room_invD(3) [OF assms]]
  by (cases rule: place_bid_sealed_cases [of b t k])
     (simp_all add: frame_simps cache_ack_def, rule sealed_amount_ok_cong, simp_all)

lemma sealed_runs_public:
  assumes "same_public k k'" "room_inv k"
    and "list_all2 (\<lambda>(b, t) (b', t'). same_but_amount b b' \<and> t = t'
           \<and> sealed_amount_ok (hash_of k) (ba_amountStr b) \<and> sealed_amount_ok (hash_of k) (ba_amountStr b')) cs cs'"
  shows "same_public (sealed.runs cs k) (sealed.runs cs' k')"
  using assms
proof (induction cs arbitrary: cs' k k')
  case (Cons c cs)
  obtain b t where c: "c = (b, t)" by (cases c)
  with Cons.prems(3) obtain b' ds where cs': "cs' = (b', t) # ds" and b: "same_but_amount b b'"
    and ok: "sealed_amount_ok (hash_of k) (ba_amountStr b)" "sealed_amount_ok (hash_of k) (ba_amountStr b')"
    and rest: "list_all2 (\<lambda>(b, t) (b', t'). same_but_amount b b' \<and> t = t'
           \<and> sealed_amount_ok (hash_of k) (ba_amountStr b) \<and> sealed_amount_ok (hash_of k) (ba_amountStr b')) cs ds"
    by (auto simp: list_all2_Cons1)
  let ?k1 = "snd (place_bid_sealed b t k)" and ?k1' = "snd (place_bid_sealed b' t k')"
  have "same_public ?k1 ?k1'" using Cons.prems(1,2) b ok by (rule place_bid_sealed_public(1))
  moreover have "room_inv ?k1" using Cons.prems(2) by (rule sealed.keeps_inv)
  moreover have "list_all2 (\<lambda>(b, t) (b', t'). same_but_amount b b' \<and> t = t'
      \<and> sealed_amount_ok (hash_of ?k1) (ba_amountStr b) \<and> sealed_amount_ok (hash_of ?k1) (ba_amountStr b')) cs ds"
    using rest by (simp add: sealed_amount_ok_stable [OF Cons.prems(2)])
  ultimately have "same_public (sealed.runs cs ?k1) (sealed.runs ds ?k1')" by (rule Cons.IH)
  then show ?case by (simp add: c cs')
qed simp

end
