(* ===== verification/Engine.thy ===== *)
theory Engine
  imports HybridBid SealedClose
begin

text \<open>
  The auction engine as a whole: every script as a command on the keys of one auction, the
  states it can reach, and what no command ever takes back.
\<close>

section \<open>Commands\<close>

datatype cmd = CFreeze freeze_args | CStart int | CBid bid_args | CHybrid bid_args
  | CSealed bid_args | CClose | CCloseSealed priceMode | CCloseAllPay | CCancel uid

fun exec :: "cmd \<Rightarrow> int \<times> int \<Rightarrow> akeys \<Rightarrow> reply \<times> akeys" where
  "exec (CFreeze a) t k = freeze_rules a t k"
| "exec (CStart d) t k = start_auction d t k"
| "exec (CBid b) t k = place_bid b t k"
| "exec (CHybrid b) t k = place_bid_hybrid b t k"
| "exec (CSealed b) t k = place_bid_sealed b t k"
| "exec CClose t k = close_auction () t k"
| "exec (CCloseSealed m) t k = close_auction_sealed m t k"
| "exec CCloseAllPay t k = close_auction_allpay () t k"
| "exec (CCancel u) t k = cancel_auction u t k"

interpretation engine: hot_script exec
proof unfold_locales
  fix k c t
  assume inv: "room_inv k"
  show "room_inv (snd (exec c t k))"
    using inv by (cases c) (auto intro: freeze.keeps_inv start.keeps_inv ascending.keeps_inv
      hybrid.keeps_inv sealed.keeps_inv hammer.keeps_inv reveal.keeps_inv allpay.keeps_inv cancel.keeps_inv)
  show "fst (exec c t k) \<noteq> ScriptErr"
    using inv by (cases c) (auto dest: freeze.no_dirty_stop start.no_dirty_stop ascending.no_dirty_stop
      hybrid.no_dirty_stop sealed.no_dirty_stop hammer.no_dirty_stop reveal.no_dirty_stop
      allpay.no_dirty_stop cancel.no_dirty_stop)
  show "\<exists>es. events_of (snd (exec c t k)) = events_of k @ es"
    using inv by (cases c) (auto intro: freeze.log_grows start.log_grows ascending.log_grows
      hybrid.log_grows sealed.log_grows hammer.log_grows reveal.log_grows allpay.log_grows cancel.log_grows)
next
  fix k c t
  assume "\<not> accepting (fst (exec c t k))"
  then show "snd (exec c t k) = k"
    by (cases c) (auto simp: freeze.refusal_writes_nothing start.refusal_writes_nothing
      ascending.refusal_writes_nothing hybrid.refusal_writes_nothing sealed.refusal_writes_nothing
      hammer.refusal_writes_nothing reveal.refusal_writes_nothing allpay.refusal_writes_nothing
      cancel.refusal_writes_nothing)
next
  fix k c t
  assume "status_terminal (hash_of k)"
  then show "same_room k (snd (exec c t k))"
    by (cases c) (auto simp: freeze.terminal_frozen start.terminal_frozen ascending.terminal_frozen
      hybrid.terminal_frozen sealed.terminal_frozen hammer.terminal_frozen reveal.terminal_frozen
      allpay.terminal_frozen cancel.terminal_frozen)
qed

inductive reachable :: "akeys \<Rightarrow> bool" where
  reach_init: "reachable empty_keys"
| reach_exec: "reachable k \<Longrightarrow> reachable (snd (exec c t k))"

inductive_cases reachable_cases: "reachable k"

lemma reachable_inv: "reachable k \<Longrightarrow> room_inv k"
  by (induction rule: reachable.induct) (auto simp: room_inv_empty engine.keeps_inv)

lemma reachable_runs: "reachable k \<Longrightarrow> reachable (engine.runs cs k)"
  by (induction cs k rule: engine.runs.induct) (auto intro: reach_exec)

section \<open>What no command takes back: key types and cached acks\<close>

text \<open>\<open>keeps T k k'\<close>: no key of \<open>k'\<close> has a wrong type that it did not have in \<open>k\<close>, and every ack
  that a retry at time \<open>T\<close> would find in \<open>k\<close> it finds in \<open>k'\<close>.\<close>

definition keeps :: "int \<Rightarrow> akeys \<Rightarrow> akeys \<Rightarrow> bool" where
  "keeps T k k' \<longleftrightarrow> (bad_type (k_state k') \<longrightarrow> bad_type (k_state k))
     \<and> (bad_type (k_leaderboard k') \<longrightarrow> bad_type (k_leaderboard k))
     \<and> (bad_type (k_events k') \<longrightarrow> bad_type (k_events k))
     \<and> (bad_type (k_sealed k') \<longrightarrow> bad_type (k_sealed k))
     \<and> (bad_type (k_sealednames k') \<longrightarrow> bad_type (k_sealednames k))
     \<and> (\<forall>u. bad_type (k_dedupe k' u) \<longrightarrow> bad_type (k_dedupe k u))
     \<and> (\<forall>u c j. d_acks (dedupe_at T k u) c = Some j \<longrightarrow> d_acks (dedupe_at T k' u) c = Some j)"

lemma keeps_refl [simp]: "keeps T k k"
  by (simp add: keeps_def)

lemma keeps_trans: "keeps T a b \<Longrightarrow> keeps T b c \<Longrightarrow> keeps T a c"
  by (simp add: keeps_def)

lemma keeps_ensure_ttl: "T \<le> now + dedupe_ms \<Longrightarrow> keeps T k (ensure_dedupe_ttl u now k)"
  by (simp add: keeps_def frame_simps ensure_ttl_dedupe_type ensure_ttl_holds)

text \<open>A change that leaves the deduplication hashes alone.\<close>

lemma keeps_same_dedupe:
  assumes "k_dedupe k' = k_dedupe k"
    and "bad_type (k_state k') \<longrightarrow> bad_type (k_state k)" "bad_type (k_leaderboard k') \<longrightarrow> bad_type (k_leaderboard k)"
    "bad_type (k_events k') \<longrightarrow> bad_type (k_events k)" "bad_type (k_sealed k') \<longrightarrow> bad_type (k_sealed k)"
    "bad_type (k_sealednames k') \<longrightarrow> bad_type (k_sealednames k)"
  shows "keeps T k k'"
proof -
  have "live_dedupe T k' u = live_dedupe T k u" for u using assms(1) by (intro live_dedupe_cong) simp
  then show ?thesis using assms by (simp add: keeps_def)
qed

text \<open>A change of the other keys, and one more ack under an id that had none.\<close>

lemma keeps_cache_ack:
  assumes "d_acks (dedupe_at now k u) cb = None" "now \<le> T" "T \<le> now + dedupe_ms"
    and dd: "k_dedupe k' = k_dedupe (cache_ack u cb j now k)"
    and ty: "bad_type (k_state k') \<longrightarrow> bad_type (k_state k)" "bad_type (k_leaderboard k') \<longrightarrow> bad_type (k_leaderboard k)"
    "bad_type (k_events k') \<longrightarrow> bad_type (k_events k)" "bad_type (k_sealed k') \<longrightarrow> bad_type (k_sealed k)"
    "bad_type (k_sealednames k') \<longrightarrow> bad_type (k_sealednames k)"
  shows "keeps T k k'"
proof -
  have live: "live_dedupe T k' v = live_dedupe T (cache_ack u cb j now k) v" for v
    using dd by (intro live_dedupe_cong) simp
  have "d_acks (dedupe_at T k' v) c = Some x" if x: "d_acks (dedupe_at T k v) c = Some x" for v c x
  proof -
    have "c \<noteq> cb" if "u = v"
    proof
      assume "c = cb"
      with x that have "d_acks (dedupe_at now k u) cb = Some x" using assms(2) by (fastforce simp: ack_at_iff)
      with assms(1) show False by simp
    qed
    then show ?thesis unfolding live using x assms(2,3) by (intro cache_ack_holds) auto
  qed
  moreover have "bad_type (k_dedupe k' v) \<longrightarrow> bad_type (k_dedupe k v)" for v by (simp add: dd cache_ack_def)
  ultimately show ?thesis using ty by (simp add: keeps_def)
qed

lemma keeps_set_hash [simp]: "keeps T k (set_hash h k)"
  by (rule keeps_same_dedupe) (simp_all add: set_hash_def)

lemma commit_bid_keeps:
  assumes "d_acks (dedupe_at now k (ba_userId b)) (ba_clientBidId b) = None"
    "lastStreamSeq (events_of k) = h_seq h" "0 \<le> h_seq h" "h_seq h' = h_seq h + 1"
    "now \<le> T" "T \<le> now + dedupe_ms"
  shows "keeps T k (snd (commit_bid b a now h h' ack bid k))"
  unfolding commit_bid_eq [OF assms(2-4)]
  by (rule keeps_cache_ack [OF assms(1,5,6), where j = ack]) (simp_all add: cache_ack_def)

lemma exec_keeps:
  assumes inv: "room_inv k" and T: "redis_now t \<le> T" "T \<le> redis_now t + dedupe_ms"
  shows "keeps T k (snd (exec c t k))"
proof -
  note q = room_invD(4) [OF inv] room_invD(3) [OF inv]
  show ?thesis
  proof (cases c)
    case (CFreeze a)
    then show ?thesis by (cases rule: freeze_rules_cases [of a t k]) auto
  next
    case (CStart d)
    then show ?thesis by (cases rule: start_auction_cases [of d t k]) auto
  next
    case (CBid b)
    then show ?thesis
      by (cases rule: place_bid_cases [of b t k]) (auto intro!: commit_bid_keeps keeps_ensure_ttl simp: q T)
  next
    case (CHybrid b)
    then show ?thesis
      by (cases rule: place_bid_hybrid_cases [of b t k]) (auto intro!: commit_bid_keeps keeps_ensure_ttl simp: q T)
  next
    case (CSealed b)
    then show ?thesis
      by (cases rule: place_bid_sealed_cases [of b t k])
         (auto simp: record_sealed_eq [OF q] T intro!: keeps_ensure_ttl
            intro: keeps_cache_ack [OF _ T] simp: cache_ack_def)
  next
    case CClose
    then show ?thesis
      by (cases rule: close_auction_cases [of "()" t k]) (auto simp: end_auction_eq [OF q] intro!: keeps_same_dedupe)
  next
    case (CCloseSealed m)
    then show ?thesis
      by (cases rule: close_prologue_cases [of t k "\<lambda>h now z. reveal_and_sell (finalPrice m h z) [] h now z k"])
         (auto simp: close_auction_sealed_def end_auction_eq [OF q] reveal_and_sell_eq [OF q] intro!: keeps_same_dedupe)
  next
    case CCloseAllPay
    then show ?thesis
      by (cases rule: close_prologue_cases [of t k
            "\<lambda>h now z. reveal_and_sell (FormatInt (snd (hd z))) (forfeits z now) h now z k"])
         (auto simp: close_auction_allpay_def end_auction_eq [OF q] reveal_and_sell_eq [OF q] intro!: keeps_same_dedupe)
  next
    case (CCancel u)
    then show ?thesis
      by (cases rule: cancel_auction_cases [of u t k]) (auto simp: end_auction_eq [OF q] intro!: keeps_same_dedupe)
  qed
qed

lemma runs_keeps:
  assumes "room_inv k" "\<forall>(c, t)\<in>set cs. redis_now t \<le> T \<and> T \<le> redis_now t + dedupe_ms"
  shows "keeps T k (engine.runs cs k)"
  using assms
  by (induction cs k rule: engine.runs.induct) (auto intro: keeps_trans exec_keeps engine.keeps_inv)

text \<open>The types of the keys, whatever the time.\<close>

lemma exec_types: "room_inv k \<Longrightarrow> keeps (redis_now t) k (snd (exec c t k))"
  by (rule exec_keeps) (simp_all add: dedupe_ms_def)

text \<open>After an accepted bid, its retry replays the same ack and touches nothing visible.\<close>

lemma place_bid_caches:
  assumes inv: "room_inv k"
    and ok: "fst (place_bid b t k) = Reply c (RInt q # RJson ack # vs)"
      "c \<in> {OK_ACCEPTED, OK_EXTENDED, OK_SOLD}"
    and T: "redis_now t \<le> T" "T \<le> redis_now t + dedupe_ms"
  shows "d_acks (dedupe_at T (snd (place_bid b t k)) (ba_userId b)) (ba_clientBidId b) = Some ack"
    and "\<not> bid_keys_bad (ba_userId b) (snd (place_bid b t k))"
proof -
  have "d_acks (dedupe_at T (snd (place_bid b t k)) (ba_userId b)) (ba_clientBidId b) = Some ack
      \<and> \<not> bid_keys_bad (ba_userId b) (snd (place_bid b t k))"
  proof (cases rule: place_bid_cases [of b t k])
    case (refused r)
    with ok show ?thesis by auto
  next
    case (replayed j)
    with ok show ?thesis by auto
  next
    case accepted
    with ok show ?thesis
      using commit_bid_eq [OF room_invD(4) [OF inv] room_invD(3) [OF inv]] T
      by (auto simp: bid_reply_def cache_ack_def bid_keys_bad_def ack_at_iff split: option.splits)
  qed
  then show "d_acks (dedupe_at T (snd (place_bid b t k)) (ba_userId b)) (ba_clientBidId b) = Some ack"
    and "\<not> bid_keys_bad (ba_userId b) (snd (place_bid b t k))"
    by auto
qed

lemma keeps_keys_bad: "keeps T k k' \<Longrightarrow> \<not> bid_keys_bad u k \<Longrightarrow> \<not> bid_keys_bad u k'"
  by (auto simp: keeps_def bid_keys_bad_def)

lemma place_bid_replay:
  assumes "\<not> bid_keys_bad (ba_userId b) k"
    and "d_acks (dedupe_at (redis_now t) k (ba_userId b)) (ba_clientBidId b) = Some ack"
  shows "place_bid b t k = (Reply DUPLICATE [RJson ack], ensure_dedupe_ttl (ba_userId b) (redis_now t) k)"
  using assms by (simp add: place_bid_def bid_prologue_def)

end
