(* ===== verification/Ascending.thy ===== *)
theory Ascending
  imports Engine
begin

text \<open>
  The ascending auction: its contract as an abstract machine without keys, payloads or
  decimal text, the proof that \<^verbatim>\<open>place_bid\<close> and \<^verbatim>\<open>place_bid_hybrid\<close> implement it, the
  invariant that ties the price, the leader, the leaderboard and the sale event together,
  and the bound on anti-snipe extensions.
\<close>

section \<open>The abstract auction\<close>

datatype phase = Waiting | Open | Closed

record auction =
  a_phase :: phase
  a_paused :: bool
  a_price :: int
  a_leader :: uid
  a_deadline :: int
  a_extensions :: int
  a_best :: "uid \<Rightarrow> int option"
  a_step :: int
  a_cap :: int
  a_window :: int
  a_extend :: int
  a_max :: int
  a_seller :: uid

definition min_raise :: "auction \<Rightarrow> int" where
  "min_raise A = (if a_cap A > 0 then min (a_price A + a_step A) (a_cap A) else a_price A + a_step A)"

definition takes :: "auction \<Rightarrow> uid \<Rightarrow> int \<Rightarrow> int \<Rightarrow> bool" where
  "takes A u amount now \<longleftrightarrow> a_phase A = Open \<and> \<not> a_paused A \<and> now < a_deadline A
     \<and> (a_seller A \<noteq> [] \<longrightarrow> u \<noteq> a_seller A)
     \<and> 0 < amount \<and> amount \<le> MaxMoneyCents \<and> min_raise A \<le> amount
     \<and> (a_cap A > 0 \<longrightarrow> amount \<le> a_cap A)"

definition buys_out :: "auction \<Rightarrow> int \<Rightarrow> bool" where
  "buys_out A amount \<longleftrightarrow> a_cap A > 0 \<and> amount = a_cap A"

definition extends :: "auction \<Rightarrow> int \<Rightarrow> int \<Rightarrow> bool" where
  "extends A amount now \<longleftrightarrow> \<not> buys_out A amount \<and> a_window A > 0 \<and> a_extend A > 0
     \<and> a_deadline A - now \<le> a_window A * 1000 \<and> (a_max A > 0 \<longrightarrow> a_extensions A < a_max A)"

definition after_bid :: "auction \<Rightarrow> uid \<Rightarrow> int \<Rightarrow> int \<Rightarrow> auction" where
  "after_bid A u amount now = A
     \<lparr>a_price := amount, a_leader := u,
      a_best := (a_best A)(u \<mapsto> (case a_best A u of None \<Rightarrow> amount | Some s \<Rightarrow> max s amount)),
      a_phase := (if buys_out A amount then Closed else Open),
      a_extensions := a_extensions A + (if extends A amount now then 1 else 0),
      a_deadline := a_deadline A + (if extends A amount now then a_extend A * 1000 else 0)\<rparr>"

definition phase_of :: "room_hash \<Rightarrow> phase" where
  "phase_of h = (if h_status h = Some LIVE then Open
                 else if status_terminal h then Closed else Waiting)"

definition abs_auction :: "akeys \<Rightarrow> auction" where
  "abs_auction k = (let h = hash_of k in
     \<lparr>a_phase = phase_of h, a_paused = h_paused h, a_price = price_num h, a_leader = h_winnerId h,
      a_deadline = h_endAtMs h, a_extensions = h_extendCount h, a_best = zscore (board_of k),
      a_step = num0 (h_incrementCents h), a_cap = cap_of h, a_window = h_extendWindowSec h,
      a_extend = h_extendSec h, a_max = h_maxExtensions h, a_seller = h_sellerId h\<rparr>)"

section \<open>Refinement\<close>

lemma guard_takes:
  "bid_guard (hash_of k) u (tonumber s) now = None \<longleftrightarrow>
     tonumber s \<noteq> None \<and> takes (abs_auction k) u (num0 s) now"
proof (cases "tonumber s")
  case (Some a)
  then have a: "num0 s = a" by (simp add: num0_def)
  have r: "required_bid (hash_of k) \<le> a \<longleftrightarrow> min_raise (abs_auction k) \<le> a" if "0 < a" "a \<le> MaxMoneyCents"
    using required_le [of a "hash_of k"] that
    by (auto simp: min_raise_def abs_auction_def Let_def min_le_iff_disj)
  have o: "a_phase (abs_auction k) = Open \<longleftrightarrow> h_status (hash_of k) = Some LIVE"
    by (simp add: abs_auction_def phase_of_def Let_def)
  have s: "a_paused (abs_auction k) = h_paused (hash_of k)" "a_deadline (abs_auction k) = h_endAtMs (hash_of k)"
    "a_seller (abs_auction k) = h_sellerId (hash_of k)" "a_cap (abs_auction k) = cap_of (hash_of k)"
    by (simp_all add: abs_auction_def Let_def)
  show ?thesis
    unfolding Some a bid_guard_None_iff takes_def o s using r by auto
qed (simp add: bid_guard_def)

lemma price_num_bid: "h_currentPriceCents h = Some s \<Longrightarrow> price_num h = num0 s"
  by (simp add: price_num_def)

lemma zscore_fun: "zscore (raise_score u a z) =
    (zscore z)(u \<mapsto> (case zscore z u of None \<Rightarrow> a | Some s \<Rightarrow> max s a))"
  by (rule ext) (simp add: zscore_raise_score)

text \<open>The state an accepted bid leaves, in the ascending and in the hybrid script.\<close>

lemma commit_abs:
  assumes guard: "bid_guard (hash_of k) (ba_userId b) (tonumber (ba_amountStr b)) now = None"
    and q: "lastStreamSeq (events_of k) = h_seq (hash_of k)" "0 \<le> h_seq (hash_of k)"
    and h': "h' = bid_hash b (num0 (ba_amountStr b)) now (hash_of k)
      \<or> h' = hybrid_hash b (num0 (ba_amountStr b)) now (hash_of k)"
  shows "abs_auction (snd (commit_bid b (num0 (ba_amountStr b)) now (hash_of k) h' ack bid k))
       = after_bid (abs_auction k) (ba_userId b) (num0 (ba_amountStr b)) now"
proof -
  let ?h = "hash_of k" and ?a = "num0 (ba_amountStr b)"
  have s1: "h_seq h' = h_seq ?h + 1" using h' by auto
  note g = bid_guard_NoneD [OF guard]
  have cap: "cap_hit ?h ?a \<longleftrightarrow> buys_out (abs_auction k) ?a"
    using g(9) by (auto simp: cap_hit_def buys_out_def abs_auction_def Let_def)
  have ext: "anti_snipe ?h ?a now \<longleftrightarrow> extends (abs_auction k) ?a now"
    by (auto simp: anti_snipe_def extends_def cap) (auto simp: abs_auction_def Let_def)
  have ph: "phase_of (h'\<lparr>h_seq := n\<rparr>) = (if buys_out (abs_auction k) ?a then Closed else Open)" for n
    using h' g(2) by (auto simp: phase_of_def status_terminal_def cap split: if_splits)
  show ?thesis
    unfolding commit_bid_eq [OF q s1] after_bid_def ext [symmetric] ph [symmetric, of "h_seq ?h + int (length (bid_events b ?a now ?h bid))"]
    using h' by (auto simp: abs_auction_def Let_def zscore_fun price_num_def newEndAtMs_def cap_of_def)
qed

definition adjudicates :: "(bid_args \<Rightarrow> int \<times> int \<Rightarrow> akeys \<Rightarrow> reply \<times> akeys) \<Rightarrow> bool" where
  "adjudicates run \<longleftrightarrow> (\<forall>b t k. room_inv k \<longrightarrow> \<not> bid_keys_bad (ba_userId b) k \<longrightarrow>
     d_acks (dedupe_at (redis_now t) k (ba_userId b)) (ba_clientBidId b) = None \<longrightarrow>
     (let ok = tonumber (ba_amountStr b) \<noteq> None
               \<and> takes (abs_auction k) (ba_userId b) (num0 (ba_amountStr b)) (redis_now t)
      in accepting (fst (run b t k)) = ok
         \<and> abs_auction (snd (run b t k)) =
             (if ok then after_bid (abs_auction k) (ba_userId b) (num0 (ba_amountStr b)) (redis_now t)
              else abs_auction k)))"

lemma prologue_adjudicates:
  assumes run: "\<And>b t k. run b t k = bid_prologue b t k (\<lambda>a now h.
      commit_bid b a now h (nxt b a now h) (ack b a now h) (bid b a now h) k)"
    and nx: "\<And>b a now h. nxt b a now h = bid_hash b a now h \<or> nxt b a now h = hybrid_hash b a now h"
  shows "adjudicates run"
  unfolding adjudicates_def Let_def
proof (intro allI impI)
  fix b :: bid_args and t k
  assume inv: "room_inv k" and keys: "\<not> bid_keys_bad (ba_userId b) k"
    and new: "d_acks (dedupe_at (redis_now t) k (ba_userId b)) (ba_clientBidId b) = None"
  let ?g = "bid_guard (hash_of k) (ba_userId b) (tonumber (ba_amountStr b)) (redis_now t)"
  show "accepting (fst (run b t k)) =
      (tonumber (ba_amountStr b) \<noteq> None
       \<and> takes (abs_auction k) (ba_userId b) (num0 (ba_amountStr b)) (redis_now t))
    \<and> abs_auction (snd (run b t k)) =
      (if tonumber (ba_amountStr b) \<noteq> None
         \<and> takes (abs_auction k) (ba_userId b) (num0 (ba_amountStr b)) (redis_now t)
       then after_bid (abs_auction k) (ba_userId b) (num0 (ba_amountStr b)) (redis_now t)
       else abs_auction k)"
  proof (cases ?g)
    case (Some r)
    then have "run b t k = (r, k)" using keys new by (simp add: run bid_prologue_def Let_def)
    then show ?thesis
      using Some bid_guard_refuses [OF Some] guard_takes [of k "ba_userId b" "ba_amountStr b" "redis_now t"]
      by auto
  next
    case None
    let ?a = "num0 (ba_amountStr b)"
    let ?c = "commit_bid b ?a (redis_now t) (hash_of k) (nxt b ?a (redis_now t) (hash_of k))
        (ack b ?a (redis_now t) (hash_of k)) (bid b ?a (redis_now t) (hash_of k)) k"
    have "run b t k = ?c"
      using None keys new room_invD(4) [OF inv] by (simp add: run bid_prologue_def Let_def)
    moreover have "abs_auction (snd ?c) = after_bid (abs_auction k) (ba_userId b) ?a (redis_now t)"
      using None room_invD(4,3) [OF inv] nx by (rule commit_abs)
    ultimately show ?thesis
      using None guard_takes [of k "ba_userId b" "ba_amountStr b" "redis_now t"] commit_bid_accepting
      by auto
  qed
qed

lemma place_bid_adjudicates: "adjudicates place_bid"
  by (rule prologue_adjudicates [OF place_bid_def]) simp

lemma place_bid_hybrid_adjudicates: "adjudicates place_bid_hybrid"
  by (rule prologue_adjudicates [OF place_bid_hybrid_def]) simp

section \<open>Price, leader, leaderboard and sale\<close>

definition ladder :: "akeys \<Rightarrow> bool" where
  "ladder k \<longleftrightarrow> (let h = hash_of k; lb = board_of k in
     (h_status h \<in> {Some SCHEDULED, Some LIVE} \<longrightarrow>
        0 < num0 (h_incrementCents h) \<and> (0 < cap_of h \<longrightarrow> price_num h < cap_of h))
     \<and> (not_started h \<longrightarrow> h_winnerId h = [])
     \<and> (h_winnerId h = [] \<longrightarrow> lb = [])
     \<and> (h_winnerId h \<noteq> [] \<longrightarrow> zscore lb (h_winnerId h) = Some (price_num h)
          \<and> (\<forall>m s. zscore lb m = Some s \<longrightarrow> m \<noteq> h_winnerId h \<longrightarrow> s < price_num h))
     \<and> (h_status h = Some SOLD \<longrightarrow> h_winnerId h \<noteq> [] \<and>
          (\<exists>now. last_opt (events_of k) =
             Some (seq_entry (h_seq h) AUCTION_SOLD (sold_json (h_seq h) (h_winnerId h) (price_str h) now)))))"

fun ascending_cmd :: "cmd \<Rightarrow> bool" where
  "ascending_cmd (CFreeze a) \<longleftrightarrow> Validate (fr_rules a) = None"
| "ascending_cmd (CBid b) \<longleftrightarrow> ba_userId b \<noteq> []"
| "ascending_cmd (CHybrid b) \<longleftrightarrow> ba_userId b \<noteq> []"
| "ascending_cmd (CSealed b) \<longleftrightarrow> False"
| "ascending_cmd (CCloseSealed m) \<longleftrightarrow> False"
| "ascending_cmd CCloseAllPay \<longleftrightarrow> False"
| "ascending_cmd _ \<longleftrightarrow> True"

inductive asc_reachable :: "akeys \<Rightarrow> bool" where
  asc_init: "asc_reachable empty_keys"
| asc_exec: "asc_reachable k \<Longrightarrow> ascending_cmd c \<Longrightarrow> 0 \<le> redis_now t \<Longrightarrow>
    asc_reachable (snd (exec c t k))"

lemma asc_inv: "asc_reachable k \<Longrightarrow> room_inv k"
  by (induction rule: asc_reachable.induct) (auto simp: room_inv_empty intro: engine.keeps_inv)

lemma ladder_empty: "ladder empty_keys"
  by (simp add: ladder_def empty_keys_def empty_hash_def Let_def)

lemma ladder_room: "same_room k k' \<Longrightarrow> ladder k \<Longrightarrow> ladder k'"
  by (simp add: same_room_def ladder_def)

text \<open>An accepted bid is strictly above the price it replaces.\<close>

lemma accepted_above:
  assumes "ladder k" "bid_guard (hash_of k) u (tonumber s) now = None"
  shows "price_num (hash_of k) < num0 s"
proof -
  note g = bid_guard_NoneD [OF assms(2)]
  have "price_num (hash_of k) + num0 (h_incrementCents (hash_of k)) \<le> num0 s
      \<or> (cap_of (hash_of k) > 0 \<and> cap_of (hash_of k) \<le> num0 s)"
    using required_le [of "num0 s" "hash_of k"] g(6,7,8) by simp
  then show ?thesis using assms(1) g(2) by (auto simp: ladder_def Let_def)
qed

lemma commit_ladder:
  assumes lad: "ladder k" and inv: "room_inv k" and u: "ba_userId b \<noteq> []"
    and guard: "bid_guard (hash_of k) (ba_userId b) (tonumber (ba_amountStr b)) now = None"
    and h': "h' = bid_hash b (num0 (ba_amountStr b)) now (hash_of k)
      \<or> h' = hybrid_hash b (num0 (ba_amountStr b)) now (hash_of k)"
  shows "ladder (snd (commit_bid b (num0 (ba_amountStr b)) now (hash_of k) h' ack bid k))"
proof -
  let ?h = "hash_of k" and ?a = "num0 (ba_amountStr b)" and ?u = "ba_userId b"
  let ?k' = "snd (commit_bid b ?a now ?h h' ack bid k)"
  have s1: "h_seq h' = h_seq ?h + 1" using h' by auto
  note eq = commit_bid_eq [OF room_invD(4) [OF inv] room_invD(3) [OF inv] s1]
  note g = bid_guard_NoneD [OF guard]
  have above: "price_num ?h < ?a" using lad guard by (rule accepted_above)
  have low: "s < ?a" if "zscore (board_of k) m = Some s" for m s
    using lad above that by (cases "m = h_winnerId ?h"; cases "h_winnerId ?h = []")
      (force simp: ladder_def Let_def zscore_def)+
  have best: "zscore (board_of ?k') = (zscore (board_of k))(?u \<mapsto> ?a)"
    using low by (auto simp: eq zscore_fun fun_eq_iff split: option.splits)
  have hash: "h_winnerId (hash_of ?k') = ?u" "price_num (hash_of ?k') = ?a"
    "price_str (hash_of ?k') = ba_amountStr b"
    "h_incrementCents (hash_of ?k') = h_incrementCents ?h" "cap_of (hash_of ?k') = cap_of ?h"
    "h_status (hash_of ?k') = (if cap_hit ?h ?a then Some SOLD else Some LIVE)"
    "h_seq (hash_of ?k') = h_seq ?h + int (length (bid_events b ?a now ?h bid))"
    using h' g(2) by (auto simp: eq price_num_def price_str_def cap_of_def)
  have inc: "0 < num0 (h_incrementCents ?h)"
    using lad g(2) by (simp add: ladder_def Let_def)
  have cap: "\<not> cap_hit ?h ?a \<Longrightarrow> 0 < cap_of ?h \<Longrightarrow> ?a < cap_of ?h"
    by (simp add: cap_hit_def)
  have sold: "last_opt (events_of ?k') = Some (seq_entry (h_seq (hash_of ?k')) AUCTION_SOLD
      (sold_json (h_seq (hash_of ?k')) ?u (ba_amountStr b) now))" if "cap_hit ?h ?a"
    unfolding hash(7) using that anti_snipe_no_cap [of ?h ?a now]
    by (auto simp: eq bid_events_def second_event_def)
  show ?thesis
    unfolding ladder_def Let_def best hash
    using u inc cap low sold by (auto simp: not_started_def hash split: if_splits)
qed

lemma end_ladder:
  assumes lad: "ladder k" and inv: "room_inv k" and st: "IsTerminal st"
    and sold: "st = SOLD \<Longrightarrow> h_winnerId (hash_of k) \<noteq> [] \<and> ty = AUCTION_SOLD
      \<and> (\<exists>now. p = sold_json (h_seq (hash_of k) + 1) (h_winnerId (hash_of k)) (price_str (hash_of k)) now)"
  shows "ladder (snd (end_auction c st ty p (hash_of k) k))"
  using lad st sold
  by (auto simp: end_auction_eq [OF room_invD(4) [OF inv] room_invD(3) [OF inv]] ladder_def Let_def
      not_started_def price_num_def price_str_def cap_of_def)

lemma exec_ladder:
  assumes lad: "ladder k" and inv: "room_inv k" and c: "ascending_cmd c"
  shows "ladder (snd (exec c t k))"
proof (cases c)
  case (CFreeze a)
  then have v: "Validate (fr_rules a) = None" using c by simp
  show ?thesis
  proof (cases rule: freeze_rules_cases [of a t k])
    case frozen
    then have "h_winnerId (hash_of k) = []" "board_of k = []"
      using lad by (auto simp: ladder_def Let_def not_started_def)
    then show ?thesis
      using frozen v CFreeze Validate_NoneD(3,5) [OF v]
      by (auto simp: Validate_exact [OF v] ladder_def Let_def set_hash_def frozen_hash_def price_num_def cap_of_def not_started_def)
  qed (use lad CFreeze in simp)
next
  case (CStart d)
  then show ?thesis
    using lad by (cases rule: start_auction_cases [of d t k])
      (auto simp: ladder_def Let_def set_hash_def price_num_def cap_of_def not_started_def)
next
  case (CBid b)
  then have "ba_userId b \<noteq> []" using c by simp
  with CBid lad inv show ?thesis
    by (cases rule: place_bid_cases [of b t k])
       (auto intro: commit_ladder ladder_room [OF same_room_ensure_ttl])
next
  case (CHybrid b)
  then have "ba_userId b \<noteq> []" using c by simp
  with CHybrid lad inv show ?thesis
    by (cases rule: place_bid_hybrid_cases [of b t k])
       (auto intro: commit_ladder ladder_room [OF same_room_ensure_ttl])
next
  case CClose
  with lad inv show ?thesis
    by (cases rule: close_auction_cases [of "()" t k]) (auto intro!: end_ladder)
next
  case (CCancel u)
  with lad inv show ?thesis
    by (cases rule: cancel_auction_cases [of u t k]) (auto intro!: end_ladder)
qed (use c in simp_all)

lemma asc_ladder: "asc_reachable k \<Longrightarrow> ladder k"
  by (induction rule: asc_reachable.induct) (auto simp: ladder_empty intro: exec_ladder asc_inv)

section \<open>Extensions\<close>

text \<open>Bids move the deadline by whole extensions, and never beyond the limit.\<close>

definition ext_ok :: "room_hash \<Rightarrow> room_hash \<Rightarrow> bool" where
  "ext_ok h h' \<longleftrightarrow> h_extendSec h' = h_extendSec h \<and> h_maxExtensions h' = h_maxExtensions h
     \<and> h_extendCount h \<le> h_extendCount h'
     \<and> h_endAtMs h' = h_endAtMs h + (h_extendCount h' - h_extendCount h) * h_extendSec h * 1000
     \<and> (0 < h_maxExtensions h \<and> h_extendCount h \<le> h_maxExtensions h \<longrightarrow> h_extendCount h' \<le> h_maxExtensions h)"

lemma ext_ok_refl [simp]: "ext_ok h h"
  by (simp add: ext_ok_def)

lemma ext_ok_trans: "ext_ok a b \<Longrightarrow> ext_ok b c \<Longrightarrow> ext_ok a c"
  by (auto simp: ext_ok_def algebra_simps)

lemma commit_ext_ok:
  assumes q: "lastStreamSeq (events_of k) = h_seq (hash_of k)" "0 \<le> h_seq (hash_of k)"
  shows "ext_ok (hash_of k) (hash_of (snd (commit_bid b a now (hash_of k) (bid_hash b a now (hash_of k)) ack bid k)))"
  unfolding commit_bid_eq [OF q bid_hash_sel(1)]
  by (auto simp: ext_ok_def newEndAtMs_def anti_snipe_def)

lemma place_bid_ext_ok: "room_inv k \<Longrightarrow> ext_ok (hash_of k) (hash_of (snd (place_bid b t k)))"
  using room_invD(3) [of k]
  by (cases rule: place_bid_cases [of b t k]) (auto simp: frame_simps commit_ext_ok)

lemma runs_ext_ok: "room_inv k \<Longrightarrow> ext_ok (hash_of k) (hash_of (ascending.runs cs k))"
  by (induction cs k rule: ascending.runs.induct)
     (auto intro: ext_ok_trans place_bid_ext_ok ascending.keeps_inv)

text \<open>With the window or the extension off, no bid moves the deadline.\<close>

lemma commit_no_extension:
  fixes b :: bid_args and a now :: int and ack bid :: json and k :: akeys
  assumes q: "lastStreamSeq (events_of k) = h_seq (hash_of k)" "0 \<le> h_seq (hash_of k)"
    and off: "h_extendWindowSec (hash_of k) \<le> 0 \<or> h_extendSec (hash_of k) \<le> 0"
  defines "h' \<equiv> hash_of (snd (commit_bid b a now (hash_of k) (bid_hash b a now (hash_of k)) ack bid k))"
  shows "h_endAtMs h' = h_endAtMs (hash_of k)" "h_extendWindowSec h' = h_extendWindowSec (hash_of k)"
    "h_extendSec h' = h_extendSec (hash_of k)"
  using off unfolding h'_def commit_bid_eq [OF q bid_hash_sel(1)]
  by (auto simp: newEndAtMs_def anti_snipe_def)

lemma place_bid_no_extension:
  fixes b :: bid_args and t :: "int \<times> int" and k :: akeys
  assumes "room_inv k" and "h_extendWindowSec (hash_of k) \<le> 0 \<or> h_extendSec (hash_of k) \<le> 0"
  defines "h' \<equiv> hash_of (snd (place_bid b t k))"
  shows "h_endAtMs h' = h_endAtMs (hash_of k) \<and> h_extendWindowSec h' = h_extendWindowSec (hash_of k)
    \<and> h_extendSec h' = h_extendSec (hash_of k)"
  using commit_no_extension [OF room_invD(4,3) [OF assms(1)] assms(2)] unfolding h'_def
  by (cases rule: place_bid_cases [of b t k]) (auto simp: frame_simps)

lemma runs_no_extension:
  "h_extendWindowSec (hash_of k) \<le> 0 \<or> h_extendSec (hash_of k) \<le> 0 \<Longrightarrow> room_inv k \<Longrightarrow>
   h_endAtMs (hash_of (ascending.runs cs k)) = h_endAtMs (hash_of k)"
proof (induction cs k rule: ascending.runs.induct)
  case (2 a t cs k)
  note p = place_bid_no_extension [OF 2(3,2), of a t]
  have "h_endAtMs (hash_of (ascending.runs cs (snd (place_bid a t k)))) = h_endAtMs (hash_of (snd (place_bid a t k)))"
    using 2(2) p by (intro 2(1) ascending.keeps_inv [OF 2(3)]) auto
  then show ?case using p by simp
qed simp

end
