(* ===== verification/SeqGuard.thy ===== *)
theory SeqGuard
  imports Room
begin

text \<open>
  \<^verbatim>\<open>internal/seqguard/seqguard.go\<close>: the client's ordering guard. A guard is the last applied
  sequence number; applying returns whether the frame is used and the new guard.
\<close>

type_synonym guard = int

definition guard_New :: "int \<Rightarrow> guard" where
  "guard_New lastSeq = (if lastSeq < 0 then 0 else lastSeq)"

definition guard_Apply :: "int \<Rightarrow> guard \<Rightarrow> bool \<times> guard" where
  "guard_Apply s g = (if s \<le> 0 then (True, g) else if s \<le> g then (False, g) else (True, s))"

definition guard_Gap :: "int \<Rightarrow> guard \<Rightarrow> int" where
  "guard_Gap s g = (if s \<le> g then 0 else wrap64 (wrap64 (s - g) - 1))"

definition guard_Last :: "guard \<Rightarrow> int" where
  "guard_Last g = g"

text \<open>The frames a client applies of a sequence of numbers, and the guard after them.\<close>

fun applied :: "int list \<Rightarrow> guard \<Rightarrow> int list \<times> guard" where
  "applied [] g = ([], g)"
| "applied (s # ss) g =
     (let (ok, g1) = guard_Apply s g; (xs, g2) = applied ss g1
      in (if ok then s # xs else xs, g2))"

section \<open>Lemmas\<close>

lemma guard_Apply_mono: "g \<le> snd (guard_Apply s g)"
  by (simp add: guard_Apply_def)

lemma guard_Gap_exact:
  assumes "0 \<le> g" "g < 2 ^ 63" "int64 s"
  shows "guard_Gap s g = max 0 (s - g - 1)" "0 \<le> guard_Gap s g"
proof -
  show "guard_Gap s g = max 0 (s - g - 1)"
  proof (cases "s \<le> g")
    case False
    then have "int64 (s - g)" "int64 (s - g - 1)" using assms by (auto simp: int64_def)
    with False show ?thesis by (simp add: guard_Gap_def)
  qed (simp add: guard_Gap_def)
  then show "0 \<le> guard_Gap s g" by simp
qed

text \<open>The numbered frames a client applies are strictly increasing and above the guard,
  whatever was delivered: no frame twice, none out of order.\<close>

lemma applied_sorted:
  "sorted_wrt (<) (filter (\<lambda>s. 0 < s) (fst (applied ss g))) \<and>
   (\<forall>s\<in>set (filter (\<lambda>s. 0 < s) (fst (applied ss g))). g < s) \<and> g \<le> snd (applied ss g)"
proof (induction ss arbitrary: g)
  case (Cons s ss)
  show ?case
    using Cons.IH [of "snd (guard_Apply s g)"]
    by (auto simp: guard_Apply_def split_def Let_def split: if_splits)
qed simp

text \<open>Every control frame is applied.\<close>

lemma applied_control: "filter (\<lambda>s. s \<le> 0) (fst (applied ss g)) = filter (\<lambda>s. s \<le> 0) ss"
proof (induction ss arbitrary: g)
  case (Cons s ss)
  show ?case using Cons.IH [of "snd (guard_Apply s g)"] by (auto simp: guard_Apply_def split_def Let_def split: if_splits)
qed simp

text \<open>A contiguous log, with duplicates of what was already seen mixed in anywhere, is applied
  exactly once, in order.\<close>

inductive delivery :: "int \<Rightarrow> int list \<Rightarrow> int \<Rightarrow> bool" where
  d_done: "delivery g [] g"
| d_next: "delivery (g + 1) ss n \<Longrightarrow> delivery g ((g + 1) # ss) n"
| d_again: "s \<le> g \<Longrightarrow> 0 < s \<Longrightarrow> delivery g ss n \<Longrightarrow> delivery g (s # ss) n"

lemma delivery_le: "delivery g ss n \<Longrightarrow> g \<le> n"
  by (induction rule: delivery.induct) auto

lemma upto_rec: "g < (n :: int) \<Longrightarrow> [g + 1..n] = (g + 1) # [2 + g..n]"
  by (simp add: upto.simps [of "g + 1" n])

lemma delivery_applied:
  "delivery g ss n \<Longrightarrow> 0 \<le> g \<Longrightarrow> applied ss g = ([g + 1..n], n)"
proof (induction rule: delivery.induct)
  case (d_next g ss n)
  then have "g + 1 \<le> n" by (auto dest: delivery_le)
  with d_next show ?case by (simp add: guard_Apply_def upto_rec)
qed (auto simp: guard_Apply_def)

end
