(* ===== verification/Singleflight.thy ===== *)
theory Singleflight
  imports Prelude
begin

text \<open>
  \<^verbatim>\<open>internal/store/store_singleflight.go\<close>: concurrent reads of one key share one execution.
  A caller that arrives while a read is in flight waits for it; otherwise it becomes the
  leader and runs the read. The steps are the two critical sections of \<^verbatim>\<open>Do\<close>; the read
  itself happens between them. Ghost state: the key of every caller and how often an
  execution read.
\<close>

record 'v flight =
  calls :: "string \<rightharpoonup> nat"
  waiting :: "nat \<rightharpoonup> nat"
  value_of :: "nat \<rightharpoonup> 'v"
  answered :: "nat \<rightharpoonup> 'v"
  key_of :: "nat \<rightharpoonup> string"
  reads :: "nat \<Rightarrow> nat"

text \<open>Callers are numbers; an execution has the number of its leader. \<open>Do_enter\<close> is the
  first critical section, \<open>Do_read\<close> the call of \<open>fn\<close>, \<open>Do_leave\<close> the second section
  with \<^verbatim>\<open>wg.Done\<close>, \<open>Do_wake\<close> a caller returning the shared result.\<close>

definition Do_enter :: "nat \<Rightarrow> string \<Rightarrow> 'v flight \<Rightarrow> 'v flight" where
  "Do_enter i key f =
     (let f' = f\<lparr>key_of := (key_of f)(i \<mapsto> key)\<rparr>
      in case calls f key of
           Some leader \<Rightarrow> f'\<lparr>waiting := (waiting f)(i \<mapsto> leader)\<rparr>
         | None \<Rightarrow> f'\<lparr>calls := (calls f)(key \<mapsto> i), waiting := (waiting f)(i \<mapsto> i)\<rparr>)"

definition Do_read :: "nat \<Rightarrow> 'v \<Rightarrow> 'v flight \<Rightarrow> 'v flight" where
  "Do_read leader v f =
     f\<lparr>value_of := (value_of f)(leader \<mapsto> v), reads := (reads f)(leader := reads f leader + 1)\<rparr>"

definition Do_leave :: "string \<Rightarrow> 'v flight \<Rightarrow> 'v flight" where
  "Do_leave key f = f\<lparr>calls := (calls f)(key := None)\<rparr>"

definition Do_wake :: "nat \<Rightarrow> 'v \<Rightarrow> 'v flight \<Rightarrow> 'v flight" where
  "Do_wake i v f = f\<lparr>answered := (answered f)(i \<mapsto> v)\<rparr>"

definition flight_init :: "'v flight" where
  "flight_init = \<lparr>calls = Map.empty, waiting = Map.empty, value_of = Map.empty,
     answered = Map.empty, key_of = Map.empty, reads = (\<lambda>_. 0)\<rparr>"

inductive flight_step :: "'v flight \<Rightarrow> 'v flight \<Rightarrow> bool" where
  f_enter: "waiting f i = None \<Longrightarrow> flight_step f (Do_enter i key f)"
| f_read: "calls f key = Some l \<Longrightarrow> value_of f l = None \<Longrightarrow> flight_step f (Do_read l v f)"
| f_leave: "calls f key = Some l \<Longrightarrow> value_of f l \<noteq> None \<Longrightarrow> flight_step f (Do_leave key f)"
| f_wake: "waiting f i = Some l \<Longrightarrow> \<forall>k. calls f k \<noteq> Some l \<Longrightarrow> value_of f l = Some v \<Longrightarrow>
         flight_step f (Do_wake i v f)"

inductive flight_reachable :: "'v flight \<Rightarrow> bool" where
  flight_start: "flight_reachable flight_init"
| flight_next: "flight_reachable f \<Longrightarrow> flight_step f f' \<Longrightarrow> flight_reachable f'"

section \<open>The invariant\<close>

definition flight_inv :: "'v flight \<Rightarrow> bool" where
  "flight_inv f \<longleftrightarrow>
     (\<forall>key l. calls f key = Some l \<longrightarrow> key_of f l = Some key \<and> waiting f l = Some l)
     \<and> (\<forall>i l. waiting f i = Some l \<longrightarrow> key_of f i \<noteq> None \<and> key_of f i = key_of f l \<and> waiting f l = Some l)
     \<and> (\<forall>i. waiting f i = None \<longrightarrow> value_of f i = None \<and> answered f i = None)
     \<and> (\<forall>l. reads f l = (if value_of f l = None then 0 else 1))
     \<and> (\<forall>i v. answered f i = Some v \<longrightarrow> (\<exists>l. waiting f i = Some l \<and> value_of f l = Some v))
     \<and> (\<forall>i l. waiting f i = Some l \<longrightarrow> value_of f l = None \<longrightarrow> (\<exists>key. calls f key = Some l))"

lemma flight_inv_init: "flight_inv flight_init"
  by (simp add: flight_inv_def flight_init_def)

lemma flight_invI:
  assumes "\<And>key l. calls f key = Some l \<Longrightarrow> key_of f l = Some key \<and> waiting f l = Some l"
    and "\<And>i l. waiting f i = Some l \<Longrightarrow> key_of f i \<noteq> None \<and> key_of f i = key_of f l \<and> waiting f l = Some l"
    and "\<And>i. waiting f i = None \<Longrightarrow> value_of f i = None \<and> answered f i = None"
    and "\<And>l. reads f l = (if value_of f l = None then 0 else 1)"
    and "\<And>i v. answered f i = Some v \<Longrightarrow> \<exists>l. waiting f i = Some l \<and> value_of f l = Some v"
    and "\<And>i l. waiting f i = Some l \<Longrightarrow> value_of f l = None \<Longrightarrow> \<exists>key. calls f key = Some l"
  shows "flight_inv f"
  using assms unfolding flight_inv_def by blast

lemma flight_invD:
  assumes "flight_inv f"
  shows "calls f key = Some l \<Longrightarrow> key_of f l = Some key \<and> waiting f l = Some l"
    and "waiting f i = Some l \<Longrightarrow> key_of f i \<noteq> None \<and> key_of f i = key_of f l \<and> waiting f l = Some l"
    and "waiting f i = None \<Longrightarrow> value_of f i = None \<and> answered f i = None"
    and "reads f l = (if value_of f l = None then 0 else 1)"
    and "answered f i = Some v \<Longrightarrow> \<exists>l. waiting f i = Some l \<and> value_of f l = Some v"
    and "waiting f i = Some l \<Longrightarrow> value_of f l = None \<Longrightarrow> \<exists>key. calls f key = Some l"
  using assms unfolding flight_inv_def by blast+

lemma Do_enter_inv:
  assumes inv: "flight_inv f" and new: "waiting f i = None"
  shows "flight_inv (Do_enter i key f)"
proof -
  note d = flight_invD [OF inv]
  have c: "calls f k \<noteq> Some i" for k using d(1) [of k i] new by auto
  have w: "waiting f j \<noteq> Some i" for j using d(2) [of j i] new by auto
  show ?thesis
  proof (cases "calls f key")
    case None
    then have e: "Do_enter i key f = f\<lparr>key_of := (key_of f)(i \<mapsto> key), calls := (calls f)(key \<mapsto> i),
        waiting := (waiting f)(i \<mapsto> i)\<rparr>" by (simp add: Do_enter_def)
    show ?thesis unfolding e
    proof (rule flight_invI, goal_cases)
      case (1 k l) then show ?case using d(1) [of k l] c [of k] by (auto split: if_splits)
    next
      case (2 j l) then show ?case using d(2) [of j l] w [of j] by (auto split: if_splits)
    next
      case (3 j) then show ?case using d(3) [of j] by (auto split: if_splits)
    next
      case (4 l) then show ?case using d(4) [of l] by simp
    next
      case (5 j v) then show ?case using d(5) [of j v] d(3) [OF new] by (auto split: if_splits)
    next
      case (6 j l)
      show ?case
      proof (cases "j = i")
        case True with 6 show ?thesis by auto
      next
        case False
        with 6 obtain k where k: "calls f k = Some l" using d(6) [of j l] by auto
        with None have "k \<noteq> key" by auto
        with k show ?thesis by (intro exI [of _ k]) simp
      qed
    qed
  next
    case (Some m)
    then have e: "Do_enter i key f = f\<lparr>key_of := (key_of f)(i \<mapsto> key), waiting := (waiting f)(i \<mapsto> m)\<rparr>"
      by (simp add: Do_enter_def)
    have m: "key_of f m = Some key" "waiting f m = Some m" "m \<noteq> i" using d(1) [OF Some] new by auto
    show ?thesis unfolding e
    proof (rule flight_invI, goal_cases)
      case (1 k l) then show ?case using d(1) [of k l] c [of k] by (auto split: if_splits)
    next
      case (2 j l) then show ?case using d(2) [of j l] w [of j] m by (auto split: if_splits)
    next
      case (3 j) then show ?case using d(3) [of j] by (auto split: if_splits)
    next
      case (4 l) then show ?case using d(4) [of l] by simp
    next
      case (5 j v) then show ?case using d(5) [of j v] d(3) [OF new] by (auto split: if_splits)
    next
      case (6 j l) then show ?case using d(6) [of j l] Some by (auto split: if_splits)
    qed
  qed
qed

lemma Do_leave_inv:
  assumes inv: "flight_inv f" and l: "calls f key = Some l" "value_of f l \<noteq> None"
  shows "flight_inv (Do_leave key f)"
proof -
  note d = flight_invD [OF inv]
  show ?thesis unfolding Do_leave_def
  proof (rule flight_invI, goal_cases)
    case (1 k m) then show ?case using d(1) [of k m] by (auto split: if_splits)
  next
    case (2 i m) then show ?case using d(2) [of i m] by auto
  next
    case (3 i) then show ?case using d(3) [of i] by simp
  next
    case (4 m) then show ?case using d(4) [of m] by simp
  next
    case (5 i v) then show ?case using d(5) [of i v] by simp
  next
    case (6 i m)
    then obtain k where k: "calls f k = Some m" using d(6) [of i m] by auto
    with 6 l have "k \<noteq> key" by auto
    with k show ?case by (intro exI [of _ k]) simp
  qed
qed

lemma Do_read_inv:
  assumes inv: "flight_inv f" and l: "calls f key = Some l" "value_of f l = None"
  shows "flight_inv (Do_read l v f)"
proof -
  note d = flight_invD [OF inv]
  have w: "waiting f l = Some l" using d(1) [OF l(1)] by simp
  show ?thesis unfolding Do_read_def
  proof (rule flight_invI, goal_cases)
    case (1 k m) then show ?case using d(1) [of k m] by simp
  next
    case (2 i m) then show ?case using d(2) [of i m] by auto
  next
    case (3 i) then show ?case using d(3) [of i] w by auto
  next
    case (4 m) then show ?case using d(4) [of m] l(2) by (cases "m = l") simp_all
  next
    case (5 i u) then show ?case using d(5) [of i u] l(2) by auto
  next
    case (6 i m) then show ?case using d(6) [of i m] by (auto split: if_splits)
  qed
qed

lemma Do_wake_inv:
  assumes inv: "flight_inv f" and w: "waiting f i = Some l" "value_of f l = Some v"
  shows "flight_inv (Do_wake i v f)"
proof -
  note d = flight_invD [OF inv]
  show ?thesis unfolding Do_wake_def
  proof (rule flight_invI, goal_cases)
    case (1 k m) then show ?case using d(1) [of k m] by simp
  next
    case (2 j m) then show ?case using d(2) [of j m] by auto
  next
    case (3 j) then show ?case using d(3) [of j] w by auto
  next
    case (4 m) then show ?case using d(4) [of m] by simp
  next
    case (5 j u) then show ?case using d(5) [of j u] w by (auto split: if_splits)
  next
    case (6 j m) then show ?case using d(6) [of j m] by simp
  qed
qed

lemma flight_step_inv: "flight_step f f' \<Longrightarrow> flight_inv f \<Longrightarrow> flight_inv f'"
  by (induction rule: flight_step.induct)
     (simp_all add: Do_enter_inv Do_read_inv Do_leave_inv Do_wake_inv)

lemma flight_reachable_inv: "flight_reachable f \<Longrightarrow> flight_inv f"
  by (induction rule: flight_reachable.induct) (auto simp: flight_inv_init intro: flight_step_inv)

text \<open>A waiting caller is never stuck: its leader can read and leave, and it then wakes with
  the value. The three steps are the ones of its own execution.\<close>

lemma wake_completes:
  assumes "flight_inv f" "waiting f i = Some l" "value_of f l = Some v" "\<forall>k. calls f k \<noteq> Some l"
  shows "\<exists>g. flight_step\<^sup>*\<^sup>* f g \<and> answered g i = Some v"
  using r_into_rtranclp [of flight_step, OF f_wake [OF assms(2,4,3)]] by (auto simp: Do_wake_def)

lemma leave_completes:
  assumes inv: "flight_inv f" and w: "waiting f i = Some l" and v: "value_of f l = Some v"
  shows "\<exists>g. flight_step\<^sup>*\<^sup>* f g \<and> answered g i = Some v"
proof (cases "\<exists>key. calls f key = Some l")
  case True
  then obtain key where c: "calls f key = Some l" ..
  have st: "flight_step f (Do_leave key f)" using f_leave [OF c] v by simp
  have "\<forall>k. calls (Do_leave key f) k \<noteq> Some l"
    using flight_invD(1) [OF inv] flight_invD(1) [OF inv c] by (auto simp: Do_leave_def)
  with wake_completes [OF flight_step_inv [OF st inv], of i l v] w v
  obtain g where "flight_step\<^sup>*\<^sup>* (Do_leave key f) g" "answered g i = Some v" by (auto simp: Do_leave_def)
  with st show ?thesis by (meson converse_rtranclp_into_rtranclp)
next
  case False
  with wake_completes [OF inv w v] show ?thesis by blast
qed

lemma flight_completes:
  fixes f :: "'v flight"
  assumes inv: "flight_inv f" and w: "waiting f i = Some l"
  shows "\<exists>g v. flight_step\<^sup>*\<^sup>* f g \<and> answered g i = Some v"
proof (cases "value_of f l")
  case None
  with flight_invD(6) [OF inv w] obtain key where c: "calls f key = Some l" by blast
  define f1 where "f1 = Do_read l undefined f"
  have st: "flight_step f f1" unfolding f1_def by (rule f_read [OF c None])
  have "waiting f1 i = Some l" "value_of f1 l = Some undefined" using w by (simp_all add: f1_def Do_read_def)
  with leave_completes [OF flight_step_inv [OF st inv]]
  obtain g v where "flight_step\<^sup>*\<^sup>* f1 g" "answered g i = Some v" by blast
  with st show ?thesis by (meson converse_rtranclp_into_rtranclp)
next
  case (Some v)
  with leave_completes [OF inv w] show ?thesis by blast
qed

end
