(* ===== verification/GoStrings.thy ===== *)
theory GoStrings
  imports Decimal
begin

text \<open>The functions of Go's \<^verbatim>\<open>strings\<close> package the program uses, on byte strings.\<close>

definition HasPrefix :: "string \<Rightarrow> string \<Rightarrow> bool" where
  "HasPrefix s p \<longleftrightarrow> take (length p) s = p"

definition HasSuffix :: "string \<Rightarrow> string \<Rightarrow> bool" where
  "HasSuffix s p \<longleftrightarrow> length p \<le> length s \<and> drop (length s - length p) s = p"

definition TrimPrefix :: "string \<Rightarrow> string \<Rightarrow> string" where
  "TrimPrefix s p = (if HasPrefix s p then drop (length p) s else s)"

text \<open>\<^verbatim>\<open>s[:i]\<close> for the first \<open>i\<close> with \<open>s[i] = c\<close>, the whole string when there is none.\<close>

definition before :: "char \<Rightarrow> string \<Rightarrow> string" where
  "before c s = takeWhile (\<lambda>x. x \<noteq> c) s"

definition Contains :: "string \<Rightarrow> char \<Rightarrow> bool" where
  "Contains s c \<longleftrightarrow> c \<in> set s"

text \<open>The ASCII white space of \<^verbatim>\<open>TrimSpace\<close>.\<close>

definition is_space :: "char \<Rightarrow> bool" where
  "is_space c \<longleftrightarrow> c \<in> {CHR 0x09, CHR 0x0A, CHR 0x0B, CHR 0x0C, CHR 0x0D, CHR 0x20}"

definition TrimSpace :: "string \<Rightarrow> string" where
  "TrimSpace s = rev (dropWhile is_space (rev (dropWhile is_space s)))"

text \<open>\<^verbatim>\<open>strings.Contains\<close>, and \<^verbatim>\<open>ToUpper\<close> and \<^verbatim>\<open>ToLower\<close> on ASCII text.\<close>

fun ContainsStr :: "string \<Rightarrow> string \<Rightarrow> bool" where
  "ContainsStr [] sub = (sub = [])"
| "ContainsStr (c # s) sub = (HasPrefix (c # s) sub \<or> ContainsStr s sub)"

definition upper_char :: "char \<Rightarrow> char" where
  "upper_char c = (let n = of_char c :: nat in if 97 \<le> n \<and> n \<le> 122 then char_of (n - 32) else c)"

definition ToUpper :: "string \<Rightarrow> string" where
  "ToUpper = map upper_char"

definition lower_char :: "char \<Rightarrow> char" where
  "lower_char c = (let n = of_char c :: nat in if 65 \<le> n \<and> n \<le> 90 then char_of (n + 32) else c)"

definition ToLower :: "string \<Rightarrow> string" where
  "ToLower = map lower_char"

lemma HasPrefix_append [simp]: "HasPrefix (p @ s) p"
  by (simp add: HasPrefix_def)

lemma HasSuffix_append [simp]: "HasSuffix (s @ p) p"
  by (simp add: HasSuffix_def)

lemma HasPrefixE: "HasPrefix s p \<Longrightarrow> s = p @ drop (length p) s"
  unfolding HasPrefix_def by (metis append_take_drop_id)

lemma TrimPrefix_append [simp]: "TrimPrefix (p @ s) p = s"
  by (simp add: TrimPrefix_def)

lemma before_append: "c \<notin> set s \<Longrightarrow> before c (s @ c # t) = s"
  unfolding before_def by (subst takeWhile_append2) auto

lemma before_id: "c \<notin> set s \<Longrightarrow> before c s = s"
  unfolding before_def by (rule takeWhile_eq_all_conv [THEN iffD2]) auto

lemma dropWhile_hd: "s \<noteq> [] \<Longrightarrow> \<not> P (hd s) \<Longrightarrow> dropWhile P s = s"
  by (cases s) auto

lemma TrimSpace_idem [simp]: "TrimSpace (TrimSpace s) = TrimSpace s"
proof -
  let ?d = "dropWhile is_space"
  let ?r = "?d (rev (?d s))"
  have a: "?d (rev ?r) = rev ?r"
  proof (cases "?r = []")
    case False
    have "hd (rev ?r) = last ?r" using False by (simp add: hd_rev)
    also have "last ?r = last (rev (?d s))" using False by (metis dropWhile_append3 last_appendR takeWhile_dropWhile_id)
    also have "\<dots> = hd (?d s)" using False by (metis dropWhile.simps(1) last_rev rev.simps(1))
    finally have "hd (rev ?r) = hd (?d s)" .
    moreover have "?d s \<noteq> []" using False by (metis dropWhile.simps(1) rev.simps(1))
    ultimately have "\<not> is_space (hd (rev ?r))" using hd_dropWhile [of is_space s] by simp
    moreover have "rev ?r \<noteq> []" using False by (simp only: rev_is_Nil_conv not_False_eq_True)
    ultimately show ?thesis by (intro dropWhile_hd)
  next
    case True
    show ?thesis unfolding True by simp
  qed
  show ?thesis unfolding TrimSpace_def a by simp
qed

text \<open>Decimal text has no separators.\<close>

lemma show_nonneg_chars: "0 \<le> n \<Longrightarrow> \<not> is_digit c \<Longrightarrow> c \<notin> set (show_nonneg n)"
  using show_nonneg_digits by blast

lemma FormatInt_chars: "\<not> is_digit c \<Longrightarrow> c \<noteq> CHR ''-'' \<Longrightarrow> c \<notin> set (FormatInt n)"
  using show_nonneg_chars [of n c] show_nonneg_chars [of "- n" c] by (auto simp: FormatInt_def)

end
