(* ===== verification/Keys.thy ===== *)
theory Keys
  imports GoStrings
begin

text \<open>
  The key names of an auction and the functions that read an auction id back from a key.
  The braces are the cluster hash tag: all keys of one auction go to one slot.
\<close>

section \<open>Key names\<close>

definition tag :: "aid \<Rightarrow> string" where
  "tag aid = ''auction:{'' @ aid @ ''}''"

definition stateKey :: "aid \<Rightarrow> string" where "stateKey aid = tag aid @ '':state''"

definition lbKey :: "aid \<Rightarrow> string" where "lbKey aid = tag aid @ '':leaderboard''"

definition streamKey :: "aid \<Rightarrow> string" where "streamKey aid = tag aid @ '':events''"

definition dedupeKey :: "aid \<Rightarrow> uid \<Rightarrow> string" where "dedupeKey aid uid = tag aid @ '':dedupe:'' @ uid"

definition sealedKey :: "aid \<Rightarrow> string" where "sealedKey aid = tag aid @ '':sealed''"

definition sealedNamesKey :: "aid \<Rightarrow> string" where "sealedNamesKey aid = tag aid @ '':sealednames''"

definition PubChannel :: "aid \<Rightarrow> string" where "PubChannel aid = tag aid @ '':pub''"

section \<open>Reading an id back\<close>

text \<open>The empty string stands for a key of another shape, as in the code.\<close>

definition between :: "string \<Rightarrow> string \<Rightarrow> string \<Rightarrow> string" where
  "between p q s =
     (if \<not> HasPrefix s p \<or> \<not> HasSuffix s q \<or> length s \<le> length p + length q then []
      else take (length s - length q - length p) (drop (length p) s))"

definition AIDFromPubChannel :: "string \<Rightarrow> aid" where
  "AIDFromPubChannel ch = between ''auction:{'' ''}:pub'' ch"

definition aidFromStreamKey :: "string \<Rightarrow> aid" where
  "aidFromStreamKey k = between ''auction:{'' ''}:events'' k"

definition aidFromStateKey :: "string \<Rightarrow> aid" where
  "aidFromStateKey k = between ''auction:{'' ''}:state'' k"

definition aidFromAuctionTaggedKey :: "string \<Rightarrow> aid" where
  "aidFromAuctionTaggedKey k =
     (if \<not> HasPrefix k ''auction:{'' then []
      else (let rest = drop (length ''auction:{'') k
            in if \<not> Contains rest (CHR ''}'') then [] else before (CHR ''}'') rest))"

section \<open>Scanning the key space\<close>

text \<open>\<^verbatim>\<open>ScanStateAIDs\<close> and \<^verbatim>\<open>ScanEventStreamAIDs\<close>: the pages \<^verbatim>\<open>SCAN\<close> returns until its cursor is 0,
  \<^term>\<open>None\<close> for a page that failed; keys of another shape are skipped.\<close>

fun scan_aids :: "(string \<Rightarrow> aid) \<Rightarrow> string list option list \<Rightarrow> aid list option" where
  "scan_aids f [] = Some []"
| "scan_aids f (None # ps) = None"
| "scan_aids f (Some keys # ps) =
     map_option (\<lambda>aids. filter (\<lambda>a. a \<noteq> []) (map f keys) @ aids) (scan_aids f ps)"

definition ScanStateAIDs :: "string list option list \<Rightarrow> aid list option" where
  "ScanStateAIDs pages = scan_aids aidFromStateKey pages"

definition ScanEventStreamAIDs :: "string list option list \<Rightarrow> aid list option" where
  "ScanEventStreamAIDs pages = scan_aids aidFromStreamKey pages"

lemma scan_aids_all: "scan_aids f (map Some kss) = Some (filter (\<lambda>a. a \<noteq> []) (map f (concat kss)))"
  by (induction kss) auto

lemma scan_aids_failed: "None \<in> set pages \<Longrightarrow> scan_aids f pages = None"
  by (induction f pages rule: scan_aids.induct) auto

section \<open>Round trips\<close>

lemma between_append: "a \<noteq> [] \<Longrightarrow> between p q (p @ a @ q) = a"
proof -
  assume "a \<noteq> []"
  moreover have "HasSuffix (p @ a @ q) q" using HasSuffix_append [of "p @ a" q] by simp
  ultimately show ?thesis by (simp add: between_def)
qed

lemma between_shape: "between p q s \<noteq> [] \<Longrightarrow> s = p @ between p q s @ q"
proof -
  assume ne: "between p q s \<noteq> []"
  then have p: "HasPrefix s p" and q: "HasSuffix s q" and len: "length p + length q < length s"
    by (auto simp: between_def split: if_splits)
  define r where "r = drop (length p) s"
  have s: "s = p @ r" using HasPrefixE [OF p] by (simp add: r_def)
  have "q = drop (length s - length q) s" using q by (simp add: HasSuffix_def)
  also have "\<dots> = drop (length r - length q) r" using len by (simp add: s)
  finally have "r = take (length r - length q) r @ q" by (metis append_take_drop_id)
  moreover have "between p q s = take (length r - length q) r"
    using p q len by (simp add: between_def s)
  ultimately show ?thesis using s by (metis)
qed

lemma AIDFromPubChannel_PubChannel: "aid \<noteq> [] \<Longrightarrow> AIDFromPubChannel (PubChannel aid) = aid"
  using between_append [of aid "''auction:{''" "''}:pub''"]
  by (simp add: AIDFromPubChannel_def PubChannel_def tag_def)

lemma aidFromStreamKey_streamKey: "aid \<noteq> [] \<Longrightarrow> aidFromStreamKey (streamKey aid) = aid"
  using between_append [of aid "''auction:{''" "''}:events''"]
  by (simp add: aidFromStreamKey_def streamKey_def tag_def)

lemma aidFromStateKey_stateKey: "aid \<noteq> [] \<Longrightarrow> aidFromStateKey (stateKey aid) = aid"
  using between_append [of aid "''auction:{''" "''}:state''"]
  by (simp add: aidFromStateKey_def stateKey_def tag_def)

lemma stateKey_aidFromStateKey: "aidFromStateKey s \<noteq> [] \<Longrightarrow> stateKey (aidFromStateKey s) = s"
  using between_shape [of "''auction:{''" "''}:state''" s]
  by (simp add: aidFromStateKey_def stateKey_def tag_def)

lemma aidFromAuctionTaggedKey_tag:
  "CHR ''}'' \<notin> set aid \<Longrightarrow> aidFromAuctionTaggedKey (tag aid @ rest) = aid"
  using before_append [of "CHR ''}''" aid rest]
  by (simp add: aidFromAuctionTaggedKey_def tag_def HasPrefix_def Contains_def)

text \<open>A complete scan finds every auction that has a state key.\<close>

lemma ScanStateAIDs_complete:
  assumes "stateKey aid \<in> set (concat kss)" "aid \<noteq> []"
  shows "\<exists>aids. ScanStateAIDs (map Some kss) = Some aids \<and> aid \<in> set aids"
proof -
  have "aid \<in> set (filter (\<lambda>a. a \<noteq> []) (map aidFromStateKey (concat kss)))"
    using assms aidFromStateKey_stateKey [OF assms(2)] by force
  then show ?thesis unfolding ScanStateAIDs_def scan_aids_all by blast
qed

lemma ScanStateAIDs_sound:
  assumes "ScanStateAIDs (map Some kss) = Some aids" "a \<in> set aids"
  shows "stateKey a \<in> set (concat kss)"
  using assms stateKey_aidFromStateKey unfolding ScanStateAIDs_def scan_aids_all
  by fastforce

end
