(* ===== verification/Evidence.thy ===== *)
theory Evidence
  imports Json Keys
begin

text \<open>
  The evidence chain of \<^verbatim>\<open>internal/store/storedb.go\<close> and \<^verbatim>\<open>evidence_key.go\<close>: the rows of
  \<^verbatim>\<open>auction_events\<close> for one auction, \<^verbatim>\<open>InsertEvent\<close> with its hash chain, and the verifier
  with its cache. HMAC-SHA256 and MySQL's normal form of a JSON column are parameters.
\<close>

section \<open>Keys\<close>

type_synonym key = string

record StaticEvidenceKeySource =
  ks_Version :: int
  ks_Key :: key

definition defaultEvidenceKeyVersion :: int where
  "defaultEvidenceKeyVersion = 1"

definition NewStaticEvidenceKeySource :: "key \<Rightarrow> StaticEvidenceKeySource" where
  "NewStaticEvidenceKeySource k = \<lparr>ks_Version = defaultEvidenceKeyVersion, ks_Key = k\<rparr>"

definition CurrentEvidenceKey :: "StaticEvidenceKeySource \<Rightarrow> (int \<times> key) option" where
  "CurrentEvidenceKey s =
     (let version = (if ks_Version s = 0 then defaultEvidenceKeyVersion else ks_Version s)
      in if version < 0 then None else if ks_Key s = [] then None else Some (version, ks_Key s))"

definition EvidenceKey :: "StaticEvidenceKeySource \<Rightarrow> int \<Rightarrow> key option" where
  "EvidenceKey s version =
     (case CurrentEvidenceKey s of
        None \<Rightarrow> None
      | Some (currentVersion, k) \<Rightarrow>
          (let v = (if version = 0 then defaultEvidenceKeyVersion else version)
           in if v \<noteq> currentVersion then None else Some k))"

section \<open>Rows and hashes\<close>

record event_row =
  ev_seq :: int
  ev_type :: msg_type
  ev_payload :: json
  ev_hash :: "string option"
  ev_prev :: "string option"
  ev_ver :: int
  ev_updated :: int

text \<open>The code under which the rows are hashed: the MAC, the text of a JSON column, and the
  key and version the store was opened with.\<close>

record hasher =
  mac :: "key \<Rightarrow> string \<Rightarrow> string"
  json_text :: "json \<Rightarrow> string"
  cur_ver :: int
  cur_key :: key

fun type_name :: "msg_type \<Rightarrow> string" where
  "type_name ROOM_JOIN = ''ROOM_JOIN''"
| "type_name BID_PLACE = ''BID_PLACE''"
| "type_name PING = ''PING''"
| "type_name ROOM_SNAPSHOT = ''ROOM_SNAPSHOT''"
| "type_name ROOM_STATE_PATCH = ''ROOM_STATE_PATCH''"
| "type_name BID_ACCEPTED = ''BID_ACCEPTED''"
| "type_name BID_REJECTED = ''BID_REJECTED''"
| "type_name AUCTION_EXTENDED = ''AUCTION_EXTENDED''"
| "type_name AUCTION_SOLD = ''AUCTION_SOLD''"
| "type_name AUCTION_NO_BID = ''AUCTION_NO_BID''"
| "type_name AUCTION_CANCELLED = ''AUCTION_CANCELLED''"
| "type_name AI_COMMENTARY = ''AI_COMMENTARY''"
| "type_name ROOM_SOCIAL = ''ROOM_SOCIAL''"
| "type_name PONG = ''PONG''"
| "type_name SEALED_BID_RECEIVED = ''SEALED_BID_RECEIVED''"
| "type_name AUCTION_REVEALED = ''AUCTION_REVEALED''"
| "type_name ALL_PAY_FORFEIT = ''ALL_PAY_FORFEIT''"
| "type_name PREQUALIFY_RESULT = ''PREQUALIFY_RESULT''"

definition newline :: char where
  "newline = CHR 0x0A"

definition canonical_string :: "string \<Rightarrow> int \<Rightarrow> msg_type \<Rightarrow> string \<Rightarrow> string" where
  "canonical_string prev seq ty payload =
     prev @ [newline] @ FormatInt seq @ [newline] @ type_name ty @ [newline] @ payload"

definition evidenceHashWithKey :: "hasher \<Rightarrow> key \<Rightarrow> string \<Rightarrow> int \<Rightarrow> msg_type \<Rightarrow> string \<Rightarrow> string" where
  "evidenceHashWithKey E k prev seq ty payload = mac E k (canonical_string prev seq ty payload)"

definition evidenceHash :: "hasher \<Rightarrow> string \<Rightarrow> int \<Rightarrow> msg_type \<Rightarrow> string \<Rightarrow> string" where
  "evidenceHash E prev seq ty payload = evidenceHashWithKey E (cur_key E) prev seq ty payload"

definition evidenceHashForVersion ::
  "hasher \<Rightarrow> (int \<Rightarrow> key option) \<Rightarrow> int \<Rightarrow> string \<Rightarrow> int \<Rightarrow> msg_type \<Rightarrow> string \<Rightarrow> string option" where
  "evidenceHashForVersion E lookup v prev seq ty payload =
     (case lookup v of None \<Rightarrow> None | Some k \<Rightarrow> Some (evidenceHashWithKey E k prev seq ty payload))"

section \<open>Projection of one event\<close>

datatype db_err = DbError | ErrNotFound | ErrNotAllowed | ErrAuctionNotDeletable
  | ErrEventPayloadMismatch | ErrPreviousEventHashMissing | ErrPermanentOrderProjection
  | ErrOrderProjectionMismatch | ErrInvalidRules rules_error | ErrLockTimeout | ErrPayload

definition find_seq :: "int \<Rightarrow> event_row list \<Rightarrow> event_row option" where
  "find_seq q rows = find (\<lambda>r. ev_seq r = q) rows"

text \<open>Rows are kept in the order of \<^verbatim>\<open>seq\<close> (the unique index).\<close>

fun insert_row :: "event_row \<Rightarrow> event_row list \<Rightarrow> event_row list" where
  "insert_row r [] = [r]"
| "insert_row r (x # xs) = (if ev_seq r < ev_seq x then r # x # xs else x # insert_row r xs)"

definition nonempty :: "string option \<Rightarrow> bool" where
  "nonempty s \<longleftrightarrow> (case s of None \<Rightarrow> False | Some t \<Rightarrow> t \<noteq> [])"

definition str_of :: "string option \<Rightarrow> string" where
  "str_of s = (case s of None \<Rightarrow> [] | Some t \<Rightarrow> t)"

text \<open>\<^verbatim>\<open>fillEventHash\<close>, one transaction at time \<open>now\<close>.\<close>

definition fillEventHash :: "hasher \<Rightarrow> int \<Rightarrow> int \<Rightarrow> event_row list \<Rightarrow> db_err + event_row list" where
  "fillEventHash E now seq rows =
     (case find_seq seq rows of
        None \<Rightarrow> Inl DbError
      | Some row \<Rightarrow>
          (if nonempty (ev_hash row) then Inr rows
           else (let prior = last_opt (filter (\<lambda>r. ev_seq r < seq) rows);
                     fill = (\<lambda>prev.
                       let h = evidenceHash E prev seq (ev_type row) (json_text E (ev_payload row))
                       in Inr (map (\<lambda>r. if ev_seq r = seq \<and> ev_hash r = None
                                        then r\<lparr>ev_hash := Some h, ev_prev := Some prev,
                                               ev_ver := cur_ver E, ev_updated := now\<rparr>
                                        else r) rows))
                 in case prior of
                      None \<Rightarrow> (if seq > 1 then Inl ErrPreviousEventHashMissing else fill [])
                    | Some p \<Rightarrow>
                        (if ev_seq p \<noteq> seq - 1 \<or> \<not> nonempty (ev_hash p)
                         then Inl ErrPreviousEventHashMissing
                         else fill (str_of (ev_hash p))))))"

definition new_row :: "int \<Rightarrow> msg_type \<Rightarrow> json \<Rightarrow> int \<Rightarrow> event_row" where
  "new_row seq ty payload now =
     \<lparr>ev_seq = seq, ev_type = ty, ev_payload = payload, ev_hash = None, ev_prev = None,
      ev_ver = 1, ev_updated = now\<rparr>"

text \<open>\<^verbatim>\<open>InsertEvent\<close> makes up to three calls, each its own transaction: \<^verbatim>\<open>INSERT IGNORE\<close>, the comparison
  with a row that was there already, and \<^verbatim>\<open>fillEventHash\<close>. What becomes of them: all are answered,
  the insert fails, the comparison fails, the fill fails (or the worker dies, or the answer to the insert
  is lost), the fill commits and its answer is lost.\<close>

datatype insert_call = Insert_ok | Insert_fails | Compare_fails | Fill_fails | Answer_lost

text \<open>The rows are returned also with an error, since the insert and the hash are two transactions:
  an insert whose fill fails leaves a row without a hash. JSON values are compared structurally.\<close>

definition InsertEvent ::
  "insert_call \<Rightarrow> hasher \<Rightarrow> int \<Rightarrow> int \<Rightarrow> msg_type \<Rightarrow> json \<Rightarrow> event_row list \<Rightarrow> db_err option \<times> event_row list" where
  "InsertEvent c E now seq ty payload rows =
     (if payload = JBad \<or> c = Insert_fails then (Some DbError, rows)
      else (let rows1 = (case find_seq seq rows of
                           None \<Rightarrow> insert_row (new_row seq ty payload now) rows | Some r \<Rightarrow> rows);
                mismatch = (case find_seq seq rows of
                           None \<Rightarrow> False | Some r \<Rightarrow> ev_type r \<noteq> ty \<or> ev_payload r \<noteq> payload)
            in if find_seq seq rows \<noteq> None \<and> c = Compare_fails then (Some DbError, rows1)
               else if mismatch then (Some ErrEventPayloadMismatch, rows1)
               else if c = Fill_fails then (Some DbError, rows1)
               else (case fillEventHash E now seq rows1 of
                       Inl e \<Rightarrow> (Some e, rows1)
                     | Inr rows2 \<Rightarrow> (if c = Answer_lost then Some DbError else None, rows2))))"

section \<open>Verification\<close>

datatype verdict = Verified int string | BreakAt int | KeyUnavailable int

text \<open>\<^verbatim>\<open>verifyEvidenceChainRows\<close> on the rows from \<open>minSeq\<close> on; \<open>Verified\<close> has the last number
  and the head of the chain.\<close>

fun verify_rows :: "hasher \<Rightarrow> (int \<Rightarrow> key option) \<Rightarrow> event_row list \<Rightarrow> int \<Rightarrow> string \<Rightarrow> verdict" where
  "verify_rows E lookup [] expected prev = Verified (expected - 1) prev"
| "verify_rows E lookup (r # rs) expected prev =
     (if ev_seq r \<noteq> expected then BreakAt (ev_seq r)
      else if str_of (ev_prev r) \<noteq> prev then BreakAt (ev_seq r)
      else (case evidenceHashForVersion E lookup (ev_ver r) prev (ev_seq r) (ev_type r)
                   (json_text E (ev_payload r)) of
              None \<Rightarrow> KeyUnavailable (ev_seq r)
            | Some h \<Rightarrow>
                (if ev_hash r \<noteq> Some h then BreakAt (ev_seq r)
                 else verify_rows E lookup rs (expected + 1) h)))"

definition verifyEvidenceChainRows ::
  "hasher \<Rightarrow> (int \<Rightarrow> key option) \<Rightarrow> event_row list \<Rightarrow> int \<Rightarrow> int \<Rightarrow> string \<Rightarrow> verdict" where
  "verifyEvidenceChainRows E lookup rows minSeq expectedSeq prev =
     verify_rows E lookup (filter (\<lambda>r. minSeq \<le> ev_seq r) rows) expectedSeq prev"

record cache_row =
  c_verifiedSeq :: int
  c_eventsCount :: int
  c_chainHead :: string
  c_maxUpdated :: int
  c_verifiedAt :: int

definition max_updated :: "event_row list \<Rightarrow> int" where
  "max_updated rows = (case map ev_updated rows of [] \<Rightarrow> 0 | x # xs \<Rightarrow> fold max xs x)"

definition max_seq :: "event_row list \<Rightarrow> int" where
  "max_seq rows = (case map ev_seq rows of [] \<Rightarrow> 0 | x # xs \<Rightarrow> fold max xs x)"

definition tip_hash :: "event_row list \<Rightarrow> string" where
  "tip_hash rows = (if max_seq rows = 0 then []
     else (case find_seq (max_seq rows) rows of None \<Rightarrow> [] | Some r \<Rightarrow> str_of (ev_hash r)))"

definition ensureEvidenceKeysAvailable :: "(int \<Rightarrow> key option) \<Rightarrow> event_row list \<Rightarrow> int \<Rightarrow> bool" where
  "ensureEvidenceKeysAvailable lookup rows maxSeq \<longleftrightarrow>
     maxSeq \<le> 0 \<or> list_all (\<lambda>r. ev_seq r \<le> maxSeq \<longrightarrow> lookup (ev_ver r) \<noteq> None) rows"

definition evidencePrefixUnchanged :: "event_row list \<Rightarrow> cache_row \<Rightarrow> bool" where
  "evidencePrefixUnchanged rows c \<longleftrightarrow>
     (let prefix = filter (\<lambda>r. ev_seq r \<le> c_verifiedSeq c) rows
      in int (length prefix) = c_verifiedSeq c
         \<and> list_all (\<lambda>r. ev_updated r < c_verifiedAt c) prefix
         \<and> (case find_seq (c_verifiedSeq c) rows of
              None \<Rightarrow> False | Some r \<Rightarrow> ev_hash r = Some (c_chainHead c)))"

definition storeEvidenceChainCache ::
  "event_row list \<Rightarrow> int \<Rightarrow> string \<Rightarrow> int \<Rightarrow> cache_row option \<Rightarrow> cache_row option" where
  "storeEvidenceChainCache rows verifiedSeq head verifiedAt c =
     (if max_seq rows \<noteq> verifiedSeq \<or> tip_hash rows \<noteq> head then c
      else Some \<lparr>c_verifiedSeq = verifiedSeq, c_eventsCount = int (length rows),
                 c_chainHead = head, c_maxUpdated = max_updated rows, c_verifiedAt = verifiedAt\<rparr>)"

datatype check = ChainOk | ChainBroken int | ChainError

definition verify_from ::
  "hasher \<Rightarrow> (int \<Rightarrow> key option) \<Rightarrow> int \<Rightarrow> event_row list \<Rightarrow> int \<Rightarrow> string \<Rightarrow> cache_row option
   \<Rightarrow> check \<times> cache_row option" where
  "verify_from E lookup now rows q prev c =
     (case verifyEvidenceChainRows E lookup rows q q prev of
        Verified lastSeq head \<Rightarrow> (ChainOk, storeEvidenceChainCache rows lastSeq head now c)
      | BreakAt s \<Rightarrow> (ChainBroken s, c)
      | KeyUnavailable s \<Rightarrow> (ChainError, c))"

definition VerifyEvidenceChain ::
  "hasher \<Rightarrow> (int \<Rightarrow> key option) \<Rightarrow> int \<Rightarrow> event_row list \<Rightarrow> cache_row option \<Rightarrow> check \<times> cache_row option" where
  "VerifyEvidenceChain E lookup now rows cache =
     (case cache of
        Some c \<Rightarrow>
          (if c_verifiedSeq c = max_seq rows \<and> c_eventsCount c = int (length rows)
              \<and> c_chainHead c = tip_hash rows \<and> max_updated rows < c_verifiedAt c
           then (if ensureEvidenceKeysAvailable lookup rows (c_verifiedSeq c)
                 then (ChainOk, cache) else (ChainError, cache))
           else if c_verifiedSeq c > 0 \<and> c_verifiedSeq c < max_seq rows
           then (if \<not> ensureEvidenceKeysAvailable lookup rows (c_verifiedSeq c) then (ChainError, cache)
                 else if evidencePrefixUnchanged rows c
                 then verify_from E lookup now rows (c_verifiedSeq c + 1) (c_chainHead c) cache
                 else verify_from E lookup now rows 1 [] cache)
           else verify_from E lookup now rows 1 [] cache)
      | None \<Rightarrow> verify_from E lookup now rows 1 [] cache)"

end
