(* ===== verification/EvidenceProofs.thy ===== *)
theory EvidenceProofs
  imports Evidence
begin

text \<open>
  The evidence chain does its job: the hashed text is unambiguous, two chains with the
  same head have the same contents unless the MAC collides, projecting the events of an
  auction in order yields a chain that verifies, and the cached verifier gives the answer
  of a full recomputation.
\<close>

section \<open>Key sources\<close>

text \<open>What the store needs of a key source: the key it writes with can be looked up again.\<close>

locale evidence_keys =
  fixes current :: "'s \<Rightarrow> (int \<times> key) option" and lookup :: "'s \<Rightarrow> int \<Rightarrow> key option"
  assumes current_found: "current s = Some (v, k) \<Longrightarrow> lookup s v = Some k"
    and current_valid: "current s = Some (v, k) \<Longrightarrow> 0 < v \<and> k \<noteq> []"
begin

text \<open>A store opened on \<open>s\<close>.\<close>

definition opened :: "'s \<Rightarrow> hasher \<Rightarrow> bool" where
  "opened s E \<longleftrightarrow> current s = Some (cur_ver E, cur_key E)"

lemma own_hash:
  "opened s E \<Longrightarrow> evidenceHashForVersion E (lookup s) (cur_ver E) prev q ty p = Some (evidenceHash E prev q ty p)"
  by (auto simp: opened_def evidenceHashForVersion_def evidenceHash_def dest: current_found)

end

interpretation static_keys: evidence_keys CurrentEvidenceKey EvidenceKey
proof unfold_locales
  fix s :: StaticEvidenceKeySource and v :: int and k :: key
  assume c: "CurrentEvidenceKey s = Some (v, k)"
  show "0 < v \<and> k \<noteq> []"
    using c by (auto simp: CurrentEvidenceKey_def Let_def defaultEvidenceKeyVersion_def split: if_splits)
  then show "EvidenceKey s v = Some k" using c by (simp add: EvidenceKey_def Let_def)
qed

section \<open>The hashed text is unambiguous\<close>

lemma split_newline:
  "newline \<notin> set p \<Longrightarrow> newline \<notin> set p' \<Longrightarrow> p @ newline # x = p' @ newline # x' \<Longrightarrow> p = p' \<and> x = x'"
proof (induction p arbitrary: p')
  case Nil
  then show ?case by (cases p') auto
next
  case (Cons a p)
  then show ?case by (cases p') auto
qed

lemma type_name_inject: "type_name a = type_name b \<longleftrightarrow> a = b"
  by (cases a; cases b) simp_all

lemma type_name_newline: "newline \<notin> set (type_name t)"
  by (cases t) (simp_all add: newline_def)

lemma FormatInt_newline: "newline \<notin> set (FormatInt n)"
  by (rule FormatInt_chars) (simp_all add: newline_def is_digit_def digit_of_def)

lemma canonical_inject:
  assumes "newline \<notin> set p" "newline \<notin> set p'"
    and "canonical_string p q t s = canonical_string p' q' t' s'"
  shows "p = p' \<and> q = q' \<and> t = t' \<and> s = s'"
proof -
  have 1: "p = p' \<and> FormatInt q @ newline # (type_name t @ newline # s)
      = FormatInt q' @ newline # (type_name t' @ newline # s')"
    using assms(3) by (intro split_newline [OF assms(1,2)]) (simp add: canonical_string_def)
  then have 2: "FormatInt q = FormatInt q' \<and> type_name t @ newline # s = type_name t' @ newline # s'"
    by (intro split_newline [OF FormatInt_newline FormatInt_newline]) simp
  then have "type_name t = type_name t' \<and> s = s'"
    by (intro split_newline [OF type_name_newline type_name_newline]) simp
  with 1 2 show ?thesis by (simp add: FormatInt_inject type_name_inject)
qed

section \<open>Verified chains\<close>

lemma verify_append:
  "verify_rows E L (xs @ ys) e p =
     (case verify_rows E L xs e p of Verified n h \<Rightarrow> verify_rows E L ys (n + 1) h | v \<Rightarrow> v)"
  by (induction xs arbitrary: e p) (auto split: option.splits)

lemma verify_length:
  "verify_rows E L rows e p = Verified n h \<Longrightarrow> n = e - 1 + int (length rows)
     \<and> map ev_seq rows = map (\<lambda>i. e + int i) [0..<length rows]"
proof (induction rows arbitrary: e p)
  case (Cons r rows)
  then obtain h' where "verify_rows E L rows (e + 1) h' = Verified n h" and e: "ev_seq r = e"
    by (auto split: if_splits option.splits)
  from Cons.IH [OF this(1)] have *: "n = e + int (length rows)"
    "map ev_seq rows = map (\<lambda>i. e + 1 + int i) [0..<length rows]" by auto
  have "map (\<lambda>i. e + int i) [0..<Suc (length rows)] = e # map (\<lambda>i. e + 1 + int i) [0..<length rows]"
    by (simp add: map_upt_Suc ac_simps del: upt_Suc)
  with * e show ?case by simp
qed simp

definition contents :: "hasher \<Rightarrow> event_row \<Rightarrow> int \<times> msg_type \<times> string" where
  "contents E r = (ev_seq r, ev_type r, json_text E (ev_payload r))"

text \<open>Two rows whose hashed texts differ while their MACs, under the keys of their versions,
  agree.\<close>

definition row_text :: "hasher \<Rightarrow> event_row \<Rightarrow> string" where
  "row_text E r = canonical_string (str_of (ev_prev r)) (ev_seq r) (ev_type r) (json_text E (ev_payload r))"

definition collide :: "hasher \<Rightarrow> (int \<Rightarrow> key option) \<Rightarrow> event_row \<Rightarrow> event_row \<Rightarrow> bool" where
  "collide E L r r' \<longleftrightarrow> row_text E r \<noteq> row_text E r' \<and>
     (case (L (ev_ver r), L (ev_ver r')) of
        (Some k, Some k') \<Rightarrow> mac E k (row_text E r) = mac E k' (row_text E r') | _ \<Rightarrow> False)"

lemma verify_snoc:
  assumes "verify_rows E L (xs @ [r]) e p = Verified n h"
  obtains k where "verify_rows E L xs e p = Verified (n - 1) (str_of (ev_prev r))" "ev_seq r = n"
    "L (ev_ver r) = Some k" "h = mac E k (row_text E r)"
  using assms
  by (auto simp: verify_append evidenceHashForVersion_def evidenceHashWithKey_def row_text_def ac_simps
      split: verdict.splits if_splits option.splits)

lemma verify_newline:
  assumes "\<forall>k m. newline \<notin> set (mac E k m)" "newline \<notin> set p"
    "verify_rows E L rows e p = Verified n h"
  shows "newline \<notin> set h"
proof (cases rows rule: rev_cases)
  case Nil
  with assms show ?thesis by simp
next
  case (snoc xs r)
  with assms(3) have v: "verify_rows E L (xs @ [r]) e p = Verified n h" by simp
  obtain k where "h = mac E k (row_text E r)" using v by (rule verify_snoc)
  then show ?thesis using assms(1) by simp
qed

lemma same_head_same_contents:
  assumes hex: "\<forall>k m. newline \<notin> set (mac E k m)" and p: "newline \<notin> set p"
  shows "verify_rows E L xs e p = Verified n h \<Longrightarrow> verify_rows E L ys e p = Verified n h \<Longrightarrow>
    \<forall>i<length xs. \<not> collide E L (xs ! i) (ys ! i) \<Longrightarrow> map (contents E) xs = map (contents E) ys"
proof (induction xs arbitrary: ys n h rule: rev_induct)
  case Nil
  then show ?case using verify_length [OF Nil(2)] by simp
next
  case (snoc r xs)
  have len: "length ys = length (xs @ [r])"
    using verify_length [OF snoc.prems(1)] verify_length [OF snoc.prems(2)] by simp
  then obtain zs r' where ys: "ys = zs @ [r']" by (cases ys rule: rev_cases) auto
  obtain k where 1: "verify_rows E L xs e p = Verified (n - 1) (str_of (ev_prev r))" "ev_seq r = n"
    "L (ev_ver r) = Some k" "h = mac E k (row_text E r)"
    using snoc.prems(1) by (rule verify_snoc)
  obtain k' where 2: "verify_rows E L zs e p = Verified (n - 1) (str_of (ev_prev r'))" "ev_seq r' = n"
    "L (ev_ver r') = Some k'" "h = mac E k' (row_text E r')"
    using snoc.prems(2) unfolding ys by (rule verify_snoc)
  have free: "\<not> collide E L r r'"
    using snoc.prems(3) [rule_format, of "length xs"] len unfolding ys by (simp add: nth_append)
  have below: "\<forall>i<length xs. \<not> collide E L (xs ! i) (zs ! i)"
  proof (intro allI impI)
    fix i assume "i < length xs"
    then show "\<not> collide E L (xs ! i) (zs ! i)"
      using snoc.prems(3) [rule_format, of i] len unfolding ys by (simp add: nth_append)
  qed
  have "row_text E r = row_text E r'" using free 1 2 by (auto simp: collide_def)
  then have eq: "str_of (ev_prev r) = str_of (ev_prev r') \<and> ev_type r = ev_type r'
      \<and> json_text E (ev_payload r) = json_text E (ev_payload r')"
    using canonical_inject verify_newline [OF hex p 1(1)] verify_newline [OF hex p 2(1)]
    unfolding row_text_def by blast
  with 1 2 below have "map (contents E) xs = map (contents E) zs" by (intro snoc.IH) auto
  moreover have "contents E r = contents E r'" using eq 1(2) 2(2) by (simp add: contents_def)
  ultimately show ?case by (simp add: ys)
qed

section \<open>Projection\<close>

text \<open>The MAC is hexadecimal text: it is not empty.\<close>

definition proper :: "hasher \<Rightarrow> (int \<Rightarrow> key option) \<Rightarrow> bool" where
  "proper E lookup \<longleftrightarrow> (\<forall>k m. mac E k m \<noteq> []) \<and> lookup (cur_ver E) = Some (cur_key E)"

definition chain :: "hasher \<Rightarrow> (int \<Rightarrow> key option) \<Rightarrow> event_row list \<Rightarrow> string \<Rightarrow> bool" where
  "chain E lookup rows h \<longleftrightarrow> verify_rows E lookup rows 1 [] = Verified (int (length rows)) h"

lemma chain_nth:
  assumes "chain E L rows h" "i < length rows"
  shows "ev_seq (rows ! i) = int i + 1"
proof -
  have "map ev_seq rows = map (\<lambda>i. 1 + int i) [0..<length rows]"
    using verify_length assms(1) unfolding chain_def by blast
  then have "map ev_seq rows ! i = map (\<lambda>i. 1 + int i) [0..<length rows] ! i" by simp
  with assms(2) show ?thesis by simp
qed

lemma chain_seq_le: "chain E L rows h \<Longrightarrow> r \<in> set rows \<Longrightarrow> 1 \<le> ev_seq r \<and> ev_seq r \<le> int (length rows)"
  using chain_nth by (fastforce simp: in_set_conv_nth)

lemma chain_hash:
  assumes "chain E L rows h" "rows \<noteq> []" "\<forall>k m. mac E k m \<noteq> []"
  shows "ev_hash (last rows) = Some h" "h \<noteq> []"
proof -
  obtain xs r where rows: "rows = xs @ [r]" using assms(2) by (cases rows rule: rev_cases) auto
  have "ev_hash r = Some h \<and> h \<noteq> []"
    using assms(1,3) unfolding chain_def rows
    by (auto simp: verify_append evidenceHashForVersion_def evidenceHashWithKey_def
        split: verdict.splits if_splits option.splits)
  then show "ev_hash (last rows) = Some h" "h \<noteq> []" by (simp_all add: rows)
qed

lemma chain_all_hashed:
  "verify_rows E L rows e p = Verified n h \<Longrightarrow> \<forall>k m. mac E k m \<noteq> [] \<Longrightarrow> r \<in> set rows \<Longrightarrow> nonempty (ev_hash r)"
proof (induction rows arbitrary: e p)
  case (Cons a rows)
  then obtain k m where a: "ev_hash a = Some (mac E k m)"
    and rest: "verify_rows E L rows (e + 1) (mac E k m) = Verified n h"
    by (auto simp: evidenceHashForVersion_def evidenceHashWithKey_def split: if_splits option.splits)
  show ?case
  proof (cases "r = a")
    case True
    with a Cons.prems(2) show ?thesis by (simp add: nonempty_def)
  next
    case False
    with Cons.IH [OF rest] Cons.prems show ?thesis by simp
  qed
qed simp

lemma insert_row_last: "\<forall>x\<in>set rows. ev_seq x < ev_seq r \<Longrightarrow> insert_row r rows = rows @ [r]"
  by (induction rows) auto

lemma find_None: "(\<And>x. x \<in> set rows \<Longrightarrow> ev_seq x \<noteq> q) \<Longrightarrow> find_seq q rows = None"
  by (auto simp: find_seq_def find_None_iff)

lemma find_seq_snoc: "(\<And>x. x \<in> set rows \<Longrightarrow> ev_seq x \<noteq> ev_seq r) \<Longrightarrow> find_seq (ev_seq r) (rows @ [r]) = Some r"
  unfolding find_seq_def by (induction rows) auto

definition chained_row :: "hasher \<Rightarrow> int \<Rightarrow> string \<Rightarrow> event_row \<Rightarrow> event_row" where
  "chained_row E now prev r = r\<lparr>ev_hash := Some (evidenceHash E prev (ev_seq r) (ev_type r) (json_text E (ev_payload r))),
     ev_prev := Some prev, ev_ver := cur_ver E, ev_updated := now\<rparr>"

text \<open>A row without a hash at the end of a chain is filled, and extends the chain.\<close>

lemma fill_last:
  fixes now :: int and h :: string and E :: hasher and r :: event_row
  assumes ch: "chain E L rows h" and pr: "proper E L" and r: "ev_seq r = int (length rows) + 1" "ev_hash r = None"
  shows "fillEventHash E now (int (length rows) + 1) (rows @ [r]) = Inr (rows @ [chained_row E now h r])"
    and "chain E L (rows @ [chained_row E now h r]) (evidenceHash E h (ev_seq r) (ev_type r) (json_text E (ev_payload r)))"
proof -
  let ?q = "int (length rows) + 1"
  have lt: "\<forall>x\<in>set rows. ev_seq x < ?q" using chain_seq_le [OF ch] by force
  have find: "find_seq ?q (rows @ [r]) = Some r" using find_seq_snoc [of rows r] lt r(1) by force
  have prior: "filter (\<lambda>x. ev_seq x < ?q) (rows @ [r]) = rows" using lt r(1) by simp
  have upd: "map (\<lambda>x. if ev_seq x = ?q \<and> ev_hash x = None then f x else x) (rows @ [r]) = rows @ [f r]" for f
  proof -
    have "map (\<lambda>x. if ev_seq x = ?q \<and> ev_hash x = None then f x else x) rows = rows"
      using lt by (intro map_idI) auto
    then show ?thesis by (simp add: r)
  qed
  show "fillEventHash E now ?q (rows @ [r]) = Inr (rows @ [chained_row E now h r])"
  proof (cases "rows = []")
    case True
    then have "h = []" using ch by (simp add: chain_def)
    with True find prior upd r show ?thesis
      by (simp add: fillEventHash_def nonempty_def chained_row_def Let_def)
  next
    case False
    have "last rows = rows ! (length rows - 1)" using False by (rule last_conv_nth)
    moreover have "int (length rows - 1) + 1 = int (length rows)" using False by (cases rows) auto
    ultimately have "ev_seq (last rows) = ?q - 1"
      using chain_nth [OF ch, of "length rows - 1"] False by simp
    moreover have "ev_hash (last rows) = Some h" "h \<noteq> []"
      using chain_hash [OF ch False] pr by (auto simp: proper_def)
    ultimately show ?thesis
      using find prior upd False r
      by (simp add: fillEventHash_def nonempty_def chained_row_def Let_def last_opt_eq str_of_def)
  qed
  show "chain E L (rows @ [chained_row E now h r]) (evidenceHash E h (ev_seq r) (ev_type r) (json_text E (ev_payload r)))"
    using ch pr r
    by (simp add: chain_def verify_append chained_row_def str_of_def evidenceHashForVersion_def proper_def evidenceHash_def)
qed

lemma insert_next_row:
  assumes "chain E L rows h" "q = int (length rows) + 1"
  shows "find_seq q rows = None" "insert_row (new_row q ty payload now) rows = rows @ [new_row q ty payload now]"
proof -
  have lt: "\<forall>x\<in>set rows. ev_seq x < q" using chain_seq_le [OF assms(1)] assms(2) by force
  then show "find_seq q rows = None" by (intro find_None) auto
  show "insert_row (new_row q ty payload now) rows = rows @ [new_row q ty payload now]"
    using lt by (intro insert_row_last) (simp add: new_row_def)
qed

text \<open>The next event extends the chain; when a call fails the rows are as before, or end with a row
  without a hash, or are extended all the same.\<close>

lemma InsertEvent_next:
  fixes ty :: msg_type and now :: int and payload :: json and h :: string and E :: hasher
  assumes ch: "chain E L rows h" and pr: "proper E L" and q: "q = int (length rows) + 1" and p: "payload \<noteq> JBad"
  defines "r \<equiv> chained_row E now h (new_row q ty payload now)"
  shows "InsertEvent Insert_ok E now q ty payload rows = (None, rows @ [r])"
    and "chain E L (rows @ [r]) (evidenceHash E h q ty (json_text E payload))"
    and "InsertEvent c E now q ty payload rows \<in>
      {(Some DbError, rows), (Some DbError, rows @ [new_row q ty payload now]), (Some DbError, rows @ [r]), (None, rows @ [r])}"
proof -
  let ?n = "new_row q ty payload now"
  have n: "ev_seq ?n = int (length rows) + 1" "ev_hash ?n = None" "ev_type ?n = ty" "ev_payload ?n = payload"
    by (simp_all add: new_row_def q)
  note fill = fill_last [OF ch pr n(1,2), of now]
  note row = insert_next_row [OF ch q]
  show "InsertEvent Insert_ok E now q ty payload rows = (None, rows @ [r])"
    using p row fill(1) by (simp add: InsertEvent_def Let_def q r_def)
  show "chain E L (rows @ [r]) (evidenceHash E h q ty (json_text E payload))"
    using fill(2) n by (simp add: r_def q)
  show "InsertEvent c E now q ty payload rows \<in>
      {(Some DbError, rows), (Some DbError, rows @ [?n]), (Some DbError, rows @ [r]), (None, rows @ [r])}"
    using p row fill(1) by (auto simp: InsertEvent_def Let_def q r_def)
qed

text \<open>An event whose row has no hash yet: a pass that reaches it fills the hash.\<close>

lemma InsertEvent_heals:
  fixes now :: int and h :: string and E :: hasher and r :: event_row
  assumes ch: "chain E L rows h" and pr: "proper E L"
    and r: "ev_seq r = int (length rows) + 1" "ev_hash r = None" "ev_type r = ty" "ev_payload r = payload" "payload \<noteq> JBad"
  shows "InsertEvent Insert_ok E now (ev_seq r) ty payload (rows @ [r]) = (None, rows @ [chained_row E now h r])"
    and "InsertEvent c E now (ev_seq r) ty payload (rows @ [r]) \<in>
      {(Some DbError, rows @ [r]), (Some DbError, rows @ [chained_row E now h r]), (None, rows @ [chained_row E now h r])}"
proof -
  have lt: "\<forall>x\<in>set rows. ev_seq x \<noteq> ev_seq r" using chain_seq_le [OF ch] r(1) by force
  have find: "find_seq (ev_seq r) (rows @ [r]) = Some r" using lt by (intro find_seq_snoc) auto
  note fill = fill_last(1) [OF ch pr r(1,2), of now, folded r(1)]
  show "InsertEvent Insert_ok E now (ev_seq r) ty payload (rows @ [r]) = (None, rows @ [chained_row E now h r])"
    using find fill r(3-5) by (simp add: InsertEvent_def Let_def)
  show "InsertEvent c E now (ev_seq r) ty payload (rows @ [r]) \<in>
      {(Some DbError, rows @ [r]), (Some DbError, rows @ [chained_row E now h r]), (None, rows @ [chained_row E now h r])}"
    using find fill r(3-5) by (auto simp: InsertEvent_def Let_def)
qed

lemma find_seq_chain:
  assumes "chain E L rows h" "1 \<le> q" "q \<le> int (length rows)"
  shows "find_seq q rows = Some (rows ! nat (q - 1))"
proof -
  have i: "nat (q - 1) < length rows" using assms by simp
  have "ev_seq (rows ! nat (q - 1)) = q" using chain_nth [OF assms(1) i] assms(2) by simp
  moreover have "\<forall>j<nat (q - 1). ev_seq (rows ! j) \<noteq> q"
  proof (intro allI impI)
    fix j
    assume j: "j < nat (q - 1)"
    then have "ev_seq (rows ! j) = int j + 1" using i by (intro chain_nth [OF assms(1)]) simp
    then show "ev_seq (rows ! j) \<noteq> q" using j by simp
  qed
  ultimately show ?thesis using i by (auto simp: find_seq_def find_Some_iff)
qed

lemma find_seq_append: "find_seq q rows = Some r \<Longrightarrow> find_seq q (rows @ us) = Some r"
  by (induction rows) (auto simp: find_seq_def)

text \<open>Projecting an event of the chain again is a no-op, projecting a different one is refused,
  whatever rows come after the chain.\<close>

lemma InsertEvent_again:
  assumes ch: "chain E L rows h" and pr: "proper E L" and q: "1 \<le> q" "q \<le> int (length rows)"
    and p: "payload \<noteq> JBad"
  shows "InsertEvent Insert_ok E now q ty payload (rows @ us) =
    (if ev_type (rows ! nat (q - 1)) = ty \<and> ev_payload (rows ! nat (q - 1)) = payload
     then (None, rows @ us) else (Some ErrEventPayloadMismatch, rows @ us))"
    and "snd (InsertEvent c E now q ty payload (rows @ us)) = rows @ us"
proof -
  have find: "find_seq q (rows @ us) = Some (rows ! nat (q - 1))"
    using find_seq_chain [OF ch q] by (rule find_seq_append)
  have "rows ! nat (q - 1) \<in> set rows" using q by simp
  then have "nonempty (ev_hash (rows ! nat (q - 1)))"
    using chain_all_hashed ch pr unfolding chain_def proper_def by blast
  then have fill: "fillEventHash E now q (rows @ us) = Inr (rows @ us)" using find by (simp add: fillEventHash_def)
  show "InsertEvent Insert_ok E now q ty payload (rows @ us) =
    (if ev_type (rows ! nat (q - 1)) = ty \<and> ev_payload (rows ! nat (q - 1)) = payload
     then (None, rows @ us) else (Some ErrEventPayloadMismatch, rows @ us))"
    using p find fill by (simp add: InsertEvent_def Let_def)
  show "snd (InsertEvent c E now q ty payload (rows @ us)) = rows @ us"
    using find fill by (simp add: InsertEvent_def Let_def)
qed

text \<open>An event that skips a number is stored without a hash, and the verifier stops there.\<close>

lemma InsertEvent_gap:
  assumes ch: "chain E L rows h" and pr: "proper E L" and q: "int (length rows) + 1 < q" and p: "payload \<noteq> JBad"
  shows "InsertEvent Insert_ok E now q ty payload rows = (Some ErrPreviousEventHashMissing, rows @ [new_row q ty payload now])"
    and "verify_rows E L (rows @ [new_row q ty payload now]) 1 [] = BreakAt q"
proof -
  let ?n = "new_row q ty payload now"
  have lt: "\<forall>x\<in>set rows. ev_seq x < q" using chain_seq_le [OF ch] q by force
  have nomatch: "find_seq q rows = None" using lt by (intro find_None) auto
  have ins: "insert_row ?n rows = rows @ [?n]" using lt by (intro insert_row_last) (simp add: new_row_def)
  have find: "find_seq q (rows @ [?n]) = Some ?n"
    using find_seq_snoc [of rows ?n] lt by (force simp: new_row_def)
  have prior: "filter (\<lambda>x. ev_seq x < q) (rows @ [?n]) = rows"
    using lt by (simp add: new_row_def)
  have last: "rows \<noteq> [] \<Longrightarrow> ev_seq (last rows) \<noteq> q - 1"
    using chain_seq_le [OF ch, of "last rows"] q by auto
  show "InsertEvent Insert_ok E now q ty payload rows = (Some ErrPreviousEventHashMissing, rows @ [?n])"
    using p nomatch ins find prior last q
    by (simp add: InsertEvent_def Let_def fillEventHash_def nonempty_def new_row_def last_opt_eq)
  show "verify_rows E L (rows @ [?n]) 1 [] = BreakAt q"
    using ch q by (simp add: chain_def verify_append new_row_def)
qed

end
