(* ===== verification/EvidenceCache.thy ===== *)
theory EvidenceCache
  imports EvidenceProofs
begin

text \<open>
  The verification cache. A cache row remembers that the whole chain was verified at a
  time; MySQL stamps every later change of a row with a later time. From that alone the
  cached verifier answers as a full recomputation would.
\<close>

definition seq_sorted :: "event_row list \<Rightarrow> bool" where
  "seq_sorted rows \<longleftrightarrow> sorted_wrt (\<lambda>a b. ev_seq a < ev_seq b) rows \<and> (\<forall>r\<in>set rows. 1 \<le> ev_seq r)"

text \<open>The rows \<open>rows0\<close> that were verified when the cache row was written; since then rows
  may have been added, changed or deleted, but a row that is now older than the cache is
  one of them.\<close>

definition cache_of :: "hasher \<Rightarrow> (int \<Rightarrow> key option) \<Rightarrow> event_row list \<Rightarrow> event_row list \<Rightarrow> cache_row \<Rightarrow> bool" where
  "cache_of E L rows0 rows c \<longleftrightarrow>
     verify_rows E L rows0 1 [] = Verified (c_verifiedSeq c) (c_chainHead c)
     \<and> int (length rows0) = c_eventsCount c
     \<and> (\<forall>r\<in>set rows. ev_updated r < c_verifiedAt c \<longrightarrow> r \<in> set rows0)"

text \<open>The history condition survives every later change.\<close>

lemma cache_of_change:
  assumes "cache_of E L rows0 rows c" "c_verifiedAt c \<le> now"
    and "\<forall>r\<in>set rows'. r \<in> set rows \<or> now \<le> ev_updated r"
  shows "cache_of E L rows0 rows' c"
  using assms by (fastforce simp: cache_of_def)

lemma seq_sorted_filter: "seq_sorted rows \<Longrightarrow> seq_sorted (filter P rows)"
  by (simp add: seq_sorted_def sorted_wrt_filter)

lemma seq_sorted_distinct: "seq_sorted rows \<Longrightarrow> distinct rows"
proof -
  assume "seq_sorted rows"
  then have "sorted_wrt (<) (map ev_seq rows)" by (simp add: seq_sorted_def sorted_wrt_map)
  then have "distinct (map ev_seq rows)" by (simp add: strict_sorted_iff)
  then show "distinct rows" by (simp add: distinct_map)
qed

lemma verified_sorted: "verify_rows E L rows 1 [] = Verified n h \<Longrightarrow> seq_sorted rows"
proof -
  assume "verify_rows E L rows 1 [] = Verified n h"
  then have m: "map ev_seq rows = map (\<lambda>i. 1 + int i) [0..<length rows]" using verify_length by blast
  have "sorted_wrt (<) (map (\<lambda>i. 1 + int i) [0..<length rows])"
    by (simp add: sorted_wrt_map sorted_wrt_iff_nth_less)
  then have "sorted_wrt (<) (map ev_seq rows)" by (simp only: m)
  moreover have "\<forall>r\<in>set rows. 1 \<le> ev_seq r"
  proof
    fix r assume "r \<in> set rows"
    then have "ev_seq r \<in> set (map ev_seq rows)" by simp
    then show "1 \<le> ev_seq r" unfolding m by auto
  qed
  ultimately show ?thesis by (simp add: seq_sorted_def sorted_wrt_map)
qed

text \<open>A sorted list of verified rows as long as the verified list is that list.\<close>

lemma same_rows:
  assumes "seq_sorted xs" "seq_sorted ys" "set xs \<subseteq> set ys" "length xs = length ys"
  shows "xs = ys"
proof -
  have "card (set xs) = card (set ys)"
    using assms(4) seq_sorted_distinct [OF assms(1)] seq_sorted_distinct [OF assms(2)]
    by (simp add: distinct_card)
  then have set: "set xs = set ys" using assms(3) by (intro card_subset_eq) auto
  have sx: "sorted_wrt (<) (map ev_seq xs)" and sy: "sorted_wrt (<) (map ev_seq ys)"
    using assms(1,2) by (simp_all add: seq_sorted_def sorted_wrt_map)
  have "set (map ev_seq xs) = set (map ev_seq ys)" using set by simp
  with sx sy have keys: "map ev_seq xs = map ev_seq ys" by (intro strict_sorted_equal) auto
  have inj: "inj_on ev_seq (set ys)"
    using sy by (simp add: strict_sorted_iff distinct_map)
  show ?thesis
    using keys inj set by (intro map_inj_on [of ev_seq xs ys]) auto
qed

lemma filter_split:
  assumes "seq_sorted rows"
  shows "rows = filter (\<lambda>r. ev_seq r \<le> v) rows @ filter (\<lambda>r. v + 1 \<le> ev_seq r) rows"
  using assms
proof (induction rows)
  case (Cons r rows)
  show ?case
  proof (cases "ev_seq r \<le> v")
    case True
    with Cons show ?thesis by (simp add: seq_sorted_def)
  next
    case False
    then have "filter (\<lambda>r. ev_seq r \<le> v) rows = []"
      using Cons.prems by (auto simp: seq_sorted_def filter_empty_conv)
    with False Cons show ?thesis by (simp add: seq_sorted_def)
  qed
qed simp

lemma filter_all_positive: "seq_sorted rows \<Longrightarrow> filter (\<lambda>r. 1 \<le> ev_seq r) rows = rows"
  by (auto simp: seq_sorted_def intro: filter_True)

lemma max_updated_all:
  assumes "max_updated rows < t" "r \<in> set rows"
  shows "ev_updated r < t"
proof -
  have le: "x \<le> fold max xs a" if "x \<in> insert a (set xs)" for x a :: int and xs
    using that
  proof (induction xs arbitrary: a x)
    case (Cons y xs)
    show ?case
    proof (cases "x \<in> insert (max y a) (set xs)")
      case True
      then show ?thesis using Cons.IH by simp
    next
      case False
      then have "x \<le> max y a" using Cons.prems by auto
      also have "\<dots> \<le> fold max xs (max y a)" by (rule Cons.IH) simp
      finally show ?thesis by simp
    qed
  qed simp
  obtain s rs where rows: "rows = s # rs" using assms(2) by (cases rows) auto
  have "ev_updated r \<in> insert (ev_updated s) (set (map ev_updated rs))" using assms(2) rows by auto
  then have "ev_updated r \<le> max_updated rows" unfolding max_updated_def rows using le by simp
  with assms(1) show ?thesis by simp
qed

definition full_check :: "hasher \<Rightarrow> (int \<Rightarrow> key option) \<Rightarrow> event_row list \<Rightarrow> check" where
  "full_check E L rows =
     (case verifyEvidenceChainRows E L rows 1 1 [] of
        Verified n h \<Rightarrow> ChainOk | BreakAt s \<Rightarrow> ChainBroken s | KeyUnavailable s \<Rightarrow> ChainError)"

lemma verify_from_check: "fst (verify_from E L now rows 1 [] c) = full_check E L rows"
  by (simp add: verify_from_def full_check_def split: verdict.splits)

definition keys_known :: "(int \<Rightarrow> key option) \<Rightarrow> event_row list \<Rightarrow> bool" where
  "keys_known L rows \<longleftrightarrow> (\<forall>r\<in>set rows. L (ev_ver r) \<noteq> None)"

lemma keys_known_ensure: "keys_known L rows \<Longrightarrow> ensureEvidenceKeysAvailable L rows v"
  by (simp add: keys_known_def ensureEvidenceKeysAvailable_def list_all_iff)

text \<open>With a current cache row the whole chain is the verified one.\<close>

lemma cache_hit:
  assumes cache: "cache_of E L rows0 rows c" and sorted: "seq_sorted rows"
    and count: "c_eventsCount c = int (length rows)" and old: "max_updated rows < c_verifiedAt c"
  shows "full_check E L rows = ChainOk"
proof -
  have v: "verify_rows E L rows0 1 [] = Verified (c_verifiedSeq c) (c_chainHead c)"
    using cache by (simp add: cache_of_def)
  have "set rows \<subseteq> set rows0" using cache max_updated_all [OF old] by (auto simp: cache_of_def)
  moreover have "length rows = length rows0" using cache count by (simp add: cache_of_def)
  ultimately have "rows = rows0" using sorted verified_sorted [OF v] by (intro same_rows)
  with v have "verify_rows E L rows 1 [] = Verified (c_verifiedSeq c) (c_chainHead c)" by simp
  then show ?thesis
    by (simp add: full_check_def verifyEvidenceChainRows_def filter_all_positive [OF sorted])
qed

text \<open>With an unchanged prefix the rest continues from the cached head.\<close>

lemma cache_prefix:
  assumes cache: "cache_of E L rows0 rows c" and sorted: "seq_sorted rows"
    and same: "evidencePrefixUnchanged rows c"
  shows "verifyEvidenceChainRows E L rows 1 1 [] =
    verifyEvidenceChainRows E L rows (c_verifiedSeq c + 1) (c_verifiedSeq c + 1) (c_chainHead c)"
proof -
  let ?v = "c_verifiedSeq c"
  let ?p = "filter (\<lambda>r. ev_seq r \<le> ?v) rows"
  have v: "verify_rows E L rows0 1 [] = Verified ?v (c_chainHead c)"
    using cache by (simp add: cache_of_def)
  have "set ?p \<subseteq> set rows0"
    using cache same by (auto simp: cache_of_def evidencePrefixUnchanged_def Let_def list_all_iff)
  moreover have "length ?p = length rows0"
    using same verify_length [OF v] by (simp add: evidencePrefixUnchanged_def Let_def)
  ultimately have p: "?p = rows0"
    using seq_sorted_filter [OF sorted] verified_sorted [OF v] by (intro same_rows)
  have "verify_rows E L rows 1 [] = verify_rows E L (?p @ filter (\<lambda>r. ?v + 1 \<le> ev_seq r) rows) 1 []"
    using filter_split [OF sorted, of ?v] by simp
  also have "\<dots> = verify_rows E L (filter (\<lambda>r. ?v + 1 \<le> ev_seq r) rows) (?v + 1) (c_chainHead c)"
    unfolding p by (simp add: verify_append v)
  finally show ?thesis
    by (simp add: verifyEvidenceChainRows_def filter_all_positive [OF sorted])
qed

lemma VerifyEvidenceChain_full:
  assumes "seq_sorted rows" "keys_known L rows"
    and "\<And>c. cache = Some c \<Longrightarrow> \<exists>rows0. cache_of E L rows0 rows c"
  shows "fst (VerifyEvidenceChain E L now rows cache) = full_check E L rows"
proof (cases cache)
  case None
  then show ?thesis by (simp add: VerifyEvidenceChain_def verify_from_check)
next
  case (Some c)
  then obtain rows0 where c: "cache_of E L rows0 rows c" using assms(3) by blast
  note keys = keys_known_ensure [OF assms(2)]
  show ?thesis
    using cache_hit [OF c assms(1)] cache_prefix [OF c assms(1)] keys
    by (auto simp: VerifyEvidenceChain_def Some verify_from_check verify_from_def full_check_def
        split: verdict.splits)
qed

text \<open>The cache row a check leaves is again one the next check can rely on.\<close>

lemma stored_cache:
  assumes "seq_sorted rows" "verifyEvidenceChainRows E L rows 1 1 [] = Verified n h"
  shows "cache_of E L rows rows \<lparr>c_verifiedSeq = n, c_eventsCount = int (length rows),
    c_chainHead = h, c_maxUpdated = u, c_verifiedAt = t\<rparr>"
  using assms by (simp add: cache_of_def verifyEvidenceChainRows_def filter_all_positive)

lemma VerifyEvidenceChain_cache:
  assumes sorted: "seq_sorted rows"
    and old: "\<And>c. cache = Some c \<Longrightarrow> \<exists>rows0. cache_of E L rows0 rows c"
    and new: "snd (VerifyEvidenceChain E L now rows cache) = Some c"
  shows "\<exists>rows0. cache_of E L rows0 rows c"
proof -
  have from1: "cache_of E L rows rows c' \<or> Some c' = cache"
    if "snd (verify_from E L now rows 1 [] cache) = Some c'" for c'
    using that stored_cache [OF sorted]
    by (auto simp: verify_from_def storeEvidenceChainCache_def split: verdict.splits if_splits)
  have from2: "cache_of E L rows rows c' \<or> Some c' = cache"
    if "cache = Some d" "evidencePrefixUnchanged rows d"
      "snd (verify_from E L now rows (c_verifiedSeq d + 1) (c_chainHead d) cache) = Some c'" for c' d
  proof -
    note h = that
    obtain rows0 where c: "cache_of E L rows0 rows d" using old [OF h(1)] by blast
    note e = cache_prefix [OF c sorted h(2)]
    show ?thesis
      using h(3) stored_cache [OF sorted] unfolding verify_from_def e [symmetric]
      by (auto simp: storeEvidenceChainCache_def split: verdict.splits if_splits)
  qed
  have "cache_of E L rows rows c \<or> Some c = cache"
    using new from1 from2 by (auto simp: VerifyEvidenceChain_def split: option.splits if_splits)
  then show ?thesis using old by blast
qed

end
