(* ===== verification/StreamRead.thy ===== *)
theory StreamRead
  imports Engine Keys
begin

text \<open>
  Reading an auction's event stream from Go: ids as text, the paging loop of
  \<^verbatim>\<open>collectStreamEvents\<close> over a fetch function, \<^verbatim>\<open>ReadEventsAfter\<close> and
  \<^verbatim>\<open>LastAuctionReveal\<close>. The locale \<^verbatim>\<open>stream_source\<close> says what the loop needs of the fetch
  function; \<^verbatim>\<open>XRANGE\<close> on the log of an auction is its instance.
\<close>

section \<open>Stream ids as text\<close>

definition id_str :: "int \<times> int \<Rightarrow> string" where
  "id_str i = FormatInt (fst i) @ ''-'' @ FormatInt (snd i)"

definition streamRangeStart :: "string \<Rightarrow> string" where
  "streamRangeStart lastID =
     (if lastID = [] then ''-''
      else (let l = TrimPrefix lastID ''(''
            in if \<not> Contains l (CHR ''-'') then l @ ''-0'' else l))"

definition streamIDSeq :: "string \<Rightarrow> int" where
  "streamIDSeq s = parseInt (before (CHR ''-'') (TrimPrefix s ''(''))"

text \<open>An id above zero is text without brackets or a sign.\<close>

lemma FormatInt_nonneg_chars: "0 \<le> q \<Longrightarrow> CHR ''-'' \<notin> set (FormatInt q)"
  using show_nonneg_chars [of q "CHR ''-''"] by (simp add: FormatInt_def is_digit_def digit_of_def)

lemma id_str_no_bracket: "0 \<le> fst i \<Longrightarrow> TrimPrefix (id_str i) ''('' = id_str i"
proof -
  assume "0 \<le> fst i"
  have "CHR ''('' \<notin> set (FormatInt (fst i))" by (rule FormatInt_chars) (simp_all add: is_digit_def digit_of_def)
  then have "hd (FormatInt (fst i)) \<noteq> CHR ''(''" by (metis FormatInt_ne hd_in_set)
  then show ?thesis
    by (cases "FormatInt (fst i)") (auto simp: TrimPrefix_def HasPrefix_def id_str_def)
qed

lemma streamIDSeq_id_str: "0 \<le> fst i \<Longrightarrow> int64 (fst i) \<Longrightarrow> streamIDSeq (id_str i) = fst i"
  using id_str_no_bracket [of i] before_append [OF FormatInt_nonneg_chars [of "fst i"]]
  by (simp add: streamIDSeq_def) (simp add: id_str_def)

lemma streamRangeStart_id_str: "0 \<le> fst i \<Longrightarrow> streamRangeStart (id_str i) = id_str i"
  using id_str_no_bracket [of i]
  by (simp add: streamRangeStart_def Contains_def) (simp add: id_str_def)

section \<open>The paging loop\<close>

record StreamEvent =
  ev_ID :: string
  ev_Seq :: int
  ev_Type :: msg_type
  ev_Payload :: json

definition event_of :: "entry \<Rightarrow> StreamEvent" where
  "event_of m = \<lparr>ev_ID = id_str (e_id m), ev_Seq = e_seq m, ev_Type = e_type m, ev_Payload = e_payload m\<rparr>"

text \<open>One chunk: emit what is new; the state is the output, the last id and the last
  sequence number.\<close>

fun emit_chunk :: "entry list \<Rightarrow> StreamEvent list \<times> string \<times> int \<Rightarrow> StreamEvent list \<times> string \<times> int" where
  "emit_chunk [] s = s"
| "emit_chunk (m # ms) (out, newLast, lastSeq) =
     (if lastSeq > 0 \<and> e_seq m \<le> lastSeq then emit_chunk ms (out, newLast, lastSeq)
      else emit_chunk ms (out @ [event_of m], id_str (e_id m), max lastSeq (e_seq m)))"

datatype 'a collected = OutOfFuel | FetchError | Collected 'a string

fun collect_loop ::
  "nat \<Rightarrow> int \<Rightarrow> (string \<Rightarrow> int \<Rightarrow> entry list option) \<Rightarrow> string
   \<Rightarrow> StreamEvent list \<times> string \<times> int \<Rightarrow> StreamEvent list collected" where
  "collect_loop 0 chunk fetch cursor s = OutOfFuel"
| "collect_loop (Suc n) chunk fetch cursor s =
     (case fetch cursor chunk of
        None \<Rightarrow> FetchError
      | Some msgs \<Rightarrow>
          (if msgs = [] then Collected (fst s) (fst (snd s))
           else (let s' = emit_chunk msgs s
                 in if int (length msgs) < chunk \<or> length (fst s') = length (fst s)
                    then Collected (fst s') (fst (snd s'))
                    else collect_loop n chunk fetch (streamRangeStart (id_str (e_id (last msgs)))) s')))"

definition collectStreamEvents ::
  "nat \<Rightarrow> string \<Rightarrow> int \<Rightarrow> (string \<Rightarrow> int \<Rightarrow> entry list option) \<Rightarrow> StreamEvent list collected" where
  "collectStreamEvents fuel lastID chunk fetch =
     collect_loop fuel (if chunk < 2 then 2 else chunk) fetch (streamRangeStart lastID)
       ([], lastID, streamIDSeq lastID)"

section \<open>What the loop needs of the fetch function\<close>

text \<open>In a readable state \<open>s\<close> the log is gap-free; fetching from the start, or inclusively
  from an id of the log, yields the next entries in order, as many as asked for.\<close>

locale stream_source =
  fixes fetch :: "'s \<Rightarrow> string \<Rightarrow> int \<Rightarrow> entry list option" and log :: "'s \<Rightarrow> entry list"
    and readable :: "'s \<Rightarrow> bool"
  assumes ordered: "readable s \<Longrightarrow> log_ok (log s)"
    and small: "readable s \<Longrightarrow> int (length (log s)) < 2 ^ 63"
    and from_start: "readable s \<Longrightarrow> fetch s ''-'' n = Some (take (nat n) (log s))"
    and from_id: "readable s \<Longrightarrow> 1 \<le> i \<Longrightarrow> i \<le> int (length (log s)) \<Longrightarrow>
      fetch s (id_str (i, 0)) n = Some (take (nat n) (drop (nat i - 1) (log s)))"
begin

lemma seqs: "readable s \<Longrightarrow> i < length (log s) \<Longrightarrow> e_seq (log s ! i) = int i + 1"
  by (rule log_ok_nth_seq [OF ordered])

lemma ids: "readable s \<Longrightarrow> i < length (log s) \<Longrightarrow> e_id (log s ! i) = (int i + 1, 0)"
  by (rule log_ok_nth_id [OF ordered])

lemma drop_cons: "p < length (log s) \<Longrightarrow> drop p (log s) = log s ! p # drop (Suc p) (log s)"
  by (rule Cons_nth_drop_Suc [symmetric])

text \<open>Everything after position \<open>p\<close> is emitted when \<open>p\<close> events have been seen.\<close>

lemma emit_new:
  assumes r: "readable s" and "p + k \<le> length (log s)"
  shows "emit_chunk (take k (drop p (log s))) (out, nl, int p) =
    (out @ map event_of (take k (drop p (log s))),
     (if k = 0 then nl else id_str (int (p + k), 0)), int (p + k))"
  using assms(2)
proof (induction k arbitrary: p out nl)
  case (Suc k)
  then have p: "p < length (log s)" by simp
  have "take (Suc k) (drop p (log s)) = log s ! p # take k (drop (Suc p) (log s))" by (simp add: drop_cons p)
  then show ?case
    using Suc.IH [of "Suc p" "out @ [event_of (log s ! p)]" "id_str (int p + 1, 0)"] Suc.prems
    by (simp add: seqs [OF r] ids [OF r] p ac_simps)
qed simp

text \<open>A page that starts at the last event seen skips that event.\<close>

lemma emit_overlap:
  assumes r: "readable s" and "1 \<le> p" "p + k \<le> length (log s)"
  shows "emit_chunk (take (Suc k) (drop (p - 1) (log s))) (out, nl, int p) =
    (out @ map event_of (take k (drop p (log s))),
     (if k = 0 then nl else id_str (int (p + k), 0)), int (p + k))"
proof -
  have "drop (p - 1) (log s) = log s ! (p - 1) # drop p (log s)"
    using assms drop_cons [of "p - 1" s] by simp
  then show ?thesis
    using assms emit_new [OF r assms(3)] by (simp add: seqs [OF r])
qed

definition tip :: "'s \<Rightarrow> nat \<Rightarrow> string \<Rightarrow> string" where
  "tip s p nl = (if p < length (log s) then id_str (int (length (log s)), 0) else nl)"

lemma loop_from_id:
  assumes r: "readable s" and "1 \<le> p" "p \<le> length (log s)" "2 \<le> chunk" "length (log s) - p < fuel"
  shows "collect_loop fuel chunk (fetch s) (id_str (int p, 0)) (out, nl, int p) =
    Collected (out @ map event_of (drop p (log s))) (tip s p nl)"
  using assms(2-5)
proof (induction fuel arbitrary: p out nl)
  case (Suc fuel)
  define k where "k = min (nat chunk - 1) (length (log s) - p)"
  let ?page = "take (Suc k) (drop (p - 1) (log s))"
  have k: "p + k \<le> length (log s)" using Suc.prems(2) by (simp add: k_def)
  have lenp: "length ?page = Suc k" using k Suc.prems(1) by simp
  have page: "take (nat chunk) (drop (p - 1) (log s)) = ?page"
  proof (cases "nat chunk - 1 \<le> length (log s) - p")
    case True
    then show ?thesis using Suc.prems(3) by (simp add: k_def)
  next
    case False
    then have "k = length (log s) - p" by (simp add: k_def)
    then show ?thesis using False Suc.prems(1) by simp
  qed
  have got: "fetch s (id_str (int p, 0)) chunk = Some ?page"
    using from_id [OF r, of "int p" chunk] Suc.prems(1,2) page by simp
  note em = emit_overlap [OF r Suc.prems(1) k, of out nl]
  have ne: "?page \<noteq> []" using lenp by (metis length_0_conv nat.distinct(1))
  show ?case
  proof (cases "int (Suc k) < chunk")
    case True
    then have "k = length (log s) - p" by (auto simp: k_def)
    then show ?thesis
      using True em got ne lenp by (auto simp: tip_def)
  next
    case False
    then have kc: "int (Suc k) = chunk" using Suc.prems(3) by (auto simp: k_def)
    then have pos: "0 < k" using Suc.prems(3) by simp
    have "last ?page = log s ! (p - 1 + k)"
      using lenp k Suc.prems(1) ne by (simp add: last_conv_nth del: take_Suc_Cons)
    then have lst: "id_str (e_id (last ?page)) = id_str (int (p + k), 0)"
      using ids [OF r, of "p - 1 + k"] k Suc.prems(1) by (simp add: of_nat_diff)
    have "collect_loop fuel chunk (fetch s) (id_str (int (p + k), 0))
        (out @ map event_of (take k (drop p (log s))), id_str (int (p + k), 0), int (p + k)) =
      Collected ((out @ map event_of (take k (drop p (log s)))) @ map event_of (drop (p + k) (log s)))
        (tip s (p + k) (id_str (int (p + k), 0)))"
      using Suc.prems k pos by (intro Suc.IH) auto
    moreover have "take k (drop p (log s)) @ drop (p + k) (log s) = drop p (log s)"
      by (metis add.commute append_take_drop_id drop_drop)
    then have "map event_of (take k (drop p (log s))) @ map event_of (drop (p + k) (log s)) = map event_of (drop p (log s))"
      by (metis map_append)
    moreover have "tip s (p + k) (id_str (int (p + k), 0)) = tip s p nl"
      using k pos by (auto simp: tip_def) (metis of_nat_add)
    moreover have "length (take k (drop p (log s))) = k" using k by simp
    ultimately show ?thesis
      using False kc em got ne lenp pos streamRangeStart_id_str [of "(int (p + k), 0)"]
      by (simp add: Let_def lst [unfolded One_nat_def] del: take_Suc_Cons)
  qed
qed simp

text \<open>From the beginning: the first page is new as a whole.\<close>

lemma loop_from_start:
  assumes r: "readable s" and "2 \<le> chunk" "length (log s) < fuel"
  shows "collect_loop fuel chunk (fetch s) ''-'' ([], nl, 0) = Collected (map event_of (log s)) (tip s 0 nl)"
proof -
  obtain f where fuel: "fuel = Suc f" using assms(3) by (cases fuel) auto
  define k where "k = min (nat chunk) (length (log s))"
  have page: "fetch s ''-'' chunk = Some (take k (log s))"
    by (simp add: from_start [OF r] k_def min_def)
  have kl: "k \<le> length (log s)" by (simp add: k_def)
  have em: "emit_chunk (take k (log s)) ([], nl, 0) =
      (map event_of (take k (log s)), (if k = 0 then nl else id_str (int k, 0)), int k)"
    using emit_new [OF r, of 0 k "[]" nl] kl by simp
  show ?thesis
  proof (cases "log s = []")
    case True
    then show ?thesis using page by (simp add: fuel k_def tip_def)
  next
    case ne: False
    then have pos: "0 < k" using assms(2) by (simp add: k_def)
    then have pne: "take k (log s) \<noteq> []" using ne by simp
    show ?thesis
    proof (cases "int k < chunk")
      case True
      then have "k = length (log s)" by (auto simp: k_def)
      then show ?thesis using True page em pne ne by (simp add: fuel tip_def)
    next
      case False
      then have kc: "int k = chunk" using assms(2) by (auto simp: k_def)
      have "last (take k (log s)) = log s ! (k - 1)" using pos kl pne by (simp add: last_conv_nth)
      then have lst: "id_str (e_id (last (take k (log s)))) = id_str (int k, 0)"
        using ids [OF r, of "k - 1"] pos kl by (simp add: of_nat_diff)
      have "collect_loop f chunk (fetch s) (id_str (int k, 0)) (map event_of (take k (log s)), id_str (int k, 0), int k) =
        Collected (map event_of (take k (log s)) @ map event_of (drop k (log s))) (tip s k (id_str (int k, 0)))"
        using assms pos kl fuel by (intro loop_from_id [OF r]) auto
      moreover have "map event_of (take k (log s)) @ map event_of (drop k (log s)) = map event_of (log s)"
        by (metis append_take_drop_id map_append)
      moreover have "tip s k (id_str (int k, 0)) = tip s 0 nl"
        using kl pos ne by (auto simp: tip_def)
      ultimately show ?thesis
        using page em pne kc ne pos kl streamRangeStart_id_str [of "(int k, 0)"]
        by (simp add: fuel Let_def lst)
    qed
  qed
qed

text \<open>All events above the position asked for, in order, once each.\<close>

lemma collect_all:
  assumes r: "readable s" and "length (log s) < fuel"
  shows "collectStreamEvents fuel [] chunk (fetch s) = Collected (map event_of (log s)) (tip s 0 [])"
  using loop_from_start [OF r, of "if chunk < 2 then 2 else chunk" fuel "[]"] assms
  by (simp add: collectStreamEvents_def streamRangeStart_def streamIDSeq_def TrimPrefix_def
      HasPrefix_def before_def parseInt_def)

lemma collect_after:
  assumes r: "readable s" and "length (log s) < fuel" "1 \<le> p" "p \<le> length (log s)"
  shows "collectStreamEvents fuel (id_str (int p, 0)) chunk (fetch s) =
    Collected (map event_of (drop p (log s))) (tip s p (id_str (int p, 0)))"
proof -
  have "int64 (int p)" using small [OF r] assms(4) by (simp add: int64_def)
  then show ?thesis
    using loop_from_id [OF r, of p "if chunk < 2 then 2 else chunk" fuel "[]" "id_str (int p, 0)"] assms
      streamRangeStart_id_str [of "(int p, 0)"] streamIDSeq_id_str [of "(int p, 0)"]
    by (simp add: collectStreamEvents_def)
qed

end

section \<open>Redis ranges on the log\<close>

text \<open>\<^verbatim>\<open>XRANGE key start + COUNT n\<close>; the start is \<^verbatim>\<open>-\<close> or an id, inclusive.\<close>

definition range_id :: "string \<Rightarrow> int \<times> int" where
  "range_id s = (parseInt (before (CHR ''-'') s),
                 parseInt (drop (Suc (length (before (CHR ''-'') s))) s))"

definition XRangeN :: "entry list \<Rightarrow> string \<Rightarrow> int \<Rightarrow> entry list" where
  "XRangeN es start n =
     take (nat n) (if start = ''-'' then es else filter (\<lambda>e. \<not> id_less (e_id e) (range_id start)) es)"

definition readEventsChunk :: int where
  "readEventsChunk = 1000"

lemma range_id_id_str: "0 \<le> a \<Longrightarrow> int64 a \<Longrightarrow> int64 b \<Longrightarrow> range_id (id_str (a, b)) = (a, b)"
  using before_append [OF FormatInt_nonneg_chars [of a], of "FormatInt b"]
  by (simp add: range_id_def id_str_def)

lemma filter_from: "log_ok es \<Longrightarrow> 1 \<le> i \<Longrightarrow>
    filter (\<lambda>e. \<not> id_less (e_id e) (i, 0)) es = drop (nat i - 1) es"
proof (induction es rule: rev_induct)
  case (snoc e es)
  then have "log_ok es" using log_ok_prefix by blast
  moreover have "e_id e = (int (length es) + 1, 0)"
    using log_ok_nth_id [OF snoc.prems(1), of "length es"] by simp
  ultimately show ?case
    using snoc by (auto simp: id_less_def)
qed simp

definition readable :: "akeys \<Rightarrow> bool" where
  "readable k \<longleftrightarrow> room_inv k \<and> \<not> bad_type (k_events k) \<and> int (length (events_of k)) < 2 ^ 62"

definition xrange_fetch :: "akeys \<Rightarrow> string \<Rightarrow> int \<Rightarrow> entry list option" where
  "xrange_fetch k start n =
     (if bad_type (k_events k) then None else Some (XRangeN (events_of k) start n))"

definition ReadEventsAfter :: "nat \<Rightarrow> string \<Rightarrow> akeys \<Rightarrow> StreamEvent list collected" where
  "ReadEventsAfter fuel lastID k = collectStreamEvents fuel lastID readEventsChunk (xrange_fetch k)"

interpretation xrange: stream_source xrange_fetch "\<lambda>k. slot_get [] (k_events k)" readable
proof unfold_locales
  fix k
  assume r: "readable k"
  then have log: "log_ok (events_of k)" and ty: "\<not> bad_type (k_events k)"
    and len: "int (length (events_of k)) < 2 ^ 62"
    by (auto simp: readable_def dest: room_invD(1))
  show "log_ok (events_of k)" by (rule log)
  show "int (length (events_of k)) < 2 ^ 63" using len by simp
  fix n :: int
  show "xrange_fetch k ''-'' n = Some (take (nat n) (events_of k))"
    using ty by (simp add: XRangeN_def xrange_fetch_def)
  fix i :: int
  assume i: "1 \<le> i" "i \<le> int (length (events_of k))"
  have "id_str (i, 0) \<noteq> ''-''"
    using FormatInt_nonneg_chars [of i] i by (cases "FormatInt i") (auto simp: id_str_def)
  moreover have "range_id (id_str (i, 0)) = (i, 0)"
    using i len by (intro range_id_id_str) (auto simp: int64_def)
  ultimately show "xrange_fetch k (id_str (i, 0)) n = Some (take (nat n) (drop (nat i - 1) (events_of k)))"
    using ty filter_from [OF log i(1)] by (simp add: XRangeN_def xrange_fetch_def)
qed

text \<open>From \<^verbatim>\<open>0-0\<close>, below every id, the loop reads what it reads from the start; so reading after
  the \<open>p\<close>-th event works for every \<open>p\<close>.\<close>

lemma fetch_zero:
  assumes "log_ok (events_of k)"
  shows "xrange_fetch k ''0-0'' n = xrange_fetch k ''-'' n"
proof -
  have z: "''0-0'' = id_str (0, 0)" by code_simp
  have "range_id ''0-0'' = (0, 0)" unfolding z by (rule range_id_id_str) (auto simp: int64_def)
  moreover have "\<not> id_less (e_id e) (0, 0)" if "e \<in> set (events_of k)" for e
    using that log_ok_nth_id [OF assms] by (auto simp: in_set_conv_nth id_less_def)
  ultimately show ?thesis by (simp add: xrange_fetch_def XRangeN_def)
qed

lemma collect_loop_cursor:
  "fetch c chunk = fetch c' chunk \<Longrightarrow> collect_loop n chunk fetch c s = collect_loop n chunk fetch c' s"
  by (cases n) simp_all

lemma ReadEventsAfter_seq:
  assumes r: "readable k" and fuel: "length (events_of k) < fuel" and p: "p \<le> length (events_of k)"
  shows "\<exists>nl. ReadEventsAfter fuel (id_str (int p, 0)) k = Collected (map event_of (drop p (events_of k))) nl"
proof (cases "p = 0")
  case False
  then show ?thesis using xrange.collect_after [OF r fuel _ p] by (simp add: ReadEventsAfter_def)
next
  case True
  have log: "log_ok (events_of k)" using r by (auto simp: readable_def dest: room_invD(1))
  have z: "id_str (0, 0) = ''0-0''" by code_simp
  have "streamRangeStart ''0-0'' = ''0-0''" "streamIDSeq ''0-0'' = 0" by code_simp+
  then show ?thesis
    using xrange.loop_from_start [OF r _ fuel, of readEventsChunk "''0-0''"] True
      collect_loop_cursor [of "xrange_fetch k" "''0-0''" readEventsChunk "''-''" fuel, OF fetch_zero [OF log]]
    by (simp add: ReadEventsAfter_def collectStreamEvents_def z readEventsChunk_def)
qed

section \<open>The last reveal\<close>

text \<open>\<^verbatim>\<open>LastAuctionReveal\<close>: newest first among the last 64 entries, then the whole stream.
  The decoding error and \<^verbatim>\<open>ErrNotFound\<close> are kept apart.\<close>

datatype 'a found = Found 'a | NotFound | DecodeError | ReadError

fun newest_reveal :: "(msg_type \<times> json) list \<Rightarrow> AuctionRevealedData found" where
  "newest_reveal [] = NotFound"
| "newest_reveal ((t, p) # ms) =
     (if t \<noteq> AUCTION_REVEALED then newest_reveal ms
      else (case decode_reveal p of None \<Rightarrow> DecodeError | Some d \<Rightarrow> Found d))"

definition LastAuctionReveal :: "nat \<Rightarrow> akeys \<Rightarrow> AuctionRevealedData found" where
  "LastAuctionReveal fuel k =
     (if bad_type (k_events k) then ReadError
      else (case newest_reveal (map (\<lambda>e. (e_type e, e_payload e)) (take 64 (rev (events_of k)))) of
              NotFound \<Rightarrow>
                (case ReadEventsAfter fuel [] k of
                   Collected evs l \<Rightarrow> newest_reveal (map (\<lambda>e. (ev_Type e, ev_Payload e)) (rev evs))
                 | _ \<Rightarrow> ReadError)
            | r \<Rightarrow> r))"

lemma newest_reveal_append:
  "newest_reveal (xs @ ys) = (case newest_reveal xs of NotFound \<Rightarrow> newest_reveal ys | r \<Rightarrow> r)"
  by (induction xs rule: newest_reveal.induct) (auto split: option.splits)

text \<open>The window of 64 is a shortcut only: the result is the newest reveal of the log.\<close>

lemma LastAuctionReveal_all:
  assumes "readable k" "length (events_of k) < fuel"
  shows "LastAuctionReveal fuel k =
    newest_reveal (map (\<lambda>e. (e_type e, e_payload e)) (rev (events_of k)))"
proof -
  let ?f = "\<lambda>e. (e_type e, e_payload e)"
  have "rev (events_of k) = take 64 (rev (events_of k)) @ drop 64 (rev (events_of k))" by simp
  then have split: "newest_reveal (map ?f (rev (events_of k))) =
      (case newest_reveal (map ?f (take 64 (rev (events_of k)))) of
         NotFound \<Rightarrow> newest_reveal (map ?f (drop 64 (rev (events_of k)))) | r \<Rightarrow> r)"
    by (metis map_append newest_reveal_append)
  have "ReadEventsAfter fuel [] k = Collected (map event_of (events_of k)) (xrange.tip k 0 [])"
    unfolding ReadEventsAfter_def using assms by (rule xrange.collect_all)
  moreover have "\<not> bad_type (k_events k)" using assms(1) by (simp add: readable_def)
  moreover have "map (\<lambda>e. (ev_Type e, ev_Payload e)) (rev (map event_of (events_of k))) = map ?f (rev (events_of k))"
    by (simp add: rev_map comp_def event_of_def)
  ultimately show ?thesis
    by (auto simp: LastAuctionReveal_def split split: found.splits)
qed

end
