(* ===== verification/Store.thy ===== *)
theory Store
  imports Ascending StreamRead
begin

text \<open>
  \<^verbatim>\<open>internal/store/store.go\<close>: the Go side of the scripts. A call to Redis can be answered,
  can fail before it runs, or can run and lose its answer; every operation below takes
  the fate of its calls as an argument and returns an error value for the last two.
\<close>

section \<open>Calls\<close>

datatype link = Answered | Unreachable | ReplyLost

datatype 'a io = IOErr | IOk 'a

record redis =
  rd_keys :: "aid \<Rightarrow> akeys"
  rd_active :: zset

definition put_keys :: "aid \<Rightarrow> akeys \<Rightarrow> redis \<Rightarrow> redis" where
  "put_keys aid k r = r\<lparr>rd_keys := (rd_keys r)(aid := k)\<rparr>"

text \<open>\<^verbatim>\<open>Store.eval\<close>: the code and the remaining values of the reply. No script returns an
  empty list, and one that stopped on a failed command is an error.\<close>

definition eval :: "link \<Rightarrow> aid \<Rightarrow> (akeys \<Rightarrow> reply \<times> akeys) \<Rightarrow> redis \<Rightarrow> (code \<times> rval list) io \<times> redis" where
  "eval l aid script r =
     (if l = Unreachable then (IOErr, r)
      else (let (rep, k) = script (rd_keys r aid); r' = put_keys aid k r
            in (case rep of
                  ScriptErr \<Rightarrow> (IOErr, r')
                | Reply c vs \<Rightarrow> (if l = ReplyLost then IOErr else IOk (c, vs), r'))))"

fun luaStr :: "rval \<Rightarrow> string" where
  "luaStr (RStr s) = s"
| "luaStr _ = []"

fun luaJson :: "rval \<Rightarrow> json" where
  "luaJson (RJson j) = j"
| "luaJson _ = JBad"

fun luaInt :: "rval \<Rightarrow> int" where
  "luaInt (RInt n) = n"
| "luaInt (RStr s) = parseInt s"
| "luaInt _ = 0"

section \<open>Lifecycle calls\<close>

fun io_code :: "(code \<times> rval list) io \<Rightarrow> code io" where
  "io_code IOErr = IOErr"
| "io_code (IOk (c, vs)) = IOk c"

definition FreezeRules :: "link \<Rightarrow> int \<times> int \<Rightarrow> aid \<Rightarrow> uid \<Rightarrow> Rules \<Rightarrow> redis \<Rightarrow> code io \<times> redis" where
  "FreezeRules l t aid sellerID rules r =
     (let (a, r') = eval l aid (freeze_rules \<lparr>fr_rules = rules, fr_sellerId = sellerID\<rparr> t) r
      in (io_code a, r'))"

definition TrackActive :: "link \<Rightarrow> aid \<Rightarrow> int \<Rightarrow> redis \<Rightarrow> unit io \<times> redis" where
  "TrackActive l aid endAtMs r =
     (if l = Unreachable then (IOErr, r)
      else (if l = ReplyLost then IOErr else IOk (), r\<lparr>rd_active := zadd aid endAtMs (rd_active r)\<rparr>))"

definition UntrackActive :: "link \<Rightarrow> aid \<Rightarrow> redis \<Rightarrow> unit io \<times> redis" where
  "UntrackActive l aid r =
     (if l = Unreachable then (IOErr, r)
      else (if l = ReplyLost then IOErr else IOk (), r\<lparr>rd_active := zrem aid (rd_active r)\<rparr>))"

text \<open>\<^verbatim>\<open>StartAuction\<close>: a failure to register the auction with the timer does not fail the
  start.\<close>

definition StartAuction :: "link \<Rightarrow> link \<Rightarrow> int \<times> int \<Rightarrow> aid \<Rightarrow> int \<Rightarrow> redis \<Rightarrow> (code \<times> int) io \<times> redis" where
  "StartAuction l1 l2 t aid durationMs r =
     (case eval l1 aid (start_auction durationMs t) r of
        (IOErr, r1) \<Rightarrow> (IOErr, r1)
      | (IOk (c, vs), r1) \<Rightarrow>
          (if c = OK_LIVE
           then (let endAtMs = luaInt (hd vs)
                 in (IOk (c, endAtMs), snd (TrackActive l2 aid endAtMs r1)))
           else (IOk (c, 0), r1)))"

text \<open>Ascending by score, as \<^verbatim>\<open>ZRANGEBYSCORE -inf now\<close> returns them.\<close>

definition DueAuctions :: "link \<Rightarrow> int \<Rightarrow> redis \<Rightarrow> aid list io" where
  "DueAuctions l nowMs r =
     (if l \<noteq> Answered then IOErr
      else IOk (map fst (rev (filter (\<lambda>x. snd x \<le> nowMs) (rd_active r)))))"

definition RedisNowMs :: "link \<Rightarrow> int \<times> int \<Rightarrow> int io" where
  "RedisNowMs l t = (if l \<noteq> Answered then IOErr else IOk (redis_now t))"

definition CancelAuction :: "link \<Rightarrow> int \<times> int \<Rightarrow> aid \<Rightarrow> uid \<Rightarrow> redis \<Rightarrow> code io \<times> redis" where
  "CancelAuction l t aid callerID r =
     (let (a, r') = eval l aid (cancel_auction callerID t) r in (io_code a, r'))"

section \<open>The hammer\<close>

definition close_script :: "mode \<Rightarrow> int \<times> int \<Rightarrow> akeys \<Rightarrow> reply \<times> akeys" where
  "close_script m t =
     (case NormalizeMode m of
        SEALED_FIRST \<Rightarrow> close_auction_sealed FIRST t
      | VICKREY \<Rightarrow> close_auction_sealed SECOND t
      | ALL_PAY \<Rightarrow> close_auction_allpay () t
      | _ \<Rightarrow> close_auction () t)"

text \<open>\<^verbatim>\<open>CloseAuctionDetailed\<close>: code, reason and deadline. The mode comes from the state hash;
  a failed read is an error, a missing field is ENGLISH.\<close>

definition CloseAuctionDetailed ::
  "link \<Rightarrow> link \<Rightarrow> int \<times> int \<Rightarrow> aid \<Rightarrow> redis \<Rightarrow> (code \<times> string \<times> int) io \<times> redis" where
  "CloseAuctionDetailed l1 l2 t aid r =
     (if l1 \<noteq> Answered then (IOErr, r)
      else if bad_type (k_state (rd_keys r aid)) then (IOk (ERR_INTERNAL, ''key_type'', 0), r)
      else (case eval l2 aid (close_script (h_mode (hash_of (rd_keys r aid))) t) r of
              (IOErr, r') \<Rightarrow> (IOErr, r')
            | (IOk (c, vs), r') \<Rightarrow>
                (if c = ERR_NOT_DUE \<and> vs \<noteq> [] then (IOk (c, [], luaInt (hd vs)), r')
                 else if c = ERR_INTERNAL \<and> vs \<noteq> [] then (IOk (c, luaStr (hd vs), 0), r')
                 else (IOk (c, [], 0), r'))))"

definition CloseAuction :: "link \<Rightarrow> link \<Rightarrow> int \<times> int \<Rightarrow> aid \<Rightarrow> redis \<Rightarrow> (code \<times> int) io \<times> redis" where
  "CloseAuction l1 l2 t aid r =
     (case CloseAuctionDetailed l1 l2 t aid r of
        (IOErr, r') \<Rightarrow> (IOErr, r')
      | (IOk (c, reason, e), r') \<Rightarrow> (IOk (c, e), r'))"

section \<open>Bids\<close>

text \<open>The reply of a bid script: code, sequence number and payload; too short a reply is an
  error.\<close>

fun bid_result :: "code set \<Rightarrow> (code \<times> rval list) io \<Rightarrow> (code \<times> int \<times> json option) io" where
  "bid_result oks IOErr = IOErr"
| "bid_result oks (IOk (c, vs)) =
     (if c \<in> oks then
        (case vs of q # p # _ \<Rightarrow> IOk (c, luaInt q, Some (luaJson p)) | _ \<Rightarrow> IOErr)
      else if c = DUPLICATE then
        (case vs of p # _ \<Rightarrow> IOk (c, 0, Some (luaJson p)) | _ \<Rightarrow> IOErr)
      else IOk (c, 0, None))"

definition PlaceBid :: "link \<Rightarrow> int \<times> int \<Rightarrow> aid \<Rightarrow> bid_args \<Rightarrow> redis \<Rightarrow> (code \<times> int \<times> json option) io \<times> redis" where
  "PlaceBid l t aid b r =
     (let (a, r') = eval l aid (place_bid b t) r
      in (bid_result {OK_ACCEPTED, OK_EXTENDED, OK_SOLD} a, r'))"

definition PlaceBidHybrid :: "link \<Rightarrow> int \<times> int \<Rightarrow> aid \<Rightarrow> bid_args \<Rightarrow> redis \<Rightarrow> (code \<times> int \<times> json option) io \<times> redis" where
  "PlaceBidHybrid l t aid b r =
     (let (a, r') = eval l aid (place_bid_hybrid b t) r
      in (bid_result {OK_ACCEPTED, OK_EXTENDED, OK_SOLD} a, r'))"

definition PlaceBidSealed :: "link \<Rightarrow> int \<times> int \<Rightarrow> aid \<Rightarrow> bid_args \<Rightarrow> redis \<Rightarrow> (code \<times> int \<times> json option) io \<times> redis" where
  "PlaceBidSealed l t aid b r =
     (let (a, r') = eval l aid (place_bid_sealed b t) r in (bid_result {OK_ACCEPTED} a, r'))"

section \<open>Reads\<close>

record LeaderEntry =
  le_UserID :: uid
  le_AmountCents :: money

definition rank :: "int \<Rightarrow> zset \<Rightarrow> LeaderEntry list" where
  "rank n z = map (\<lambda>(u, s). \<lparr>le_UserID = u, le_AmountCents = FormatInt s\<rparr>) (take (nat n) z)"

text \<open>\<^verbatim>\<open>Leaderboard\<close>; the second link is the read of status, mode and winner, whose failure
  passes the ranking through.\<close>

definition Leaderboard :: "link \<Rightarrow> link \<Rightarrow> aid \<Rightarrow> int \<Rightarrow> redis \<Rightarrow> LeaderEntry list io" where
  "Leaderboard l1 l2 aid n r =
     (let k = rd_keys r aid; h = hash_of k in
      if l1 \<noteq> Answered \<or> bad_type (k_leaderboard k) then IOErr
      else (let out = rank (if n \<le> 0 then 10 else n) (board_of k) in
        if l2 \<noteq> Answered \<or> bad_type (k_state k) then IOk out
        else if h_status h \<noteq> Some LIVE then IOk out
        else (case NormalizeMode (h_mode h) of
                SEALED_FIRST \<Rightarrow> IOk [] | VICKREY \<Rightarrow> IOk [] | ALL_PAY \<Rightarrow> IOk []
              | HYBRID_REVEAL \<Rightarrow> IOk (filter (\<lambda>e. le_UserID e \<noteq> h_winnerId h) out)
              | _ \<Rightarrow> IOk out)))"

record RoomSnapshotData =
  sn_Status :: "auction_state option"
  sn_CurrentPriceCents :: money
  sn_WinnerID :: uid
  sn_EndAtMs :: int
  sn_Seq :: int
  sn_ViewerCount :: int
  sn_LikeCount :: int
  sn_SimViewerCount :: int
  sn_Rules :: "RoomSnapshotRules option"

definition moneyOrZero :: "money \<Rightarrow> money" where
  "moneyOrZero s = (if s = [] then ''0'' else s)"

definition snapshotRules :: "room_hash \<Rightarrow> RoomSnapshotRules option" where
  "snapshotRules h =
     (if h_startPriceCents h = [] \<and> h_incrementCents h = [] \<and> h_capPriceCents h = [] then None
      else Some
       \<lparr>rs_mode = NormalizeMode (h_mode h),
        rs_stepCents = moneyOrZero (h_incrementCents h),
        rs_capCents = (let c = moneyOrZero (h_capPriceCents h) in if c \<noteq> ''0'' then Some c else None),
        rs_reserveCents = moneyOrZero (h_startPriceCents h),
        rs_maxExtensions = h_maxExtensions h,
        rs_antiSnipeWindowMs = wrap64 (h_extendWindowSec h * 1000)\<rparr>)"

definition snapshot_of :: "room_hash \<Rightarrow> RoomSnapshotData" where
  "snapshot_of h =
     \<lparr>sn_Status = h_status h,
      sn_CurrentPriceCents = (case h_currentPriceCents h of None \<Rightarrow> [] | Some s \<Rightarrow> s),
      sn_WinnerID = h_winnerId h, sn_EndAtMs = h_endAtMs h, sn_Seq = h_seq h,
      sn_ViewerCount = 0, sn_LikeCount = 0, sn_SimViewerCount = 0, sn_Rules = snapshotRules h\<rparr>"

definition Snapshot :: "link \<Rightarrow> aid \<Rightarrow> redis \<Rightarrow> RoomSnapshotData io" where
  "Snapshot l aid r =
     (let k = rd_keys r aid
      in if l \<noteq> Answered \<or> bad_type (k_state k) then IOErr else IOk (snapshot_of (hash_of k)))"

definition StreamLen :: "link \<Rightarrow> aid \<Rightarrow> redis \<Rightarrow> int io" where
  "StreamLen l aid r =
     (let k = rd_keys r aid
      in if l \<noteq> Answered \<or> bad_type (k_events k) then IOErr else IOk (int (length (events_of k))))"

section \<open>The gateway's precheck\<close>

text \<open>\<open>t\<close> is the Redis time of the call.\<close>

definition HasDedupe :: "link \<Rightarrow> int \<times> int \<Rightarrow> aid \<Rightarrow> uid \<Rightarrow> bidid \<Rightarrow> redis \<Rightarrow> bool io" where
  "HasDedupe l t aid u cb r =
     (let k = rd_keys r aid
      in if l \<noteq> Answered \<or> bad_type (k_dedupe k u) then IOErr
         else IOk (d_acks (dedupe_at (redis_now t) k u) cb \<noteq> None))"

record FastPathState =
  IsLive :: bool
  IsPaused :: bool
  IsSellerSelfBid :: bool
  IsDupe :: bool

text \<open>One pipelined read; an error of either command is an error of the whole.\<close>

definition FastPathPrecheck :: "link \<Rightarrow> int \<times> int \<Rightarrow> aid \<Rightarrow> uid \<Rightarrow> bidid \<Rightarrow> redis \<Rightarrow> FastPathState io" where
  "FastPathPrecheck l t aid u cb r =
     (let k = rd_keys r aid; h = hash_of k
      in if l \<noteq> Answered \<or> bad_type (k_state k) \<or> bad_type (k_dedupe k u) then IOErr
         else IOk \<lparr>IsLive = (h_status h = Some LIVE), IsPaused = h_paused h,
                   IsSellerSelfBid = (h_sellerId h \<noteq> [] \<and> h_sellerId h = u),
                   IsDupe = (d_acks (dedupe_at (redis_now t) k u) cb \<noteq> None)\<rparr>)"

section \<open>Timer suppression\<close>

definition MarkTimerErrInternalSuppression ::
  "link \<Rightarrow> aid \<Rightarrow> string \<Rightarrow> int \<Rightarrow> int \<Rightarrow> redis \<Rightarrow> unit io \<times> redis" where
  "MarkTimerErrInternalSuppression l aid reason atMs untilMs r =
     (let k = rd_keys r aid; h = hash_of k;
          h' = (if untilMs \<le> 0
                then h\<lparr>h_suppressUntilMs := 0, h_errInternalReason := [], h_errInternalAtMs := 0\<rparr>
                else h\<lparr>h_suppressUntilMs := untilMs, h_errInternalReason := reason,
                       h_errInternalAtMs := atMs\<rparr>);
          k' = (if untilMs \<le> 0 \<and> k_state k = Absent then k else set_hash h' k)
      in if l = Unreachable \<or> bad_type (k_state k) then (IOErr, r)
         else (if l = ReplyLost then IOErr else IOk (), put_keys aid k' r))"

definition TimerErrInternalSuppression :: "link \<Rightarrow> aid \<Rightarrow> redis \<Rightarrow> (int \<times> string) io" where
  "TimerErrInternalSuppression l aid r =
     (let k = rd_keys r aid; h = hash_of k
      in if l \<noteq> Answered \<or> bad_type (k_state k) then IOErr
         else IOk (h_suppressUntilMs h, h_errInternalReason h))"

lemma same_room_suppression: "room_inv (rd_keys r a) \<Longrightarrow>
    room_inv (rd_keys (snd (MarkTimerErrInternalSuppression l aid reason atMs untilMs r)) a)"
  by (auto simp: MarkTimerErrInternalSuppression_def Let_def put_keys_def set_hash_def room_inv_def
      not_started_def status_terminal_def)

section \<open>Clean-up of load-test keys\<close>

record CleanupResult =
  cl_AuctionIDs :: "aid list"
  cl_Keys :: "string list"

text \<open>\<^verbatim>\<open>CleanupLoadArtifacts\<close> on the key names \<open>scanned\<close> that \<^verbatim>\<open>SCAN\<close> returned for the pattern
  (in any order, with repetitions) and the members of the timer index. The result is what
  would be deleted (\<^verbatim>\<open>DEL\<close>) and untracked (\<^verbatim>\<open>ZREM\<close>); without \<^verbatim>\<open>execute\<close> nothing is.\<close>

definition cleanup_prefix :: "string \<Rightarrow> string" where
  "cleanup_prefix p = (let q = TrimSpace p in if q = [] then ''auc_load_'' else q)"

definition cleanup_plan :: "string \<Rightarrow> string list \<Rightarrow> aid list \<Rightarrow> CleanupResult" where
  "cleanup_plan prefix scanned active =
     (let keys = filter (\<lambda>k. HasPrefix (aidFromAuctionTaggedKey k) prefix) scanned
      in \<lparr>cl_AuctionIDs = sort (remdups (map aidFromAuctionTaggedKey keys
                              @ filter (\<lambda>a. HasPrefix a prefix) active)),
          cl_Keys = sort (remdups keys)\<rparr>)"

definition CleanupLoadArtifacts ::
  "string \<Rightarrow> bool \<Rightarrow> string list \<Rightarrow> aid list \<Rightarrow> (CleanupResult \<times> string list \<times> aid list) option" where
  "CleanupLoadArtifacts p execute scanned active =
     (let prefix = cleanup_prefix p
      in if \<not> HasPrefix prefix ''auc_load_'' then None
         else (let res = cleanup_plan prefix scanned active
               in Some (res, (if execute then cl_Keys res else []),
                        (if execute then cl_AuctionIDs res else []))))"

lemma HasPrefix_trans: "HasPrefix s p \<Longrightarrow> HasPrefix p q \<Longrightarrow> HasPrefix s q"
proof -
  assume s: "HasPrefix s p" and p: "HasPrefix p q"
  have "s = q @ (drop (length q) p @ drop (length p) s)"
    using HasPrefixE [OF s] HasPrefixE [OF p] by (metis append.assoc)
  then show ?thesis by (metis HasPrefix_append)
qed

lemma cleanup_confined:
  assumes "CleanupLoadArtifacts p ex scanned active = Some (res, del, untrack)"
  shows "\<forall>k\<in>set del. HasPrefix (aidFromAuctionTaggedKey k) ''auc_load_''"
    and "\<forall>a\<in>set untrack. HasPrefix a ''auc_load_''"
  using assms
  by (auto simp: CleanupLoadArtifacts_def cleanup_plan_def Let_def split: if_splits
      intro: HasPrefix_trans)

section \<open>What the snapshot shows of frozen rules\<close>

lemma FormatInt_zero: "FormatInt n = ''0'' \<longleftrightarrow> n = 0"
proof -
  have "''0'' = FormatInt 0"
    by code_simp
  then show ?thesis using FormatInt_inject [of n 0] by simp
qed

lemma snapshotRules_frozen:
  "0 \<le> CapPriceCents (fr_rules a) \<Longrightarrow>
   snapshotRules (frozen_hash a h) = Some (RoomSnapshotRules_of (fr_rules a))"
  by (auto simp: snapshotRules_def frozen_hash_def Let_def moneyOrZero_def RoomSnapshotRules_of_def
      FormatInt_zero)

section \<open>The lost answer of a bid\<close>

text \<open>Whatever happened to the first call, a retry with the same client bid id is answered,
  and the bid counts once.\<close>

lemma eval_keys: "rd_keys (snd (eval l aid s r)) aid =
    (if l = Unreachable then rd_keys r aid else snd (s (rd_keys r aid)))"
  by (auto simp: eval_def put_keys_def Let_def split: prod.splits reply.splits)

lemma PlaceBid_keys:
  "PlaceBid Answered t aid b r = (res, r') \<Longrightarrow> rd_keys r' aid = snd (place_bid b t (rd_keys r aid))"
  by (auto simp: PlaceBid_def Let_def eval_def put_keys_def split: prod.splits reply.splits)

lemma eval_other: "a \<noteq> aid \<Longrightarrow> rd_keys (snd (eval l aid s r)) a = rd_keys r a"
  by (auto simp: eval_def put_keys_def Let_def split: prod.splits reply.splits)

end
