(* ===== verification/Db.thy ===== *)
theory Db
  imports EvidenceCache Store
begin

text \<open>
  The relational store of \<^verbatim>\<open>internal/store/storedb.go\<close> apart from the evidence chain: users,
  products, auctions with their rules, orders and the coin ledger. A statement either fails
  without effect (the first argument of an operation is whether the database answers) or
  takes effect. The number of rows an \<^verbatim>\<open>UPDATE\<close> reports is the number of rows it changed, as
  the MySQL driver counts them; a table with an \<^verbatim>\<open>updated_at\<close> column counts a row whose
  time moved.
\<close>

section \<open>Tables\<close>

record user_row =
  us_id :: uid
  us_nickname :: string
  us_role :: string

record product_row =
  pr_id :: string
  pr_seller :: uid
  pr_name :: string
  pr_image :: string
  pr_description :: string

record auction_row =
  ar_id :: aid
  ar_product :: string
  ar_seller :: uid
  ar_status :: auction_state
  ar_price :: int
  ar_winner :: uid
  ar_factsConfirmed :: bool
  ar_facts :: string
  ar_parent :: aid
  ar_created :: int
  ar_updated :: int

datatype order_status = OCreated | OPaid

record order_row =
  or_id :: string
  or_auction :: aid
  or_product :: string
  or_buyer :: uid
  or_amount :: int
  or_status :: order_status

datatype coin_reason = WIN | RUNNER_UP_FORFEIT

record coin_row =
  co_auction :: aid
  co_user :: uid
  co_delta :: int
  co_reason :: coin_reason
  co_seq :: int

record db =
  users :: "user_row list"
  products :: "product_row list"
  auctions :: "auction_row list"
  auction_rules :: "aid \<rightharpoonup> Rules"
  orders :: "order_row list"
  coin_ledger :: "coin_row list"
  auction_events :: "aid \<Rightarrow> event_row list"
  chain_cache :: "aid \<rightharpoonup> cache_row"

text \<open>An \<^verbatim>\<open>UPDATE\<close>: the new rows and how many changed.\<close>

definition update_where :: "('r \<Rightarrow> bool) \<Rightarrow> ('r \<Rightarrow> 'r) \<Rightarrow> 'r list \<Rightarrow> 'r list \<times> nat" where
  "update_where p f rows =
     (map (\<lambda>r. if p r then f r else r) rows, length (filter (\<lambda>r. p r \<and> f r \<noteq> r) rows))"

definition auction_by :: "aid \<Rightarrow> db \<Rightarrow> auction_row option" where
  "auction_by aid d = find (\<lambda>a. ar_id a = aid) (auctions d)"

definition set_auctions :: "(auction_row \<Rightarrow> bool) \<Rightarrow> (auction_row \<Rightarrow> auction_row) \<Rightarrow> db \<Rightarrow> db \<times> nat" where
  "set_auctions p f d = (let (rows, n) = update_where p f (auctions d) in (d\<lparr>auctions := rows\<rparr>, n))"

section \<open>Users and products\<close>

definition UpsertUser :: "bool \<Rightarrow> uid \<Rightarrow> string \<Rightarrow> string \<Rightarrow> db \<Rightarrow> db_err option \<times> db" where
  "UpsertUser up i nickname role d =
     (if \<not> up then (Some DbError, d)
      else (None, d\<lparr>users := (if \<exists>u\<in>set (users d). us_id u = i
              then map (\<lambda>u. if us_id u = i then u\<lparr>us_nickname := nickname, us_role := role\<rparr> else u) (users d)
              else users d @ [\<lparr>us_id = i, us_nickname = nickname, us_role = role\<rparr>])\<rparr>))"

definition UserNickname :: "bool \<Rightarrow> uid \<Rightarrow> db \<Rightarrow> db_err + string" where
  "UserNickname up i d =
     (if \<not> up then Inl DbError
      else Inr (case find (\<lambda>u. us_id u = i) (users d) of None \<Rightarrow> [] | Some u \<Rightarrow> us_nickname u))"

definition UserNicknames :: "bool \<Rightarrow> uid list \<Rightarrow> db \<Rightarrow> db_err + (uid \<rightharpoonup> string)" where
  "UserNicknames up ids d =
     (if ids = [] then Inr Map.empty
      else if \<not> up then Inl DbError
      else Inr (\<lambda>i. if i \<in> set ids then map_option us_nickname (find (\<lambda>u. us_id u = i) (users d)) else None))"

definition CreateProduct :: "bool \<Rightarrow> product_row \<Rightarrow> db \<Rightarrow> db_err option \<times> db" where
  "CreateProduct up p d =
     (if \<not> up \<or> (\<exists>q\<in>set (products d). pr_id q = pr_id p) then (Some DbError, d)
      else (None, d\<lparr>products := products d @ [p]\<rparr>))"

definition GetProduct :: "bool \<Rightarrow> string \<Rightarrow> db \<Rightarrow> db_err + product_row" where
  "GetProduct up i d =
     (if \<not> up then Inl DbError
      else (case find (\<lambda>p. pr_id p = i) (products d) of None \<Rightarrow> Inl ErrNotFound | Some p \<Rightarrow> Inr p))"

section \<open>Auctions\<close>

text \<open>\<^verbatim>\<open>CreateAuction\<close>: one transaction, a row and its rules.\<close>

definition CreateAuction ::
  "bool \<Rightarrow> int \<Rightarrow> aid \<Rightarrow> string \<Rightarrow> uid \<Rightarrow> Rules \<Rightarrow> bool \<Rightarrow> string \<Rightarrow> db \<Rightarrow> db_err option \<times> db" where
  "CreateAuction up now i productID sellerID r factsConfirmed confirmedFacts d =
     (if \<not> up then (Some DbError, d)
      else (case find (\<lambda>p. pr_id p = productID) (products d) of
              None \<Rightarrow> (Some ErrNotFound, d)
            | Some p \<Rightarrow>
                (if pr_seller p \<noteq> sellerID then (Some ErrNotAllowed, d)
                 else if auction_by i d \<noteq> None \<or> auction_rules d i \<noteq> None then (Some DbError, d)
                 else (None, d\<lparr>
                   auctions := auctions d @ [\<lparr>ar_id = i, ar_product = productID, ar_seller = sellerID,
                     ar_status = DRAFT, ar_price = StartPriceCents r, ar_winner = [],
                     ar_factsConfirmed = factsConfirmed, ar_facts = confirmedFacts, ar_parent = [],
                     ar_created = now, ar_updated = now\<rparr>],
                   auction_rules := (auction_rules d)(i \<mapsto> r\<lparr>Mode := NormalizeMode (Mode r)\<rparr>)\<rparr>))))"

definition UpdateConfirmedFacts :: "bool \<Rightarrow> int \<Rightarrow> aid \<Rightarrow> string \<Rightarrow> db \<Rightarrow> db_err option \<times> db" where
  "UpdateConfirmedFacts up now i facts d =
     (if \<not> up then (Some DbError, d)
      else (let (d', n) = set_auctions (\<lambda>a. ar_id a = i)
                  (\<lambda>a. a\<lparr>ar_factsConfirmed := True, ar_facts := facts, ar_updated := now\<rparr>) d
            in (if n = 0 then Some ErrNotFound else None, d')))"

definition GetAuction :: "bool \<Rightarrow> aid \<Rightarrow> db \<Rightarrow> db_err + auction_row" where
  "GetAuction up i d =
     (if \<not> up then Inl DbError
      else (case auction_by i d of None \<Rightarrow> Inl ErrNotFound | Some a \<Rightarrow> Inr a))"

text \<open>The oldest child; rows are in the order of creation.\<close>

definition ChildAuctionByParent :: "bool \<Rightarrow> aid \<Rightarrow> db \<Rightarrow> db_err + auction_row" where
  "ChildAuctionByParent up parentAID d =
     (if \<not> up then Inl DbError
      else (case find (\<lambda>a. ar_parent a = parentAID \<and> ar_parent a \<noteq> []) (auctions d) of
              None \<Rightarrow> Inl ErrNotFound | Some a \<Rightarrow> Inr a))"

definition GetRules :: "bool \<Rightarrow> aid \<Rightarrow> db \<Rightarrow> db_err + Rules" where
  "GetRules up i d =
     (if \<not> up then Inl DbError
      else (case auction_rules d i of None \<Rightarrow> Inl ErrNotFound | Some r \<Rightarrow> Inr r))"

definition UpdateAuctionStatus :: "bool \<Rightarrow> int \<Rightarrow> aid \<Rightarrow> auction_state \<Rightarrow> db \<Rightarrow> db_err option \<times> db" where
  "UpdateAuctionStatus up now i st d =
     (if \<not> up then (Some DbError, d)
      else (None, fst (set_auctions (\<lambda>a. ar_id a = i) (\<lambda>a. a\<lparr>ar_status := st, ar_updated := now\<rparr>) d)))"

definition FinalizeAuctionSold :: "bool \<Rightarrow> int \<Rightarrow> aid \<Rightarrow> uid \<Rightarrow> int \<Rightarrow> db \<Rightarrow> db_err option \<times> db" where
  "FinalizeAuctionSold up now i winner amount d =
     (if \<not> up then (Some DbError, d)
      else (None, fst (set_auctions (\<lambda>a. ar_id a = i)
               (\<lambda>a. a\<lparr>ar_price := amount, ar_winner := winner, ar_updated := now\<rparr>) d)))"

definition SetParentAuction :: "bool \<Rightarrow> int \<Rightarrow> aid \<Rightarrow> aid \<Rightarrow> db \<Rightarrow> db_err option \<times> db" where
  "SetParentAuction up now i parent d =
     (if \<not> up then (Some DbError, d)
      else (None, fst (set_auctions (\<lambda>a. ar_id a = i)
               (\<lambda>a. a\<lparr>ar_parent := parent, ar_updated := now\<rparr>) d)))"

text \<open>\<^verbatim>\<open>UpdateRules\<close>: the rules table has no time column, so writing the stored values again
  changes no row. The second statement's error is ignored (\<open>up2\<close>).\<close>

definition UpdateRules :: "bool \<Rightarrow> bool \<Rightarrow> int \<Rightarrow> aid \<Rightarrow> Rules \<Rightarrow> db \<Rightarrow> db_err option \<times> db" where
  "UpdateRules up up2 now i r d =
     (case Validate r of
        Some e \<Rightarrow> (Some (ErrInvalidRules e), d)
      | None \<Rightarrow>
          (if \<not> up then (Some DbError, d)
           else (let r' = r\<lparr>Mode := NormalizeMode (Mode r)\<rparr> in
             if auction_rules d i = None \<or> auction_rules d i = Some r' then (Some ErrNotFound, d)
             else (let d' = d\<lparr>auction_rules := (auction_rules d)(i \<mapsto> r')\<rparr>
                   in (None, if up2 then fst (set_auctions (\<lambda>a. ar_id a = i \<and> ar_status a \<in> {DRAFT, SCHEDULED})
                          (\<lambda>a. a\<lparr>ar_price := StartPriceCents r, ar_updated := now\<rparr>) d') else d')))))"

definition SetLivePlayURL :: "bool \<Rightarrow> aid \<Rightarrow> string \<Rightarrow> db \<Rightarrow> db_err option \<times> db" where
  "SetLivePlayURL up i url d =
     (if \<not> up then (Some DbError, d)
      else (case auction_rules d i of
              None \<Rightarrow> (Some ErrNotFound, d)
            | Some r \<Rightarrow> (if LivePlayUrl r = url then (Some ErrNotFound, d)
                         else (None, d\<lparr>auction_rules := (auction_rules d)(i \<mapsto> r\<lparr>LivePlayUrl := url\<rparr>)\<rparr>))))"

text \<open>The compare-and-set of the DRAFT cancel.\<close>

definition UpdateAuctionStatusIf ::
  "bool \<Rightarrow> int \<Rightarrow> aid \<Rightarrow> auction_state \<Rightarrow> auction_state \<Rightarrow> db \<Rightarrow> (db_err + bool) \<times> db" where
  "UpdateAuctionStatusIf up now i st expected d =
     (if \<not> up then (Inl DbError, d)
      else (let (d', n) = set_auctions (\<lambda>a. ar_id a = i \<and> ar_status a = expected)
                  (\<lambda>a. a\<lparr>ar_status := st, ar_updated := now\<rparr>) d
            in (Inr (n = 1), d')))"

record AuctionListItem =
  li_ID :: aid
  li_ProductName :: string
  li_ImageURL :: string
  li_Status :: auction_state
  li_CurrentPriceCents :: int
  li_WinnerID :: uid
  li_EndAtMs :: int
  li_CreatedAtMs :: int
  li_Mode :: mode
  li_Parent :: aid
  li_StartPriceCents :: int
  li_IncrementCents :: int
  li_CapPriceCents :: int
  li_BidCount :: int

definition list_limit :: "int \<Rightarrow> int" where
  "list_limit n = (if n \<le> 0 \<or> n > 200 then 100 else n)"

text \<open>No statement writes the \<^verbatim>\<open>end_at\<close> column, so it is \<^verbatim>\<open>NULL\<close>, which reads as 0.\<close>

definition list_item :: "db \<Rightarrow> auction_row \<Rightarrow> AuctionListItem" where
  "list_item d a =
     (let p = find (\<lambda>p. pr_id p = ar_product a) (products d); r = auction_rules d (ar_id a)
      in \<lparr>li_ID = ar_id a,
          li_ProductName = (case p of None \<Rightarrow> [] | Some p \<Rightarrow> pr_name p),
          li_ImageURL = (case p of None \<Rightarrow> [] | Some p \<Rightarrow> pr_image p),
          li_Status = ar_status a, li_CurrentPriceCents = ar_price a, li_WinnerID = ar_winner a,
          li_EndAtMs = 0, li_CreatedAtMs = ar_created a,
          li_Mode = (case r of None \<Rightarrow> ENGLISH | Some r \<Rightarrow> Mode r),
          li_Parent = ar_parent a,
          li_StartPriceCents = (case r of None \<Rightarrow> 0 | Some r \<Rightarrow> StartPriceCents r),
          li_IncrementCents = (case r of None \<Rightarrow> 0 | Some r \<Rightarrow> IncrementCents r),
          li_CapPriceCents = (case r of None \<Rightarrow> 0 | Some r \<Rightarrow> CapPriceCents r),
          li_BidCount = int (length (filter (\<lambda>e. ev_type e = BID_ACCEPTED) (auction_events d (ar_id a))))\<rparr>)"

definition ListAuctions :: "bool \<Rightarrow> int \<Rightarrow> db \<Rightarrow> db_err + AuctionListItem list" where
  "ListAuctions up limit d =
     (if \<not> up then Inl DbError
      else Inr (map (list_item d)
             (take (nat (list_limit limit)) (sort_key (\<lambda>a. - ar_created a) (auctions d)))))"

section \<open>The transition lock\<close>

text \<open>\<^verbatim>\<open>WithAuctionTransitionLock\<close>: the body runs only under the advisory lock; a timeout is an
  error and the body does not run.\<close>

definition WithAuctionTransitionLock :: "bool \<Rightarrow> bool \<Rightarrow> ('s \<Rightarrow> (db_err + 'a) \<times> 's) \<Rightarrow> 's \<Rightarrow> (db_err + 'a) \<times> 's" where
  "WithAuctionTransitionLock up got fn s =
     (if \<not> up then (Inl DbError, s) else if \<not> got then (Inl ErrLockTimeout, s) else fn s)"

section \<open>Deletion\<close>

text \<open>The answer also counts the deleted Redis keys, which is left out here.\<close>

record DeleteAuctionResult =
  dr_Untracked :: bool
  dr_ProductDeleted :: bool

text \<open>The keys under \<^verbatim>\<open>auction:{aid}:\<close>, as \<^verbatim>\<open>SCAN\<close> names them and \<^verbatim>\<open>DEL\<close> removes them.\<close>

datatype auction_key = KState | KLeaderboard | KEvents | KDedupe uid | KSealed | KSealedNames

fun has_key :: "akeys \<Rightarrow> auction_key \<Rightarrow> bool" where
  "has_key k KState \<longleftrightarrow> k_state k \<noteq> Absent"
| "has_key k KLeaderboard \<longleftrightarrow> k_leaderboard k \<noteq> Absent"
| "has_key k KEvents \<longleftrightarrow> k_events k \<noteq> Absent"
| "has_key k (KDedupe u) \<longleftrightarrow> k_dedupe k u \<noteq> Absent"
| "has_key k KSealed \<longleftrightarrow> k_sealed k \<noteq> Absent"
| "has_key k KSealedNames \<longleftrightarrow> k_sealednames k \<noteq> Absent"

fun del_key :: "auction_key \<Rightarrow> akeys \<Rightarrow> akeys" where
  "del_key KState k = k\<lparr>k_state := Absent\<rparr>"
| "del_key KLeaderboard k = k\<lparr>k_leaderboard := Absent\<rparr>"
| "del_key KEvents k = k\<lparr>k_events := Absent\<rparr>"
| "del_key (KDedupe u) k = k\<lparr>k_dedupe := (k_dedupe k)(u := Absent)\<rparr>"
| "del_key KSealed k = k\<lparr>k_sealed := Absent\<rparr>"
| "del_key KSealedNames k = k\<lparr>k_sealednames := Absent\<rparr>"

text \<open>What the calls of the purge meet: whether \<^verbatim>\<open>ZREM\<close> and \<^verbatim>\<open>DEL\<close> are answered, and the pages of
  \<^verbatim>\<open>SCAN\<close> up to the cursor 0, \<^term>\<open>None\<close> for one that failed. At most 1000 pages are read; a failed page
  ends the scan and what was seen so far is deleted.\<close>

record purge_calls =
  pc_zrem :: bool
  pc_pages :: "auction_key list option list"
  pc_del :: bool

fun scan_seen :: "auction_key list option list \<Rightarrow> auction_key list" where
  "scan_seen [] = []"
| "scan_seen (None # ps) = []"
| "scan_seen (Some ks # ps) = ks @ scan_seen ps"

definition purge_redis :: "purge_calls \<Rightarrow> aid \<Rightarrow> redis \<Rightarrow> redis" where
  "purge_redis pc aid r =
     (let r1 = (if pc_zrem pc then r\<lparr>rd_active := zrem aid (rd_active r)\<rparr> else r);
          seen = scan_seen (take 1000 (pc_pages pc))
      in if seen \<noteq> [] \<and> pc_del pc
         then r1\<lparr>rd_keys := (rd_keys r1)(aid := fold del_key seen (rd_keys r1 aid))\<rparr> else r1)"

text \<open>\<^verbatim>\<open>DeleteAuction\<close>: gate, Redis purge (whatever becomes of its calls), then the transaction, all
  of it or nothing.\<close>

definition delete_tx :: "aid \<Rightarrow> string \<Rightarrow> db \<Rightarrow> (db_err + bool) \<times> db" where
  "delete_tx aid productID d =
     (let d1 = d\<lparr>orders := filter (\<lambda>x. or_auction x \<noteq> aid) (orders d),
                 coin_ledger := filter (\<lambda>x. co_auction x \<noteq> aid) (coin_ledger d),
                 auction_events := (auction_events d)(aid := []),
                 chain_cache := (chain_cache d)(aid := None),
                 auction_rules := (auction_rules d)(aid := None)\<rparr>;
          gone = (\<lambda>a. ar_id a = aid \<and> IsTerminal (ar_status a))
      in if \<not> (\<exists>a\<in>set (auctions d1). gone a) then (Inl ErrAuctionNotDeletable, d)
         else (let d2 = d1\<lparr>auctions := filter (\<lambda>a. \<not> gone a) (auctions d1)\<rparr>;
                   others = (\<exists>a\<in>set (auctions d2). ar_product a = productID \<and> ar_id a \<noteq> aid)
               in if productID \<noteq> [] \<and> \<not> others
                  then (Inr True, d2\<lparr>products := filter (\<lambda>p. pr_id p \<noteq> productID) (products d2)\<rparr>)
                  else (Inr False, d2)))"

definition DeleteAuction ::
  "bool \<Rightarrow> purge_calls \<Rightarrow> bool \<Rightarrow> aid \<Rightarrow> uid \<Rightarrow> db \<times> redis \<Rightarrow> (db_err + DeleteAuctionResult) \<times> db \<times> redis" where
  "DeleteAuction up pc tx_up aid sellerID s =
     (let (d, r) = s in
      if \<not> up then (Inl DbError, d, r)
      else (case find (\<lambda>a. ar_id a = aid \<and> ar_seller a = sellerID) (auctions d) of
              None \<Rightarrow> (Inl ErrNotFound, d, r)
            | Some a \<Rightarrow>
                (if \<not> IsTerminal (ar_status a) then (Inl ErrAuctionNotDeletable, d, r)
                 else (let r1 = purge_redis pc aid r in
                   if \<not> tx_up then (Inl DbError, d, r1)
                   else (case delete_tx aid (ar_product a) d of
                           (Inl e, d') \<Rightarrow> (Inl e, d', r1)
                         | (Inr pd, d') \<Rightarrow>
                             (Inr \<lparr>dr_Untracked = (pc_zrem pc \<and> zscore (rd_active r) aid \<noteq> None),
                                   dr_ProductDeleted = pd\<rparr>, d', r1))))))"

text \<open>The keys a purge deletes, and nothing else of Redis.\<close>

lemma has_key_del: "has_key (del_key x k) y \<longleftrightarrow> has_key k y \<and> y \<noteq> x"
  by (cases x; cases y) auto

lemma has_key_dels: "has_key (fold del_key xs k) y \<longleftrightarrow> has_key k y \<and> y \<notin> set xs"
  by (induction xs arbitrary: k) (auto simp: has_key_del)

lemma purge_confined:
  assumes "i \<noteq> aid"
  shows "rd_keys (purge_redis pc aid r) i = rd_keys r i"
    "zscore (rd_active (purge_redis pc aid r)) i = zscore (rd_active r) i"
  using assms by (simp_all add: purge_redis_def Let_def zscore_def map_of_zrem)

lemma purge_complete:
  assumes "pc_del pc" "\<forall>x. has_key (rd_keys r aid) x \<longrightarrow> x \<in> set (scan_seen (take 1000 (pc_pages pc)))"
  shows "\<not> has_key (rd_keys (purge_redis pc aid r) aid) x"
proof -
  define seen where "seen = scan_seen (take 1000 (pc_pages pc))"
  have "rd_keys (purge_redis pc aid r) aid = fold del_key seen (rd_keys r aid)"
    using assms(1) by (cases "seen = []") (simp_all add: purge_redis_def Let_def seen_def [symmetric])
  then show ?thesis using assms(2) by (auto simp: has_key_dels seen_def)
qed

section \<open>Orders and coins\<close>

definition order_by :: "aid \<Rightarrow> db \<Rightarrow> order_row option" where
  "order_by aid d = find (\<lambda>x. or_auction x = aid) (orders d)"

definition GetOrder :: "bool \<Rightarrow> aid \<Rightarrow> db \<Rightarrow> db_err + order_row" where
  "GetOrder up aid d =
     (if \<not> up then Inl DbError
      else (case order_by aid d of None \<Rightarrow> Inl ErrNotFound | Some x \<Rightarrow> Inr x))"

definition CreateOrderFromSold :: "bool \<Rightarrow> aid \<Rightarrow> json \<Rightarrow> db \<Rightarrow> db_err option \<times> db" where
  "CreateOrderFromSold up aid payload d =
     (case decode_sold payload of
        None \<Rightarrow> (Some ErrPermanentOrderProjection, d)
      | Some p \<Rightarrow>
          (if sold_winnerId p = [] then (Some ErrPermanentOrderProjection, d)
           else (case ParseInt (sold_amountCents p) of
                   POk amount \<Rightarrow>
                     (if \<not> up then (Some DbError, d)
                      else (case auction_by aid d of
                              None \<Rightarrow> (Some ErrPermanentOrderProjection, d)
                            | Some a \<Rightarrow>
                                (case order_by aid d of
                                   None \<Rightarrow> (None, d\<lparr>orders := orders d @
                                     [\<lparr>or_id = ''ord_'' @ aid, or_auction = aid, or_product = ar_product a,
                                       or_buyer = sold_winnerId p, or_amount = amount, or_status = OCreated\<rparr>]\<rparr>)
                                 | Some x \<Rightarrow>
                                     (if or_product x \<noteq> ar_product a \<or> or_buyer x \<noteq> sold_winnerId p
                                         \<or> or_amount x \<noteq> amount \<or> or_status x \<noteq> OCreated
                                      then (Some ErrOrderProjectionMismatch, d) else (None, d)))))
                 | _ \<Rightarrow> (Some ErrPermanentOrderProjection, d))))"

definition PayOrder :: "bool \<Rightarrow> aid \<Rightarrow> db \<Rightarrow> (db_err + order_row) \<times> db" where
  "PayOrder up aid d =
     (if \<not> up then (Inl DbError, d)
      else (let d' = d\<lparr>orders := fst (update_where (\<lambda>x. or_auction x = aid \<and> or_status x = OCreated)
                    (\<lambda>x. x\<lparr>or_status := OPaid\<rparr>) (orders d))\<rparr>
            in (GetOrder True aid d', d')))"

text \<open>\<^verbatim>\<open>INSERT IGNORE\<close> under the unique key (auction, user, number).\<close>

definition insert_coin :: "coin_row \<Rightarrow> db \<Rightarrow> db" where
  "insert_coin c d =
     (if \<exists>x\<in>set (coin_ledger d). co_auction x = co_auction c \<and> co_user x = co_user c \<and> co_seq x = co_seq c
      then d else d\<lparr>coin_ledger := coin_ledger d @ [c]\<rparr>)"

definition ProjectAllPayWin :: "bool \<Rightarrow> aid \<Rightarrow> json \<Rightarrow> db \<Rightarrow> db_err option \<times> db" where
  "ProjectAllPayWin up aid payload d =
     (case decode_sold payload of
        None \<Rightarrow> (Some ErrPayload, d)
      | Some p \<Rightarrow>
          (if sold_winnerId p = [] then (Some ErrPayload, d)
           else (case ParseInt (sold_amountCents p) of
                   POk coins \<Rightarrow>
                     (if \<not> up then (Some DbError, d)
                      else (None, insert_coin \<lparr>co_auction = aid, co_user = sold_winnerId p,
                              co_delta = wrap64 (- coins), co_reason = WIN, co_seq = sold_seq p\<rparr> d))
                 | _ \<Rightarrow> (Some ErrPayload, d))))"

definition ProjectAllPayForfeit :: "bool \<Rightarrow> aid \<Rightarrow> json \<Rightarrow> db \<Rightarrow> db_err option \<times> db" where
  "ProjectAllPayForfeit up aid payload d =
     (case decode_forfeit payload of
        None \<Rightarrow> (Some ErrPayload, d)
      | Some p \<Rightarrow>
          (if forfeit_userId p = [] then (Some ErrPayload, d)
           else (case ParseInt (forfeit_coins p) of
                   POk coins \<Rightarrow>
                     (if \<not> up then (Some DbError, d)
                      else (None, insert_coin \<lparr>co_auction = aid, co_user = forfeit_userId p,
                              co_delta = wrap64 (- coins), co_reason = RUNNER_UP_FORFEIT,
                              co_seq = forfeit_seq p\<rparr> d))
                 | _ \<Rightarrow> (Some ErrPayload, d))))"

definition CountEvents :: "bool \<Rightarrow> aid \<Rightarrow> db \<Rightarrow> db_err + int" where
  "CountEvents up aid d = (if \<not> up then Inl DbError else Inr (int (length (auction_events d aid))))"

section \<open>Lemmas\<close>

lemma set_auctions_fst: "fst (set_auctions p f d) = d\<lparr>auctions := map (\<lambda>a. if p a then f a else a) (auctions d)\<rparr>"
  by (simp add: set_auctions_def update_where_def)

lemma set_auctions_snd: "snd (set_auctions p f d) = length (filter (\<lambda>a. p a \<and> f a \<noteq> a) (auctions d))"
  by (simp add: set_auctions_def update_where_def)

text \<open>Auction ids are unique; no operation breaks that.\<close>

definition ids_unique :: "db \<Rightarrow> bool" where
  "ids_unique d \<longleftrightarrow> distinct (map ar_id (auctions d)) \<and> distinct (map or_auction (orders d))"

lemma find_map_same_id: "(\<And>a. ar_id (f a) = ar_id a) \<Longrightarrow>
    find (\<lambda>a. ar_id a = i) (map f xs) = map_option f (find (\<lambda>a. ar_id a = i) xs)"
  by (induction xs) auto

lemma auction_by_set:
  assumes "\<And>a. ar_id (f a) = ar_id a"
  shows "auction_by i (fst (set_auctions p f d)) = map_option (\<lambda>a. if p a then f a else a) (auction_by i d)"
  unfolding auction_by_def set_auctions_fst
  using find_map_same_id [of "\<lambda>a. if p a then f a else a" i "auctions d"] assms by simp

lemma find_id: "find (\<lambda>a. ar_id a = i) xs = Some a \<Longrightarrow> ar_id a = i \<and> a \<in> set xs"
  by (auto simp: find_Some_iff)

lemma order_by_id: "order_by i d = Some x \<Longrightarrow> or_auction x = i"
  by (auto simp: order_by_def find_Some_iff)

lemma cas_count:
  assumes "distinct (map ar_id xs)"
  shows "length (filter (\<lambda>a. ar_id a = i \<and> Q a) xs) =
    (case find (\<lambda>a. ar_id a = i) xs of None \<Rightarrow> 0 | Some a \<Rightarrow> (if Q a then 1 else 0))"
  using assms
proof (induction xs)
  case (Cons x xs)
  show ?case
  proof (cases "ar_id x = i")
    case True
    have "\<forall>a\<in>set xs. ar_id a \<noteq> ar_id x" using Cons.prems by (metis distinct.simps(2) image_eqI list.map(2) set_map)
    then have "filter (\<lambda>a. ar_id a = i \<and> Q a) xs = []"
      using True by (auto simp: filter_empty_conv)
    with True show ?thesis by simp
  next
    case False
    with Cons show ?thesis by simp
  qed
qed simp

end
