(* ===== verification/Persistence.thy ===== *)
theory Persistence
  imports Db
begin

text \<open>
  \<^verbatim>\<open>internal/server/persistence.go\<close>: the worker that projects an auction's stream into MySQL.
  Every database call can fail; the record \<^verbatim>\<open>faults\<close> says which calls of one event do, and for the
  insert of its row, which is several statements, how far it came. A failed call of the other
  kinds has no effect: each is one statement or one transaction.
\<close>

section \<open>The projection of a sale\<close>

record faults =
  up_insert :: insert_call
  up_get :: bool
  up_finalize :: bool
  up_status :: bool
  up_rules :: bool
  up_settle :: bool
  up_done :: bool

definition no_faults :: faults where
  "no_faults = \<lparr>up_insert = Insert_ok, up_get = True, up_finalize = True, up_status = True,
     up_rules = True, up_settle = True, up_done = True\<rparr>"

fun terminalStatus :: "msg_type \<Rightarrow> auction_state option" where
  "terminalStatus AUCTION_NO_BID = Some NO_BID"
| "terminalStatus AUCTION_CANCELLED = Some CANCELLED"
| "terminalStatus _ = None"

text \<open>Winner and price of a payload, when it can be read.\<close>

definition sold_outcome :: "json \<Rightarrow> (uid \<times> int) option" where
  "sold_outcome p =
     (case decode_sold p of
        None \<Rightarrow> None
      | Some s \<Rightarrow> (if sold_winnerId s = [] then None
                  else (case ParseInt (sold_amountCents s) of
                          POk n \<Rightarrow> Some (sold_winnerId s, n) | _ \<Rightarrow> None)))"

definition settle_sold :: "faults \<Rightarrow> int \<Rightarrow> aid \<Rightarrow> json \<Rightarrow> db \<Rightarrow> db_err option \<times> db" where
  "settle_sold f now aid p d =
     (case GetRules (up_rules f) aid d of
        Inr r \<Rightarrow>
          (if NormalizeMode (Mode r) = ALL_PAY then ProjectAllPayWin (up_settle f) aid p d
           else (case CreateOrderFromSold (up_settle f) aid p d of
                   (Some e, d') \<Rightarrow> (Some e, d')
                 | (None, d') \<Rightarrow> UpdateAuctionStatus (up_done f) now aid ORDER_CREATED d'))
      | Inl e \<Rightarrow>
          (case CreateOrderFromSold (up_settle f) aid p d of
             (Some e, d') \<Rightarrow> (Some e, d')
           | (None, d') \<Rightarrow> UpdateAuctionStatus (up_done f) now aid ORDER_CREATED d'))"

definition projectSold :: "faults \<Rightarrow> int \<Rightarrow> aid \<Rightarrow> json \<Rightarrow> db \<Rightarrow> db_err option \<times> db" where
  "projectSold f now aid p d =
     (case GetAuction (up_get f) aid d of
        Inl ErrNotFound \<Rightarrow> (Some ErrPermanentOrderProjection, d)
      | Inl e \<Rightarrow> (Some e, d)
      | Inr a \<Rightarrow>
          (let (e1, d1) = (case sold_outcome p of
                 None \<Rightarrow> (None, d)
               | Some (w, n) \<Rightarrow> FinalizeAuctionSold (up_finalize f) now aid w n d)
           in case e1 of
                Some e \<Rightarrow> (Some e, d1)
              | None \<Rightarrow>
                  (let (e2, d2) = (if ar_status a \<noteq> ORDER_CREATED
                         then UpdateAuctionStatus (up_status f) now aid SOLD d1 else (None, d1))
                   in case e2 of
                        Some e \<Rightarrow> (Some e, d2)
                      | None \<Rightarrow> settle_sold f now aid p d2)))"

section \<open>The loop over an auction's events\<close>

definition insert_event :: "insert_call \<Rightarrow> hasher \<Rightarrow> int \<Rightarrow> aid \<Rightarrow> StreamEvent \<Rightarrow> db \<Rightarrow> db_err option \<times> db" where
  "insert_event c E now aid e d =
     (let (err, rows) = InsertEvent c E now (ev_Seq e) (ev_Type e) (ev_Payload e) (auction_events d aid)
      in (err, d\<lparr>auction_events := (auction_events d)(aid := rows)\<rparr>))"

text \<open>One event: whether the cursor moves past it, and the database.\<close>

definition project_event :: "faults \<Rightarrow> hasher \<Rightarrow> int \<Rightarrow> aid \<Rightarrow> StreamEvent \<Rightarrow> db \<Rightarrow> bool \<times> db" where
  "project_event f E now aid e d =
     (case insert_event (up_insert f) E now aid e d of
        (Some err, d1) \<Rightarrow> (False, d1)
      | (None, d1) \<Rightarrow>
          (if ev_Type e = AUCTION_SOLD then
             (case projectSold f now aid (ev_Payload e) d1 of
                (None, d2) \<Rightarrow> (True, d2)
              | (Some err, d2) \<Rightarrow> (err = ErrPermanentOrderProjection \<or> err = ErrOrderProjectionMismatch, d2))
           else if ev_Type e = ALL_PAY_FORFEIT then
             (case ProjectAllPayForfeit (up_settle f) aid (ev_Payload e) d1 of
                (None, d2) \<Rightarrow> (True, d2) | (Some err, d2) \<Rightarrow> (False, d2))
           else (case terminalStatus (ev_Type e) of
                   None \<Rightarrow> (True, d1)
                 | Some st \<Rightarrow>
                     (case UpdateAuctionStatus (up_status f) now aid st d1 of
                        (None, d2) \<Rightarrow> (True, d2) | (Some err, d2) \<Rightarrow> (False, d2)))))"

fun project_events :: "hasher \<Rightarrow> int \<Rightarrow> aid \<Rightarrow> (StreamEvent \<times> faults) list \<Rightarrow> string \<Rightarrow> db \<Rightarrow> string \<times> db" where
  "project_events E now aid [] cursor d = (cursor, d)"
| "project_events E now aid ((e, f) # es) cursor d =
     (case project_event f E now aid e d of
        (True, d1) \<Rightarrow> project_events E now aid es (ev_ID e) d1
      | (False, d1) \<Rightarrow> (cursor, d1))"

text \<open>\<^verbatim>\<open>project\<close>: read after the cursor, project until the first failure. \<open>fs\<close> are the faults
  met, in order.\<close>

record worker =
  w_cursor :: "aid \<Rightarrow> string"
  w_db :: db

definition project :: "nat \<Rightarrow> (nat \<Rightarrow> faults) \<Rightarrow> hasher \<Rightarrow> int \<Rightarrow> aid \<Rightarrow> akeys \<Rightarrow> worker \<Rightarrow> worker" where
  "project fuel fs E now aid k w =
     (case ReadEventsAfter fuel (w_cursor w aid) k of
        Collected evs l \<Rightarrow>
          (let (c, d) = project_events E now aid (map (\<lambda>i. (evs ! i, fs i)) [0..<length evs]) (w_cursor w aid) (w_db w)
           in w\<lparr>w_cursor := (w_cursor w)(aid := c), w_db := d\<rparr>)
      | _ \<Rightarrow> w)"

text \<open>A sweep projects every auction with a stream.\<close>

definition sweep :: "nat \<Rightarrow> (aid \<Rightarrow> nat \<Rightarrow> faults) \<Rightarrow> hasher \<Rightarrow> int \<Rightarrow> redis \<Rightarrow> aid list \<Rightarrow> worker \<Rightarrow> worker" where
  "sweep fuel fs E now r aids w =
     fold (\<lambda>aid. project fuel (fs aid) E now aid (rd_keys r aid)) aids w"

section \<open>What leaves orders alone\<close>

lemma set_auctions_orders [frame_simps]:
  "orders (fst (set_auctions p f d)) = orders d"
  "coin_ledger (fst (set_auctions p f d)) = coin_ledger d"
  "auction_rules (fst (set_auctions p f d)) = auction_rules d"
  "auction_events (fst (set_auctions p f d)) = auction_events d"
  by (simp_all add: set_auctions_fst)

lemma insert_coin_frame [frame_simps]:
  "orders (insert_coin c d) = orders d" "auctions (insert_coin c d) = auctions d"
  "auction_rules (insert_coin c d) = auction_rules d" "auction_events (insert_coin c d) = auction_events d"
  by (simp_all add: insert_coin_def)

lemma ProjectAllPayWin_frame [frame_simps]:
  "orders (snd (ProjectAllPayWin up aid p d)) = orders d"
  "auction_events (snd (ProjectAllPayWin up aid p d)) = auction_events d"
  "auction_rules (snd (ProjectAllPayWin up aid p d)) = auction_rules d"
  by (auto simp: ProjectAllPayWin_def frame_simps split: option.splits parsed.splits)

lemma ProjectAllPayForfeit_frame [frame_simps]:
  "orders (snd (ProjectAllPayForfeit up aid p d)) = orders d"
  "auction_events (snd (ProjectAllPayForfeit up aid p d)) = auction_events d"
  "auction_rules (snd (ProjectAllPayForfeit up aid p d)) = auction_rules d"
  "auctions (snd (ProjectAllPayForfeit up aid p d)) = auctions d"
  by (auto simp: ProjectAllPayForfeit_def frame_simps split: option.splits parsed.splits)

lemma UpdateAuctionStatus_frame [frame_simps]:
  "orders (snd (UpdateAuctionStatus up now aid st d)) = orders d"
  "auction_rules (snd (UpdateAuctionStatus up now aid st d)) = auction_rules d"
  "auction_events (snd (UpdateAuctionStatus up now aid st d)) = auction_events d"
  by (simp_all add: UpdateAuctionStatus_def frame_simps)

lemma FinalizeAuctionSold_frame [frame_simps]:
  "orders (snd (FinalizeAuctionSold up now aid w n d)) = orders d"
  "auction_rules (snd (FinalizeAuctionSold up now aid w n d)) = auction_rules d"
  "auction_events (snd (FinalizeAuctionSold up now aid w n d)) = auction_events d"
  by (simp_all add: FinalizeAuctionSold_def frame_simps)

lemma CreateOrder_frame [frame_simps]:
  "auction_rules (snd (CreateOrderFromSold up aid p d)) = auction_rules d"
  "auction_events (snd (CreateOrderFromSold up aid p d)) = auction_events d"
  "auctions (snd (CreateOrderFromSold up aid p d)) = auctions d"
  by (auto simp: CreateOrderFromSold_def split: option.splits parsed.splits)

lemma insert_event_frame [frame_simps]:
  "orders (snd (insert_event c E now aid e d)) = orders d"
  "auction_rules (snd (insert_event c E now aid e d)) = auction_rules d"
  "auctions (snd (insert_event c E now aid e d)) = auctions d"
  "coin_ledger (snd (insert_event c E now aid e d)) = coin_ledger d"
  by (simp_all add: insert_event_def split_def Let_def)

text \<open>Whether an auction has a row.\<close>

lemma set_auctions_by: "(\<And>a. ar_id (f a) = ar_id a) \<Longrightarrow>
    auction_by i (fst (set_auctions p f d)) = None \<longleftrightarrow> auction_by i d = None"
  by (simp add: auction_by_set)

lemma UpdateAuctionStatus_by [frame_simps]:
  "auction_by i (snd (UpdateAuctionStatus up now aid st d)) = None \<longleftrightarrow> auction_by i d = None"
  by (simp add: UpdateAuctionStatus_def set_auctions_by)

lemma FinalizeAuctionSold_by [frame_simps]:
  "auction_by i (snd (FinalizeAuctionSold up now aid w n d)) = None \<longleftrightarrow> auction_by i d = None"
  by (simp add: FinalizeAuctionSold_def set_auctions_by)

lemma CreateOrder_by [frame_simps]:
  "auction_by i (snd (CreateOrderFromSold up aid p d)) = auction_by i d"
  by (simp add: auction_by_def frame_simps)

lemma AllPayWin_by [frame_simps]:
  "auction_by i (snd (ProjectAllPayWin up aid p d)) = auction_by i d"
  by (auto simp: auction_by_def ProjectAllPayWin_def frame_simps split: option.splits parsed.splits)

lemma AllPayForfeit_by [frame_simps]:
  "auction_by i (snd (ProjectAllPayForfeit up aid p d)) = auction_by i d"
  by (simp add: auction_by_def frame_simps)

text \<open>An order, once there, is never changed by a projection, and there is at most one per
  auction.\<close>

definition keeps_orders :: "db \<Rightarrow> db \<Rightarrow> bool" where
  "keeps_orders d d' \<longleftrightarrow> (\<exists>xs. orders d' = orders d @ xs \<and>
     (\<forall>x\<in>set xs. or_auction x \<notin> or_auction ` set (orders d)) \<and> distinct (map or_auction xs))"

lemma keeps_orders_refl: "orders d' = orders d \<Longrightarrow> keeps_orders d d'"
  by (simp add: keeps_orders_def)

lemma order_by_None: "order_by aid d = None \<longleftrightarrow> aid \<notin> or_auction ` set (orders d)"
  by (auto simp: order_by_def find_None_iff)

lemma CreateOrder_keeps: "keeps_orders d (snd (CreateOrderFromSold up aid p d))"
  using order_by_None [of aid d]
  by (auto simp: CreateOrderFromSold_def keeps_orders_def split: option.splits parsed.splits)

lemma keeps_orders_cong: "keeps_orders d d1 \<Longrightarrow> orders d0 = orders d \<Longrightarrow> orders d2 = orders d1 \<Longrightarrow> keeps_orders d0 d2"
  by (simp add: keeps_orders_def)

lemma settle_keeps: "keeps_orders d (snd (settle_sold f now aid p d))"
proof -
  have c: "keeps_orders d (snd (case CreateOrderFromSold (up_settle f) aid p d of
      (Some e, d') \<Rightarrow> (Some e, d')
    | (None, d') \<Rightarrow> UpdateAuctionStatus (up_done f) now aid ORDER_CREATED d'))"
    using CreateOrder_keeps [of d "up_settle f" aid p]
    by (auto split: prod.splits option.splits intro: keeps_orders_cong simp: frame_simps)
  then show ?thesis
    by (auto simp: settle_sold_def frame_simps split: sum.splits intro: keeps_orders_refl)
qed

text \<open>A projected sale fails before it settles, or settles on a database with the same orders,
  rules, coins and events.\<close>

lemma projectSold_settles:
  obtains d' where "orders d' = orders d" "auction_rules d' = auction_rules d"
    "auction_events d' = auction_events d" "coin_ledger d' = coin_ledger d"
    "auction_by aid d' = None \<longleftrightarrow> auction_by aid d = None"
    "projectSold f now aid p d = settle_sold f now aid p d' \<or> (\<exists>e. projectSold f now aid p d = (Some e, d'))"
proof (cases "GetAuction (up_get f) aid d")
  case (Inl e)
  then show ?thesis
    by (intro that [of d]) (cases e; simp add: projectSold_def)+
next
  case (Inr a)
  define r1 where "r1 = (case sold_outcome p of None \<Rightarrow> (None, d)
      | Some (w, n) \<Rightarrow> FinalizeAuctionSold (up_finalize f) now aid w n d)"
  obtain e1 d1 where r1d: "r1 = (e1, d1)" by (cases r1)
  then have 1: "orders d1 = orders d" "auction_rules d1 = auction_rules d"
    "auction_events d1 = auction_events d" "coin_ledger d1 = coin_ledger d"
    "auction_by aid d1 = None \<longleftrightarrow> auction_by aid d = None"
    by (auto simp: r1_def FinalizeAuctionSold_def frame_simps set_auctions_by split: option.splits prod.splits if_splits)
  define r2 where "r2 = (if ar_status a \<noteq> ORDER_CREATED
      then UpdateAuctionStatus (up_status f) now aid SOLD d1 else (None, d1))"
  obtain e2 d2 where r2d: "r2 = (e2, d2)" by (cases r2)
  then have 2: "orders d2 = orders d" "auction_rules d2 = auction_rules d"
    "auction_events d2 = auction_events d" "coin_ledger d2 = coin_ledger d"
    "auction_by aid d2 = None \<longleftrightarrow> auction_by aid d = None"
    using 1 by (auto simp: r2_def UpdateAuctionStatus_def frame_simps set_auctions_by split: if_splits)
  have eq: "projectSold f now aid p d =
     (case e1 of Some e \<Rightarrow> (Some e, d1)
      | None \<Rightarrow> (case e2 of Some e \<Rightarrow> (Some e, d2) | None \<Rightarrow> settle_sold f now aid p d2))"
    using r1d r2d Inr unfolding r1_def r2_def
    by (auto simp: projectSold_def Let_def split: option.splits if_splits)
  show ?thesis
  proof (cases e1)
    case (Some e)
    then show ?thesis using 1 eq by (intro that [of d1]) auto
  next
    case None
    then show ?thesis using 2 eq by (intro that [of d2]) (cases e2; simp)+
  qed
qed

lemma projectSold_keeps: "keeps_orders d (snd (projectSold f now aid p d))"
proof -
  obtain d' where "orders d' = orders d"
    and c: "projectSold f now aid p d = settle_sold f now aid p d' \<or> (\<exists>e. projectSold f now aid p d = (Some e, d'))"
    by (rule projectSold_settles)
  then show ?thesis
    using keeps_orders_cong [OF settle_keeps [of d' f now aid p]] by (auto intro: keeps_orders_refl)
qed

lemma project_event_keeps: "keeps_orders d (snd (project_event f E now aid e d))"
proof -
  let ?d1 = "snd (insert_event (up_insert f) E now aid e d)"
  have o1: "orders ?d1 = orders d" by (simp add: frame_simps)
  have s: "keeps_orders d (snd (projectSold f now aid p ?d1))" for p
    using keeps_orders_cong [OF projectSold_keeps [of ?d1 f now aid p] o1 [symmetric] refl] .
  show ?thesis
    using s [of "ev_Payload e"] o1
    by (auto simp: project_event_def split_def frame_simps split: option.splits intro: keeps_orders_refl)
qed

lemma keeps_orders_trans: "keeps_orders a b \<Longrightarrow> keeps_orders b c \<Longrightarrow> keeps_orders a c"
proof -
  assume "keeps_orders a b" and "keeps_orders b c"
  then obtain xs ys where x: "orders b = orders a @ xs" "\<forall>x\<in>set xs. or_auction x \<notin> or_auction ` set (orders a)"
      "distinct (map or_auction xs)"
    and y: "orders c = orders b @ ys" "\<forall>y\<in>set ys. or_auction y \<notin> or_auction ` set (orders b)"
      "distinct (map or_auction ys)"
    unfolding keeps_orders_def by blast
  have "orders c = orders a @ (xs @ ys)" using x(1) y(1) by simp
  moreover have "\<forall>z\<in>set (xs @ ys). or_auction z \<notin> or_auction ` set (orders a)"
    using x(2) y(2) unfolding x(1) by auto
  moreover have "set (map or_auction xs) \<inter> set (map or_auction ys) = {}"
  proof (rule ccontr)
    assume "\<not> ?thesis"
    then obtain u v where "u \<in> set xs" "v \<in> set ys" "or_auction u = or_auction v" by auto
    with y(2) show False unfolding x(1) by (metis Un_iff image_eqI set_append)
  qed
  then have "distinct (map or_auction (xs @ ys))" using x(3) y(3) by simp
  ultimately show ?thesis unfolding keeps_orders_def by blast
qed

lemma project_events_keeps: "keeps_orders d (snd (project_events E now aid es c d))"
proof (induction es arbitrary: c d)
  case (Cons x es)
  obtain e f where x: "x = (e, f)" by (cases x)
  have "keeps_orders d (snd (project_event f E now aid e d))" by (rule project_event_keeps)
  then show ?case
    using Cons.IH by (auto simp: x split: prod.splits bool.splits intro: keeps_orders_trans)
qed (simp add: keeps_orders_def)

lemma project_keeps: "keeps_orders (w_db w) (w_db (project fuel fs E now aid k w))"
  using project_events_keeps by (auto simp: project_def split_def Let_def keeps_orders_def split: collected.splits)

section \<open>All-pay auctions never charge an order\<close>

definition all_pay :: "aid \<Rightarrow> db \<Rightarrow> bool" where
  "all_pay aid d \<longleftrightarrow> (\<exists>r. auction_rules d aid = Some r \<and> NormalizeMode (Mode r) = ALL_PAY)"

lemma settle_all_pay:
  "all_pay aid d \<Longrightarrow> up_rules f \<Longrightarrow> orders (snd (settle_sold f now aid p d)) = orders d"
  by (auto simp: settle_sold_def all_pay_def GetRules_def frame_simps)

lemma projectSold_all_pay:
  assumes "all_pay aid d" "up_rules f"
  shows "orders (snd (projectSold f now aid p d)) = orders d"
proof -
  obtain d' where "orders d' = orders d" "auction_rules d' = auction_rules d"
    and c: "projectSold f now aid p d = settle_sold f now aid p d' \<or> (\<exists>e. projectSold f now aid p d = (Some e, d'))"
    by (rule projectSold_settles)
  moreover from this(2) have "all_pay aid d'" using assms(1) by (simp add: all_pay_def)
  ultimately show ?thesis using settle_all_pay [of aid d' f] assms(2) by auto
qed

text \<open>In any other mode the sale is settled as an order; with the rules unreadable it is, whatever the mode.\<close>

lemma projectSold_order:
  assumes "sold_outcome p = Some (u, n)" "auction_by aid d = Some a" "order_by aid d = None"
    and b: "b \<longrightarrow> \<not> all_pay aid d"
  shows "orders (snd (projectSold (no_faults\<lparr>up_rules := b\<rparr>) now aid p d)) = orders d @
    [\<lparr>or_id = ''ord_'' @ aid, or_auction = aid, or_product = ar_product a, or_buyer = u, or_amount = n, or_status = OCreated\<rparr>]"
proof -
  let ?f = "no_faults\<lparr>up_rules := b\<rparr>"
  have id: "ar_id a = aid" using assms(2) by (auto simp: auction_by_def find_Some_iff)
  have settle: "orders (snd (settle_sold ?f now aid p d')) = orders d' @
      [\<lparr>or_id = ''ord_'' @ aid, or_auction = aid, or_product = ar_product a', or_buyer = u, or_amount = n, or_status = OCreated\<rparr>]"
    if "auction_by aid d' = Some a'" "order_by aid d' = None" "auction_rules d' = auction_rules d" for d' a'
    using assms(1) b that
    by (auto simp: settle_sold_def GetRules_def all_pay_def CreateOrderFromSold_def sold_outcome_def no_faults_def frame_simps
        UpdateAuctionStatus_def split: option.splits parsed.splits if_splits)
  define d1 where "d1 = snd (FinalizeAuctionSold True now aid u n d)"
  define d2 where "d2 = (if ar_status a \<noteq> ORDER_CREATED then snd (UpdateAuctionStatus True now aid SOLD d1) else d1)"
  have d1: "auction_by aid d1 = Some (a\<lparr>ar_price := n, ar_winner := u, ar_updated := now\<rparr>)" "orders d1 = orders d" "auction_rules d1 = auction_rules d"
    using auction_by_set [of "\<lambda>a. a\<lparr>ar_price := n, ar_winner := u, ar_updated := now\<rparr>" aid "\<lambda>a. ar_id a = aid" d] assms(2) id
    by (simp_all add: d1_def FinalizeAuctionSold_def frame_simps)
  have d2: "\<exists>a'. auction_by aid d2 = Some a' \<and> ar_product a' = ar_product a" "orders d2 = orders d" "auction_rules d2 = auction_rules d"
    using d1 id auction_by_set [of "\<lambda>a. a\<lparr>ar_status := SOLD, ar_updated := now\<rparr>" aid "\<lambda>a. ar_id a = aid" d1]
    by (auto simp: d2_def UpdateAuctionStatus_def frame_simps)
  have "projectSold ?f now aid p d = settle_sold ?f now aid p d2"
    using assms by (auto simp: projectSold_def GetAuction_def no_faults_def Let_def d1_def d2_def
        FinalizeAuctionSold_def UpdateAuctionStatus_def)
  with d2 assms(3) settle show ?thesis by (auto simp: order_by_def)
qed

lemma projectSold_blind:
  assumes "sold_outcome p = Some (u, n)" "auction_by aid d = Some a" "order_by aid d = None"
  shows "orders (snd (projectSold (no_faults\<lparr>up_rules := False\<rparr>) now aid p d)) = orders d @
    [\<lparr>or_id = ''ord_'' @ aid, or_auction = aid, or_product = ar_product a, or_buyer = u, or_amount = n, or_status = OCreated\<rparr>]"
  using projectSold_order [OF assms] by simp

end
