(* ===== verification/Projection.thy ===== *)
theory Projection
  imports Persistence
begin

text \<open>
  The projection is complete and safe under faults: whatever calls fail, the rows of an
  auction are always a verified chain over a prefix of its log, apart from at most one row still
  without its hash; the cursor is never past the chained prefix, and a run without faults completes it, also after a restart that forgot the
  cursor.
\<close>

section \<open>Events that can be settled\<close>

definition forfeit_readable :: "json \<Rightarrow> bool" where
  "forfeit_readable p =
     (case decode_forfeit p of None \<Rightarrow> False
      | Some s \<Rightarrow> forfeit_userId s \<noteq> []
          \<and> (case ParseInt (forfeit_coins s) of POk n \<Rightarrow> True | _ \<Rightarrow> False))"

definition settles :: "entry \<Rightarrow> bool" where
  "settles e \<longleftrightarrow> e_payload e \<noteq> JBad
     \<and> (e_type e = AUCTION_SOLD \<longrightarrow> sold_outcome (e_payload e) \<noteq> None)
     \<and> (e_type e = ALL_PAY_FORFEIT \<longrightarrow> forfeit_readable (e_payload e))"

definition row_data :: "event_row \<Rightarrow> int \<times> msg_type \<times> json" where
  "row_data r = (ev_seq r, ev_type r, ev_payload r)"

definition entry_data :: "entry \<Rightarrow> int \<times> msg_type \<times> json" where
  "entry_data e = (e_seq e, e_type e, e_payload e)"

text \<open>\<open>projected E L aid es n d\<close>: the first \<open>n\<close> events of the log have rows that form a verified chain; at
  most one more row is there, of the next event, still without its hash.\<close>

definition projected :: "hasher \<Rightarrow> (int \<Rightarrow> key option) \<Rightarrow> aid \<Rightarrow> entry list \<Rightarrow> nat \<Rightarrow> db \<Rightarrow> bool" where
  "projected E L aid es n d \<longleftrightarrow> n \<le> length es
     \<and> (\<exists>rs us h. auction_events d aid = rs @ us \<and> length rs = n \<and> chain E L rs h
          \<and> length us \<le> 1 \<and> list_all (\<lambda>r. ev_hash r = None) us
          \<and> map row_data (rs @ us) = map entry_data (take (n + length us) es))
     \<and> auction_by aid d \<noteq> None"

lemma projectedE:
  assumes "projected E L aid es n d"
  obtains rs us h where "auction_events d aid = rs @ us" "length rs = n" "chain E L rs h"
    "us = [] \<or> (\<exists>r. us = [r] \<and> ev_hash r = None)" "n + length us \<le> length es"
    "map row_data rs = map entry_data (take n es)"
    "map row_data us = map entry_data (take (length us) (drop n es))"
proof -
  obtain rs us h where *: "auction_events d aid = rs @ us" "length rs = n" "chain E L rs h"
    "length us \<le> 1" "list_all (\<lambda>r. ev_hash r = None) us"
    "map row_data rs @ map row_data us = map entry_data (take (n + length us) es)"
    using assms by (auto simp: projected_def)
  have "length (map row_data rs @ map row_data us) = min (n + length us) (length es)"
    by (simp only: *(6)) (simp add: min.commute)
  then have len: "n + length us \<le> length es" using *(2) by simp
  have "map row_data rs @ map row_data us = map entry_data (take n es) @ map entry_data (take (length us) (drop n es))"
    by (simp only: *(6) take_add map_append)
  then have "map row_data rs = map entry_data (take n es)"
    "map row_data us = map entry_data (take (length us) (drop n es))"
    using *(2) len by (auto dest!: append_eq_append_conv [THEN iffD1, rotated])
  moreover have "us = [] \<or> (\<exists>r. us = [r] \<and> ev_hash r = None)"
    using *(4,5) by (cases us) auto
  ultimately show thesis using that * len by blast
qed

lemma projectedI:
  assumes "n \<le> length es" "auction_events d aid = rs" "chain E L rs h"
    "map row_data rs = map entry_data (take n es)" "auction_by aid d \<noteq> None"
  shows "projected E L aid es n d"
proof -
  have "length rs = n" using assms(1) arg_cong [OF assms(4), of length] by simp
  then show ?thesis
    unfolding projected_def using assms by (intro conjI exI [of _ rs] exI [of _ "[]"] exI [of _ h]) auto
qed

lemma projectedI1:
  assumes "n < length es" "auction_events d aid = rs @ [r]" "chain E L rs h" "ev_hash r = None"
    "map row_data rs = map entry_data (take n es)" "row_data r = entry_data (es ! n)" "auction_by aid d \<noteq> None"
  shows "projected E L aid es n d"
proof -
  have "length rs = n" using assms(1) arg_cong [OF assms(5), of length] by simp
  then show ?thesis
    unfolding projected_def using assms
    by (intro conjI exI [of _ rs] exI [of _ "[r]"] exI [of _ h]) (auto simp: take_Suc_conv_app_nth)
qed

text \<open>Once all events have their hash there is no other row.\<close>

lemma projected_full:
  assumes "projected E L aid es (length es) d"
  shows "\<exists>h. chain E L (auction_events d aid) h" "map row_data (auction_events d aid) = map entry_data es"
  using projectedE [OF assms] by (metis add_le_same_cancel1 append_Nil2 le_zero_eq length_0_conv take_all_iff order_refl)+

lemma settle_frame:
  "auction_events (snd (settle_sold f now aid p d)) = auction_events d"
  "auction_by i (snd (settle_sold f now aid p d)) = None \<longleftrightarrow> auction_by i d = None"
  by (auto simp: settle_sold_def split_def frame_simps split: sum.splits option.splits)

lemma projectSold_frame:
  "auction_events (snd (projectSold f now aid p d)) = auction_events d"
  "auction_by aid (snd (projectSold f now aid p d)) = None \<longleftrightarrow> auction_by aid d = None"
proof -
  obtain d' where "orders d' = orders d" "auction_rules d' = auction_rules d"
    and d': "auction_events d' = auction_events d" "coin_ledger d' = coin_ledger d"
      "auction_by aid d' = None \<longleftrightarrow> auction_by aid d = None"
    and c: "projectSold f now aid p d = settle_sold f now aid p d' \<or> (\<exists>e. projectSold f now aid p d = (Some e, d'))"
    by (rule projectSold_settles)
  show "auction_events (snd (projectSold f now aid p d)) = auction_events d"
    and "auction_by aid (snd (projectSold f now aid p d)) = None \<longleftrightarrow> auction_by aid d = None"
    using c d' settle_frame [where f = f and now = now and aid = aid and p = p and d = d'] by auto
qed

lemma project_event_frame:
  "auction_events (snd (project_event f E now aid e d)) =
     auction_events (snd (insert_event (up_insert f) E now aid e d))"
  "auction_by aid (snd (project_event f E now aid e d)) = None \<longleftrightarrow> auction_by aid d = None"
proof -
  obtain r d1 where i: "insert_event (up_insert f) E now aid e d = (r, d1)" by (cases "insert_event (up_insert f) E now aid e d")
  have b: "auction_by aid d1 = auction_by aid d"
    using i by (auto simp: insert_event_def auction_by_def Let_def split: if_splits prod.splits)
  note fr = projectSold_frame [where f = f and now = now and aid = aid and d = d1]
    ProjectAllPayForfeit_frame(2) [where aid = aid and d = d1]
    AllPayForfeit_by [where i = aid and aid = aid and d = d1]
    UpdateAuctionStatus_frame(3) [where now = now and aid = aid and d = d1]
    UpdateAuctionStatus_by [where i = aid and now = now and aid = aid and d = d1]
  have "auction_events (snd (project_event f E now aid e d)) = auction_events d1
      \<and> (auction_by aid (snd (project_event f E now aid e d)) = None \<longleftrightarrow> auction_by aid d1 = None)"
    by (simp add: project_event_def i split_def fr del: not_None_eq split: option.split)
  then show "auction_events (snd (project_event f E now aid e d)) =
     auction_events (snd (insert_event (up_insert f) E now aid e d))"
    and "auction_by aid (snd (project_event f E now aid e d)) = None \<longleftrightarrow> auction_by aid d = None"
    by (simp_all add: i b del: not_None_eq)
qed

section \<open>One event\<close>

lemma drop_Suc_nth_take1: "n < length xs \<Longrightarrow> take (Suc 0) (drop n xs) = [xs ! n]"
  by (simp add: take_Suc hd_drop_conv_nth)


text \<open>Projecting entry \<open>i\<close> when the first \<open>n\<close> events have chained rows, \<open>i \<le> n\<close>. Whatever call fails the rows
  stay sound; a success means that the entry's row is chained, and without faults it succeeds.\<close>

lemma insert_event_eq: "InsertEvent c E now (ev_Seq e) (ev_Type e) (ev_Payload e) (auction_events d aid) = (r, rows) \<Longrightarrow>
    insert_event c E now aid e d = (r, d\<lparr>auction_events := (auction_events d)(aid := rows)\<rparr>)"
  by (simp add: insert_event_def)

lemma insert_known:
  assumes pr: "proper E L" and log: "log_ok es" and p: "projected E L aid es n d"
    and i: "i < n" "i < length es" and ok: "settles (es ! i)"
  shows "snd (insert_event c E now aid (event_of (es ! i)) d) = d"
    and "fst (insert_event Insert_ok E now aid (event_of (es ! i)) d) = None"
proof -
  let ?e = "es ! i"
  obtain rs us h where r: "auction_events d aid = rs @ us" "length rs = n" "chain E L rs h"
    "map row_data rs = map entry_data (take n es)" using projectedE [OF p] by metis
  have q: "e_seq ?e = int i + 1" using log i(2) by (rule log_ok_nth_seq)
  have pl: "e_payload ?e \<noteq> JBad" using ok by (simp add: settles_def)
  have b: "1 \<le> e_seq ?e" "e_seq ?e \<le> int (length rs)" using q i(1) r(2) by auto
  have "map row_data rs ! i = map entry_data (take n es) ! i" by (simp only: r(4))
  then have "row_data (rs ! i) = entry_data ?e" using i r(2) by simp
  then have d: "ev_type (rs ! nat (e_seq ?e - 1)) = e_type ?e" "ev_payload (rs ! nat (e_seq ?e - 1)) = e_payload ?e"
    using q by (simp_all add: row_data_def entry_data_def)
  note again = InsertEvent_again [OF r(3) pr b pl, where now = now and ty = "e_type ?e" and us = us]
  show "snd (insert_event c E now aid (event_of ?e) d) = d"
    using again(2) [where c = c] r(1) by (simp add: insert_event_def split_def event_of_def fun_upd_idem)
  show "fst (insert_event Insert_ok E now aid (event_of ?e) d) = None"
    using again(1) d r(1) by (simp add: insert_event_def split_def event_of_def)
qed

lemma insert_next:
  assumes pr: "proper E L" and log: "log_ok es" and p: "projected E L aid es n d"
    and n: "n < length es" and ok: "settles (es ! n)"
  shows "projected E L aid es (Suc n) (snd (insert_event c E now aid (event_of (es ! n)) d))
      \<or> projected E L aid es n (snd (insert_event c E now aid (event_of (es ! n)) d))
        \<and> fst (insert_event c E now aid (event_of (es ! n)) d) \<noteq> None"
    and "fst (insert_event Insert_ok E now aid (event_of (es ! n)) d) = None"
proof -
  let ?e = "es ! n"
  obtain rs us h where r: "auction_events d aid = rs @ us" "length rs = n" "chain E L rs h"
    "us = [] \<or> (\<exists>r. us = [r] \<and> ev_hash r = None)"
    "map row_data rs = map entry_data (take n es)" "map row_data us = map entry_data (take (length us) (drop n es))"
    using projectedE [OF p] by metis
  have row: "auction_by aid d \<noteq> None" using p by (simp add: projected_def)
  have q: "e_seq ?e = int (length rs) + 1" using log_ok_nth_seq [OF log n] r(2) by simp
  have pl: "e_payload ?e \<noteq> JBad" using ok by (simp add: settles_def)
  have sel: "ev_Seq (event_of ?e) = e_seq ?e" "ev_Type (event_of ?e) = e_type ?e" "ev_Payload (event_of ?e) = e_payload ?e"
    by (simp_all add: event_of_def)
  have by_frame: "auction_by aid (d\<lparr>auction_events := x\<rparr>) = auction_by aid d" for x by (simp add: auction_by_def)
  define u where "u = (case us of [] \<Rightarrow> new_row (e_seq ?e) (e_type ?e) (e_payload ?e) now | r # _ \<Rightarrow> r)"
  have u: "ev_seq u = e_seq ?e" "ev_type u = e_type ?e" "ev_payload u = e_payload ?e" "ev_hash u = None"
    using r(4,6) n by (auto simp: u_def new_row_def row_data_def entry_data_def drop_Suc_nth_take1)
  have ud: "row_data u = entry_data ?e" using u by (simp add: row_data_def entry_data_def)
  let ?c = "chained_row E now h u"
  have ch: "chain E L (rs @ [?c]) (evidenceHash E h (ev_seq u) (ev_type u) (json_text E (ev_payload u)))"
    using fill_last(2) [OF r(3) pr, of u now] u(1,4) q by simp
  have cd: "row_data ?c = entry_data ?e" using ud by (simp add: chained_row_def row_data_def)
  have full: "projected E L aid es (Suc n) (d\<lparr>auction_events := (auction_events d)(aid := rs @ [?c])\<rparr>)"
    using n r(5) cd row ch by (intro projectedI [where h = "evidenceHash E h (ev_seq u) (ev_type u) (json_text E (ev_payload u))"])
      (auto simp: by_frame take_Suc_conv_app_nth)
  have half: "projected E L aid es n (d\<lparr>auction_events := (auction_events d)(aid := rs @ [u])\<rparr>)"
    using n r(3,5) ud u(4) row by (intro projectedI1 [where h = h]) (auto simp: by_frame)
  have same: "d\<lparr>auction_events := (auction_events d)(aid := rs @ us)\<rparr> = d" using r(1) by (simp add: fun_upd_idem)
  let ?I = "InsertEvent c E now (e_seq ?e) (e_type ?e) (e_payload ?e) (rs @ us)"
  have out: "?I \<in> {(Some DbError, rs @ us), (Some DbError, rs @ [u]), (Some DbError, rs @ [?c]), (None, rs @ [?c])}
      \<and> fst (InsertEvent Insert_ok E now (e_seq ?e) (e_type ?e) (e_payload ?e) (rs @ us)) = None"
  proof (cases us)
    case Nil
    then show ?thesis
      using InsertEvent_next(1,3) [OF r(3) pr q pl, where now = now and ty = "e_type ?e"] by (simp add: u_def)
  next
    case (Cons v vs)
    then have "us = [u]" using r(4) by (auto simp: u_def)
    then show ?thesis
      using InsertEvent_heals [OF r(3) pr _ u(4) u(2,3) pl, where now = now] u(1) q by auto
  qed
  then show "projected E L aid es (Suc n) (snd (insert_event c E now aid (event_of ?e) d))
      \<or> projected E L aid es n (snd (insert_event c E now aid (event_of ?e) d))
        \<and> fst (insert_event c E now aid (event_of ?e) d) \<noteq> None"
    using full half p by (cases ?I) (auto simp: insert_event_def sel r(1) same)
  show "fst (insert_event Insert_ok E now aid (event_of ?e) d) = None"
    using out by (simp add: insert_event_def sel r(1) split_def)
qed

lemma insert_projected:
  assumes pr: "proper E L" and log: "log_ok es" and p: "projected E L aid es n d"
    and i: "i \<le> n" "i < length es" and ok: "settles (es ! i)"
  shows "\<exists>m\<ge>n. projected E L aid es m (snd (insert_event c E now aid (event_of (es ! i)) d))
      \<and> (fst (insert_event c E now aid (event_of (es ! i)) d) = None \<longrightarrow> i < m)"
    and "fst (insert_event Insert_ok E now aid (event_of (es ! i)) d) = None"
proof -
  have "(\<exists>m\<ge>n. projected E L aid es m (snd (insert_event c E now aid (event_of (es ! i)) d))
      \<and> (fst (insert_event c E now aid (event_of (es ! i)) d) = None \<longrightarrow> i < m))
    \<and> fst (insert_event Insert_ok E now aid (event_of (es ! i)) d) = None"
  proof (cases "i = n")
    case True
    have n: "n < length es" "settles (es ! n)" using True i(2) ok by auto
    show ?thesis using insert_next(1) [OF pr log p n, where c = c and now = now]
        insert_next(2) [OF pr log p n, where now = now]
    proof (elim disjE conjE, goal_cases)
      case 1
      then show ?case using True by (intro conjI exI [of _ "Suc n"]) auto
    next
      case 2
      then show ?case using True by (intro conjI exI [of _ n]) auto
    qed
  next
    case False
    then have "i < n" using i(1) by simp
    then show ?thesis using insert_known(1) [OF pr log p _ i(2) ok, where c = c and now = now] insert_known(2) [OF pr log p _ i(2) ok, where now = now] p by auto
  qed
  then show "\<exists>m\<ge>n. projected E L aid es m (snd (insert_event c E now aid (event_of (es ! i)) d))
      \<and> (fst (insert_event c E now aid (event_of (es ! i)) d) = None \<longrightarrow> i < m)"
    and "fst (insert_event Insert_ok E now aid (event_of (es ! i)) d) = None" by blast+
qed

lemma projected_cong: "auction_events d' = auction_events d \<Longrightarrow>
    (auction_by aid d' = None \<longleftrightarrow> auction_by aid d = None) \<Longrightarrow> projected E L aid es n d' = projected E L aid es n d"
  by (simp add: projected_def)

lemma project_event_any:
  fixes now :: int and f :: faults
  assumes pr: "proper E L" and log: "log_ok es" and p: "projected E L aid es n d"
    and i: "i \<le> n" "i < length es" and ok: "settles (es ! i)"
  defines "r \<equiv> project_event f E now aid (event_of (es ! i)) d"
  shows "\<exists>m\<ge>n. projected E L aid es m (snd r) \<and> (fst r \<longrightarrow> i < m)"
proof -
  let ?e = "event_of (es ! i)" and ?i = "insert_event (up_insert f) E now aid (event_of (es ! i)) d"
  have c: "projected E L aid es m (snd r) = projected E L aid es m (snd ?i)" for m
    unfolding r_def using project_event_frame [where f = f and E = E and now = now and aid = aid and e = ?e and d = d]
    by (intro projected_cong) (auto simp: insert_event_def auction_by_def Let_def split_def)
  have "fst r \<Longrightarrow> fst ?i = None"
    unfolding r_def by (auto simp: project_event_def split: prod.splits option.splits)
  then show ?thesis unfolding c using insert_projected(1) [OF pr log p i ok, where c = "up_insert f" and now = now] by blast
qed

section \<open>Without faults\<close>

lemma no_faults_sel [simp]:
  "up_insert no_faults = Insert_ok" "up_get no_faults" "up_finalize no_faults" "up_status no_faults"
  "up_rules no_faults" "up_settle no_faults" "up_done no_faults"
  by (simp_all add: no_faults_def)

lemma settle_sold_ok:
  assumes "auction_by aid d \<noteq> None" "sold_outcome p \<noteq> None"
  shows "fst (settle_sold no_faults now aid p d) \<in> {None, Some ErrOrderProjectionMismatch}"
  using assms
  by (auto simp: settle_sold_def GetRules_def ProjectAllPayWin_def CreateOrderFromSold_def
      UpdateAuctionStatus_def sold_outcome_def split: option.splits if_splits parsed.splits)

lemma projectSold_ok:
  assumes "auction_by aid d \<noteq> None" "sold_outcome p \<noteq> None"
  shows "fst (projectSold no_faults now aid p d) \<in> {None, Some ErrOrderProjectionMismatch}"
proof -
  obtain a where a: "auction_by aid d = Some a" using assms(1) by auto
  obtain w n where w: "sold_outcome p = Some (w, n)" using assms(2) by auto
  let ?d1 = "snd (FinalizeAuctionSold True now aid w n d)"
  let ?d2 = "if ar_status a \<noteq> ORDER_CREATED then snd (UpdateAuctionStatus True now aid SOLD ?d1) else ?d1"
  have "projectSold no_faults now aid p d = settle_sold no_faults now aid p ?d2"
    using a w by (simp add: projectSold_def GetAuction_def FinalizeAuctionSold_def
        UpdateAuctionStatus_def)
  moreover have "auction_by aid ?d2 \<noteq> None" using assms(1) by (simp add: frame_simps del: not_None_eq)
  ultimately show ?thesis using settle_sold_ok assms(2) by metis
qed

lemma forfeit_ok: "forfeit_readable p \<Longrightarrow> fst (ProjectAllPayForfeit True aid p d) = None"
  by (auto simp: ProjectAllPayForfeit_def forfeit_readable_def split: option.splits if_splits parsed.splits)

lemma project_event_ok:
  assumes pr: "proper E L" and log: "log_ok es" and p: "projected E L aid es n d"
    and i: "i \<le> n" "i < length es" and ok: "settles (es ! i)"
  shows "fst (project_event no_faults E now aid (event_of (es ! i)) d)"
proof -
  let ?e = "event_of (es ! i)"
  obtain r1 d1 where e: "insert_event Insert_ok E now aid ?e d = (r1, d1)"
    by (cases "insert_event Insert_ok E now aid ?e d")
  then have ins: "insert_event Insert_ok E now aid ?e d = (None, d1)"
    using insert_projected(2) [OF pr log p i ok, where now = now] by simp
  have row: "auction_by aid d1 \<noteq> None"
    using insert_projected(1) [OF pr log p i ok, where c = Insert_ok and now = now] by (auto simp: e projected_def)
  show ?thesis
  proof (cases "ev_Type ?e = AUCTION_SOLD")
    case True
    obtain r d2 where ps: "projectSold no_faults now aid (ev_Payload ?e) d1 = (r, d2)"
      by (cases "projectSold no_faults now aid (ev_Payload ?e) d1")
    have "sold_outcome (ev_Payload ?e) \<noteq> None" using ok True by (simp add: settles_def event_of_def)
    then have "r \<in> {None, Some ErrOrderProjectionMismatch}"
      using projectSold_ok [OF row, of "ev_Payload ?e" now] ps by simp
    then show ?thesis using True by (auto simp: project_event_def ins ps)
  next
    case sold: False
    show ?thesis
    proof (cases "ev_Type ?e = ALL_PAY_FORFEIT")
      case True
      obtain r d2 where pf: "ProjectAllPayForfeit True aid (ev_Payload ?e) d1 = (r, d2)"
        by (cases "ProjectAllPayForfeit True aid (ev_Payload ?e) d1")
      have "fst (ProjectAllPayForfeit True aid (ev_Payload ?e) d1) = None"
        using ok True by (simp add: forfeit_ok settles_def event_of_def)
      then show ?thesis using True by (simp add: project_event_def ins pf)
    next
      case False
      then show ?thesis
        using sold by (simp add: project_event_def ins UpdateAuctionStatus_def split: option.splits)
    qed
  qed
qed

section \<open>The loop\<close>

text \<open>The worker's state for an auction whose log is \<open>es\<close>: the cursor is at position \<open>p\<close>, the
  first \<open>n \<ge> p\<close> events have rows.\<close>

definition position :: "nat \<Rightarrow> string" where
  "position p = (if p = 0 then [] else id_str (int p, 0))"

definition worker_ok :: "hasher \<Rightarrow> (int \<Rightarrow> key option) \<Rightarrow> aid \<Rightarrow> entry list \<Rightarrow> worker \<Rightarrow> bool" where
  "worker_ok E L aid es w \<longleftrightarrow>
     (\<exists>p n. p \<le> n \<and> w_cursor w aid = position p \<and> projected E L aid es n (w_db w))"

lemma event_id: "log_ok es \<Longrightarrow> i < length es \<Longrightarrow> ev_ID (event_of (es ! i)) = position (Suc i)"
  by (simp add: event_of_def position_def log_ok_nth_id add.commute)

lemma project_events_inv:
  assumes pr: "proper E L" and log: "log_ok es" and ok: "\<forall>e\<in>set es. settles e"
  shows "projected E L aid es n d \<Longrightarrow> p \<le> n \<Longrightarrow> p + length fs = length es \<Longrightarrow>
    (\<exists>p' n'. p' \<le> n' \<and> p \<le> p'
       \<and> fst (project_events E now aid (zip (map event_of (drop p es)) fs) (position p) d) = position p'
       \<and> projected E L aid es n' (snd (project_events E now aid (zip (map event_of (drop p es)) fs) (position p) d))
       \<and> (set fs \<subseteq> {no_faults} \<longrightarrow> p' = length es))"
proof (induction fs arbitrary: p n d)
  case Nil
  then show ?case by (intro exI [of _ p] exI [of _ n]) auto
next
  case (Cons f fs)
  then have p: "p < length es" by simp
  then have drop: "drop p es = es ! p # drop (Suc p) es" by (rule Cons_nth_drop_Suc [symmetric])
  obtain b d1 where e: "project_event f E now aid (event_of (es ! p)) d = (b, d1)"
    by (cases "project_event f E now aid (event_of (es ! p)) d")
  have st: "settles (es ! p)" using ok p by simp
  obtain m where m: "n \<le> m" "projected E L aid es m d1" "b \<longrightarrow> p < m"
    using project_event_any [OF pr log Cons.prems(1,2) p st, where f = f and now = now] e by auto
  show ?case
  proof (cases b)
    case False
    have "f \<noteq> no_faults" using project_event_ok [OF pr log Cons.prems(1,2) p st, where now = now] e False by auto
    then show ?thesis
      using m(1,2) False Cons.prems(2) e by (intro exI [of _ p] exI [of _ m]) (auto simp: drop)
  next
    case True
    then have "Suc p \<le> m" "Suc p + length fs = length es" using m(3) Cons.prems by auto
    then obtain p' n' where *: "p' \<le> n'" "Suc p \<le> p'"
      "fst (project_events E now aid (zip (map event_of (drop (Suc p) es)) fs) (position (Suc p)) d1) = position p'"
      "projected E L aid es n' (snd (project_events E now aid (zip (map event_of (drop (Suc p) es)) fs) (position (Suc p)) d1))"
      "set fs \<subseteq> {no_faults} \<longrightarrow> p' = length es"
      using Cons.IH [OF m(2), of "Suc p"] by blast
    then show ?thesis
      using True e event_id [OF log p] by (intro exI [of _ p'] exI [of _ n']) (auto simp: drop)
  qed
qed

lemma read_position:
  assumes r: "readable k" and fuel: "length (events_of k) < fuel" and ple: "p \<le> length (events_of k)"
  obtains l where "ReadEventsAfter fuel (position p) k = Collected (map event_of (drop p (events_of k))) l"
proof (cases "p = 0")
  case True
  then show ?thesis
    using that xrange.collect_all [OF r fuel] by (simp add: ReadEventsAfter_def position_def)
next
  case False
  then show ?thesis
    using that xrange.collect_after [OF r fuel _ ple] by (simp add: ReadEventsAfter_def position_def)
qed

text \<open>A projection keeps the worker's state sound whatever fails, and completes it when
  nothing does.\<close>

lemma project_sound:
  assumes pr: "proper E L" and r: "readable k" and ok: "\<forall>e\<in>set (events_of k). settles e"
    and w: "worker_ok E L aid (events_of k) w" and fuel: "length (events_of k) < fuel"
  shows "worker_ok E L aid (events_of k) (project fuel fs E now aid k w)"
    and "(\<forall>i. fs i = no_faults) \<Longrightarrow>
      w_cursor (project fuel fs E now aid k w) aid = position (length (events_of k))
      \<and> projected E L aid (events_of k) (length (events_of k)) (w_db (project fuel fs E now aid k w))"
proof -
  let ?es = "events_of k"
  obtain p n where pn: "p \<le> n" "w_cursor w aid = position p" "projected E L aid ?es n (w_db w)"
    using w by (auto simp: worker_ok_def)
  have log: "log_ok ?es" using r by (simp add: readable_def room_invD(1))
  have ple: "p \<le> length ?es" using pn by (simp add: projected_def)
  obtain l where read: "ReadEventsAfter fuel (position p) k = Collected (map event_of (drop p ?es)) l"
    by (rule read_position [OF r fuel ple])
  let ?evs = "map event_of (drop p ?es)"
  let ?fs = "map fs [0..<length ?evs]"
  have zip: "map (\<lambda>i. (?evs ! i, fs i)) [0..<length ?evs] = zip ?evs ?fs"
    by (rule nth_equalityI) auto
  have "p + length ?fs = length ?es" using ple by simp
  from project_events_inv [OF pr log ok pn(3,1) this, where now = now]
  obtain p' n' where *: "p' \<le> n'"
     "fst (project_events E now aid (zip ?evs ?fs) (position p) (w_db w)) = position p'"
     "projected E L aid ?es n' (snd (project_events E now aid (zip ?evs ?fs) (position p) (w_db w)))"
     "set ?fs \<subseteq> {no_faults} \<longrightarrow> p' = length ?es" by blast
  have w': "w_cursor (project fuel fs E now aid k w) aid = position p'"
    "w_db (project fuel fs E now aid k w) = snd (project_events E now aid (zip ?evs ?fs) (position p) (w_db w))"
    using *(2) by (simp_all add: project_def pn(2) read zip split_def Let_def del: length_map)
  show "worker_ok E L aid ?es (project fuel fs E now aid k w)"
    using *(1,3) w' by (auto simp: worker_ok_def)
  assume "\<forall>i. fs i = no_faults"
  then have "p' = length ?es" using *(4) by auto
  moreover then have "n' = length ?es" using *(1,3) by (simp add: projected_def)
  ultimately show "w_cursor (project fuel fs E now aid k w) aid = position (length ?es)
      \<and> projected E L aid ?es (length ?es) (w_db (project fuel fs E now aid k w))"
    using *(3) w' by simp
qed

section \<open>The order of a sale\<close>

definition order_of :: "aid \<Rightarrow> uid \<Rightarrow> int \<Rightarrow> db \<Rightarrow> bool" where
  "order_of aid u n d \<longleftrightarrow> (\<exists>x. order_by aid d = Some x \<and> or_buyer x = u \<and> or_amount x = n)"

lemma find_append: "find P (xs @ ys) = (case find P xs of None \<Rightarrow> find P ys | Some x \<Rightarrow> Some x)"
  by (induction xs) auto

lemma order_by_append: "order_by aid d = Some x \<Longrightarrow> orders d' = orders d @ xs \<Longrightarrow> order_by aid d' = Some x"
  by (simp add: order_by_def find_append)

lemma keeps_order_of: "keeps_orders d d' \<Longrightarrow> order_of aid u n d \<Longrightarrow> order_of aid u n d'"
  unfolding keeps_orders_def order_of_def using order_by_append by metis

lemma project_event_sale:
  assumes p: "sold_outcome (ev_Payload e) = Some (u, n)" "ev_Type e = AUCTION_SOLD"
    and d: "auction_by aid d \<noteq> None" "order_by aid d = None" "\<not> all_pay aid d"
    and ins: "fst (insert_event Insert_ok E now aid e d) = None"
  shows "order_of aid u n (snd (project_event no_faults E now aid e d))"
proof -
  obtain d1 where i: "insert_event Insert_ok E now aid e d = (None, d1)"
    using ins by (cases "insert_event Insert_ok E now aid e d") simp
  have d1: "auctions d1 = auctions d" "orders d1 = orders d" "auction_rules d1 = auction_rules d"
    using insert_event_frame [of Insert_ok E now aid e d] by (simp_all add: i)
  obtain a where a: "auction_by aid d1 = Some a" using d(1) d1(1) by (auto simp: auction_by_def)
  have "order_by aid d1 = None" "\<not> all_pay aid d1" using d d1 by (simp_all add: order_by_def all_pay_def)
  then have "orders (snd (projectSold no_faults now aid (ev_Payload e) d1)) = orders d1 @
    [\<lparr>or_id = ''ord_'' @ aid, or_auction = aid, or_product = ar_product a, or_buyer = u, or_amount = n, or_status = OCreated\<rparr>]"
    using projectSold_order [OF p(1) a, of True now] by (simp add: no_faults_def)
  moreover have "order_by aid d1 = None" using d(2) d1(2) by (simp add: order_by_def)
  ultimately have "order_of aid u n (snd (projectSold no_faults now aid (ev_Payload e) d1))"
    by (auto simp: order_of_def order_by_def find_append)
  moreover have "snd (project_event no_faults E now aid e d) = snd (projectSold no_faults now aid (ev_Payload e) d1)"
    by (simp add: project_event_def i p(2) split_def split: option.split)
  ultimately show ?thesis by simp
qed

text \<open>Before the sale no event makes an order or changes the rules.\<close>

lemma project_event_before_sale:
  assumes "ev_Type e \<noteq> AUCTION_SOLD"
  shows "orders (snd (project_event f E now aid e d)) = orders d"
    "auction_rules (snd (project_event f E now aid e d)) = auction_rules d"
  using assms by (auto simp: project_event_def split_def frame_simps split: option.splits)

lemma project_events_sale:
  assumes pr: "proper E L" and log: "log_ok es" and ok: "\<forall>e\<in>set es. settles e"
    and sale: "es = bs @ [s]" "\<forall>e\<in>set bs. e_type e \<noteq> AUCTION_SOLD" "e_type s = AUCTION_SOLD"
      "sold_outcome (e_payload s) = Some (u, n)"
  shows "projected E L aid es i d \<Longrightarrow> p \<le> i \<Longrightarrow> p + length fs = length es \<Longrightarrow> fs \<noteq> [] \<Longrightarrow>
    set fs \<subseteq> {no_faults} \<Longrightarrow> order_by aid d = None \<Longrightarrow> \<not> all_pay aid d \<Longrightarrow>
    order_of aid u n (snd (project_events E now aid (zip (map event_of (drop p es)) fs) (position p) d))"
proof (induction fs arbitrary: p i d)
  case (Cons f fs)
  then have p: "p < length es" and f: "f = no_faults" by simp_all
  have drop: "drop p es = es ! p # drop (Suc p) es" using p by (rule Cons_nth_drop_Suc [symmetric])
  have st: "settles (es ! p)" using ok p by simp
  have row: "auction_by aid d \<noteq> None" using Cons.prems(1) by (simp add: projected_def)
  obtain d1 where e: "project_event no_faults E now aid (event_of (es ! p)) d = (True, d1)"
    using project_event_ok [OF pr log Cons.prems(1,2) p st, where now = now]
    by (cases "project_event no_faults E now aid (event_of (es ! p)) d") auto
  show ?case
  proof (cases fs)
    case Nil
    then have "p = length bs" using Cons.prems(3) sale(1) by simp
    then have "es ! p = s" using sale(1) by simp
    moreover have "fst (insert_event Insert_ok E now aid (event_of (es ! p)) d) = None"
      by (rule insert_projected(2) [OF pr log Cons.prems(1,2) p st])
    ultimately have "order_of aid u n d1"
      using project_event_sale [of "event_of s" u n aid d E now] sale(3,4) row Cons.prems(6,7) e
      by (simp add: event_of_def)
    then show ?thesis using Nil e f by (simp add: drop)
  next
    case (Cons g gs)
    then have "p < length bs" using Cons.prems(3) sale(1) by simp
    then have "es ! p \<in> set bs" using sale(1) by (simp add: nth_append)
    then have ty: "ev_Type (event_of (es ! p)) \<noteq> AUCTION_SOLD" using sale(2) by (simp add: event_of_def)
    obtain m where m: "i \<le> m" "projected E L aid es m d1" "p < m"
      using project_event_any [OF pr log Cons.prems(1,2) p st, where f = no_faults and now = now] e by auto
    have d1: "orders d1 = orders d" "auction_rules d1 = auction_rules d"
      using project_event_before_sale [OF ty, of no_faults E now aid d] by (simp_all add: e)
    have "order_of aid u n (snd (project_events E now aid (zip (map event_of (drop (Suc p) es)) fs) (position (Suc p)) d1))"
      using Cons.prems(3,5-7) Cons m(3) d1
      by (intro Cons.IH [OF m(2)]) (auto simp: order_by_def all_pay_def)
    then show ?thesis using e f event_id [OF log p] by (simp add: drop)
  qed
qed simp

text \<open>After a pass in which every call is answered, an order of the sale is there, made by this pass or
  an earlier one.\<close>

lemma project_sale:
  assumes pr: "proper E L" and r: "readable k" and ok: "\<forall>e\<in>set (events_of k). settles e"
    and w: "worker_ok E L aid (events_of k) w" and fuel: "length (events_of k) < fuel"
    and sale: "events_of k = bs @ [s]" "\<forall>e\<in>set bs. e_type e \<noteq> AUCTION_SOLD" "e_type s = AUCTION_SOLD"
      "sold_outcome (e_payload s) = Some (u, n)"
    and nf: "\<forall>i. fs i = no_faults"
    and o: "order_of aid u n (w_db w) \<or> order_by aid (w_db w) = None \<and> \<not> all_pay aid (w_db w)
      \<and> w_cursor w aid \<noteq> position (length (events_of k))"
  shows "order_of aid u n (w_db (project fuel fs E now aid k w))"
proof (cases "order_of aid u n (w_db w)")
  case True
  then show ?thesis by (rule keeps_order_of [OF project_keeps])
next
  case False
  then have none: "order_by aid (w_db w) = None" "\<not> all_pay aid (w_db w)"
    "w_cursor w aid \<noteq> position (length (events_of k))" using o by auto
  let ?es = "events_of k"
  obtain p i where pn: "p \<le> i" "w_cursor w aid = position p" "projected E L aid ?es i (w_db w)"
    using w by (auto simp: worker_ok_def)
  have log: "log_ok ?es" using r by (simp add: readable_def room_invD(1))
  have ple: "p < length ?es"
    using pn none(3) by (cases "p = length ?es") (auto simp: projected_def)
  let ?evs = "map event_of (drop p ?es)"
  let ?fs = "map fs [0..<length ?evs]"
  have zip: "map (\<lambda>i. (?evs ! i, fs i)) [0..<length ?evs] = zip ?evs ?fs" by (rule nth_equalityI) auto
  obtain l where read: "ReadEventsAfter fuel (position p) k = Collected ?evs l"
    by (rule read_position [OF r fuel less_imp_le [OF ple]])
  have "order_of aid u n (snd (project_events E now aid (zip ?evs ?fs) (position p) (w_db w)))"
    using ple nf none by (intro project_events_sale [OF pr log ok sale pn(3,1)]) auto
  then show ?thesis by (simp add: project_def pn(2) read zip split_def Let_def del: length_map)
qed

end
