(* ===== verification/Verify.thy ===== *)
theory Verify
  imports Projection
begin

text \<open>
  \<^verbatim>\<open>internal/server/verify.go\<close>: the replay verifier that compares the event stream, the
  projected rows and the snapshot, then recomputes the hash chain; and the evidence timeline
  it reads. Then: when it reports agreement, and that it does after a projection without
  faults.
\<close>

section \<open>The timeline\<close>

record EvidenceEvent =
  ee_Seq :: int
  ee_EventType :: msg_type
  ee_Payload :: json
  ee_EventHash :: string
  ee_PrevHash :: string

definition timeline_event :: "event_row \<Rightarrow> EvidenceEvent" where
  "timeline_event r = \<lparr>ee_Seq = ev_seq r, ee_EventType = ev_type r, ee_Payload = ev_payload r,
     ee_EventHash = str_of (ev_hash r), ee_PrevHash = str_of (ev_prev r)\<rparr>"

definition EventTimeline :: "bool \<Rightarrow> aid \<Rightarrow> db \<Rightarrow> db_err + EvidenceEvent list" where
  "EventTimeline up aid d =
     (if \<not> up then Inl DbError
      else Inr (map timeline_event (sort_key ev_seq (auction_events d aid))))"

section \<open>The three-way comparison\<close>

definition missing_in_db :: "int \<Rightarrow> string" where
  "missing_in_db q = ''stream has seq='' @ FormatInt q @ '' but MySQL projection does not''"

definition missing_in_stream :: "int \<Rightarrow> string" where
  "missing_in_stream q = ''MySQL has seq='' @ FormatInt q @ '' but Stream does not''"

definition type_differs :: "int \<Rightarrow> msg_type \<Rightarrow> msg_type \<Rightarrow> string" where
  "type_differs q a b = ''event_type mismatch at seq='' @ FormatInt q @ '': stream='' @ [quote] @ type_name a @ [quote]
     @ '' mysql='' @ [quote] @ type_name b @ [quote]"

text \<open>The loop of \<^verbatim>\<open>findMismatch\<close> with the two checks that follow it: the first difference.\<close>

fun side_by_side :: "StreamEvent list \<Rightarrow> EvidenceEvent list \<Rightarrow> (int \<times> string) option" where
  "side_by_side (s # ss) (d # ds) =
     (if ev_Seq s < ee_Seq d then Some (ev_Seq s, missing_in_db (ev_Seq s))
      else if ee_Seq d < ev_Seq s then Some (ee_Seq d, missing_in_stream (ee_Seq d))
      else if ev_Type s \<noteq> ee_EventType d
      then Some (ev_Seq s, type_differs (ev_Seq s) (ev_Type s) (ee_EventType d))
      else side_by_side ss ds)"
| "side_by_side (s # ss) [] =
     Some (ev_Seq s, ''stream extends past MySQL projection at seq='' @ FormatInt (ev_Seq s))"
| "side_by_side [] (d # ds) =
     Some (ee_Seq d, ''MySQL projection extends past Stream at seq='' @ FormatInt (ee_Seq d))"
| "side_by_side [] [] = None"

definition findMismatch :: "StreamEvent list \<Rightarrow> EvidenceEvent list \<Rightarrow> int \<Rightarrow> int \<times> string" where
  "findMismatch stream db snapshotSeq =
     (case side_by_side stream db of
        Some m \<Rightarrow> m
      | None \<Rightarrow>
          (if snapshotSeq > 0 \<and> stream \<noteq> [] then
             (let tip = ev_Seq (last stream)
              in if snapshotSeq \<noteq> tip
                 then (tip, ''snapshot seq='' @ FormatInt snapshotSeq @ '' does not match stream tip seq=''
                         @ FormatInt tip)
                 else (0, []))
           else (0, [])))"

section \<open>The report\<close>

record VerifyReport =
  vr_AID :: aid
  vr_StreamCount :: int
  vr_MySQLCount :: int
  vr_SnapshotSeq :: int
  vr_StreamTipSeq :: int
  vr_MismatchAtSeq :: int
  vr_MismatchReason :: string
  vr_HashBreakAtSeq :: int

definition Consistent :: "VerifyReport \<Rightarrow> bool" where
  "Consistent r \<longleftrightarrow> vr_MismatchAtSeq r = 0 \<and> vr_HashBreakAtSeq r = 0"

definition shortReason :: "VerifyReport \<Rightarrow> string" where
  "shortReason r =
     (if vr_HashBreakAtSeq r \<noteq> 0 then ''hash_break_at_seq='' @ FormatInt (vr_HashBreakAtSeq r)
      else if vr_MismatchAtSeq r \<noteq> 0 then ''mismatch_at_seq='' @ FormatInt (vr_MismatchAtSeq r)
      else ''consistent'')"

text \<open>The status line of \<^verbatim>\<open>emitVerifyReport\<close>.\<close>

definition emitVerifyReport :: "VerifyReport \<Rightarrow> string" where
  "emitVerifyReport r =
     (if vr_HashBreakAtSeq r \<noteq> 0
      then ''hash_break_at_seq='' @ FormatInt (vr_HashBreakAtSeq r) @ '' (events='' @ FormatInt (vr_MySQLCount r)
             @ '', auction='' @ vr_AID r @ '')'' @ [newline]
      else if vr_MismatchAtSeq r \<noteq> 0
      then ''mismatch_at_seq='' @ FormatInt (vr_MismatchAtSeq r) @ '' (stream='' @ FormatInt (vr_StreamCount r)
             @ '' mysql='' @ FormatInt (vr_MySQLCount r) @ '' snapshot_seq='' @ FormatInt (vr_SnapshotSeq r)
             @ '', auction='' @ vr_AID r @ ''): '' @ vr_MismatchReason r @ [newline]
      else ''consistent: stream='' @ FormatInt (vr_StreamCount r) @ '' mysql='' @ FormatInt (vr_MySQLCount r)
             @ '' snapshot_seq='' @ FormatInt (vr_SnapshotSeq r) @ '' (auction='' @ vr_AID r @ '')'' @ [newline])"

datatype verify_err = SnapshotErr | StreamErr | TimelineErr | ChainErr

text \<open>\<^verbatim>\<open>computeVerifyReport\<close>; the chain is checked only when the three surfaces agree. The second
  component is the verification cache afterwards.\<close>

definition computeVerifyReport ::
  "nat \<Rightarrow> link \<Rightarrow> link \<Rightarrow> bool \<Rightarrow> hasher \<Rightarrow> (int \<Rightarrow> key option) \<Rightarrow> int \<Rightarrow> aid \<Rightarrow> redis \<Rightarrow> db
   \<Rightarrow> (verify_err + VerifyReport) \<times> db" where
  "computeVerifyReport fuel l1 l2 up E lookup now aid r d =
     (case Snapshot l1 aid r of
        IOErr \<Rightarrow> (Inl SnapshotErr, d)
      | IOk snap \<Rightarrow>
          (case (if l2 \<noteq> Answered then FetchError else ReadEventsAfter fuel [] (rd_keys r aid)) of
             Collected evs l \<Rightarrow>
               (case EventTimeline up aid d of
                  Inl e \<Rightarrow> (Inl TimelineErr, d)
                | Inr timeline \<Rightarrow>
                    (let (q, why) = findMismatch evs timeline (sn_Seq snap);
                         rep = \<lparr>vr_AID = aid, vr_StreamCount = int (length evs),
                                vr_MySQLCount = int (length timeline), vr_SnapshotSeq = sn_Seq snap,
                                vr_StreamTipSeq = (if evs = [] then 0 else ev_Seq (last evs)),
                                vr_MismatchAtSeq = q, vr_MismatchReason = why, vr_HashBreakAtSeq = 0\<rparr>
                     in if q \<noteq> 0 then (Inr rep, d)
                        else (case VerifyEvidenceChain E lookup now (auction_events d aid) (chain_cache d aid) of
                                (ChainError, c) \<Rightarrow> (Inl ChainErr, d\<lparr>chain_cache := (chain_cache d)(aid := c)\<rparr>)
                              | (ChainBroken s, c) \<Rightarrow>
                                  (Inr (rep\<lparr>vr_HashBreakAtSeq := s\<rparr>), d\<lparr>chain_cache := (chain_cache d)(aid := c)\<rparr>)
                              | (ChainOk, c) \<Rightarrow> (Inr rep, d\<lparr>chain_cache := (chain_cache d)(aid := c)\<rparr>))))
           | _ \<Rightarrow> (Inl StreamErr, d)))"

text \<open>The exit code of \<^verbatim>\<open>RunVerify\<close>: success exactly for a consistent report.\<close>

definition verify_aid :: "aid \<Rightarrow> aid" where
  "verify_aid aid = (if aid = [] then ''auc_demo'' else aid)"

definition RunVerify ::
  "nat \<Rightarrow> link \<Rightarrow> link \<Rightarrow> bool \<Rightarrow> hasher \<Rightarrow> (int \<Rightarrow> key option) \<Rightarrow> int \<Rightarrow> aid \<Rightarrow> redis \<Rightarrow> db
   \<Rightarrow> (string option \<times> bool) \<times> db" where
  "RunVerify fuel l1 l2 up E lookup now aid r d =
     (case computeVerifyReport fuel l1 l2 up E lookup now (verify_aid aid) r d of
        (Inl e, d') \<Rightarrow> ((None, False), d')
      | (Inr rep, d') \<Rightarrow> ((Some (emitVerifyReport rep), Consistent rep), d'))"

text \<open>\<^verbatim>\<open>RunVerifyEvidence\<close>: the chain alone.\<close>

definition RunVerifyEvidence ::
  "hasher \<Rightarrow> (int \<Rightarrow> key option) \<Rightarrow> int \<Rightarrow> aid \<Rightarrow> db \<Rightarrow> bool \<times> db" where
  "RunVerifyEvidence E lookup now aid d =
     (let a = verify_aid aid;
          (v, c) = VerifyEvidenceChain E lookup now (auction_events d a) (chain_cache d a)
      in (v = ChainOk, d\<lparr>chain_cache := (chain_cache d)(a := c)\<rparr>))"

section \<open>What agreement means\<close>

definition stream_view :: "StreamEvent list \<Rightarrow> (int \<times> msg_type) list" where
  "stream_view = map (\<lambda>e. (ev_Seq e, ev_Type e))"

definition db_view :: "EvidenceEvent list \<Rightarrow> (int \<times> msg_type) list" where
  "db_view = map (\<lambda>e. (ee_Seq e, ee_EventType e))"

lemma side_by_side_None: "side_by_side ss ds = None \<longleftrightarrow> stream_view ss = db_view ds"
  by (induction ss ds rule: side_by_side.induct) (auto simp: stream_view_def db_view_def)

lemma side_by_side_seq:
  "side_by_side ss ds = Some (q, why) \<Longrightarrow> q \<in> ev_Seq ` set ss \<union> ee_Seq ` set ds"
  by (induction ss ds rule: side_by_side.induct) (auto split: if_splits)

lemma findMismatch_agrees:
  assumes pos: "\<forall>e\<in>set ss. 0 < ev_Seq e" "\<forall>e\<in>set ds. 0 < ee_Seq e"
  shows "fst (findMismatch ss ds n) = 0 \<longleftrightarrow>
    stream_view ss = db_view ds \<and> (0 < n \<and> ss \<noteq> [] \<longrightarrow> n = ev_Seq (last ss))"
proof (cases "side_by_side ss ds")
  case None
  then have v: "stream_view ss = db_view ds" by (simp add: side_by_side_None)
  have "ss \<noteq> [] \<Longrightarrow> ev_Seq (last ss) \<noteq> 0" using pos(1) last_in_set by fastforce
  then show ?thesis using v by (auto simp: findMismatch_def None Let_def)
next
  case (Some m)
  obtain q why where m: "m = (q, why)" by (cases m)
  have "q \<noteq> 0" using side_by_side_seq [OF Some [unfolded m]] pos by auto
  moreover have "stream_view ss \<noteq> db_view ds" using Some side_by_side_None [of ss ds] by auto
  ultimately show ?thesis by (simp add: findMismatch_def Some m)
qed

text \<open>With ascending numbers the reported one is the first that differs.\<close>

lemma views [simp]:
  "stream_view (s # ss) = (ev_Seq s, ev_Type s) # stream_view ss" "stream_view [] = []"
  "db_view (d # ds) = (ee_Seq d, ee_EventType d) # db_view ds" "db_view [] = []"
  by (simp_all add: stream_view_def db_view_def)

lemma views_above:
  "\<forall>x\<in>set ss. q \<le> ev_Seq x \<Longrightarrow> filter (\<lambda>x. fst x < q) (stream_view ss) = []"
  "\<forall>x\<in>set ds. q \<le> ee_Seq x \<Longrightarrow> filter (\<lambda>x. fst x < q) (db_view ds) = []"
  "\<forall>x\<in>set ss. q < ev_Seq x \<Longrightarrow> filter (\<lambda>x. fst x = q) (stream_view ss) = []"
  "\<forall>x\<in>set ds. q < ee_Seq x \<Longrightarrow> filter (\<lambda>x. fst x = q) (db_view ds) = []"
  by (auto simp: filter_empty_conv stream_view_def db_view_def)

lemma side_by_side_first:
  assumes "sorted_wrt (<) (map ev_Seq ss)" "sorted_wrt (<) (map ee_Seq ds)"
    and "side_by_side ss ds = Some (q, why)"
  shows "filter (\<lambda>x. fst x < q) (stream_view ss) = filter (\<lambda>x. fst x < q) (db_view ds)
    \<and> filter (\<lambda>x. fst x = q) (stream_view ss) \<noteq> filter (\<lambda>x. fst x = q) (db_view ds)"
  using assms
proof (induction ss ds rule: side_by_side.induct)
  case (1 s ss d ds)
  have up: "\<forall>x\<in>set ss. ev_Seq s < ev_Seq x" "\<forall>x\<in>set ds. ee_Seq d < ee_Seq x"
    using "1.prems"(1,2) by auto
  consider (l) "ev_Seq s < ee_Seq d" | (g) "ee_Seq d < ev_Seq s"
    | (t) "ev_Seq s = ee_Seq d" "ev_Type s \<noteq> ee_EventType d"
    | (e) "ev_Seq s = ee_Seq d" "ev_Type s = ee_EventType d" by linarith
  then show ?case
  proof cases
    case l
    have ds: "\<forall>x\<in>set ds. ev_Seq s < ee_Seq x" using up(2) l by force
    then have "\<forall>x\<in>set ds. ev_Seq s \<le> ee_Seq x" "\<forall>x\<in>set ss. ev_Seq s \<le> ev_Seq x" using up(1) by auto
    then show ?thesis using l "1.prems"(3) ds by (auto simp: views_above)
  next
    case g
    have ss: "\<forall>x\<in>set ss. ee_Seq d < ev_Seq x" using up(1) g by force
    then have "\<forall>x\<in>set ss. ee_Seq d \<le> ev_Seq x" "\<forall>x\<in>set ds. ee_Seq d \<le> ee_Seq x" using up(2) by auto
    then show ?thesis using g "1.prems"(3) ss by (auto simp: views_above)
  next
    case t
    have "\<forall>x\<in>set ss. ee_Seq d \<le> ev_Seq x" "\<forall>x\<in>set ds. ee_Seq d \<le> ee_Seq x" using up t by auto
    then show ?thesis using t "1.prems"(3) up by (auto simp: views_above)
  next
    case e
    then have r: "side_by_side ss ds = Some (q, why)" using "1.prems"(3) by simp
    have "ev_Seq s < q" using side_by_side_seq [OF r] up e by auto
    then show ?thesis using "1.IH" r e "1.prems"(1,2) by auto
  qed
next
  case (2 s ss)
  then have "\<forall>x\<in>set ss. ev_Seq s \<le> ev_Seq x" by auto
  then show ?case using 2 by (auto simp: views_above)
next
  case (3 d ds)
  then have "\<forall>x\<in>set ds. ee_Seq d \<le> ee_Seq x" by auto
  then show ?case using 3 by (auto simp: views_above)
qed simp

section \<open>After a projection\<close>

text \<open>When every event has its row, the chain is intact and the snapshot is the tip, the report
  is consistent.\<close>

lemma sort_chain:
  assumes "chain E L rows h"
  shows "sort_key ev_seq rows = rows"
proof -
  have "sorted (map ev_seq rows)"
    using chain_nth [OF assms] by (intro sorted_iff_nth_mono [THEN iffD2]) auto
  then show ?thesis by (rule sort_key_id_if_sorted)
qed

lemma sorted_chain: "chain E L rows h \<Longrightarrow> seq_sorted rows"
  unfolding chain_def by (rule verified_sorted)

lemma chain_full: "chain E L rows h \<Longrightarrow> full_check E L rows = ChainOk"
  using filter_all_positive [OF sorted_chain, of E L rows h]
  by (simp add: full_check_def verifyEvidenceChainRows_def chain_def)

lemma projected_views:
  assumes "projected E L aid es (length es) d"
  shows "stream_view (map event_of es) = db_view (map timeline_event (auction_events d aid))"
proof -
  have "map row_data (auction_events d aid) = map entry_data es" using assms by (rule projected_full(2))
  then have "map (\<lambda>x. (fst x, fst (snd x))) (map row_data (auction_events d aid))
      = map (\<lambda>x. (fst x, fst (snd x))) (map entry_data es)" by (rule arg_cong)
  then show ?thesis
    by (simp add: stream_view_def db_view_def row_data_def entry_data_def event_of_def timeline_event_def comp_def)
qed

lemma projected_consistent:
  assumes r: "readable (rd_keys r aid)" and key: "\<not> bad_type (k_state (rd_keys r aid))"
    and fuel: "length (events_of (rd_keys r aid)) < fuel"
    and p: "projected E L aid (events_of (rd_keys r aid)) (length (events_of (rd_keys r aid))) d"
    and keys: "keys_known L (auction_events d aid)"
    and cache: "\<And>c. chain_cache d aid = Some c \<Longrightarrow> \<exists>rows0. cache_of E L rows0 (auction_events d aid) c"
  shows "\<exists>rep. fst (computeVerifyReport fuel Answered Answered True E L now aid r d) = Inr rep \<and> Consistent rep"
proof -
  let ?es = "events_of (rd_keys r aid)" and ?rows = "auction_events d aid"
  have inv: "room_inv (rd_keys r aid)" using r by (simp add: readable_def)
  obtain h where ch: "chain E L ?rows h" using projected_full(1) [OF p] by blast
  obtain nl where read: "ReadEventsAfter fuel [] (rd_keys r aid) = Collected (map event_of ?es) nl"
    using xrange.collect_all [OF r fuel] by (simp add: ReadEventsAfter_def)
  have tl: "EventTimeline True aid d = Inr (map timeline_event ?rows)"
    by (simp add: EventTimeline_def sort_chain [OF ch])
  have log: "log_ok ?es" using inv by (rule room_invD(1))
  have seq: "h_seq (hash_of (rd_keys r aid)) = int (length ?es)" using inv by (rule room_invD(2))
  have pos: "\<forall>e\<in>set (map event_of ?es). 0 < ev_Seq e"
    using log_ok_nth_seq [OF log] by (auto simp: in_set_conv_nth event_of_def)
  have pos': "\<forall>e\<in>set (map timeline_event ?rows). 0 < ee_Seq e"
    using chain_seq_le [OF ch] by (fastforce simp: timeline_event_def)
  have tip: "?es \<noteq> [] \<Longrightarrow> ev_Seq (last (map event_of ?es)) = int (length ?es)"
    using log_ok_nth_seq [OF log, of "length ?es - 1"]
    by (cases "length ?es") (auto simp: last_map last_conv_nth event_of_def)
  have agree: "fst (findMismatch (map event_of ?es) (map timeline_event ?rows) (int (length ?es))) = 0"
    unfolding findMismatch_agrees [OF pos pos'] using projected_views [OF p] tip by auto
  have ok: "fst (VerifyEvidenceChain E L now ?rows (chain_cache d aid)) = ChainOk"
    using VerifyEvidenceChain_full [OF sorted_chain [OF ch] keys cache] chain_full [OF ch] by simp
  obtain c where c: "VerifyEvidenceChain E L now ?rows (chain_cache d aid) = (ChainOk, c)"
    using ok by (cases "VerifyEvidenceChain E L now ?rows (chain_cache d aid)") auto
  obtain why where why: "findMismatch (map event_of ?es) (map timeline_event ?rows) (int (length ?es)) = (0, why)"
    using agree by (cases "findMismatch (map event_of ?es) (map timeline_event ?rows) (int (length ?es))") auto
  show ?thesis
    using key by (simp add: computeVerifyReport_def Snapshot_def snapshot_of_def read tl seq why c Consistent_def Let_def)
qed

end
