(* ===== verification/Timer.thy ===== *)
theory Timer
  imports Store
begin

text \<open>
  \<^verbatim>\<open>internal/server/timer.go\<close>: the worker that hammers due auctions and rebuilds its index
  from the state hashes. Its index \<^verbatim>\<open>auction:active\<close> is only a cache: every step below is
  checked against what the closing scripts decide.
\<close>

section \<open>One due auction\<close>

text \<open>What a call to \<^verbatim>\<open>closeDue\<close> meets: the fate of each Redis call, the times it reads.\<close>

record close_env =
  ce_snap :: link
  ce_mode :: link
  ce_script :: link
  ce_clock :: link
  ce_mark :: link
  ce_index :: link
  ce_time :: "int \<times> int"
  ce_wallMs :: int

record timer_metrics =
  tm_ErrInternal :: int
  tm_KeyType :: int
  tm_SeqMismatch :: int
  tm_HammerMs :: "int list"

definition timerErrInternalSuppressionMs :: int where
  "timerErrInternalSuppressionMs = 30 * 60 * 1000"

definition timerErrInternalReason :: "string \<Rightarrow> string" where
  "timerErrInternalReason reason = (if reason = [] then ''unknown'' else reason)"

text \<open>The registry may be absent.\<close>

definition recordTimerErrInternal :: "string \<Rightarrow> timer_metrics option \<Rightarrow> timer_metrics option" where
  "recordTimerErrInternal reason m =
     (case m of None \<Rightarrow> None
      | Some x \<Rightarrow>
          (let y = x\<lparr>tm_ErrInternal := tm_ErrInternal x + 1\<rparr>
           in Some (if timerErrInternalReason reason = ''key_type'' then y\<lparr>tm_KeyType := tm_KeyType y + 1\<rparr>
                    else if timerErrInternalReason reason = ''seq_stream_mismatch''
                    then y\<lparr>tm_SeqMismatch := tm_SeqMismatch y + 1\<rparr> else y)))"

definition observe_hammer :: "int \<Rightarrow> int \<Rightarrow> timer_metrics option \<Rightarrow> timer_metrics option" where
  "observe_hammer wall endAtMs m =
     (if endAtMs > 0 then map_option (\<lambda>x. x\<lparr>tm_HammerMs := tm_HammerMs x @ [wall - endAtMs]\<rparr>) m else m)"

text \<open>The deadline read before the close, only for the metric.\<close>

definition scheduled_end :: "link \<Rightarrow> aid \<Rightarrow> redis \<Rightarrow> timer_metrics option \<Rightarrow> int" where
  "scheduled_end l aid r m =
     (case m of None \<Rightarrow> 0
      | Some x \<Rightarrow> (case Snapshot l aid r of IOErr \<Rightarrow> 0 | IOk s \<Rightarrow> sn_EndAtMs s))"

definition closeDue :: "close_env \<Rightarrow> aid \<Rightarrow> redis \<times> timer_metrics option \<Rightarrow> redis \<times> timer_metrics option" where
  "closeDue E aid s =
     (let (r, m) = s; endAtMs = scheduled_end (ce_snap E) aid r m in
      case CloseAuctionDetailed (ce_mode E) (ce_script E) (ce_time E) aid r of
        (IOErr, r1) \<Rightarrow> (r1, m)
      | (IOk (c, reason, closeEnd), r1) \<Rightarrow>
          (if c = OK_SOLD \<or> c = OK_NO_BID
           then (snd (UntrackActive (ce_index E) aid r1), observe_hammer (ce_wallMs E) endAtMs m)
           else if c = ERR_ALREADY_TERMINAL then (snd (UntrackActive (ce_index E) aid r1), m)
           else if c = ERR_NOT_DUE
           then (if closeEnd > 0 then snd (TrackActive (ce_index E) aid closeEnd r1) else r1, m)
           else if c = ERR_INTERNAL
           then (let now = (case RedisNowMs (ce_clock E) (ce_time E) of IOErr \<Rightarrow> ce_wallMs E | IOk n \<Rightarrow> n);
                     r2 = snd (MarkTimerErrInternalSuppression (ce_mark E) aid reason now
                                (now + timerErrInternalSuppressionMs) r1)
                 in (snd (UntrackActive (ce_index E) aid r2), recordTimerErrInternal reason m))
           else (r1, m)))"

definition hammerDue ::
  "link \<Rightarrow> link \<Rightarrow> int \<times> int \<Rightarrow> (aid \<Rightarrow> close_env) \<Rightarrow> redis \<times> timer_metrics option \<Rightarrow> redis \<times> timer_metrics option" where
  "hammerDue l1 l2 t E s =
     (case RedisNowMs l1 t of
        IOErr \<Rightarrow> s
      | IOk now \<Rightarrow> (case DueAuctions l2 now (fst s) of
                     IOErr \<Rightarrow> s | IOk due \<Rightarrow> fold (\<lambda>aid. closeDue (E aid) aid) due s))"

section \<open>Rebuilding the index\<close>

record reconcile_env =
  re_clock :: link
  re_time :: "int \<times> int"
  re_wallMs :: int
  re_snap :: "aid \<Rightarrow> link"
  re_supp :: "aid \<Rightarrow> link"
  re_track :: "aid \<Rightarrow> link"

text \<open>The second component collects the calls to \<^verbatim>\<open>OnTickStall\<close>.\<close>

definition reconcile_one ::
  "reconcile_env \<Rightarrow> int \<Rightarrow> aid \<Rightarrow> redis \<times> (aid \<times> uid \<times> money) list \<Rightarrow> redis \<times> (aid \<times> uid \<times> money) list" where
  "reconcile_one E nowMs aid s =
     (let (r, ticks) = s in
      case Snapshot (re_snap E aid) aid r of
        IOErr \<Rightarrow> s
      | IOk sn \<Rightarrow>
          (if sn_Status sn = Some LIVE \<and> sn_EndAtMs sn > 0 then
             (case TimerErrInternalSuppression (re_supp E aid) aid r of
                IOErr \<Rightarrow> s
              | IOk (untilMs, reason) \<Rightarrow>
                  (if untilMs > nowMs then s
                   else (snd (TrackActive (re_track E aid) aid (sn_EndAtMs sn) r),
                         ticks @ [(aid, sn_WinnerID sn, sn_CurrentPriceCents sn)])))
           else s))"

definition reconcileActive ::
  "reconcile_env \<Rightarrow> string list option list \<Rightarrow> redis \<Rightarrow> redis \<times> (aid \<times> uid \<times> money) list" where
  "reconcileActive E pages r =
     (case ScanStateAIDs pages of
        None \<Rightarrow> (r, [])
      | Some aids \<Rightarrow>
          (let nowMs = (case RedisNowMs (re_clock E) (re_time E) of IOErr \<Rightarrow> re_wallMs E | IOk n \<Rightarrow> n)
           in fold (reconcile_one E nowMs) aids (r, [])))"

section \<open>The closing scripts as one script\<close>

fun close_cmd :: "mode \<Rightarrow> cmd" where
  "close_cmd m = (case NormalizeMode m of
        SEALED_FIRST \<Rightarrow> CCloseSealed FIRST | VICKREY \<Rightarrow> CCloseSealed SECOND
      | ALL_PAY \<Rightarrow> CCloseAllPay | _ \<Rightarrow> CClose)"

lemma close_script_exec: "close_script m t k = exec (close_cmd m) t k"
  by (simp add: close_script_def split: mode.split)

interpretation close_any: hot_script close_script
  unfolding close_script_exec [abs_def]
  by unfold_locales (auto intro: engine.keeps_inv engine.log_grows engine.terminal_frozen
      engine.refusal_writes_nothing dest: engine.no_dirty_stop)

definition keys_good :: "akeys \<Rightarrow> bool" where
  "keys_good k \<longleftrightarrow> \<not> bad_type (k_state k) \<and> \<not> bad_type (k_events k) \<and> \<not> bad_type (k_sealed k)
     \<and> \<not> bad_type (k_sealednames k) \<and> \<not> bad_type (k_leaderboard k)"

lemma keys_good_exec: "room_inv k \<Longrightarrow> keys_good k \<Longrightarrow> keys_good (snd (exec c t k))"
  using exec_types [of k t c] by (auto simp: keys_good_def keeps_def)

lemma keys_good_close: "room_inv k \<Longrightarrow> keys_good k \<Longrightarrow> keys_good (snd (close_script m t k))"
  unfolding close_script_exec by (rule keys_good_exec)

text \<open>A live auction that is due is closed, whatever its mode.\<close>

lemma close_script_closes:
  assumes inv: "room_inv k" and good: "keys_good k" and live: "h_status (hash_of k) = Some LIVE"
    and due: "h_endAtMs (hash_of k) \<le> redis_now t"
  shows "\<exists>c vs. c \<in> {OK_SOLD, OK_NO_BID} \<and> fst (close_script m t k) = Reply c vs
      \<and> status_terminal (hash_of (snd (close_script m t k)))"
proof -
  note q = room_invD(4,3) [OF inv]
  note eqs = end_auction_eq [OF q] reveal_and_sell_eq [OF q]
  note defs = close_prologue_def close_auction_sealed_def close_auction_allpay_def close_auction_def
    status_terminal_def Let_def
  show ?thesis
    using good live due q
    by (cases "sealed_of k = []"; cases "h_winnerId (hash_of k) = []")
       (auto simp: close_script_def keys_good_def defs eqs split: mode.split)
qed

lemma close_script_refuses:
  assumes good: "keys_good k" and t: "status_terminal (hash_of k)"
  shows "close_script m t' k = (Reply ERR_ALREADY_TERMINAL [RState (h_status (hash_of k))], k)"
  using assms
  by (auto simp: close_script_def keys_good_def close_prologue_def close_auction_sealed_def
      close_auction_allpay_def close_auction_def status_terminal_def Let_def split: mode.split option.splits)

section \<open>What one call does to the other auctions\<close>

lemma put_keys_sel [simp]:
  "rd_keys (put_keys aid k r) a = (if a = aid then k else rd_keys r a)"
  "rd_active (put_keys aid k r) = rd_active r"
  by (simp_all add: put_keys_def)

lemma eval_active [simp]: "rd_active (snd (eval l aid s r)) = rd_active r"
  by (simp add: eval_def Let_def split_def split: reply.split)

lemma index_frame [simp]:
  "rd_keys (snd (UntrackActive l aid r)) = rd_keys r"
  "rd_keys (snd (TrackActive l aid e r)) = rd_keys r"
  by (simp_all add: UntrackActive_def TrackActive_def)

lemma zscore_zrem [simp]: "zscore (zrem m z) = (zscore z)(m := None)"
  by (simp add: zscore_def [abs_def] map_of_zrem)

lemma index_other:
  "a \<noteq> aid \<Longrightarrow> zscore (rd_active (snd (UntrackActive l aid r))) a = zscore (rd_active r) a"
  "a \<noteq> aid \<Longrightarrow> zscore (rd_active (snd (TrackActive l aid e r))) a = zscore (rd_active r) a"
  by (simp_all add: UntrackActive_def TrackActive_def)

lemma close_detailed_frame:
  "rd_active (snd (CloseAuctionDetailed l1 l2 t aid r)) = rd_active r"
  "a \<noteq> aid \<Longrightarrow> rd_keys (snd (CloseAuctionDetailed l1 l2 t aid r)) a = rd_keys r a"
proof -
  obtain x r' where e: "eval l2 aid (close_script (h_mode (hash_of (rd_keys r aid))) t) r = (x, r')"
    by (cases "eval l2 aid (close_script (h_mode (hash_of (rd_keys r aid))) t) r")
  then have r': "rd_active r' = rd_active r" "a \<noteq> aid \<Longrightarrow> rd_keys r' a = rd_keys r a"
    using eval_active [of l2 aid "close_script (h_mode (hash_of (rd_keys r aid))) t" r]
      eval_other [of a aid l2 "close_script (h_mode (hash_of (rd_keys r aid))) t" r] by simp_all
  show "rd_active (snd (CloseAuctionDetailed l1 l2 t aid r)) = rd_active r"
    using r'(1) by (cases x) (auto simp: CloseAuctionDetailed_def e)
  show "a \<noteq> aid \<Longrightarrow> rd_keys (snd (CloseAuctionDetailed l1 l2 t aid r)) a = rd_keys r a"
    using r'(2) by (cases x) (auto simp: CloseAuctionDetailed_def e)
qed

lemma mark_frame:
  "rd_active (snd (MarkTimerErrInternalSuppression l aid reason n u r)) = rd_active r"
  "a \<noteq> aid \<Longrightarrow> rd_keys (snd (MarkTimerErrInternalSuppression l aid reason n u r)) a = rd_keys r a"
  by (simp_all add: MarkTimerErrInternalSuppression_def Let_def)

lemma closeDue_other:
  assumes "a \<noteq> aid"
  shows "rd_keys (fst (closeDue E aid s)) a = rd_keys (fst s) a
    \<and> zscore (rd_active (fst (closeDue E aid s))) a = zscore (rd_active (fst s)) a"
proof -
  obtain r m where s: "s = (r, m)" by (cases s)
  obtain x r1 where c: "CloseAuctionDetailed (ce_mode E) (ce_script E) (ce_time E) aid r = (x, r1)"
    by (cases "CloseAuctionDetailed (ce_mode E) (ce_script E) (ce_time E) aid r")
  then have r1: "rd_active r1 = rd_active r" "rd_keys r1 a = rd_keys r a"
    using close_detailed_frame(1) [of "ce_mode E" "ce_script E" "ce_time E" aid r]
      close_detailed_frame(2) [OF assms, of "ce_mode E" "ce_script E" "ce_time E" r] by simp_all
  show ?thesis
    using r1 assms
    by (auto simp: s closeDue_def Let_def c index_other mark_frame split: io.split)
qed

section \<open>Closing\<close>

lemma detailed_closes:
  assumes inv: "room_inv (rd_keys r aid)" and good: "keys_good (rd_keys r aid)"
    and st: "h_status (hash_of (rd_keys r aid)) = Some LIVE"
      "h_endAtMs (hash_of (rd_keys r aid)) \<le> redis_now t"
  shows "\<exists>c. c \<in> {OK_SOLD, OK_NO_BID} \<and> CloseAuctionDetailed Answered Answered t aid r =
      (IOk (c, [], 0), put_keys aid (snd (close_script (h_mode (hash_of (rd_keys r aid))) t (rd_keys r aid))) r)"
proof -
  let ?s = "close_script (h_mode (hash_of (rd_keys r aid))) t (rd_keys r aid)"
  obtain c vs where c: "c \<in> {OK_SOLD, OK_NO_BID}" "fst ?s = Reply c vs"
    using close_script_closes [OF inv good st] by blast
  then show ?thesis
    using good by (auto simp: CloseAuctionDetailed_def eval_def Let_def split_def keys_good_def)
qed

lemma detailed_terminal:
  assumes good: "keys_good (rd_keys r aid)" and st: "status_terminal (hash_of (rd_keys r aid))"
  shows "CloseAuctionDetailed Answered Answered t aid r = (IOk (ERR_ALREADY_TERMINAL, [], 0), r)"
  using good close_script_refuses [OF good st]
  by (auto simp: CloseAuctionDetailed_def eval_def Let_def keys_good_def put_keys_def)

definition all_answered :: "close_env \<Rightarrow> bool" where
  "all_answered E \<longleftrightarrow> ce_mode E = Answered \<and> ce_script E = Answered \<and> ce_index E = Answered"

text \<open>An auction that is over, or that a call at the time of \<open>E\<close> would close.\<close>

definition closable :: "close_env \<Rightarrow> aid \<Rightarrow> redis \<Rightarrow> bool" where
  "closable E aid r \<longleftrightarrow> (let k = rd_keys r aid in room_inv k \<and> keys_good k
     \<and> (status_terminal (hash_of k)
        \<or> h_status (hash_of k) = Some LIVE \<and> h_endAtMs (hash_of k) \<le> redis_now (ce_time E)))"

lemma closeDue_closes:
  assumes a: "all_answered E" and c: "closable E aid (fst s)"
  shows "status_terminal (hash_of (rd_keys (fst (closeDue E aid s)) aid))
    \<and> zscore (rd_active (fst (closeDue E aid s))) aid = None \<and> closable E aid (fst (closeDue E aid s))"
proof -
  obtain r m where s: "s = (r, m)" by (cases s)
  let ?k = "rd_keys r aid"
  have inv: "room_inv ?k" and good: "keys_good ?k" using c by (simp_all add: closable_def s Let_def)
  show ?thesis
  proof (cases "status_terminal (hash_of ?k)")
    case True
    then show ?thesis
      using a c detailed_terminal [OF good True, of "ce_time E"]
      by (simp add: closeDue_def s Let_def all_answered_def UntrackActive_def closable_def)
  next
    case False
    then have st: "h_status (hash_of ?k) = Some LIVE" "h_endAtMs (hash_of ?k) \<le> redis_now (ce_time E)"
      using c by (simp_all add: closable_def s Let_def)
    let ?k' = "snd (close_script (h_mode (hash_of ?k)) (ce_time E) ?k)"
    have t: "status_terminal (hash_of ?k')"
      using close_script_closes [OF inv good st] by blast
    have "room_inv ?k'" "keys_good ?k'"
      using inv good by (simp_all add: close_any.keeps_inv keys_good_close)
    then show ?thesis
      using a t detailed_closes [OF inv good st]
      by (auto simp: closeDue_def s Let_def all_answered_def UntrackActive_def closable_def)
  qed
qed

lemma closable_other:
  "a \<noteq> aid \<Longrightarrow> closable E a (fst (closeDue F aid s)) = closable E a (fst s)"
  by (simp add: closable_def closeDue_other)

lemma fold_closes:
  assumes "all_answered (E a)" "closable (E a) a (fst s)" "a \<in> set due \<or>
      status_terminal (hash_of (rd_keys (fst s) a)) \<and> zscore (rd_active (fst s)) a = None"
  shows "status_terminal (hash_of (rd_keys (fst (fold (\<lambda>aid. closeDue (E aid) aid) due s)) a))
    \<and> zscore (rd_active (fst (fold (\<lambda>aid. closeDue (E aid) aid) due s))) a = None"
  using assms
proof (induction due arbitrary: s)
  case (Cons b due)
  show ?case
  proof (cases "b = a")
    case True
    then show ?thesis
      using Cons.IH [of "closeDue (E a) a s"] closeDue_closes [OF Cons.prems(1,2)] Cons.prems(1) by simp
  next
    case False
    then show ?thesis
      using Cons.IH [of "closeDue (E b) b s"] Cons.prems
      by (simp add: closeDue_other [of a b] closable_other [of a b])
  qed
qed simp

lemma hammerDue_closes:
  assumes env: "all_answered (E aid)" and c: "closable (E aid) aid (fst s)"
    and idx: "zscore (rd_active (fst s)) aid = Some e" "e \<le> redis_now t"
  shows "status_terminal (hash_of (rd_keys (fst (hammerDue Answered Answered t E s)) aid))
    \<and> zscore (rd_active (fst (hammerDue Answered Answered t E s))) aid = None"
proof -
  have "(aid, e) \<in> set (rd_active (fst s))" using idx(1) by (simp add: zscore_def map_of_SomeD)
  then have "aid \<in> set (map fst (rev (filter (\<lambda>x. snd x \<le> redis_now t) (rd_active (fst s)))))"
    using idx(2) by force
  then show ?thesis
    using fold_closes [where E = E, OF env c] unfolding hammerDue_def RedisNowMs_def DueAuctions_def by simp
qed

text \<open>A call that is too early, or that meets an auction nobody started, changes no room.\<close>

lemma closeDue_early:
  assumes good: "keys_good (rd_keys (fst s) aid)" and inv: "room_inv (rd_keys (fst s) aid)"
    and early: "h_status (hash_of (rd_keys (fst s) aid)) = Some LIVE"
      "redis_now (ce_time E) < h_endAtMs (hash_of (rd_keys (fst s) aid))"
    and l: "ce_script E = Answered" "ce_mode E = Answered"
  shows "rd_keys (fst (closeDue E aid s)) = rd_keys (fst s)"
proof -
  obtain r m where s: "s = (r, m)" by (cases s)
  let ?k = "rd_keys r aid"
  have "close_script (h_mode (hash_of ?k)) (ce_time E) ?k =
      (Reply ERR_NOT_DUE [RInt (h_endAtMs (hash_of ?k)), RInt (redis_now (ce_time E))], ?k)"
    using good early
    by (auto simp: s close_script_def keys_good_def close_prologue_def close_auction_sealed_def
        close_auction_allpay_def close_auction_def Let_def split: mode.split)
  then have "CloseAuctionDetailed (ce_mode E) (ce_script E) (ce_time E) aid r =
      (IOk (ERR_NOT_DUE, [], h_endAtMs (hash_of ?k)), r)"
    using good l by (simp add: s CloseAuctionDetailed_def eval_def Let_def keys_good_def put_keys_def)
  then show ?thesis by (simp add: s closeDue_def Let_def)
qed

text \<open>Every auction's keys stay well-formed, whatever calls fail.\<close>

lemma eval_inv:
  assumes "\<And>k. room_inv k \<Longrightarrow> room_inv (snd (script k))" "room_inv (rd_keys r a)"
  shows "room_inv (rd_keys (snd (eval l aid script r)) a)"
  using assms eval_keys [of l aid script r] eval_other [of a aid l script r] by (cases "a = aid") auto

lemma closeDue_inv:
  assumes "room_inv (rd_keys (fst s) a)"
  shows "room_inv (rd_keys (fst (closeDue E aid s)) a)"
proof -
  obtain r m where s: "s = (r, m)" by (cases s)
  obtain x r1 where c: "CloseAuctionDetailed (ce_mode E) (ce_script E) (ce_time E) aid r = (x, r1)"
    by (cases "CloseAuctionDetailed (ce_mode E) (ce_script E) (ce_time E) aid r")
  have "room_inv (rd_keys (snd (CloseAuctionDetailed (ce_mode E) (ce_script E) (ce_time E) aid r)) a)"
    using assms eval_inv [of "close_script (h_mode (hash_of (rd_keys r aid))) (ce_time E)" r a "ce_script E" aid,
        OF close_any.keeps_inv]
    by (auto simp: s CloseAuctionDetailed_def split_def split: io.split)
  then have "room_inv (rd_keys r1 a)" by (simp add: c)
  then show ?thesis
    by (auto simp: s closeDue_def Let_def c same_room_suppression split: io.split)
qed

section \<open>Reconciling\<close>

lemma reconcile_one_keys [simp]: "rd_keys (fst (reconcile_one E n a s)) = rd_keys (fst s)"
  by (simp add: reconcile_one_def split_def Let_def split: io.split)

lemma reconcile_fold_keys [simp]: "rd_keys (fst (fold (reconcile_one E n) aids s)) = rd_keys (fst s)"
  by (induction aids arbitrary: s) simp_all

lemma reconcileActive_keys [simp]: "rd_keys (fst (reconcileActive E pages r)) = rd_keys r"
  by (simp add: reconcileActive_def Let_def split: option.split)

text \<open>An auction the reconcile pass will put back: live, with a deadline, not suppressed.\<close>

definition hammerable :: "int \<Rightarrow> room_hash \<Rightarrow> bool" where
  "hammerable nowMs h \<longleftrightarrow> h_status h = Some LIVE \<and> 0 < h_endAtMs h \<and> h_suppressUntilMs h \<le> nowMs"

lemma reconcile_one_tracks:
  assumes "hammerable n (hash_of (rd_keys (fst s) a))" "\<not> bad_type (k_state (rd_keys (fst s) a))"
    and "re_snap E a = Answered" "re_supp E a = Answered" "re_track E a = Answered"
  shows "zscore (rd_active (fst (reconcile_one E n a s))) a = Some (h_endAtMs (hash_of (rd_keys (fst s) a)))"
  using assms
  by (simp add: reconcile_one_def split_def hammerable_def Snapshot_def snapshot_of_def
      TimerErrInternalSuppression_def TrackActive_def Let_def)

lemma reconcile_one_other:
  "a \<noteq> b \<Longrightarrow> zscore (rd_active (fst (reconcile_one E n b s))) a = zscore (rd_active (fst s)) a"
  by (simp add: reconcile_one_def split_def Let_def index_other split: io.split)

lemma reconcile_fold_tracks:
  assumes "hammerable n (hash_of (rd_keys (fst s) a))" "\<not> bad_type (k_state (rd_keys (fst s) a))"
    and "re_snap E a = Answered" "re_supp E a = Answered" "re_track E a = Answered"
    and "a \<in> set aids \<or> zscore (rd_active (fst s)) a = Some (h_endAtMs (hash_of (rd_keys (fst s) a)))"
  shows "zscore (rd_active (fst (fold (reconcile_one E n) aids s))) a
       = Some (h_endAtMs (hash_of (rd_keys (fst s) a)))"
  using assms
proof (induction aids arbitrary: s)
  case (Cons b aids)
  show ?case
    using Cons.IH [of "reconcile_one E n b s"] Cons.prems reconcile_one_tracks [OF Cons.prems(1-5)]
    by (cases "a = b") (auto simp: reconcile_one_other)
qed simp

lemma reconcileActive_tracks:
  assumes live: "hammerable (redis_now (re_time E)) (hash_of (rd_keys r a))"
      "\<not> bad_type (k_state (rd_keys r a))"
    and l: "re_clock E = Answered" "re_snap E a = Answered" "re_supp E a = Answered" "re_track E a = Answered"
    and scan: "stateKey a \<in> set (concat kss)" "a \<noteq> []"
  shows "zscore (rd_active (fst (reconcileActive E (map Some kss) r))) a = Some (h_endAtMs (hash_of (rd_keys r a)))"
proof -
  obtain aids where "ScanStateAIDs (map Some kss) = Some aids" "a \<in> set aids"
    using ScanStateAIDs_complete [OF scan] by blast
  then show ?thesis
    using reconcile_fold_tracks [of "redis_now (re_time E)" "(r, [])" a E aids] live l
    by (simp add: reconcileActive_def RedisNowMs_def)
qed

text \<open>A suppressed auction is not put back.\<close>

lemma reconcile_one_suppressed:
  assumes "n < h_suppressUntilMs (hash_of (rd_keys (fst s) a))"
  shows "reconcile_one E n a s = s"
  using assms
  by (cases s) (auto simp: reconcile_one_def Snapshot_def snapshot_of_def TimerErrInternalSuppression_def
      Let_def split: io.split)

lemma reconcile_suppressed:
  assumes s: "redis_now (re_time E) < h_suppressUntilMs (hash_of (rd_keys r a))" and l: "re_clock E = Answered"
  shows "zscore (rd_active (fst (reconcileActive E pages r))) a = zscore (rd_active r) a"
proof -
  have "zscore (rd_active (fst (fold (reconcile_one E (redis_now (re_time E))) aids x))) a = zscore (rd_active (fst x)) a"
    if "rd_keys (fst x) = rd_keys r" for aids x
    using that
  proof (induction aids arbitrary: x)
    case (Cons b aids)
    then show ?case
      using s reconcile_one_suppressed [of "redis_now (re_time E)" x a E]
      by (cases "a = b") (auto simp: reconcile_one_other)
  qed simp
  then show ?thesis using l by (simp add: reconcileActive_def RedisNowMs_def split: option.split)
qed

text \<open>A corrupt auction leaves the index and is suppressed for the interval.\<close>

lemma closeDue_suppresses:
  assumes bad: "fst (close_script (h_mode (hash_of (rd_keys r aid))) (ce_time E) (rd_keys r aid))
      = Reply ERR_INTERNAL [RStr reason]" and key: "\<not> bad_type (k_state (rd_keys r aid))"
    and l: "all_answered E" "ce_clock E = Answered" "ce_mark E = Answered" and t: "0 \<le> redis_now (ce_time E)"
  shows "zscore (rd_active (fst (closeDue E aid (r, m)))) aid = None
    \<and> h_suppressUntilMs (hash_of (rd_keys (fst (closeDue E aid (r, m))) aid))
        = redis_now (ce_time E) + timerErrInternalSuppressionMs"
proof -
  let ?run = "close_script (h_mode (hash_of (rd_keys r aid))) (ce_time E) (rd_keys r aid)"
  have "\<not> accepting (fst ?run)" unfolding bad by simp
  then have "?run = (Reply ERR_INTERNAL [RStr reason], rd_keys r aid)"
    using bad close_any.refusal_writes_nothing by (metis prod.collapse)
  then have "CloseAuctionDetailed Answered Answered (ce_time E) aid r = (IOk (ERR_INTERNAL, reason, 0), r)"
    using key by (simp add: CloseAuctionDetailed_def eval_def Let_def put_keys_def)
  then show ?thesis
    using l key t
    by (simp add: closeDue_def Let_def all_answered_def RedisNowMs_def UntrackActive_def
        MarkTimerErrInternalSuppression_def set_hash_def timerErrInternalSuppressionMs_def)
qed

text \<open>A live auction that dropped out of the index is hammered after one reconcile pass, once
  its deadline has passed.\<close>

lemma reconcile_then_hammer:
  fixes kss :: "string list list" and m :: "timer_metrics option"
  assumes inv: "room_inv (rd_keys r a)" and good: "keys_good (rd_keys r a)"
    and live: "hammerable (redis_now (re_time E)) (hash_of (rd_keys r a))"
    and l: "re_clock E = Answered" "re_snap E a = Answered" "re_supp E a = Answered" "re_track E a = Answered"
    and scan: "stateKey a \<in> set (concat kss)" "a \<noteq> []"
    and due: "h_endAtMs (hash_of (rd_keys r a)) \<le> redis_now t" "ce_time (F a) = t" "all_answered (F a)"
  defines "r' \<equiv> fst (hammerDue Answered Answered t F (fst (reconcileActive E (map Some kss) r), m))"
  shows "status_terminal (hash_of (rd_keys r' a))" "zscore (rd_active r') a = None"
proof -
  let ?r1 = "fst (reconcileActive E (map Some kss) r)"
  have "\<not> bad_type (k_state (rd_keys r a))" using good by (simp add: keys_good_def)
  then have idx: "zscore (rd_active ?r1) a = Some (h_endAtMs (hash_of (rd_keys r a)))"
    using reconcileActive_tracks [OF live _ l scan] by simp
  have "closable (F a) a ?r1"
    using inv good live due by (simp add: closable_def hammerable_def Let_def)
  then have "status_terminal (hash_of (rd_keys r' a)) \<and> zscore (rd_active r') a = None"
    using hammerDue_closes [of F a "(?r1, m)", OF due(3)] idx due(1) unfolding r'_def by simp
  then show "status_terminal (hash_of (rd_keys r' a))" and "zscore (rd_active r') a = None" by auto
qed

end
