(* ===== verification/Hub.thy ===== *)
theory Hub
  imports Store
begin

text \<open>
  The gateway's hub (\<^verbatim>\<open>internal/server/ws.go\<close>): which connections are in which room, the
  lock-free fan-out guarded by room epochs, and the cached room state the fast-reject filter
  of the bid path reads. Then: a frame never reaches a connection that left the room, and a
  cache fed with events of the log is never ahead of the log.
\<close>

section \<open>Envelopes\<close>

record RoomStatePatchData =
  pa_FromSeq :: int
  pa_Seq :: int
  pa_Status :: string
  pa_CurrentPriceCents :: money
  pa_WinnerID :: uid
  pa_WinnerDisplayName :: string
  pa_EndAtMs :: int
  pa_ExtendCount :: int
  pa_BidCountDelta :: int
  pa_BidCountTotal :: int
  pa_ServerTimeMs :: int

datatype frame_data = DNone | DEvent json | DBid BidAcceptedData | DRejected code
  | DSnapshot RoomSnapshotData | DPatch RoomStatePatchData

record Envelope =
  en_Type :: msg_type
  en_AuctionID :: aid
  en_RequestID :: string
  en_Seq :: int
  en_ServerTimeMs :: int
  en_Data :: frame_data

definition NewEnvelope :: "int \<Rightarrow> msg_type \<Rightarrow> aid \<Rightarrow> int \<Rightarrow> frame_data \<Rightarrow> Envelope" where
  "NewEnvelope wall ty aid q d =
     \<lparr>en_Type = ty, en_AuctionID = aid, en_RequestID = [], en_Seq = q, en_ServerTimeMs = wall, en_Data = d\<rparr>"

section \<open>Rooms\<close>

record roomState =
  rs_priceCents :: money
  rs_endAtMs :: int
  rs_terminal :: bool
  rs_mode :: mode

definition cold :: roomState where
  "cold = \<lparr>rs_priceCents = [], rs_endAtMs = 0, rs_terminal = False, rs_mode = ModeEmpty\<rparr>"

text \<open>Connections are numbered; \<^verbatim>\<open>hub_epoch\<close> is the room epoch of each.\<close>

type_synonym cid = nat

record hub =
  hub_rooms :: "aid \<rightharpoonup> cid list"
  hub_state :: "aid \<rightharpoonup> roomState"
  hub_epoch :: "cid \<Rightarrow> nat"

definition newHub :: hub where
  "newHub = \<lparr>hub_rooms = Map.empty, hub_state = Map.empty, hub_epoch = (\<lambda>c. 0)\<rparr>"

definition members :: "hub \<Rightarrow> aid \<Rightarrow> cid list" where
  "members h aid = (case hub_rooms h aid of None \<Rightarrow> [] | Some cs \<Rightarrow> cs)"

definition bump :: "cid \<Rightarrow> hub \<Rightarrow> hub" where
  "bump c h = h\<lparr>hub_epoch := (hub_epoch h)(c := hub_epoch h c + 1)\<rparr>"

definition hub_join :: "aid \<Rightarrow> cid \<Rightarrow> hub \<Rightarrow> hub" where
  "hub_join aid c h =
     bump c (h\<lparr>hub_rooms := (hub_rooms h)(aid \<mapsto> List.insert c (members h aid))\<rparr>)"

text \<open>\<^verbatim>\<open>leave\<close>; \<^verbatim>\<open>caid\<close> is the room the connection says it is in.\<close>

definition hub_leave :: "aid \<Rightarrow> cid \<Rightarrow> hub \<Rightarrow> hub" where
  "hub_leave caid c h =
     (if caid = [] then h
      else (case hub_rooms h caid of
              None \<Rightarrow> h
            | Some cs \<Rightarrow>
                (let cs' = filter (\<lambda>x. x \<noteq> c) cs
                 in bump c (h\<lparr>hub_rooms := (hub_rooms h)(caid := (if cs' = [] then None else Some cs'))\<rparr>))))"

definition viewerCount :: "hub \<Rightarrow> aid \<Rightarrow> int" where
  "viewerCount h aid = int (length (members h aid))"

text \<open>The fan-out: a snapshot of recipients with their epochs, then one send per recipient
  whose epoch did not move. \<open>h'\<close> is the hub at the time of each check.\<close>

definition bcast_snapshot :: "hub \<Rightarrow> aid \<Rightarrow> (cid \<times> nat) list" where
  "bcast_snapshot h aid = map (\<lambda>c. (c, hub_epoch h c)) (members h aid)"

definition bcast_send :: "(cid \<Rightarrow> hub) \<Rightarrow> (cid \<times> nat) list \<Rightarrow> cid list" where
  "bcast_send h' targets = map fst (filter (\<lambda>(c, e). hub_epoch (h' c) c = e) targets)"

section \<open>The cached room state\<close>

text \<open>The price ratchet, shared by \<^verbatim>\<open>updateRoomState\<close> and \<^verbatim>\<open>markTerminalAndUpdate\<close>.\<close>

definition ratchet :: "money \<Rightarrow> money \<Rightarrow> money" where
  "ratchet cur new =
     (if new = [] then cur
      else (case ParseInt new of
              POk newN \<Rightarrow>
                (if cur = [] then new
                 else (case ParseInt cur of POk curN \<Rightarrow> (if newN > curN then new else cur) | _ \<Rightarrow> cur))
            | _ \<Rightarrow> cur))"

definition touch :: "money \<Rightarrow> int \<Rightarrow> roomState \<Rightarrow> roomState" where
  "touch price endAtMs rs =
     rs\<lparr>rs_priceCents := ratchet (rs_priceCents rs) price, rs_endAtMs := max (rs_endAtMs rs) endAtMs\<rparr>"

definition state_or_new :: "hub \<Rightarrow> aid \<Rightarrow> roomState" where
  "state_or_new h aid = (case hub_state h aid of None \<Rightarrow> cold | Some rs \<Rightarrow> rs)"

definition put_state :: "aid \<Rightarrow> roomState \<Rightarrow> hub \<Rightarrow> hub" where
  "put_state aid rs h = h\<lparr>hub_state := (hub_state h)(aid \<mapsto> rs)\<rparr>"

definition updateRoomState :: "aid \<Rightarrow> money \<Rightarrow> int \<Rightarrow> hub \<Rightarrow> hub" where
  "updateRoomState aid price endAtMs h =
     (if aid = [] then h else put_state aid (touch price endAtMs (state_or_new h aid)) h)"

definition markTerminalAndUpdate :: "aid \<Rightarrow> money \<Rightarrow> int \<Rightarrow> hub \<Rightarrow> hub" where
  "markTerminalAndUpdate aid price endAtMs h =
     (if aid = [] then h
      else put_state aid ((touch price endAtMs (state_or_new h aid))\<lparr>rs_terminal := True\<rparr>) h)"

definition roomStateSnap :: "hub \<Rightarrow> aid \<Rightarrow> roomState" where
  "roomStateSnap h aid = state_or_new h aid"

definition setMode :: "aid \<Rightarrow> mode \<Rightarrow> hub \<Rightarrow> hub" where
  "setMode aid m h =
     (if m = ModeEmpty \<or> m = ENGLISH then h
      else put_state aid ((state_or_new h aid)\<lparr>rs_mode := m\<rparr>) h)"

definition dropRoomState :: "aid \<Rightarrow> hub \<Rightarrow> hub" where
  "dropRoomState aid h = h\<lparr>hub_state := (hub_state h)(aid := None)\<rparr>"

definition updateRoomStateFromEvent :: "aid \<Rightarrow> StreamEvent \<Rightarrow> hub \<Rightarrow> hub" where
  "updateRoomStateFromEvent aid e h =
     (let p = ev_Payload e; t = ev_Type e in
      if t = AUCTION_SOLD then
        dropRoomState aid (markTerminalAndUpdate aid
          (case decode_sold p of None \<Rightarrow> [] | Some d \<Rightarrow> sold_amountCents d) 0 h)
      else if t = AUCTION_NO_BID \<or> t = AUCTION_CANCELLED then
        dropRoomState aid (markTerminalAndUpdate aid [] 0 h)
      else if t = BID_ACCEPTED then
        (case decode_bid p of
           None \<Rightarrow> h
         | Some d \<Rightarrow>
             (if bid_status d = state_name SOLD
              then dropRoomState aid (markTerminalAndUpdate aid (bid_amountCents d) (bid_endAtMs d) h)
              else updateRoomState aid (bid_amountCents d) (bid_endAtMs d) h))
      else if t = AUCTION_EXTENDED then
        (case decode_ext p of None \<Rightarrow> h | Some d \<Rightarrow> updateRoomState aid [] (ext_endAtMs d) h)
      else if t = AUCTION_REVEALED then
        markTerminalAndUpdate aid (case decode_reveal p of None \<Rightarrow> [] | Some d \<Rightarrow> reveal_amountCents d) 0 h
      else h)"

section \<open>Admission and room affinity\<close>

text \<open>\<^verbatim>\<open>tryReserveWS\<close>: the compare-and-swap loop is atomic; \<^term>\<open>None\<close> is an absent registry. The
  state is the number of live connections and of rejections.\<close>

definition tryReserveWS :: "int \<Rightarrow> (int \<times> int) option \<Rightarrow> bool \<times> (int \<times> int) option" where
  "tryReserveWS limit m =
     (case m of
        None \<Rightarrow> (True, None)
      | Some (active, rej) \<Rightarrow>
          (if limit \<le> 0 then (True, Some (active + 1, rej))
           else if active \<ge> limit then (False, Some (active, rej + 1))
           else (True, Some (active + 1, rej))))"

definition gatewayHostsRoom :: "int \<Rightarrow> bool \<Rightarrow> bool \<times> bool" where
  "gatewayHostsRoom localViewers seeded =
     (if localViewers = 0 then (False, False) else (True, \<not> seeded))"

section \<open>Epochs protect the fan-out\<close>

inductive moves :: "hub \<Rightarrow> hub \<Rightarrow> bool" where
  moves_refl: "moves h h"
| moves_join: "moves h h' \<Longrightarrow> moves h (hub_join aid c h')"
| moves_leave: "moves h h' \<Longrightarrow> moves h (hub_leave aid c h')"
| moves_state: "moves h h' \<Longrightarrow> moves h (h'\<lparr>hub_state := st\<rparr>)"

lemma bump_sel [simp]:
  "hub_rooms (bump c h) = hub_rooms h" "hub_state (bump c h) = hub_state h"
  "hub_epoch (bump c h) = (hub_epoch h)(c := hub_epoch h c + 1)"
  by (simp_all add: bump_def)

lemma members_join: "members (hub_join aid c h) a = (if a = aid then List.insert c (members h aid) else members h a)"
  by (simp add: members_def hub_join_def)

lemma members_leave: "set (members (hub_leave aid c h) a) =
    (if a = aid \<and> aid \<noteq> [] then set (members h a) - {c} else set (members h a))"
  by (auto simp: members_def hub_leave_def Let_def filter_empty_conv split: option.split)

lemma epoch_join: "hub_epoch (hub_join aid c h) = (hub_epoch h)(c := hub_epoch h c + 1)"
  by (simp add: hub_join_def)

lemma epoch_leave: "hub_epoch (hub_leave aid c h) =
    (if aid = [] \<or> hub_rooms h aid = None then hub_epoch h else (hub_epoch h)(c := hub_epoch h c + 1))"
  by (auto simp: hub_leave_def Let_def split: option.split)

text \<open>A connection whose epoch is the same is in the same rooms.\<close>

lemma moves_epoch:
  assumes "moves h h'"
  shows "hub_epoch h c \<le> hub_epoch h' c
    \<and> (hub_epoch h' c = hub_epoch h c \<longrightarrow> (c \<in> set (members h' a) \<longleftrightarrow> c \<in> set (members h a)))"
  using assms
proof (induction rule: moves.induct)
  case (moves_join h h' aid b)
  then show ?case by (auto simp: epoch_join members_join)
next
  case (moves_leave h h' aid b)
  have "members h' aid = []" if "hub_rooms h' aid = None"
    using that by (simp add: members_def)
  then show ?case using moves_leave.IH by (auto simp: epoch_leave members_leave)
next
  case (moves_state h h' st)
  then show ?case by (simp add: members_def)
qed simp

lemma bcast_send_members:
  assumes "\<And>c. moves h (h' c)" "c \<in> set (bcast_send h' (bcast_snapshot h aid))"
  shows "c \<in> set (members (h' c) aid)"
  using assms(2) moves_epoch [OF assms(1), of c c aid] by (auto simp: bcast_send_def bcast_snapshot_def)

lemma bcast_send_all:
  assumes "\<And>c. hub_epoch (h' c) c = hub_epoch h c"
  shows "bcast_send h' (bcast_snapshot h aid) = members h aid"
  using assms by (simp add: bcast_send_def bcast_snapshot_def filter_map comp_def)

lemma members_distinct: "moves newHub h \<Longrightarrow> distinct (members h a)"
proof -
  have "moves g h \<Longrightarrow> distinct (members g a) \<Longrightarrow> distinct (members h a)" for g
  proof (induction rule: moves.induct)
    case (moves_leave h h' aid c)
    then show ?case by (auto simp: members_def hub_leave_def Let_def split: option.splits)
  qed (auto simp: members_join members_def [of "_\<lparr>hub_state := _\<rparr>"] members_def [symmetric])
  then show "moves newHub h \<Longrightarrow> distinct (members h a)" by (simp add: members_def newHub_def)
qed

section \<open>The admission limit\<close>

lemma tryReserveWS_bound:
  "tryReserveWS limit (Some (a, x)) = (ok, Some (a', x')) \<Longrightarrow> 0 < limit \<Longrightarrow> a \<le> limit \<Longrightarrow>
   a' \<le> limit \<and> (ok \<longleftrightarrow> a < limit)"
  by (auto simp: tryReserveWS_def split: if_splits)

end
