(* ===== verification/CacheSound.thy ===== *)
theory CacheSound
  imports Hub
begin

text \<open>
  The gateway's cached price is never ahead of Redis: every bid event in the log of an
  ascending or hybrid auction carries an amount at most the current price and a deadline at
  most the current one, so a cache fed from the log, in any order and with repetitions, is
  sound for every later state.
\<close>

section \<open>What the log says is below the state\<close>

definition event_below :: "room_hash \<Rightarrow> entry \<Rightarrow> bool" where
  "event_below h e \<longleftrightarrow> e_type e \<noteq> AUCTION_REVEALED
     \<and> (e_type e = BID_ACCEPTED \<longrightarrow> (\<forall>d. decode_bid (e_payload e) = Some d \<longrightarrow>
          (\<forall>n. ParseInt (bid_amountCents d) = POk n \<longrightarrow> n \<le> price_num h)
          \<and> 0 < bid_endAtMs d \<and> bid_endAtMs d \<le> h_endAtMs h))
     \<and> (e_type e = AUCTION_EXTENDED \<longrightarrow> (\<forall>d. decode_ext (e_payload e) = Some d \<longrightarrow>
          ext_endAtMs d \<le> h_endAtMs h))"

definition log_below :: "akeys \<Rightarrow> bool" where
  "log_below k \<longleftrightarrow> (\<forall>e\<in>set (events_of k). event_below (hash_of k) e)"

lemma event_below_mono:
  "event_below h e \<Longrightarrow> price_num h \<le> price_num h' \<Longrightarrow> h_endAtMs h \<le> h_endAtMs h' \<Longrightarrow> event_below h' e"
  by (force simp: event_below_def)

lemma price_str_seq: "price_str (h\<lparr>h_seq := q\<rparr>) = price_str h"
  by (simp add: price_str_def)

lemma event_below_seq [simp]: "event_below (h\<lparr>h_seq := q\<rparr>) e = event_below h e"
  by (simp add: event_below_def price_num_def price_str_seq)

text \<open>The text Lua and Go read as the same number.\<close>

lemma ParseInt_dec: "dec_int s = Some v \<Longrightarrow> ParseInt s = POk n \<Longrightarrow> n = v"
proof (cases s)
  case (Cons c cs)
  moreover assume "dec_int s = Some v" "ParseInt s = POk n"
  ultimately show ?thesis
    by (auto simp: signed_result_def parse_magnitude_def split: if_splits parsed.splits
        dest: is_digit_not_sign dest!: parse_scan_digits_rev)
qed simp

lemma ParseInt_num0: "tonumber s = Some v \<Longrightarrow> ParseInt s = POk n \<Longrightarrow> v = lua_num n"
  using ParseInt_dec by (auto simp: tonumber_def)

text \<open>What Lua reads as at most an amount, Go does too.\<close>

lemma ParseInt_le:
  assumes "tonumber s = Some v" "ParseInt s = POk n" "v \<le> a" "0 \<le> a" "a \<le> MaxMoneyCents"
  shows "n \<le> a"
  using assms lua_num_le_iff [of a n] ParseInt_num0 [OF assms(1,2)] by (simp add: MaxMoneyCents_def)

lemma decode_bid_json_fields:
  "decode_bid (bid_json q u d a e st n now) = Some x \<Longrightarrow>
   bid_amountCents x = a \<and> bid_endAtMs x = e \<and> bid_status x = state_name st \<and> bid_userId x = u"
  by (auto simp: decode_bid_def bid_json_def jfield_defs split: if_splits)

lemma decode_ext_json_fields: "decode_ext (ext_json q e n now) = Some x \<Longrightarrow> ext_endAtMs x = e"
  by (auto simp: decode_ext_def ext_json_def jfield_defs split: if_splits)

lemma newEndAtMs_ge: "h_endAtMs h \<le> newEndAtMs h a now"
  by (auto simp: newEndAtMs_def anti_snipe_def)

text \<open>The events of an accepted bid.\<close>

lemma bid_events_below:
  assumes g: "bid_guard h (ba_userId b) (tonumber (ba_amountStr b)) now = None" and now: "0 \<le> now"
    and h': "price_num h' = num0 (ba_amountStr b)" "h_endAtMs h' = newEndAtMs h (num0 (ba_amountStr b)) now"
    and above: "price_num h < num0 (ba_amountStr b)" and num: "tonumber (price_str h) \<noteq> None"
    and x: "x = bid_payload b (num0 (ba_amountStr b)) now h \<or> x = stream_bid b (num0 (ba_amountStr b)) now h"
    and e: "e \<in> set (entries (bid_events b (num0 (ba_amountStr b)) now h x))"
  shows "event_below h' e"
proof -
  let ?a = "num0 (ba_amountStr b)"
  note gd = bid_guard_NoneD [OF g]
  have dl: "0 < newEndAtMs h ?a now" using newEndAtMs_ge [of h ?a now] gd(4) now by linarith
  have amt: "n \<le> ?a" if "ParseInt (ba_amountStr b) = POk n" for n
    using ParseInt_le [OF gd(5) that] gd(6,7) by simp
  have old: "n \<le> ?a" if "ParseInt (price_str h) = POk n" for n
  proof -
    obtain v where v: "tonumber (price_str h) = Some v" using num by auto
    then have "v = price_num h" using num0_price_str [of h] by (simp add: num0_def)
    then show ?thesis using above ParseInt_le [OF v that] gd(6,7) by simp
  qed
  show ?thesis
    using e x dl amt old h'
    by (auto simp: entries_def bid_events_def second_event_def event_below_def bid_payload_def stream_bid_def
        dest!: decode_bid_json_fields decode_ext_json_fields split: if_splits)
qed

section \<open>The invariant\<close>

definition log_inv :: "akeys \<Rightarrow> bool" where
  "log_inv k \<longleftrightarrow> tonumber (price_str (hash_of k)) \<noteq> None \<and> log_below k"

lemma log_inv_room: "same_room k k' \<Longrightarrow> log_inv k \<Longrightarrow> log_inv k'"
  by (simp add: log_inv_def log_below_def same_room_def)

lemma log_inv_empty: "log_inv empty_keys"
proof -
  have "tonumber ''0'' = Some 0" by (simp add: tonumber_def is_digit_def digit_of_def)
  then show ?thesis by (simp add: log_inv_def log_below_def empty_keys_def empty_hash_def price_str_def)
qed

lemma commit_log_inv:
  assumes lad: "ladder k" and inv: "room_inv k" and li: "log_inv k"
    and g: "bid_guard (hash_of k) (ba_userId b) (tonumber (ba_amountStr b)) now = None" and now: "0 \<le> now"
    and h': "h' = bid_hash b (num0 (ba_amountStr b)) now (hash_of k)
      \<or> h' = hybrid_hash b (num0 (ba_amountStr b)) now (hash_of k)"
    and x: "x = bid_payload b (num0 (ba_amountStr b)) now (hash_of k)
      \<or> x = stream_bid b (num0 (ba_amountStr b)) now (hash_of k)"
  shows "log_inv (snd (commit_bid b (num0 (ba_amountStr b)) now (hash_of k) h' ack x k))"
proof -
  let ?h = "hash_of k" and ?a = "num0 (ba_amountStr b)"
  let ?k' = "snd (commit_bid b ?a now ?h h' ack x k)"
  have s1: "h_seq h' = h_seq ?h + 1" using h' by auto
  note eq = commit_bid_eq [OF room_invD(4) [OF inv] room_invD(3) [OF inv] s1]
  have above: "price_num ?h < ?a" using lad g by (rule accepted_above)
  have f: "h_currentPriceCents h' = Some (ba_amountStr b)" "h_endAtMs h' = newEndAtMs ?h ?a now"
    using h' by auto
  obtain q where kh: "hash_of ?k' = h'\<lparr>h_seq := q\<rparr>" by (simp add: eq)
  have ne: "ba_amountStr b \<noteq> []" using bid_guard_NoneD(5) [OF g] by auto
  have hash: "price_num h' = ?a" "h_endAtMs h' = newEndAtMs ?h ?a now" "price_str h' = ba_amountStr b"
    using f ne by (simp_all add: price_num_def price_str_def)
  have num: "tonumber (price_str ?h) \<noteq> None" using li by (simp add: log_inv_def)
  have new: "event_below h' e" if "e \<in> set (entries (bid_events b ?a now ?h x))" for e
    by (rule bid_events_below [OF g now hash(1,2) above num x that])
  have old: "event_below h' e" if "e \<in> set (events_of k)" for e
  proof (rule event_below_mono)
    show "event_below ?h e" using li that by (simp add: log_inv_def log_below_def)
    show "price_num ?h \<le> price_num h'" using above hash(1) by simp
    show "h_endAtMs ?h \<le> h_endAtMs h'" using newEndAtMs_ge hash(2) by simp
  qed
  have ev: "events_of ?k' = events_of k @ entries (bid_events b ?a now ?h x)" by (simp add: eq)
  have "tonumber (price_str h') \<noteq> None" using bid_guard_NoneD(5) [OF g] hash(3) by simp
  then show ?thesis
    using new old unfolding log_inv_def log_below_def kh ev by (auto simp: price_str_seq)
qed

lemma end_log_inv:
  assumes li: "log_inv k" and inv: "room_inv k" and ty: "ty \<in> {AUCTION_SOLD, AUCTION_NO_BID, AUCTION_CANCELLED}"
  shows "log_inv (snd (end_auction c st ty p (hash_of k) k))"
  using li ty
  by (auto simp: end_auction_eq [OF room_invD(4) [OF inv] room_invD(3) [OF inv]] log_inv_def log_below_def
      event_below_def price_num_def price_str_def)

lemma exec_log_inv:
  assumes li: "log_inv k" and lad: "ladder k" and inv: "room_inv k" and c: "ascending_cmd c"
    and now: "0 \<le> redis_now t"
  shows "log_inv (snd (exec c t k))"
proof (cases c)
  case (CFreeze a)
  show ?thesis
  proof (cases rule: freeze_rules_cases [of a t k])
    case frozen
    then have "events_of k = []" using inv by (auto simp: room_inv_def not_started_def)
    then show ?thesis
      using frozen CFreeze by (simp add: log_inv_def log_below_def set_hash_def frozen_hash_def price_str_def Let_def)
  qed (use li CFreeze in simp)
next
  case (CStart d)
  show ?thesis
  proof (cases rule: start_auction_cases [of d t k])
    case live
    then have "events_of k = []" using inv by (auto simp: room_inv_def not_started_def)
    then show ?thesis
      using live CStart li by (simp add: log_inv_def log_below_def set_hash_def price_str_def)
  qed (use li CStart in simp)
next
  case (CBid b)
  with lad inv li now show ?thesis
    by (cases rule: place_bid_cases [of b t k])
       (auto intro: commit_log_inv log_inv_room [OF same_room_ensure_ttl])
next
  case (CHybrid b)
  with lad inv li now show ?thesis
    by (cases rule: place_bid_hybrid_cases [of b t k])
       (auto intro: commit_log_inv log_inv_room [OF same_room_ensure_ttl])
next
  case CClose
  with li inv show ?thesis
    by (cases rule: close_auction_cases [of "()" t k]) (auto intro!: end_log_inv)
next
  case (CCancel u)
  with li inv show ?thesis
    by (cases rule: cancel_auction_cases [of u t k]) (auto intro!: end_log_inv)
qed (use c in simp_all)

lemma asc_log_inv: "asc_reachable k \<Longrightarrow> log_inv k"
  by (induction rule: asc_reachable.induct) (auto simp: log_inv_empty intro: exec_log_inv asc_inv asc_ladder)

text \<open>No key of a reachable auction has a wrong type.\<close>

lemma asc_keys_good: "asc_reachable k \<Longrightarrow> \<not> bid_keys_bad u k"
proof -
  assume "asc_reachable k"
  then show "\<not> bid_keys_bad u k"
  proof (induction rule: asc_reachable.induct)
    case (asc_exec k c t)
    then show ?case using keeps_keys_bad [OF exec_types [OF asc_inv]] by blast
  qed (simp add: bid_keys_bad_def empty_keys_def)
qed

section \<open>The cache\<close>

definition cache_sound :: "akeys \<Rightarrow> roomState \<Rightarrow> bool" where
  "cache_sound k rs \<longleftrightarrow> rs_terminal rs
     \<or> (rs_priceCents rs \<noteq> [] \<longrightarrow> 0 < rs_endAtMs rs
           \<and> (\<forall>n. ParseInt (rs_priceCents rs) = POk n \<longrightarrow> n \<le> price_num (hash_of k)))
        \<and> rs_endAtMs rs \<le> max 0 (h_endAtMs (hash_of k))"

lemma cache_sound_cold: "cache_sound k cold"
  by (simp add: cache_sound_def cold_def)

lemma ratchet_cases: "ratchet cur new = cur \<or> ratchet cur new = new \<and> new \<noteq> []"
  by (auto simp: ratchet_def split: parsed.splits)

lemma cache_sound_touch:
  assumes c: "cache_sound k rs" and p: "p \<noteq> [] \<longrightarrow> 0 < e \<and> (\<forall>n. ParseInt p = POk n \<longrightarrow> n \<le> price_num (hash_of k))"
    and e: "e \<le> max 0 (h_endAtMs (hash_of k))"
  shows "cache_sound k (touch p e rs)"
  using c p e ratchet_cases [of "rs_priceCents rs" p] by (auto simp: cache_sound_def touch_def)

lemma snap_put [simp]: "roomStateSnap (put_state aid rs h) aid = rs"
  by (simp add: roomStateSnap_def state_or_new_def put_state_def)

lemma snap_drop [simp]: "roomStateSnap (dropRoomState aid h) aid = cold"
  by (simp add: roomStateSnap_def state_or_new_def dropRoomState_def)

text \<open>Any event of the log keeps the cache sound.\<close>

lemma feed_sound:
  assumes li: "log_inv k" and m: "m \<in> set (events_of k)" and c: "cache_sound k (roomStateSnap h aid)"
  shows "cache_sound k (roomStateSnap (updateRoomStateFromEvent aid (event_of m) h) aid)"
proof -
  have b: "event_below (hash_of k) m" using li m by (simp add: log_inv_def log_below_def)
  have t: "cache_sound k (touch p e (state_or_new h aid))"
    if "p \<noteq> [] \<longrightarrow> 0 < e \<and> (\<forall>n. ParseInt p = POk n \<longrightarrow> n \<le> price_num (hash_of k))"
      "e \<le> max 0 (h_endAtMs (hash_of k))" for p e
    using cache_sound_touch [OF _ that] c by (simp add: roomStateSnap_def)
  have u: "cache_sound k (roomStateSnap (updateRoomState aid p e h) aid)"
    if "p \<noteq> [] \<longrightarrow> 0 < e \<and> (\<forall>n. ParseInt p = POk n \<longrightarrow> n \<le> price_num (hash_of k))"
      "e \<le> max 0 (h_endAtMs (hash_of k))" for p e
    using t [OF that] c by (auto simp: updateRoomState_def)
  show ?thesis
  proof (cases "e_type m = BID_ACCEPTED \<or> e_type m = AUCTION_EXTENDED")
    case True
    with b c show ?thesis
      by (auto simp: updateRoomStateFromEvent_def Let_def event_of_def event_below_def cache_sound_cold
          intro!: u split: option.split)
  next
    case False
    with b c show ?thesis
      by (simp add: updateRoomStateFromEvent_def Let_def event_of_def event_below_def cache_sound_cold)
  qed
qed

lemma feed_list_sound:
  assumes li: "log_inv k" and m: "set ms \<subseteq> set (events_of k)" and c: "cache_sound k (roomStateSnap h aid)"
  shows "cache_sound k (roomStateSnap (fold (\<lambda>m. updateRoomStateFromEvent aid (event_of m)) ms h) aid)"
  using m c
proof (induction ms arbitrary: h)
  case (Cons m ms)
  then show ?case using feed_sound [OF li] by simp
qed simp

end
