(* ===== verification/Bids.thy ===== *)
theory Bids
  imports CacheSound Db
begin

text \<open>
  The two ways a bid reaches the scripts: \<^verbatim>\<open>dispatchWS\<close> on \<^verbatim>\<open>BID_PLACE\<close> (with the gateway's
  fast-reject filter) and \<^verbatim>\<open>handlePlaceBidHTTP\<close>. Then: the filter only ever says what the
  script would have said, and the two ways give the same answer.
\<close>

section \<open>Answers\<close>

record BidPlaceData =
  bp_ClientBidID :: bidid
  bp_AmountCents :: money

definition maxClientBidIDLen :: nat where
  "maxClientBidIDLen = 128"

definition fastRejectExpiryMarginMs :: int where
  "fastRejectExpiryMarginMs = 1000"

definition rejected :: "int \<Rightarrow> aid \<Rightarrow> code \<Rightarrow> Envelope" where
  "rejected wall aid c = NewEnvelope wall BID_REJECTED aid 0 (DRejected c)"

definition no_bid_data :: BidAcceptedData where
  "no_bid_data = \<lparr>bid_seq = 0, bid_userId = [], bid_displayName = [], bid_amountCents = [],
     bid_endAtMs = 0, bid_status = [], bid_bidCount = 0, bid_serverTimeMs = 0\<rparr>"

text \<open>The scripts' payloads always decode; one that is no object leaves the zero value.\<close>

definition bidAccepted :: "int \<Rightarrow> aid \<Rightarrow> json \<Rightarrow> Envelope" where
  "bidAccepted wall aid payload =
     (let bad = (case decode_bid payload of Some d \<Rightarrow> d | None \<Rightarrow> no_bid_data)
      in NewEnvelope wall BID_ACCEPTED aid (bid_seq bad) (DBid bad))"

text \<open>\<^verbatim>\<open>errText\<close> is what the failed call's error says.\<close>

definition bidErrCode :: "string \<Rightarrow> code" where
  "bidErrCode errText = (if ContainsStr (ToUpper errText) ''NOSCRIPT'' then ERR_INTERNAL else ERR_AUCTION_PAUSED)"

section \<open>Routing to a script\<close>

definition route_bid ::
  "mode \<Rightarrow> link \<Rightarrow> int \<times> int \<Rightarrow> aid \<Rightarrow> bid_args \<Rightarrow> redis \<Rightarrow> (code \<times> int \<times> json option) io \<times> redis" where
  "route_bid m l t aid b r =
     (if UsesSealedEngine m then PlaceBidSealed l t aid b r
      else if UsesHybridEngine m then PlaceBidHybrid l t aid b r
      else PlaceBid l t aid b r)"

record gw_metrics =
  gm_BidsAccepted :: nat
  gm_BidsRejected :: nat
  gm_BidsRejectedFastPath :: nat

definition count_rejected :: "gw_metrics \<Rightarrow> gw_metrics" where
  "count_rejected m = m\<lparr>gm_BidsRejected := gm_BidsRejected m + 1\<rparr>"

text \<open>From the outcome of the call to the answer, the same on both ways.\<close>

fun bid_answer ::
  "int \<Rightarrow> aid \<Rightarrow> string \<Rightarrow> (code \<times> int \<times> json option) io \<Rightarrow> gw_metrics \<Rightarrow> Envelope \<times> gw_metrics" where
  "bid_answer wall aid errText IOErr m = (rejected wall aid (bidErrCode errText), count_rejected m)"
| "bid_answer wall aid errText (IOk (c, q, p)) m =
     (if c \<in> {OK_ACCEPTED, OK_EXTENDED, OK_SOLD, DUPLICATE}
      then (bidAccepted wall aid (case p of Some j \<Rightarrow> j | None \<Rightarrow> JBad),
            if c \<noteq> DUPLICATE then m\<lparr>gm_BidsAccepted := gm_BidsAccepted m + 1\<rparr> else m)
      else (rejected wall aid c, count_rejected m))"

section \<open>The WebSocket way\<close>

record ws_conn =
  cn_id :: cid
  cn_userID :: uid
  cn_displayName :: string
  cn_aid :: aid

record bid_env =
  be_wall :: int \<comment> \<open>\<^verbatim>\<open>time.Now().UnixMilli()\<close>\<close>
  be_redis :: "int \<times> int"
  be_precheck :: link
  be_script :: link
  be_errText :: string

definition fast_reject :: "bid_env \<Rightarrow> ws_conn \<Rightarrow> bidid \<Rightarrow> money \<Rightarrow> roomState \<Rightarrow> redis \<Rightarrow> bool" where
  "fast_reject e c cb amount rs r \<longleftrightarrow>
     \<not> UsesSealedEngine (rs_mode rs) \<and> rs_priceCents rs \<noteq> [] \<and> \<not> rs_terminal rs
     \<and> (case (ParseInt (rs_priceCents rs), ParseInt amount) of
          (POk cached, POk bidN) \<Rightarrow>
            bidN \<le> cached
            \<and> (rs_endAtMs rs = 0 \<or> be_wall e + fastRejectExpiryMarginMs < rs_endAtMs rs)
            \<and> (case FastPathPrecheck (be_precheck e) (be_redis e) (cn_aid c) (cn_userID c) cb r of
                 IOErr \<Rightarrow> False
               | IOk fp \<Rightarrow> IsLive fp \<and> \<not> IsPaused fp \<and> \<not> IsSellerSelfBid fp \<and> \<not> IsDupe fp)
        | _ \<Rightarrow> False)"

definition args_of :: "ws_conn \<Rightarrow> bidid \<Rightarrow> money \<Rightarrow> bid_args" where
  "args_of c cb amount =
     \<lparr>ba_userId = cn_userID c, ba_clientBidId = cb, ba_amountStr = amount, ba_displayName = cn_displayName c\<rparr>"

definition bad_bid :: "aid \<Rightarrow> BidPlaceData \<Rightarrow> bool" where
  "bad_bid aid d \<longleftrightarrow> aid = [] \<or> bp_ClientBidID d = [] \<or> maxClientBidIDLen < length (bp_ClientBidID d)
     \<or> canonicalAmount (bp_AmountCents d) = None"

definition bid_place ::
  "bid_env \<Rightarrow> ws_conn \<Rightarrow> BidPlaceData \<Rightarrow> hub \<Rightarrow> redis \<Rightarrow> gw_metrics \<Rightarrow> Envelope \<times> redis \<times> gw_metrics" where
  "bid_place e c d h r m =
     (if bad_bid (cn_aid c) d
      then (rejected (be_wall e) (cn_aid c) ERR_BAD_INPUT, r, count_rejected m)
      else (let amount = the (canonicalAmount (bp_AmountCents d)); rs = roomStateSnap h (cn_aid c)
            in if fast_reject e c (bp_ClientBidID d) amount rs r
               then (rejected (be_wall e) (cn_aid c) ERR_TOO_LOW, r,
                     count_rejected (m\<lparr>gm_BidsRejectedFastPath := gm_BidsRejectedFastPath m + 1\<rparr>))
               else (let (res, r') = route_bid (rs_mode rs) (be_script e) (be_redis e) (cn_aid c)
                                       (args_of c (bp_ClientBidID d) amount) r;
                         (env, m') = bid_answer (be_wall e) (cn_aid c) (be_errText e) res m
                     in (env, r', m'))))"

section \<open>The HTTP way\<close>

datatype bid_response = Unauthorized | Unreadable | Answer int Envelope

record http_env =
  he_bid :: bid_env
  he_db :: bool
  he_snapshot :: link

definition http_mode :: "http_env \<Rightarrow> aid \<Rightarrow> hub \<Rightarrow> redis \<Rightarrow> mode \<times> hub" where
  "http_mode e aid h r =
     (let m = rs_mode (roomStateSnap h aid)
      in if m \<noteq> ModeEmpty then (m, h)
         else (case Snapshot (he_snapshot e) aid r of
                 IOErr \<Rightarrow> (m, h)
               | IOk snap \<Rightarrow>
                   (case sn_Rules snap of
                      None \<Rightarrow> (m, h)
                    | Some rules \<Rightarrow> (RoomSnapshotRules.rs_mode rules, setMode aid (RoomSnapshotRules.rs_mode rules) h))))"

definition http_display :: "http_env \<Rightarrow> uid \<Rightarrow> db \<Rightarrow> string" where
  "http_display e u d =
     (case UserNickname (he_db e) u d of Inr nick \<Rightarrow> (if nick \<noteq> [] then nick else u) | Inl _ \<Rightarrow> u)"

definition handlePlaceBidHTTP ::
  "http_env \<Rightarrow> uid option \<Rightarrow> aid \<Rightarrow> BidPlaceData option \<Rightarrow> db \<Rightarrow> hub \<Rightarrow> redis \<Rightarrow> gw_metrics
    \<Rightarrow> bid_response \<times> hub \<times> redis \<times> gw_metrics" where
  "handlePlaceBidHTTP e user aid body d h r m =
     (case user of
        None \<Rightarrow> (Unauthorized, h, r, m)
      | Some u \<Rightarrow>
          (case body of
             None \<Rightarrow> (Unreadable, h, r, m)
           | Some p \<Rightarrow>
               (if bad_bid aid p
                then (Answer 400 (rejected (be_wall (he_bid e)) aid ERR_BAD_INPUT), h, r, count_rejected m)
                else (let (md, h') = http_mode e aid h r;
                          b = \<lparr>ba_userId = u, ba_clientBidId = bp_ClientBidID p,
                               ba_amountStr = the (canonicalAmount (bp_AmountCents p)),
                               ba_displayName = http_display e u d\<rparr>;
                          (res, r') = route_bid md (be_script (he_bid e)) (be_redis (he_bid e)) aid b r;
                          (env, m') = bid_answer (be_wall (he_bid e)) aid (be_errText (he_bid e)) res m
                      in (Answer 200 env, h', r', m')))))"

section \<open>The filter says what the script would say\<close>

lemma fast_reject_guard:
  assumes lad: "ladder k" and c: "cache_sound k rs" and live: "h_status (hash_of k) = Some LIVE"
    and p: "\<not> h_paused (hash_of k)" "\<not> (h_sellerId (hash_of k) \<noteq> [] \<and> h_sellerId (hash_of k) = u)"
    and rs: "rs_priceCents rs \<noteq> []" "\<not> rs_terminal rs" "ParseInt (rs_priceCents rs) = POk cached" "n \<le> cached"
    and w: "rs_endAtMs rs = 0 \<or> wall + 1000 < rs_endAtMs rs" and skew: "now \<le> wall + 1000"
    and n: "0 < n" "n \<le> MaxMoneyCents"
  shows "bid_guard (hash_of k) u (Some n) now = Some (Reply ERR_TOO_LOW [RInt n, RInt (required_bid (hash_of k))])"
proof -
  let ?h = "hash_of k"
  have e: "0 < rs_endAtMs rs" "rs_endAtMs rs \<le> max 0 (h_endAtMs ?h)" "cached \<le> price_num ?h"
    using c rs by (auto simp: cache_sound_def)
  then have "now < h_endAtMs ?h" using w skew by (auto simp: max_def split: if_splits)
  moreover have "n < required_bid ?h"
    using lad live e(3) rs(4) n by (auto simp: ladder_def Let_def required_bid_def not_le [symmetric] lua_num_le_iff MaxMoneyCents_def)
  ultimately show ?thesis using live p n by (auto simp: bid_guard_def)
qed

lemma prologue_refuses:
  assumes "\<not> bid_keys_bad (ba_userId b) k" "d_acks (dedupe_at (redis_now t) k (ba_userId b)) (ba_clientBidId b) = None"
    "bid_guard (hash_of k) (ba_userId b) (tonumber (ba_amountStr b)) (redis_now t) = Some rep"
  shows "bid_prologue b t k f = (rep, k)"
  using assms by (simp add: bid_prologue_def Let_def)

lemma canonical_number:
  assumes "canonicalAmount s = Some a"
  obtains n where "ParseInt a = POk n" "tonumber a = Some n" "0 < n" "n \<le> MaxMoneyCents"
proof -
  obtain n where "0 < n" "n \<le> MaxMoneyCents" "a = FormatInt n" using assms by (rule canonicalAmount_SomeD)
  then show ?thesis using that [of n] money_int64 [of n] by (simp add: MaxMoneyCents_def)
qed

lemma fast_reject_routes:
  assumes reach: "asc_reachable (rd_keys r (cn_aid c))"
    and sound: "cache_sound (rd_keys r (cn_aid c)) rs"
    and amount: "canonicalAmount s = Some amount"
    and skew: "redis_now t \<le> be_wall e + fastRejectExpiryMarginMs" and t: "t = be_redis e"
    and fr: "fast_reject e c cb amount rs r"
  shows "route_bid (rs_mode rs) Answered t (cn_aid c) (args_of c cb amount) r = (IOk (ERR_TOO_LOW, 0, None), r)"
proof -
  let ?k = "rd_keys r (cn_aid c)" and ?b = "args_of c cb amount"
  obtain n where n: "ParseInt amount = POk n" "tonumber amount = Some n" "0 < n" "n \<le> MaxMoneyCents"
    using amount by (rule canonical_number)
  obtain cached where cp: "ParseInt (rs_priceCents rs) = POk cached" "n \<le> cached"
    using fr n by (auto simp: fast_reject_def split: parsed.splits)
  have g: "bid_guard (hash_of ?k) (ba_userId ?b) (tonumber (ba_amountStr ?b)) (redis_now t)
      = Some (Reply ERR_TOO_LOW [RInt n, RInt (required_bid (hash_of ?k))])"
    using fr n cp skew unfolding args_of_def
    by (simp, intro fast_reject_guard [where cached = cached and wall = "be_wall e", OF asc_ladder [OF reach] sound])
       (auto simp: fast_reject_def FastPathPrecheck_def Let_def fastRejectExpiryMarginMs_def split: if_splits)
  have d: "d_acks (dedupe_at (redis_now t) ?k (ba_userId ?b)) (ba_clientBidId ?b) = None"
    using fr n cp by (auto simp: fast_reject_def FastPathPrecheck_def Let_def args_of_def t split: if_splits)
  note ref = prologue_refuses [OF asc_keys_good [OF reach] d g]
  have k: "put_keys (cn_aid c) ?k r = r" by (simp add: put_keys_def)
  have "eval Answered (cn_aid c) (place_bid ?b t) r = (IOk (ERR_TOO_LOW, [RInt n, RInt (required_bid (hash_of ?k))]), r)"
    "eval Answered (cn_aid c) (place_bid_hybrid ?b t) r = (IOk (ERR_TOO_LOW, [RInt n, RInt (required_bid (hash_of ?k))]), r)"
    by (simp_all add: eval_def place_bid_def place_bid_hybrid_def ref k)
  moreover have "\<not> UsesSealedEngine (rs_mode rs)" using fr by (simp add: fast_reject_def)
  ultimately show ?thesis by (simp add: route_bid_def PlaceBid_def PlaceBidHybrid_def)
qed

section \<open>A gateway fed from the log\<close>

text \<open>The hub of a gateway after any number of events of the auction's log (in any order, with
  repetitions), joins, leaves and mode look-ups.\<close>

inductive fed :: "akeys \<Rightarrow> aid \<Rightarrow> hub \<Rightarrow> bool" for k aid where
  fed_new: "fed k aid newHub"
| fed_event: "fed k aid h \<Longrightarrow> m \<in> set (events_of k) \<Longrightarrow> fed k aid (updateRoomStateFromEvent aid (event_of m) h)"
| fed_mode: "fed k aid h \<Longrightarrow> fed k aid (setMode aid md h)"
| fed_join: "fed k aid h \<Longrightarrow> fed k aid (hub_join a c h)"
| fed_leave: "fed k aid h \<Longrightarrow> fed k aid (hub_leave a c h)"
| fed_drop: "fed k aid h \<Longrightarrow> fed k aid (dropRoomState aid h)"

lemma state_membership [simp]:
  "hub_state (hub_join a c h) = hub_state h" "hub_state (hub_leave a c h) = hub_state h"
  by (simp_all add: hub_join_def hub_leave_def bump_def Let_def split: option.split)

lemma snap_membership [simp]:
  "roomStateSnap (hub_join a c h) aid = roomStateSnap h aid"
  "roomStateSnap (hub_leave a c h) aid = roomStateSnap h aid"
  by (simp_all add: roomStateSnap_def state_or_new_def)

lemma snap_mode: "cache_sound k (roomStateSnap h aid) \<Longrightarrow> cache_sound k (roomStateSnap (setMode aid md h) aid)"
  unfolding setMode_def by (simp, simp add: cache_sound_def roomStateSnap_def)

lemma snap_new [simp]: "roomStateSnap newHub aid = cold"
  by (simp add: roomStateSnap_def state_or_new_def newHub_def)

lemma fed_sound: "fed k aid h \<Longrightarrow> asc_reachable k \<Longrightarrow> cache_sound k (roomStateSnap h aid)"
  by (induction rule: fed.induct) (auto intro: feed_sound asc_log_inv snap_mode simp: cache_sound_cold)

text \<open>The handler with the filter answers, and leaves Redis, as the handler without it.\<close>

definition bid_place_unfiltered ::
  "bid_env \<Rightarrow> ws_conn \<Rightarrow> BidPlaceData \<Rightarrow> hub \<Rightarrow> redis \<Rightarrow> gw_metrics \<Rightarrow> Envelope \<times> redis \<times> gw_metrics" where
  "bid_place_unfiltered e c d h r m =
     (if bad_bid (cn_aid c) d
      then (rejected (be_wall e) (cn_aid c) ERR_BAD_INPUT, r, count_rejected m)
      else (let (res, r') = route_bid (rs_mode (roomStateSnap h (cn_aid c))) (be_script e) (be_redis e) (cn_aid c)
                              (args_of c (bp_ClientBidID d) (the (canonicalAmount (bp_AmountCents d)))) r;
                (env, m') = bid_answer (be_wall e) (cn_aid c) (be_errText e) res m
            in (env, r', m')))"

lemma filter_transparent:
  assumes "asc_reachable (rd_keys r (cn_aid c))" "fed (rd_keys r (cn_aid c)) (cn_aid c) h"
    "redis_now (be_redis e) \<le> be_wall e + fastRejectExpiryMarginMs" "be_script e = Answered"
  shows "fst (bid_place e c d h r m) = fst (bid_place_unfiltered e c d h r m)"
    "fst (snd (bid_place e c d h r m)) = fst (snd (bid_place_unfiltered e c d h r m))"
proof -
  have eq: "fst (bid_place e c d h r m) = fst (bid_place_unfiltered e c d h r m)
      \<and> fst (snd (bid_place e c d h r m)) = fst (snd (bid_place_unfiltered e c d h r m))"
  proof (cases "\<not> bad_bid (cn_aid c) d \<and> fast_reject e c (bp_ClientBidID d) (the (canonicalAmount (bp_AmountCents d)))
            (roomStateSnap h (cn_aid c)) r")
    case True
    then obtain a where a: "canonicalAmount (bp_AmountCents d) = Some a" by (auto simp: bad_bid_def)
    note res = fast_reject_routes [OF assms(1) fed_sound [OF assms(2,1)] a assms(3)]
    show ?thesis
      using True a res assms(4) by (simp add: bid_place_def bid_place_unfiltered_def Let_def)
  next
    case False
    then show ?thesis by (auto simp: bid_place_def bid_place_unfiltered_def Let_def split: prod.splits)
  qed
  then show "fst (bid_place e c d h r m) = fst (bid_place_unfiltered e c d h r m)"
    "fst (snd (bid_place e c d h r m)) = fst (snd (bid_place_unfiltered e c d h r m))"
    by simp_all
qed

section \<open>What a failed call means\<close>

lemma bid_unreachable:
  "be_script e = Unreachable \<Longrightarrow> \<not> bad_bid (cn_aid c) d \<Longrightarrow> be_precheck e \<noteq> Answered \<Longrightarrow>
   \<not> ContainsStr (ToUpper (be_errText e)) ''NOSCRIPT'' \<Longrightarrow>
   bid_place e c d h r m = (rejected (be_wall e) (cn_aid c) ERR_AUCTION_PAUSED, r, count_rejected m)"
  by (auto simp: bid_place_def Let_def fast_reject_def FastPathPrecheck_def route_bid_def PlaceBid_def
      PlaceBidHybrid_def PlaceBidSealed_def eval_def bidErrCode_def split: parsed.splits)

section \<open>Which engine a bid reaches\<close>

text \<open>On the HTTP way a bid goes to the engine of the frozen rules, provided the snapshot was
  read or the cache was filled from the same rules.\<close>

lemma http_mode_frozen:
  assumes "rs_mode (roomStateSnap h aid) = ModeEmpty \<or> NormalizeMode (rs_mode (roomStateSnap h aid)) = NormalizeMode (h_mode (hash_of (rd_keys r aid)))"
    and "he_snapshot e = Answered" "\<not> bad_type (k_state (rd_keys r aid))"
    and "snapshotRules (hash_of (rd_keys r aid)) \<noteq> None"
  shows "NormalizeMode (fst (http_mode e aid h r)) = NormalizeMode (h_mode (hash_of (rd_keys r aid)))"
  using assms
  by (auto simp: http_mode_def Let_def Snapshot_def snapshot_of_def snapshotRules_def split: if_splits)

text \<open>On the WebSocket way a bid from a cold cache goes to the ascending script, whatever the
  rules say.\<close>

lemma cold_cache_routes_english:
  "rs_mode (roomStateSnap h aid) = ModeEmpty \<Longrightarrow>
   route_bid (rs_mode (roomStateSnap h aid)) l t aid b r = PlaceBid l t aid b r"
  by (simp add: route_bid_def UsesHybridEngine_def)

end
