(* ===== verification/Fanout.thy ===== *)
theory Fanout
  imports Hub
begin

text \<open>
  How a room is told what happened: the fan-out of the event stream (\<^verbatim>\<open>Hub.subscribe\<close>) and the
  coalescing of bid events into state patches for large rooms (\<^verbatim>\<open>ws_state_patch.go\<close>). Then:
  every event is delivered exactly once and in order, alone or inside one patch that sums up
  a run of bids and extensions.
\<close>

section \<open>The coalescer\<close>

record patch_config =
  pc_intervalMs :: int
  pc_minViewers :: int

record pendingPatch =
  pe_data :: RoomStatePatchData
  pe_firstServerTimeMs :: int

record coalescer =
  pq_cfg :: patch_config
  pq_pending :: "aid \<rightharpoonup> pendingPatch"
  pq_bidTotals :: "aid \<Rightarrow> int"

definition newCoalescer :: "patch_config \<Rightarrow> coalescer" where
  "newCoalescer cfg = \<lparr>pq_cfg = cfg, pq_pending = Map.empty, pq_bidTotals = (\<lambda>a. 0)\<rparr>"

definition patch_enabled :: "coalescer \<Rightarrow> bool" where
  "patch_enabled p \<longleftrightarrow> pc_intervalMs (pq_cfg p) > 0 \<and> pc_minViewers (pq_cfg p) > 0"

definition patch_interval :: "coalescer \<Rightarrow> int" where
  "patch_interval p = (if patch_enabled p then pc_intervalMs (pq_cfg p) else 0)"

fun isTerminalRoomEvent :: "msg_type \<Rightarrow> bool" where
  "isTerminalRoomEvent AUCTION_SOLD = True"
| "isTerminalRoomEvent AUCTION_NO_BID = True"
| "isTerminalRoomEvent AUCTION_CANCELLED = True"
| "isTerminalRoomEvent _ = False"

definition forget_total :: "aid \<Rightarrow> coalescer \<Rightarrow> coalescer" where
  "forget_total aid p = p\<lparr>pq_bidTotals := (pq_bidTotals p)(aid := 0)\<rparr>"

definition offerBidAccepted :: "hub \<Rightarrow> aid \<Rightarrow> StreamEvent \<Rightarrow> coalescer \<Rightarrow> bool \<times> coalescer" where
  "offerBidAccepted h aid e p =
     (case decode_bid (ev_Payload e) of
        None \<Rightarrow> (False, p)
      | Some bid \<Rightarrow>
          (if bid_status bid = state_name SOLD then (False, forget_total aid p)
           else (let total = (if bid_bidCount bid > 0 then bid_bidCount bid else pq_bidTotals p aid + 1);
                     p1 = p\<lparr>pq_bidTotals := (pq_bidTotals p)(aid := total)\<rparr>
             in if viewerCount h aid < pc_minViewers (pq_cfg p) then (False, p1)
                else (let nxt = \<lparr>pa_FromSeq = ev_Seq e, pa_Seq = ev_Seq e, pa_Status = bid_status bid,
                          pa_CurrentPriceCents = bid_amountCents bid, pa_WinnerID = bid_userId bid,
                          pa_WinnerDisplayName = (if bid_displayName bid = [] then bid_userId bid else bid_displayName bid),
                          pa_EndAtMs = bid_endAtMs bid, pa_ExtendCount = 0, pa_BidCountDelta = 1,
                          pa_BidCountTotal = total, pa_ServerTimeMs = bid_serverTimeMs bid\<rparr>;
                        pend = (case pq_pending p1 aid of
                            Some prev \<Rightarrow>
                              \<lparr>pe_data = nxt\<lparr>pa_FromSeq := pa_FromSeq (pe_data prev),
                                 pa_BidCountDelta := pa_BidCountDelta (pe_data prev) + 1\<rparr>,
                               pe_firstServerTimeMs = pe_firstServerTimeMs prev\<rparr>
                          | None \<Rightarrow> \<lparr>pe_data = nxt, pe_firstServerTimeMs = bid_serverTimeMs bid\<rparr>)
                  in (True, p1\<lparr>pq_pending := (pq_pending p1)(aid \<mapsto> pend)\<rparr>)))))"

definition offerAuctionExtended :: "aid \<Rightarrow> StreamEvent \<Rightarrow> coalescer \<Rightarrow> bool \<times> coalescer" where
  "offerAuctionExtended aid e p =
     (case pq_pending p aid of
        None \<Rightarrow> (False, p)
      | Some prev \<Rightarrow>
          (case decode_ext (ev_Payload e) of
             None \<Rightarrow> (False, p)
           | Some ext \<Rightarrow>
               (True, p\<lparr>pq_pending := (pq_pending p)(aid \<mapsto> prev\<lparr>pe_data := (pe_data prev)
                  \<lparr>pa_Seq := ev_Seq e, pa_EndAtMs := ext_endAtMs ext, pa_ExtendCount := ext_extendCount ext,
                   pa_ServerTimeMs := ext_serverTimeMs ext\<rparr>\<rparr>)\<rparr>)))"

definition offer :: "hub \<Rightarrow> aid \<Rightarrow> StreamEvent \<Rightarrow> coalescer \<Rightarrow> bool \<times> coalescer" where
  "offer h aid e p =
     (if \<not> patch_enabled p then (False, p)
      else if isTerminalRoomEvent (ev_Type e) then (False, forget_total aid p)
      else if ev_Type e = BID_ACCEPTED then offerBidAccepted h aid e p
      else if ev_Type e = AUCTION_EXTENDED then
        (if viewerCount h aid < pc_minViewers (pq_cfg p) then (False, p) else offerAuctionExtended aid e p)
      else (False, p))"

definition patch_envelope :: "int \<Rightarrow> aid \<Rightarrow> pendingPatch \<Rightarrow> Envelope" where
  "patch_envelope wall aid p = NewEnvelope wall ROOM_STATE_PATCH aid (pa_Seq (pe_data p)) (DPatch (pe_data p))"

text \<open>The frames to broadcast, and the coalescer afterwards.\<close>

definition flushAid :: "int \<Rightarrow> aid \<Rightarrow> coalescer \<Rightarrow> (aid \<times> Envelope) list \<times> coalescer" where
  "flushAid wall aid p =
     (case pq_pending p aid of
        None \<Rightarrow> ([], p)
      | Some patch \<Rightarrow> ([(aid, patch_envelope wall aid patch)], p\<lparr>pq_pending := (pq_pending p)(aid := None)\<rparr>))"

text \<open>\<^verbatim>\<open>flushAll\<close>; \<open>order\<close> lists the pending auctions in the order the map is visited.\<close>

definition flushAll :: "int \<Rightarrow> aid list \<Rightarrow> coalescer \<Rightarrow> (aid \<times> Envelope) list \<times> coalescer" where
  "flushAll wall order p =
     (concat (map (\<lambda>aid. fst (flushAid wall aid p)) order), p\<lparr>pq_pending := Map.empty\<rparr>)"

section \<open>The fan-out of a room\<close>

record fan =
  fa_hub :: hub
  fa_patch :: coalescer
  fa_lastSeq :: "aid \<rightharpoonup> int"
  fa_seqGap :: int
  fa_out :: "(aid \<times> Envelope) list"

definition last_seq :: "fan \<Rightarrow> aid \<Rightarrow> int" where
  "last_seq s aid = (case fa_lastSeq s aid of None \<Rightarrow> 0 | Some q \<Rightarrow> q)"

definition streamIDForSeq :: "int \<Rightarrow> string" where
  "streamIDForSeq q = id_str (q, 0)"

definition event_envelope :: "int \<Rightarrow> aid \<Rightarrow> StreamEvent \<Rightarrow> Envelope" where
  "event_envelope wall aid e = NewEnvelope wall (ev_Type e) aid (ev_Seq e) (DEvent (ev_Payload e))"

text \<open>One event: gap counter, coalesce or broadcast, cached state, cursor. An envelope around a
  payload that is no JSON does not marshal and is skipped.\<close>

definition fan_event :: "int \<Rightarrow> aid \<Rightarrow> StreamEvent \<Rightarrow> fan \<Rightarrow> fan" where
  "fan_event wall aid e s =
     (let lst = last_seq s aid;
          s1 = (if lst > 0 \<and> ev_Seq e > lst + 1 then s\<lparr>fa_seqGap := fa_seqGap s + (ev_Seq e - lst - 1)\<rparr> else s)
      in if ev_Payload e = JBad then s1
         else (let (coalesced, p) = offer (fa_hub s1) aid e (fa_patch s1);
                   (fs, p') = (if coalesced then ([], p)
                     else (let (fs, q) = flushAid wall aid p in (fs @ [(aid, event_envelope wall aid e)], q)))
               in s1\<lparr>fa_patch := p', fa_out := fa_out s1 @ fs,
                     fa_hub := updateRoomStateFromEvent aid e (fa_hub s1),
                     fa_lastSeq := (fa_lastSeq s1)(aid \<mapsto> ev_Seq e)\<rparr>))"

definition seed_cursor :: "bool \<Rightarrow> link \<Rightarrow> aid \<Rightarrow> redis \<Rightarrow> fan \<Rightarrow> fan option" where
  "seed_cursor affinity l aid r s =
     (if \<not> affinity then Some s
      else (let (process, seed) = gatewayHostsRoom (viewerCount (fa_hub s) aid) (fa_lastSeq s aid \<noteq> None)
            in if \<not> process then None
               else if \<not> seed then Some s
               else (case Snapshot l aid r of
                       IOErr \<Rightarrow> Some s
                     | IOk sn \<Rightarrow> Some (s\<lparr>fa_lastSeq := (fa_lastSeq s)(aid \<mapsto> sn_Seq sn)\<rparr>))))"

definition fanout :: "nat \<Rightarrow> bool \<Rightarrow> link \<Rightarrow> link \<Rightarrow> int \<Rightarrow> aid \<Rightarrow> redis \<Rightarrow> fan \<Rightarrow> fan" where
  "fanout fuel affinity l1 l2 wall aid r s =
     (case seed_cursor affinity l1 aid r s of
        None \<Rightarrow> s
      | Some s1 \<Rightarrow>
          (case (if l2 \<noteq> Answered then FetchError
                 else ReadEventsAfter fuel (streamIDForSeq (last_seq s1 aid)) (rd_keys r aid)) of
             Collected evs nl \<Rightarrow> fold (fan_event wall aid) evs s1
           | _ \<Rightarrow> s1))"

text \<open>The backstop tick: every room with a connection; the timer of the patches.\<close>

definition sweep_rooms :: "nat \<Rightarrow> bool \<Rightarrow> (aid \<Rightarrow> link \<times> link) \<Rightarrow> int \<Rightarrow> aid list \<Rightarrow> redis \<Rightarrow> fan \<Rightarrow> fan" where
  "sweep_rooms fuel affinity ls wall aids r s =
     fold (\<lambda>aid. fanout fuel affinity (fst (ls aid)) (snd (ls aid)) wall aid r) aids s"

definition patch_tick :: "int \<Rightarrow> aid list \<Rightarrow> fan \<Rightarrow> fan" where
  "patch_tick wall order s =
     (let (fs, p) = flushAll wall order (fa_patch s) in s\<lparr>fa_patch := p, fa_out := fa_out s @ fs\<rparr>)"

text \<open>A Pub/Sub message only wakes the fan-out of the auction its channel names.\<close>

definition on_message :: "nat \<Rightarrow> bool \<Rightarrow> link \<Rightarrow> link \<Rightarrow> int \<Rightarrow> string \<Rightarrow> redis \<Rightarrow> fan \<Rightarrow> fan" where
  "on_message fuel affinity l1 l2 wall channel r s =
     (let aid = AIDFromPubChannel channel in if aid = [] then s else fanout fuel affinity l1 l2 wall aid r s)"

section \<open>Delivery\<close>

definition is_bid :: "StreamEvent \<Rightarrow> bool" where
  "is_bid e \<longleftrightarrow> ev_Type e = BID_ACCEPTED"

text \<open>A patch stands for a run of bids and extensions: their numbers, how many bids, and the
  price and leader of the last bid.\<close>

definition sums_up :: "StreamEvent list \<Rightarrow> RoomStatePatchData \<Rightarrow> bool" where
  "sums_up es p \<longleftrightarrow> es \<noteq> [] \<and> pa_FromSeq p = ev_Seq (hd es) \<and> pa_Seq p = ev_Seq (last es)
     \<and> (\<forall>e\<in>set es. ev_Type e \<in> {BID_ACCEPTED, AUCTION_EXTENDED})
     \<and> pa_BidCountDelta p = int (length (filter is_bid es))
     \<and> (\<exists>b d. last_opt (filter is_bid es) = Some b \<and> decode_bid (ev_Payload b) = Some d
          \<and> pa_CurrentPriceCents p = bid_amountCents d \<and> pa_WinnerID p = bid_userId d
          \<and> pa_Status p = bid_status d)"

inductive delivers :: "aid \<Rightarrow> StreamEvent list \<Rightarrow> (aid \<times> Envelope) list \<Rightarrow> bool" for aid where
  dl_nil: "delivers aid [] []"
| dl_event: "delivers aid es fs \<Longrightarrow> delivers aid (es @ [e]) (fs @ [(aid, event_envelope wall aid e)])"
| dl_patch: "delivers aid es fs \<Longrightarrow> sums_up seg p \<Longrightarrow>
    delivers aid (es @ seg) (fs @ [(aid, NewEnvelope wall ROOM_STATE_PATCH aid (pa_Seq p) (DPatch p))])"

text \<open>The state of the coalescer for one auction: nothing pending, or a patch that sums up the
  run not yet delivered.\<close>

definition pends :: "aid \<Rightarrow> StreamEvent list \<Rightarrow> coalescer \<Rightarrow> bool" where
  "pends aid seg p \<longleftrightarrow>
     (case pq_pending p aid of None \<Rightarrow> seg = [] | Some q \<Rightarrow> sums_up seg (pe_data q))"

lemma forget_pends [simp]: "pends aid seg (forget_total a p) = pends aid seg p"
  by (simp add: pends_def forget_total_def)

lemma offer_not: "offer h aid e p = (False, p') \<Longrightarrow> pq_pending p' = pq_pending p"
  by (auto simp: offer_def offerBidAccepted_def offerAuctionExtended_def forget_total_def Let_def
      split: if_splits option.splits)

lemma offer_yes:
  assumes "offer h aid e p = (True, p')" "pends aid seg p"
  shows "pends aid (seg @ [e]) p'"
proof -
  consider (bid) "ev_Type e = BID_ACCEPTED" "offerBidAccepted h aid e p = (True, p')"
    | (ext) "ev_Type e = AUCTION_EXTENDED" "offerAuctionExtended aid e p = (True, p')"
    using assms(1) by (auto simp: offer_def split: if_splits)
  then show ?thesis
  proof cases
    case bid
    then show ?thesis
      using assms(2)
      by (auto simp: offerBidAccepted_def pends_def sums_up_def is_bid_def Let_def hd_append
          split: if_splits option.splits)
  next
    case ext
    then show ?thesis
      using assms(2)
      by (auto simp: offerAuctionExtended_def pends_def sums_up_def is_bid_def Let_def hd_append
          split: option.splits)
  qed
qed

lemma flushAid_delivers:
  assumes "pends aid seg p" "flushAid wall aid p = (fs, p')" "delivers aid es gs"
  shows "delivers aid (es @ seg) (gs @ fs)" "pq_pending p' aid = None"
  using assms dl_patch [OF assms(3)]
  by (auto simp: pends_def flushAid_def patch_envelope_def split: option.splits)

text \<open>Every event handled so far is delivered, except the run that is pending.\<close>

definition told :: "aid \<Rightarrow> StreamEvent list \<Rightarrow> (aid \<times> Envelope) list \<Rightarrow> coalescer \<Rightarrow> bool" where
  "told aid es fs p \<longleftrightarrow> (\<exists>sent seg. es = sent @ seg \<and> delivers aid sent fs \<and> pends aid seg p)"

lemma fan_event_told:
  assumes t: "told aid es (filter (\<lambda>x. fst x = aid) (fa_out s)) (fa_patch s)" and ok: "ev_Payload e \<noteq> JBad"
  shows "told aid (es @ [e]) (filter (\<lambda>x. fst x = aid) (fa_out (fan_event wall aid e s))) (fa_patch (fan_event wall aid e s))"
proof -
  obtain sent seg where es: "es = sent @ seg" "delivers aid sent (filter (\<lambda>x. fst x = aid) (fa_out s))"
    and p: "pends aid seg (fa_patch s)" using t by (auto simp: told_def)
  obtain c p1 where o: "offer (fa_hub s) aid e (fa_patch s) = (c, p1)"
    by (cases "offer (fa_hub s) aid e (fa_patch s)")
  show ?thesis
  proof (cases c)
    case True
    then have "pends aid (seg @ [e]) p1" using offer_yes [OF _ p] o by simp
    moreover have "fa_out (fan_event wall aid e s) = fa_out s" "fa_patch (fan_event wall aid e s) = p1"
      using True ok o by (simp_all add: fan_event_def Let_def)
    moreover have "es @ [e] = sent @ (seg @ [e])" using es(1) by simp
    ultimately show ?thesis using es(2) unfolding told_def by metis
  next
    case False
    obtain fs p2 where f: "flushAid wall aid p1 = (fs, p2)" by (cases "flushAid wall aid p1")
    have "pends aid seg p1" using p offer_not [of "fa_hub s" aid e "fa_patch s" p1] o False by (simp add: pends_def)
    from flushAid_delivers [OF this f es(2)]
    have d: "delivers aid (sent @ seg) (filter (\<lambda>x. fst x = aid) (fa_out s) @ fs)" and n: "pq_pending p2 aid = None" .
    have fs: "filter (\<lambda>x. fst x = aid) fs = fs" using f by (auto simp: flushAid_def split: option.splits)
    have "delivers aid (es @ [e]) (filter (\<lambda>x. fst x = aid) (fa_out s) @ fs @ [(aid, event_envelope wall aid e)])"
      using dl_event [OF d, of e wall] es(1) by simp
    moreover have "fa_out (fan_event wall aid e s) = fa_out s @ fs @ [(aid, event_envelope wall aid e)]"
      "fa_patch (fan_event wall aid e s) = p2"
      using False ok o f by (simp_all add: fan_event_def Let_def)
    moreover have "pends aid [] p2" using n by (simp add: pends_def)
    ultimately show ?thesis
      unfolding told_def by (intro exI [of _ "es @ [e]"] exI [of _ "[]"]) (simp add: fs)
  qed
qed

lemma fan_events_told:
  assumes "told aid es (filter (\<lambda>x. fst x = aid) (fa_out s)) (fa_patch s)" "\<forall>e\<in>set evs. ev_Payload e \<noteq> JBad"
  shows "told aid (es @ evs) (filter (\<lambda>x. fst x = aid) (fa_out (fold (fan_event wall aid) evs s)))
     (fa_patch (fold (fan_event wall aid) evs s))"
  using assms
proof (induction evs arbitrary: es s)
  case (Cons e evs)
  have "told aid (es @ [e]) (filter (\<lambda>x. fst x = aid) (fa_out (fan_event wall aid e s))) (fa_patch (fan_event wall aid e s))"
    using Cons.prems by (intro fan_event_told) auto
  then show ?case using Cons.IH [of "es @ [e]" "fan_event wall aid e s"] Cons.prems(2) by simp
qed simp

lemma told_nothing: "pq_pending p aid = None \<Longrightarrow> told aid [] [] p"
  by (auto simp: told_def pends_def intro: dl_nil)

lemma told_flush:
  assumes "told aid es fs p" "flushAid wall aid p = (gs, p')"
  shows "delivers aid es (fs @ gs)"
  using assms flushAid_delivers(1) by (auto simp: told_def)

section \<open>The cursor\<close>

lemma fan_event_cursor:
  "ev_Payload e \<noteq> JBad \<Longrightarrow> fa_lastSeq (fan_event wall aid e s) = (fa_lastSeq s)(aid \<mapsto> ev_Seq e)"
  by (simp add: fan_event_def Let_def split_def)

lemma fan_event_gap:
  "ev_Seq e = last_seq s aid + 1 \<Longrightarrow> fa_seqGap (fan_event wall aid e s) = fa_seqGap s"
  by (simp add: fan_event_def Let_def split_def)

lemma fan_events_cursor:
  assumes "\<forall>e\<in>set evs. ev_Payload e \<noteq> JBad"
    and "\<And>i. i < length evs \<Longrightarrow> ev_Seq (evs ! i) = last_seq s aid + int i + 1"
  shows "last_seq (fold (fan_event wall aid) evs s) aid = last_seq s aid + int (length evs)
    \<and> fa_seqGap (fold (fan_event wall aid) evs s) = fa_seqGap s"
  using assms
proof (induction evs arbitrary: s)
  case (Cons e evs)
  let ?s1 = "fan_event wall aid e s"
  have e: "ev_Seq e = last_seq s aid + 1" "ev_Payload e \<noteq> JBad" using Cons.prems(1) Cons.prems(2) [of 0] by auto
  then have l: "last_seq ?s1 aid = last_seq s aid + 1" by (simp add: last_seq_def fan_event_cursor)
  have "ev_Seq (evs ! i) = last_seq ?s1 aid + int i + 1" if "i < length evs" for i
    using Cons.prems(2) [of "Suc i"] that l by simp
  then show ?case using Cons.IH [of ?s1] Cons.prems(1) l fan_event_gap [OF e(1)] by simp
qed simp

text \<open>One fan-out of a readable room whose cursor is at the \<open>p\<close>-th event.\<close>

lemma fanout_reads:
  assumes r: "readable (rd_keys r aid)" and fuel: "length (events_of (rd_keys r aid)) < fuel"
    and c: "last_seq s aid = int p" "p \<le> length (events_of (rd_keys r aid))"
  shows "fanout fuel False l1 Answered wall aid r s =
    fold (fan_event wall aid) (map event_of (drop p (events_of (rd_keys r aid)))) s"
  using ReadEventsAfter_seq [OF r fuel c(2)] c(1)
  by (auto simp: fanout_def seed_cursor_def streamIDForSeq_def)

lemma fanout_cursor:
  assumes r: "readable (rd_keys r aid)" and fuel: "length (events_of (rd_keys r aid)) < fuel"
    and c: "last_seq s aid = int p" "p \<le> length (events_of (rd_keys r aid))"
    and ok: "\<forall>e\<in>set (events_of (rd_keys r aid)). e_payload e \<noteq> JBad"
  shows "last_seq (fanout fuel False l1 Answered wall aid r s) aid = int (length (events_of (rd_keys r aid)))
    \<and> fa_seqGap (fanout fuel False l1 Answered wall aid r s) = fa_seqGap s"
proof -
  let ?es = "events_of (rd_keys r aid)"
  have log: "log_ok ?es" using r by (auto simp: readable_def dest: room_invD(1))
  have "ev_Seq (map event_of (drop p ?es) ! i) = last_seq s aid + int i + 1"
    if "i < length (map event_of (drop p ?es))" for i
    using that c log_ok_nth_seq [OF log, of "p + i"] by (simp add: event_of_def)
  moreover have "\<forall>e\<in>set (map event_of (drop p ?es)). ev_Payload e \<noteq> JBad"
    using ok by (auto simp: event_of_def dest: in_set_dropD)
  ultimately show ?thesis
    using fan_events_cursor [of "map event_of (drop p ?es)" s aid wall] c
    by (simp add: fanout_reads [OF r fuel c])
qed

text \<open>What is sent for the auction, with what is still pending, is the whole log.\<close>

lemma fanout_told:
  assumes r: "readable (rd_keys r aid)" and fuel: "length (events_of (rd_keys r aid)) < fuel"
    and c: "last_seq s aid = int p" "p \<le> length (events_of (rd_keys r aid))"
    and ok: "\<forall>e\<in>set (events_of (rd_keys r aid)). e_payload e \<noteq> JBad"
    and t: "told aid (map event_of (take p (events_of (rd_keys r aid))))
       (filter (\<lambda>x. fst x = aid) (fa_out s)) (fa_patch s)"
  shows "told aid (map event_of (events_of (rd_keys r aid)))
     (filter (\<lambda>x. fst x = aid) (fa_out (fanout fuel False l1 Answered wall aid r s)))
     (fa_patch (fanout fuel False l1 Answered wall aid r s))"
proof -
  let ?es = "events_of (rd_keys r aid)"
  have "\<forall>e\<in>set (map event_of (drop p ?es)). ev_Payload e \<noteq> JBad"
    using ok by (auto simp: event_of_def dest: in_set_dropD)
  from fan_events_told [OF t this, of wall]
  show ?thesis by (simp add: fanout_reads [OF r fuel c] flip: map_append)
qed

end
