(* ===== verification/Conn.thy ===== *)
theory Conn
  imports Prelude "HOL-Library.Sublist"
begin

text \<open>
  One WebSocket connection of the gateway (\<^verbatim>\<open>Conn\<close> in \<^verbatim>\<open>internal/server/ws.go\<close>): the critical,
  broadcast and lossy lanes, the buffer of a joining connection, the force-close of a slow
  client and the write pump. Then: while a connection is open no must-deliver frame is lost,
  repeated or reordered within its lane, the lanes are bounded, and broadcast frames of a join
  leave after what the join itself queued.
\<close>

section \<open>State\<close>

datatype 'f outboundFrame = Raw 'f | Prepared 'f

datatype lane = Crit | Bcast | Lossy | Ping

record 'f conn =
  cx_crit :: "'f outboundFrame list"
  cx_broadcast :: "'f outboundFrame list"
  cx_lossy :: "'f list"
  cx_joining :: bool
  cx_pending :: "'f outboundFrame list"
  cx_done :: bool
  cx_closeCode :: int
  cx_closeReason :: string
  cx_drops :: nat
  cx_wire :: "(lane \<times> 'f outboundFrame) list" \<comment> \<open>written, oldest first\<close>
  cx_closeFrame :: "int option"

definition newConn :: "'f conn" where
  "newConn = \<lparr>cx_crit = [], cx_broadcast = [], cx_lossy = [], cx_joining = False, cx_pending = [],
     cx_done = False, cx_closeCode = 0, cx_closeReason = [], cx_drops = 0, cx_wire = [], cx_closeFrame = None\<rparr>"

definition closeCodeBackpressureDrop :: int where
  "closeCodeBackpressureDrop = 4000"

definition maxDrainFrames :: nat where
  "maxDrainFrames = 256"

definition lossyFrames :: nat where
  "lossyFrames = 16"

section \<open>Sending\<close>

definition closeWithCode :: "int \<Rightarrow> string \<Rightarrow> 'f conn \<Rightarrow> 'f conn" where
  "closeWithCode code reason c =
     (if cx_done c then c else c\<lparr>cx_done := True, cx_closeCode := code, cx_closeReason := reason\<rparr>)"

definition conn_close :: "'f conn \<Rightarrow> 'f conn" where
  "conn_close = closeWithCode 0 []"

definition force_close :: "'f conn \<Rightarrow> 'f conn" where
  "force_close c = closeWithCode closeCodeBackpressureDrop ''backpressure'' (c\<lparr>cx_drops := cx_drops c + 1\<rparr>)"

text \<open>\<open>cap\<close> is \<^verbatim>\<open>sendBufFrames\<close>, the capacity of the critical and of the broadcast channel.\<close>

definition enqueueCritical :: "nat \<Rightarrow> 'f outboundFrame \<Rightarrow> 'f conn \<Rightarrow> 'f conn" where
  "enqueueCritical cap f c =
     (if cx_done c then c
      else if length (cx_crit c) < cap then c\<lparr>cx_crit := cx_crit c @ [f]\<rparr>
      else force_close c)"

definition enqueueBroadcastReady :: "nat \<Rightarrow> 'f outboundFrame \<Rightarrow> 'f conn \<Rightarrow> 'f conn" where
  "enqueueBroadcastReady cap f c =
     (if cx_done c then c
      else if length (cx_broadcast c) < cap then c\<lparr>cx_broadcast := cx_broadcast c @ [f]\<rparr>
      else force_close c)"

definition enqueueBroadcast :: "nat \<Rightarrow> 'f outboundFrame \<Rightarrow> 'f conn \<Rightarrow> 'f conn" where
  "enqueueBroadcast cap f c =
     (if \<not> cx_joining c then enqueueBroadcastReady cap f c
      else if cx_done c then c
      else if length (cx_pending c) \<ge> cap then force_close c
      else c\<lparr>cx_pending := cx_pending c @ [f]\<rparr>)"

definition beginJoinBarrier :: "'f conn \<Rightarrow> 'f conn" where
  "beginJoinBarrier c = c\<lparr>cx_joining := True, cx_pending := []\<rparr>"

definition spliceAndGoLive :: "nat \<Rightarrow> 'f conn \<Rightarrow> 'f conn" where
  "spliceAndGoLive cap c = (fold (enqueueBroadcastReady cap) (cx_pending c) c)\<lparr>cx_pending := [], cx_joining := False\<rparr>"

definition trySendLossy :: "'f \<Rightarrow> 'f conn \<Rightarrow> 'f conn" where
  "trySendLossy f c =
     (if cx_done c then c
      else if length (cx_lossy c) < lossyFrames then c\<lparr>cx_lossy := cx_lossy c @ [f]\<rparr>
      else c)"

section \<open>The write pump\<close>

text \<open>What the socket does: the size of a frame, and whether the next write succeeds.\<close>

record 'f socket =
  so_size :: "'f \<Rightarrow> nat"
  so_takes :: "(lane \<times> 'f outboundFrame) list \<Rightarrow> bool"

definition maxOutboundFrameBytes :: nat where
  "maxOutboundFrameBytes = 32 * 1024"

definition put_wire :: "'f socket \<Rightarrow> lane \<Rightarrow> 'f outboundFrame \<Rightarrow> 'f conn \<Rightarrow> bool \<times> 'f conn" where
  "put_wire so l f c =
     (if so_takes so (cx_wire c) then (True, c\<lparr>cx_wire := cx_wire c @ [(l, f)]\<rparr>) else (False, conn_close c))"

definition write_raw :: "'f socket \<Rightarrow> lane \<Rightarrow> 'f \<Rightarrow> 'f conn \<Rightarrow> bool \<times> 'f conn" where
  "write_raw so l msg c =
     (if so_size so msg > maxOutboundFrameBytes then (False, conn_close c) else put_wire so l (Raw msg) c)"

fun writeFrame :: "'f socket \<Rightarrow> lane \<Rightarrow> 'f outboundFrame \<Rightarrow> 'f conn \<Rightarrow> bool \<times> 'f conn" where
  "writeFrame so l (Prepared m) c = put_wire so l (Prepared m) c"
| "writeFrame so l (Raw m) c = write_raw so l m c"

definition take_crit :: "'f socket \<Rightarrow> 'f conn \<Rightarrow> bool \<times> 'f conn" where
  "take_crit so c =
     (case cx_crit c of [] \<Rightarrow> (True, c) | f # fs \<Rightarrow> writeFrame so Crit f (c\<lparr>cx_crit := fs\<rparr>))"

definition take_broadcast :: "'f socket \<Rightarrow> 'f conn \<Rightarrow> bool \<times> 'f conn" where
  "take_broadcast so c =
     (case cx_broadcast c of [] \<Rightarrow> (True, c) | f # fs \<Rightarrow> writeFrame so Bcast f (c\<lparr>cx_broadcast := fs\<rparr>))"

definition take_lossy :: "'f socket \<Rightarrow> 'f conn \<Rightarrow> bool \<times> 'f conn" where
  "take_lossy so c =
     (case cx_lossy c of [] \<Rightarrow> (True, c) | m # ms \<Rightarrow> write_raw so Lossy m (c\<lparr>cx_lossy := ms\<rparr>))"

text \<open>\<^verbatim>\<open>writeBroadcastAfterPriority\<close>, with \<open>n\<close> priority frames left to let pass.\<close>

fun after_priority :: "nat \<Rightarrow> 'f socket \<Rightarrow> 'f outboundFrame \<Rightarrow> 'f conn \<Rightarrow> bool \<times> 'f conn" where
  "after_priority 0 so f c = writeFrame so Bcast f c"
| "after_priority (Suc n) so f c =
     (if cx_done c then (False, c)
      else if cx_crit c = [] then writeFrame so Bcast f c
      else (let (ok, c') = take_crit so c in if ok then after_priority n so f c' else (False, c')))"

definition writeBroadcastAfterPriority :: "'f socket \<Rightarrow> 'f outboundFrame \<Rightarrow> 'f conn \<Rightarrow> bool \<times> 'f conn" where
  "writeBroadcastAfterPriority = after_priority maxDrainFrames"

text \<open>The loops of \<^verbatim>\<open>coalesceDrain\<close>: \<open>n\<close> frames were queued when the loop began, \<open>b\<close> is what is
  left of the batch.\<close>

fun drain_loop :: "('f conn \<Rightarrow> bool \<times> 'f conn) \<Rightarrow> nat \<Rightarrow> nat \<times> bool \<times> 'f conn \<Rightarrow> nat \<times> bool \<times> 'f conn" where
  "drain_loop body 0 s = s"
| "drain_loop body (Suc n) (b, ok, c) =
     (if \<not> ok \<or> b = 0 then (b, ok, c)
      else if cx_done c then (b, False, c)
      else (let (ok', c') = body c in drain_loop body n (b - 1, ok', c')))"

definition drain_broadcast :: "'f socket \<Rightarrow> 'f conn \<Rightarrow> bool \<times> 'f conn" where
  "drain_broadcast so c = (if cx_crit c \<noteq> [] then take_crit so c else take_broadcast so c)"

definition coalesceDrain :: "'f socket \<Rightarrow> 'f conn \<Rightarrow> bool \<times> 'f conn" where
  "coalesceDrain so c =
     (let s1 = drain_loop (take_crit so) (length (cx_crit c)) (maxDrainFrames, True, c);
          s2 = drain_loop (drain_broadcast so) (length (cx_broadcast (snd (snd s1)))) s1;
          s3 = drain_loop (take_crit so) (length (cx_crit (snd (snd s2)))) s2;
          s4 = drain_loop (take_lossy so) (length (cx_lossy (snd (snd s3)))) s3
      in snd s4)"

text \<open>Which ready case a \<^verbatim>\<open>select\<close> takes.\<close>

datatype pick = PickDone | PickCrit | PickBroadcast | PickLossy | PickPing

definition writePing :: "'f \<Rightarrow> 'f socket \<Rightarrow> 'f conn \<Rightarrow> bool \<times> 'f conn" where
  "writePing ping so c = put_wire so Ping (Raw ping) c"

definition pump_first :: "'f \<Rightarrow> 'f socket \<Rightarrow> pick \<Rightarrow> 'f conn \<Rightarrow> bool \<times> 'f conn" where
  "pump_first ping so p c =
     (case p of
        PickDone \<Rightarrow> (\<not> cx_done c, c)
      | PickCrit \<Rightarrow> take_crit so c
      | PickBroadcast \<Rightarrow>
          (case cx_broadcast c of
             [] \<Rightarrow> (True, c)
           | f # fs \<Rightarrow> writeBroadcastAfterPriority so f (c\<lparr>cx_broadcast := fs\<rparr>))
      | PickLossy \<Rightarrow> take_lossy so c
      | PickPing \<Rightarrow> writePing ping so c)"

definition flushClose :: "'f conn \<Rightarrow> 'f conn" where
  "flushClose c = (if cx_closeCode c > 0 then c\<lparr>cx_closeFrame := Some (cx_closeCode c)\<rparr> else c)"

text \<open>One turn of \<^verbatim>\<open>writePump\<close>: a first frame, the batch, the flush and a due ping. When it ends,
  \<^verbatim>\<open>flushClose\<close> runs.\<close>

definition pump_turn :: "'f \<Rightarrow> 'f socket \<Rightarrow> pick \<Rightarrow> bool \<Rightarrow> bool \<Rightarrow> 'f conn \<Rightarrow> bool \<times> 'f conn" where
  "pump_turn ping so p flushed due c =
     (let (ok1, c1) = pump_first ping so p c in
      if \<not> ok1 then (False, flushClose c1)
      else (let (ok2, c2) = coalesceDrain so c1 in
        if \<not> ok2 then (False, flushClose c2)
        else if \<not> flushed then (False, flushClose (conn_close c2))
        else if \<not> due then (True, c2)
        else (let (ok3, c3) = writePing ping so c2 in (ok3, if ok3 then c3 else flushClose c3))))"

section \<open>Nothing is lost while the connection is open\<close>

definition written :: "lane \<Rightarrow> 'f conn \<Rightarrow> 'f outboundFrame list" where
  "written l c = map snd (filter (\<lambda>x. fst x = l) (cx_wire c))"

text \<open>What the pump may do: write from the lanes in order, or fail and close.\<close>

definition pumped :: "'f outboundFrame list \<Rightarrow> 'f conn \<Rightarrow> bool \<times> 'f conn \<Rightarrow> bool" where
  "pumped held c r \<longleftrightarrow> (case r of (ok, c') \<Rightarrow>
     cx_pending c' = cx_pending c \<and> cx_joining c' = cx_joining c \<and>
     length (cx_crit c') \<le> length (cx_crit c) \<and> length (cx_broadcast c') \<le> length (cx_broadcast c) \<and>
     (cx_done c \<longrightarrow> cx_done c') \<and>
     (if ok then written Crit c' @ cx_crit c' = written Crit c @ cx_crit c
         \<and> written Bcast c' @ cx_broadcast c' = written Bcast c @ held @ cx_broadcast c \<and> cx_done c' = cx_done c
      else cx_done c' \<and> prefix (written Crit c') (written Crit c @ cx_crit c)
         \<and> prefix (written Bcast c') (written Bcast c @ held @ cx_broadcast c)))"

lemma close_simps [simp]:
  "cx_crit (closeWithCode a b c) = cx_crit c" "cx_broadcast (closeWithCode a b c) = cx_broadcast c"
  "cx_lossy (closeWithCode a b c) = cx_lossy c" "cx_wire (closeWithCode a b c) = cx_wire c"
  "cx_pending (closeWithCode a b c) = cx_pending c" "cx_joining (closeWithCode a b c) = cx_joining c"
  "cx_done (closeWithCode a b c)"
  by (simp_all add: closeWithCode_def)

lemma written_close [simp]: "written l (closeWithCode a b c) = written l c"
  by (simp add: written_def)

lemma written_update [simp]:
  "written l (c\<lparr>cx_crit := x\<rparr>) = written l c" "written l (c\<lparr>cx_broadcast := x\<rparr>) = written l c"
  "written l (c\<lparr>cx_lossy := y\<rparr>) = written l c" "written l (c\<lparr>cx_pending := x\<rparr>) = written l c"
  "written l (c\<lparr>cx_joining := j\<rparr>) = written l c" "written l (c\<lparr>cx_drops := n\<rparr>) = written l c"
  "written l (c\<lparr>cx_closeFrame := e\<rparr>) = written l c"
  "written l (c\<lparr>cx_wire := cx_wire d @ [(m, f)]\<rparr>) = written l d @ (if m = l then [f] else [])"
  by (auto simp: written_def)

lemmas pump_simps = pumped_def put_wire_def conn_close_def Let_def

lemma put_pumped:
  "pumped [f] c (put_wire so Bcast f c)"
  "pumped [] c (put_wire so Lossy f c)" "pumped [] c (put_wire so Ping f c)"
  by (auto simp: pump_simps written_def)

lemma writeFrame_cases: "writeFrame so l f c = (False, conn_close c) \<or> writeFrame so l f c = put_wire so l f c"
  by (cases f) (auto simp: write_raw_def)

lemma failed_pumped: "pumped held c (False, conn_close c)"
  by (auto simp: pump_simps)

lemma writeFrame_bcast_pumped: "pumped [f] c (writeFrame so Bcast f c)"
  using writeFrame_cases [of so Bcast f c] put_pumped(1) failed_pumped by metis

lemma pumped_ok: "pumped held c (True, c') \<longleftrightarrow>
     cx_pending c' = cx_pending c \<and> cx_joining c' = cx_joining c \<and> cx_done c' = cx_done c \<and>
     length (cx_crit c') \<le> length (cx_crit c) \<and> length (cx_broadcast c') \<le> length (cx_broadcast c) \<and>
     written Crit c' @ cx_crit c' = written Crit c @ cx_crit c \<and>
     written Bcast c' @ cx_broadcast c' = written Bcast c @ held @ cx_broadcast c"
  by (auto simp: pumped_def)

lemma pumped_failed: "pumped held c (False, c') \<longleftrightarrow>
     cx_pending c' = cx_pending c \<and> cx_joining c' = cx_joining c \<and> cx_done c' \<and>
     length (cx_crit c') \<le> length (cx_crit c) \<and> length (cx_broadcast c') \<le> length (cx_broadcast c) \<and>
     prefix (written Crit c') (written Crit c @ cx_crit c) \<and>
     prefix (written Bcast c') (written Bcast c @ held @ cx_broadcast c)"
  by (auto simp: pumped_def)

lemma take_crit_cases:
  obtains (nothing) "cx_crit c = []" "take_crit so c = (True, c)"
  | (failed) f fs where "cx_crit c = f # fs" "take_crit so c = (False, conn_close (c\<lparr>cx_crit := fs\<rparr>))"
  | (sent) f fs where "cx_crit c = f # fs"
      "take_crit so c = (True, c\<lparr>cx_crit := fs, cx_wire := cx_wire c @ [(Crit, f)]\<rparr>)"
proof (cases "cx_crit c")
  case (Cons f fs)
  then show thesis
    using writeFrame_cases [of so Crit f "c\<lparr>cx_crit := fs\<rparr>"] failed [of f fs] sent [of f fs]
    by (fastforce simp: take_crit_def put_wire_def split: if_splits)
qed (simp add: nothing take_crit_def)

lemma take_crit_pumped: "pumped [] c (take_crit so c)"
  by (cases rule: take_crit_cases [of c so]) (auto simp: pumped_ok pumped_failed conn_close_def)

lemma take_broadcast_pumped: "pumped [] c (take_broadcast so c)"
proof (cases "cx_broadcast c")
  case (Cons f fs)
  have "pumped [] c (False, conn_close (c\<lparr>cx_broadcast := fs\<rparr>))"
    "pumped [] c (put_wire so Bcast f (c\<lparr>cx_broadcast := fs\<rparr>))"
    using Cons by (auto simp: pumped_ok pumped_failed conn_close_def put_wire_def)
  then show ?thesis
    using writeFrame_cases [of so Bcast f "c\<lparr>cx_broadcast := fs\<rparr>"] Cons by (auto simp: take_broadcast_def)
qed (simp add: take_broadcast_def pumped_ok)

lemma take_lossy_pumped: "pumped [] c (take_lossy so c)"
  by (auto simp: take_lossy_def write_raw_def pumped_ok pumped_failed conn_close_def put_wire_def split: list.split)

lemma pumped_trans:
  assumes "pumped [] c (True, c1)" "pumped [] c1 r"
  shows "pumped [] c r"
proof (cases r)
  case (Pair ok c')
  then show ?thesis using assms by (cases ok) (auto simp: pumped_ok pumped_failed)
qed

lemma after_priority_pumped: "pumped [f] c (after_priority n so f c)"
proof (induction n arbitrary: c)
  case (Suc n)
  show ?case
  proof (cases "cx_done c \<or> cx_crit c = []")
    case True
    then show ?thesis using writeFrame_bcast_pumped by (auto simp: pumped_failed)
  next
    case False
    then show ?thesis
    proof (cases rule: take_crit_cases [of c so])
      case (sent g gs)
      have "pumped [f] c r" if "pumped [f] (c\<lparr>cx_crit := gs, cx_wire := cx_wire c @ [(Crit, g)]\<rparr>) r" for r
        using that sent(1) by (cases r; cases "fst r") (auto simp: pumped_ok pumped_failed)
      with sent False Suc.IH show ?thesis by (simp add: Let_def)
    qed (auto simp: pumped_failed conn_close_def)
  qed
qed (simp add: writeFrame_bcast_pumped)

lemma drain_loop_pumped:
  assumes body: "\<And>c. pumped [] c (body c)"
  shows "pumped [] c0 (ok, c) \<Longrightarrow> pumped [] c0 (snd (drain_loop body n (b, ok, c)))"
proof (induction n arbitrary: b ok c)
  case (Suc n)
  obtain ok' c' where t: "body c = (ok', c')" by (cases "body c")
  have "pumped [] c0 (ok', c')" if ok using pumped_trans [OF _ body [of c]] Suc.prems that t by simp
  moreover have "pumped [] c0 (False, c)" if ok "cx_done c"
    using Suc.prems that by (auto simp: pumped_ok pumped_failed intro: prefixI dest: sym)
  ultimately show ?case using Suc t by (auto simp: Let_def)
qed simp

lemma drain_broadcast_pumped: "pumped [] c (drain_broadcast so c)"
  by (simp add: drain_broadcast_def take_crit_pumped take_broadcast_pumped)

lemma pumped_refl: "pumped [] c (True, c)"
  by (simp add: pumped_def)

lemma coalesceDrain_pumped: "pumped [] c (coalesceDrain so c)"
proof -
  have step: "pumped [] c (snd (drain_loop body n s))"
    if "pumped [] c (snd s)" "\<And>c. pumped [] c (body c)" for body n and s :: "nat \<times> bool \<times> 'a conn"
    using drain_loop_pumped [OF that(2), of c "fst (snd s)" "snd (snd s)" n "fst s"] that(1) by simp
  show ?thesis
    unfolding coalesceDrain_def Let_def
    by (intro step take_lossy_pumped take_crit_pumped drain_broadcast_pumped) (simp add: pumped_refl)
qed

lemma flushClose_simps [simp]:
  "cx_crit (flushClose c) = cx_crit c" "cx_broadcast (flushClose c) = cx_broadcast c"
  "cx_pending (flushClose c) = cx_pending c" "cx_joining (flushClose c) = cx_joining c"
  "cx_done (flushClose c) = cx_done c" "written l (flushClose c) = written l c"
  by (simp_all add: flushClose_def)

lemma pumped_flushClose: "pumped [] c (False, c') \<Longrightarrow> pumped [] c (False, flushClose c')"
  by (simp add: pumped_failed)

lemma pump_first_pumped:
  assumes "\<not> cx_done c \<or> p \<noteq> PickDone"
  shows "pumped [] c (pump_first ping so p c)"
proof (cases p)
  case PickBroadcast
  show ?thesis
  proof (cases "cx_broadcast c")
    case (Cons f fs)
    have "pumped [f] (c\<lparr>cx_broadcast := fs\<rparr>) (writeBroadcastAfterPriority so f (c\<lparr>cx_broadcast := fs\<rparr>))"
      unfolding writeBroadcastAfterPriority_def by (rule after_priority_pumped)
    moreover have "pumped [f] (c\<lparr>cx_broadcast := fs\<rparr>) r \<Longrightarrow> pumped [] c r" for r
      using Cons by (cases r; cases "fst r") (auto simp: pumped_ok pumped_failed)
    ultimately show ?thesis using PickBroadcast Cons by (simp add: pump_first_def)
  qed (simp add: PickBroadcast pump_first_def pumped_refl)
qed (use assms in \<open>auto simp: pump_first_def take_crit_pumped take_lossy_pumped writePing_def put_pumped pumped_refl\<close>)

lemma pump_turn_pumped:
  assumes "\<not> cx_done c \<or> p \<noteq> PickDone"
  shows "pumped [] c (pump_turn ping so p flushed due c)"
proof -
  obtain ok1 c1 where 1: "pump_first ping so p c = (ok1, c1)" by (cases "pump_first ping so p c")
  obtain ok2 c2 where 2: "coalesceDrain so c1 = (ok2, c2)" by (cases "coalesceDrain so c1")
  obtain ok3 c3 where 3: "writePing ping so c2 = (ok3, c3)" by (cases "writePing ping so c2")
  have p1: "pumped [] c (ok1, c1)" using pump_first_pumped [OF assms, of ping so] 1 by simp
  have p2: "pumped [] c (ok2, c2)" if ok1
    using pumped_trans [OF _ coalesceDrain_pumped [of c1 so]] p1 2 that by simp
  have p3: "pumped [] c (ok3, c3)" if ok1 ok2
    using pumped_trans [OF _ put_pumped(3) [of c2 so "Raw ping"]] p2 3 that by (simp add: writePing_def)
  have pc: "pumped [] c (False, conn_close c2)" if ok1 ok2
    using pumped_trans [OF _ failed_pumped [of "[]" c2]] p2 that by simp
  show ?thesis
    using p1 p2 p3 pc by (auto simp: pump_turn_def 1 2 3 intro: pumped_flushClose)
qed

section \<open>A connection's history\<close>

text \<open>Everything that can happen to a connection, in any order: the handlers push critical frames
  and heartbeats, the fan-out delivers room frames, a join opens and closes its barrier, the
  pump takes a turn (and no more turns once it returned).\<close>

datatype 'f conn_op = Push "'f outboundFrame" | Fan "'f outboundFrame" | Begin | Splice | Beat 'f
  | Turn pick bool bool

fun conn_step :: "nat \<Rightarrow> 'f \<Rightarrow> 'f socket \<Rightarrow> 'f conn_op \<Rightarrow> bool \<times> 'f conn \<Rightarrow> bool \<times> 'f conn" where
  "conn_step cap ping so (Push f) (run, c) = (run, enqueueCritical cap f c)"
| "conn_step cap ping so (Fan f) (run, c) = (run, enqueueBroadcast cap f c)"
| "conn_step cap ping so Begin (run, c) = (run, beginJoinBarrier c)"
| "conn_step cap ping so Splice (run, c) = (run, spliceAndGoLive cap c)"
| "conn_step cap ping so (Beat f) (run, c) = (run, trySendLossy f c)"
| "conn_step cap ping so (Turn p flushed due) (run, c) =
     (if \<not> run \<or> p = PickDone \<and> \<not> cx_done c then (run, c)
      else if p = PickDone then (False, flushClose c)
      else pump_turn ping so p flushed due c)"

fun pushes :: "'f conn_op list \<Rightarrow> 'f outboundFrame list" where
  "pushes [] = []"
| "pushes (Push f # os) = f # pushes os"
| "pushes (_ # os) = pushes os"

fun fans :: "'f conn_op list \<Rightarrow> 'f outboundFrame list" where
  "fans [] = []"
| "fans (Fan f # os) = f # fans os"
| "fans (_ # os) = fans os"

text \<open>A barrier is closed before the next one opens.\<close>

fun bracketed :: "bool \<Rightarrow> 'f conn_op list \<Rightarrow> bool" where
  "bracketed j [] = True"
| "bracketed j (Begin # os) = (\<not> j \<and> bracketed True os)"
| "bracketed j (Splice # os) = (j \<and> bracketed False os)"
| "bracketed j (_ # os) = bracketed j os"

definition conn_inv :: "nat \<Rightarrow> 'f outboundFrame list \<Rightarrow> 'f outboundFrame list \<Rightarrow> bool \<times> 'f conn \<Rightarrow> bool" where
  "conn_inv cap cs bs s \<longleftrightarrow> (case s of (run, c) \<Rightarrow>
     length (cx_crit c) \<le> cap \<and> length (cx_broadcast c) \<le> cap \<and> length (cx_pending c) \<le> cap
     \<and> (\<not> cx_joining c \<longrightarrow> cx_pending c = []) \<and> (\<not> run \<longrightarrow> cx_done c)
     \<and> prefix (written Crit c) cs \<and> prefix (written Bcast c) bs
     \<and> (run \<longrightarrow> prefix (written Crit c @ cx_crit c) cs \<and> prefix (written Bcast c @ cx_broadcast c) bs)
     \<and> (\<not> cx_done c \<longrightarrow> written Crit c @ cx_crit c = cs
          \<and> written Bcast c @ cx_broadcast c @ cx_pending c = bs))"

lemma force_close_simps [simp]:
  "cx_crit (force_close c) = cx_crit c" "cx_broadcast (force_close c) = cx_broadcast c"
  "cx_pending (force_close c) = cx_pending c" "cx_joining (force_close c) = cx_joining c"
  "cx_done (force_close c)" "written l (force_close c) = written l c"
  by (simp_all add: force_close_def)

lemma conn_inv_mono: "conn_inv cap cs bs (run, c) \<Longrightarrow> cx_done c \<Longrightarrow> conn_inv cap (cs @ xs) (bs @ ys) (run, c)"
  by (auto simp: conn_inv_def intro: prefix_prefix)

lemma conn_inv_force: "conn_inv cap cs bs (run, c) \<Longrightarrow> conn_inv cap (cs @ xs) (bs @ ys) (run, force_close c)"
  by (auto simp: conn_inv_def intro: prefix_prefix)

lemma push_inv:
  assumes "conn_inv cap cs bs (run, c)" shows "conn_inv cap (cs @ [f]) bs (run, enqueueCritical cap f c)"
proof -
  consider "cx_done c" | "\<not> cx_done c" "length (cx_crit c) < cap" | "\<not> cx_done c" "length (cx_crit c) \<ge> cap" by linarith
  then show ?thesis
  proof cases
    case 1
    then show ?thesis using conn_inv_mono [OF assms, of "[f]" "[]"] by (simp add: enqueueCritical_def)
  next
    case 2
    then show ?thesis using assms by (auto simp: conn_inv_def enqueueCritical_def)
  next
    case 3
    then show ?thesis using conn_inv_force [OF assms, of "[f]" "[]"] by (simp add: enqueueCritical_def)
  qed
qed

lemma fan_inv:
  assumes "conn_inv cap cs bs (run, c)" shows "conn_inv cap cs (bs @ [f]) (run, enqueueBroadcast cap f c)"
proof -
  let ?l = "if cx_joining c then cx_pending c else cx_broadcast c"
  consider "cx_done c" | "\<not> cx_done c" "length ?l < cap" | "\<not> cx_done c" "length ?l \<ge> cap" by linarith
  then show ?thesis
  proof cases
    case 1
    then show ?thesis using conn_inv_mono [OF assms, of "[]" "[f]"] by (simp add: enqueueBroadcast_def enqueueBroadcastReady_def)
  next
    case 2
    then show ?thesis
      using assms by (auto simp: conn_inv_def enqueueBroadcast_def enqueueBroadcastReady_def intro: prefixI)
  next
    case 3
    then show ?thesis
      using conn_inv_force [OF assms, of "[]" "[f]"]
      by (simp add: enqueueBroadcast_def enqueueBroadcastReady_def split: if_splits)
  qed
qed

text \<open>Splicing moves the buffered frames to the lane, up to its capacity.\<close>

lemma splice_fold:
  assumes "length (cx_broadcast c) \<le> cap"
  shows "let c' = fold (enqueueBroadcastReady cap) fs c in
    cx_crit c' = cx_crit c \<and> written l c' = written l c \<and> length (cx_broadcast c') \<le> cap
    \<and> (\<exists>gs. prefix gs fs \<and> cx_broadcast c' = cx_broadcast c @ gs \<and> (\<not> cx_done c' \<longrightarrow> gs = fs))
    \<and> (cx_done c \<longrightarrow> cx_done c' \<and> cx_broadcast c' = cx_broadcast c)"
  using assms
proof (induction fs arbitrary: c)
  case (Cons f fs)
  show ?case
  proof (cases "\<not> cx_done c \<and> length (cx_broadcast c) < cap")
    case True
    then have "enqueueBroadcastReady cap f c = c\<lparr>cx_broadcast := cx_broadcast c @ [f]\<rparr>"
      by (simp add: enqueueBroadcastReady_def)
    then show ?thesis using Cons.IH [of "c\<lparr>cx_broadcast := cx_broadcast c @ [f]\<rparr>"] True
      by (auto simp: Let_def)
  next
    case False
    then have "cx_done (enqueueBroadcastReady cap f c)" "cx_broadcast (enqueueBroadcastReady cap f c) = cx_broadcast c"
      "cx_crit (enqueueBroadcastReady cap f c) = cx_crit c" "written l (enqueueBroadcastReady cap f c) = written l c"
      by (auto simp: enqueueBroadcastReady_def force_close_def)
    then show ?thesis using Cons.IH [of "enqueueBroadcastReady cap f c"] Cons.prems by (auto simp: Let_def)
  qed
qed (simp add: Let_def)

lemma splice_inv:
  assumes i: "conn_inv cap cs bs (run, c)"
  shows "conn_inv cap cs bs (run, spliceAndGoLive cap c)"
proof -
  let ?c = "fold (enqueueBroadcastReady cap) (cx_pending c) c"
  have b: "length (cx_broadcast c) \<le> cap" using i by (simp add: conn_inv_def)
  note s = splice_fold [OF b, of "cx_pending c", unfolded Let_def]
  obtain gs where gs: "prefix gs (cx_pending c)" "cx_broadcast ?c = cx_broadcast c @ gs"
    "\<not> cx_done ?c \<Longrightarrow> gs = cx_pending c" using s by blast
  have d: "cx_done c \<Longrightarrow> cx_done ?c \<and> cx_broadcast ?c = cx_broadcast c" using s by blast
  have p: "prefix (written Bcast c @ cx_broadcast c @ gs) bs" if run "\<not> cx_done c"
    using i that gs(1) by (auto simp: conn_inv_def prefix_def)
  show ?thesis
  proof (cases "cx_done c")
    case True
    then show ?thesis using i s d by (simp add: conn_inv_def spliceAndGoLive_def)
  next
    case False
    then have run: run using i by (auto simp: conn_inv_def)
    show ?thesis using i s gs p [OF run False] False run by (auto simp: conn_inv_def spliceAndGoLive_def)
  qed
qed

lemma lossy_inv: "conn_inv cap cs bs (run, c) \<Longrightarrow> conn_inv cap cs bs (run, trySendLossy f c)"
  by (auto simp: conn_inv_def trySendLossy_def)

lemma begin_inv: "conn_inv cap cs bs (run, c) \<Longrightarrow> \<not> cx_joining c \<Longrightarrow> conn_inv cap cs bs (run, beginJoinBarrier c)"
  by (auto simp: conn_inv_def beginJoinBarrier_def)

lemma pumped_inv:
  assumes "conn_inv cap cs bs (True, c)" "pumped [] c r"
  shows "conn_inv cap cs bs r"
proof (cases r)
  case (Pair ok c')
  show ?thesis
  proof (cases ok)
    case True
    have "prefix (written Crit c') (written Crit c' @ cx_crit c')" "prefix (written Bcast c') (written Bcast c' @ cx_broadcast c')"
      by simp_all
    with True Pair assms show ?thesis
      by (auto simp: conn_inv_def pumped_ok simp del: append_assoc dest: prefix_order.trans)
  next
    case False
    with Pair assms show ?thesis by (auto simp: conn_inv_def pumped_failed dest: prefix_order.trans)
  qed
qed

lemma turn_inv:
  assumes i: "conn_inv cap cs bs (run, c)"
  shows "conn_inv cap cs bs (conn_step cap ping so (Turn p flushed due) (run, c))"
proof (cases "run \<and> p \<noteq> PickDone")
  case True
  then have "pumped [] c (pump_turn ping so p flushed due c)" by (intro pump_turn_pumped) simp
  then show ?thesis using pumped_inv [of cap cs bs c] i True by simp
next
  case False
  then show ?thesis using i by (auto simp: conn_inv_def)
qed

lemma turn_joining: "cx_joining (snd (conn_step cap ping so (Turn p flushed due) (run, c))) = cx_joining c"
proof (cases "run \<and> p \<noteq> PickDone")
  case True
  then have "pumped [] c (pump_turn ping so p flushed due c)" by (intro pump_turn_pumped) simp
  then show ?thesis using True by (auto simp: pumped_def split: prod.splits)
qed auto

lemma enqueue_joining [simp]:
  "cx_joining (enqueueCritical cap f c) = cx_joining c" "cx_joining (enqueueBroadcast cap f c) = cx_joining c"
  "cx_joining (trySendLossy g c) = cx_joining c"
  by (simp_all add: enqueueCritical_def enqueueBroadcast_def enqueueBroadcastReady_def trySendLossy_def)

theorem run_inv:
  assumes "conn_inv cap cs bs s" "bracketed (cx_joining (snd s)) os"
  shows "conn_inv cap (cs @ pushes os) (bs @ fans os) (fold (conn_step cap ping so) os s)"
  using assms
proof (induction os arbitrary: cs bs s)
  case (Cons o' os)
  obtain run c where s: "s = (run, c)" by (cases s)
  show ?case
  proof (cases o')
    case (Push f)
    then show ?thesis using Cons.IH [of "cs @ [f]" bs "(run, enqueueCritical cap f c)"] push_inv [of cap cs bs run c f] Cons.prems s by simp
  next
    case (Fan f)
    then show ?thesis using Cons.IH [of cs "bs @ [f]" "(run, enqueueBroadcast cap f c)"] fan_inv [of cap cs bs run c f] Cons.prems s by simp
  next
    case Begin
    then show ?thesis using Cons.IH [of cs bs "(run, beginJoinBarrier c)"] begin_inv [of cap cs bs run c] Cons.prems s
      by (simp add: beginJoinBarrier_def)
  next
    case Splice
    then show ?thesis using Cons.IH [of cs bs "(run, spliceAndGoLive cap c)"] splice_inv [of cap cs bs run c] Cons.prems s
      by (simp add: spliceAndGoLive_def)
  next
    case (Beat f)
    then show ?thesis using Cons.IH [of cs bs "(run, trySendLossy f c)"] lossy_inv [of cap cs bs run c f] Cons.prems s by simp
  next
    case (Turn p flushed due)
    then show ?thesis
      using Cons.IH [of cs bs "conn_step cap ping so (Turn p flushed due) (run, c)"] turn_inv [of cap cs bs run c ping so p flushed due]
        turn_joining [of cap ping so p flushed due run c] Cons.prems s
      by (simp del: conn_step.simps)
  qed
qed simp

lemma newConn_inv: "conn_inv cap [] [] (True, newConn)"
  by (simp add: conn_inv_def newConn_def written_def)

section \<open>Priority\<close>

text \<open>A broadcast frame the pump has taken waits for what is on the critical lane, up to 256
  frames.\<close>

lemma after_priority_order:
  assumes "\<not> cx_done c" "after_priority n so f c = (True, c')"
  shows "cx_wire c' = cx_wire c @ map (Pair Crit) (take n (cx_crit c)) @ [(Bcast, f)]"
  using assms
proof (induction n arbitrary: c)
  case 0
  then show ?case using writeFrame_cases [of so Bcast f c] by (auto simp: put_wire_def split: if_splits)
next
  case (Suc n)
  show ?case
  proof (cases rule: take_crit_cases [of c so])
    case nothing
    then show ?thesis using Suc.prems writeFrame_cases [of so Bcast f c] by (auto simp: put_wire_def split: if_splits)
  next
    case failed
    then show ?thesis using Suc.prems by (simp add: Let_def)
  next
    case (sent g gs)
    then show ?thesis
      using Suc.IH [of "c\<lparr>cx_crit := gs, cx_wire := cx_wire c @ [(Crit, g)]\<rparr>"] Suc.prems by (simp add: Let_def)
  qed
qed

end
