(* ===== verification/Join.thy ===== *)
theory Join
  imports Bids Fanout Conn
begin

text \<open>
  \<^verbatim>\<open>ROOM_JOIN\<close> of \<^verbatim>\<open>dispatchWS\<close>: leave the old room, open the barrier, join, snapshot, replay
  what was missed, push the snapshot, close the barrier. The snapshot and the stream are read
  at different moments, so the handler takes two states of Redis. Then: what a client gets
  after a join is what it missed up to the snapshot, in order, when the gap is at most
  \<^verbatim>\<open>catchupMaxGap\<close> and the stream was read, and the snapshot alone otherwise.
\<close>

section \<open>The handler\<close>

record RoomJoinData =
  rj_AuctionID :: aid
  rj_LastSeq :: int

record join_env =
  je_fuel :: nat
  je_cap :: nat
  je_snapshot :: link
  je_read :: link
  je_wall :: int
  je_boost :: int \<comment> \<open>\<^verbatim>\<open>crowd.ViewerBoost\<close>\<close>
  je_likes :: int \<comment> \<open>\<^verbatim>\<open>social.likeCount\<close>\<close>

definition catchupMaxGap :: int where
  "catchupMaxGap = 200"

definition sendBufFrames :: nat where
  "sendBufFrames = 512"

definition eventsUpToSnapshot :: "StreamEvent list \<Rightarrow> int \<Rightarrow> StreamEvent list" where
  "eventsUpToSnapshot events snapshotSeq = filter (\<lambda>e. ev_Seq e \<le> snapshotSeq) events"

text \<open>An envelope around a payload that is no JSON does not marshal.\<close>

definition push :: "nat \<Rightarrow> Envelope \<Rightarrow> Envelope conn \<Rightarrow> Envelope conn" where
  "push cap env c = (if en_Data env = DEvent JBad then c else enqueueCritical cap (Raw env) c)"

definition catchup :: "join_env \<Rightarrow> aid \<Rightarrow> int \<Rightarrow> int \<Rightarrow> redis \<Rightarrow> StreamEvent list" where
  "catchup e aid lastSeq snapSeq r =
     (if lastSeq < snapSeq \<and> snapSeq - lastSeq \<le> catchupMaxGap
      then (case (if je_read e \<noteq> Answered then FetchError
                  else ReadEventsAfter (je_fuel e) (streamIDForSeq lastSeq) (rd_keys r aid)) of
              Collected evs nl \<Rightarrow> eventsUpToSnapshot evs snapSeq
            | _ \<Rightarrow> [])
      else [])"

definition joined_snapshot :: "join_env \<Rightarrow> aid \<Rightarrow> hub \<Rightarrow> RoomSnapshotData \<Rightarrow> RoomSnapshotData" where
  "joined_snapshot e aid h snap =
     snap\<lparr>sn_ViewerCount := viewerCount h aid + je_boost e, sn_SimViewerCount := je_boost e,
          sn_LikeCount := je_likes e\<rparr>"

definition room_join ::
  "join_env \<Rightarrow> RoomJoinData \<Rightarrow> redis \<Rightarrow> redis \<Rightarrow> ws_conn \<times> Envelope conn \<times> hub \<Rightarrow> ws_conn \<times> Envelope conn \<times> hub" where
  "room_join e d r1 r2 s =
     (case s of (w, c, h) \<Rightarrow>
        let aid = rj_AuctionID d in
        if aid = [] then s
        else (let h1 = (if cn_aid w \<noteq> [] then hub_leave (cn_aid w) (cn_id w) h else h);
                  w1 = w\<lparr>cn_aid := aid\<rparr>;
                  c1 = beginJoinBarrier c;
                  h2 = hub_join aid (cn_id w) h1
              in case Snapshot (je_snapshot e) aid r1 of
                   IOErr \<Rightarrow> (w1, spliceAndGoLive (je_cap e) c1, h2)
                 | IOk snap \<Rightarrow>
                     (let c2 = fold (\<lambda>ev. push (je_cap e) (event_envelope (je_wall e) aid ev))
                                 (catchup e aid (rj_LastSeq d) (sn_Seq snap) r2) c1;
                          snap' = joined_snapshot e aid h2 snap;
                          h3 = (case sn_Rules snap of None \<Rightarrow> h2
                                | Some rules \<Rightarrow> setMode aid (RoomSnapshotRules.rs_mode rules) h2);
                          c3 = push (je_cap e)
                                 (NewEnvelope (je_wall e) ROOM_SNAPSHOT aid (sn_Seq snap) (DSnapshot snap')) c2
                      in (w1, spliceAndGoLive (je_cap e) c3, h3))))"

section \<open>What the client gets\<close>

lemma upTo_prefix:
  assumes log: "log_ok (es @ later)"
  shows "eventsUpToSnapshot (map event_of (drop p (es @ later))) (int (length es)) = map event_of (drop p es)"
proof -
  have s: "e_seq e \<le> int (length es)" if "e \<in> set es" for e
  proof -
    obtain i where i: "i < length es" "e = es ! i" using \<open>e \<in> set es\<close> by (auto simp: in_set_conv_nth)
    have "e_seq ((es @ later) ! i) = int i + 1"
      using i(1) by (intro log_ok_nth_seq [OF log]) simp
    then show ?thesis using i by (simp add: nth_append)
  qed
  have l: "int (length es) < e_seq e" if "e \<in> set later" for e
  proof -
    obtain i where i: "i < length later" "e = later ! i" using \<open>e \<in> set later\<close> by (auto simp: in_set_conv_nth)
    have "e_seq ((es @ later) ! (length es + i)) = int (length es + i) + 1"
      using i(1) by (intro log_ok_nth_seq [OF log]) simp
    then show ?thesis using i by simp
  qed
  have "filter (\<lambda>e. ev_Seq e \<le> int (length es)) (map event_of (drop p es)) = map event_of (drop p es)"
    using s by (auto simp: filter_id_conv event_of_def dest: in_set_dropD)
  moreover have "filter (\<lambda>e. ev_Seq e \<le> int (length es)) (map event_of (drop (p - length es) later)) = []"
    using l by (force simp: filter_empty_conv event_of_def dest: in_set_dropD)
  ultimately show ?thesis by (simp add: eventsUpToSnapshot_def)
qed

text \<open>A client that knows the first \<open>p\<close> events misses the events from \<open>p + 1\<close> to the snapshot; the
  stream may have grown since the snapshot was read.\<close>

lemma catchup_missed:
  assumes inv1: "room_inv k1" and r2: "readable (rd_keys r2 aid)"
    and grown: "events_of (rd_keys r2 aid) = events_of k1 @ later"
    and fuel: "length (events_of (rd_keys r2 aid)) < je_fuel e" and up: "je_read e = Answered"
    and p: "p \<le> length (events_of k1)" "int (length (events_of k1)) - int p \<le> catchupMaxGap"
  shows "catchup e aid (int p) (h_seq (hash_of k1)) r2 = map event_of (drop p (events_of k1))"
proof (cases "p = length (events_of k1)")
  case True
  then show ?thesis using room_invD(2) [OF inv1] by (simp add: catchup_def)
next
  case False
  have log: "log_ok (events_of k1 @ later)" using r2 grown by (auto simp: readable_def dest: room_invD(1))
  obtain nl where "ReadEventsAfter (je_fuel e) (id_str (int p, 0)) (rd_keys r2 aid)
      = Collected (map event_of (drop p (events_of k1 @ later))) nl"
    using ReadEventsAfter_seq [OF r2 fuel, of p] p(1) grown by auto
  then show ?thesis
    using False p up room_invD(2) [OF inv1] upTo_prefix [OF log, of p]
    by (simp add: catchup_def streamIDForSeq_def)
qed

lemma catchup_short: "length (catchup e aid q (h_seq (hash_of k1)) r) \<le> 200"
  if "room_inv k1" "0 \<le> q" "readable (rd_keys r aid)" "length (events_of (rd_keys r aid)) < je_fuel e"
    "events_of (rd_keys r aid) = events_of k1 @ later"
proof -
  consider "je_read e \<noteq> Answered" | "q \<ge> h_seq (hash_of k1)" | "h_seq (hash_of k1) - q > catchupMaxGap"
    | "je_read e = Answered" "q < h_seq (hash_of k1)" "h_seq (hash_of k1) - q \<le> catchupMaxGap" by linarith
  then show ?thesis
  proof cases
    case 4
    note n = room_invD(2) [OF that(1)]
    have q: "q = int (nat q)" "nat q \<le> length (events_of k1)" using that(2) 4 n by auto
    have "catchup e aid (int (nat q)) (h_seq (hash_of k1)) r = map event_of (drop (nat q) (events_of k1))"
      using that 4 n q by (intro catchup_missed) auto
    then show ?thesis using 4 n q(1) by (simp add: catchupMaxGap_def)
  qed (auto simp: catchup_def)
qed

section \<open>The frames of a join\<close>

lemma push_room:
  assumes "\<not> cx_done c" "length (cx_crit c) < cap" "en_Data env \<noteq> DEvent JBad"
  shows "push cap env c = c\<lparr>cx_crit := cx_crit c @ [Raw env]\<rparr>"
  using assms by (simp add: push_def enqueueCritical_def)

lemma pushes_room:
  assumes "\<not> cx_done c" "length (cx_crit c) + length envs \<le> cap" "\<forall>e\<in>set envs. en_Data e \<noteq> DEvent JBad"
  shows "fold (push cap) envs c = c\<lparr>cx_crit := cx_crit c @ map Raw envs\<rparr>"
  using assms
proof (induction envs arbitrary: c)
  case (Cons e es)
  then show ?case
    using push_room [of c cap e] Cons.IH [of "c\<lparr>cx_crit := cx_crit c @ [Raw e]\<rparr>"] by simp
qed simp

definition join_frames :: "join_env \<Rightarrow> aid \<Rightarrow> entry list \<Rightarrow> RoomSnapshotData \<Rightarrow> Envelope list" where
  "join_frames e aid missed snap =
     map (\<lambda>ev. event_envelope (je_wall e) aid (event_of ev)) missed
     @ [NewEnvelope (je_wall e) ROOM_SNAPSHOT aid (sn_Seq snap) (DSnapshot snap)]"

text \<open>The events a join replays to a client that knows the first \<open>p\<close>: those missed, unless the stream could
  not be read or the gap is above the limit.\<close>

definition replayed_events :: "join_env \<Rightarrow> entry list \<Rightarrow> nat \<Rightarrow> entry list" where
  "replayed_events e es p = (if je_read e = Answered \<and> int (length es) - int p \<le> catchupMaxGap then drop p es else [])"

lemma catchup_replays:
  assumes "room_inv k1" "readable (rd_keys r2 aid)" "events_of (rd_keys r2 aid) = events_of k1 @ later"
    and "length (events_of (rd_keys r2 aid)) < je_fuel e"
  shows "catchup e aid (int p) (h_seq (hash_of k1)) r2 = map event_of (replayed_events e (events_of k1) p)"
proof (cases "je_read e = Answered \<and> p \<le> length (events_of k1) \<and> int (length (events_of k1)) - int p \<le> catchupMaxGap")
  case True
  then show ?thesis using catchup_missed [OF assms, of p] by (simp add: replayed_events_def)
next
  case False
  then show ?thesis using room_invD(2) [OF assms(1)] by (auto simp: catchup_def replayed_events_def)
qed

lemma room_join_frames:
  assumes inv1: "room_inv (rd_keys r1 aid)" and good: "\<not> bad_type (k_state (rd_keys r1 aid))"
    and r2: "readable (rd_keys r2 aid)" and grown: "events_of (rd_keys r2 aid) = events_of (rd_keys r1 aid) @ later"
    and fuel: "length (events_of (rd_keys r2 aid)) < je_fuel e" and up: "je_snapshot e = Answered"
    and ok: "\<forall>m\<in>set (events_of (rd_keys r1 aid)). e_payload m \<noteq> JBad"
    and aid: "aid \<noteq> []" and c: "\<not> cx_done c" "length (cx_crit c) + 201 \<le> je_cap e"
    and d: "rj_AuctionID d = aid" "rj_LastSeq d = int p"
    and j: "room_join e d r1 r2 (w, c, h) = (w', c', h')"
  shows "\<exists>snap. cx_crit c' = cx_crit c @ map Raw (join_frames e aid (replayed_events e (events_of (rd_keys r1 aid)) p) snap)
      \<and> sn_Seq snap = int (length (events_of (rd_keys r1 aid)))
      \<and> sn_CurrentPriceCents snap = sn_CurrentPriceCents (snapshot_of (hash_of (rd_keys r1 aid)))
      \<and> sn_Status snap = h_status (hash_of (rd_keys r1 aid))
      \<and> cx_wire c' = cx_wire c \<and> cx_broadcast c' = cx_broadcast c \<and> \<not> cx_done c' \<and> \<not> cx_joining c'"
proof -
  let ?k = "rd_keys r1 aid"
  let ?es = "events_of ?k"
  let ?ev = "\<lambda>ev. event_envelope (je_wall e) aid (event_of ev)"
  define h2 where "h2 = hub_join aid (cn_id w) (if cn_aid w \<noteq> [] then hub_leave (cn_aid w) (cn_id w) h else h)"
  let ?snap = "joined_snapshot e aid h2 (snapshot_of (hash_of ?k))"
  let ?ms = "replayed_events e ?es p"
  let ?fs = "join_frames e aid ?ms ?snap"
  have seq: "sn_Seq (snapshot_of (hash_of ?k)) = int (length ?es)"
    using room_invD(2) [OF inv1] by (simp add: snapshot_of_def)
  have m: "catchup e aid (int p) (sn_Seq (snapshot_of (hash_of ?k))) r2 = map event_of ?ms"
    using catchup_replays [OF inv1 r2 grown fuel] by (simp add: snapshot_of_def)
  have len: "length ?fs \<le> 201" by (auto simp: join_frames_def replayed_events_def catchupMaxGap_def)
  have good: "\<forall>x\<in>set ?fs. en_Data x \<noteq> DEvent JBad"
    using ok by (auto simp: join_frames_def replayed_events_def event_envelope_def NewEnvelope_def event_of_def
        dest: in_set_dropD split: if_splits)
  have f: "fold (push (je_cap e)) ?fs (beginJoinBarrier c)
      = (beginJoinBarrier c)\<lparr>cx_crit := cx_crit c @ map Raw ?fs\<rparr>"
    using pushes_room [of "beginJoinBarrier c" ?fs "je_cap e"] c len good by (simp add: beginJoinBarrier_def)
  have "c' = spliceAndGoLive (je_cap e) (fold (push (je_cap e)) ?fs (beginJoinBarrier c))"
    using j aid d m up assms(2)
    by (simp add: room_join_def Let_def Snapshot_def join_frames_def fold_map comp_def h2_def joined_snapshot_def
        split: option.splits)
  then show ?thesis
    using c(1) seq unfolding f
    by (intro exI [of _ ?snap])
       (simp add: spliceAndGoLive_def beginJoinBarrier_def joined_snapshot_def snapshot_of_def)
qed

end
