(* ===== verification/Auth.thy ===== *)
theory Auth
  imports GoStrings "HOL-Library.Word"
begin

text \<open>
  Identity (\<^verbatim>\<open>internal/auth/auth.go\<close>, and \<^verbatim>\<open>slug\<close> and \<^verbatim>\<open>requireSeller\<close> of \<^verbatim>\<open>api.go\<close>): signed
  tokens, the WebSocket origin check, the account id made of a nickname and the seller
  namespace. HMAC-SHA256 in hexadecimal is the argument \<open>mac\<close>. Then: a token verifies to the
  account it was made for, and the public login never mints a seller.
\<close>

unbundle bit_operations_syntax

section \<open>Tokens\<close>

type_synonym hmac = "string \<Rightarrow> string \<Rightarrow> string" \<comment> \<open>secret, message\<close>

definition dot :: char where
  "dot = CHR ''.''"

definition Token :: "hmac \<Rightarrow> string \<Rightarrow> string \<Rightarrow> string" where
  "Token mac secret userID = userID @ [dot] @ mac secret userID"

definition auth_Verify :: "hmac \<Rightarrow> string \<Rightarrow> string \<Rightarrow> string option" where
  "auth_Verify mac secret token =
     (if \<not> Contains token dot then None
      else (let userID = before dot token
            in if token \<noteq> Token mac secret userID then None else Some userID))"

definition OriginAllowed :: "string \<Rightarrow> string \<Rightarrow> bool" where
  "OriginAllowed origin allowed \<longleftrightarrow> origin = [] \<or> origin = allowed"

text \<open>\<^verbatim>\<open>authUser\<close>: the bearer header first, then the query parameter.\<close>

definition authUser :: "hmac \<Rightarrow> string \<Rightarrow> string \<Rightarrow> string \<Rightarrow> string option" where
  "authUser mac secret header query =
     (let tok = TrimPrefix header ''Bearer '' in auth_Verify mac secret (if tok = [] then query else tok))"

section \<open>Account ids\<close>

text \<open>FNV-1a on 32 bits, and its four bytes in hexadecimal, high byte first.\<close>

definition fnv32a :: "string \<Rightarrow> 32 word" where
  "fnv32a s = fold (\<lambda>c h. (h XOR word_of_nat (of_char c)) * 16777619) s 2166136261"

definition hex_digit :: "nat \<Rightarrow> char" where
  "hex_digit n = ''0123456789abcdef'' ! n"

definition hex32 :: "32 word \<Rightarrow> string" where
  "hex32 w = map (\<lambda>i. hex_digit (unat (drop_bit (28 - 4 * i) w) mod 16)) [0..<8]"

definition slug_char :: "char \<Rightarrow> string" where
  "slug_char c =
     (let n = of_char c :: nat in
      if 97 \<le> n \<and> n \<le> 122 \<or> 48 \<le> n \<and> n \<le> 57 then [c]
      else if c = CHR '' '' \<or> c = CHR ''-'' \<or> c = CHR ''_'' then ''_''
      else [])"

text \<open>\<^verbatim>\<open>slug\<close>. Lower-casing is written for ASCII; a byte of a longer rune is dropped like the
  rune.\<close>

definition slug :: "string \<Rightarrow> string" where
  "slug nickname =
     (let s = ToLower (TrimSpace nickname); b = concat (map slug_char s)
      in if b = [] then (if s = [] then ''anon'' else ''anon'' @ hex32 (fnv32a s)) else b)"

text \<open>The seller gate: an unset key opens it.\<close>

definition requireSeller :: "string \<Rightarrow> string \<Rightarrow> bool" where
  "requireSeller sellerKey userID \<longleftrightarrow> sellerKey = [] \<or> HasPrefix userID ''seller_''"

text \<open>The role and id a login gets: \<^term>\<open>None\<close> when refused.\<close>

definition login_id :: "string \<Rightarrow> string \<Rightarrow> string \<Rightarrow> (string \<times> string) option" where
  "login_id cfgKey nickname sellerKey =
     (let nick = TrimSpace nickname; key = TrimSpace sellerKey in
      if nick = [] then None
      else if key = [] then Some (''user'', ''user_'' @ slug nick)
      else if cfgKey \<noteq> [] \<and> key \<noteq> cfgKey then None
      else Some (''seller'', ''seller_'' @ slug nick))"

section \<open>Lemmas\<close>

lemma Token_verifies: "dot \<notin> set u \<Longrightarrow> auth_Verify mac secret (Token mac secret u) = Some u"
  by (simp add: auth_Verify_def Token_def Contains_def Let_def before_append)

lemma verified_token: "auth_Verify mac secret tok = Some u \<Longrightarrow> tok = Token mac secret u \<and> dot \<notin> set u"
proof -
  assume v: "auth_Verify mac secret tok = Some u"
  then have "u = before dot tok" by (auto simp: auth_Verify_def Let_def split: if_splits)
  then have "dot \<notin> set u" unfolding before_def by (metis (mono_tags, lifting) set_takeWhileD)
  with v show ?thesis by (auto simp: auth_Verify_def Let_def split: if_splits)
qed

definition id_char :: "char \<Rightarrow> bool" where
  "id_char c \<longleftrightarrow> (let n = of_char c :: nat in 97 \<le> n \<and> n \<le> 122 \<or> 48 \<le> n \<and> n \<le> 57) \<or> c = CHR ''_''"

lemma slug_char_cases: "slug_char x = [x] \<and> id_char x \<or> slug_char x = ''_'' \<or> slug_char x = []"
  by (simp add: slug_char_def id_char_def Let_def)

lemma slug_char_ok: "c \<in> set (slug_char x) \<Longrightarrow> id_char c"
  using slug_char_cases [of x] by (elim disjE conjE) (simp_all add: id_char_def)

lemma hex_digit_ok: "n < 16 \<Longrightarrow> id_char (hex_digit n)"
proof -
  assume "n < 16"
  then have "hex_digit n \<in> set ''0123456789abcdef''" unfolding hex_digit_def by (intro nth_mem) simp
  moreover have "\<forall>c\<in>set ''0123456789abcdef''. id_char c" by (simp add: id_char_def)
  ultimately show ?thesis by blast
qed

lemma slug_chars: "c \<in> set (slug s) \<Longrightarrow> id_char c"
proof -
  have "id_char c" if "c \<in> set ''anon''" using that by (auto simp: id_char_def)
  moreover have "id_char c" if "c \<in> set (hex32 w)" for w
    using that by (auto simp: hex32_def intro!: hex_digit_ok)
  ultimately show "c \<in> set (slug s) \<Longrightarrow> id_char c"
    by (auto simp: slug_def Let_def split: if_splits dest: slug_char_ok)
qed

lemma dot_not_id: "\<not> id_char dot"
  by (simp add: id_char_def dot_def)

lemma slug_ne: "slug s \<noteq> []"
  by (simp add: slug_def Let_def)

text \<open>A login's id survives its own token.\<close>

lemma login_token: "login_id k n sk = Some (role, u) \<Longrightarrow> auth_Verify mac secret (Token mac secret u) = Some u"
  using slug_chars dot_not_id by (intro Token_verifies) (auto simp: login_id_def Let_def dot_def split: if_splits)

text \<open>Only the right key opens the seller namespace.\<close>

lemma login_seller:
  assumes "login_id k n sk = Some (role, u)" "k \<noteq> []" "requireSeller k u"
  shows "TrimSpace sk = k"
  using assms by (auto simp: login_id_def requireSeller_def HasPrefix_def Let_def split: if_splits)

end
