(* ===== verification/ModePolicy.thy ===== *)
theory ModePolicy
  imports Ascending
begin

text \<open>
  \<^verbatim>\<open>internal/server/mode.go\<close> and \<^verbatim>\<open>recommend.go\<close>: the strategy object of every enabled auction
  mode, the registry, and the advisory mode recommender. The locale \<^verbatim>\<open>mode_policy\<close> is the
  contract of \<^verbatim>\<open>AuctionMode.NormalizeRules\<close>; all three strategies are instances.
\<close>

section \<open>Strategies\<close>

definition antiSnipeMaxExtensionsDefault :: int where
  "antiSnipeMaxExtensionsDefault = 10"

definition boundAntiSnipe :: "Rules \<Rightarrow> Rules" where
  "boundAntiSnipe r =
     (if ExtendWindowSec r > 0 \<and> ExtendSec r > 0 \<and> MaxExtensions r \<le> 0
      then r\<lparr>MaxExtensions := antiSnipeMaxExtensionsDefault\<rparr> else r)"

definition suddenDeath_NormalizeRules :: "Rules \<Rightarrow> Rules" where
  "suddenDeath_NormalizeRules r = r\<lparr>ExtendWindowSec := 0, ExtendSec := 0, MaxExtensions := 0\<rparr>"

datatype AuctionMode = baseMode mode | suddenDeathMode mode | sealedMode mode

fun mode_Name :: "AuctionMode \<Rightarrow> mode" where
  "mode_Name (baseMode m) = m"
| "mode_Name (suddenDeathMode m) = m"
| "mode_Name (sealedMode m) = m"

fun NormalizeRules :: "AuctionMode \<Rightarrow> Rules \<Rightarrow> Rules" where
  "NormalizeRules (suddenDeathMode m) r = suddenDeath_NormalizeRules r"
| "NormalizeRules (baseMode m) r = boundAntiSnipe r"
| "NormalizeRules (sealedMode m) r = boundAntiSnipe r"

fun SealedDuringLive :: "AuctionMode \<Rightarrow> bool" where
  "SealedDuringLive (sealedMode m) = True"
| "SealedDuringLive _ = False"

fun modeRegistry :: "mode \<Rightarrow> AuctionMode option" where
  "modeRegistry ENGLISH = Some (baseMode ENGLISH)"
| "modeRegistry SUDDEN_DEATH = Some (suddenDeathMode SUDDEN_DEATH)"
| "modeRegistry SEALED_FIRST = Some (sealedMode SEALED_FIRST)"
| "modeRegistry VICKREY = Some (sealedMode VICKREY)"
| "modeRegistry HYBRID_REVEAL = Some (baseMode HYBRID_REVEAL)"
| "modeRegistry ALL_PAY = Some (sealedMode ALL_PAY)"
| "modeRegistry _ = None"

definition modeFor :: "mode \<Rightarrow> AuctionMode option" where
  "modeFor name = modeRegistry (NormalizeMode name)"

lemma modeFor_name: "modeFor n = Some m \<Longrightarrow> mode_Name m = NormalizeMode n \<and> ValidMode n"
  by (cases n) (auto simp: modeFor_def)

text \<open>The registry hides exactly the modes the sealed engine runs.\<close>

lemma modeFor_sealed: "modeFor n = Some m \<Longrightarrow> SealedDuringLive m = UsesSealedEngine n"
  by (cases n) (auto simp: modeFor_def)

section \<open>The contract of rule normalisation\<close>

definition bounded_rules :: "Rules \<Rightarrow> bool" where
  "bounded_rules r \<longleftrightarrow> (ExtendWindowSec r > 0 \<and> ExtendSec r > 0 \<longrightarrow> MaxExtensions r > 0)"

locale mode_policy =
  fixes normalize :: "Rules \<Rightarrow> Rules"
  assumes mode_kept: "Mode (normalize r) = Mode r"
    and valid_kept: "Validate r = None \<Longrightarrow> Validate (normalize r) = None"
    and bounded: "bounded_rules (normalize r)"
    and idem: "normalize (normalize r) = normalize r"
begin

text \<open>An auction frozen with normalised rules and started at \<open>t\<close> ends by a time known at its
  start, whatever is bid.\<close>

lemma frozen_bounded:
  fixes r :: Rules and s :: uid and t1 t2 :: "int \<times> int" and d :: int and k :: akeys
  assumes inv: "room_inv k" and new: "h_status (hash_of k) \<in> {None, Some DRAFT}"
    and nt: "\<not> bad_type (k_state k)" and v: "Validate r = None"
  defines "k1 \<equiv> snd (freeze_rules \<lparr>fr_rules = normalize r, fr_sellerId = s\<rparr> t1 k)"
  defines "k2 \<equiv> snd (start_auction d t2 k1)"
  shows "h_endAtMs (hash_of (ascending.runs cs k2)) \<le>
    redis_now t2 + d + MaxExtensions (normalize r) * ExtendSec (normalize r) * 1000"
proof -
  let ?r = "normalize r"
  note vd = Validate_NoneD [OF valid_kept [OF v]]
  have k1: "k1 = set_hash (frozen_hash \<lparr>fr_rules = ?r, fr_sellerId = s\<rparr> (hash_of k)) k"
    using new nt by (auto simp: k1_def freeze_rules_def Let_def)
  have inv1: "room_inv k1" unfolding k1_def using inv by (rule freeze.keeps_inv)
  have inv2: "room_inv k2" unfolding k2_def using inv1 by (rule start.keeps_inv)
  have h2: "h_endAtMs (hash_of k2) = redis_now t2 + d" "h_extendCount (hash_of k2) = 0"
    "h_extendSec (hash_of k2) = ExtendSec ?r" "h_maxExtensions (hash_of k2) = MaxExtensions ?r"
    "h_extendWindowSec (hash_of k2) = ExtendWindowSec ?r"
    by (simp_all add: k2_def k1 start_auction_def set_hash_def frozen_hash_def Let_def)
  have ext: "ext_ok (hash_of k2) (hash_of (ascending.runs cs k2))" using inv2 by (rule runs_ext_ok)
  show ?thesis
  proof (cases "MaxExtensions ?r > 0")
    case True
    then have "h_extendCount (hash_of (ascending.runs cs k2)) \<le> MaxExtensions ?r"
      using ext vd(13) by (simp add: ext_ok_def h2)
    then have "h_extendCount (hash_of (ascending.runs cs k2)) * ExtendSec ?r \<le> MaxExtensions ?r * ExtendSec ?r"
      using vd(12) by (simp add: mult_right_mono)
    then show ?thesis using ext by (simp add: ext_ok_def h2)
  next
    case False
    then have off: "\<not> (ExtendWindowSec ?r > 0 \<and> ExtendSec ?r > 0)"
      using bounded [of r] by (auto simp: bounded_rules_def)
    then have "h_extendWindowSec (hash_of k2) \<le> 0 \<or> h_extendSec (hash_of k2) \<le> 0" by (auto simp: h2)
    then have "h_endAtMs (hash_of (ascending.runs cs k2)) = h_endAtMs (hash_of k2)"
      using inv2 by (rule runs_no_extension)
    then show ?thesis using False vd(12,13) by (simp add: h2)
  qed
qed

end

interpretation base_policy: mode_policy boundAntiSnipe
proof unfold_locales
  fix r :: Rules
  assume v: "Validate r = None"
  show "Validate (boundAntiSnipe r) = None"
    using v by (auto simp: boundAntiSnipe_def Validate_def antiSnipeMaxExtensionsDefault_def split: if_splits)
qed (auto simp: boundAntiSnipe_def bounded_rules_def antiSnipeMaxExtensionsDefault_def)

interpretation sudden_policy: mode_policy suddenDeath_NormalizeRules
proof unfold_locales
  fix r :: Rules
  assume v: "Validate r = None"
  show "Validate (suddenDeath_NormalizeRules r) = None"
    using v by (auto simp: suddenDeath_NormalizeRules_def Validate_def split: if_splits)
qed (auto simp: suddenDeath_NormalizeRules_def bounded_rules_def)

lemma NormalizeRules_cases:
  "NormalizeRules m = boundAntiSnipe \<or> NormalizeRules m = suddenDeath_NormalizeRules"
  by (cases m) (auto simp: fun_eq_iff)

lemma NormalizeRules_policy: "mode_policy (NormalizeRules m)"
  using NormalizeRules_cases [of m] base_policy.mode_policy_axioms sudden_policy.mode_policy_axioms
  by auto

section \<open>The recommender\<close>

fun isCollectibleCategory :: "string \<Rightarrow> bool" where
  "isCollectibleCategory c \<longleftrightarrow> c \<in> {''collectible'', ''card'', ''trading-card'', ''pokemon'',
     ''sports-card'', ''rare'', ''luxury'', ''art''}"

record recommendResp =
  RecommendedMode :: mode
  Alternatives :: "mode list"

definition highValue :: int where "highValue = 5000000"

definition highViewers :: int where "highViewers = 50"

definition recommendMode :: "int \<Rightarrow> int \<Rightarrow> string \<Rightarrow> recommendResp" where
  "recommendMode viewerCount valueCents category =
     (if valueCents \<ge> highValue \<and> isCollectibleCategory category
        then \<lparr>RecommendedMode = VICKREY, Alternatives = [SEALED_FIRST, ENGLISH]\<rparr>
      else if valueCents \<ge> highValue
        then \<lparr>RecommendedMode = SEALED_FIRST, Alternatives = [VICKREY, ENGLISH]\<rparr>
      else if viewerCount \<ge> highViewers
        then \<lparr>RecommendedMode = ENGLISH, Alternatives = [SUDDEN_DEATH, SEALED_FIRST]\<rparr>
      else \<lparr>RecommendedMode = SUDDEN_DEATH, Alternatives = [ENGLISH, SEALED_FIRST]\<rparr>)"

record recommendReq =
  rq_AuctionID :: aid
  rq_ViewerCount :: int
  rq_ValueCents :: money
  rq_Category :: string

text \<open>\<^verbatim>\<open>handleRecommendMode\<close> after authentication and decoding: the hub's count replaces the
  caller's when an auction is named, a bad amount counts as 0.\<close>

definition handleRecommendMode :: "(aid \<Rightarrow> int) option \<Rightarrow> recommendReq \<Rightarrow> recommendResp" where
  "handleRecommendMode hub rq =
     (let viewers = (case hub of
            Some viewerCount \<Rightarrow> (if rq_AuctionID rq \<noteq> [] then viewerCount (rq_AuctionID rq) else rq_ViewerCount rq)
          | None \<Rightarrow> rq_ViewerCount rq);
          valueCents = (if rq_ValueCents rq = [] then 0
                        else case ParseInt (rq_ValueCents rq) of POk v \<Rightarrow> v | _ \<Rightarrow> 0)
      in recommendMode viewers valueCents (rq_Category rq))"

lemma recommend_runnable:
  "m \<in> set (RecommendedMode (recommendMode v c cat) # Alternatives (recommendMode v c cat)) \<Longrightarrow>
   modeFor m \<noteq> None"
  by (auto simp: recommendMode_def modeFor_def split: if_splits)

lemma recommend_distinct:
  "distinct (RecommendedMode (recommendMode v c cat) # Alternatives (recommendMode v c cat))"
  by (simp add: recommendMode_def)

end
