(* ===== verification/Api.thy ===== *)
theory Api
  imports Auth Db ModePolicy
begin

text \<open>
  The REST handlers of \<^verbatim>\<open>internal/server/api.go\<close> that log in, create products and auctions and
  read a sealed parent. An argument of each handler is the environment: whether the \<open>i\<close>-th
  call it makes to MySQL answers, the fate of the \<open>i\<close>-th call to Redis, and the clocks.
  \<open>user\<close> is what \<^verbatim>\<open>authUser\<close> found. Then: only validated, bounded rules are stored, and only
  for the seller's own product.
\<close>

section \<open>Answers\<close>

text \<open>\<^verbatim>\<open>writeErr\<close>, \<^verbatim>\<open>writeJSON\<close> of a code, and a result. The text of an internal error is left
  out.\<close>

datatype 'a resp = Fail int string | Refuse int code | RefuseText int string | Ok 'a

record api_env =
  ae_db :: "nat \<Rightarrow> bool"
  ae_redis :: "nat \<Rightarrow> link"
  ae_lock :: bool
  ae_now :: int
  ae_time :: "int \<times> int"
  ae_purge :: purge_calls

record api_config =
  cf_SellerKey :: string
  cf_JWTSecret :: string
  cf_EnableDevLogin :: bool
  cf_LivePushURLBase :: string
  cf_LivePlayURLBase :: string

definition unauthorized :: "'a resp" where
  "unauthorized = Fail 401 ''unauthorized''"

definition internal :: "'a resp" where
  "internal = Fail 500 []"

section \<open>Log-in\<close>

record login_body =
  lb_Nickname :: string
  lb_SellerKey :: string

record login_result =
  lr_userId :: uid
  lr_token :: string
  lr_nickname :: string
  lr_role :: string

definition handleLogin :: "api_env \<Rightarrow> hmac \<Rightarrow> api_config \<Rightarrow> login_body option \<Rightarrow> db \<Rightarrow> login_result resp \<times> db" where
  "handleLogin e hm cf body d =
     (case body of
        None \<Rightarrow> (Fail 400 ''invalid json body'', d)
      | Some b \<Rightarrow>
          (if TrimSpace (lb_Nickname b) = [] then (Fail 400 ''nickname required'', d)
           else (case login_id (cf_SellerKey cf) (lb_Nickname b) (lb_SellerKey b) of
                   None \<Rightarrow> (Fail 403 ''invalid seller key'', d)
                 | Some (role, u) \<Rightarrow>
                     (case UpsertUser (ae_db e 0) u (TrimSpace (lb_Nickname b)) role d of
                        (Some x, d') \<Rightarrow> (internal, d')
                      | (None, d') \<Rightarrow>
                          (Ok \<lparr>lr_userId = u, lr_token = Token hm (cf_JWTSecret cf) u,
                               lr_nickname = TrimSpace (lb_Nickname b), lr_role = role\<rparr>, d')))))"

definition handleDevLogin ::
  "api_env \<Rightarrow> hmac \<Rightarrow> api_config \<Rightarrow> (string \<times> string) option \<Rightarrow> db \<Rightarrow> login_result resp \<times> db" where
  "handleDevLogin e hm cf body d =
     (if \<not> cf_EnableDevLogin cf then (Fail 403 ''dev-login disabled'', d)
      else (case body of
              None \<Rightarrow> (Fail 400 ''invalid json body'', d)
            | Some (nickname, role) \<Rightarrow>
                (if nickname = [] then (Fail 400 ''nickname required'', d)
                 else (let r = (if role = [] then ''user'' else role); u = ''user_'' @ slug nickname
                       in case UpsertUser (ae_db e 0) u nickname r d of
                            (Some x, d') \<Rightarrow> (internal, d')
                          | (None, d') \<Rightarrow>
                              (Ok \<lparr>lr_userId = u, lr_token = Token hm (cf_JWTSecret cf) u,
                                   lr_nickname = nickname, lr_role = r\<rparr>, d')))))"

section \<open>Products and auctions\<close>

text \<open>\<^verbatim>\<open>newID\<close> is an argument of the handlers: 16 random hexadecimal digits.\<close>

definition handleCreateProduct ::
  "api_env \<Rightarrow> api_config \<Rightarrow> string \<Rightarrow> uid option \<Rightarrow> (string \<times> string \<times> string) option \<Rightarrow> db \<Rightarrow> string resp \<times> db" where
  "handleCreateProduct e cf newID user body d =
     (case user of
        None \<Rightarrow> (unauthorized, d)
      | Some u \<Rightarrow>
          (if \<not> requireSeller (cf_SellerKey cf) u then (Refuse 403 ERR_NOT_ALLOWED, d)
           else (case body of
                   None \<Rightarrow> (Fail 400 ''invalid json body'', d)
                 | Some (nm, img, descr) \<Rightarrow>
                     (let i = ''prod_'' @ newID
                      in case CreateProduct (ae_db e 0) \<lparr>pr_id = i, pr_seller = u, pr_name = nm,
                                pr_image = img, pr_description = descr\<rparr> d of
                           (Some x, d') \<Rightarrow> (internal, d')
                         | (None, d') \<Rightarrow> (Ok i, d')))))"

definition TrimRight :: "char \<Rightarrow> string \<Rightarrow> string" where
  "TrimRight c s = rev (dropWhile (\<lambda>x. x = c) (rev s))"

definition TrimLeft :: "char \<Rightarrow> string \<Rightarrow> string" where
  "TrimLeft c s = dropWhile (\<lambda>x. x = c) s"

definition joinStreamURL :: "string \<Rightarrow> string \<Rightarrow> string \<Rightarrow> string" where
  "joinStreamURL base skey suffix =
     (if base = [] \<or> skey = [] then []
      else TrimRight (CHR ''/'') base @ ''/'' @ TrimLeft (CHR ''/'') skey @ suffix)"

definition livePlayURL :: "api_config \<Rightarrow> string \<Rightarrow> string" where
  "livePlayURL cf skey = joinStreamURL (cf_LivePlayURLBase cf) skey ''.m3u8''"

definition livePushURL :: "api_config \<Rightarrow> string \<Rightarrow> string" where
  "livePushURL cf skey = joinStreamURL (cf_LivePushURLBase cf) skey []"

definition prepareLiveStreamRules :: "api_config \<Rightarrow> string \<Rightarrow> Rules \<Rightarrow> Rules" where
  "prepareLiveStreamRules cf newID r =
     (let r1 = (if LiveStreamKey r = [] then r\<lparr>LiveStreamKey := ''stream_'' @ newID\<rparr> else r)
      in if LivePlayUrl r1 = [] then r1\<lparr>LivePlayUrl := livePlayURL cf (LiveStreamKey r1)\<rparr> else r1)"

record create_body =
  cb_ProductID :: string
  cb_Rules :: Rules
  cb_FactsConfirmed :: bool
  cb_ConfirmedFacts :: string

text \<open>The mode's policy, then validation; the same in \<^verbatim>\<open>handleSpawnFormal\<close>.\<close>

definition admit_rules :: "Rules \<Rightarrow> Rules resp" where
  "admit_rules r =
     (case modeFor (Mode r) of
        None \<Rightarrow> Fail 400 ''auction mode not available yet''
      | Some m \<Rightarrow>
          (let r' = NormalizeRules m r
           in if Validate r' \<noteq> None then Fail 400 ''invalid rules'' else Ok r'))"

definition handleCreateAuction ::
  "api_env \<Rightarrow> api_config \<Rightarrow> string \<Rightarrow> string \<Rightarrow> uid option \<Rightarrow> create_body option \<Rightarrow> db \<Rightarrow> aid resp \<times> db" where
  "handleCreateAuction e cf newID streamID user body d =
     (case user of
        None \<Rightarrow> (unauthorized, d)
      | Some u \<Rightarrow>
          (if \<not> requireSeller (cf_SellerKey cf) u then (Refuse 403 ERR_NOT_ALLOWED, d)
           else (case body of
                   None \<Rightarrow> (Fail 400 ''invalid json body'', d)
                 | Some b \<Rightarrow>
                     (if cb_ProductID b = [] then (Fail 400 ''productId required'', d)
                      else (case admit_rules (cb_Rules b) of
                              Fail c s \<Rightarrow> (Fail c s, d)
                            | Refuse c x \<Rightarrow> (Refuse c x, d)
                            | RefuseText c x \<Rightarrow> (RefuseText c x, d)
                            | Ok r \<Rightarrow>
                                (let i = ''auc_'' @ newID
                                 in case CreateAuction (ae_db e 0) (ae_now e) i (cb_ProductID b) u
                                      (prepareLiveStreamRules cf streamID r)
                                      (cb_FactsConfirmed b) (cb_ConfirmedFacts b) d of
                                      (None, d') \<Rightarrow> (Ok i, d')
                                    | (Some x, d') \<Rightarrow>
                                        (if x = ErrNotFound then (Fail 404 ''product not found'', d')
                                         else if x = ErrNotAllowed then (Refuse 403 ERR_NOT_ALLOWED, d')
                                         else (internal, d'))))))))"

section \<open>Ownership\<close>

definition ownsAuction :: "bool \<Rightarrow> aid \<Rightarrow> uid \<Rightarrow> db \<Rightarrow> auction_row resp" where
  "ownsAuction up aid u d =
     (case GetAuction up aid d of
        Inl x \<Rightarrow> (if x = ErrNotFound then Fail 404 ''auction not found'' else internal)
      | Inr a \<Rightarrow> (if ar_seller a \<noteq> u then Refuse 403 ERR_NOT_ALLOWED else Ok a))"

section \<open>The recommendation of a sealed parent\<close>

record prequalifySealedSummary =
  ps_Count :: int
  ps_MaxCents :: money
  ps_SecondCents :: money
  ps_MedianCents :: money

datatype rationale = Cluster | SingleBid | Outlier

record prequalifyRecommendation =
  pq_ParentAuctionID :: aid
  pq_ReserveCents :: money
  pq_Summary :: prequalifySealedSummary
  pq_Rationale :: rationale

definition usable_amounts :: "RevealedBid list \<Rightarrow> int list" where
  "usable_amounts bids =
     concat (map (\<lambda>b. case ParseInt (TrimSpace (rev_amountCents b)) of
                        POk n \<Rightarrow> (if n \<le> 0 \<or> n > MaxMoneyCents then [] else [n]) | _ \<Rightarrow> []) bids)"

text \<open>Integer division truncates, as for Go's positive operands; 53 bits times 13 fit.\<close>

definition recommended_reserve :: "int list \<Rightarrow> int \<times> rationale" where
  "recommended_reserve desc =
     (let mx = hd desc; second = (if length desc > 1 then desc ! 1 else 0);
          median = desc ! (length desc div 2);
          (r, why) = (if length desc = 1 then (mx, SingleBid)
                      else if second > 0 \<and> mx \<ge> wrap64 (second * 13) div 10 then (second, Outlier)
                      else (median, Cluster))
      in (if r \<le> 0 then mx else r, why))"

definition prequalifyRecommendationFromReveal ::
  "aid \<Rightarrow> AuctionRevealedData \<Rightarrow> prequalifyRecommendation option" where
  "prequalifyRecommendationFromReveal parentAID reveal =
     (let desc = rev (sort (usable_amounts (reveal_bids reveal)))
      in if desc = [] then None
         else (let (reserve, why) = recommended_reserve desc; second = (if length desc > 1 then desc ! 1 else 0)
               in Some \<lparr>pq_ParentAuctionID = parentAID, pq_ReserveCents = FormatInt reserve,
                        pq_Summary = \<lparr>ps_Count = int (length desc), ps_MaxCents = FormatInt (hd desc),
                          ps_SecondCents = (if second > 0 then FormatInt second else []),
                          ps_MedianCents = FormatInt (desc ! (length desc div 2))\<rparr>,
                        pq_Rationale = why\<rparr>))"

definition loadPrequalifyRecommendation ::
  "api_env \<Rightarrow> nat \<Rightarrow> uid \<Rightarrow> aid \<Rightarrow> db \<Rightarrow> redis \<Rightarrow> (auction_row \<times> prequalifyRecommendation) resp" where
  "loadPrequalifyRecommendation e fuel u aid d r =
     (case GetAuction (ae_db e 0) aid d of
        Inl x \<Rightarrow> (if x = ErrNotFound then Fail 404 ''parent auction not found'' else internal)
      | Inr a \<Rightarrow>
          (if ar_seller a \<noteq> u then Refuse 403 ERR_NOT_ALLOWED
           else (case GetRules (ae_db e 1) aid d of
                   Inl x \<Rightarrow> internal
                 | Inr pr \<Rightarrow>
                     (if \<not> UsesSealedEngine (Mode pr) \<or> NormalizeMode (Mode pr) = ALL_PAY
                      then Fail 400 ''parent must be SEALED_FIRST or VICKREY''
                      else (case Snapshot (ae_redis e 0) aid r of
                              IOErr \<Rightarrow> internal
                            | IOk snap \<Rightarrow>
                                (if sn_Status snap \<notin> {Some SOLD, Some ORDER_CREATED}
                                 then Fail 400 ''parent auction is not terminal SOLD''
                                 else (case (if ae_redis e 1 \<noteq> Answered then ReadError
                                             else LastAuctionReveal fuel (rd_keys r aid)) of
                                         NotFound \<Rightarrow> Fail 400 ''parent has no sealed reveal to recommend from''
                                       | Found rv \<Rightarrow>
                                           (case prequalifyRecommendationFromReveal aid rv of
                                              None \<Rightarrow> Fail 400 ''parent has no usable sealed bids to recommend from''
                                            | Some rec \<Rightarrow> Ok (a, rec))
                                       | _ \<Rightarrow> internal)))))))"

record spawn_result =
  sr_auctionId :: aid
  sr_seeded :: money
  sr_reused :: bool

text \<open>\<^verbatim>\<open>handleSpawnFormal\<close>; calls 2 to 5 to MySQL are the child, its rules, the creation and the
  link.\<close>

definition handleSpawnFormal ::
  "api_env \<Rightarrow> api_config \<Rightarrow> nat \<Rightarrow> string \<Rightarrow> string \<Rightarrow> uid option \<Rightarrow> aid \<Rightarrow> Rules option \<Rightarrow> db \<Rightarrow> redis
    \<Rightarrow> spawn_result resp \<times> db" where
  "handleSpawnFormal e cf fuel newID streamID user parentAID body d r =
     (case user of
        None \<Rightarrow> (unauthorized, d)
      | Some u \<Rightarrow>
          (case loadPrequalifyRecommendation e fuel u parentAID d r of
             Fail c s \<Rightarrow> (Fail c s, d)
           | Refuse c x \<Rightarrow> (Refuse c x, d)
           | RefuseText c x \<Rightarrow> (RefuseText c x, d)
           | Ok (parent, rec) \<Rightarrow>
               (case ChildAuctionByParent (ae_db e 2) parentAID d of
                  Inr c \<Rightarrow>
                    (Ok \<lparr>sr_auctionId = ar_id c,
                         sr_seeded = (case GetRules (ae_db e 3) (ar_id c) d of
                            Inr rules \<Rightarrow> FormatInt (StartPriceCents rules) | Inl x \<Rightarrow> pq_ReserveCents rec),
                         sr_reused = True\<rparr>, d)
                | Inl x \<Rightarrow>
                    (if x \<noteq> ErrNotFound then (internal, d)
                     else (case body of
                       None \<Rightarrow> (Fail 400 ''invalid json body'', d)
                     | Some rules \<Rightarrow>
                         (case ParseInt (pq_ReserveCents rec) of
                            POk n \<Rightarrow>
                              (let seeded = (if StartPriceCents rules > 0 then StartPriceCents rules else n)
                               in case admit_rules (rules\<lparr>StartPriceCents := seeded\<rparr>) of
                                    Fail c s \<Rightarrow> (Fail c s, d)
                                  | Refuse c y \<Rightarrow> (Refuse c y, d)
                                  | RefuseText c y \<Rightarrow> (RefuseText c y, d)
                                  | Ok r' \<Rightarrow>
                                      (let i = ''auc_'' @ newID
                                       in case CreateAuction (ae_db e 4) (ae_now e) i (ar_product parent) u
                                             (prepareLiveStreamRules cf streamID r') True [] d of
                                            (Some y, d') \<Rightarrow> (internal, d')
                                          | (None, d') \<Rightarrow>
                                              (case SetParentAuction (ae_db e 5) (ae_now e) i parentAID d' of
                                                 (Some y, d'') \<Rightarrow> (internal, d'')
                                               | (None, d'') \<Rightarrow>
                                                   (Ok \<lparr>sr_auctionId = i, sr_seeded = FormatInt seeded,
                                                        sr_reused = False\<rparr>, d''))))
                          | _ \<Rightarrow> (internal, d)))))))"

section \<open>Only admissible rules are stored\<close>

text \<open>Rules an auction may run under: valid, of a mode the registry runs, with bounded
  extensions.\<close>

definition runnable :: "Rules \<Rightarrow> bool" where
  "runnable r \<longleftrightarrow> Validate r = None \<and> bounded_rules r \<and> modeFor (Mode r) \<noteq> None"

definition rules_ok :: "db \<Rightarrow> bool" where
  "rules_ok d \<longleftrightarrow> (\<forall>i r. auction_rules d i = Some r \<longrightarrow> runnable r)"

lemma admit_runnable: "admit_rules r = Ok r' \<Longrightarrow> runnable r' \<and> Mode r' = Mode r"
proof -
  assume a: "admit_rules r = Ok r'"
  then obtain m where m: "modeFor (Mode r) = Some m" "r' = NormalizeRules m r" "Validate r' = None"
    by (auto simp: admit_rules_def Let_def split: option.splits if_splits)
  have "bounded_rules (NormalizeRules m r)" "Mode (NormalizeRules m r) = Mode r"
    using NormalizeRules_policy [of m] by (auto simp: mode_policy_def)
  with m show ?thesis by (simp add: runnable_def)
qed

lemma runnable_live [simp]:
  "runnable (r\<lparr>LiveStreamKey := x\<rparr>) = runnable r" "runnable (r\<lparr>LivePlayUrl := x\<rparr>) = runnable r"
  by (simp_all add: runnable_def Validate_def bounded_rules_def)

lemma runnable_mode: "runnable r \<Longrightarrow> runnable (r\<lparr>Mode := NormalizeMode (Mode r)\<rparr>)"
proof (cases "Mode r = ModeEmpty")
  case True
  then show "runnable r \<Longrightarrow> ?thesis"
    by (auto simp: runnable_def Validate_def bounded_rules_def modeFor_def split: if_splits)
next
  case False
  then have "NormalizeMode (Mode r) = Mode r" by (cases "Mode r") auto
  then show "runnable r \<Longrightarrow> ?thesis" by simp
qed

lemma prepare_runnable: "runnable r \<Longrightarrow> runnable (prepareLiveStreamRules cf k r)"
  by (simp add: prepareLiveStreamRules_def Let_def)

lemma runnable_stored: "runnable r \<Longrightarrow> runnable ((prepareLiveStreamRules cf i r)\<lparr>Mode := NormalizeMode (Mode (prepareLiveStreamRules cf i r))\<rparr>)"
  by (intro runnable_mode prepare_runnable)

lemma CreateAuction_rules:
  assumes "rules_ok d" "runnable r"
  shows "rules_ok (snd (CreateAuction up now i p u (prepareLiveStreamRules cf k r) fc f d))"
  using assms runnable_stored [OF assms(2), of cf k]
  by (auto simp: CreateAuction_def rules_ok_def split: option.splits)

lemma SetParent_rules [simp]: "auction_rules (snd (SetParentAuction up now i p d)) = auction_rules d"
  by (simp add: SetParentAuction_def set_auctions_fst)

lemma created_rules:
  assumes "rules_ok d" "admit_rules q = Ok r'"
    and "CreateAuction up now j p u (prepareLiveStreamRules cf k r') fc f d = (x, d')"
  shows "rules_ok d'"
  using CreateAuction_rules [OF assms(1), of r' up now j p u cf k fc f] admit_runnable [OF assms(2)] assms(3) by simp

lemma linked_rules: "rules_ok d \<Longrightarrow> SetParentAuction up now i p d = (x, d') \<Longrightarrow> rules_ok d'"
  using SetParent_rules [of up now i p d] by (simp add: rules_ok_def)

lemma handleCreateAuction_rules:
  "rules_ok d \<Longrightarrow> rules_ok (snd (handleCreateAuction e cf i k user body d))"
  by (auto simp: handleCreateAuction_def Let_def split: option.splits resp.splits prod.splits if_splits
      dest: created_rules)

lemma handleSpawnFormal_rules:
  "rules_ok d \<Longrightarrow> rules_ok (snd (handleSpawnFormal e cf fuel i k user pa body d r))"
  by (auto simp: handleSpawnFormal_def Let_def split: option.splits resp.splits prod.splits
      sum.splits parsed.splits if_splits dest: created_rules linked_rules)

text \<open>A created auction is a draft of the caller for a product of the caller.\<close>

lemma handleCreateAuction_owner:
  assumes "handleCreateAuction e cf n k user body d = (Ok i, d')"
  obtains u b r a where "user = Some u" "body = Some b" "requireSeller (cf_SellerKey cf) u"
    "a \<in> set (auctions d')" "ar_id a = i" "ar_seller a = u" "ar_status a = DRAFT"
    "\<exists>p\<in>set (products d). pr_id p = cb_ProductID b \<and> pr_seller p = u"
    "auction_rules d' i = Some r" "runnable r"
proof -
  obtain u b r' where u: "user = Some u" "body = Some b" "requireSeller (cf_SellerKey cf) u"
    "admit_rules (cb_Rules b) = Ok r'" "i = ''auc_'' @ n"
    "CreateAuction (ae_db e 0) (ae_now e) i (cb_ProductID b) u (prepareLiveStreamRules cf k r')
        (cb_FactsConfirmed b) (cb_ConfirmedFacts b) d = (None, d')"
    using assms by (auto simp: handleCreateAuction_def Let_def unauthorized_def internal_def
        split: option.splits resp.splits prod.splits if_splits)
  let ?r = "prepareLiveStreamRules cf k r'"
  obtain p where p: "find (\<lambda>p. pr_id p = cb_ProductID b) (products d) = Some p" "pr_seller p = u"
    and d': "d' = d\<lparr>auctions := auctions d @ [\<lparr>ar_id = i, ar_product = cb_ProductID b, ar_seller = u,
                     ar_status = DRAFT, ar_price = StartPriceCents ?r, ar_winner = [],
                     ar_factsConfirmed = cb_FactsConfirmed b, ar_facts = cb_ConfirmedFacts b, ar_parent = [],
                     ar_created = ae_now e, ar_updated = ae_now e\<rparr>],
                   auction_rules := (auction_rules d)(i \<mapsto> ?r\<lparr>Mode := NormalizeMode (Mode ?r)\<rparr>)\<rparr>"
    using u(6) by (auto simp: CreateAuction_def split: option.splits if_splits)
  have "runnable (?r\<lparr>Mode := NormalizeMode (Mode ?r)\<rparr>)"
    using admit_runnable [OF u(4)] runnable_stored by blast
  moreover have "\<exists>p\<in>set (products d). pr_id p = cb_ProductID b \<and> pr_seller p = u"
    using p by (metis (mono_tags, lifting) find_Some_iff nth_mem)
  ultimately show thesis
    using that [OF u(1-3), of "last (auctions d')" "?r\<lparr>Mode := NormalizeMode (Mode ?r)\<rparr>"] by (simp add: d')
qed

section \<open>The recommended reserve is a bid\<close>

lemma usable_range: "n \<in> set (usable_amounts bids) \<Longrightarrow> 0 < n \<and> n \<le> MaxMoneyCents"
  by (auto simp: usable_amounts_def split: parsed.splits if_splits)

lemma reserve_in: "desc \<noteq> [] \<Longrightarrow> \<forall>n\<in>set desc. 0 < n \<Longrightarrow> fst (recommended_reserve desc) \<in> set desc"
proof -
  assume ne: "desc \<noteq> []" and pos: "\<forall>n\<in>set desc. 0 < n"
  have h: "hd desc \<in> set desc" using ne by simp
  have m: "desc ! (length desc div 2) \<in> set desc" using ne by simp
  have s: "length desc > 1 \<Longrightarrow> desc ! 1 \<in> set desc" by simp
  show ?thesis using h m s by (auto simp: recommended_reserve_def Let_def)
qed

lemma recommendation_sound:
  assumes "prequalifyRecommendationFromReveal aid rv = Some q"
  obtains n where "pq_ReserveCents q = FormatInt n" "n \<in> set (usable_amounts (reveal_bids rv))"
    "0 < n" "n \<le> MaxMoneyCents" "\<forall>m\<in>set (usable_amounts (reveal_bids rv)). \<exists>s. ps_MaxCents (pq_Summary q) = FormatInt s \<and> m \<le> s"
proof -
  define desc where "desc = rev (sort (usable_amounts (reveal_bids rv)))"
  have s: "set desc = set (usable_amounts (reveal_bids rv))" by (simp add: desc_def)
  have ne: "desc \<noteq> []" and q: "pq_ReserveCents q = FormatInt (fst (recommended_reserve desc))"
    "ps_MaxCents (pq_Summary q) = FormatInt (hd desc)"
    using assms by (auto simp: prequalifyRecommendationFromReveal_def Let_def desc_def split: if_splits prod.splits)
  have r: "fst (recommended_reserve desc) \<in> set desc" using ne s usable_range by (intro reserve_in) auto
  have "sorted (sort (usable_amounts (reveal_bids rv)))" by simp
  then have "\<forall>m\<in>set desc. m \<le> hd desc"
    using ne unfolding desc_def by (cases "sort (usable_amounts (reveal_bids rv))" rule: rev_cases) (auto simp: sorted_append)
  then show thesis using that [OF q(1)] r q(2) s usable_range [of _ "reveal_bids rv"] by blast
qed

end
