(* ===== verification/ApiLifecycle.thy ===== *)
theory ApiLifecycle
  imports Api Persistence
begin

text \<open>
  The seller's and the buyer's handlers of \<^verbatim>\<open>internal/server/api.go\<close> that move an auction or an
  order: edit, freeze, start, cancel, pay, delete. State is MySQL and Redis; the two writes of
  \<^verbatim>\<open>handleStart\<close> are separate steps, because it takes no lock between them. Then: nobody but the
  seller moves an auction, what each success means in both stores, and the races the code
  leaves open.
\<close>

named_theorems ok_iff \<open>when a check or a call succeeds\<close>

section \<open>Edit\<close>

text \<open>\<open>overlay\<close> is what decoding \<^verbatim>\<open>rules\<close> over the stored rules does; it is absent with the
  field and fails on a bad value.\<close>

definition handlePatchAuction ::
  "api_env \<Rightarrow> uid option \<Rightarrow> aid \<Rightarrow> (Rules \<Rightarrow> Rules option) option option \<Rightarrow> db \<Rightarrow> unit resp \<times> db" where
  "handlePatchAuction e user aid body d =
     (case user of
        None \<Rightarrow> (unauthorized, d)
      | Some u \<Rightarrow>
          (case ownsAuction (ae_db e 0) aid u d of
             Fail c s \<Rightarrow> (Fail c s, d)
           | Refuse c x \<Rightarrow> (Refuse c x, d)
           | RefuseText c x \<Rightarrow> (RefuseText c x, d)
           | Ok a \<Rightarrow>
               (if ar_status a \<notin> {DRAFT, SCHEDULED} then (RefuseText 409 ''ERR_NOT_EDITABLE'', d)
                else (case GetRules (ae_db e 1) aid d of
                        Inl x \<Rightarrow> (Fail 404 ''rules not found'', d)
                      | Inr rules \<Rightarrow>
                          (case body of
                             None \<Rightarrow> (Fail 400 ''invalid json body'', d)
                           | Some overlay \<Rightarrow>
                               (case (case overlay of None \<Rightarrow> Some rules | Some f \<Rightarrow> f rules) of
                                  None \<Rightarrow> (Fail 400 ''bad rules'', d)
                                | Some rules' \<Rightarrow>
                                    (case UpdateRules (ae_db e 2) (ae_db e 3) (ae_now e) aid rules' d of
                                       (None, d') \<Rightarrow> (Ok (), d')
                                     | (Some x, d') \<Rightarrow>
                                         (if x = ErrNotFound then (Fail 404 ''rules not found'', d')
                                          else (Fail 400 [], d')))))))))"

section \<open>Freeze\<close>

definition facts_given :: "string \<Rightarrow> string option" where
  "facts_given raw = (let t = TrimSpace raw in if t \<noteq> [] \<and> t \<noteq> ''null'' then Some t else None)"

definition record_facts :: "bool \<Rightarrow> int \<Rightarrow> aid \<Rightarrow> string \<Rightarrow> db \<Rightarrow> db_err option \<times> db" where
  "record_facts up now aid facts d =
     (case facts_given facts of None \<Rightarrow> (None, d) | Some f \<Rightarrow> UpdateConfirmedFacts up now aid f d)"

text \<open>The body of the transition lock: an error, or a code.\<close>

definition freeze_locked ::
  "api_env \<Rightarrow> uid \<Rightarrow> aid \<Rightarrow> string \<Rightarrow> Rules \<Rightarrow> db \<times> redis \<Rightarrow> (db_err + code) \<times> db \<times> redis" where
  "freeze_locked e u aid facts rules s =
     (case s of (d, r) \<Rightarrow>
        (case GetAuction (ae_db e 3) aid d of
          Inl x \<Rightarrow> (Inl x, d, r)
        | Inr cur \<Rightarrow>
            (if ar_seller cur \<noteq> u then (Inr ERR_NOT_ALLOWED, d, r)
             else if IsTerminal (ar_status cur) then (Inr ERR_ALREADY_TERMINAL, d, r)
             else if ar_status cur \<noteq> DRAFT then (Inr ERR_BAD_STATE, d, r)
             else if \<not> ar_factsConfirmed cur then (Inr ERR_FACTS_NOT_CONFIRMED, d, r)
             else (case record_facts (ae_db e 4) (ae_now e) aid facts d of
                     (Some x, d1) \<Rightarrow> (Inl x, d1, r)
                   | (None, d1) \<Rightarrow>
                       (case FreezeRules (ae_redis e 0) (ae_time e) aid (ar_seller cur) rules r of
                          (IOErr, r1) \<Rightarrow> (Inl DbError, d1, r1)
                        | (IOk c, r1) \<Rightarrow>
                            (if c \<noteq> OK_FROZEN then (Inr c, d1, r1)
                             else (case UpdateAuctionStatus (ae_db e 5) (ae_now e) aid SCHEDULED d1 of
                                     (Some x, d2) \<Rightarrow> (Inl x, d2, r1)
                                   | (None, d2) \<Rightarrow> (Inr c, d2, r1))))))))"

definition handleFreeze ::
  "api_env \<Rightarrow> uid option \<Rightarrow> aid \<Rightarrow> string option \<Rightarrow> db \<times> redis \<Rightarrow> code resp \<times> db \<times> redis" where
  "handleFreeze e user aid body s =
     (case user of
        None \<Rightarrow> (unauthorized, s)
      | Some u \<Rightarrow>
          (case body of
             None \<Rightarrow> (Fail 400 ''invalid json body'', s)
           | Some facts \<Rightarrow>
               (case ownsAuction (ae_db e 0) aid u (fst s) of
                  Fail c x \<Rightarrow> (Fail c x, s)
                | Refuse c x \<Rightarrow> (Refuse c x, s)
                | RefuseText c x \<Rightarrow> (RefuseText c x, s)
                | Ok a \<Rightarrow>
                    (if \<not> ar_factsConfirmed a then (Refuse 409 ERR_FACTS_NOT_CONFIRMED, s)
                     else (case GetRules (ae_db e 1) aid (fst s) of
                             Inl x \<Rightarrow> (Fail 404 ''rules not found'', s)
                           | Inr rules \<Rightarrow>
                               (case WithAuctionTransitionLock (ae_db e 2) (ae_lock e)
                                       (freeze_locked e u aid facts rules) s of
                                  (Inl x, s') \<Rightarrow> (internal, s')
                                | (Inr c, s') \<Rightarrow>
                                    (if c \<noteq> OK_FROZEN then (Refuse 409 c, s') else (Ok c, s'))))))))"

section \<open>Start\<close>

definition start_duration :: "bool \<Rightarrow> aid \<Rightarrow> int \<Rightarrow> db \<Rightarrow> int" where
  "start_duration up aid durationMs d =
     (if durationMs > 0 then durationMs
      else (case GetRules up aid d of
              Inr rules \<Rightarrow> (if DurationSec rules > 0 then wrap64 (DurationSec rules * 1000) else 60000)
            | Inl x \<Rightarrow> 60000))"

text \<open>Up to the reply of the script, and the projection after it.\<close>

definition start_script ::
  "api_env \<Rightarrow> uid option \<Rightarrow> aid \<Rightarrow> int option \<Rightarrow> db \<times> redis \<Rightarrow> int resp \<times> db \<times> redis" where
  "start_script e user aid body s =
     (case user of
        None \<Rightarrow> (unauthorized, s)
      | Some u \<Rightarrow>
          (case ownsAuction (ae_db e 0) aid u (fst s) of
             Fail c x \<Rightarrow> (Fail c x, s)
           | Refuse c x \<Rightarrow> (Refuse c x, s)
           | RefuseText c x \<Rightarrow> (RefuseText c x, s)
           | Ok a \<Rightarrow>
               (case body of
                  None \<Rightarrow> (Fail 400 ''invalid json body'', s)
                | Some durationMs \<Rightarrow>
                    (case StartAuction (ae_redis e 0) (ae_redis e 1) (ae_time e) aid
                            (start_duration (ae_db e 1) aid durationMs (fst s)) (snd s) of
                       (IOErr, r') \<Rightarrow> (internal, fst s, r')
                     | (IOk (c, endAtMs), r') \<Rightarrow>
                         (if c \<noteq> OK_LIVE then (Refuse 409 c, fst s, r') else (Ok endAtMs, fst s, r'))))))"

definition start_project :: "api_env \<Rightarrow> aid \<Rightarrow> int \<Rightarrow> db \<times> redis \<Rightarrow> int resp \<times> db \<times> redis" where
  "start_project e aid endAtMs s =
     (case UpdateAuctionStatus (ae_db e 2) (ae_now e) aid LIVE (fst s) of
        (Some x, d') \<Rightarrow> (internal, d', snd s)
      | (None, d') \<Rightarrow> (Ok endAtMs, d', snd s))"

definition handleStart ::
  "api_env \<Rightarrow> uid option \<Rightarrow> aid \<Rightarrow> int option \<Rightarrow> db \<times> redis \<Rightarrow> int resp \<times> db \<times> redis" where
  "handleStart e user aid body s =
     (case start_script e user aid body s of
        (Ok endAtMs, s') \<Rightarrow> start_project e aid endAtMs s'
      | x \<Rightarrow> x)"

section \<open>Cancel\<close>

text \<open>The DRAFT branch under the lock: answered here (\<^term>\<open>Some\<close>), or left to the script.\<close>

definition cancel_locked ::
  "api_env \<Rightarrow> uid \<Rightarrow> aid \<Rightarrow> db \<times> redis \<Rightarrow> (db_err + (int \<times> code) option) \<times> db \<times> redis" where
  "cancel_locked e u aid s =
     (case s of (d, r) \<Rightarrow>
        (case GetAuction (ae_db e 2) aid d of
          Inl x \<Rightarrow> (Inl x, d, r)
        | Inr cur \<Rightarrow>
            (if ar_seller cur \<noteq> u then (Inr (Some (403, ERR_NOT_ALLOWED)), d, r)
             else if IsTerminal (ar_status cur) then (Inr (Some (409, ERR_ALREADY_TERMINAL)), d, r)
             else if ar_status cur \<noteq> DRAFT then (Inr None, d, r)
             else (case Snapshot (ae_redis e 0) aid r of
                     IOErr \<Rightarrow> (Inl DbError, d, r)
                   | IOk snap \<Rightarrow>
                       (if sn_Status snap \<noteq> None then (Inr None, d, r)
                        else (case UpdateAuctionStatusIf (ae_db e 3) (ae_now e) aid CANCELLED DRAFT d of
                                (Inl x, d') \<Rightarrow> (Inl x, d', r)
                              | (Inr ok, d') \<Rightarrow>
                                  (Inr (if ok then Some (200, OK_CANCELLED) else None), d', r)))))))"

definition cancel_script :: "api_env \<Rightarrow> uid \<Rightarrow> aid \<Rightarrow> db \<times> redis \<Rightarrow> code resp \<times> db \<times> redis" where
  "cancel_script e u aid s =
     (case CancelAuction (ae_redis e 1) (ae_time e) aid u (snd s) of
        (IOErr, r') \<Rightarrow> (internal, fst s, r')
      | (IOk c, r') \<Rightarrow>
          (if c \<noteq> OK_CANCELLED then (Refuse 409 c, fst s, r')
           else (Ok c, snd (UpdateAuctionStatus (ae_db e 4) (ae_now e) aid CANCELLED (fst s)),
                 snd (UntrackActive (ae_redis e 2) aid r'))))"

definition handleCancel :: "api_env \<Rightarrow> uid option \<Rightarrow> aid \<Rightarrow> db \<times> redis \<Rightarrow> code resp \<times> db \<times> redis" where
  "handleCancel e user aid s =
     (case user of
        None \<Rightarrow> (unauthorized, s)
      | Some u \<Rightarrow>
          (case ownsAuction (ae_db e 0) aid u (fst s) of
             Fail c x \<Rightarrow> (Fail c x, s)
           | Refuse c x \<Rightarrow> (Refuse c x, s)
           | RefuseText c x \<Rightarrow> (RefuseText c x, s)
           | Ok a \<Rightarrow>
               (if IsTerminal (ar_status a) then (Refuse 409 ERR_ALREADY_TERMINAL, s)
                else if ar_status a = DRAFT
                then (case WithAuctionTransitionLock (ae_db e 1) (ae_lock e) (cancel_locked e u aid) s of
                        (Inl x, s') \<Rightarrow> (internal, s')
                      | (Inr (Some (h, c)), s') \<Rightarrow> (if h = 200 then Ok c else Refuse h c, s')
                      | (Inr None, s') \<Rightarrow> cancel_script e u aid s')
                else cancel_script e u aid s)))"

section \<open>Orders and deletion\<close>

definition handleGetOrder :: "api_env \<Rightarrow> aid \<Rightarrow> db \<Rightarrow> order_row resp" where
  "handleGetOrder e aid d =
     (case GetOrder (ae_db e 0) aid d of
        Inl x \<Rightarrow> (if x = ErrNotFound then Fail 404 ''no order for this auction (not sold yet)'' else internal)
      | Inr order \<Rightarrow> Ok order)"

definition handlePayOrder :: "api_env \<Rightarrow> uid option \<Rightarrow> aid \<Rightarrow> db \<Rightarrow> order_row resp \<times> db" where
  "handlePayOrder e user aid d =
     (case user of
        None \<Rightarrow> (unauthorized, d)
      | Some u \<Rightarrow>
          (case GetOrder (ae_db e 0) aid d of
             Inl x \<Rightarrow> (if x = ErrNotFound then Fail 404 ''no order to pay'' else internal, d)
           | Inr order \<Rightarrow>
               (if or_buyer order \<noteq> u then (Fail 403 ''not your order'', d)
                else (case PayOrder (ae_db e 1) aid d of
                        (Inl x, d') \<Rightarrow> (internal, d')
                      | (Inr paid, d') \<Rightarrow> (Ok paid, d')))))"

definition handleDeleteAuction ::
  "api_env \<Rightarrow> uid option \<Rightarrow> aid \<Rightarrow> db \<times> redis \<Rightarrow> DeleteAuctionResult resp \<times> db \<times> redis" where
  "handleDeleteAuction e user aid s =
     (case user of
        None \<Rightarrow> (unauthorized, s)
      | Some u \<Rightarrow>
          (case ownsAuction (ae_db e 0) aid u (fst s) of
             Fail c x \<Rightarrow> (Fail c x, s)
           | Refuse c x \<Rightarrow> (Refuse c x, s)
           | RefuseText c x \<Rightarrow> (RefuseText c x, s)
           | Ok a \<Rightarrow>
               (if \<not> IsTerminal (ar_status a) then (RefuseText 409 ''ERR_NOT_TERMINAL'', s)
                else (case DeleteAuction (ae_db e 1) (ae_purge e) (ae_db e 2) aid u s of
                        (Inr res, s') \<Rightarrow> (Ok res, s')
                      | (Inl x, s') \<Rightarrow>
                          (if x = ErrAuctionNotDeletable then RefuseText 409 ''ERR_NOT_TERMINAL''
                           else if x = ErrNotFound then Fail 404 ''auction not found'' else internal, s')))))"

section \<open>Nobody else moves an auction\<close>

definition not_seller :: "uid option \<Rightarrow> aid \<Rightarrow> db \<Rightarrow> bool" where
  "not_seller user aid d \<longleftrightarrow> (\<forall>a. auction_by aid d = Some a \<longrightarrow> user \<noteq> Some (ar_seller a))"

text \<open>When a check lets a request through.\<close>

lemma owns_Ok [ok_iff]:
  "ownsAuction up aid u d = Ok a \<longleftrightarrow> up \<and> auction_by aid d = Some a \<and> ar_seller a = u"
  by (auto simp: ownsAuction_def GetAuction_def internal_def split: sum.splits option.splits)

lemma GetAuction_Inr [ok_iff]: "GetAuction up aid d = Inr a \<longleftrightarrow> up \<and> auction_by aid d = Some a"
  by (auto simp: GetAuction_def split: option.splits)

lemma GetRules_Inr [ok_iff]: "GetRules up aid d = Inr r \<longleftrightarrow> up \<and> auction_rules d aid = Some r"
  by (auto simp: GetRules_def split: option.splits)

lemma GetOrder_Inr [ok_iff]: "GetOrder up aid d = Inr x \<longleftrightarrow> up \<and> order_by aid d = Some x"
  by (auto simp: GetOrder_def split: option.splits)

lemma lock_Inr [ok_iff]:
  "WithAuctionTransitionLock up got f s = (Inr x, s') \<longleftrightarrow> up \<and> got \<and> f s = (Inr x, s')"
  by (auto simp: WithAuctionTransitionLock_def)

lemma stranger_owns:
  assumes "not_seller (Some u) aid d"
  obtains c x where "ownsAuction up aid u d = Fail c x" | "ownsAuction up aid u d = Refuse 403 ERR_NOT_ALLOWED"
  using assms unfolding ownsAuction_def GetAuction_def internal_def not_seller_def
  by (cases up; cases "auction_by aid d") auto

lemma stranger_patch: "not_seller user aid d \<Longrightarrow> snd (handlePatchAuction e user aid b d) = d"
  by (cases user; simp add: handlePatchAuction_def; erule stranger_owns [where up = "ae_db e 0"]; simp)

lemma stranger_freeze: "not_seller user aid (fst s) \<Longrightarrow> snd (handleFreeze e user aid f s) = s"
  by (cases user; cases f; simp add: handleFreeze_def; erule stranger_owns [where up = "ae_db e 0"]; simp)

lemma stranger_start: "not_seller user aid (fst s) \<Longrightarrow> snd (handleStart e user aid du s) = s"
  by (cases user; simp add: handleStart_def start_script_def unauthorized_def;
      erule stranger_owns [where up = "ae_db e 0"]; simp)

lemma stranger_cancel: "not_seller user aid (fst s) \<Longrightarrow> snd (handleCancel e user aid s) = s"
  by (cases user; simp add: handleCancel_def; erule stranger_owns [where up = "ae_db e 0"]; simp)

lemma stranger_delete: "not_seller user aid (fst s) \<Longrightarrow> snd (handleDeleteAuction e user aid s) = s"
  by (cases user; simp add: handleDeleteAuction_def; erule stranger_owns [where up = "ae_db e 0"]; simp)

lemmas stranger = stranger_patch stranger_freeze stranger_start stranger_cancel stranger_delete

section \<open>What a success means\<close>

lemma eval_IOk: "eval l aid s r = (IOk (c, vs), r') \<longleftrightarrow>
    l = Answered \<and> (\<exists>k. s (rd_keys r aid) = (Reply c vs, k) \<and> r' = put_keys aid k r)"
  by (cases l; auto simp: eval_def Let_def split: prod.splits reply.splits)

lemma FreezeRules_OK:
  assumes "FreezeRules l t aid u rules r = (IOk OK_FROZEN, r')"
  shows "r' = put_keys aid (set_hash (frozen_hash \<lparr>fr_rules = rules, fr_sellerId = u\<rparr> (hash_of (rd_keys r aid))) (rd_keys r aid)) r
    \<and> h_status (hash_of (rd_keys r aid)) \<in> {None, Some DRAFT}"
proof -
  obtain vs where ev: "eval l aid (freeze_rules \<lparr>fr_rules = rules, fr_sellerId = u\<rparr> t) r = (IOk (OK_FROZEN, vs), r')"
    using assms by (auto simp: FreezeRules_def Let_def split: prod.splits elim: io_code.elims)
  show ?thesis
    by (cases rule: freeze_rules_cases [of "\<lparr>fr_rules = rules, fr_sellerId = u\<rparr>" t "rd_keys r aid"])
       (use ev in \<open>auto simp: eval_IOk\<close>)
qed

lemma auction_by_status:
  "auction_by i (snd (UpdateAuctionStatus True now aid st d)) =
     map_option (\<lambda>a. if ar_id a = aid then a\<lparr>ar_status := st, ar_updated := now\<rparr> else a) (auction_by i d)"
  using auction_by_set [of "\<lambda>a. a\<lparr>ar_status := st, ar_updated := now\<rparr>" i "\<lambda>a. ar_id a = aid" d]
  by (simp add: UpdateAuctionStatus_def)

lemma auction_by_facts:
  "auction_by i (snd (UpdateConfirmedFacts True now aid f d)) =
     map_option (\<lambda>a. if ar_id a = aid then a\<lparr>ar_factsConfirmed := True, ar_facts := f, ar_updated := now\<rparr> else a)
       (auction_by i d)"
  using auction_by_set [of "\<lambda>a. a\<lparr>ar_factsConfirmed := True, ar_facts := f, ar_updated := now\<rparr>" i "\<lambda>a. ar_id a = aid" d]
  by (simp add: UpdateConfirmedFacts_def case_prod_unfold Let_def)

lemma facts_rules [frame_simps]: "auction_rules (snd (UpdateConfirmedFacts up now aid f d)) = auction_rules d"
  by (simp add: UpdateConfirmedFacts_def case_prod_unfold Let_def frame_simps)

lemma auction_by_id: "auction_by i d = Some a \<Longrightarrow> ar_id a = i"
  by (auto simp: auction_by_def dest: find_id)

text \<open>What the optional facts of the body do to the row.\<close>

lemma facts_step:
  assumes w: "record_facts up now aid facts d = (None, d1)"
    and cur: "auction_by aid d = Some cur" "ar_factsConfirmed cur"
  shows "auction_rules d1 = auction_rules d"
    and "\<exists>a. auction_by aid d1 = Some a \<and> ar_status a = ar_status cur \<and> ar_seller a = ar_seller cur \<and> ar_factsConfirmed a"
proof -
  have "d1 = d \<or> (\<exists>f. up \<and> d1 = snd (UpdateConfirmedFacts True now aid f d))"
  proof (cases "facts_given facts")
    case (Some f)
    then have "UpdateConfirmedFacts up now aid f d = (None, d1)" using w by (simp add: record_facts_def)
    then have "up \<and> d1 = snd (UpdateConfirmedFacts True now aid f d)"
      by (cases up) (auto simp: UpdateConfirmedFacts_def Let_def split: prod.splits)
    then show ?thesis by blast
  qed (use w in \<open>simp add: record_facts_def\<close>)
  then show "auction_rules d1 = auction_rules d"
    and "\<exists>a. auction_by aid d1 = Some a \<and> ar_status a = ar_status cur \<and> ar_seller a = ar_seller cur \<and> ar_factsConfirmed a"
    using cur facts_rules [of True now aid _ d] auction_by_facts [of aid now aid _ d] by auto
qed

lemma freeze_locked_OK:
  assumes "freeze_locked e u aid facts rules (d, r) = (Inr OK_FROZEN, d', r')"
  obtains cur a where "auction_by aid d = Some cur" "ar_seller cur = u" "ar_status cur = DRAFT" "ar_factsConfirmed cur"
    "h_status (hash_of (rd_keys r aid)) \<in> {None, Some DRAFT}"
    "r' = put_keys aid (set_hash (frozen_hash \<lparr>fr_rules = rules, fr_sellerId = u\<rparr> (hash_of (rd_keys r aid))) (rd_keys r aid)) r"
    "auction_by aid d' = Some a" "ar_status a = SCHEDULED" "ar_seller a = u" "auction_rules d' = auction_rules d"
proof -
  obtain cur where cur: "GetAuction (ae_db e 3) aid d = Inr cur"
    using assms by (auto simp: freeze_locked_def split: sum.splits)
  then have row: "auction_by aid d = Some cur" by (simp add: ok_iff)
  have c: "ar_seller cur = u" "ar_status cur = DRAFT" "ar_factsConfirmed cur"
    using assms cur by (auto simp: freeze_locked_def split: if_splits)
  obtain d1 where d1: "record_facts (ae_db e 4) (ae_now e) aid facts d = (None, d1)"
    using assms cur c by (auto simp: freeze_locked_def IsTerminal_iff split: prod.splits option.splits)
  have fr: "FreezeRules (ae_redis e 0) (ae_time e) aid u rules r = (IOk OK_FROZEN, r')"
    and st: "UpdateAuctionStatus (ae_db e 5) (ae_now e) aid SCHEDULED d1 = (None, d')"
    using assms cur c d1
    by (auto simp: freeze_locked_def IsTerminal_iff split: prod.splits option.splits io.splits if_splits)
  note f = facts_step [OF d1 row c(3)]
  have up: "ae_db e 5" using st by (auto simp: UpdateAuctionStatus_def split: if_splits)
  obtain a where a: "auction_by aid d1 = Some a" "ar_seller a = u" using f(2) c by auto
  show ?thesis
  proof (rule that [OF row c])
    show "auction_by aid d' = Some (a\<lparr>ar_status := SCHEDULED, ar_updated := ae_now e\<rparr>)"
      using auction_by_status [of aid "ae_now e" aid SCHEDULED d1] st up a auction_by_id [OF a(1)] by simp
    show "auction_rules d' = auction_rules d"
      using UpdateAuctionStatus_frame(2) [of "ae_db e 5" "ae_now e" aid SCHEDULED d1] st f(1) by simp
  qed (use FreezeRules_OK [OF fr] a in auto)
qed

lemma handleFreeze_Ok:
  assumes "handleFreeze e user aid body (d, r) = (Ok c, d', r')"
  obtains u facts rules where "c = OK_FROZEN" "user = Some u" "body = Some facts" "auction_rules d aid = Some rules"
    "freeze_locked e u aid facts rules (d, r) = (Inr OK_FROZEN, d', r')"
proof -
  obtain u facts where u: "user = Some u" "body = Some facts"
    using assms by (auto simp: handleFreeze_def unauthorized_def split: option.splits)
  obtain a where a: "ownsAuction (ae_db e 0) aid u d = Ok a"
    using assms u by (auto simp: handleFreeze_def split: resp.splits)
  have f: "ar_factsConfirmed a" using assms u a by (auto simp: handleFreeze_def split: if_splits)
  obtain rules where rules: "GetRules (ae_db e 1) aid d = Inr rules"
    using assms u a f by (auto simp: handleFreeze_def split: sum.splits)
  obtain x s' where w: "WithAuctionTransitionLock (ae_db e 2) (ae_lock e) (freeze_locked e u aid facts rules) (d, r) = (x, s')"
    using prod.exhaust by metis
  have "x = Inr OK_FROZEN \<and> c = OK_FROZEN \<and> s' = (d', r')"
    using assms u a f rules w by (auto simp: handleFreeze_def internal_def split: sum.splits if_splits)
  then show ?thesis using that u rules w by (auto simp: ok_iff)
qed

lemma CancelAuction_script:
  assumes "CancelAuction l t aid u r = (IOk OK_CANCELLED, r')"
  obtains vs k where "cancel_auction u t (rd_keys r aid) = (Reply OK_CANCELLED vs, k)" "r' = put_keys aid k r"
proof -
  obtain vs where "eval l aid (cancel_auction u t) r = (IOk (OK_CANCELLED, vs), r')"
    using assms by (auto simp: CancelAuction_def Let_def split: prod.splits elim: io_code.elims)
  with that show ?thesis by (auto simp: eval_IOk)
qed

lemma cancel_accepted:
  assumes "cancel_auction u t k = (Reply OK_CANCELLED vs, k')"
  shows "cancel_auction u t k = end_auction OK_CANCELLED CANCELLED AUCTION_CANCELLED
      (end_json (h_seq (hash_of k) + 1) CANCELLED (redis_now t)) (hash_of k) k
    \<and> h_status (hash_of k) \<noteq> None \<and> \<not> status_terminal (hash_of k) \<and> u = h_sellerId (hash_of k)"
  by (cases rule: cancel_auction_cases [of u t k]) (use assms in auto)

lemma CancelAuction_OK:
  assumes c: "CancelAuction l t aid u r = (IOk OK_CANCELLED, r')"
  shows "u = h_sellerId (hash_of (rd_keys r aid))" "\<not> status_terminal (hash_of (rd_keys r aid))"
    "h_status (hash_of (rd_keys r aid)) \<noteq> None" "rd_active r' = rd_active r"
    "room_inv (rd_keys r aid) \<Longrightarrow> h_status (hash_of (rd_keys r' aid)) = Some CANCELLED"
proof -
  obtain vs k where k: "cancel_auction u t (rd_keys r aid) = (Reply OK_CANCELLED vs, k)" "r' = put_keys aid k r"
    using CancelAuction_script [OF c] .
  note a = cancel_accepted [OF k(1)]
  then show "u = h_sellerId (hash_of (rd_keys r aid))" "\<not> status_terminal (hash_of (rd_keys r aid))"
    "h_status (hash_of (rd_keys r aid)) \<noteq> None" by auto
  show "rd_active r' = rd_active r" using k by (simp add: put_keys_def)
  assume inv: "room_inv (rd_keys r aid)"
  show "h_status (hash_of (rd_keys r' aid)) = Some CANCELLED"
    using a k end_auction_eq [OF room_invD(4) [OF inv] room_invD(3) [OF inv]]
    by (auto simp: put_keys_def)
qed

text \<open>The two ways a cancel succeeds: a draft that Redis does not know, or the script.\<close>

lemma cancel_script_Ok:
  assumes ok: "cancel_script e u aid (d, r) = (Ok c, d', r')"
  shows "c = OK_CANCELLED" "u = h_sellerId (hash_of (rd_keys r aid))"
    "\<not> status_terminal (hash_of (rd_keys r aid))" "h_status (hash_of (rd_keys r aid)) \<noteq> None"
    "room_inv (rd_keys r aid) \<Longrightarrow> h_status (hash_of (rd_keys r' aid)) = Some CANCELLED"
    "d' = snd (UpdateAuctionStatus (ae_db e 4) (ae_now e) aid CANCELLED d)"
    "ae_redis e 2 = Answered \<Longrightarrow> zscore (rd_active r') aid = None"
proof -
  obtain r1 where c: "CancelAuction (ae_redis e 1) (ae_time e) aid u r = (IOk OK_CANCELLED, r1)"
    and rest: "c = OK_CANCELLED" "d' = snd (UpdateAuctionStatus (ae_db e 4) (ae_now e) aid CANCELLED d)"
      "r' = snd (UntrackActive (ae_redis e 2) aid r1)"
    using ok by (auto simp: cancel_script_def internal_def split: prod.splits io.splits if_splits)
  note k = CancelAuction_OK [OF c]
  show "c = OK_CANCELLED" "d' = snd (UpdateAuctionStatus (ae_db e 4) (ae_now e) aid CANCELLED d)"
    "u = h_sellerId (hash_of (rd_keys r aid))" "\<not> status_terminal (hash_of (rd_keys r aid))"
    "h_status (hash_of (rd_keys r aid)) \<noteq> None"
    using rest k by auto
  show "room_inv (rd_keys r aid) \<Longrightarrow> h_status (hash_of (rd_keys r' aid)) = Some CANCELLED"
    using rest k by (auto simp: UntrackActive_def)
  show "ae_redis e 2 = Answered \<Longrightarrow> zscore (rd_active r') aid = None"
    using rest by (auto simp: UntrackActive_def zrem_def zscore_def map_of_eq_None_iff)
qed

lemma cas_Ok:
  assumes "UpdateAuctionStatusIf up now aid st exp d = (Inr ok, d')" "auction_by aid d = Some a" "ar_status a = exp"
  shows "auction_by aid d' = Some (a\<lparr>ar_status := st, ar_updated := now\<rparr>)"
  using assms auction_by_id [OF assms(2)]
    auction_by_set [of "\<lambda>a. a\<lparr>ar_status := st, ar_updated := now\<rparr>" aid "\<lambda>a. ar_id a = aid \<and> ar_status a = exp" d]
  by (auto simp: UpdateAuctionStatusIf_def case_prod_unfold Let_def split: if_splits)

lemma handleCancel_Ok:
  assumes ok: "handleCancel e user aid (d, r) = (Ok c, d', r')"
  obtains (draft) u a where "user = Some u" "auction_by aid d = Some a" "ar_seller a = u" "ar_status a = DRAFT"
      "c = OK_CANCELLED" "r' = r" "Snapshot (ae_redis e 0) aid r \<noteq> IOErr"
      "h_status (hash_of (rd_keys r aid)) = None"
      "\<exists>a. auction_by aid d' = Some a \<and> ar_status a = CANCELLED"
  | (script) u a where "user = Some u" "auction_by aid d = Some a" "ar_seller a = u"
      "cancel_script e u aid (d, r) = (Ok c, d', r')"
      "ar_status a = DRAFT \<longrightarrow> h_status (hash_of (rd_keys r aid)) \<noteq> None"
proof -
  obtain u where u: "user = Some u" using ok by (auto simp: handleCancel_def unauthorized_def split: option.splits)
  obtain a where a: "ownsAuction (ae_db e 0) aid u d = Ok a"
    using ok u by (auto simp: handleCancel_def split: resp.splits)
  then have row: "auction_by aid d = Some a" "ar_seller a = u" by (auto simp: ok_iff)
  have nt: "\<not> IsTerminal (ar_status a)" using ok u a by (auto simp: handleCancel_def)
  show thesis
  proof (cases "ar_status a = DRAFT")
    case False
    with ok u a nt have "cancel_script e u aid (d, r) = (Ok c, d', r')" by (simp add: handleCancel_def)
    with u row False show thesis by (intro script) auto
  next
    case True
    note dr = this
    obtain x s' where w: "WithAuctionTransitionLock (ae_db e 1) (ae_lock e) (cancel_locked e u aid) (d, r) = (x, s')"
      using prod.exhaust by metis
    have h: "handleCancel e user aid (d, r) = (case x of Inl y \<Rightarrow> (internal, s')
        | Inr (Some (h, c)) \<Rightarrow> (if h = 200 then Ok c else Refuse h c, s')
        | Inr None \<Rightarrow> cancel_script e u aid s')"
      using u a nt dr w by (simp add: handleCancel_def split: sum.splits option.splits)
    then obtain y where y: "x = Inr y" using ok by (cases x) (auto simp: internal_def)
    with w have l: "cancel_locked e u aid (d, r) = (Inr y, s')" by (simp add: ok_iff)
    obtain snap where snap: "Snapshot (ae_redis e 0) aid r = IOk snap"
      using l dr row by (cases "Snapshot (ae_redis e 0) aid r")
        (auto simp: cancel_locked_def ok_iff IsTerminal_iff split: sum.splits)
    have st: "sn_Status snap = h_status (hash_of (rd_keys r aid))"
      using snap by (auto simp: Snapshot_def Let_def snapshot_of_def split: if_splits)
    show thesis
    proof (cases "sn_Status snap = None")
      case False
      with l dr row snap have "y = None \<and> s' = (d, r)"
        by (auto simp: cancel_locked_def ok_iff IsTerminal_iff split: sum.splits)
      with h y ok u row dr False st show thesis by (intro script) auto
    next
      case True
      then have unknown: "sn_Status snap = None" .
      obtain won d1 where c: "UpdateAuctionStatusIf (ae_db e 3) (ae_now e) aid CANCELLED DRAFT d = (Inr won, d1)"
        and y2: "y = (if won then Some (200, OK_CANCELLED) else None)" "s' = (d1, r)"
      proof -
        have g: "GetAuction (ae_db e 2) aid d = Inr a"
          using l row by (auto simp: cancel_locked_def ok_iff split: sum.splits)
        have "cancel_locked e u aid (d, r) = (case UpdateAuctionStatusIf (ae_db e 3) (ae_now e) aid CANCELLED DRAFT d of
            (Inl x, d') \<Rightarrow> (Inl x, d', r)
          | (Inr ok, d') \<Rightarrow> (Inr (if ok then Some (200, OK_CANCELLED) else None), d', r))"
          unfolding cancel_locked_def using g dr row snap by (simp add: unknown)
        with l that show ?thesis by (auto split: sum.splits prod.splits)
      qed
      have "won"
      proof (rule ccontr)
        assume "\<not> won"
        with h y y2 ok have "cancel_script e u aid (d1, r) = (Ok c, d', r')" by simp
        from cancel_script_Ok(4) [OF this] unknown st show False by simp
      qed
      with h y y2 ok have "c = OK_CANCELLED" "d' = d1" "r' = r" by auto
      with draft [of u a] u row dr snap unknown st cas_Ok [OF c row(1) dr] show thesis by auto
    qed
  qed
qed

section \<open>The start race\<close>

lemma StartAuction_OK:
  assumes "StartAuction l1 l2 t aid du r = (IOk (OK_LIVE, e), r')"
  shows "h_status (hash_of (rd_keys r aid)) = Some SCHEDULED"
    and "rd_keys r' aid = set_hash ((hash_of (rd_keys r aid))\<lparr>h_status := Some LIVE, h_endAtMs := redis_now t + du\<rparr>) (rd_keys r aid)"
    and "e = redis_now t + du"
proof -
  obtain c vs r1 where ev: "eval l1 aid (start_auction du t) r = (IOk (OK_LIVE, vs), r1)"
    and rest: "e = luaInt (hd vs)" "r' = snd (TrackActive l2 aid e r1)"
    using assms by (auto simp: StartAuction_def Let_def split: prod.splits io.splits if_splits)
  obtain k where k: "start_auction du t (rd_keys r aid) = (Reply OK_LIVE vs, k)" "r1 = put_keys aid k r"
    using ev by (auto simp: eval_IOk)
  have "rd_keys r' aid = k" using rest k by (simp add: TrackActive_def put_keys_def)
  with k rest show "h_status (hash_of (rd_keys r aid)) = Some SCHEDULED"
    and "rd_keys r' aid = set_hash ((hash_of (rd_keys r aid))\<lparr>h_status := Some LIVE, h_endAtMs := redis_now t + du\<rparr>) (rd_keys r aid)"
    and "e = redis_now t + du"
    by (cases rule: start_auction_cases [of du t "rd_keys r aid"]; auto)+
qed

lemma start_script_Ok:
  assumes "start_script e user aid body (d, r) = (Ok n, d', r')"
  obtains u a du where "user = Some u" "auction_by aid d = Some a" "ar_seller a = u" "body = Some du" "d' = d"
    "StartAuction (ae_redis e 0) (ae_redis e 1) (ae_time e) aid (start_duration (ae_db e 1) aid du d) r = (IOk (OK_LIVE, n), r')"
proof -
  obtain u where u: "user = Some u" using assms by (auto simp: start_script_def unauthorized_def split: option.splits)
  obtain a where a: "ownsAuction (ae_db e 0) aid u d = Ok a"
    using assms u by (auto simp: start_script_def split: resp.splits)
  obtain du where du: "body = Some du" using assms u a by (auto simp: start_script_def split: option.splits)
  have "d' = d \<and> StartAuction (ae_redis e 0) (ae_redis e 1) (ae_time e) aid (start_duration (ae_db e 1) aid du d) r = (IOk (OK_LIVE, n), r')"
    using assms u a du by (auto simp: start_script_def internal_def split: prod.splits io.splits if_splits)
  with that [of u a du] u a du show ?thesis by (simp add: ok_iff)
qed

text \<open>Between the script of a start and its write to MySQL a cancel can run to its end; the write
  then puts LIVE over CANCELLED.\<close>

lemma start_cancel_race:
  assumes inv: "room_inv (rd_keys r aid)"
    and st: "start_script e user aid body (d, r) = (Ok n, s1)"
    and ca: "handleCancel f user aid s1 = (Ok c, s2)"
    and pr: "start_project e aid n s2 = (Ok m, d3, r3)"
  shows "h_status (hash_of (rd_keys r3 aid)) = Some CANCELLED \<and>
    (\<exists>a. auction_by aid d3 = Some a \<and> ar_status a = LIVE)"
proof -
  obtain r1 du where s1: "s1 = (d, r1)"
    and go: "StartAuction (ae_redis e 0) (ae_redis e 1) (ae_time e) aid du r = (IOk (OK_LIVE, n), r1)"
    using st by (cases s1) (auto elim!: start_script_Ok)
  note live = StartAuction_OK [OF go]
  have inv1: "room_inv (rd_keys r1 aid)" using live_inv [OF inv live(1)] live(2) by simp
  obtain d2 r2 where s2: "s2 = (d2, r2)" by (cases s2)
  have cs: "h_status (hash_of (rd_keys r2 aid)) = Some CANCELLED \<and> (\<exists>a. auction_by aid d2 = Some a)"
  proof (cases rule: handleCancel_Ok [OF ca [unfolded s1 s2]])
    case (1 u a)
    with live(2) show ?thesis by (simp add: set_hash_def)
  next
    case (2 u a)
    note k = cancel_script_Ok [OF 2(4)]
    have "auction_by aid d2 = None \<longleftrightarrow> auction_by aid d = None"
      unfolding k(6) by (rule UpdateAuctionStatus_by)
    with 2 k(5) [OF inv1] show ?thesis by auto
  qed
  from pr s2 have up: "ae_db e 2" "r3 = r2" "d3 = snd (UpdateAuctionStatus True (ae_now e) aid LIVE d2)"
    by (auto simp: start_project_def UpdateAuctionStatus_def internal_def split: if_splits)
  obtain a where a: "auction_by aid d2 = Some a" using cs by blast
  have "auction_by aid d3 = Some (a\<lparr>ar_status := LIVE, ar_updated := ae_now e\<rparr>)"
    using auction_by_status [of aid "ae_now e" aid LIVE d2] up a auction_by_id [OF a] by simp
  with cs up show ?thesis by simp
qed

section \<open>Payment\<close>

lemma order_by_set:
  assumes "\<And>x. or_auction (f x) = or_auction x"
  shows "find (\<lambda>x. or_auction x = i) (map (\<lambda>x. if P x then f x else x) xs) =
    map_option (\<lambda>x. if P x then f x else x) (find (\<lambda>x. or_auction x = i) xs)"
  using assms by (induction xs) auto

lemma PayOrder_by:
  "order_by i (snd (PayOrder True aid d)) =
     map_option (\<lambda>x. if or_auction x = aid \<and> or_status x = OCreated then x\<lparr>or_status := OPaid\<rparr> else x) (order_by i d)"
  by (simp add: PayOrder_def Let_def order_by_def update_where_def
      order_by_set [where f = "\<lambda>x. x\<lparr>or_status := OPaid\<rparr>"])

lemma handlePayOrder_Ok:
  assumes "handlePayOrder e user aid d = (Ok x, d')"
  obtains w where "order_by aid d = Some w" "user = Some (or_buyer w)" "ae_db e 1"
    "d' = snd (PayOrder True aid d)" "order_by aid d' = Some x"
proof -
  obtain u where u: "user = Some u" using assms by (auto simp: handlePayOrder_def unauthorized_def split: option.splits)
  obtain w where w: "GetOrder (ae_db e 0) aid d = Inr w"
    using assms u by (auto simp: handlePayOrder_def internal_def split: sum.splits if_splits)
  have b: "or_buyer w = u" using assms u w by (auto simp: handlePayOrder_def split: if_splits)
  have p: "PayOrder (ae_db e 1) aid d = (Inr x, d')"
    using assms u w b by (auto simp: handlePayOrder_def internal_def split: prod.splits sum.splits)
  then have up: "ae_db e 1" by (auto simp: PayOrder_def split: if_splits)
  with p have "GetOrder True aid d' = Inr x" by (auto simp: PayOrder_def Let_def)
  with that [of w] u w b p up show ?thesis by (auto simp: ok_iff)
qed

text \<open>A paid order stays what it is: a second payment finds nothing to update.\<close>

lemma PayOrder_idem: "PayOrder True aid (snd (PayOrder True aid d)) = (GetOrder True aid (snd (PayOrder True aid d)), snd (PayOrder True aid d))"
proof -
  have "orders (snd (PayOrder True aid (snd (PayOrder True aid d)))) = orders (snd (PayOrder True aid d))"
    by (simp add: PayOrder_def Let_def update_where_def)
  then show ?thesis by (simp add: PayOrder_def Let_def)
qed

lemma handlePayOrder_once:
  assumes ok: "handlePayOrder e user aid d = (Ok x, d')"
  shows "user = Some (or_buyer x) \<and> or_auction x = aid \<and> or_status x \<noteq> OCreated \<and> order_by aid d' = Some x
    \<and> (\<forall>i. i \<noteq> aid \<longrightarrow> order_by i d' = order_by i d)
    \<and> handlePayOrder e user aid d' = (Ok x, d')"
proof -
  obtain w where w: "order_by aid d = Some w" "user = Some (or_buyer w)" "ae_db e 1"
      "d' = snd (PayOrder True aid d)" "order_by aid d' = Some x"
    using handlePayOrder_Ok [OF ok] .
  have a: "or_auction y = i" if "order_by i d = Some y" for i y
    using that by (auto simp: order_by_def find_Some_iff)
  have x: "x = (if or_status w = OCreated then w\<lparr>or_status := OPaid\<rparr> else w)"
    using w(1,4,5) a [OF w(1)] by (simp add: PayOrder_by)
  have "order_by i d' = order_by i d" if "i \<noteq> aid" for i
    using that a [of i] by (cases "order_by i d") (auto simp: w(4) PayOrder_by)
  moreover have "ae_db e 0" using ok by (auto simp: handlePayOrder_def GetOrder_def internal_def unauthorized_def split: option.splits sum.splits if_splits)
  moreover have "PayOrder True aid d' = (Inr x, d')"
    using PayOrder_idem [of aid d] w(4,5) by (simp add: GetOrder_def)
  ultimately show ?thesis using w x a [OF w(1)] by (auto simp: handlePayOrder_def GetOrder_def)
qed

text \<open>A second projection of a sale whose order is paid is reported as a mismatch.\<close>

lemma paid_reprojection:
  assumes "order_by aid d = Some x" "or_status x = OPaid" "sold_outcome p = Some (w, n)" "auction_by aid d \<noteq> None"
  shows "CreateOrderFromSold True aid p d = (Some ErrOrderProjectionMismatch, d)"
  using assms by (auto simp: CreateOrderFromSold_def sold_outcome_def split: option.splits parsed.splits if_splits)

section \<open>Deletion\<close>

lemma handleDeleteAuction_Ok:
  assumes "handleDeleteAuction e user aid (d, r) = (Ok res, d', r')"
  obtains a pd where "auction_by aid d = Some a" "user = Some (ar_seller a)" "IsTerminal (ar_status a)"
    "\<exists>p. delete_tx aid p d = (Inr pd, d')" "r' = purge_redis (ae_purge e) aid r"
proof -
  obtain u where u: "user = Some u" using assms by (auto simp: handleDeleteAuction_def unauthorized_def split: option.splits)
  obtain a where a: "ownsAuction (ae_db e 0) aid u d = Ok a"
    using assms u by (auto simp: handleDeleteAuction_def split: resp.splits)
  have ter: "IsTerminal (ar_status a)" using assms u a by (auto simp: handleDeleteAuction_def split: if_splits)
  have del: "DeleteAuction (ae_db e 1) (ae_purge e) (ae_db e 2) aid u (d, r) = (Inr res, d', r')"
    using assms u a ter by (auto simp: handleDeleteAuction_def internal_def split: prod.splits sum.splits if_splits)
  obtain p pd where "delete_tx aid p d = (Inr pd, d')" "r' = purge_redis (ae_purge e) aid r"
    using del by (auto simp: DeleteAuction_def Let_def split: prod.splits sum.splits option.splits if_splits)
  with that [of a pd] a ter u show ?thesis by (auto simp: ok_iff)
qed

text \<open>Nothing of the auction is left, nothing of another is touched: its row, order, coins, events,
  rules, verification cache, and the product it sells.\<close>

definition erased :: "aid \<Rightarrow> db \<Rightarrow> bool" where
  "erased aid d \<longleftrightarrow> auction_by aid d = None \<and> order_by aid d = None \<and> auction_events d aid = []
     \<and> auction_rules d aid = None \<and> chain_cache d aid = None \<and> (\<forall>c\<in>set (coin_ledger d). co_auction c \<noteq> aid)"

definition same_auction :: "aid \<Rightarrow> db \<Rightarrow> db \<Rightarrow> bool" where
  "same_auction i d d' \<longleftrightarrow> auction_by i d' = auction_by i d
     \<and> filter (\<lambda>a. ar_id a = i) (auctions d') = filter (\<lambda>a. ar_id a = i) (auctions d) \<and> order_by i d' = order_by i d
     \<and> auction_events d' i = auction_events d i \<and> auction_rules d' i = auction_rules d i
     \<and> chain_cache d' i = chain_cache d i
     \<and> filter (\<lambda>x. or_auction x = i) (orders d') = filter (\<lambda>x. or_auction x = i) (orders d)
     \<and> filter (\<lambda>c. co_auction c = i) (coin_ledger d') = filter (\<lambda>c. co_auction c = i) (coin_ledger d)
     \<and> (\<forall>a. auction_by i d = Some a \<longrightarrow>
          find (\<lambda>p. pr_id p = ar_product a) (products d') = find (\<lambda>p. pr_id p = ar_product a) (products d))"

lemma find_filter: "(\<And>x. P x \<Longrightarrow> Q x) \<Longrightarrow> find P (filter Q xs) = find P xs"
  by (induction xs) auto

lemma delete_tx_form:
  assumes "delete_tx aid p d = (Inr pd, d')"
  shows "auctions d' = filter (\<lambda>a. \<not> (ar_id a = aid \<and> IsTerminal (ar_status a))) (auctions d)"
    "orders d' = filter (\<lambda>x. or_auction x \<noteq> aid) (orders d)"
    "coin_ledger d' = filter (\<lambda>x. co_auction x \<noteq> aid) (coin_ledger d)"
    "auction_events d' = (auction_events d)(aid := [])" "chain_cache d' = (chain_cache d)(aid := None)"
    "auction_rules d' = (auction_rules d)(aid := None)" "users d' = users d"
    "products d' = products d \<or> products d' = filter (\<lambda>q. pr_id q \<noteq> p) (products d)
       \<and> (\<forall>a\<in>set (auctions d'). ar_id a \<noteq> aid \<longrightarrow> ar_product a \<noteq> p)"
  using assms by (auto simp: delete_tx_def Let_def split: if_splits)

lemma unique_terminal:
  assumes "distinct (map ar_id xs)" "find (\<lambda>a. ar_id a = i) xs = Some a" "b \<in> set xs" "ar_id b = i"
  shows "b = a"
  using assms find_id [OF assms(2)] by (metis distinct_map inj_on_eq_iff)

lemma delete_tx_erased:
  assumes d: "delete_tx aid p d = (Inr pd, d')" and u: "ids_unique d"
    and a: "auction_by aid d = Some a" "IsTerminal (ar_status a)"
  shows "erased aid d'"
proof -
  have "\<not> (ar_id b = aid)" if "b \<in> set (auctions d')" for b
    using that unique_terminal [of "auctions d" aid a b] u a
    by (auto simp: delete_tx_form [OF d] auction_by_def ids_unique_def)
  then have "auction_by aid d' = None" by (auto simp: auction_by_def find_None_iff)
  then show ?thesis by (auto simp: erased_def delete_tx_form [OF d] order_by_def find_None_iff)
qed

lemma delete_tx_other: "delete_tx aid p d = (Inr pd, d') \<Longrightarrow> i \<noteq> aid \<Longrightarrow> same_auction i d d'"
proof -
  assume d: "delete_tx aid p d = (Inr pd, d')" and i: "i \<noteq> aid"
  note f = delete_tx_form [OF d]
  have a: "auction_by i d' = auction_by i d"
    using i by (auto simp: f auction_by_def intro!: find_filter)
  have "find (\<lambda>q. pr_id q = ar_product a) (products d') = find (\<lambda>q. pr_id q = ar_product a) (products d)"
    if "auction_by i d = Some a" for a
  proof -
    have "a \<in> set (auctions d')" "ar_id a = i" using a that find_id unfolding auction_by_def by metis+
    then have "products d' = products d \<or> products d' = filter (\<lambda>q. pr_id q \<noteq> p) (products d) \<and> ar_product a \<noteq> p"
      using f(8) i by metis
    then show ?thesis by (auto intro!: find_filter)
  qed
  then show "same_auction i d d'"
    using a i by (auto simp: same_auction_def f order_by_def intro!: find_filter filter_cong)
qed

section \<open>Edits after the freeze\<close>

text \<open>An owner may edit a SCHEDULED auction; the frozen rules stay.\<close>

lemma patch_scheduled:
  assumes a: "auction_by aid d = Some a" "ar_seller a = u" "ar_status a = SCHEDULED"
    and r: "auction_rules d aid = Some rules" "f rules = Some rules'"
    and v: "Validate rules' = None" "rules'\<lparr>Mode := NormalizeMode (Mode rules')\<rparr> \<noteq> rules"
    and up: "ae_db e 0" "ae_db e 1" "ae_db e 2"
  shows "fst (handlePatchAuction e (Some u) aid (Some (Some f)) d) = Ok ()"
    and "auction_rules (snd (handlePatchAuction e (Some u) aid (Some (Some f)) d)) aid =
      Some (rules'\<lparr>Mode := NormalizeMode (Mode rules')\<rparr>)"
proof -
  have o: "ownsAuction (ae_db e 0) aid u d = Ok a" and g: "GetRules (ae_db e 1) aid d = Inr rules"
    using a r up by (simp_all add: ok_iff)
  show "fst (handlePatchAuction e (Some u) aid (Some (Some f)) d) = Ok ()"
    and "auction_rules (snd (handlePatchAuction e (Some u) aid (Some (Some f)) d)) aid =
      Some (rules'\<lparr>Mode := NormalizeMode (Mode rules')\<rparr>)"
    using a r v up o g by (auto simp: handlePatchAuction_def UpdateRules_def Let_def frame_simps)
qed

end
