(* ===== verification/ApiReads.thy ===== *)
theory ApiReads
  imports Api Verify Hub Ascending
begin

text \<open>
  The reading handlers of \<^verbatim>\<open>internal/server/api.go\<close>: one auction, the list, the leaderboard,
  the seller's stream keys, the evidence card. Then: what the list tells about a hidden-standing
  auction does not depend on its leader or price, what the single-auction view tells does, and
  the evidence card of a fully projected sale, with the order the projection makes, names the
  winner and price of the state hash.
\<close>

section \<open>One auction\<close>

record room_view =
  rv_Snapshot :: RoomSnapshotData
  rv_ProductID :: string
  rv_ProductName :: string
  rv_ImageURL :: string
  rv_Description :: string
  rv_LivePlayURL :: string

text \<open>Calls 0 to 2 to MySQL are the auction, its rules and its product. \<open>simViewers\<close> and
  \<open>likes\<close> come from the crowd script and the social counters.\<close>

definition handleGetAuction ::
  "api_env \<Rightarrow> aid \<Rightarrow> hub \<Rightarrow> int \<Rightarrow> int \<Rightarrow> db \<Rightarrow> redis \<Rightarrow> room_view resp" where
  "handleGetAuction e aid hb simViewers likes d r =
     (case GetAuction (ae_db e 0) aid d of
        Inl x \<Rightarrow> (if x = ErrNotFound then Fail 404 ''auction not found'' else internal)
      | Inr a \<Rightarrow>
          (case Snapshot (ae_redis e 0) aid r of
             IOErr \<Rightarrow> internal
           | IOk snap0 \<Rightarrow>
               (let snap = (if sn_Status snap0 = None then snap0\<lparr>sn_Status := Some (ar_status a)\<rparr> else snap0);
                    rules = GetRules (ae_db e 1) aid d;
                    seen = (case rules of
                       Inr r \<Rightarrow>
                         (let s1 = (if sn_Rules snap = None then snap\<lparr>sn_Rules := Some (RoomSnapshotRules_of r)\<rparr> else snap)
                          in if sn_CurrentPriceCents s1 = [] \<and> sn_Status s1 \<in> {Some DRAFT, Some SCHEDULED}
                             then s1\<lparr>sn_CurrentPriceCents := FormatInt (StartPriceCents r)\<rparr> else s1)
                     | Inl x \<Rightarrow> snap);
                    play = (case rules of Inr r \<Rightarrow> LivePlayUrl r | Inl x \<Rightarrow> []);
                    p = GetProduct (ae_db e 2) (ar_product a) d
                in case rules of
                     Inl x \<Rightarrow>
                       (if sn_Rules snap \<noteq> None
                        then Ok \<lparr>rv_Snapshot = seen\<lparr>sn_ViewerCount := viewerCount hb aid + simViewers,
                                   sn_SimViewerCount := simViewers, sn_LikeCount := likes\<rparr>,
                                 rv_ProductID = ar_product a,
                                 rv_ProductName = (case p of Inr q \<Rightarrow> pr_name q | Inl x \<Rightarrow> []),
                                 rv_ImageURL = (case p of Inr q \<Rightarrow> pr_image q | Inl x \<Rightarrow> []),
                                 rv_Description = (case p of Inr q \<Rightarrow> pr_description q | Inl x \<Rightarrow> []),
                                 rv_LivePlayURL = play\<rparr>
                        else if x = ErrNotFound then Fail 404 ''rules not found'' else internal)
                   | Inr y \<Rightarrow>
                       Ok \<lparr>rv_Snapshot = seen\<lparr>sn_ViewerCount := viewerCount hb aid + simViewers,
                             sn_SimViewerCount := simViewers, sn_LikeCount := likes\<rparr>,
                           rv_ProductID = ar_product a,
                           rv_ProductName = (case p of Inr q \<Rightarrow> pr_name q | Inl x \<Rightarrow> []),
                           rv_ImageURL = (case p of Inr q \<Rightarrow> pr_image q | Inl x \<Rightarrow> []),
                           rv_Description = (case p of Inr q \<Rightarrow> pr_description q | Inl x \<Rightarrow> []),
                           rv_LivePlayURL = play\<rparr>)))"

section \<open>The list\<close>

record list_dto =
  dto_AuctionID :: aid
  dto_ProductName :: string
  dto_ImageURL :: string
  dto_Status :: auction_state
  dto_CurrentPriceCents :: money
  dto_WinnerID :: uid
  dto_EndAtMs :: int
  dto_CreatedAtMs :: int
  dto_Mode :: mode
  dto_ParentAuctionID :: aid
  dto_StartPriceCents :: money
  dto_IncrementCents :: money
  dto_CapPriceCents :: money
  dto_BidCount :: int

definition list_row :: "AuctionListItem \<Rightarrow> list_dto" where
  "list_row it =
     \<lparr>dto_AuctionID = li_ID it, dto_ProductName = li_ProductName it, dto_ImageURL = li_ImageURL it,
      dto_Status = li_Status it, dto_CurrentPriceCents = FormatInt (li_CurrentPriceCents it),
      dto_WinnerID = li_WinnerID it, dto_EndAtMs = li_EndAtMs it, dto_CreatedAtMs = li_CreatedAtMs it,
      dto_Mode = NormalizeMode (li_Mode it), dto_ParentAuctionID = li_Parent it,
      dto_StartPriceCents = FormatInt (li_StartPriceCents it),
      dto_IncrementCents = FormatInt (li_IncrementCents it),
      dto_CapPriceCents = FormatInt (li_CapPriceCents it), dto_BidCount = li_BidCount it\<rparr>"

text \<open>What a LIVE row takes from Redis.\<close>

definition merge_live :: "RoomSnapshotData \<Rightarrow> list_dto \<Rightarrow> list_dto" where
  "merge_live snap dto =
     (case sn_Status snap of
        None \<Rightarrow> dto
      | Some st \<Rightarrow>
          (let d1 = dto\<lparr>dto_Status := st\<rparr>;
               d2 = (if sn_EndAtMs snap > 0 then d1\<lparr>dto_EndAtMs := sn_EndAtMs snap\<rparr> else d1);
               m = (case sn_Rules snap of None \<Rightarrow> ENGLISH | Some rs \<Rightarrow> NormalizeMode (RoomSnapshotRules.rs_mode rs))
           in if m = ENGLISH
              then (let d3 = (if sn_CurrentPriceCents snap \<noteq> []
                              then d2\<lparr>dto_CurrentPriceCents := sn_CurrentPriceCents snap\<rparr> else d2)
                    in if sn_WinnerID snap \<noteq> [] then d3\<lparr>dto_WinnerID := sn_WinnerID snap\<rparr> else d3)
              else d2))"

text \<open>\<^verbatim>\<open>strconv.Atoi\<close> gives 0 for bad syntax and the nearest bound out of range; the list ignores
  its error.\<close>

fun atoi_value :: "parsed \<Rightarrow> int" where
  "atoi_value (POk n) = n"
| "atoi_value PSyntax = 0"
| "atoi_value (PRange n) = n"

text \<open>\<open>link\<close> is the fate of the snapshot read of each row.\<close>

definition handleListAuctions ::
  "bool \<Rightarrow> (aid \<Rightarrow> link) \<Rightarrow> string \<Rightarrow> db \<Rightarrow> redis \<Rightarrow> list_dto list resp" where
  "handleListAuctions up lk limit d r =
     (case ListAuctions up (if limit = [] then 0 else atoi_value (ParseInt limit)) d of
        Inl x \<Rightarrow> internal
      | Inr items \<Rightarrow> Ok (map (\<lambda>it.
          if li_Status it = LIVE
          then (case Snapshot (lk (li_ID it)) (li_ID it) r of
                  IOErr \<Rightarrow> list_row it | IOk snap \<Rightarrow> merge_live snap (list_row it))
          else list_row it) items))"

section \<open>Leaderboard, stream keys, event count\<close>

definition clampLeaderboardN :: "string \<Rightarrow> int" where
  "clampLeaderboardN q =
     (if q = [] then 10
      else (case ParseInt q of POk v \<Rightarrow> (if v \<le> 0 then 10 else if v > 100 then 100 else v) | _ \<Rightarrow> 10))"

record board_row =
  br_UserID :: uid
  br_DisplayName :: string
  br_AmountCents :: money

definition handleLeaderboard ::
  "api_env \<Rightarrow> uid option \<Rightarrow> aid \<Rightarrow> string \<Rightarrow> db \<Rightarrow> redis \<Rightarrow> (board_row list \<times> int) resp" where
  "handleLeaderboard e user aid q d r =
     (case user of
        None \<Rightarrow> unauthorized
      | Some u \<Rightarrow>
          (case Leaderboard (ae_redis e 0) (ae_redis e 1) aid (clampLeaderboardN q) r of
             IOErr \<Rightarrow> internal
           | IOk lb \<Rightarrow>
               (let names = (if lb = [] then Map.empty
                             else (case UserNicknames (ae_db e 0) (map le_UserID lb) d of
                                     Inl x \<Rightarrow> Map.empty | Inr m \<Rightarrow> m))
                in Ok (map (\<lambda>x. \<lparr>br_UserID = le_UserID x,
                                 br_DisplayName = (case names (le_UserID x) of None \<Rightarrow> [] | Some s \<Rightarrow> s),
                                 br_AmountCents = le_AmountCents x\<rparr>) lb,
                       (case Snapshot (ae_redis e 2) aid r of IOErr \<Rightarrow> 0 | IOk snap \<Rightarrow> sn_Seq snap)))))"

record stream_keys =
  sk_StreamKey :: string
  sk_PushURL :: string
  sk_LivePlayURL :: string

definition handleGetAuctionStream ::
  "api_env \<Rightarrow> api_config \<Rightarrow> uid option \<Rightarrow> aid \<Rightarrow> db \<Rightarrow> stream_keys resp" where
  "handleGetAuctionStream e cf user aid d =
     (case user of
        None \<Rightarrow> unauthorized
      | Some u \<Rightarrow>
          (case ownsAuction (ae_db e 0) aid u d of
             Fail c x \<Rightarrow> Fail c x
           | Refuse c x \<Rightarrow> Refuse c x
           | RefuseText c x \<Rightarrow> RefuseText c x
           | Ok a \<Rightarrow>
               (case GetRules (ae_db e 1) aid d of
                  Inl x \<Rightarrow> (if x = ErrNotFound then Fail 404 ''rules not found'' else internal)
                | Inr rules \<Rightarrow>
                    Ok \<lparr>sk_StreamKey = LiveStreamKey rules, sk_PushURL = livePushURL cf (LiveStreamKey rules),
                        sk_LivePlayURL = (if LivePlayUrl rules = [] then livePlayURL cf (LiveStreamKey rules)
                                          else LivePlayUrl rules)\<rparr>)))"

definition handleEventsCount :: "bool \<Rightarrow> aid \<Rightarrow> db \<Rightarrow> int resp" where
  "handleEventsCount up aid d = (case CountEvents up aid d of Inl x \<Rightarrow> internal | Inr n \<Rightarrow> Ok n)"

section \<open>The evidence card\<close>

record evidenceSummaryData =
  es_Status :: string
  es_CurrentPriceCents :: money
  es_WinnerID :: uid
  es_Seq :: int

definition summary_step :: "EvidenceEvent \<Rightarrow> evidenceSummaryData \<Rightarrow> evidenceSummaryData" where
  "summary_step x out0 =
     (let s = (if ee_Seq x > es_Seq out0 then out0\<lparr>es_Seq := ee_Seq x\<rparr> else out0)
      in case ee_EventType x of
           BID_ACCEPTED \<Rightarrow>
             (case decode_bid (ee_Payload x) of
                None \<Rightarrow> s
              | Some p \<Rightarrow>
                  (let s1 = s\<lparr>es_CurrentPriceCents := bid_amountCents p\<rparr>
                   in if bid_userId p \<noteq> [] then s1\<lparr>es_WinnerID := bid_userId p\<rparr> else s1))
         | AUCTION_SOLD \<Rightarrow>
             (case decode_sold (ee_Payload x) of
                None \<Rightarrow> s
              | Some p \<Rightarrow> s\<lparr>es_Status := sold_status p, es_CurrentPriceCents := sold_amountCents p,
                            es_WinnerID := sold_winnerId p\<rparr>)
         | AUCTION_NO_BID \<Rightarrow> s\<lparr>es_Status := state_name NO_BID\<rparr>
         | AUCTION_CANCELLED \<Rightarrow>
             s\<lparr>es_Status := state_name CANCELLED, es_WinnerID := [], es_CurrentPriceCents := []\<rparr>
         | _ \<Rightarrow> s)"

definition evidenceSummary ::
  "auction_state \<Rightarrow> EvidenceEvent list \<Rightarrow> order_row option \<Rightarrow> evidenceSummaryData" where
  "evidenceSummary mysqlStatus timeline order =
     (let out = fold summary_step timeline
                  \<lparr>es_Status = state_name mysqlStatus, es_CurrentPriceCents = [], es_WinnerID = [], es_Seq = 0\<rparr>
      in case order of
           None \<Rightarrow> out
         | Some w \<Rightarrow> out\<lparr>es_Status := state_name ORDER_CREATED,
                           es_CurrentPriceCents := FormatInt (or_amount w), es_WinnerID := or_buyer w\<rparr>)"

record evidence_card =
  ec_Summary :: evidenceSummaryData
  ec_FactsConfirmed :: bool
  ec_Timeline :: "EvidenceEvent list"
  ec_EventsHash :: string
  ec_ChainVerified :: bool
  ec_HashBreakAtSeq :: "int option"
  ec_VirtualCoinsOnly :: bool
  ec_Order :: "order_row option"

text \<open>Calls 0 to 4 to MySQL are the auction, its timeline, the chain check, the rules and the
  order; the chain check also writes its cache.\<close>

definition handleEvidence ::
  "api_env \<Rightarrow> hasher \<Rightarrow> (int \<Rightarrow> key option) \<Rightarrow> uid option \<Rightarrow> aid \<Rightarrow> db \<Rightarrow> evidence_card resp \<times> db" where
  "handleEvidence e E lookup user aid d =
     (case user of
        None \<Rightarrow> (unauthorized, d)
      | Some u \<Rightarrow>
          (case GetAuction (ae_db e 0) aid d of
             Inl x \<Rightarrow> (if x = ErrNotFound then Fail 404 ''auction not found'' else internal, d)
           | Inr a \<Rightarrow>
               (case EventTimeline (ae_db e 1) aid d of
                  Inl x \<Rightarrow> (internal, d)
                | Inr timeline \<Rightarrow>
                    if \<not> ae_db e 2 then (internal, d) else
                    (let (v, c) = VerifyEvidenceChain E lookup (ae_now e) (auction_events d aid) (chain_cache d aid);
                         d' = d\<lparr>chain_cache := (chain_cache d)(aid := c)\<rparr>;
                         order = (case GetOrder (ae_db e 4) aid d of Inl x \<Rightarrow> None | Inr w \<Rightarrow> Some w);
                         card = (\<lambda>ok q. \<lparr>ec_Summary = evidenceSummary (ar_status a) timeline order,
                           ec_FactsConfirmed = ar_factsConfirmed a, ec_Timeline = timeline,
                           ec_EventsHash = (if timeline = [] then [] else ee_EventHash (last timeline)),
                           ec_ChainVerified = ok, ec_HashBreakAtSeq = q,
                           ec_VirtualCoinsOnly = (case GetRules (ae_db e 3) aid d of
                              Inl x \<Rightarrow> False | Inr rules \<Rightarrow> NormalizeMode (Mode rules) = ALL_PAY),
                           ec_Order = order\<rparr>)
                     in case v of
                          ChainError \<Rightarrow> (internal, d')
                        | ChainBroken q \<Rightarrow> (Ok (card False (Some q)), d')
                        | ChainOk \<Rightarrow> (Ok (card True None), d')))))"

section \<open>Standings stay hidden in the list\<close>

text \<open>Two states of an auction that differ at most in leader and price, while its mode hides
  them.\<close>

definition hides_standing :: "room_hash \<Rightarrow> bool" where
  "hides_standing h \<longleftrightarrow> NormalizeMode (h_mode h) \<noteq> ENGLISH \<and> snapshotRules h \<noteq> None"

definition same_but_standing :: "akeys \<Rightarrow> akeys \<Rightarrow> bool" where
  "same_but_standing k k' \<longleftrightarrow> hash_of k' = hash_of k \<or>
     (hides_standing (hash_of k) \<and> (\<exists>p w dn n. hash_of k' = (hash_of k)
        \<lparr>h_currentPriceCents := p, h_winnerId := w, h_winnerDisplayName := dn, h_bidCount := n\<rparr>))"

lemma merge_hidden:
  assumes "sn_Status s' = sn_Status s" "sn_EndAtMs s' = sn_EndAtMs s" "sn_Rules s' = sn_Rules s"
    and "sn_Rules s = Some rs" "NormalizeMode (RoomSnapshotRules.rs_mode rs) \<noteq> ENGLISH"
  shows "merge_live s' x = merge_live s x"
  using assms by (cases "sn_Status s") (simp_all add: merge_live_def Let_def)

lemma hidden_rules:
  assumes "hides_standing h"
  obtains rs where "snapshotRules h = Some rs" "NormalizeMode (RoomSnapshotRules.rs_mode rs) \<noteq> ENGLISH"
proof -
  obtain rs where rs: "snapshotRules h = Some rs" using assms by (auto simp: hides_standing_def)
  then have "RoomSnapshotRules.rs_mode rs = NormalizeMode (h_mode h)"
    by (auto simp: snapshotRules_def split: if_splits)
  with rs assms that show ?thesis by (simp add: hides_standing_def NormalizeMode_idem)
qed

lemma merge_standing:
  assumes "same_but_standing k k'"
  shows "merge_live (snapshot_of (hash_of k')) x = merge_live (snapshot_of (hash_of k)) x"
proof (cases "hash_of k' = hash_of k")
  case False
  then obtain p w dn n where h: "hides_standing (hash_of k)" "hash_of k' = (hash_of k)
      \<lparr>h_currentPriceCents := p, h_winnerId := w, h_winnerDisplayName := dn, h_bidCount := n\<rparr>"
    using assms by (auto simp: same_but_standing_def)
  obtain rs where "snapshotRules (hash_of k) = Some rs" "NormalizeMode (RoomSnapshotRules.rs_mode rs) \<noteq> ENGLISH"
    using hidden_rules [OF h(1)] .
  moreover have "snapshotRules (hash_of k') = snapshotRules (hash_of k)"
    by (simp add: h(2) snapshotRules_def)
  ultimately show ?thesis by (intro merge_hidden [where rs = rs]) (simp_all add: h(2) snapshot_of_def)
qed simp

lemma list_hides_standing:
  assumes "\<And>a. same_but_standing (rd_keys r a) (rd_keys r' a)"
    and "\<And>a. bad_type (k_state (rd_keys r' a)) = bad_type (k_state (rd_keys r a))"
  shows "handleListAuctions up lk limit d r' = handleListAuctions up lk limit d r"
  using merge_standing [OF assms(1)] assms(2)
  by (auto simp: handleListAuctions_def Snapshot_def Let_def split: sum.splits)

lemma merge_live_frame: "dto_BidCount (merge_live snap x) = dto_BidCount x" "dto_AuctionID (merge_live snap x) = dto_AuctionID x"
  by (simp_all add: merge_live_def Let_def split: option.split)

text \<open>The count of a row comes from MySQL.\<close>

lemma list_counts:
  assumes "handleListAuctions up lk limit d r = Ok rows" "x \<in> set rows"
  shows "dto_BidCount x = int (length (filter (\<lambda>e. ev_type e = BID_ACCEPTED) (auction_events d (dto_AuctionID x))))"
proof -
  obtain items where l: "ListAuctions up (if limit = [] then 0 else atoi_value (ParseInt limit)) d = Inr items"
    using assms(1) by (auto simp: handleListAuctions_def internal_def split: sum.splits)
  then obtain it where it: "it \<in> set items" "dto_BidCount x = li_BidCount it" "dto_AuctionID x = li_ID it"
    using assms by (auto simp: handleListAuctions_def list_row_def merge_live_frame split: io.splits if_splits)
  obtain a where "it = list_item d a" using l it(1) by (auto simp: ListAuctions_def split: if_splits)
  then show ?thesis using it by (simp add: list_item_def Let_def)
qed

text \<open>The single-auction view takes both from the state hash, whatever the mode.\<close>

lemma view_shows_standing:
  assumes "handleGetAuction e aid hb sim likes d r = Ok v" "h_status (hash_of (rd_keys r aid)) = Some LIVE"
    and "h_currentPriceCents (hash_of (rd_keys r aid)) = Some p"
  shows "sn_WinnerID (rv_Snapshot v) = h_winnerId (hash_of (rd_keys r aid)) \<and> sn_CurrentPriceCents (rv_Snapshot v) = p"
  using assms
  by (auto simp: handleGetAuction_def Snapshot_def snapshot_of_def Let_def internal_def
      split: sum.splits if_splits option.splits)

section \<open>The evidence of a sale\<close>

lemma summary_seq: "es_Seq (summary_step x s) = max (es_Seq s) (ee_Seq x)"
  by (auto simp: summary_step_def Let_def split: msg_type.splits option.splits)

lemma fold_summary_seq: "es_Seq (fold summary_step xs s) = fold (\<lambda>x m. max m (ee_Seq x)) xs (es_Seq s)"
  by (induction xs arbitrary: s) (simp_all add: summary_seq)

lemma fold_max_seq:
  "(\<And>i. i < length xs \<Longrightarrow> ee_Seq (xs ! i) = m + int i + 1) \<Longrightarrow> fold (\<lambda>x m. max m (ee_Seq x)) xs m = m + int (length xs)"
proof (induction xs arbitrary: m)
  case (Cons x xs)
  have "ee_Seq x = m + 1" using Cons.prems [of 0] by simp
  moreover have "fold (\<lambda>x m. max m (ee_Seq x)) xs (m + 1) = m + 1 + int (length xs)"
  proof (rule Cons.IH)
    fix i assume "i < length xs"
    then show "ee_Seq (xs ! i) = m + 1 + int i + 1" using Cons.prems [of "Suc i"] by simp
  qed
  ultimately show ?case by simp
qed simp

lemma decode_sold_content:
  "decode_sold (sold_json q w a now) = Some s \<Longrightarrow>
   sold_winnerId s = w \<and> sold_amountCents s = a \<and> sold_status s = state_name SOLD"
  by (auto simp: decode_sold_def sold_json_def jfield_defs split: option.splits if_splits)

lemma evidence_sold:
  assumes lad: "ladder k" and inv: "room_inv k" and sold: "h_status (hash_of k) = Some SOLD"
    and pr: "projected E L aid (events_of k) (length (events_of k)) d"
    and ok: "\<forall>e\<in>set (events_of k). settles e"
  shows "evidenceSummary st (map timeline_event (auction_events d aid)) None =
    \<lparr>es_Status = state_name SOLD, es_CurrentPriceCents = price_str (hash_of k),
     es_WinnerID = h_winnerId (hash_of k), es_Seq = h_seq (hash_of k)\<rparr>"
proof -
  let ?rows = "auction_events d aid" and ?h = "hash_of k"
  let ?init = "\<lparr>es_Status = state_name st, es_CurrentPriceCents = [], es_WinnerID = [], es_Seq = 0\<rparr>"
  obtain es e now where ev: "events_of k = es @ [e]"
    "e = seq_entry (h_seq ?h) AUCTION_SOLD (sold_json (h_seq ?h) (h_winnerId ?h) (price_str ?h) now)"
    using lad sold unfolding ladder_def Let_def
    by (cases "events_of k" rule: rev_cases) auto
  have data: "map row_data ?rows = map entry_data (es @ [e])" using projected_full(2) [OF pr] ev(1) by simp
  obtain rows x where rows: "?rows = rows @ [x]" "row_data x = entry_data e"
    using data by (cases ?rows rule: rev_cases) auto
  then have x: "ee_EventType (timeline_event x) = AUCTION_SOLD"
      "ee_Payload (timeline_event x) = sold_json (h_seq ?h) (h_winnerId ?h) (price_str ?h) now"
    using ev(2) by (auto simp: row_data_def entry_data_def timeline_event_def seq_entry_def)
  obtain s where s: "decode_sold (sold_json (h_seq ?h) (h_winnerId ?h) (price_str ?h) now) = Some s"
    using ok ev by (auto simp: settles_def sold_outcome_def seq_entry_def split: option.splits)
  note c = decode_sold_content [OF s]
  have len: "int (length ?rows) = h_seq ?h"
    using arg_cong [OF projected_full(2) [OF pr], of length] room_invD(2) [OF inv] by simp
  obtain hd where ch: "chain E L ?rows hd" using projected_full(1) [OF pr] ..
  have "es_Seq (fold summary_step (map timeline_event ?rows) ?init) = 0 + int (length (map timeline_event ?rows))"
    unfolding fold_summary_seq using chain_nth [OF ch]
    by (subst fold_max_seq) (auto simp: timeline_event_def)
  with len have q: "es_Seq (fold summary_step (map timeline_event ?rows) ?init) = h_seq ?h" by simp
  show ?thesis
    using q x s c unfolding rows(1) evidenceSummary_def Let_def
    by (simp add: summary_step_def Let_def split: if_splits)
qed

text \<open>With the order of the sale the card shows the order's status, buyer and amount.\<close>

lemma evidence_with_order:
  assumes "evidenceSummary st evs None = \<lparr>es_Status = x, es_CurrentPriceCents = p, es_WinnerID = w, es_Seq = q\<rparr>"
  shows "evidenceSummary st evs (Some r) = \<lparr>es_Status = state_name ORDER_CREATED,
    es_CurrentPriceCents = FormatInt (or_amount r), es_WinnerID = or_buyer r, es_Seq = q\<rparr>"
  using assms by (simp add: evidenceSummary_def Let_def)

text \<open>The log of a sold auction ends with its only sale, of the leader at the price.\<close>

lemma sold_log:
  assumes lad: "ladder k" and inv: "room_inv k" and sold: "h_status (hash_of k) = Some SOLD"
    and ok: "\<forall>e\<in>set (events_of k). settles e"
  obtains bs s n where "events_of k = bs @ [s]" "\<forall>e\<in>set bs. e_type e \<noteq> AUCTION_SOLD" "e_type s = AUCTION_SOLD"
    "ParseInt (price_str (hash_of k)) = POk n" "sold_outcome (e_payload s) = Some (h_winnerId (hash_of k), n)"
proof -
  let ?h = "hash_of k"
  obtain bs s now where ev: "events_of k = bs @ [s]"
    "s = seq_entry (h_seq ?h) AUCTION_SOLD (sold_json (h_seq ?h) (h_winnerId ?h) (price_str ?h) now)"
    using lad sold unfolding ladder_def Let_def
    by (cases "events_of k" rule: rev_cases) auto
  have "ends_final (events_of k)" using inv sold by (simp add: room_inv_def status_terminal_def)
  then have "\<forall>e\<in>set bs. e_type e \<noteq> AUCTION_SOLD"
    by (auto simp: ends_final_def has_final_def ev(1) split: if_splits)
  moreover have ty: "e_type s = AUCTION_SOLD" by (simp add: ev(2) seq_entry_def)
  moreover obtain w n where o: "sold_outcome (e_payload s) = Some (w, n)"
    using ok ev(1) ty by (auto simp: settles_def)
  moreover have "w = h_winnerId ?h \<and> ParseInt (price_str ?h) = POk n"
    using o decode_sold_content [of "h_seq ?h" "h_winnerId ?h" "price_str ?h" now]
    by (auto simp: ev(2) seq_entry_def sold_outcome_def split: option.splits if_splits parsed.splits)
  ultimately show thesis using that ev(1) by blast
qed

lemma evidence_order:
  assumes lad: "ladder k" and sold: "h_status (hash_of k) = Some SOLD"
    and ok: "\<forall>e\<in>set (events_of k). settles e" and rd: "readable k" and pr: "proper E L"
    and w: "worker_ok E L aid (events_of k) w" and fuel: "length (events_of k) < fuel" and nf: "\<forall>i. fs i = no_faults"
    and o: "(\<exists>x. order_by aid (w_db w) = Some x \<and> or_buyer x = h_winnerId (hash_of k)
        \<and> ParseInt (price_str (hash_of k)) = POk (or_amount x))
      \<or> order_by aid (w_db w) = None \<and> \<not> all_pay aid (w_db w) \<and> w_cursor w aid \<noteq> position (length (events_of k))"
  shows "let d = w_db (project fuel fs E now aid k w) in \<exists>x. order_by aid d = Some x
    \<and> or_buyer x = h_winnerId (hash_of k) \<and> ParseInt (price_str (hash_of k)) = POk (or_amount x)
    \<and> evidenceSummary st (map timeline_event (auction_events d aid)) (order_by aid d) =
      \<lparr>es_Status = state_name ORDER_CREATED, es_CurrentPriceCents = FormatInt (or_amount x),
       es_WinnerID = h_winnerId (hash_of k), es_Seq = h_seq (hash_of k)\<rparr>"
proof -
  let ?d = "w_db (project fuel fs E now aid k w)"
  have inv: "room_inv k" using rd by (simp add: readable_def)
  obtain bs s n where sale: "events_of k = bs @ [s]" "\<forall>e\<in>set bs. e_type e \<noteq> AUCTION_SOLD" "e_type s = AUCTION_SOLD"
    "sold_outcome (e_payload s) = Some (h_winnerId (hash_of k), n)" and n: "ParseInt (price_str (hash_of k)) = POk n"
    by (rule sold_log [OF lad inv sold ok])
  have "order_of aid (h_winnerId (hash_of k)) n (w_db w) \<or> order_by aid (w_db w) = None \<and> \<not> all_pay aid (w_db w)
      \<and> w_cursor w aid \<noteq> position (length (events_of k))"
    using o n by (auto simp: order_of_def)
  then obtain x where x: "order_by aid ?d = Some x" "or_buyer x = h_winnerId (hash_of k)" "or_amount x = n"
    using project_sale [where now = now, OF pr rd ok w fuel sale nf] unfolding order_of_def by blast
  have "projected E L aid (events_of k) (length (events_of k)) ?d"
    using project_sound(2) [OF pr rd ok w fuel] nf by blast
  from evidence_with_order [OF evidence_sold [OF lad inv sold this ok, of st], of x]
  show ?thesis unfolding Let_def using x n by (intro exI [of _ x]) simp
qed

lemma clamp_range: "1 \<le> clampLeaderboardN q \<and> clampLeaderboardN q \<le> 100"
  by (auto simp: clampLeaderboardN_def split: parsed.splits)

section \<open>The recommendation of a sealed parent\<close>

definition handlePrequalifyRecommendation ::
  "api_env \<Rightarrow> nat \<Rightarrow> uid option \<Rightarrow> aid \<Rightarrow> db \<Rightarrow> redis \<Rightarrow> prequalifyRecommendation resp" where
  "handlePrequalifyRecommendation e fuel user aid d r =
     (case user of
        None \<Rightarrow> unauthorized
      | Some u \<Rightarrow>
          (case loadPrequalifyRecommendation e fuel u aid d r of
             Fail c s \<Rightarrow> Fail c s
           | Refuse c x \<Rightarrow> Refuse c x
           | RefuseText c x \<Rightarrow> RefuseText c x
           | Ok (parent, rec) \<Rightarrow> Ok rec))"

text \<open>Only the seller of a sold sealed auction is told, and the reserve is one of the revealed bids.\<close>

theorem recommendation_for_seller:
  assumes "handlePrequalifyRecommendation e fuel user aid d r = Ok q"
  obtains u a rv n where "user = Some u" "GetAuction (ae_db e 0) aid d = Inr a" "ar_seller a = u"
    "LastAuctionReveal fuel (rd_keys r aid) = Found rv" "pq_ReserveCents q = FormatInt n" "n \<in> set (usable_amounts (reveal_bids rv))"
proof -
  obtain u p where u: "user = Some u" "loadPrequalifyRecommendation e fuel u aid d r = Ok (p, q)"
    using assms by (auto simp: handlePrequalifyRecommendation_def unauthorized_def split: option.splits resp.splits)
  then obtain rv where "GetAuction (ae_db e 0) aid d = Inr p" "ar_seller p = u"
      "LastAuctionReveal fuel (rd_keys r aid) = Found rv" "prequalifyRecommendationFromReveal aid rv = Some q"
    unfolding loadPrequalifyRecommendation_def internal_def
    by (auto split: sum.splits if_splits io.splits option.splits found.splits)
  then show thesis using that [of u p rv] u(1) by (blast elim: recommendation_sound)
qed

end
