(* ===== verification/Gateway.thy ===== *)
theory Gateway
  imports Join Auth
begin

text \<open>
  One WebSocket from upgrade to teardown: \<^verbatim>\<open>handleWS\<close> and \<^verbatim>\<open>dispatchWS\<close> of
  \<^verbatim>\<open>internal/server/ws.go\<close>, over the admission, the lanes, \<^verbatim>\<open>ROOM_JOIN\<close> and the bid path of the other
  theories. Then: the reserved slot comes back exactly once on every path, a closed connection is in no
  room, each bid gets one answer, and a client of another schema is told so.
\<close>

section \<open>Frames\<close>

text \<open>A frame after decoding; a payload that does not decode leaves zero values. \<open>v\<close> in \<open>Inbound v\<close> is the frame's
  schema version.\<close>

datatype in_msg = InPing | InJoin RoomJoinData | InBid BidPlaceData | InOther

datatype inbound = ReadError | BadJson | Inbound int in_msg

record ws_env =
  we_wall :: int
  we_join :: join_env
  we_bid :: bid_env
  we_later :: "redis \<Rightarrow> redis" \<comment> \<open>between the snapshot and the read of the stream\<close>

text \<open>What the gateway's connections share; \<open>gw_conns\<close> is \<^term>\<open>None\<close> without a registry.\<close>

record gw =
  gw_hub :: hub
  gw_redis :: redis
  gw_metrics :: gw_metrics
  gw_conns :: "(int \<times> int) option"

definition pong :: "int \<Rightarrow> Envelope" where
  "pong wall = NewEnvelope wall PONG [] 0 DNone"

definition dispatchWS ::
  "ws_env \<Rightarrow> in_msg \<Rightarrow> ws_conn \<times> Envelope conn \<times> gw \<Rightarrow> ws_conn \<times> Envelope conn \<times> gw" where
  "dispatchWS e msg s =
     (case s of (w, c, g) \<Rightarrow>
        (case msg of
           InPing \<Rightarrow> (w, trySendLossy (pong (we_wall e)) c, g)
         | InJoin d \<Rightarrow>
             (let (w', c', h') = room_join (we_join e) d (gw_redis g) (we_later e (gw_redis g)) (w, c, gw_hub g)
              in (w', c', g\<lparr>gw_hub := h'\<rparr>))
         | InBid d \<Rightarrow>
             (let (env, r', m') = bid_place (we_bid e) w d (gw_hub g) (gw_redis g) (gw_metrics g)
              in (w, push (je_cap (we_join e)) env c, g\<lparr>gw_redis := r', gw_metrics := m'\<rparr>))
         | InOther \<Rightarrow> s))"

section \<open>The read loop\<close>

definition schemaMismatchCloseCode :: int where
  "schemaMismatchCloseCode = 4001"

text \<open>A frame of this connection, or something else meanwhile: what the rest of the program does to the hub, to Redis and to the
  number of connections, and what the pump and the fan-out do to this one.\<close>

datatype ws_item =
  Own ws_env inbound
| World "hub \<Rightarrow> hub" "redis \<Rightarrow> redis" int "Envelope conn \<Rightarrow> Envelope conn"

definition add_conns :: "int \<Rightarrow> gw \<Rightarrow> gw" where
  "add_conns n g = g\<lparr>gw_conns := map_option (\<lambda>(a, rej). (a + n, rej)) (gw_conns g)\<rparr>"

definition elsewhere :: "(hub \<Rightarrow> hub) \<Rightarrow> (redis \<Rightarrow> redis) \<Rightarrow> int \<Rightarrow> gw \<Rightarrow> gw" where
  "elsewhere fh fr n g = add_conns n (g\<lparr>gw_hub := fh (gw_hub g), gw_redis := fr (gw_redis g)\<rparr>)"

text \<open>The flag says that the loop returned.\<close>

fun read_loop :: "ws_item list \<Rightarrow> ws_conn \<times> Envelope conn \<times> gw \<Rightarrow> bool \<times> ws_conn \<times> Envelope conn \<times> gw" where
  "read_loop [] s = (False, s)"
| "read_loop (World fh fr n fc # is) (w, c, g) = read_loop is (w, fc c, elsewhere fh fr n g)"
| "read_loop (Own e ReadError # is) s = (True, s)"
| "read_loop (Own e BadJson # is) s = read_loop is s"
| "read_loop (Own e (Inbound v msg) # is) s =
     (if v \<noteq> SchemaVersion
      then (case s of (w, c, g) \<Rightarrow> (True, w, closeWithCode schemaMismatchCloseCode ''schema mismatch'' c, g))
      else read_loop is (dispatchWS e msg s))"

section \<open>The connection\<close>

record upgrade_env =
  up_origin :: string
  up_FrontendOrigin :: string
  up_JWTSecret :: string
  up_token :: string
  up_maxWSConns :: int
  up_upgrades :: bool
  up_flushes :: bool
  up_nickname :: bool
  up_id :: cid

datatype ws_result = WsUnauthorized | WsOverloaded | WsUpgradeFailed | WsFlushFailed | WsOpen | WsClosed

definition ws_display :: "bool \<Rightarrow> uid \<Rightarrow> db \<Rightarrow> string" where
  "ws_display up u d = (case UserNickname up u d of Inr nick \<Rightarrow> (if nick \<noteq> [] then nick else u) | Inl x \<Rightarrow> u)"

text \<open>The deferred calls, at the return of the loop.\<close>

definition teardown :: "ws_conn \<times> Envelope conn \<times> gw \<Rightarrow> Envelope conn \<times> gw" where
  "teardown s =
     (case s of (w, c, g) \<Rightarrow>
        (conn_close c, add_conns (- 1) (g\<lparr>gw_hub := hub_leave (cn_aid w) (cn_id w) (gw_hub g)\<rparr>)))"

definition handleWS ::
  "hmac \<Rightarrow> upgrade_env \<Rightarrow> db \<Rightarrow> ws_item list \<Rightarrow> gw \<Rightarrow> ws_result \<times> Envelope conn \<times> gw" where
  "handleWS hm up d items g =
     (case auth_Verify hm (up_JWTSecret up) (up_token up) of
        None \<Rightarrow> (WsUnauthorized, newConn, g)
      | Some u \<Rightarrow>
          (let (ok, conns) = tryReserveWS (up_maxWSConns up) (gw_conns g); g1 = g\<lparr>gw_conns := conns\<rparr> in
           if \<not> ok then (WsOverloaded, newConn, g1)
           else if \<not> (OriginAllowed (up_origin up) (up_FrontendOrigin up) \<and> up_upgrades up)
           then (WsUpgradeFailed, newConn, add_conns (- 1) g1)
           else if \<not> up_flushes up then (WsFlushFailed, newConn, add_conns (- 1) g1)
           else (let w = \<lparr>cn_id = up_id up, cn_userID = u, cn_displayName = ws_display (up_nickname up) u d, cn_aid = []\<rparr>;
                     (ended, s) = read_loop items (w, newConn, g1)
                 in if ended then (let (c, g2) = teardown s in (WsClosed, c, g2))
                    else (WsOpen, fst (snd s), snd (snd s)))))"

section \<open>The slot comes back\<close>

fun world_conns :: "ws_item list \<Rightarrow> int" where
  "world_conns [] = 0"
| "world_conns (World fh fr n fc # is) = n + world_conns is"
| "world_conns (Own e ReadError # is) = 0"
| "world_conns (Own e (Inbound v msg) # is) = (if v \<noteq> SchemaVersion then 0 else world_conns is)"
| "world_conns (Own e BadJson # is) = world_conns is"

lemma add_conns_sel [simp]:
  "gw_hub (add_conns n g) = gw_hub g" "gw_redis (add_conns n g) = gw_redis g" "gw_metrics (add_conns n g) = gw_metrics g"
  "gw_conns (add_conns n g) = map_option (\<lambda>(a, rej). (a + n, rej)) (gw_conns g)"
  by (simp_all add: add_conns_def)

lemma elsewhere_sel [simp]:
  "gw_hub (elsewhere fh fr n g) = fh (gw_hub g)"
  "gw_conns (elsewhere fh fr n g) = map_option (\<lambda>(a, rej). (a + n, rej)) (gw_conns g)"
  by (simp_all add: elsewhere_def)

lemma map_conns_add:
  "map_option (\<lambda>(a, rej). (a + m, rej)) (map_option (\<lambda>(a, rej). (a + n, rej)) x) = map_option (\<lambda>(a, rej). (a + (n + m), rej :: int)) (x :: (int \<times> int) option)"
  by (cases x) auto

lemma map_conns_0 [simp]: "map_option (\<lambda>a. a) x = x"
  by (cases x) auto

lemma dispatch_conns: "gw_conns (snd (snd (dispatchWS e msg s))) = gw_conns (snd (snd s))"
  by (cases s; cases msg) (simp_all add: dispatchWS_def split: prod.splits)

lemma loop_conns:
  "gw_conns (snd (snd (snd (read_loop is s)))) = map_option (\<lambda>(a, rej). (a + world_conns is, rej)) (gw_conns (snd (snd s)))"
proof (induction "is" s rule: read_loop.induct)
  case (2 fh fr n fc "is" w c g)
  then show ?case by (simp add: map_conns_add)
next
  case (5 e v msg "is" s)
  then show ?case by (cases s) (simp add: dispatch_conns)
qed simp_all

text \<open>Apart from what the rest of the program does, a request that is over leaves the number of connections as it found
  it, unless it was turned away, which only counts a rejection; an open one counts once.\<close>

theorem slot_returned:
  assumes "gw_conns g = Some (active, rej)" "handleWS hm up d items g = (res, c, g')"
  shows "gw_conns g' =
    (case res of
       WsOpen \<Rightarrow> Some (active + world_conns items + 1, rej)
     | WsClosed \<Rightarrow> Some (active + world_conns items, rej)
     | WsOverloaded \<Rightarrow> Some (active, rej + 1)
     | _ \<Rightarrow> Some (active, rej))"
proof -
  have t: "gw_conns (snd (teardown s)) = map_option (\<lambda>(a, rej). (a - 1, rej)) (gw_conns (snd (snd s)))" for s
    by (cases s) (simp add: teardown_def)
  show ?thesis
    using assms loop_conns [of items]
    by (auto simp: handleWS_def tryReserveWS_def Let_def t split: option.splits prod.splits if_splits)
      (auto simp: prod_eq_iff t)
qed

section \<open>No stale member\<close>

definition only_in :: "cid \<Rightarrow> aid \<Rightarrow> hub \<Rightarrow> bool" where
  "only_in i aid h \<longleftrightarrow> (\<forall>a. i \<in> set (members h a) \<longrightarrow> a = aid \<and> a \<noteq> [])"

text \<open>What the rest of the program does to the rooms leaves the membership of connection \<open>i\<close> alone.\<close>

definition leaves_alone :: "cid \<Rightarrow> ws_item \<Rightarrow> bool" where
  "leaves_alone i it \<longleftrightarrow>
     (case it of World fh fr n fc \<Rightarrow> (\<forall>h a. i \<in> set (members (fh h) a) \<longleftrightarrow> i \<in> set (members h a)) | Own e x \<Rightarrow> True)"

lemma members_setMode [simp]: "members (setMode aid m h) a = members h a"
  by (simp add: members_def setMode_def put_state_def)

lemma only_in_cong: "(\<And>a. members h' a = members h a) \<Longrightarrow> only_in i aid h' = only_in i aid h"
  by (simp add: only_in_def)

lemma only_in_leave: "only_in i aid h \<Longrightarrow> only_in i [] (hub_leave aid i h)"
  by (auto simp: only_in_def members_leave split: if_splits)

lemma only_in_join: "only_in i [] h \<Longrightarrow> aid \<noteq> [] \<Longrightarrow> only_in i aid (hub_join aid i h)"
  by (auto simp: only_in_def members_join split: if_splits)

lemma leave_nowhere: "hub_leave [] i h = h"
  by (simp add: hub_leave_def)

lemma room_join_only_in:
  assumes "only_in (cn_id w) (cn_aid w) h" "room_join e d r1 r2 (w, c, h) = (w', c', h')"
  shows "cn_id w' = cn_id w \<and> only_in (cn_id w) (cn_aid w') h'"
proof (cases "rj_AuctionID d = []")
  case True
  with assms show ?thesis by (auto simp: room_join_def)
next
  case False
  let ?h1 = "if cn_aid w \<noteq> [] then hub_leave (cn_aid w) (cn_id w) h else h"
  have "only_in (cn_id w) [] ?h1" using assms(1) by (cases "cn_aid w = []") (simp_all add: only_in_leave)
  then have j: "only_in (cn_id w) (rj_AuctionID d) (hub_join (rj_AuctionID d) (cn_id w) ?h1)"
    using False by (rule only_in_join)
  have "cn_id w' = cn_id w \<and> cn_aid w' = rj_AuctionID d
      \<and> (\<forall>a. members h' a = members (hub_join (rj_AuctionID d) (cn_id w) ?h1) a)"
  proof (cases "Snapshot (je_snapshot e) (rj_AuctionID d) r1")
    case IOErr
    with assms(2) False show ?thesis by (auto simp: room_join_def Let_def)
  next
    case (IOk snap)
    with assms(2) False show ?thesis by (cases "sn_Rules snap") (auto simp: room_join_def Let_def)
  qed
  then show ?thesis using j only_in_cong [of h'] by metis
qed

lemma dispatch_only_in:
  assumes "only_in (cn_id w) (cn_aid w) (gw_hub g)" "dispatchWS e msg (w, c, g) = (w', c', g')"
  shows "cn_id w' = cn_id w \<and> only_in (cn_id w) (cn_aid w') (gw_hub g')"
proof (cases msg)
  case (InJoin d)
  obtain w1 c1 h1 where r: "room_join (we_join e) d (gw_redis g) (we_later e (gw_redis g)) (w, c, gw_hub g) = (w1, c1, h1)"
    by (metis prod_cases3)
  with room_join_only_in [OF assms(1) r] assms(2) InJoin show ?thesis by (auto simp: dispatchWS_def)
qed (use assms in \<open>auto simp: dispatchWS_def split: prod.splits\<close>)

lemma loop_only_in:
  assumes "read_loop is (w, c, g) = (ended, w', c', g')" "only_in (cn_id w) (cn_aid w) (gw_hub g)"
    "list_all (leaves_alone (cn_id w)) is"
  shows "cn_id w' = cn_id w \<and> only_in (cn_id w) (cn_aid w') (gw_hub g')"
  using assms
proof (induction "is" "(w, c, g)" arbitrary: w c g rule: read_loop.induct)
  case (2 fh fr n fc "is" w c g)
  then have "only_in (cn_id w) (cn_aid w) (gw_hub (elsewhere fh fr n g))"
    by (auto simp: only_in_def leaves_alone_def)
  with 2 show ?case by simp
next
  case (5 e v msg "is" w c g)
  show ?case
  proof (cases "v = SchemaVersion")
    case True
    obtain w1 c1 g1 where dsp: "dispatchWS e msg (w, c, g) = (w1, c1, g1)" by (metis prod_cases3)
    with dispatch_only_in [OF 5(3) dsp] 5 True show ?thesis by auto
  qed (use 5 in auto)
qed auto

theorem closed_nowhere:
  assumes "handleWS hm up d items g = (WsClosed, c, g')"
    and "\<forall>a. up_id up \<notin> set (members (gw_hub g) a)" "list_all (leaves_alone (up_id up)) items"
  shows "\<forall>a. up_id up \<notin> set (members (gw_hub g') a)"
proof -
  obtain u conns w1 c1 g1 where l: "read_loop items
      (\<lparr>cn_id = up_id up, cn_userID = u, cn_displayName = ws_display (up_nickname up) u d, cn_aid = []\<rparr>,
       newConn, g\<lparr>gw_conns := conns\<rparr>) = (True, w1, c1, g1)"
    and g': "gw_hub g' = hub_leave (cn_aid w1) (cn_id w1) (gw_hub g1)"
    using assms(1) by (auto simp: handleWS_def teardown_def Let_def split: option.splits prod.splits if_splits)
  have "cn_id w1 = up_id up \<and> only_in (up_id up) (cn_aid w1) (gw_hub g1)"
    using loop_only_in [OF l] assms(2,3) by (simp add: only_in_def)
  then have "only_in (up_id up) [] (gw_hub g')" using g' by (simp add: only_in_leave)
  then show ?thesis by (auto simp: only_in_def)
qed

lemma turned_away_hub:
  "handleWS hm up d items g = (res, c, g') \<Longrightarrow> res \<noteq> WsOpen \<Longrightarrow> res \<noteq> WsClosed \<Longrightarrow> gw_hub g' = gw_hub g"
  by (auto simp: handleWS_def Let_def split: option.splits prod.splits if_splits)

section \<open>Answers\<close>

lemma answer_frame_type:
  "en_Type (fst (bid_answer wall aid x res m)) \<in> {BID_ACCEPTED, BID_REJECTED}
   \<and> en_AuctionID (fst (bid_answer wall aid x res m)) = aid
   \<and> en_Data (fst (bid_answer wall aid x res m)) \<noteq> DEvent JBad"
proof (cases res)
  case (IOk x)
  then show ?thesis by (cases x) (simp add: rejected_def bidAccepted_def NewEnvelope_def Let_def)
qed (simp add: rejected_def NewEnvelope_def)

theorem bid_frame_answered:
  assumes "dispatchWS e (InBid d) (w, c, g) = (w', c', g')"
  obtains env where "w' = w" "gw_hub g' = gw_hub g" "c' = enqueueCritical (je_cap (we_join e)) (Raw env) c"
    "en_Type env \<in> {BID_ACCEPTED, BID_REJECTED}" "en_AuctionID env = cn_aid w"
proof -
  obtain env r' m' where b: "bid_place (we_bid e) w d (gw_hub g) (gw_redis g) (gw_metrics g) = (env, r', m')"
    by (metis prod_cases3)
  then have "en_Type env \<in> {BID_ACCEPTED, BID_REJECTED} \<and> en_AuctionID env = cn_aid w \<and> en_Data env \<noteq> DEvent JBad"
    using answer_frame_type [of "be_wall (we_bid e)" "cn_aid w" "be_errText (we_bid e)"]
    by (auto simp: bid_place_def rejected_def NewEnvelope_def Let_def split: if_splits prod.splits) (metis fst_conv)+
  with b assms show thesis by (intro that [of env]) (auto simp: dispatchWS_def push_def)
qed

text \<open>Another schema: the loop ends with the typed close, and what follows is not read.\<close>

theorem other_schema_closed:
  assumes "v \<noteq> SchemaVersion" "\<not> cx_done c"
  shows "\<exists>c'. read_loop (Own e (Inbound v msg) # is) (w, c, g) = (True, w, c', g)
    \<and> cx_closeCode (fst (teardown (w, c', g))) = 4001 \<and> cx_done c'"
  using assms by (auto simp: teardown_def closeWithCode_def conn_close_def schemaMismatchCloseCode_def)

end
