(* ===== verification/Upload.thy ===== *)
theory Upload
  imports "HOL-Library.Word" ApiLifecycle
begin

text \<open>
  \<^verbatim>\<open>server/upload.go\<close>: a seller's picture, a clip, the clip of one auction. The form parser, the disk
  and the random source are arguments; the sniffer of \<^verbatim>\<open>net/http\<close> is written out for the six types the
  code asks for. The upload directory is a map from names to contents.
\<close>

type_synonym bytes = "8 word list"
type_synonym upload_dir = "string \<Rightarrow> bytes option"

section \<open>What a file is\<close>

definition ascii :: "string \<Rightarrow> bytes" where
  "ascii s = map (\<lambda>c. word_of_nat (of_char c)) s"

definition exactSig :: "bytes \<Rightarrow> bytes \<Rightarrow> bool" where
  "exactSig sig d \<longleftrightarrow> take (length sig) d = sig"

definition webpSig :: "bytes \<Rightarrow> bool" where
  "webpSig d \<longleftrightarrow> 14 \<le> length d \<and> take 4 d = ascii ''RIFF'' \<and> take 6 (drop 8 d) = ascii ''WEBPVP''"

definition be32 :: "bytes \<Rightarrow> nat" where
  "be32 d = ((unat (d ! 0) * 256 + unat (d ! 1)) * 256 + unat (d ! 2)) * 256 + unat (d ! 3)"

text \<open>The box header, then a brand among the major one (offset 8) and the compatible ones (from 16 on);
  offset 12 holds the version.\<close>

definition mp4Sig :: "bytes \<Rightarrow> bool" where
  "mp4Sig d \<longleftrightarrow> 12 \<le> length d \<and> be32 d \<le> length d \<and> be32 d mod 4 = 0
     \<and> take 4 (drop 4 d) = ascii ''ftyp''
     \<and> list_ex (\<lambda>k. 8 + 4 * k \<noteq> 12 \<and> take 3 (drop (8 + 4 * k) d) = ascii ''mp4'') [0..<(be32 d - 8) div 4]"

text \<open>\<^verbatim>\<open>http.DetectContentType\<close>: the first signature that matches, in the library's order. Icons come first, and
  take an \<^verbatim>\<open>mp4\<close> whose first box has 256 or 512 bytes. The types the code refuses are not told apart.\<close>

definition DetectContentType :: "bytes \<Rightarrow> string" where
  "DetectContentType b =
     (let d = take 512 b in
      if exactSig [0, 0, 1, 0] d \<or> exactSig [0, 0, 2, 0] d then ''image/x-icon''
      else if exactSig (ascii ''GIF87a'') d \<or> exactSig (ascii ''GIF89a'') d then ''image/gif''
      else if webpSig d then ''image/webp''
      else if exactSig [0x89, 0x50, 0x4E, 0x47, 0x0D, 0x0A, 0x1A, 0x0A] d then ''image/png''
      else if exactSig [0xFF, 0xD8, 0xFF] d then ''image/jpeg''
      else if mp4Sig d then ''video/mp4''
      else if exactSig [0x1A, 0x45, 0xDF, 0xA3] d then ''video/webm''
      else ''application/octet-stream'')"

definition imageExt :: "string \<Rightarrow> string option" where
  "imageExt ctype =
     (if ctype = ''image/png'' then Some ''.png''
      else if ctype = ''image/jpeg'' then Some ''.jpg''
      else if ctype = ''image/webp'' then Some ''.webp''
      else if ctype = ''image/gif'' then Some ''.gif''
      else None)"

definition videoExt :: "string \<Rightarrow> string option" where
  "videoExt ctype =
     (if ctype = ''video/mp4'' then Some ''.mp4''
      else if ctype = ''video/webm'' then Some ''.webm''
      else None)"

section \<open>Names and the write\<close>

definition hex_EncodeToString :: "bytes \<Rightarrow> string" where
  "hex_EncodeToString bs = concat (map (\<lambda>b. [hex_digit (unat b div 16), hex_digit (unat b mod 16)]) bs)"

text \<open>\<^verbatim>\<open>%x\<close> of a time.\<close>

fun hex_nat :: "nat \<Rightarrow> string" where
  "hex_nat n = (if n < 16 then [hex_digit n] else hex_nat (n div 16) @ [hex_digit (n mod 16)])"

declare hex_nat.simps [simp del]

text \<open>What happens to one upload: the bytes of the request up to the end of the form, the field the parser
  finds, then which call fails; \<open>ue_CopyFails\<close> is after how many bytes the disk is full.\<close>

record upload_env =
  ue_Body :: int
  ue_File :: "bytes option"
  ue_HeadFails :: bool
  ue_Mkdir :: bool
  ue_Open :: bool
  ue_CopyFails :: "nat option"
  ue_Remove :: bool
  ue_NowMs :: int
  ue_Rand :: "bytes option"
  ue_Nanos :: nat

definition randToken :: "upload_env \<Rightarrow> string" where
  "randToken v = (case ue_Rand v of None \<Rightarrow> hex_nat (ue_Nanos v) | Some bs \<Rightarrow> hex_EncodeToString bs)"

definition media_name :: "upload_env \<Rightarrow> string \<Rightarrow> string" where
  "media_name v ext = FormatInt (ue_NowMs v) @ ''-'' @ randToken v @ ext"

definition remove_file :: "upload_env \<Rightarrow> string \<Rightarrow> upload_dir \<Rightarrow> upload_dir" where
  "remove_file v name fs = (if ue_Remove v then fs(name := None) else fs)"

definition storeUploadedMedia ::
  "upload_env \<Rightarrow> bytes \<Rightarrow> bytes \<Rightarrow> string \<Rightarrow> upload_dir \<Rightarrow> string resp \<times> upload_dir" where
  "storeUploadedMedia v head body ext fs =
     (if \<not> ue_Mkdir v then (Fail 500 ''upload dir unavailable'', fs)
      else (let name = media_name v ext in
        if \<not> ue_Open v \<or> fs name \<noteq> None then (Fail 500 ''upload write failed'', fs)
        else (case ue_CopyFails v of
                Some k \<Rightarrow> (Fail 500 ''upload write failed'', remove_file v name (fs(name \<mapsto> take k (head @ body))))
              | None \<Rightarrow> (Ok name, fs(name \<mapsto> head @ body)))))"

section \<open>The handlers\<close>

definition maxUploadBytes :: int where "maxUploadBytes = 5 * 2 ^ 20"
definition maxVideoBytes :: int where "maxVideoBytes = 64 * 2 ^ 20"

text \<open>What the three handlers do after their checks: cap, field, sniff, store.\<close>

definition receive ::
  "int \<Rightarrow> string \<Rightarrow> (string \<Rightarrow> string option) \<Rightarrow> string \<Rightarrow> upload_env \<Rightarrow> upload_dir \<Rightarrow> string resp \<times> upload_dir" where
  "receive limit missing ext_of unsupported v fs =
     (if ue_Body v > limit then (Fail 400 missing, fs)
      else (case ue_File v of
              None \<Rightarrow> (Fail 400 missing, fs)
            | Some data \<Rightarrow>
                (if ue_HeadFails v then (Fail 400 ''unreadable upload'', fs)
                 else (case ext_of (DetectContentType (take 512 data)) of
                         None \<Rightarrow> (Fail 400 unsupported, fs)
                       | Some ext \<Rightarrow> storeUploadedMedia v (take 512 data) (drop 512 data) ext fs))))"

definition receive_image :: "upload_env \<Rightarrow> upload_dir \<Rightarrow> string resp \<times> upload_dir" where
  "receive_image = receive (maxUploadBytes + 64 * 1024) ''missing multipart field \"file\" (max 5MB)'' imageExt
     ''unsupported image type - png / jpeg / webp / gif only''"

definition receive_video :: "upload_env \<Rightarrow> upload_dir \<Rightarrow> string resp \<times> upload_dir" where
  "receive_video = receive (maxVideoBytes + 256 * 1024) ''missing multipart field \"file\" (max 64MB)'' videoExt
     ''unsupported video type - mp4 / webm only''"

fun upload_url :: "string resp \<times> upload_dir \<Rightarrow> string resp \<times> upload_dir" where
  "upload_url (Ok name, fs) = (Ok (''/uploads/'' @ name), fs)"
| "upload_url (r, fs) = (r, fs)"

definition handleUpload :: "api_config \<Rightarrow> uid option \<Rightarrow> upload_env \<Rightarrow> upload_dir \<Rightarrow> string resp \<times> upload_dir" where
  "handleUpload cf user v fs =
     (case user of
        None \<Rightarrow> (unauthorized, fs)
      | Some u \<Rightarrow> (if \<not> requireSeller (cf_SellerKey cf) u then (Refuse 403 ERR_NOT_ALLOWED, fs)
                   else upload_url (receive_image v fs)))"

definition handleUploadVideo :: "api_config \<Rightarrow> uid option \<Rightarrow> upload_env \<Rightarrow> upload_dir \<Rightarrow> string resp \<times> upload_dir" where
  "handleUploadVideo cf user v fs =
     (case user of
        None \<Rightarrow> (unauthorized, fs)
      | Some u \<Rightarrow> (if \<not> requireSeller (cf_SellerKey cf) u then (Refuse 403 ERR_NOT_ALLOWED, fs)
                   else upload_url (receive_video v fs)))"

definition handleUploadStreamVideo ::
  "api_env \<Rightarrow> uid option \<Rightarrow> aid \<Rightarrow> upload_env \<Rightarrow> db \<times> upload_dir \<Rightarrow> string resp \<times> db \<times> upload_dir" where
  "handleUploadStreamVideo e user aid v s =
     (case user of
        None \<Rightarrow> (unauthorized, s)
      | Some u \<Rightarrow>
          (case ownsAuction (ae_db e 0) aid u (fst s) of
             Fail c x \<Rightarrow> (Fail c x, s)
           | Refuse c x \<Rightarrow> (Refuse c x, s)
           | RefuseText c x \<Rightarrow> (RefuseText c x, s)
           | Ok a \<Rightarrow>
               (case receive_video v (snd s) of
                  (Ok name, fs) \<Rightarrow>
                    (let url = ''/uploads/'' @ name in
                     case SetLivePlayURL (ae_db e 1) aid url (fst s) of
                       (None, d) \<Rightarrow> (Ok url, d, fs)
                     | (Some x, d) \<Rightarrow>
                         (if x = ErrNotFound then Fail 404 ''rules not found'' else Fail 500 ''could not set live feed'',
                          d, remove_file v name fs))
                | (r, fs) \<Rightarrow> (r, fst s, fs))))"

section \<open>Names stay in the directory\<close>

definition name_char :: "char \<Rightarrow> bool" where
  "name_char c \<longleftrightarrow> is_digit c \<or> c \<in> set ''abcdefghijklmnopqrstuvwxyz-.''"

lemma name_hex_digit: "n < 16 \<Longrightarrow> name_char (hex_digit n)"
proof -
  assume "n < 16"
  then have *: "hex_digit n \<in> set ''0123456789abcdef''" unfolding hex_digit_def by (intro nth_mem) simp
  have "\<forall>c\<in>set ''0123456789abcdef''. name_char c" by code_simp
  with * show ?thesis by blast
qed

lemma hex_byte_ok: "name_char (hex_digit (unat (b :: 8 word) div 16))" "name_char (hex_digit (unat b mod 16))"
proof -
  have "unat b < 256" using unsigned_less [of b] by simp
  then show "name_char (hex_digit (unat b div 16))" "name_char (hex_digit (unat b mod 16))"
    by (simp_all add: name_hex_digit div_less_iff_less_mult)
qed

lemma hex_nat_ok: "c \<in> set (hex_nat n) \<Longrightarrow> name_char c"
proof (induction n rule: hex_nat.induct)
  case (1 n)
  then show ?case by (subst (asm) hex_nat.simps) (auto simp: name_hex_digit split: if_splits)
qed

lemma token_ok: "c \<in> set (randToken v) \<Longrightarrow> name_char c"
  by (auto simp: randToken_def hex_EncodeToString_def hex_byte_ok hex_nat_ok split: option.splits)

lemma FormatInt_ok: "c \<in> set (FormatInt n) \<Longrightarrow> name_char c"
  using FormatInt_chars [of c n] by (auto simp: name_char_def)

lemma ext_ok: "imageExt t = Some ext \<or> videoExt t = Some ext \<Longrightarrow> \<forall>c\<in>set ext. name_char c"
proof -
  assume "imageExt t = Some ext \<or> videoExt t = Some ext"
  then have "ext \<in> {''.png'', ''.jpg'', ''.webp'', ''.gif'', ''.mp4'', ''.webm''}"
    by (auto simp: imageExt_def videoExt_def split: if_splits)
  moreover have "\<forall>s\<in>{''.png'', ''.jpg'', ''.webp'', ''.gif'', ''.mp4'', ''.webm''}. list_all name_char s" by code_simp
  ultimately show ?thesis by (auto simp: list_all_iff)
qed

lemma media_name_ok:
  assumes "imageExt t = Some ext \<or> videoExt t = Some ext" "c \<in> set (media_name v ext)"
  shows "name_char c"
proof -
  have "name_char CHR ''-''" by (simp add: name_char_def)
  then show ?thesis using assms ext_ok [OF assms(1)] by (auto simp: media_name_def FormatInt_ok token_ok)
qed

lemma no_slash: "\<not> name_char CHR ''/''"
  by code_simp

lemma dot_no_digit: "\<not> is_digit CHR ''.''"
  by code_simp

text \<open>The name starts with a digit or a sign: it is neither hidden nor a parent directory.\<close>

lemma media_name_hd: "hd (media_name v ext) \<noteq> CHR ''.''"
proof -
  have "is_digit (hd (FormatInt (ue_NowMs v))) \<or> hd (FormatInt (ue_NowMs v)) = CHR ''-''" "FormatInt (ue_NowMs v) \<noteq> []"
    by (auto simp: FormatInt_def show_nonneg_hd_digit)
  then show ?thesis using dot_no_digit by (auto simp: media_name_def)
qed

section \<open>What lands on the disk\<close>

lemma storeUploadedMedia_Ok:
  assumes "storeUploadedMedia v h b ext fs = (Ok name, fs')"
  shows "name = media_name v ext \<and> fs name = None \<and> fs' = fs(name \<mapsto> h @ b)"
  using assms by (auto simp: storeUploadedMedia_def Let_def split: if_splits option.splits)

lemma storeUploadedMedia_fails:
  assumes "storeUploadedMedia v h b ext fs = (r, fs')" "\<forall>name. r \<noteq> Ok name"
  shows "(\<forall>n. fs n \<noteq> None \<longrightarrow> fs' n = fs n) \<and> (ue_Remove v \<longrightarrow> fs' = fs)"
  using assms by (auto simp: storeUploadedMedia_def remove_file_def Let_def split: if_splits option.splits)

lemma receive_Ok:
  assumes "receive limit m ext_of x v fs = (Ok name, fs')"
  obtains data ext where "ue_File v = Some data" "ue_Body v \<le> limit"
    "ext_of (DetectContentType (take 512 data)) = Some ext" "name = media_name v ext"
    "fs name = None" "fs' = fs(name \<mapsto> data)"
proof -
  from assms obtain data ext where f: "ue_File v = Some data" "ue_Body v \<le> limit"
    "ext_of (DetectContentType (take 512 data)) = Some ext"
    "storeUploadedMedia v (take 512 data) (drop 512 data) ext fs = (Ok name, fs')"
    by (auto simp: receive_def split: if_splits option.splits)
  with storeUploadedMedia_Ok [OF f(4)] show thesis by (intro that [of data ext]) auto
qed

lemma receive_fails:
  assumes "receive limit m ext_of x v fs = (r, fs')" "\<forall>name. r \<noteq> Ok name"
  shows "(\<forall>n. fs n \<noteq> None \<longrightarrow> fs' n = fs n) \<and> (ue_Remove v \<longrightarrow> fs' = fs)"
  using assms by (auto simp: receive_def dest!: storeUploadedMedia_fails split: if_splits option.splits)

lemma upload_url_Ok: "upload_url p = (Ok url, fs') \<longleftrightarrow> (\<exists>name. p = (Ok name, fs') \<and> url = ''/uploads/'' @ name)"
  by (cases p rule: upload_url.cases) auto

lemma upload_url_fails: "upload_url p = (r, fs') \<Longrightarrow> \<forall>url. r \<noteq> Ok url \<Longrightarrow> p = (r, fs')"
  by (cases p rule: upload_url.cases) auto

text \<open>An upload is a seller's; the whole file is stored under a new name made of digits, letters, dash and dot, and the
  rest of the directory stays.\<close>

theorem upload_stored:
  assumes "handleUpload cf user v fs = (Ok url, fs')"
  obtains u data name ext where "user = Some u" "requireSeller (cf_SellerKey cf) u" "ue_File v = Some data"
    "imageExt (DetectContentType (take 512 data)) = Some ext"
    "url = ''/uploads/'' @ name" "fs name = None" "fs' = fs(name \<mapsto> data)" "list_all name_char name" "hd name \<noteq> CHR ''.''"
proof -
  from assms obtain u name where u: "user = Some u" "requireSeller (cf_SellerKey cf) u"
    "receive_image v fs = (Ok name, fs')" "url = ''/uploads/'' @ name"
    by (auto simp: handleUpload_def upload_url_Ok unauthorized_def split: option.splits if_splits)
  from u(3) obtain data ext where f: "ue_File v = Some data" "imageExt (DetectContentType (take 512 data)) = Some ext"
    "name = media_name v ext" "fs name = None" "fs' = fs(name \<mapsto> data)"
    unfolding receive_image_def by (rule receive_Ok)
  have "list_all name_char name" using f(2,3) media_name_ok by (auto simp: list_all_iff)
  moreover have "hd name \<noteq> CHR ''.''" using f(3) media_name_hd by simp
  ultimately show thesis using u f by (intro that [of u data ext name]) simp_all
qed

theorem upload_refused:
  assumes "handleUpload cf user v fs = (r, fs')" "\<forall>url. r \<noteq> Ok url"
  shows "(\<forall>n. fs n \<noteq> None \<longrightarrow> fs' n = fs n) \<and> (ue_Remove v \<longrightarrow> fs' = fs)"
  using assms
  by (auto simp: handleUpload_def receive_image_def split: option.splits if_splits
      dest!: upload_url_fails dest: receive_fails)

section \<open>No markup is stored\<close>

lemma exactSig_hd: "exactSig sig d \<Longrightarrow> sig \<noteq> [] \<Longrightarrow> d \<noteq> [] \<and> hd d = hd sig"
  unfolding exactSig_def by (cases d; cases sig) auto

lemma be32_hd: "d \<noteq> [] \<Longrightarrow> unat (hd d) * 2 ^ 24 \<le> be32 d"
  by (simp add: be32_def hd_conv_nth)

text \<open>The first byte of what passes: no blank, no \<^verbatim>\<open><\<close>.\<close>

lemma image_first_byte:
  assumes "imageExt (DetectContentType b) = Some ext"
  shows "b \<noteq> [] \<and> hd b \<in> {0x47, 0x52, 0x89, 0xFF}"
proof -
  let ?d = "take 512 b"
  have "webpSig ?d \<Longrightarrow> exactSig (ascii ''RIFF'') ?d" by (simp add: webpSig_def exactSig_def ascii_def eval_nat_numeral)
  with assms have "\<exists>sig\<in>{ascii ''GIF87a'', ascii ''GIF89a'', ascii ''RIFF'',
      [0x89, 0x50, 0x4E, 0x47, 0x0D, 0x0A, 0x1A, 0x0A], [0xFF, 0xD8, 0xFF]}. exactSig sig ?d"
    by (auto simp: imageExt_def DetectContentType_def Let_def split: if_splits)
  then have "?d \<noteq> [] \<and> hd ?d \<in> {0x47, 0x52, 0x89, 0xFF}"
    by (auto dest!: exactSig_hd simp: ascii_def of_char_def)
  then show ?thesis by (simp add: hd_take)
qed

lemma video_first_byte:
  assumes "videoExt (DetectContentType b) = Some ext"
  shows "b \<noteq> [] \<and> hd b \<in> {0, 0x1A}"
proof -
  let ?d = "take 512 b"
  have "mp4Sig ?d \<or> exactSig [0x1A, 0x45, 0xDF, 0xA3] ?d"
    using assms by (auto simp: videoExt_def DetectContentType_def Let_def split: if_splits)
  then have "?d \<noteq> [] \<and> hd ?d \<in> {0, 0x1A}"
  proof
    assume m: "mp4Sig ?d"
    then have ne: "?d \<noteq> []" and "be32 ?d \<le> 512" by (auto simp: mp4Sig_def)
    with be32_hd [OF ne] have "unat (hd ?d) = 0" by simp
    then show ?thesis using ne by (simp add: unat_eq_0)
  qed (auto dest!: exactSig_hd)
  then show ?thesis by (simp add: hd_take)
qed

text \<open>One upload, whatever happens: a new picture of a seller, or a directory as it was.\<close>

definition picture_stored :: "api_config \<Rightarrow> uid option \<Rightarrow> upload_env \<Rightarrow> upload_dir \<Rightarrow> string \<Rightarrow> upload_dir \<Rightarrow> bool" where
  "picture_stored cf user v fs url fs' \<longleftrightarrow>
     (\<exists>u data name. user = Some u \<and> requireSeller (cf_SellerKey cf) u \<and> ue_File v = Some data
        \<and> hd data \<in> {0x47, 0x52, 0x89, 0xFF} \<and> url = ''/uploads/'' @ name \<and> fs name = None \<and> fs' = fs(name \<mapsto> data)
        \<and> list_all name_char name \<and> hd name \<noteq> CHR ''.'')"

lemma upload_outcome:
  assumes "handleUpload cf user v fs = (r, fs')"
  shows "case r of Ok url \<Rightarrow> picture_stored cf user v fs url fs'
    | _ \<Rightarrow> (\<forall>n. fs n \<noteq> None \<longrightarrow> fs' n = fs n) \<and> (ue_Remove v \<longrightarrow> fs' = fs)"
proof (cases "\<exists>url. r = Ok url")
  case True
  then obtain url where r: "r = Ok url" by blast
  obtain u data name ext where u: "user = Some u" "requireSeller (cf_SellerKey cf) u" "ue_File v = Some data"
    "imageExt (DetectContentType (take 512 data)) = Some ext" "url = ''/uploads/'' @ name" "fs name = None"
    "fs' = fs(name \<mapsto> data)" "list_all name_char name" "hd name \<noteq> CHR ''.''"
    using upload_stored [OF assms [unfolded r]] by metis
  from image_first_byte [OF u(4)] have "hd data \<in> {0x47, 0x52, 0x89, 0xFF}" by (simp add: hd_take)
  with u r show ?thesis by (auto simp: picture_stored_def)
next
  case False
  with upload_refused [OF assms] show ?thesis by (cases r) auto
qed

section \<open>The clip of one auction\<close>

theorem stream_video_set:
  assumes "handleUploadStreamVideo e user aid v (d, fs) = (Ok url, d', fs')"
  obtains a rules data name where "auction_by aid d = Some a" "user = Some (ar_seller a)"
    "auction_rules d aid = Some rules" "ue_File v = Some data"
    "url = ''/uploads/'' @ name" "fs name = None" "fs' = fs(name \<mapsto> data)"
    "d' = d\<lparr>auction_rules := (auction_rules d)(aid \<mapsto> rules\<lparr>LivePlayUrl := url\<rparr>)\<rparr>"
proof -
  from assms obtain u a name d1 where u: "user = Some u" "ownsAuction (ae_db e 0) aid u d = Ok a"
    "receive_video v fs = (Ok name, fs')" "url = ''/uploads/'' @ name"
    "SetLivePlayURL (ae_db e 1) aid url d = (None, d')"
    by (auto simp: handleUploadStreamVideo_def unauthorized_def Let_def
        split: option.splits if_splits resp.splits prod.splits)
  from u(3) obtain data where f: "ue_File v = Some data" "fs name = None" "fs' = fs(name \<mapsto> data)"
    unfolding receive_video_def by (rule receive_Ok)
  from u(5) obtain rules where "auction_rules d aid = Some rules"
    "d' = d\<lparr>auction_rules := (auction_rules d)(aid \<mapsto> rules\<lparr>LivePlayUrl := url\<rparr>)\<rparr>"
    by (auto simp: SetLivePlayURL_def split: if_splits option.splits)
  with u f show thesis by (intro that [of a rules data name]) (auto simp: owns_Ok)
qed

text \<open>A request that fails changes no rule, and leaves no file when the removal works.\<close>

theorem stream_video_refused:
  assumes "handleUploadStreamVideo e user aid v (d, fs) = (r, d', fs')" "\<forall>url. r \<noteq> Ok url"
  shows "d' = d \<and> (\<forall>n. fs n \<noteq> None \<longrightarrow> fs' n = fs n) \<and> (ue_Remove v \<longrightarrow> fs' = fs)"
proof -
  have keep: "SetLivePlayURL up aid url d = (Some x, d1) \<Longrightarrow> d1 = d" for up url x d1
    by (auto simp: SetLivePlayURL_def split: if_splits option.splits)
  have removed: "(\<forall>n. fs n \<noteq> None \<longrightarrow> remove_file v name fs1 n = fs n) \<and> (ue_Remove v \<longrightarrow> remove_file v name fs1 = fs)"
    if "receive_video v fs = (Ok name, fs1)" for name fs1
    using that unfolding receive_video_def by (rule receive_Ok) (auto simp: remove_file_def fun_eq_iff)
  have failed: "(\<forall>n. fs n \<noteq> None \<longrightarrow> fs1 n = fs n) \<and> (ue_Remove v \<longrightarrow> fs1 = fs)"
    if "receive_video v fs = (r1, fs1)" "\<forall>n. r1 \<noteq> Ok n" for r1 fs1
    using receive_fails that unfolding receive_video_def by blast
  obtain r1 fs1 where rv: "receive_video v fs = (r1, fs1)" by fastforce
  show ?thesis
  proof (cases "\<exists>name. r1 = Ok name")
    case True
    then obtain name where "r1 = Ok name" by blast
    with rv removed keep assms show ?thesis
      by (auto simp: handleUploadStreamVideo_def unauthorized_def Let_def
          split: option.splits if_splits resp.splits prod.splits)
  next
    case False
    with failed [OF rv] assms rv show ?thesis
      by (cases r1) (auto simp: handleUploadStreamVideo_def unauthorized_def
          split: option.splits resp.splits prod.splits)
  qed
qed

text \<open>The cap is on the request: a picture larger than the 5 MiB of the form's text passes.\<close>

definition png_head :: bytes where "png_head = [0x89, 0x50, 0x4E, 0x47, 0x0D, 0x0A, 0x1A, 0x0A]"

theorem over_the_cap:
  assumes "data = png_head @ replicate (5 * 2 ^ 20) 0" "ue_File v = Some data" "ue_Body v = int (length data) + 200"
    "\<not> ue_HeadFails v" "ue_Mkdir v" "ue_Open v" "ue_CopyFails v = None" "fs (media_name v ''.png'') = None"
  shows "int (length data) > maxUploadBytes \<and> fst (receive_image v fs) = Ok (media_name v ''.png'')"
proof -
  have "exactSig [0x89, 0x50, 0x4E, 0x47, 0x0D, 0x0A, 0x1A, 0x0A] (take 512 data)"
    "\<not> exactSig [0, 0, 1, 0] (take 512 data)" "\<not> exactSig [0, 0, 2, 0] (take 512 data)"
    "\<not> exactSig (ascii ''GIF87a'') (take 512 data)" "\<not> exactSig (ascii ''GIF89a'') (take 512 data)" "\<not> webpSig (take 512 data)"
    by (simp_all add: assms(1) exactSig_def webpSig_def png_head_def ascii_def of_char_def)
  then have "DetectContentType (take 512 data) = ''image/png''" by (simp add: DetectContentType_def)
  moreover have "length data = 5 * 2 ^ 20 + 8" by (simp add: assms(1) png_head_def)
  ultimately show ?thesis
    using assms(2-) by (simp add: receive_image_def receive_def imageExt_def storeUploadedMedia_def Let_def maxUploadBytes_def)
qed

end
