(* ===== verification/Scenario.thy ===== *)
theory Scenario
  imports Join Timer Verify ApiLifecycle ApiReads CacheSound Gateway Upload
begin

text \<open>
  A small auction in every state, to instantiate the theorems: two bidders, a seller, prices
  in cents and Redis times in seconds.
\<close>

section \<open>The states\<close>

fun exec_all :: "(cmd \<times> int \<times> int) list \<Rightarrow> akeys \<Rightarrow> akeys" where
  "exec_all [] k = k"
| "exec_all ((c, t) # cs) k = exec_all cs (snd (exec c t k))"

lemma exec_all_runs: "exec_all cs k = engine.runs cs k"
  by (induction cs k rule: exec_all.induct) auto

definition demo_rules :: "mode \<Rightarrow> Rules" where
  "demo_rules m = \<lparr>Mode = m, StartPriceCents = 100, IncrementCents = 10, CapPriceCents = 1000,
     DurationSec = 60, ExtendWindowSec = 10, ExtendSec = 5, MaxExtensions = 2,
     LivePlayUrl = [], LiveStreamKey = []\<rparr>"

definition demo_freeze :: "mode \<Rightarrow> cmd" where
  "demo_freeze m = CFreeze \<lparr>fr_rules = demo_rules m, fr_sellerId = ''s''\<rparr>"

definition demo_bid :: "uid \<Rightarrow> bidid \<Rightarrow> money \<Rightarrow> bid_args" where
  "demo_bid u c a = \<lparr>ba_userId = u, ba_clientBidId = c, ba_amountStr = a, ba_displayName = u\<rparr>"

definition demo_script :: "mode \<Rightarrow> (cmd \<times> int \<times> int) list" where
  "demo_script m = [(demo_freeze m, (0, 0)), (CStart 60000, (0, 0))]"

text \<open>The same states as literals, so that evaluation starts from them.\<close>

definition demo_hash :: "mode \<Rightarrow> room_hash" where
  "demo_hash m = \<lparr>h_status = Some LIVE, h_mode = m, h_startPriceCents = ''100'',
     h_currentPriceCents = Some ''100'', h_incrementCents = ''10'', h_capPriceCents = ''1000'',
     h_extendWindowSec = 10, h_extendSec = 5, h_maxExtensions = 2, h_extendCount = 0,
     h_winnerId = [], h_winnerDisplayName = [], h_sellerId = ''s'', h_seq = 0, h_bidCount = 0,
     h_endAtMs = 60000, h_paused = False, h_suppressUntilMs = 0, h_errInternalReason = [],
     h_errInternalAtMs = 0\<rparr>"

definition demo_live :: "mode \<Rightarrow> akeys" where
  "demo_live m = empty_keys\<lparr>k_state := Present (demo_hash m)\<rparr>"

definition demo_payload :: json where
  "demo_payload = bid_json 1 ''u'' ''u'' ''150'' 60000 LIVE 1 1000"

definition demo_one :: akeys where
  "demo_one = empty_keys
     \<lparr>k_state := Present ((demo_hash ENGLISH)\<lparr>h_currentPriceCents := Some ''150'', h_winnerId := ''u'', h_seq := 1, h_bidCount := 1\<rparr>),
      k_leaderboard := Present [(''u'', 150)],
      k_events := Present [seq_entry 1 BID_ACCEPTED demo_payload],
      k_dedupe := (k_dedupe empty_keys)(''u'' := Present \<lparr>d_acks = [''c1'' \<mapsto> demo_payload], d_expireAt = Some 86401000\<rparr>),
      k_pub := [(BID_ACCEPTED, 1, demo_payload)]\<rparr>"

lemma demo_text [simp]: "FormatInt 100 = ''100''" "FormatInt 10 = ''10''" "FormatInt 1000 = ''1000''" "FormatInt 150 = ''150''"
  by code_simp+

lemma demo_number [simp]: "tonumber ''100'' = Some 100" "tonumber ''10'' = Some 10" "tonumber ''1000'' = Some 1000" "tonumber ''150'' = Some 150" "tonumber ''400'' = Some 400"
  by (simp_all add: tonumber_def is_digit_def digit_of_def)

lemma demo_nums [simp]: "num0 ''100'' = 100" "num0 ''10'' = 10" "num0 ''1000'' = 1000" "num0 ''150'' = 150" "num0 ''400'' = 400"
  by (simp_all add: num0_def)

lemma demo_live_run: "m \<noteq> ModeEmpty \<Longrightarrow> exec_all (demo_script m) empty_keys = demo_live m"
  by (cases m)
     (simp_all add: demo_script_def demo_freeze_def demo_rules_def freeze_rules_def start_auction_def
        frozen_hash_def empty_keys_def empty_hash_def demo_live_def demo_hash_def redis_now_def set_hash_def Let_def)

lemma demo_one_run: "exec (CBid (demo_bid ''u'' ''c1'' ''150'')) (1, 0) (demo_live ENGLISH)
    = (Reply OK_ACCEPTED [RInt 1, RJson demo_payload], demo_one)"
  by (simp add: demo_bid_def place_bid_def bid_prologue_def bid_keys_bad_def demo_live_def
      empty_keys_def empty_dedupe_def redis_now_def demo_hash_def bid_guard_def MaxMoneyCents_def
      required_bid_def cap_of_def price_num_def commit_bid_def bid_hash_def anti_snipe_def cap_hit_def
      append_event_def xadd_def publish_def set_hash_def cache_ack_def live_dedupe_def dedupe_ms_def id_less_def demo_one_def
      bid_payload_def demo_payload_def newEndAtMs_def raise_score_def zscore_def zadd_def zrem_def seq_entry_def Let_def)

lemma demo_bid_sel [simp]: "ba_userId (demo_bid u c a) = u" "ba_clientBidId (demo_bid u c a) = c"
    "ba_amountStr (demo_bid u c a) = a" "ba_displayName (demo_bid u c a) = u"
  by (simp_all add: demo_bid_def)

section \<open>They are reachable\<close>

lemma demo_live_reachable: "m \<noteq> ModeEmpty \<Longrightarrow> reachable (demo_live m)"
  using reachable_runs [OF reach_init, of "demo_script m"] by (simp add: exec_all_runs [symmetric] demo_live_run)

lemma demo_live_inv: "m \<noteq> ModeEmpty \<Longrightarrow> room_inv (demo_live m)"
  by (rule reachable_inv [OF demo_live_reachable])

lemma demo_one_inv: "room_inv demo_one"
  using engine.keeps_inv [OF demo_live_inv, of ENGLISH "CBid (demo_bid ''u'' ''c1'' ''150'')" "(1, 0)"]
  by (simp add: demo_one_run del: exec.simps)

lemma asc_exec_all:
  "asc_reachable k \<Longrightarrow> \<forall>(c, t)\<in>set cs. ascending_cmd c \<and> 0 \<le> redis_now t \<Longrightarrow> asc_reachable (exec_all cs k)"
  by (induction cs k rule: exec_all.induct) (auto intro!: asc_exec)

lemma demo_script_asc: "m \<in> {ENGLISH, HYBRID_REVEAL} \<Longrightarrow> \<forall>(c, t)\<in>set (demo_script m). ascending_cmd c \<and> 0 \<le> redis_now t"
  by (auto simp: demo_script_def demo_freeze_def demo_rules_def Validate_def MaxMoneyCents_def redis_now_def)

lemma demo_live_asc:
  assumes "m \<in> {ENGLISH, HYBRID_REVEAL}"
  shows "asc_reachable (demo_live m)"
proof -
  have "m \<noteq> ModeEmpty" using assms by auto
  with asc_exec_all [OF asc_init demo_script_asc [OF assms]] show ?thesis by (simp add: demo_live_run)
qed

lemma demo_one_asc: "asc_reachable demo_one"
proof -
  have "ascending_cmd (CBid (demo_bid ''u'' ''c1'' ''150''))" "0 \<le> redis_now (1, 0)"
    by (simp_all add: demo_bid_def redis_now_def)
  from asc_exec [OF demo_live_asc this, of ENGLISH] show ?thesis by (simp add: demo_one_run del: exec.simps)
qed

lemma demo_keys_good [simp]: "keys_good (demo_live m)" "keys_good demo_one"
  by (simp_all add: keys_good_def demo_live_def demo_one_def empty_keys_def)

lemma demo_readable: "readable demo_one" "m \<noteq> ModeEmpty \<Longrightarrow> readable (demo_live m)"
  using demo_one_inv demo_live_inv [of m]
  by (simp_all add: readable_def) (simp_all add: demo_one_def demo_live_def empty_keys_def)

lemma demo_hash_of [simp]: "hash_of (demo_live m) = demo_hash m" "events_of (demo_live m) = []"
    "events_of demo_one = [seq_entry 1 BID_ACCEPTED demo_payload]"
    "hash_of demo_one = (demo_hash ENGLISH)\<lparr>h_currentPriceCents := Some ''150'', h_winnerId := ''u'', h_seq := 1, h_bidCount := 1\<rparr>"
  by (simp_all add: demo_live_def demo_one_def empty_keys_def)

section \<open>Both stores\<close>

definition demo_redis :: "akeys \<Rightarrow> redis" where
  "demo_redis k = \<lparr>rd_keys = (\<lambda>a. if a = ''a'' then k else empty_keys), rd_active = [(''a'', 60000)]\<rparr>"

definition demo_env :: api_env where
  "demo_env = \<lparr>ae_db = (\<lambda>i. True), ae_redis = (\<lambda>i. Answered), ae_lock = True, ae_now = 1, ae_time = (1, 0),
     ae_purge = \<lparr>pc_zrem = True, pc_pages = [Some [KState, KLeaderboard], Some [KEvents, KDedupe ''u'']], pc_del = True\<rparr>\<rparr>"

definition demo_db :: "auction_state \<Rightarrow> mode \<Rightarrow> event_row list \<Rightarrow> db" where
  "demo_db st m rows = \<lparr>users = [], products = [\<lparr>pr_id = ''p'', pr_seller = ''s'', pr_name = ''n'', pr_image = [], pr_description = []\<rparr>],
     auctions = [\<lparr>ar_id = ''a'', ar_product = ''p'', ar_seller = ''s'', ar_status = st, ar_price = 100, ar_winner = [],
       ar_factsConfirmed = True, ar_facts = [], ar_parent = [], ar_created = 0, ar_updated = 0\<rparr>],
     auction_rules = [''a'' \<mapsto> demo_rules m], orders = [], coin_ledger = [],
     auction_events = (\<lambda>i. if i = ''a'' then rows else []), chain_cache = Map.empty\<rparr>"

definition demo_hasher :: hasher where
  "demo_hasher = \<lparr>mac = (\<lambda>k m. CHR ''h'' # map (\<lambda>c. if c = newline then CHR ''n'' else c) m),
     json_text = (\<lambda>j. ''{}''), cur_ver = 1, cur_key = ''k''\<rparr>"

definition demo_lookup :: "int \<Rightarrow> key option" where
  "demo_lookup v = (if v = 1 then Some ''k'' else None)"

lemma demo_proper: "proper demo_hasher demo_lookup"
  by (simp add: proper_def demo_hasher_def demo_lookup_def)

definition demo_row :: event_row where
  "demo_row = chained_row demo_hasher 1 [] (new_row 1 BID_ACCEPTED demo_payload 1)"

lemma demo_chain: "\<exists>h. chain demo_hasher demo_lookup [demo_row] h"
  using InsertEvent_next(2) [of demo_hasher demo_lookup "[]" "[]" 1 demo_payload 1 BID_ACCEPTED] demo_proper
  by (auto simp: chain_def demo_row_def demo_payload_def bid_json_def)

lemma demo_projected: "projected demo_hasher demo_lookup ''a'' (events_of demo_one) 1 (demo_db LIVE ENGLISH [demo_row])"
  using demo_chain
  by (auto intro!: projectedI simp: demo_db_def demo_row_def chained_row_def new_row_def row_data_def entry_data_def
      seq_entry_def auction_by_def)

lemma demo_close_ready: "m \<noteq> ModeEmpty \<Longrightarrow> close_ready (61, 0) (demo_live m)"
  using demo_live_inv [of m] demo_keys_good(1) [of m]
  by (simp add: close_ready_def keys_good_def demo_hash_def redis_now_def)

lemma demo_hybrid_accepts:
  "reply_code (fst (place_bid_hybrid (demo_bid ''u'' ''c1'' ''150'') (1, 0) (demo_live HYBRID_REVEAL))) = Some OK_ACCEPTED"
  "reply_code (fst (place_bid_hybrid (demo_bid ''v'' ''c2'' ''400'') (1, 0) (demo_live HYBRID_REVEAL))) = Some OK_ACCEPTED"
  by code_simp+

definition demo_close_env :: "int \<times> int \<Rightarrow> close_env" where
  "demo_close_env t = \<lparr>ce_snap = Answered, ce_mode = Answered, ce_script = Answered, ce_clock = Answered,
     ce_mark = Answered, ce_index = Answered, ce_time = t, ce_wallMs = 0\<rparr>"

definition demo_reconcile :: reconcile_env where
  "demo_reconcile = \<lparr>re_clock = Answered, re_time = (1, 0), re_wallMs = 0,
     re_snap = (\<lambda>a. Answered), re_supp = (\<lambda>a. Answered), re_track = (\<lambda>a. Answered)\<rparr>"

section \<open>The gateway\<close>

definition demo_conn :: ws_conn where
  "demo_conn = \<lparr>cn_id = 1, cn_userID = ''v'', cn_displayName = ''v'', cn_aid = ''a''\<rparr>"

definition demo_bid_env :: bid_env where
  "demo_bid_env = \<lparr>be_wall = 1000, be_redis = (1, 0), be_precheck = Answered, be_script = Answered, be_errText = []\<rparr>"

definition demo_place :: BidPlaceData where
  "demo_place = \<lparr>bp_ClientBidID = ''c2'', bp_AmountCents = ''150''\<rparr>"

definition demo_metrics :: gw_metrics where
  "demo_metrics = \<lparr>gm_BidsAccepted = 0, gm_BidsRejected = 0, gm_BidsRejectedFastPath = 0\<rparr>"

text \<open>A hub that has seen the one bid.\<close>

definition demo_hub :: hub where
  "demo_hub = updateRoomStateFromEvent ''a'' (event_of (seq_entry 1 BID_ACCEPTED demo_payload)) newHub"

lemma demo_hub_fed: "fed demo_one ''a'' demo_hub"
  unfolding demo_hub_def by (rule fed_event [OF fed_new]) simp

definition demo_socket :: "nat socket" where
  "demo_socket = \<lparr>so_size = (\<lambda>f. 10), so_takes = (\<lambda>w. True)\<rparr>"

definition demo_fan :: fan where
  "demo_fan = \<lparr>fa_hub = newHub, fa_patch = newCoalescer \<lparr>pc_intervalMs = 0, pc_minViewers = 0\<rparr>,
     fa_lastSeq = Map.empty, fa_seqGap = 0, fa_out = []\<rparr>"

definition demo_join :: join_env where
  "demo_join = \<lparr>je_fuel = 2, je_cap = 512, je_snapshot = Answered, je_read = Answered, je_wall = 5, je_boost = 0, je_likes = 0\<rparr>"

section \<open>Requests\<close>

definition demo_config :: api_config where
  "demo_config = \<lparr>cf_SellerKey = ''sk'', cf_JWTSecret = ''jw'', cf_EnableDevLogin = True, cf_LivePushURLBase = [], cf_LivePlayURLBase = []\<rparr>"

definition demo_order :: order_row where
  "demo_order = \<lparr>or_id = ''ord_a'', or_auction = ''a'', or_product = ''p'', or_buyer = ''u'', or_amount = 150, or_status = OCreated\<rparr>"

definition demo_sold_db :: db where
  "demo_sold_db = (demo_db SOLD ENGLISH [])\<lparr>orders := [demo_order]\<rparr>"

text \<open>Frozen, not yet started.\<close>

definition demo_scheduled :: akeys where
  "demo_scheduled = empty_keys\<lparr>k_state := Present ((demo_hash ENGLISH)\<lparr>h_status := Some SCHEDULED, h_endAtMs := 0\<rparr>)\<rparr>"

lemma demo_scheduled_run: "exec_all [(demo_freeze ENGLISH, (0, 0))] empty_keys = demo_scheduled"
  by (simp add: demo_freeze_def demo_rules_def freeze_rules_def
        frozen_hash_def empty_keys_def empty_hash_def demo_scheduled_def demo_hash_def redis_now_def set_hash_def Let_def)

lemma demo_scheduled_inv: "room_inv demo_scheduled"
  using reachable_inv [OF reachable_runs [OF reach_init, of "[(demo_freeze ENGLISH, (0, 0))]"]]
  by (simp only: exec_all_runs [symmetric] demo_scheduled_run)

lemma demo_race:
  "let s0 = (demo_db SCHEDULED ENGLISH [], demo_redis demo_scheduled);
       s1 = start_script demo_env (Some ''s'') ''a'' (Some 60000) s0;
       s2 = handleCancel demo_env (Some ''s'') ''a'' (snd s1);
       s3 = start_project demo_env ''a'' 61000 (snd s2)
   in fst s1 = Ok 61000 \<and> fst s2 = Ok OK_CANCELLED \<and> fst s3 = Ok 61000"
  by code_simp

lemma demo_deletes:
  "case fst (handleDeleteAuction demo_env (Some ''s'') ''a'' (demo_sold_db, demo_redis demo_one)) of Ok x \<Rightarrow> True | _ \<Rightarrow> False"
  by code_simp

section \<open>Sold and projected\<close>

definition demo_sold :: akeys where
  "demo_sold = snd (close_auction () (61, 0) demo_one)"

lemma demo_sold_asc: "asc_reachable demo_sold"
  using asc_exec [OF demo_one_asc, of CClose "(61, 0)"] by (simp add: demo_sold_def redis_now_def)

lemma demo_sold_facts:
  "h_status (hash_of demo_sold) = Some SOLD" "\<forall>e\<in>set (events_of demo_sold). settles e" "h_winnerId (hash_of demo_sold) = ''u''"
  "\<not> bad_type (k_events demo_sold)" "length (events_of demo_sold) = 2"
  by code_simp+

text \<open>A worker that has seen none of it yet.\<close>

definition demo_worker :: worker where
  "demo_worker = \<lparr>w_cursor = (\<lambda>a. []), w_db = demo_db LIVE ENGLISH []\<rparr>"

lemma demo_sold_readable: "readable demo_sold"
  using asc_inv [OF demo_sold_asc] demo_sold_facts(4,5) by (simp add: readable_def)

lemma demo_worker_facts:
  "worker_ok demo_hasher demo_lookup ''a'' (events_of demo_sold) demo_worker"
  "length (events_of demo_sold) < 3" "order_by ''a'' (w_db demo_worker) = None" "\<not> all_pay ''a'' (w_db demo_worker)"
  "w_cursor demo_worker ''a'' \<noteq> position (length (events_of demo_sold))"
proof -
  show "worker_ok demo_hasher demo_lookup ''a'' (events_of demo_sold) demo_worker"
    unfolding worker_ok_def demo_worker_def
    by (rule exI [of _ 0], rule exI [of _ 0]) (simp add: position_def projected_def demo_db_def auction_by_def chain_def)
qed (simp_all add: demo_sold_facts(5) demo_worker_def demo_db_def order_by_def all_pay_def demo_rules_def position_def id_str_def)

text \<open>A bid to a sealed auction from a gateway without the mode, and the sealed close after it.\<close>

lemma demo_cold: "close_ready (61, 0) (rd_keys (snd (route_bid (rs_mode (roomStateSnap newHub ''a'')) Answered (1, 0) ''a''
      (demo_bid ''u'' ''c1'' ''150'') (demo_redis (demo_live VICKREY)))) ''a'')"
proof -
  let ?k = "snd (place_bid (demo_bid ''u'' ''c1'' ''150'') (1, 0) (demo_live VICKREY))"
  have "rs_mode (roomStateSnap newHub ''a'') = ModeEmpty" by (simp add: cold_def)
  note route = cold_cache_routes_english [OF this, of Answered "(1, 0)" "demo_bid ''u'' ''c1'' ''150''" "demo_redis (demo_live VICKREY)"]
  have "rd_keys (snd (PlaceBid Answered (1, 0) ''a'' (demo_bid ''u'' ''c1'' ''150'') (demo_redis (demo_live VICKREY)))) ''a'' = ?k"
    using PlaceBid_keys [OF surjective_pairing, of "(1, 0)" "''a''" "demo_bid ''u'' ''c1'' ''150''" "demo_redis (demo_live VICKREY)"]
    by (simp add: demo_redis_def)
  moreover have "room_inv ?k"
    using engine.keeps_inv [OF demo_live_inv, of VICKREY "CBid (demo_bid ''u'' ''c1'' ''150'')" "(1, 0)"] by simp
  moreover have "\<not> bad_type (k_state ?k) \<and> \<not> bad_type (k_events ?k) \<and> \<not> bad_type (k_sealed ?k) \<and> \<not> bad_type (k_sealednames ?k)
      \<and> \<not> bad_type (k_leaderboard ?k) \<and> h_status (hash_of ?k) = Some LIVE \<and> h_endAtMs (hash_of ?k) \<le> 61000"
    by code_simp
  ultimately show ?thesis unfolding route by (simp only: close_ready_def redis_now_def) simp
qed

section \<open>A connection, an upload\<close>

text \<open>Another connection arrives, this one pings, sends rubbish and goes.\<close>

definition demo_ws :: ws_env where
  "demo_ws = \<lparr>we_wall = 5, we_join = demo_join, we_bid = demo_bid_env, we_later = id\<rparr>"

definition demo_items :: "ws_item list" where
  "demo_items = [World id id 1 id, Own demo_ws (Inbound 2 InPing), Own demo_ws BadJson, Own demo_ws ReadError]"

definition demo_upgrade :: upgrade_env where
  "demo_upgrade = \<lparr>up_origin = [], up_FrontendOrigin = [], up_JWTSecret = ''jw'', up_token = ''u.u'', up_maxWSConns = 9,
     up_upgrades = True, up_flushes = True, up_nickname = True, up_id = 7\<rparr>"

definition demo_gw :: gw where
  "demo_gw = \<lparr>gw_hub = newHub, gw_redis = demo_redis (demo_live ENGLISH), gw_metrics = demo_metrics, gw_conns = Some (3, 0)\<rparr>"

definition demo_upload :: upload_env where
  "demo_upload = \<lparr>ue_Body = 100, ue_File = Some [], ue_HeadFails = False, ue_Mkdir = True, ue_Open = True, ue_CopyFails = None,
     ue_Remove = True, ue_NowMs = 5, ue_Rand = Some [1, 2], ue_Nanos = 0\<rparr>"

end
