(* ===== verification/Regex.thy ===== *)
theory Regex
  imports Prelude
begin

text \<open>
  The part of Go's regexp package that the text guards use: a search for a match anywhere in a
  text of code points. Patterns are built from character classes, concatenation,
  alternatives, repetition and the ASCII word boundary. \<open>ends\<close> computes where a match from a position can
  end; \<open>matches\<close> is the usual definition, and the two agree.
\<close>

type_synonym rune = int

definition runes :: "string \<Rightarrow> rune list" where
  "runes s = map of_char s"

datatype re = Eps | Cls "rune \<Rightarrow> bool" | Cat re re | Alt re re | Star re | WordEdge

definition word_rune :: "rune \<Rightarrow> bool" where
  "word_rune c \<longleftrightarrow> 48 \<le> c \<and> c \<le> 57 \<or> 65 \<le> c \<and> c \<le> 90 \<or> 97 \<le> c \<and> c \<le> 122 \<or> c = 95"

definition word_edge :: "rune list \<Rightarrow> nat \<Rightarrow> bool" where
  "word_edge s i \<longleftrightarrow>
     (0 < i \<and> i \<le> length s \<and> word_rune (s ! (i - 1))) \<noteq> (i < length s \<and> word_rune (s ! i))"

section \<open>Where a match can end\<close>

fun star_ends :: "(nat \<Rightarrow> nat list) \<Rightarrow> nat \<Rightarrow> nat list \<Rightarrow> nat list" where
  "star_ends f 0 xs = xs"
| "star_ends f (Suc n) xs =
     (let ys = filter (\<lambda>y. y \<notin> set xs) (remdups (concat (map f xs)))
      in if ys = [] then xs else star_ends f n (xs @ ys))"

fun ends :: "re \<Rightarrow> rune list \<Rightarrow> nat \<Rightarrow> nat list" where
  "ends Eps s i = [i]"
| "ends (Cls p) s i = (if i < length s \<and> p (s ! i) then [i + 1] else [])"
| "ends (Cat a b) s i = concat (map (ends b s) (ends a s i))"
| "ends (Alt a b) s i = ends a s i @ ends b s i"
| "ends (Star a) s i = star_ends (ends a s) (length s) [i]"
| "ends WordEdge s i = (if word_edge s i then [i] else [])"

definition MatchString :: "re \<Rightarrow> rune list \<Rightarrow> bool" where
  "MatchString r s \<longleftrightarrow> list_ex (\<lambda>i. ends r s i \<noteq> []) [0..<length s + 1]"

text \<open>The forms the patterns are written in.\<close>

definition plus_re :: "re \<Rightarrow> re" where "plus_re r = Cat r (Star r)"
definition opt_re :: "re \<Rightarrow> re" where "opt_re r = Alt r Eps"

fun times_re :: "nat \<Rightarrow> re \<Rightarrow> re" where
  "times_re 0 r = Eps"
| "times_re (Suc n) r = Cat r (times_re n r)"

fun seq_re :: "re list \<Rightarrow> re" where
  "seq_re [] = Eps"
| "seq_re [r] = r"
| "seq_re (r # rs) = Cat r (seq_re rs)"

fun alts_re :: "re list \<Rightarrow> re" where
  "alts_re [] = Cls (\<lambda>c. False)"
| "alts_re [r] = r"
| "alts_re (r # rs) = Alt r (alts_re rs)"

definition lit_re :: "string \<Rightarrow> re" where
  "lit_re w = seq_re (map (\<lambda>c. Cls (\<lambda>x. x = c)) (runes w))"

text \<open>Case folding of a lower-case ASCII letter; two letters have a third form.\<close>

definition fold_rune :: "rune \<Rightarrow> rune \<Rightarrow> bool" where
  "fold_rune c x \<longleftrightarrow> x = c \<or> 97 \<le> c \<and> c \<le> 122 \<and> (x = c - 32 \<or> c = 115 \<and> x = 383 \<or> c = 107 \<and> x = 8490)"

definition folded_re :: "string \<Rightarrow> re" where
  "folded_re w = seq_re (map (\<lambda>c. Cls (fold_rune c)) (runes w))"

definition digit_re :: re where "digit_re = Cls (\<lambda>c. 48 \<le> c \<and> c \<le> 57)"
definition space_rune :: "rune \<Rightarrow> bool" where "space_rune c \<longleftrightarrow> c \<in> {9, 10, 12, 13, 32}"

section \<open>The definition of matching\<close>

inductive matches :: "rune list \<Rightarrow> re \<Rightarrow> nat \<Rightarrow> nat \<Rightarrow> bool" for s where
  m_eps: "matches s Eps i i"
| m_cls: "i < length s \<Longrightarrow> p (s ! i) \<Longrightarrow> matches s (Cls p) i (i + 1)"
| m_cat: "matches s a i j \<Longrightarrow> matches s b j k \<Longrightarrow> matches s (Cat a b) i k"
| m_left: "matches s a i j \<Longrightarrow> matches s (Alt a b) i j"
| m_right: "matches s b i j \<Longrightarrow> matches s (Alt a b) i j"
| m_stop: "matches s (Star a) i i"
| m_more: "matches s a i j \<Longrightarrow> matches s (Star a) j k \<Longrightarrow> matches s (Star a) i k"
| m_edge: "word_edge s i \<Longrightarrow> matches s WordEdge i i"

inductive_simps matches_simps:
  "matches s Eps i j" "matches s (Cls p) i j" "matches s (Cat a b) i j" "matches s (Alt a b) i j"
  "matches s WordEdge i j"

inductive_cases matches_StarE: "matches s (Star a) i j"

lemma matches_bounds: "matches s r i j \<Longrightarrow> i \<le> length s \<Longrightarrow> i \<le> j \<and> j \<le> length s"
  by (induction rule: matches.induct) auto

lemma matches_Star: "matches s (Star a) i j \<longleftrightarrow> (matches s a)\<^sup>*\<^sup>* i j"
proof
  assume "matches s (Star a) i j"
  then show "(matches s a)\<^sup>*\<^sup>* i j"
    by (induction "Star a" i j rule: matches.induct) (auto intro: converse_rtranclp_into_rtranclp)
next
  assume "(matches s a)\<^sup>*\<^sup>* i j"
  then show "matches s (Star a) i j"
    by (induction rule: converse_rtranclp_induct) (auto intro: matches.intros)
qed

section \<open>The search finds exactly the matches\<close>

lemma star_ends_set:
  "j \<in> set (star_ends f n xs) \<longleftrightarrow> (\<exists>i\<in>set xs. \<exists>k\<le>n. ((\<lambda>i j. j \<in> set (f i)) ^^ k) i j)"
proof (induction n arbitrary: xs)
  case (Suc n)
  let ?R = "\<lambda>i j. j \<in> set (f i)"
  have step: "(\<exists>k\<le>Suc n. (?R ^^ k) i j) \<longleftrightarrow> (\<exists>k\<le>n. (?R ^^ k) i j) \<or> (\<exists>h\<in>set (f i). \<exists>k\<le>n. (?R ^^ k) h j)" for i
  proof
    assume "\<exists>k\<le>Suc n. (?R ^^ k) i j"
    then obtain k where k: "k \<le> Suc n" "(?R ^^ k) i j" by blast
    show "(\<exists>k\<le>n. (?R ^^ k) i j) \<or> (\<exists>h\<in>set (f i). \<exists>k\<le>n. (?R ^^ k) h j)"
    proof (cases k)
      case 0
      with k show ?thesis by blast
    next
      case (Suc m)
      with k relpowp_Suc_D2 [of m ?R i j] show ?thesis by blast
    qed
  next
    assume "(\<exists>k\<le>n. (?R ^^ k) i j) \<or> (\<exists>h\<in>set (f i). \<exists>k\<le>n. (?R ^^ k) h j)"
    then show "\<exists>k\<le>Suc n. (?R ^^ k) i j"
      using relpowp_Suc_I2 [of ?R i] by (meson le_SucI Suc_le_mono)
  qed
  let ?ys = "filter (\<lambda>y. y \<notin> set xs) (remdups (concat (map f xs)))"
  have new: "set xs \<union> set ?ys = set xs \<union> (\<Union>i\<in>set xs. set (f i))" by auto
  show ?case
  proof (cases "?ys = []")
    case True
    then have closed: "h \<in> set xs" if "i \<in> set xs" "h \<in> set (f i)" for i h using that new by auto
    have "h \<in> set xs" if "(?R ^^ k) i h" "i \<in> set xs" for i h k
      using that by (induction k arbitrary: h) (auto intro: closed)
    moreover have "(?R ^^ 0) j j" by simp
    ultimately have "(\<exists>i\<in>set xs. \<exists>k\<le>Suc n. (?R ^^ k) i j) \<longleftrightarrow> j \<in> set xs"
      by (metis zero_le)
    with True show ?thesis by (simp add: Let_def)
  next
    case False
    then have "j \<in> set (star_ends f (Suc n) xs) \<longleftrightarrow> (\<exists>i\<in>set xs \<union> set ?ys. \<exists>k\<le>n. (?R ^^ k) i j)"
      by (simp add: Let_def Suc.IH)
    also have "\<dots> \<longleftrightarrow> (\<exists>i\<in>set xs. (\<exists>k\<le>n. (?R ^^ k) i j) \<or> (\<exists>h\<in>set (f i). \<exists>k\<le>n. (?R ^^ k) h j))"
      unfolding new by blast
    finally show ?thesis by (simp only: step)
  qed
qed auto

lemma short_chain:
  assumes "R\<^sup>*\<^sup>* i j" "i \<le> (n :: nat)" "\<And>a b. R a b \<Longrightarrow> a \<le> n \<Longrightarrow> a \<le> b \<and> b \<le> n"
  shows "j \<le> n \<and> (\<exists>k. k + i \<le> j \<and> (R ^^ k) i j)"
  using assms(1)
proof (induction rule: rtranclp_induct)
  case base
  then show ?case using assms(2) by (auto intro: exI [of _ 0])
next
  case (step a b)
  then obtain k where k: "k + i \<le> a" "(R ^^ k) i a" and a: "a \<le> n" by blast
  have b: "a \<le> b" "b \<le> n" using assms(3) [OF step(2) a] by simp_all
  have more: "(R ^^ Suc k) i b" using k(2) step(2) by auto
  show ?case
  proof (cases "a = b")
    case True
    with k b show ?thesis by blast
  next
    case False
    with k(1) b(1) have "Suc k + i \<le> b" by simp
    with more b show ?thesis by blast
  qed
qed

theorem ends_iff: "i \<le> length s \<Longrightarrow> j \<in> set (ends r s i) \<longleftrightarrow> matches s r i j"
proof (induction r arbitrary: i j)
  case (Cat a b)
  then show ?case by (auto simp: matches_simps dest: matches_bounds) (metis matches_bounds)+
next
  case (Star a)
  let ?R = "\<lambda>i j. j \<in> set (ends a s i)"
  have eq: "?R x y \<longleftrightarrow> matches s a x y" if "x \<le> length s" for x y using Star.IH that .
  have inc: "?R x y \<Longrightarrow> x \<le> length s \<Longrightarrow> x \<le> y \<and> y \<le> length s" for x y
    using eq matches_bounds by blast
  have chain: "?R\<^sup>*\<^sup>* i j \<longleftrightarrow> (matches s a)\<^sup>*\<^sup>* i j"
  proof
    assume "?R\<^sup>*\<^sup>* i j"
    then have "(matches s a)\<^sup>*\<^sup>* i j \<and> j \<le> length s"
    proof (induction rule: rtranclp_induct)
      case (step x y)
      with eq [of x y] inc [where x = x and y = y] show ?case by (meson rtranclp.rtrancl_into_rtrancl)
    qed (use Star.prems in simp)
    then show "(matches s a)\<^sup>*\<^sup>* i j" ..
  next
    assume "(matches s a)\<^sup>*\<^sup>* i j"
    then have "?R\<^sup>*\<^sup>* i j \<and> j \<le> length s"
    proof (induction rule: rtranclp_induct)
      case (step x y)
      with eq [of x y] inc [where x = x and y = y] show ?case by (meson rtranclp.rtrancl_into_rtrancl)
    qed (use Star.prems in simp)
    then show "?R\<^sup>*\<^sup>* i j" ..
  qed
  have "j \<in> set (ends (Star a) s i) \<longleftrightarrow> (\<exists>k\<le>length s. (?R ^^ k) i j)" by (simp add: star_ends_set)
  also have "\<dots> \<longleftrightarrow> ?R\<^sup>*\<^sup>* i j"
  proof
    assume "?R\<^sup>*\<^sup>* i j"
    from short_chain [OF this Star.prems inc] obtain k where "j \<le> length s" "k + i \<le> j" "(?R ^^ k) i j" by blast
    then show "\<exists>k\<le>length s. (?R ^^ k) i j" by (intro exI [of _ k]) auto
  qed (auto intro: relpowp_imp_rtranclp)
  finally show ?case by (simp add: chain matches_Star)
qed (auto simp: matches_simps)

lemma MatchString_iff: "MatchString r s \<longleftrightarrow> (\<exists>i\<le>length s. \<exists>j. matches s r i j)"
proof -
  have "(ends r s i \<noteq> []) = (\<exists>j. matches s r i j)" if "i \<le> length s" for i
    using ends_iff [OF that] by (metis all_not_in_conv set_empty)
  moreover have "set [0..<length s + 1] = {i. i \<le> length s}" by auto
  ultimately show ?thesis unfolding MatchString_def list_ex_iff by simp
qed

section \<open>Functions of Go's strings package on code points\<close>

text \<open>\<^verbatim>\<open>unicode.IsSpace\<close>.\<close>

definition IsSpace :: "rune \<Rightarrow> bool" where
  "IsSpace c \<longleftrightarrow> 9 \<le> c \<and> c \<le> 13 \<or> 8192 \<le> c \<and> c \<le> 8202
     \<or> c \<in> {32, 133, 160, 5760, 8232, 8233, 8239, 8287, 12288}"

definition TrimSpaces :: "rune list \<Rightarrow> rune list" where
  "TrimSpaces s = rev (dropWhile IsSpace (rev (dropWhile IsSpace s)))"

fun starts_with :: "rune list \<Rightarrow> rune list \<Rightarrow> bool" where
  "starts_with s [] = True"
| "starts_with [] (w # ws) = False"
| "starts_with (c # s) (w # ws) = (c = w \<and> starts_with s ws)"

text \<open>\<^verbatim>\<open>strings.Contains\<close>.\<close>

fun has_sub :: "rune list \<Rightarrow> rune list \<Rightarrow> bool" where
  "has_sub [] w = (w = [])"
| "has_sub (c # s) w = (starts_with (c # s) w \<or> has_sub s w)"

lemma has_sub_iff: "has_sub s w \<longleftrightarrow> (\<exists>u v. s = u @ w @ v)"
proof (induction s)
  case (Cons c s)
  have "starts_with t w \<longleftrightarrow> (\<exists>v. t = w @ v)" for t
    by (induction t w rule: starts_with.induct) auto
  moreover have "(\<exists>u v. c # s = u @ w @ v) \<longleftrightarrow> (\<exists>v. c # s = w @ v) \<or> (\<exists>u v. s = u @ w @ v)"
    by (metis Cons_eq_append_conv append_Cons append_Nil)
  ultimately show ?case using Cons.IH by simp
qed simp

text \<open>Removal of words in one pass from the left, the first of them that fits:
  \<^verbatim>\<open>ReplaceAll\<close> of one word by the empty text, and a \<^verbatim>\<open>NewReplacer\<close> of several.\<close>

fun remove_words :: "rune list list \<Rightarrow> rune list \<Rightarrow> rune list" where
  "remove_words ws [] = []"
| "remove_words ws (c # s) =
     (case find (starts_with (c # s)) ws of
        Some w \<Rightarrow> remove_words ws (drop (length w - 1) s)
      | None \<Rightarrow> c # remove_words ws s)"

lemma remove_words_id:
  assumes "\<forall>w\<in>set ws. \<not> has_sub s w" shows "remove_words ws s = s"
  using assms
proof (induction ws s rule: remove_words.induct)
  case (2 ws c s)
  then have "find (starts_with (c # s)) ws = None" by (auto simp: find_None_iff)
  with 2 show ?case by simp
qed simp

lemma TrimSpaces_props: "length (TrimSpaces s) \<le> length s" "set (TrimSpaces s) \<subseteq> set s"
proof -
  show "length (TrimSpaces s) \<le> length s"
    unfolding TrimSpaces_def by (metis length_dropWhile_le length_rev order_trans)
  show "set (TrimSpaces s) \<subseteq> set s"
    unfolding TrimSpaces_def by (auto dest!: set_dropWhileD)
qed

section \<open>Prefixes\<close>

text \<open>Without word boundaries, what matches in a prefix matches in the whole.\<close>

fun edge_free :: "re \<Rightarrow> bool" where
  "edge_free (Cat a b) \<longleftrightarrow> edge_free a \<and> edge_free b"
| "edge_free (Alt a b) \<longleftrightarrow> edge_free a \<and> edge_free b"
| "edge_free (Star a) \<longleftrightarrow> edge_free a"
| "edge_free WordEdge \<longleftrightarrow> False"
| "edge_free r \<longleftrightarrow> True"

lemma matches_take: "matches (take n s) r i j \<Longrightarrow> edge_free r \<Longrightarrow> matches s r i j"
proof (induction rule: matches.induct)
  case (m_cls i p)
  then show ?case using matches.m_cls [of i s p] by simp
qed (auto intro: matches.intros)

lemma MatchString_take:
  assumes "edge_free r" "\<not> MatchString r s" shows "\<not> MatchString r (take n s)"
proof
  assume "MatchString r (take n s)"
  then obtain i j where ij: "i \<le> length (take n s)" "matches (take n s) r i j"
    unfolding MatchString_iff by blast
  have "i \<le> length s" using ij(1) by simp
  moreover have "matches s r i j" using ij(2) assms(1) by (rule matches_take)
  ultimately show False using assms(2) unfolding MatchString_iff by blast
qed

end
