(* ===== verification/Guardrail.thy ===== *)
theory Guardrail
  imports Complex_Main Regex
begin

text \<open>
  The text guards around the language model: \<^verbatim>\<open>internal/auctioneer/auctioneer.go\<close> of the AI sidecar,
  the re-check and dispatch in \<^verbatim>\<open>internal/server/auctioneer.go\<close>, and the response
  validators of \<^verbatim>\<open>internal/server/ai_events.go\<close>. Texts are lists of code points, as JSON
  decoding yields them. What the model answers is an argument.
\<close>

section \<open>The patterns\<close>

definition reURL :: re where
  "reURL = seq_re [WordEdge,
     Alt (seq_re [folded_re ''http'', opt_re (folded_re ''s''), lit_re ''://'']) (Cat (folded_re ''www'') (lit_re ''.'')),
     plus_re (Cls (\<lambda>c. \<not> space_rune c))]"

definition rePhone :: re where
  "rePhone = Alt (seq_re [WordEdge, times_re 11 digit_re, WordEdge])
     (seq_re [WordEdge, lit_re ''+'', digit_re, opt_re digit_re, opt_re digit_re,
        opt_re (Cls (\<lambda>c. c = 32 \<or> c = 45)), times_re 4 digit_re, Star digit_re, WordEdge])"

definition currency_word :: re where
  "currency_word = alts_re (map folded_re [''yuan'', ''rmb'', ''cny'', ''usd'', ''eur'', ''gbp''])"

definition reMoney :: re where
  "reMoney = Alt (seq_re [Cls (\<lambda>c. c \<in> {165, 36, 8364, 163}), Star (Cls space_rune), digit_re])
     (seq_re [digit_re, opt_re (Cat (Star (Cls (\<lambda>c. 48 \<le> c \<and> c \<le> 57 \<or> c = 44 \<or> c = 46))) digit_re),
        Star (Cls space_rune), currency_word, WordEdge])"

definition bannedWords :: "rune list list" where
  "bannedWords = map runes [''absolute lowest price'', ''only one in existence'', ''tenfold refund'',
     ''guaranteed authentic'', ''100% genuine'', ''buyback at original price'']"

section \<open>The guard of the sidecar\<close>

definition maxTextLen :: nat where "maxTextLen = 80"

text \<open>The reason a text is refused, or none.\<close>

definition failsGuardrail :: "rune list \<Rightarrow> string option" where
  "failsGuardrail text =
     (if length text > maxTextLen then Some ''len''
      else if MatchString reURL text then Some ''url''
      else if MatchString rePhone text then Some ''phone''
      else if MatchString reMoney text then Some ''money''
      else if list_ex (has_sub text) bannedWords then Some ''banned''
      else None)"

record commentary =
  cm_Trigger :: string
  cm_Commentary :: "rune list"
  cm_Fallback :: bool

definition validTrigger :: "string \<Rightarrow> bool" where
  "validTrigger t \<longleftrightarrow> t \<in> {''open'', ''surge'', ''cold'', ''hammer''}"

definition canned :: "string \<Rightarrow> rune list" where
  "canned t =
     (if t = ''open'' then runes ''The auction is officially open - get your bids ready.''
      else if t = ''surge'' then runes ''The competition is heating up - the increments just jumped.''
      else if t = ''cold'' then runes ''The room has gone quiet - there is still time to take it back.''
      else if t = ''hammer'' then runes ''Sold - congratulations to the winner.''
      else [])"

text \<open>\<open>None\<close> is a generator that failed.\<close>

definition generateWithGuardrail :: "string \<Rightarrow> rune list option \<Rightarrow> commentary" where
  "generateWithGuardrail trigger answer =
     (case answer of
        None \<Rightarrow> \<lparr>cm_Trigger = trigger, cm_Commentary = canned trigger, cm_Fallback = True\<rparr>
      | Some text \<Rightarrow>
          (if failsGuardrail text \<noteq> None
           then \<lparr>cm_Trigger = trigger, cm_Commentary = canned trigger, cm_Fallback = True\<rparr>
           else \<lparr>cm_Trigger = trigger, cm_Commentary = text, cm_Fallback = False\<rparr>))"

section \<open>The guard and dispatch of the backend\<close>

definition maxAuctioneerTextRunes :: nat where "maxAuctioneerTextRunes = 80"

definition failsAuctioneerGuardrail :: "rune list \<Rightarrow> string option" where
  "failsAuctioneerGuardrail text =
     (if text = [] then Some ''empty''
      else if length text > maxAuctioneerTextRunes then Some ''len''
      else if MatchString reURL text then Some ''url''
      else if MatchString rePhone text then Some ''phone''
      else if MatchString reMoney text then Some ''money''
      else if list_ex (has_sub text) bannedWords then Some ''banned''
      else None)"

definition cannedFallback :: "string \<Rightarrow> rune list" where
  "cannedFallback t =
     (if t = ''open'' then runes ''The auction is officially open - get your bids ready.''
      else if t = ''surge'' then runes ''The competition is heating up - the increments just jumped.''
      else if t = ''cold'' then runes ''The room has gone quiet - there is still time to take it back.''
      else if t = ''hammer'' then runes ''Sold - congratulations to the winner.''
      else runes ''The auction is in progress.'')"

text \<open>What came back from the sidecar.\<close>

datatype sidecar = NoRequest | NoAnswer | BadStatus int | Undecodable | Answered_with commentary

definition fire :: "string \<Rightarrow> sidecar \<Rightarrow> commentary" where
  "fire trigger ans =
     (let fallback = \<lparr>cm_Trigger = trigger, cm_Commentary = cannedFallback trigger, cm_Fallback = True\<rparr>
      in case ans of
           Answered_with out \<Rightarrow>
             (if failsAuctioneerGuardrail (cm_Commentary out) \<noteq> None then fallback
              else \<lparr>cm_Trigger = trigger, cm_Commentary = cm_Commentary out, cm_Fallback = cm_Fallback out\<rparr>)
         | _ \<Rightarrow> fallback)"

section \<open>The response validators\<close>

definition auctioneerURLPattern :: re where
  "auctioneerURLPattern = seq_re [folded_re ''http'', opt_re (folded_re ''s''), lit_re ''://'']"

definition auctioneerPhonePattern :: re where
  "auctioneerPhonePattern = seq_re [lit_re ''1'', Cls (\<lambda>c. 51 \<le> c \<and> c \<le> 57), times_re 9 digit_re]"

record AuctioneerResponse =
  au_Trigger :: string
  au_Commentary :: "rune list"
  au_Fallback :: bool
  au_ModelName :: string

text \<open>\<open>None\<close> for a valid response, else what is wrong; the outer option is the JSON decoding.\<close>

definition ValidateAuctioneerResponse :: "AuctioneerResponse option \<Rightarrow> string option" where
  "ValidateAuctioneerResponse body =
     (case body of
        None \<Rightarrow> Some ''parse''
      | Some r \<Rightarrow>
          (if \<not> validTrigger (au_Trigger r) then Some ''unknown trigger''
           else if au_Commentary r = [] then Some ''text empty''
           else if length (au_Commentary r) > 80 then Some ''text length''
           else if MatchString auctioneerURLPattern (au_Commentary r) then Some ''forbidden URL pattern''
           else if MatchString auctioneerPhonePattern (au_Commentary r) then Some ''forbidden phone pattern''
           else if MatchString reMoney (au_Commentary r) then Some ''forbidden currency pattern''
           else if au_ModelName r = [] then Some ''modelName missing or empty''
           else None))"

record VLMFact =
  vf_Field :: "rune list"
  vf_Value :: "rune list"
  vf_Confidence :: rat
  vf_HighRisk :: bool

record VLMFactsResponse =
  vr_Facts :: "VLMFact list"
  vr_Disclaimer :: "rune list"
  vr_ModelName :: "rune list"

fun fact_error :: "VLMFact list \<Rightarrow> nat \<Rightarrow> (nat \<times> string) option" where
  "fact_error [] i = None"
| "fact_error (f # fs) i =
     (if vf_Field f = [] then Some (i, ''field empty'')
      else if vf_Value f = [] then Some (i, ''value empty'')
      else if vf_Confidence f < 0 \<or> vf_Confidence f > 1 then Some (i, ''out of [0,1]'')
      else fact_error fs (i + 1))"

definition ValidateVLMFactsResponse :: "VLMFactsResponse option \<Rightarrow> string option" where
  "ValidateVLMFactsResponse body =
     (case body of
        None \<Rightarrow> Some ''parse''
      | Some r \<Rightarrow>
          (if vr_Disclaimer r = [] then Some ''highRiskFieldsDisclaimer missing or empty''
           else if vr_ModelName r = [] then Some ''modelName missing or empty''
           else map_option snd (fact_error (vr_Facts r) 0)))"

section \<open>The two guards agree\<close>

lemma guards_agree: "failsAuctioneerGuardrail text = (if text = [] then Some ''empty'' else failsGuardrail text)"
  by (simp add: failsAuctioneerGuardrail_def failsGuardrail_def maxTextLen_def maxAuctioneerTextRunes_def)

lemma canned_agree: "validTrigger t \<Longrightarrow> cannedFallback t = canned t"
  by (auto simp: validTrigger_def cannedFallback_def canned_def)

text \<open>What a match needs: a link needs a colon, or a full stop that is not the end; a number and an
  amount need a digit.\<close>

definition plain :: "rune list \<Rightarrow> bool" where
  "plain s \<longleftrightarrow> 58 \<notin> set s \<and> 46 \<notin> set (butlast s) \<and> list_all (\<lambda>c. c < 48 \<or> 57 < c) s"

lemma matches_digit: "matches s digit_re i j \<Longrightarrow> \<not> list_all (\<lambda>c. c < 48 \<or> 57 < c) s"
  by (auto simp: digit_re_def matches_simps list_all_length not_less)

lemma matches_colon: "matches s (lit_re ''://'') i j \<Longrightarrow> 58 \<in> set s"
  by (auto simp: lit_re_def runes_def matches_simps) (metis Suc_lessD nth_mem)

lemma matches_dot:
  assumes "matches s (lit_re ''.'') i j" "matches s (plus_re (Cls p)) j k"
  shows "46 \<in> set (butlast s)"
proof -
  have "s ! i = 46" "Suc i < length s" using assms by (auto simp: lit_re_def runes_def plus_re_def matches_simps)
  then have "butlast s ! i = 46" "i < length (butlast s)" by (simp_all add: nth_butlast)
  then show ?thesis by (metis nth_mem)
qed

lemma plain_no_match:
  assumes "plain s" shows "\<not> MatchString reURL s" "\<not> MatchString rePhone s" "\<not> MatchString reMoney s"
proof -
  have "\<not> matches s reURL i j" for i j
  proof
    assume "matches s reURL i j"
    then have "58 \<in> set s \<or> 46 \<in> set (butlast s)"
      unfolding reURL_def seq_re.simps
      by (auto simp: matches_simps dest: matches_colon matches_dot)
    with assms show False by (simp add: plain_def)
  qed
  moreover have "\<not> matches s rePhone i j" "\<not> matches s reMoney i j" for i j
    using matches_digit [of s] assms by (auto simp: rePhone_def reMoney_def matches_simps plain_def eval_nat_numeral)
  ultimately show "\<not> MatchString reURL s" "\<not> MatchString rePhone s" "\<not> MatchString reMoney s"
    by (simp_all add: MatchString_iff)
qed

lemma plain_passes:
  assumes "plain s" "s \<noteq> []" "length s \<le> 80" "\<not> list_ex (has_sub s) bannedWords"
  shows "failsAuctioneerGuardrail s = None"
  using assms plain_no_match by (simp add: failsAuctioneerGuardrail_def maxAuctioneerTextRunes_def)

text \<open>The fixed texts pass.\<close>

lemma canned_pass: "failsAuctioneerGuardrail (cannedFallback t) = None"
proof -
  have "plain (cannedFallback t) \<and> cannedFallback t \<noteq> [] \<and> length (cannedFallback t) \<le> 80
      \<and> \<not> list_ex (has_sub (cannedFallback t)) bannedWords"
    if "t \<in> {''open'', ''surge'', ''cold'', ''hammer'', ''other''}" for t
    using that by (elim insertE emptyE; simp only:; code_simp)
  moreover have "cannedFallback t = cannedFallback ''other''" if "t \<notin> {''open'', ''surge'', ''cold'', ''hammer'', ''other''}" for t
    using that by (simp add: cannedFallback_def)
  ultimately show ?thesis using plain_passes by (metis insertI1 insertCI)
qed

text \<open>Whatever the sidecar does, the room is sent a text that passes.\<close>

lemma fire_passes: "failsAuctioneerGuardrail (cm_Commentary (fire trigger ans)) = None"
  using canned_pass [of trigger] by (cases ans) (auto simp: fire_def Let_def)

lemma fire_clean:
  assumes "r = reURL \<or> r = rePhone \<or> r = reMoney" "i \<le> length (cm_Commentary (fire trigger ans))"
  shows "\<not> matches (cm_Commentary (fire trigger ans)) r i j"
  using fire_passes [of trigger ans] assms
  by (auto simp: failsAuctioneerGuardrail_def MatchString_iff split: if_splits)

lemma fire_no_banned: "w \<in> set bannedWords \<Longrightarrow> cm_Commentary (fire trigger ans) \<noteq> u @ w @ v"
  using fire_passes [of trigger ans] has_sub_iff [of "cm_Commentary (fire trigger ans)" w]
  by (auto simp: failsAuctioneerGuardrail_def list_ex_iff split: if_splits)

lemma fire_own:
  assumes "validTrigger t"
  shows "fire t (Answered_with (generateWithGuardrail t answer)) =
    (if answer = Some [] then \<lparr>cm_Trigger = t, cm_Commentary = canned t, cm_Fallback = True\<rparr> else generateWithGuardrail t answer)"
  using canned_pass [of t] canned_agree [OF assms]
  by (auto simp: fire_def generateWithGuardrail_def Let_def guards_agree split: option.splits if_splits)

lemma guard_length: "failsAuctioneerGuardrail text = None \<Longrightarrow> 0 < length text \<and> length text \<le> 80"
  by (auto simp: failsAuctioneerGuardrail_def maxAuctioneerTextRunes_def split: if_splits)

section \<open>Where the guard has a gap\<close>

text \<open>The international form of a number passes the guard that runs, and not the validator that does
  not: a word boundary before the plus sign needs a word character there.\<close>

lemma phone_gap:
  "failsAuctioneerGuardrail (runes ''+8613812345678'') = None"
  "ValidateAuctioneerResponse (Some \<lparr>au_Trigger = ''cold'', au_Commentary = runes ''+8613812345678'',
     au_Fallback = False, au_ModelName = ''m''\<rparr>) = Some ''forbidden phone pattern''"
  by code_simp+

lemma plus_needs_word:
  assumes "matches s (Cat WordEdge (Cat (lit_re ''+'') r)) i j"
  shows "0 < i \<and> word_rune (s ! (i - 1))"
proof -
  have "word_edge s i" "s ! i = 43" using assms by (auto simp: matches_simps lit_re_def runes_def)
  then show ?thesis by (simp add: word_edge_def word_rune_def [of 43])
qed

section \<open>Facts drafted by the vision model\<close>

lemma fact_error_None: "fact_error fs i = None \<longleftrightarrow>
    (\<forall>f\<in>set fs. vf_Field f \<noteq> [] \<and> vf_Value f \<noteq> [] \<and> 0 \<le> vf_Confidence f \<and> vf_Confidence f \<le> 1)"
  by (induction fs i rule: fact_error.induct) auto

lemma valid_facts: "ValidateVLMFactsResponse (Some r) = None \<longleftrightarrow>
    vr_Disclaimer r \<noteq> [] \<and> vr_ModelName r \<noteq> [] \<and>
    (\<forall>f\<in>set (vr_Facts r). vf_Field f \<noteq> [] \<and> vf_Value f \<noteq> [] \<and> 0 \<le> vf_Confidence f \<and> vf_Confidence f \<le> 1)"
  by (simp add: ValidateVLMFactsResponse_def fact_error_None)

end
