(* ===== verification/Auctioneer.thy ===== *)
theory Auctioneer
  imports Guardrail Store
begin

text \<open>
  The trigger detectors of \<^verbatim>\<open>internal/server/auctioneer.go\<close>: when the commentary of the
  language model is asked for. Each operation runs at a wall clock time and may fire; what a fired trigger sends to
  the room is \<open>fire\<close> of theory Guardrail. Maps default to zero, as Go's do. The sections of a detector under the
  lock are taken together: one goroutine calls the bid detector, another one the stall
  detector, and they write different maps.
\<close>

record hooks =
  ah_lastSurgeAtMs :: "aid \<Rightarrow> int"
  ah_lastColdAtMs :: "aid \<Rightarrow> int"
  ah_lastBidAtMs :: "aid \<Rightarrow> int"
  ah_lastBidAmount :: "aid \<Rightarrow> money"
  ah_terminalAtMs :: "aid \<Rightarrow> int"
  ah_openFired :: "aid \<Rightarrow> bool"

definition NewAuctioneerHooks :: hooks where
  "NewAuctioneerHooks = \<lparr>ah_lastSurgeAtMs = (\<lambda>a. 0), ah_lastColdAtMs = (\<lambda>a. 0), ah_lastBidAtMs = (\<lambda>a. 0),
     ah_lastBidAmount = (\<lambda>a. []), ah_terminalAtMs = (\<lambda>a. 0), ah_openFired = (\<lambda>a. False)\<rparr>"

text \<open>A fired trigger with its context: prices, a name and a time.\<close>

datatype fired = Fired_open money int | Fired_surge money money string int
  | Fired_cold money string int | Fired_hammer money string

fun trigger_name :: "fired \<Rightarrow> string" where
  "trigger_name (Fired_open p e) = ''open''"
| "trigger_name (Fired_surge p s n t) = ''surge''"
| "trigger_name (Fired_cold p n t) = ''cold''"
| "trigger_name (Fired_hammer p n) = ''hammer''"

record OpenContext =
  oc_StartPriceCents :: money
  oc_EndAtMs :: int

definition OnAuctionStart :: "aid \<Rightarrow> OpenContext \<Rightarrow> hooks \<Rightarrow> fired option \<times> hooks" where
  "OnAuctionStart aid p h =
     (if ah_openFired h aid then (None, h)
      else (Some (Fired_open (oc_StartPriceCents p) (oc_EndAtMs p)), h\<lparr>ah_openFired := (ah_openFired h)(aid := True)\<rparr>))"

text \<open>\<^verbatim>\<open>big.Int.SetString\<close> with base 10: an optional sign and digits.\<close>

fun big_int :: "string \<Rightarrow> int option" where
  "big_int [] = None"
| "big_int (c # cs) =
     (if c = CHR ''-'' then (if cs = [] then None else map_option uminus (digits_val 0 cs))
      else if c = CHR ''+'' then (if cs = [] then None else digits_val 0 cs)
      else digits_val 0 (c # cs))"

definition deltaAtLeastThreeSteps :: "money \<Rightarrow> money \<Rightarrow> money \<Rightarrow> bool" where
  "deltaAtLeastThreeSteps curStr prevStr stepStr =
     (case (big_int curStr, big_int prevStr, big_int stepStr) of
        (Some cur, Some prev, Some step) \<Rightarrow> 0 < step \<and> 3 * step \<le> cur - prev
      | _ \<Rightarrow> False)"

definition seconds :: "int \<Rightarrow> int" where
  "seconds ms = (if ms < 0 then - (- ms div 1000) else ms div 1000)"

definition OnBidAccepted :: "int \<Rightarrow> aid \<Rightarrow> BidAcceptedData \<Rightarrow> money \<Rightarrow> hooks \<Rightarrow> fired option \<times> hooks" where
  "OnBidAccepted nowMs aid b stepCents h =
     (let prevAtMs = ah_lastBidAtMs h aid; prevAmount = ah_lastBidAmount h aid; lastSurgeAtMs = ah_lastSurgeAtMs h aid;
          h1 = h\<lparr>ah_lastBidAtMs := (ah_lastBidAtMs h)(aid := nowMs),
                 ah_lastBidAmount := (ah_lastBidAmount h)(aid := bid_amountCents b)\<rparr>
      in if prevAmount = [] \<or> prevAtMs = 0 then (None, h1)
         else if nowMs - prevAtMs \<ge> 2000 then (None, h1)
         else if \<not> deltaAtLeastThreeSteps (bid_amountCents b) prevAmount stepCents then (None, h1)
         else if nowMs - lastSurgeAtMs < 5000 then (None, h1)
         else (Some (Fired_surge (bid_amountCents b) stepCents (bid_displayName b) (seconds (nowMs - prevAtMs))),
               h1\<lparr>ah_lastSurgeAtMs := (ah_lastSurgeAtMs h1)(aid := nowMs)\<rparr>))"

definition OnTickStall :: "int \<Rightarrow> aid \<Rightarrow> string \<Rightarrow> money \<Rightarrow> hooks \<Rightarrow> fired option \<times> hooks" where
  "OnTickStall nowMs aid displayName currentPriceCents h =
     (let lastBidAt = ah_lastBidAtMs h aid; lastColdAt = ah_lastColdAtMs h aid; termAt = ah_terminalAtMs h aid
      in if termAt > 0 \<and> nowMs - termAt < 5000 then (None, h)
         else if lastBidAt = 0 then (None, h)
         else if nowMs - lastBidAt < 30000 then (None, h)
         else if nowMs - lastColdAt < 30000 then (None, h)
         else (Some (Fired_cold currentPriceCents displayName (seconds (nowMs - lastBidAt))),
               h\<lparr>ah_lastColdAtMs := (ah_lastColdAtMs h)(aid := nowMs)\<rparr>))"

definition OnAuctionSold :: "int \<Rightarrow> aid \<Rightarrow> money \<Rightarrow> string \<Rightarrow> hooks \<Rightarrow> fired option \<times> hooks" where
  "OnAuctionSold nowMs aid amount name h =
     (Some (Fired_hammer amount name), h\<lparr>ah_terminalAtMs := (ah_terminalAtMs h)(aid := nowMs)\<rparr>)"

definition OnAuctionTerminalNonSold :: "int \<Rightarrow> aid \<Rightarrow> hooks \<Rightarrow> hooks" where
  "OnAuctionTerminalNonSold nowMs aid h = h\<lparr>ah_terminalAtMs := (ah_terminalAtMs h)(aid := nowMs)\<rparr>"

text \<open>The step of an auction, read once and cached for good: rules are frozen.\<close>

definition auctioneerStep :: "link \<Rightarrow> aid \<Rightarrow> redis \<Rightarrow> (aid \<rightharpoonup> money) \<Rightarrow> money \<times> (aid \<rightharpoonup> money)" where
  "auctioneerStep l aid r cache =
     (case cache aid of
        Some v \<Rightarrow> (v, cache)
      | None \<Rightarrow>
          (case Snapshot l aid r of
             IOErr \<Rightarrow> ([], cache)
           | IOk snap \<Rightarrow>
               (case sn_Rules snap of
                  None \<Rightarrow> ([], cache)
                | Some rules \<Rightarrow>
                    (if rs_stepCents rules = [] then ([], cache)
                     else (rs_stepCents rules, cache(aid \<mapsto> rs_stepCents rules))))))"

definition dispatchAuctioneer ::
  "int \<Rightarrow> link \<Rightarrow> aid \<Rightarrow> redis \<Rightarrow> StreamEvent \<Rightarrow> hooks \<times> (aid \<rightharpoonup> money) \<Rightarrow> fired option \<times> hooks \<times> (aid \<rightharpoonup> money)" where
  "dispatchAuctioneer nowMs l aid r e s =
     (let (h, cache) = s in
      if ev_Type e = BID_ACCEPTED then
        (case decode_bid (ev_Payload e) of
           None \<Rightarrow> (None, h, cache)
         | Some b \<Rightarrow>
             (let (stepCents, cache') = auctioneerStep l aid r cache
              in if stepCents = [] then (None, h, cache')
                 else (let (f, h') = OnBidAccepted nowMs aid b stepCents h in (f, h', cache'))))
      else if ev_Type e = AUCTION_SOLD then
        (case decode_sold (ev_Payload e) of
           None \<Rightarrow> (None, h, cache)
         | Some d \<Rightarrow> (let (f, h') = OnAuctionSold nowMs aid (sold_amountCents d) [] h in (f, h', cache)))
      else if ev_Type e \<in> {AUCTION_NO_BID, AUCTION_CANCELLED} then (None, OnAuctionTerminalNonSold nowMs aid h, cache)
      else (None, h, cache))"

section \<open>Runs\<close>

datatype hook_op = H_start aid OpenContext | H_bid aid BidAcceptedData money | H_tick aid string money
  | H_sold aid money string | H_end aid

fun op_aid :: "hook_op \<Rightarrow> aid" where
  "op_aid (H_start a p) = a" | "op_aid (H_bid a b s) = a" | "op_aid (H_tick a n p) = a"
| "op_aid (H_sold a p n) = a" | "op_aid (H_end a) = a"

fun hook_step :: "int \<Rightarrow> hook_op \<Rightarrow> hooks \<Rightarrow> fired option \<times> hooks" where
  "hook_step t (H_start a p) h = OnAuctionStart a p h"
| "hook_step t (H_bid a b s) h = OnBidAccepted t a b s h"
| "hook_step t (H_tick a n p) h = OnTickStall t a n p h"
| "hook_step t (H_sold a p n) h = OnAuctionSold t a p n h"
| "hook_step t (H_end a) h = (None, OnAuctionTerminalNonSold t a h)"

fun hook_run :: "(int \<times> hook_op) list \<Rightarrow> hooks \<Rightarrow> (int \<times> aid \<times> fired) list" where
  "hook_run [] h = []"
| "hook_run ((t, x) # xs) h =
     (let (f, h') = hook_step t x h
      in (case f of None \<Rightarrow> [] | Some y \<Rightarrow> [(t, op_aid x, y)]) @ hook_run xs h')"

section \<open>How often a trigger fires\<close>

lemmas hook_defs = OnAuctionStart_def OnBidAccepted_def OnTickStall_def OnAuctionSold_def OnAuctionTerminalNonSold_def Let_def

lemma step_surge:
  assumes "hook_step t x h = (f, h')"
  shows "ah_lastSurgeAtMs h' a =
    (if op_aid x = a \<and> (\<exists>y. f = Some y \<and> trigger_name y = ''surge'') then t else ah_lastSurgeAtMs h a)"
    and "f = Some y \<Longrightarrow> trigger_name y = ''surge'' \<Longrightarrow> ah_lastSurgeAtMs h (op_aid x) + 5000 \<le> t"
  using assms by (cases x; auto simp: hook_defs split: if_splits)+

lemma step_cold:
  assumes "hook_step t x h = (f, h')"
  shows "ah_lastColdAtMs h' a =
    (if op_aid x = a \<and> (\<exists>y. f = Some y \<and> trigger_name y = ''cold'') then t else ah_lastColdAtMs h a)"
    and "f = Some y \<Longrightarrow> trigger_name y = ''cold'' \<Longrightarrow> ah_lastColdAtMs h (op_aid x) + 30000 \<le> t"
  using assms by (cases x; auto simp: hook_defs split: if_splits)+

lemma step_open:
  assumes "hook_step t x h = (f, h')"
  shows "ah_openFired h' a \<longleftrightarrow> ah_openFired h a \<or> op_aid x = a \<and> (\<exists>y. f = Some y \<and> trigger_name y = ''open'')"
    and "f = Some y \<Longrightarrow> trigger_name y = ''open'' \<Longrightarrow> \<not> ah_openFired h (op_aid x)"
  using assms by (cases x; auto simp: hook_defs split: if_splits)+

text \<open>One pattern for both debounced triggers: \<open>last\<close> is the time of the last one, \<open>gap\<close> the least distance.\<close>

lemma debounced:
  assumes "\<And>t x h f h' a. hook_step t x h = (f, h') \<Longrightarrow>
      lst h' a = (if op_aid x = a \<and> (\<exists>y. f = Some y \<and> trigger_name y = n) then t else lst h a)"
    and "\<And>t x h f h' y. hook_step t x h = (f, h') \<Longrightarrow> f = Some y \<Longrightarrow> trigger_name y = n \<Longrightarrow> lst h (op_aid x) + gap \<le> t"
    and "0 \<le> (gap :: int)"
  defines "picked xs a h \<equiv> map fst (filter (\<lambda>(t, b, y). b = a \<and> trigger_name y = n) (hook_run xs h))"
  shows "sorted_wrt (\<lambda>t t'. t + gap \<le> t') (lst h a # picked xs a h)"
proof (induction xs arbitrary: h)
  case (Cons z xs)
  obtain t x where z: "z = (t, x)" by (cases z)
  obtain f h' where st: "hook_step t x h = (f, h')" by (cases "hook_step t x h")
  note rest = Cons.IH [of h'] and new = assms(1) [OF st, of a] and due = assms(2) [OF st]
  show ?case
  proof (cases "op_aid x = a \<and> (\<exists>y. f = Some y \<and> trigger_name y = n)")
    case True
    then obtain y where y: "op_aid x = a" "f = Some y" "trigger_name y = n" by blast
    have "picked (z # xs) a h = t # picked xs a h'" by (simp add: picked_def z st y)
    moreover have "lst h a + gap \<le> t" using due [OF y(2,3)] y(1) by simp
    ultimately show ?thesis using rest new True assms(3) by auto
  next
    case False
    then have "picked (z # xs) a h = picked xs a h'" by (auto simp: picked_def z st split: option.splits)
    with rest new False show ?thesis by simp
  qed
qed (simp add: picked_def)

lemma opens_once:
  "length (filter (\<lambda>(t, b, y). b = a \<and> trigger_name y = ''open'') (hook_run xs h)) \<le> (if ah_openFired h a then 0 else 1)"
proof (induction xs arbitrary: h)
  case (Cons z xs)
  obtain t x where z: "z = (t, x)" by (cases z)
  obtain f h' where st: "hook_step t x h = (f, h')" by (cases "hook_step t x h")
  show ?case
    using Cons.IH [of h'] step_open [OF st]
    by (cases f) (auto simp: z st split: if_splits)
qed simp

text \<open>After an end at time \<open>t0\<close> no stall fires within five seconds, as long as the clock does not go back.\<close>

lemma step_terminal:
  assumes "hook_step t x h = (f, h')"
  shows "ah_terminalAtMs h' a = (case x of H_sold b p n \<Rightarrow> if b = a then t else ah_terminalAtMs h a
      | H_end b \<Rightarrow> if b = a then t else ah_terminalAtMs h a | _ \<Rightarrow> ah_terminalAtMs h a)"
    and "f = Some y \<Longrightarrow> trigger_name y = ''cold'' \<Longrightarrow> 0 < ah_terminalAtMs h (op_aid x) \<Longrightarrow> ah_terminalAtMs h (op_aid x) + 5000 \<le> t"
  using assms by (cases x; auto simp: hook_defs split: if_splits)+

lemma quiet_after_end:
  assumes "0 < t0" "t0 \<le> ah_terminalAtMs h a" "\<forall>(t, x)\<in>set xs. t0 \<le> t"
  shows "\<forall>(t, b, y)\<in>set (hook_run xs h). b = a \<and> trigger_name y = ''cold'' \<longrightarrow> t0 + 5000 \<le> t"
  using assms
proof (induction xs arbitrary: h)
  case (Cons z xs)
  obtain t x where z: "z = (t, x)" by (cases z)
  obtain f h' where st: "hook_step t x h = (f, h')" by (cases "hook_step t x h")
  have "t0 \<le> ah_terminalAtMs h' a" using step_terminal(1) [OF st, of a] Cons.prems z by (auto split: hook_op.splits)
  from Cons.IH [OF Cons.prems(1) this] have "\<forall>(t, b, y)\<in>set (hook_run xs h'). b = a \<and> trigger_name y = ''cold'' \<longrightarrow> t0 + 5000 \<le> t"
    using Cons.prems(3) by simp
  moreover have "t0 + 5000 \<le> t" if "f = Some y" "trigger_name y = ''cold''" "op_aid x = a" for y
    using step_terminal(2) [OF st that(1,2)] that(3) Cons.prems(1,2) by simp
  ultimately show ?case by (auto simp: z st split: option.splits)
qed simp

text \<open>A surge needs two bids within two seconds, the second three steps above the first.\<close>

lemma surge_needs_jump:
  assumes "OnBidAccepted t a b step h = (Some y, h')"
  shows "\<exists>cur prev n. big_int (bid_amountCents b) = Some cur \<and> big_int (ah_lastBidAmount h a) = Some prev \<and> big_int step = Some n
    \<and> 0 < n \<and> prev + 3 * n \<le> cur \<and> t < ah_lastBidAtMs h a + 2000"
  using assms by (auto simp: hook_defs deltaAtLeastThreeSteps_def split: if_splits option.splits)

end
