(* ===== verification/Ssrf.thy ===== *)
theory Ssrf
  imports "HOL-Library.Word" Prelude
begin

unbundle bit_operations_syntax

text \<open>
  \<^verbatim>\<open>ai-sidecar/internal/ssrf/allowlist.go\<close>: the guarded fetch of a seller's image. Addresses are byte lists of
  length 4 or 16, as Go's \<^verbatim>\<open>net.IP\<close>; its predicates are written out. Name resolution, the peer and
  what it answers are arguments.
\<close>

type_synonym ip = "8 word list"

section \<open>The predicates of \<^verbatim>\<open>net.IP\<close>\<close>

definition v4InV6Prefix :: ip where
  "v4InV6Prefix = replicate 10 0 @ [0xFF, 0xFF]"

definition To4 :: "ip \<Rightarrow> ip option" where
  "To4 x = (if length x = 4 then Some x
            else if length x = 16 \<and> take 12 x = v4InV6Prefix then Some (drop 12 x) else None)"

definition ip_Equal :: "ip \<Rightarrow> ip \<Rightarrow> bool" where
  "ip_Equal x y =
     (if length x = length y then x = y
      else if length x = 4 \<and> length y = 16 then take 12 y = v4InV6Prefix \<and> drop 12 y = x
      else if length x = 16 \<and> length y = 4 then take 12 x = v4InV6Prefix \<and> drop 12 x = y
      else False)"

text \<open>\<^verbatim>\<open>net.IPv4\<close> makes the 16-byte form.\<close>

definition net_IPv4 :: "8 word \<Rightarrow> 8 word \<Rightarrow> 8 word \<Rightarrow> 8 word \<Rightarrow> ip" where
  "net_IPv4 a b c d = v4InV6Prefix @ [a, b, c, d]"

definition IPv6loopback :: ip where "IPv6loopback = replicate 15 0 @ [1]"
definition IPv6unspecified :: ip where "IPv6unspecified = replicate 16 0"

definition IsLoopback :: "ip \<Rightarrow> bool" where
  "IsLoopback x = (case To4 x of Some y \<Rightarrow> y ! 0 = 127 | None \<Rightarrow> ip_Equal x IPv6loopback)"

definition IsPrivate :: "ip \<Rightarrow> bool" where
  "IsPrivate x =
     (case To4 x of
        Some y \<Rightarrow> y ! 0 = 10 \<or> y ! 0 = 172 \<and> y ! 1 AND 0xF0 = 16 \<or> y ! 0 = 192 \<and> y ! 1 = 168
      | None \<Rightarrow> length x = 16 \<and> x ! 0 AND 0xFE = 0xFC)"

definition IsLinkLocalUnicast :: "ip \<Rightarrow> bool" where
  "IsLinkLocalUnicast x =
     (case To4 x of
        Some y \<Rightarrow> y ! 0 = 169 \<and> y ! 1 = 254
      | None \<Rightarrow> length x = 16 \<and> x ! 0 = 0xFE \<and> x ! 1 AND 0xC0 = 0x80)"

definition IsLinkLocalMulticast :: "ip \<Rightarrow> bool" where
  "IsLinkLocalMulticast x =
     (case To4 x of
        Some y \<Rightarrow> y ! 0 = 224 \<and> y ! 1 = 0 \<and> y ! 2 = 0
      | None \<Rightarrow> length x = 16 \<and> x ! 0 = 0xFF \<and> x ! 1 AND 0x0F = 2)"

definition IsUnspecified :: "ip \<Rightarrow> bool" where
  "IsUnspecified x \<longleftrightarrow> ip_Equal x (net_IPv4 0 0 0 0) \<or> ip_Equal x IPv6unspecified"

definition IsMulticast :: "ip \<Rightarrow> bool" where
  "IsMulticast x =
     (case To4 x of Some y \<Rightarrow> y ! 0 AND 0xF0 = 0xE0 | None \<Rightarrow> length x = 16 \<and> x ! 0 = 0xFF)"

section \<open>The guard\<close>

definition isIMDS :: "ip \<Rightarrow> bool" where
  "isIMDS x = ip_Equal x (net_IPv4 169 254 169 254)"

definition blocked :: "ip \<Rightarrow> bool" where
  "blocked x \<longleftrightarrow> IsLoopback x \<or> IsPrivate x \<or> IsLinkLocalUnicast x \<or> IsLinkLocalMulticast x
     \<or> IsUnspecified x \<or> IsMulticast x \<or> isIMDS x"

datatype fetch_error = ErrBadAddr | ErrLookup | ErrBlockedAddress ip | ErrConnect | ErrRedirect
  | ErrBadRequest | ErrStatus int | ErrRead | ErrTooLarge | IndexPanic

text \<open>The dialer: every resolved address is checked, then the first one is dialled by address.
  \<open>None\<close> for a failed lookup. The standard library never answers a lookup with no address; the index panic
  stands for it.\<close>

definition DialContext :: "(ip \<Rightarrow> bool) \<Rightarrow> (string \<Rightarrow> ip list option) \<Rightarrow> (string \<times> string) option \<Rightarrow> fetch_error + ip" where
  "DialContext isBlocked lookup addr =
     (case addr of
        None \<Rightarrow> Inl ErrBadAddr
      | Some (host, port) \<Rightarrow>
          (case lookup host of
             None \<Rightarrow> Inl ErrLookup
           | Some ips \<Rightarrow>
               (case find isBlocked ips of
                  Some x \<Rightarrow> Inl (ErrBlockedAddress x)
                | None \<Rightarrow> (case ips of [] \<Rightarrow> Inl IndexPanic | x # xs \<Rightarrow> Inr x))))"

definition maxImageBytes :: nat where "maxImageBytes = 10 * 2 ^ 20"

text \<open>What a peer answers: status, whether it names a new location, the body, and after how many
  bytes the connection breaks, if it does.\<close>

record response =
  re_Status :: int
  re_Location :: bool
  re_Body :: "8 word list"
  re_Breaks :: "nat option"

definition redirect_status :: "int \<Rightarrow> bool" where
  "redirect_status s \<longleftrightarrow> s \<in> {301, 302, 303, 307, 308}"

text \<open>\<^verbatim>\<open>client.Do\<close>: dial, exchange, and the redirect policy, which refuses.\<close>

definition client_Do ::
  "(ip \<Rightarrow> bool) \<Rightarrow> (string \<Rightarrow> ip list option) \<Rightarrow> (ip \<Rightarrow> response option) \<Rightarrow> (string \<times> string) option \<Rightarrow> fetch_error + response" where
  "client_Do isBlocked lookup peer addr =
     (case DialContext isBlocked lookup addr of
        Inl x \<Rightarrow> Inl x
      | Inr a \<Rightarrow>
          (case peer a of
             None \<Rightarrow> Inl ErrConnect
           | Some r \<Rightarrow> (if redirect_status (re_Status r) \<and> re_Location r then Inl ErrRedirect else Inr r)))"

text \<open>\<^verbatim>\<open>io.ReadAll\<close> of a limited reader.\<close>

definition read_limited :: "nat \<Rightarrow> response \<Rightarrow> 8 word list option" where
  "read_limited n r =
     (case re_Breaks r of
        Some k \<Rightarrow> (if k < n \<and> k \<le> length (re_Body r) then None else Some (take n (re_Body r)))
      | None \<Rightarrow> Some (take n (re_Body r)))"

definition FetchImage ::
  "(ip \<Rightarrow> bool) \<Rightarrow> (string \<Rightarrow> ip list option) \<Rightarrow> (ip \<Rightarrow> response option) \<Rightarrow> (string \<times> string) option option
   \<Rightarrow> fetch_error + 8 word list" where
  "FetchImage isBlocked lookup peer url =
     (case url of
        None \<Rightarrow> Inl ErrBadRequest
      | Some addr \<Rightarrow>
          (case client_Do isBlocked lookup peer addr of
             Inl x \<Rightarrow> Inl x
           | Inr r \<Rightarrow>
               (if re_Status r \<noteq> 200 then Inl (ErrStatus (re_Status r))
                else (case read_limited (maxImageBytes + 1) r of
                        None \<Rightarrow> Inl ErrRead
                      | Some body \<Rightarrow> (if length body > maxImageBytes then Inl ErrTooLarge else Inr body)))))"

section \<open>What is blocked\<close>

text \<open>The same as ranges of network addresses: a network and the length of its prefix.\<close>

definition byte_bits :: "8 word \<Rightarrow> bool list" where
  "byte_bits b = [bit b 7, bit b 6, bit b 5, bit b 4, bit b 3, bit b 2, bit b 1, bit b 0]"

definition bits_of :: "ip \<Rightarrow> bool list" where
  "bits_of x = concat (map byte_bits x)"

definition in_net :: "ip \<Rightarrow> ip \<times> nat \<Rightarrow> bool" where
  "in_net x net = (take (snd net) (bits_of x) = take (snd net) (bits_of (fst net)))"

definition v4_nets :: "(ip \<times> nat) list" where
  "v4_nets = [([127, 0, 0, 0], 8), ([10, 0, 0, 0], 8), ([172, 16, 0, 0], 12), ([192, 168, 0, 0], 16),
     ([169, 254, 0, 0], 16), ([0, 0, 0, 0], 32), ([224, 0, 0, 0], 4)]"

definition v6_nets :: "(ip \<times> nat) list" where
  "v6_nets = [(replicate 15 0 @ [1], 128), (replicate 16 0, 128), (0xFC # replicate 15 0, 7),
     ([0xFE, 0x80] @ replicate 14 0, 10), (0xFF # replicate 15 0, 8)]"

lemma below8: "(\<forall>n<8. P n) \<longleftrightarrow> P 7 \<and> P 6 \<and> P 5 \<and> P 4 \<and> P 3 \<and> P 2 \<and> P 1 \<and> P (0 :: nat)"
  by (auto simp: numeral_eq_Suc All_less_Suc)

lemma byte_ext: "(a :: 8 word) = b \<longleftrightarrow> (\<forall>n<8. bit a n = bit b n)"
  by (auto intro!: bit_word_eqI)

lemma mask_bits: "a AND m = b AND m \<longleftrightarrow> (\<forall>n<8. bit m n \<longrightarrow> bit a n = bit b n)" for a b m :: "8 word"
  unfolding byte_ext [of "a AND m"] by (auto simp: bit_and_iff)

lemma masks:
  "(a :: 8 word) AND 0xF0 = b AND 0xF0 \<longleftrightarrow> bit a 7 = bit b 7 \<and> bit a 6 = bit b 6 \<and> bit a 5 = bit b 5 \<and> bit a 4 = bit b 4"
  "a AND 0xC0 = b AND 0xC0 \<longleftrightarrow> bit a 7 = bit b 7 \<and> bit a 6 = bit b 6"
  "a AND 0xFE = b AND 0xFE \<longleftrightarrow> bit a 7 = bit b 7 \<and> bit a 6 = bit b 6 \<and> bit a 5 = bit b 5 \<and> bit a 4 = bit b 4
     \<and> bit a 3 = bit b 3 \<and> bit a 2 = bit b 2 \<and> bit a 1 = bit b 1"
  by (simp_all add: mask_bits below8)

lemma byte_bits_eq: "byte_bits a = byte_bits b \<longleftrightarrow> a = b"
  by (simp add: byte_bits_def byte_ext [of a] below8)

lemma byte_bits_length [simp]: "length (byte_bits b) = 8"
  by (simp add: byte_bits_def)

lemma bits_simps: "bits_of (b # x) = byte_bits b @ bits_of x" "bits_of [] = []"
  by (simp_all add: bits_of_def)

lemma in_net_8: "in_net (a # x) (c # y, 8 + n) \<longleftrightarrow> a = c \<and> in_net x (y, n)"
  by (simp add: in_net_def bits_simps byte_bits_eq)

lemmas in_net_bytes = in_net_8 [of _ _ _ _ 0, simplified] in_net_8 [of _ _ _ _ 4, simplified] in_net_8 [of _ _ _ _ 8, simplified]
  in_net_8 [of _ _ _ _ 2, simplified] in_net_8 [of _ _ _ _ 24, simplified] in_net_8 [of _ _ _ _ 16, simplified]

lemma in_net_part:
  "in_net x (y, 0)"
  "in_net (a # x) (c # y, 4) \<longleftrightarrow> a AND 0xF0 = c AND 0xF0"
  "in_net (a # x) (c # y, 2) \<longleftrightarrow> a AND 0xC0 = c AND 0xC0"
  "in_net (a # x) (c # y, 7) \<longleftrightarrow> a AND 0xFE = c AND 0xFE"
  unfolding masks by (simp_all add: in_net_def bits_simps byte_bits_def)

lemma in_net_whole: "length x = length y \<Longrightarrow> in_net x (y, 8 * length y) \<longleftrightarrow> x = y"
proof (induction x y rule: list_induct2)
  case (Cons a x b y)
  then show ?case using in_net_8 [of a x b y "8 * length y"] by simp
qed (simp add: in_net_part)

text \<open>The guard is membership in the listed networks, for both lengths, and does not depend on whether an IPv4
  address is written with 4 or with 16 bytes.\<close>

lemma not_zeros [simp]:
  "replicate 12 (0 :: 8 word) \<noteq> replicate 10 0 @ [255, 255]" "replicate 10 (0 :: 8 word) @ 255 # 255 # x \<noteq> replicate 16 0"
  by (auto dest!: arg_cong [where f = "\<lambda>l. l ! 10"] simp: nth_append)

lemma blocked_v4: "blocked [a, b, c, d] \<longleftrightarrow> list_ex (in_net [a, b, c, d]) v4_nets"
proof -
  have "b AND 0xF0 = 16 \<longleftrightarrow> b AND 0xF0 = 16 AND 0xF0" "a AND 0xF0 = 0xE0 \<longleftrightarrow> a AND 0xF0 = 0xE0 AND 0xF0"
    for a b :: "8 word" by simp_all
  then show ?thesis
    by (auto simp: blocked_def v4_nets_def in_net_bytes in_net_part IsLoopback_def IsPrivate_def IsLinkLocalUnicast_def
        IsLinkLocalMulticast_def IsUnspecified_def IsMulticast_def isIMDS_def To4_def ip_Equal_def net_IPv4_def
        v4InV6Prefix_def IPv6unspecified_def IPv6loopback_def)
qed

lemma To4_mapped: "length x = 4 \<Longrightarrow> To4 (v4InV6Prefix @ x) = Some x" "length x = 4 \<Longrightarrow> To4 x = Some x"
  by (simp_all add: To4_def v4InV6Prefix_def)

lemma blocked_mapped:
  assumes "length x = 4"
  shows "blocked (v4InV6Prefix @ x) \<longleftrightarrow> blocked x"
proof -
  have "ip_Equal (v4InV6Prefix @ x) (net_IPv4 a b c d) \<longleftrightarrow> ip_Equal x (net_IPv4 a b c d)" for a b c d
    using assms by (auto simp: ip_Equal_def net_IPv4_def v4InV6Prefix_def)
  moreover have "\<not> ip_Equal (v4InV6Prefix @ x) IPv6unspecified" "\<not> ip_Equal x IPv6unspecified"
    using assms by (auto simp: ip_Equal_def v4InV6Prefix_def IPv6unspecified_def)
  ultimately show ?thesis
    using To4_mapped [OF assms]
    by (simp add: blocked_def IsLoopback_def IsPrivate_def IsLinkLocalUnicast_def IsLinkLocalMulticast_def IsMulticast_def
        IsUnspecified_def isIMDS_def)
qed

lemma blocked_v6:
  assumes "length x = 16" "take 12 x \<noteq> v4InV6Prefix"
  shows "blocked x \<longleftrightarrow> list_ex (in_net x) v6_nets"
proof -
  obtain a b z where x: "x = a # b # z" using assms(1) by (cases x; cases "tl x") auto
  have t: "To4 x = None" using assms by (simp add: To4_def)
  have "in_net x (replicate 15 0 @ [1], 128) \<longleftrightarrow> x = IPv6loopback" "in_net x (replicate 16 0, 128) \<longleftrightarrow> x = IPv6unspecified"
    using in_net_whole [of x "replicate 15 0 @ [1]"] in_net_whole [of x "replicate 16 0"] assms(1)
    by (simp_all add: IPv6loopback_def IPv6unspecified_def)
  moreover have "\<not> ip_Equal x (net_IPv4 p q r s)" for p q r s
    using assms by (auto simp: ip_Equal_def net_IPv4_def v4InV6Prefix_def)
  moreover have "ip_Equal x IPv6loopback \<longleftrightarrow> x = IPv6loopback" "ip_Equal x IPv6unspecified \<longleftrightarrow> x = IPv6unspecified"
    using assms(1) by (simp_all add: ip_Equal_def IPv6loopback_def IPv6unspecified_def)
  moreover have "m AND 0xFE = 0xFC \<longleftrightarrow> m AND 0xFE = 0xFC AND 0xFE" "m AND 0xC0 = 0x80 \<longleftrightarrow> m AND 0xC0 = 0x80 AND 0xC0"
    for m :: "8 word" by simp_all
  ultimately show ?thesis
    using assms(1) t
    by (auto simp: x blocked_def v6_nets_def in_net_bytes in_net_part IsLoopback_def IsPrivate_def IsLinkLocalUnicast_def
        IsLinkLocalMulticast_def IsUnspecified_def IsMulticast_def isIMDS_def)
qed

section \<open>What a fetch can reach\<close>

text \<open>No listed network holds the address; an IPv4 address written in 16 bytes counts as its last four.\<close>

definition public :: "ip \<Rightarrow> bool" where
  "public x =
     (if length x = 4 then \<not> list_ex (in_net x) v4_nets
      else if take 12 x = v4InV6Prefix then \<not> list_ex (in_net (drop 12 x)) v4_nets
      else \<not> list_ex (in_net x) v6_nets)"

lemma blocked_public:
  assumes "length x = 4 \<or> length x = 16"
  shows "blocked x \<longleftrightarrow> \<not> public x"
proof -
  have four: "blocked y \<longleftrightarrow> list_ex (in_net y) v4_nets" if l: "length y = 4" for y
  proof -
    obtain a b c d where "y = [a, b, c, d]" using l by (auto simp: length_Suc_conv eval_nat_numeral)
    then show ?thesis by (simp only: blocked_v4)
  qed
  show ?thesis
  proof (cases "length x = 4")
    case True
    then show ?thesis by (simp add: public_def four)
  next
    case False
    then have l: "length x = 16" using assms by blast
    show ?thesis
    proof (cases "take 12 x = v4InV6Prefix")
      case True
      then have x: "x = v4InV6Prefix @ drop 12 x" by (metis append_take_drop_id)
      have d: "length (drop 12 x) = 4" using l by simp
      then have "blocked x \<longleftrightarrow> list_ex (in_net (drop 12 x)) v4_nets" using x blocked_mapped [OF d] four [OF d] by metis
      with True l show ?thesis by (simp add: public_def)
    next
      case False
      with l blocked_v6 [OF l False] show ?thesis by (simp add: public_def)
    qed
  qed
qed

lemma dial_vetted:
  assumes "DialContext isBlocked lookup addr = Inr x"
  shows "\<not> isBlocked x \<and> (\<exists>host port ips. addr = Some (host, port) \<and> lookup host = Some ips \<and> x \<in> set ips \<and> (\<forall>y\<in>set ips. \<not> isBlocked y))"
  using assms by (auto simp: DialContext_def find_None_iff split: option.splits list.splits)

lemma FetchImage_ok:
  assumes "FetchImage isBlocked lookup peer url = Inr body"
  obtains addr x r where "url = Some addr" "DialContext isBlocked lookup addr = Inr x" "peer x = Some r"
    "re_Status r = 200" "length body \<le> maxImageBytes" "body = re_Body r"
proof -
  obtain addr r where u: "url = Some addr" and d: "client_Do isBlocked lookup peer addr = Inr r" and st: "re_Status r = 200"
    and b: "read_limited (maxImageBytes + 1) r = Some body" "length body \<le> maxImageBytes"
    using assms by (auto simp: FetchImage_def not_less split: option.splits sum.splits if_splits)
  obtain x where "DialContext isBlocked lookup addr = Inr x" "peer x = Some r"
    using d by (auto simp: client_Do_def split: option.splits sum.splits if_splits)
  moreover have "body = take (maxImageBytes + 1) (re_Body r)"
    using b(1) by (auto simp: read_limited_def split: option.splits if_splits)
  then have "body = re_Body r" using b(2) by (cases "length (re_Body r) \<le> maxImageBytes") auto
  ultimately show ?thesis using that u st b(2) by blast
qed

text \<open>A form that is not in the list: the metadata address behind an IPv6 translator.\<close>

lemma translated_passes: "\<not> blocked ([0x00, 0x64, 0xFF, 0x9B] @ replicate 8 0 @ [169, 254, 169, 254])"
  by code_simp

end
