(* ===== verification/Social.thy ===== *)
theory Social
  imports Api Regex
begin

text \<open>
  The social channel of a room, \<^verbatim>\<open>internal/server/social.go\<close> with its payload in
  \<^verbatim>\<open>model/model.go\<close>: comments, gifts and likes. Texts are code points, as JSON decoding yields
  them. Then: what the sanitizer lets through, and that a frame goes out, and a counter moves, exactly when
  the request is answered with success.
\<close>

section \<open>The sanitizer\<close>

text \<open>\<^verbatim>\<open>strings.Fields\<close>, and \<^verbatim>\<open>strings.Join\<close> with one space.\<close>

function Fields :: "rune list \<Rightarrow> rune list list" where
  "Fields s =
     (let t = dropWhile IsSpace s
      in if t = [] then []
         else takeWhile (\<lambda>c. \<not> IsSpace c) t # Fields (dropWhile (\<lambda>c. \<not> IsSpace c) t))"
  by auto
termination
proof (relation "measure length", goal_cases)
  case (2 s t)
  then have "\<not> IsSpace (hd t)" "t \<noteq> []" by (simp_all only: hd_dropWhile not_False_eq_True)
  then have "dropWhile (\<lambda>c. \<not> IsSpace c) t = dropWhile (\<lambda>c. \<not> IsSpace c) (tl t)"
    by (cases t) simp_all
  then have "length (dropWhile (\<lambda>c. \<not> IsSpace c) t) \<le> length (tl t)"
    by (metis length_dropWhile_le)
  moreover have "length (tl t) < length t" using \<open>t \<noteq> []\<close> by (cases t) simp_all
  moreover have "length t \<le> length s" using 2 by (metis length_dropWhile_le)
  ultimately show ?case by simp
qed simp

declare Fields.simps [simp del]

fun join_spaced :: "rune list list \<Rightarrow> rune list" where
  "join_spaced [] = []"
| "join_spaced [w] = w"
| "join_spaced (w # ws) = w @ [32] @ join_spaced ws"

definition sanitizeSocialText :: "rune list \<Rightarrow> nat \<Rightarrow> rune list" where
  "sanitizeSocialText s maxRunes =
     take maxRunes (join_spaced (Fields (map (\<lambda>r. if r < 32 then 32 else r) s)))"

section \<open>Likes\<close>

text \<open>The counters of the gateway; an auction without one counts 0. \<open>None\<close> is the nil receiver.\<close>

type_synonym social_state = "(aid \<Rightarrow> int) option"

definition addLikes :: "aid \<Rightarrow> int \<Rightarrow> social_state \<Rightarrow> int \<times> social_state" where
  "addLikes aid delta ss =
     (case ss of
        None \<Rightarrow> (0, None)
      | Some likes \<Rightarrow>
          (let n = wrap64 (likes aid + delta); n' = (if n < 0 then 0 else n)
           in (n', Some (likes(aid := n')))))"

definition likeCount :: "aid \<Rightarrow> social_state \<Rightarrow> int" where
  "likeCount aid ss = (case ss of None \<Rightarrow> 0 | Some likes \<Rightarrow> likes aid)"

definition clampLikeDelta :: "int \<Rightarrow> int" where
  "clampLikeDelta d = (if d < 0 then -1 else 1)"

section \<open>The handler\<close>

record RoomSocialData =
  so_Kind :: string
  so_UserID :: uid
  so_DisplayName :: string
  so_Text :: "rune list"
  so_GiftID :: "rune list"
  so_GiftName :: "rune list"
  so_GiftEmoji :: "rune list"
  so_LikeDelta :: int
  so_LikeCount :: int
  so_ViewerCount :: int
  so_SimViewerCount :: int
  so_ServerTimeMs :: int

record social_body =
  sb_Kind :: string
  sb_Text :: "rune list"
  sb_GiftID :: "rune list"
  sb_GiftName :: "rune list"
  sb_GiftEmoji :: "rune list"
  sb_Delta :: int

text \<open>The envelope for the room: no sequence number. \<open>hub\<close> says whether there is a hub.\<close>

record social_frame =
  sf_AuctionID :: aid
  sf_ServerTimeMs :: int
  sf_Data :: RoomSocialData

definition broadcastSocial :: "bool \<Rightarrow> int \<Rightarrow> aid \<Rightarrow> RoomSocialData \<Rightarrow> social_frame option" where
  "broadcastSocial hub now aid data =
     (if \<not> hub then None
      else Some \<lparr>sf_AuctionID = aid, sf_ServerTimeMs = now, sf_Data = data\<rparr>)"

definition social_display :: "bool \<Rightarrow> uid \<Rightarrow> db \<Rightarrow> string" where
  "social_display up u d =
     (case UserNickname up u d of Inr nick \<Rightarrow> (if nick \<noteq> [] then nick else u) | Inl _ \<Rightarrow> u)"

text \<open>The switch on the kind: the payload and the counters, or what is wrong.\<close>

definition social_event ::
  "aid \<Rightarrow> social_body \<Rightarrow> RoomSocialData \<Rightarrow> social_state \<Rightarrow> (string + RoomSocialData) \<times> social_state" where
  "social_event aid b data ss =
     (if sb_Kind b = ''comment'' then
        (let t = sanitizeSocialText (sb_Text b) 60
         in (if t = [] then Inl ''empty comment'' else Inr (data\<lparr>so_Text := t\<rparr>), ss))
      else if sb_Kind b = ''gift'' then
        (let nm = sanitizeSocialText (sb_GiftName b) 24
         in (if nm = [] then Inl ''missing gift''
             else Inr (data\<lparr>so_GiftID := sanitizeSocialText (sb_GiftID b) 24, so_GiftName := nm,
                            so_GiftEmoji := sanitizeSocialText (sb_GiftEmoji b) 8\<rparr>), ss))
      else if sb_Kind b = ''like'' then
        (let delta = clampLikeDelta (sb_Delta b)
         in case addLikes aid delta ss of
              (n, ss') \<Rightarrow> (Inr (data\<lparr>so_LikeDelta := delta, so_LikeCount := n\<rparr>), ss'))
      else (Inl ''kind must be comment | gift | like'', ss))"

text \<open>\<open>t1\<close> and \<open>t2\<close> are the two readings of the clock.\<close>

definition handleSocial ::
  "api_env \<Rightarrow> bool \<Rightarrow> int \<Rightarrow> int \<Rightarrow> uid option \<Rightarrow> aid \<Rightarrow> social_body option \<Rightarrow> db \<Rightarrow> social_state
    \<Rightarrow> int resp \<times> social_frame option \<times> social_state" where
  "handleSocial e hub t1 t2 user aid body d ss =
     (case user of
        None \<Rightarrow> (unauthorized, None, ss)
      | Some u \<Rightarrow>
          (case GetAuction (ae_db e 0) aid d of
             Inl x \<Rightarrow> (if x = ErrNotFound then Fail 404 ''auction not found'' else internal, None, ss)
           | Inr a \<Rightarrow>
               (case body of
                  None \<Rightarrow> (Fail 400 ''invalid json body'', None, ss)
                | Some b \<Rightarrow>
                    (let data = \<lparr>so_Kind = sb_Kind b, so_UserID = u,
                           so_DisplayName = social_display (ae_db e 1) u d, so_Text = [],
                           so_GiftID = [], so_GiftName = [], so_GiftEmoji = [], so_LikeDelta = 0,
                           so_LikeCount = likeCount aid ss, so_ViewerCount = 0,
                           so_SimViewerCount = 0, so_ServerTimeMs = t1\<rparr>
                     in case social_event aid b data ss of
                          (Inl msg, ss') \<Rightarrow> (Fail 400 msg, None, ss')
                        | (Inr data', ss') \<Rightarrow>
                            (Ok (so_LikeCount data'), broadcastSocial hub t2 aid data', ss')))))"

section \<open>What the sanitizer lets through\<close>

lemma Fields_blank: "dropWhile IsSpace s = [] \<Longrightarrow> Fields s = []"
  by (subst Fields.simps) simp

lemma Fields_next:
  "dropWhile IsSpace s = t \<Longrightarrow> t \<noteq> []
    \<Longrightarrow> Fields s = takeWhile (\<lambda>c. \<not> IsSpace c) t # Fields (dropWhile (\<lambda>c. \<not> IsSpace c) t)"
  by (subst Fields.simps) (simp add: Let_def)

lemma Fields_words: "w \<in> set (Fields s) \<Longrightarrow> w \<noteq> [] \<and> (\<forall>c\<in>set w. \<not> IsSpace c \<and> c \<in> set s)"
proof (induction s rule: Fields.induct)
  case (1 s)
  define t where "t = dropWhile IsSpace s"
  have sub: "set t \<subseteq> set s" unfolding t_def by (meson set_dropWhileD subsetI)
  have ne: "t \<noteq> []" using 1(2) Fields_blank [of s] unfolding t_def by (metis empty_iff list.set(1))
  then have h: "\<not> IsSpace (hd t)" using hd_dropWhile [of IsSpace s] by (simp add: t_def)
  note step = Fields_next [OF t_def [symmetric] ne]
  from 1(2) consider "w = takeWhile (\<lambda>c. \<not> IsSpace c) t"
    | "w \<in> set (Fields (dropWhile (\<lambda>c. \<not> IsSpace c) t))"
    by (auto simp: step)
  then show ?case
  proof cases
    case a: 1
    with ne h have "w \<noteq> []" by (cases t) auto
    moreover from a have "\<forall>c\<in>set w. \<not> IsSpace c \<and> c \<in> set t" by (auto dest: set_takeWhileD)
    ultimately show ?thesis using sub by blast
  next
    case 2
    with 1(1) [OF t_def ne] show ?thesis using sub by (meson set_dropWhileD subsetD)
  qed
qed

text \<open>Lines of words with single spaces between them.\<close>

definition spaced :: "rune list \<Rightarrow> bool" where
  "spaced s \<longleftrightarrow> (\<forall>c\<in>set s. IsSpace c \<longrightarrow> c = 32) \<and> (s \<noteq> [] \<longrightarrow> hd s \<noteq> 32)
     \<and> (\<forall>i. Suc i < length s \<longrightarrow> \<not> (s ! i = 32 \<and> s ! Suc i = 32))"

lemma spaced_take: "spaced s \<Longrightarrow> spaced (take n s)"
  by (auto simp: spaced_def dest: in_set_takeD)

lemma spaced_word:
  assumes "w \<noteq> []" "\<forall>c\<in>set w. \<not> IsSpace c" shows "spaced w"
  unfolding spaced_def using assms
  by (metis IsSpace_def hd_in_set insertI1 nth_mem Suc_lessD)

lemma spaced_append:
  assumes w: "w \<noteq> []" "\<forall>c\<in>set w. \<not> IsSpace c" and t: "spaced t" "t \<noteq> []"
  shows "spaced (w @ [32] @ t)"
proof -
  have sp: "IsSpace 32" by (simp add: IsSpace_def)
  have "\<not> ((w @ [32] @ t) ! i = 32 \<and> (w @ [32] @ t) ! Suc i = 32)" if "Suc i < length (w @ [32] @ t)" for i
  proof -
    consider "i < length w" | "i = length w" | j where "i = length w + Suc j"
      by (metis add_Suc_right less_imp_Suc_add linorder_neqE_nat)
    then show ?thesis
    proof cases
      case 1
      then have "(w @ [32] @ t) ! i \<in> set w" by (simp add: nth_append)
      with w sp show ?thesis by metis
    next
      case 2
      with t show ?thesis by (cases t) (auto simp: spaced_def nth_append)
    next
      case 3
      with that t show ?thesis by (auto simp: spaced_def nth_append nth_Cons')
    qed
  qed
  moreover have "hd (w @ [32] @ t) \<noteq> 32" using w sp by (cases w) auto
  ultimately show ?thesis using w t by (auto simp: spaced_def)
qed

lemma spaced_join:
  "\<forall>w\<in>set ws. w \<noteq> [] \<and> (\<forall>c\<in>set w. \<not> IsSpace c) \<Longrightarrow> spaced (join_spaced ws) \<and> (ws \<noteq> [] \<longrightarrow> join_spaced ws \<noteq> [])"
proof (induction ws rule: join_spaced.induct)
  case (2 w)
  then show ?case by (simp add: spaced_word)
next
  case (3 w v vs)
  then show ?case using spaced_append [of w "join_spaced (v # vs)"] by simp
qed (simp add: spaced_def)

lemma set_join_spaced: "set (join_spaced ws) \<subseteq> insert 32 (\<Union>w\<in>set ws. set w)"
  by (induction ws rule: join_spaced.induct) auto

theorem sanitize_shape:
  "length (sanitizeSocialText s n) \<le> n \<and> spaced (sanitizeSocialText s n)
   \<and> (\<forall>c\<in>set (sanitizeSocialText s n). 32 \<le> c \<and> (c = 32 \<or> c \<in> set s))"
proof -
  let ?m = "map (\<lambda>r. if r < 32 then 32 else r) s"
  have ws: "\<forall>w\<in>set (Fields ?m). w \<noteq> [] \<and> (\<forall>c\<in>set w. \<not> IsSpace c)" using Fields_words by blast
  have "c = 32 \<or> c \<in> set ?m" if "c \<in> set (sanitizeSocialText s n)" for c
  proof -
    have "c \<in> set (join_spaced (Fields ?m))" using that by (auto simp: sanitizeSocialText_def dest: in_set_takeD)
    then show ?thesis using set_join_spaced [of "Fields ?m"] Fields_words by blast
  qed
  then have "\<forall>c\<in>set (sanitizeSocialText s n). 32 \<le> c \<and> (c = 32 \<or> c \<in> set s)" by fastforce
  moreover have "spaced (sanitizeSocialText s n)"
    unfolding sanitizeSocialText_def using spaced_join [OF ws] by (blast intro: spaced_take)
  ultimately show ?thesis by (simp add: sanitizeSocialText_def)
qed

text \<open>A line that is already in shape passes unchanged. The cut comes after the trimming, so a cut line can end
  in a space.\<close>

lemma takeWhile_word: "\<forall>c\<in>set w. \<not> IsSpace c \<Longrightarrow> IsSpace c \<Longrightarrow>
    takeWhile (\<lambda>c. \<not> IsSpace c) (w @ c # r) = w \<and> dropWhile (\<lambda>c. \<not> IsSpace c) (w @ c # r) = c # r"
  by (simp add: takeWhile_append dropWhile_append)

lemma Fields_Nil [simp]: "Fields [] = []"
  by (simp add: Fields_blank)

lemma Fields_word: "w \<noteq> [] \<Longrightarrow> \<forall>c\<in>set w. \<not> IsSpace c \<Longrightarrow> Fields w = [w]"
proof -
  assume w: "w \<noteq> []" "\<forall>c\<in>set w. \<not> IsSpace c"
  have "dropWhile IsSpace w = w" using w by (cases w) simp_all
  moreover have "takeWhile (\<lambda>c. \<not> IsSpace c) w = w" "dropWhile (\<lambda>c. \<not> IsSpace c) w = []" using w by simp_all
  ultimately show ?thesis using w(1) Fields_next [of w w] by (simp only: Fields_Nil simp_thms)
qed

lemma Fields_Cons:
  "w \<noteq> [] \<Longrightarrow> \<forall>c\<in>set w. \<not> IsSpace c \<Longrightarrow> Fields (w @ 32 # r) = w # Fields r"
proof -
  assume w: "w \<noteq> []" "\<forall>c\<in>set w. \<not> IsSpace c"
  have sp: "IsSpace 32" by (simp add: IsSpace_def)
  have t: "dropWhile IsSpace (w @ 32 # r) = w @ 32 # r" using w by (cases w) simp_all
  have skip: "Fields (32 # r) = Fields r" using sp by (simp add: Fields.simps [of "32 # r"] Fields.simps [of r])
  show ?thesis using w takeWhile_word [OF w(2) sp]
    by (simp add: Fields_next [OF t] skip)
qed

lemma Fields_join:
  "\<forall>w\<in>set ws. w \<noteq> [] \<and> (\<forall>c\<in>set w. \<not> IsSpace c) \<Longrightarrow> Fields (join_spaced ws) = ws"
  by (induction ws rule: join_spaced.induct) (simp_all add: Fields_word Fields_Cons)

theorem sanitize_idem:
  assumes "length (join_spaced (Fields (map (\<lambda>r. if r < 32 then 32 else r) s))) \<le> n"
  shows "sanitizeSocialText (sanitizeSocialText s n) n = sanitizeSocialText s n"
proof -
  let ?t = "join_spaced (Fields (map (\<lambda>r. if r < 32 then 32 else r) s))"
  have t: "sanitizeSocialText s n = ?t" using assms by (simp add: sanitizeSocialText_def)
  have "map (\<lambda>r. if r < 32 then 32 else r) ?t = ?t"
    using sanitize_shape [of s n] unfolding t by (auto intro!: map_idI)
  moreover have "Fields ?t = Fields (map (\<lambda>r. if r < 32 then 32 else r) s)"
    using Fields_words by (intro Fields_join) blast
  ultimately show ?thesis using assms by (simp add: sanitizeSocialText_def)
qed

lemma cut_in_space: "sanitizeSocialText (runes ''ab c'') 3 = runes ''ab ''"
  by (simp add: sanitizeSocialText_def runes_def Fields.simps IsSpace_def)

section \<open>The handler\<close>

lemma addLikes_bounds:
  assumes "addLikes aid delta ss = (n, ss')"
  shows "0 \<le> n" "likeCount aid ss' = n" "\<And>a. a \<noteq> aid \<Longrightarrow> likeCount a ss' = likeCount a ss"
  using assms by (auto simp: addLikes_def likeCount_def Let_def split: option.splits)

lemma addLikes_step:
  assumes "0 \<le> likes aid" "likes aid < 2 ^ 63 - 1"
  shows "fst (addLikes aid (clampLikeDelta d) (Some likes))
     = (if d < 0 then max 0 (likes aid - 1) else likes aid + 1)"
proof -
  have "int64 (likes aid + clampLikeDelta d)" using assms by (simp add: int64_def clampLikeDelta_def)
  then show ?thesis using assms(1) by (simp add: addLikes_def clampLikeDelta_def Let_def)
qed

lemma social_event_kinds:
  assumes "social_event aid b data ss = (Inr data', ss')"
  shows "sb_Kind b \<in> {''comment'', ''gift'', ''like''}"
    and "so_Kind data' = so_Kind data \<and> so_UserID data' = so_UserID data \<and> so_DisplayName data' = so_DisplayName data"
    and "sb_Kind b = ''comment'' \<Longrightarrow> so_Text data' = sanitizeSocialText (sb_Text b) 60 \<and> so_Text data' \<noteq> []"
    and "sb_Kind b = ''gift'' \<Longrightarrow> so_GiftName data' = sanitizeSocialText (sb_GiftName b) 24 \<and> so_GiftName data' \<noteq> []"
    and "so_LikeCount data = likeCount aid ss \<Longrightarrow> so_LikeCount data' = likeCount aid ss'"
    and "sb_Kind b \<noteq> ''like'' \<Longrightarrow> ss' = ss"
  using assms by (auto simp: social_event_def Let_def addLikes_bounds split: if_splits prod.splits)

lemma social_event_refused: "social_event aid b data ss = (Inl m, ss') \<Longrightarrow> ss' = ss"
  by (auto simp: social_event_def Let_def split: if_splits prod.splits)

theorem social_answer:
  assumes "handleSocial e True t1 t2 user aid body d ss = (r, fr, ss')"
  shows "(case fr of
            None \<Rightarrow> (\<forall>n. r \<noteq> Ok n) \<and> ss' = ss
          | Some f \<Rightarrow> r = Ok (likeCount aid ss') \<and> sf_AuctionID f = aid
              \<and> so_LikeCount (sf_Data f) = likeCount aid ss' \<and> user = Some (so_UserID (sf_Data f)))"
proof (cases user)
  case None
  with assms show ?thesis by (auto simp: handleSocial_def unauthorized_def)
next
  case u: (Some u)
  show ?thesis
  proof (cases "\<exists>a b. GetAuction (ae_db e 0) aid d = Inr a \<and> body = Some b")
    case False
    with assms u show ?thesis
      by (auto simp: handleSocial_def internal_def split: sum.splits option.splits if_splits)
  next
    case True
    then obtain a b where ab: "GetAuction (ae_db e 0) aid d = Inr a" "body = Some b" by blast
    define data where "data = \<lparr>so_Kind = sb_Kind b, so_UserID = u,
      so_DisplayName = social_display (ae_db e 1) u d, so_Text = [], so_GiftID = [], so_GiftName = [],
      so_GiftEmoji = [], so_LikeDelta = 0, so_LikeCount = likeCount aid ss, so_ViewerCount = 0,
      so_SimViewerCount = 0, so_ServerTimeMs = t1\<rparr>"
    have ev: "handleSocial e True t1 t2 user aid body d ss =
        (case social_event aid b data ss of
           (Inl msg, ss') \<Rightarrow> (Fail 400 msg, None, ss')
         | (Inr data', ss') \<Rightarrow> (Ok (so_LikeCount data'), broadcastSocial True t2 aid data', ss'))"
      by (simp add: handleSocial_def u ab data_def Let_def)
    obtain x ss1 where x: "social_event aid b data ss = (x, ss1)" by fastforce
    show ?thesis
    proof (cases x)
      case (Inl m)
      with assms x show ?thesis by (auto simp: ev dest: social_event_refused)
    next
      case (Inr data')
      note k = social_event_kinds [OF x [unfolded Inr]]
      have "so_LikeCount data' = likeCount aid ss1" "so_UserID data' = u"
        using k(5) k(2) by (simp_all add: data_def)
      moreover have "(r, fr, ss') = (Ok (so_LikeCount data'), broadcastSocial True t2 aid data', ss1)"
        using assms unfolding ev x Inr by simp
      ultimately show ?thesis by (simp add: broadcastSocial_def u)
    qed
  qed
qed

end
