(* ===== verification/Advisor.thy ===== *)
theory Advisor
  imports Guardrail Decimal GoStrings
begin

text \<open>
  The price and mode advice of the AI sidecar, \<^verbatim>\<open>internal/advisor/advisor.go\<close>. The generator is
  an argument; the built-in one is \<open>MockGenerator\<close>. Then: every answer is complete and advisory, its text
  passes the guard, the amounts the program computes itself are in order and within their bounds, and the
  arithmetic never wraps.
\<close>

datatype AdviceMode = ModeOpen | ModeSealedThenOpen | OtherMode string

record SealedSummary =
  ss_Count :: int
  ss_MaxCents :: string
  ss_SecondCents :: string
  ss_MedianCents :: string

record AdvRequest =
  aq_EstValueCents :: string
  aq_OnlineViewers :: int
  aq_HistoricalSoldCents :: "string list"
  aq_SealedSummary :: "SealedSummary option"

record Advice =
  ad_Mode :: AdviceMode
  ad_StartPriceCents :: string
  ad_StepCents :: string
  ad_ReserveCents :: string
  ad_Rationale :: "rune list"

record AdvResponse =
  av_AdvisoryOnly :: bool
  av_RecommendedMode :: AdviceMode
  av_EngineModeHint :: string
  av_StartPriceCents :: string
  av_StepCents :: string
  av_ReserveCents :: string
  av_Rationale :: "rune list"
  av_Disclaimer :: string
  av_Fallback :: bool
  av_ModelName :: string

definition disclaimer :: string where
  "disclaimer = ''AI advice is for reference only: the seller confirms it, and the backend adjudicates the final sale and terminal state.''"

definition safeRationale :: "rune list" where
  "safeRationale = runes ''Derived from the item estimate and viewers online; the seller confirms it.''"

section \<open>Amounts\<close>

definition maxSaneCents :: int where "maxSaneCents = 1000000000000000"

definition parseCents :: "string \<Rightarrow> int" where
  "parseCents s =
     (case ParseInt (TrimSpace s) of
        POk n \<Rightarrow> (if n < 0 then 0 else if n > maxSaneCents then maxSaneCents else n)
      | _ \<Rightarrow> 0)"

definition maxCents :: "string list \<Rightarrow> int" where
  "maxCents xs = foldl (\<lambda>m s. if parseCents s > m then parseCents s else m) 0 xs"

definition roundStep :: "int \<Rightarrow> int" where
  "roundStep raw = (if raw < 10000 then 10000 else wrap64 (raw div 10000 * 10000))"

text \<open>A percentage of a non-negative amount, as the code writes it.\<close>

definition share :: "int \<Rightarrow> int \<Rightarrow> int" where
  "share anchor p = wrap64 (anchor * p) div 100"

section \<open>The built-in generator\<close>

definition adviceFromSealed :: "SealedSummary \<Rightarrow> Advice option" where
  "adviceFromSealed s =
     (let mx = parseCents (ss_MaxCents s); second = parseCents (ss_SecondCents s);
          median = parseCents (ss_MedianCents s); step = FormatInt (roundStep (mx div 100))
      in if mx \<le> 0 then None
         else if second > 0 \<and> mx \<ge> wrap64 (second * 13) div 10
         then Some \<lparr>ad_Mode = ModeOpen, ad_StartPriceCents = FormatInt second, ad_StepCents = step,
                    ad_ReserveCents = FormatInt second,
                    ad_Rationale = runes ''The top sealed bid far exceeds the runner-up; close now and lock it in.''\<rparr>
         else (let floor = (if median \<le> 0 then (if second > 0 then second else mx) else median)
               in Some \<lparr>ad_Mode = ModeOpen, ad_StartPriceCents = FormatInt floor, ad_StepCents = step,
                        ad_ReserveCents = FormatInt floor,
                        ad_Rationale = runes ''Sealed bids cluster; start at the median and let the open auction climb.''\<rparr>))"

definition price_anchor :: "AdvRequest \<Rightarrow> int \<times> bool" where
  "price_anchor q =
     (let est = parseCents (aq_EstValueCents q); hi = maxCents (aq_HistoricalSoldCents q)
      in if hi > est then (hi, True) else (est, False))"

definition MockGenerator :: "AdvRequest \<Rightarrow> Advice option" where
  "MockGenerator q =
     (case (case aq_SealedSummary q of Some s \<Rightarrow> (if ss_Count s > 0 then Some s else None) | None \<Rightarrow> None) of
        Some s \<Rightarrow> adviceFromSealed s
      | None \<Rightarrow>
          (let (anchor, hist) = price_anchor q;
               source = (if hist then ''historical sales'' else ''the seller'' @ [CHR 39] @ ''s estimate'');
               crowd = aq_OnlineViewers q \<ge> 200
           in if anchor \<le> 0 then None
              else Some \<lparr>ad_Mode = (if crowd then ModeSealedThenOpen else ModeOpen),
                         ad_StartPriceCents = FormatInt (share anchor 60),
                         ad_StepCents = FormatInt (roundStep (anchor div 100)),
                         ad_ReserveCents = FormatInt (share anchor 80),
                         ad_Rationale = runes (''Anchored on '' @ source @
                           (if crowd then ''; big crowd, so run a sealed warm-up first.''
                            else ''; a low start draws bidding up, reserve ~80%.''))\<rparr>))"

section \<open>The endpoint\<close>

definition engineModeHint :: "AdviceMode \<Rightarrow> string" where
  "engineModeHint m = (case m of ModeSealedThenOpen \<Rightarrow> ''PREQUALIFY'' | _ \<Rightarrow> ''ENGLISH'')"

definition fallbackResponse :: "AdvRequest \<Rightarrow> AdvResponse" where
  "fallbackResponse q =
     (let a = fst (price_anchor q); anchor = (if a \<le> 0 then 10000000 else a)
      in \<lparr>av_AdvisoryOnly = True, av_RecommendedMode = ModeOpen,
          av_EngineModeHint = engineModeHint ModeOpen, av_StartPriceCents = FormatInt (share anchor 60),
          av_StepCents = FormatInt (roundStep (anchor div 100)),
          av_ReserveCents = FormatInt (share anchor 80), av_Rationale = safeRationale,
          av_Disclaimer = disclaimer, av_Fallback = True, av_ModelName = ''mock-advisor-111''\<rparr>)"

definition recommendWithGuardrail :: "AdvRequest \<Rightarrow> (AdvRequest \<Rightarrow> Advice option) \<Rightarrow> AdvResponse" where
  "recommendWithGuardrail q generate =
     (case generate q of
        None \<Rightarrow> fallbackResponse q
      | Some adv \<Rightarrow>
          (let mode = (if ad_Mode adv \<noteq> ModeOpen \<and> ad_Mode adv \<noteq> ModeSealedThenOpen then ModeOpen else ad_Mode adv);
               rationale = (if failsGuardrail (ad_Rationale adv) \<noteq> None then safeRationale else ad_Rationale adv)
           in \<lparr>av_AdvisoryOnly = True, av_RecommendedMode = mode, av_EngineModeHint = engineModeHint mode,
               av_StartPriceCents = ad_StartPriceCents adv, av_StepCents = ad_StepCents adv,
               av_ReserveCents = ad_ReserveCents adv, av_Rationale = rationale,
               av_Disclaimer = disclaimer, av_Fallback = False, av_ModelName = ''mock-advisor-111''\<rparr>))"

text \<open>The handler: status and answer; \<open>None\<close> is a body that does not decode or is over 64 KiB.\<close>

definition HandlerFunc :: "(AdvRequest \<Rightarrow> Advice option) \<Rightarrow> AdvRequest option \<Rightarrow> int \<times> AdvResponse option" where
  "HandlerFunc generate body =
     (case body of None \<Rightarrow> (400, None) | Some q \<Rightarrow> (200, Some (recommendWithGuardrail q generate)))"

section \<open>Bounds\<close>

lemma parseCents_bounds: "0 \<le> parseCents s" "parseCents s \<le> maxSaneCents"
  by (simp_all add: parseCents_def maxSaneCents_def split: parsed.splits)

lemma parseCents_FormatInt:
  "0 \<le> n \<Longrightarrow> n \<le> maxSaneCents \<Longrightarrow> TrimSpace (FormatInt n) = FormatInt n \<Longrightarrow> parseCents (FormatInt n) = n"
  by (simp add: parseCents_def maxSaneCents_def int64_def)

lemma maxCents_snoc: "maxCents (xs @ [x]) = max (maxCents xs) (parseCents x)"
  by (simp add: maxCents_def)

lemma maxCents_Max: "maxCents xs = Max (insert 0 (parseCents ` set xs))"
proof (induction xs rule: rev_induct)
  case (snoc x xs)
  have "Max (insert 0 (parseCents ` set (xs @ [x]))) = Max (insert (parseCents x) (insert 0 (parseCents ` set xs)))"
    by (simp add: insert_commute)
  also have "\<dots> = max (parseCents x) (maxCents xs)" unfolding snoc by (rule Max_insert) simp_all
  finally show ?case by (simp add: maxCents_snoc max.commute)
qed (simp add: maxCents_def)

lemma maxCents_bounds: "0 \<le> maxCents xs" "maxCents xs \<le> maxSaneCents"
proof -
  show "0 \<le> maxCents xs" by (simp add: maxCents_Max)
  show "maxCents xs \<le> maxSaneCents"
    using parseCents_bounds by (simp add: maxCents_Max) (simp add: maxSaneCents_def)
qed

lemma anchor_bounds: "0 \<le> fst (price_anchor q)" "fst (price_anchor q) \<le> maxSaneCents"
  using parseCents_bounds maxCents_bounds by (simp_all add: price_anchor_def Let_def)

lemma share_exact: "0 \<le> a \<Longrightarrow> a \<le> maxSaneCents \<Longrightarrow> 0 \<le> p \<Longrightarrow> p \<le> 100 \<Longrightarrow> share a p = a * p div 100"
proof -
  assume a: "0 \<le> a" "a \<le> maxSaneCents" "0 \<le> p" "p \<le> 100"
  then have "a * p \<le> maxSaneCents * 100" by (intro mult_mono) simp_all
  moreover have "0 \<le> a * p" using a by simp
  ultimately have "int64 (a * p)" by (simp add: int64_def maxSaneCents_def)
  then show ?thesis by (simp add: share_def)
qed

lemma roundStep_grid:
  assumes "raw \<le> maxSaneCents"
  shows "roundStep raw mod 10000 = 0" "10000 \<le> roundStep raw" "roundStep raw \<le> max 10000 raw"
proof -
  have m: "raw div 10000 * 10000 = raw - raw mod 10000" by (simp add: minus_mod_eq_div_mult)
  have "raw \<ge> 10000 \<Longrightarrow> int64 (raw div 10000 * 10000)" using assms
    by (simp add: m int64_def maxSaneCents_def) (smt (verit) pos_mod_bound pos_mod_sign)
  then have r: "roundStep raw = (if raw < 10000 then 10000 else raw div 10000 * 10000)"
    by (simp add: roundStep_def)
  show "roundStep raw mod 10000 = 0" by (simp add: r)
  show "10000 \<le> roundStep raw" by (simp add: r) (smt (verit) zdiv_mono1 div_self)
  show "roundStep raw \<le> max 10000 raw" by (simp add: r m)
qed

section \<open>Every answer\<close>

lemma safe_passes: "failsGuardrail safeRationale = None"
proof -
  have "plain safeRationale \<and> safeRationale \<noteq> [] \<and> length safeRationale \<le> 80
      \<and> \<not> list_ex (has_sub safeRationale) bannedWords" by code_simp
  then show ?thesis using plain_passes [of safeRationale] guards_agree [of safeRationale] by simp
qed

theorem advice_guarded:
  "failsGuardrail (av_Rationale (recommendWithGuardrail q g)) = None
   \<and> av_AdvisoryOnly (recommendWithGuardrail q g) \<and> av_Disclaimer (recommendWithGuardrail q g) = disclaimer
   \<and> (av_RecommendedMode (recommendWithGuardrail q g), av_EngineModeHint (recommendWithGuardrail q g))
       \<in> {(ModeOpen, ''ENGLISH''), (ModeSealedThenOpen, ''PREQUALIFY'')}
   \<and> (av_Fallback (recommendWithGuardrail q g) \<longleftrightarrow> g q = None)"
  by (cases "g q") (auto simp: recommendWithGuardrail_def fallbackResponse_def Let_def safe_passes engineModeHint_def
    split: AdviceMode.splits)

text \<open>Amounts in order: start below reserve, reserve below the anchor, a step on the grid.\<close>

definition sound_amounts :: "string \<Rightarrow> string \<Rightarrow> string \<Rightarrow> bool" where
  "sound_amounts start step reserve \<longleftrightarrow>
     (\<exists>a p r. start = FormatInt a \<and> step = FormatInt p \<and> reserve = FormatInt r \<and>
        0 \<le> a \<and> a \<le> r \<and> r \<le> maxSaneCents \<and> 10000 \<le> p \<and> p mod 10000 = 0 \<and> p \<le> maxSaneCents)"

lemma sound_shares:
  assumes "0 \<le> a" "a \<le> maxSaneCents"
  shows "sound_amounts (FormatInt (share a 60)) (FormatInt (roundStep (a div 100))) (FormatInt (share a 80))"
proof -
  have d: "a div 100 \<le> maxSaneCents" using assms by (simp add: maxSaneCents_def)
  note g = roundStep_grid [OF d]
  have "a * 60 div 100 \<le> a * 80 div 100" using assms by (intro zdiv_mono1) simp_all
  moreover have "a * 80 div 100 \<le> maxSaneCents" using assms by (simp add: maxSaneCents_def)
  moreover have "roundStep (a div 100) \<le> maxSaneCents" using g(3) d by (simp add: maxSaneCents_def)
  moreover have "0 \<le> a * 60 div 100" using assms by simp
  ultimately show ?thesis using assms g(1,2) unfolding sound_amounts_def share_exact [OF assms]
    by (intro exI conjI) (rule refl | simp add: share_exact)+
qed

lemma sound_sealed:
  assumes "adviceFromSealed s = Some adv"
  shows "sound_amounts (ad_StartPriceCents adv) (ad_StepCents adv) (ad_ReserveCents adv)"
proof -
  let ?m = "parseCents (ss_MaxCents s)"
  have d: "?m div 100 \<le> maxSaneCents" using parseCents_bounds [of "ss_MaxCents s"] by (simp add: maxSaneCents_def)
  note g = roundStep_grid [OF d]
  have st: "roundStep (?m div 100) \<le> maxSaneCents" using g(3) d by (simp add: maxSaneCents_def)
  obtain f where f: "ad_StartPriceCents adv = FormatInt f" "ad_ReserveCents adv = FormatInt f"
    "ad_StepCents adv = FormatInt (roundStep (?m div 100))" "0 \<le> f" "f \<le> maxSaneCents"
    using assms parseCents_bounds
    by (auto simp: adviceFromSealed_def Let_def split: if_splits)
  then show ?thesis unfolding sound_amounts_def f(1-3)
    using g(1,2) st by (intro exI conjI) (rule refl | assumption | simp)+
qed

theorem advice_amounts:
  "let r = recommendWithGuardrail q MockGenerator
   in sound_amounts (av_StartPriceCents r) (av_StepCents r) (av_ReserveCents r)"
proof (cases "MockGenerator q")
  case None
  have "sound_amounts (av_StartPriceCents (fallbackResponse q)) (av_StepCents (fallbackResponse q))
      (av_ReserveCents (fallbackResponse q))"
    using anchor_bounds [of q] sound_shares [of 10000000] sound_shares [of "fst (price_anchor q)"]
    by (simp add: fallbackResponse_def Let_def maxSaneCents_def)
  with None show ?thesis by (simp add: recommendWithGuardrail_def)
next
  case (Some adv)
  have "sound_amounts (ad_StartPriceCents adv) (ad_StepCents adv) (ad_ReserveCents adv)"
    using Some anchor_bounds [of q]
    by (auto simp: MockGenerator_def Let_def sound_sealed sound_shares split: option.splits if_splits prod.splits)
  with Some show ?thesis by (simp add: recommendWithGuardrail_def Let_def)
qed

text \<open>The built-in texts pass as they are.\<close>

definition mock_rationales :: "string list" where
  "mock_rationales =
    [''Anchored on historical sales; big crowd, so run a sealed warm-up first.'',
     ''Anchored on the seller'' @ [CHR 39] @ ''s estimate; big crowd, so run a sealed warm-up first.'',
     ''The top sealed bid far exceeds the runner-up; close now and lock it in.'',
     ''Sealed bids cluster; start at the median and let the open auction climb.'',
     ''Anchored on historical sales; a low start draws bidding up, reserve ~80%.'',
     ''Anchored on the seller'' @ [CHR 39] @ ''s estimate; a low start draws bidding up, reserve ~80%.'']"

lemma mock_rationales_pass: "\<forall>t\<in>set mock_rationales. failsGuardrail (runes t) = None"
proof -
  have plain: "list_all (\<lambda>t. plain (runes t) \<and> runes t \<noteq> [] \<and> length (runes t) \<le> 80
      \<and> \<not> list_ex (has_sub (runes t)) bannedWords) (take 4 mock_rationales)"
    by code_simp
  have "failsGuardrail (runes t) = None" if "t \<in> set (take 4 mock_rationales)" for t
    using that plain plain_passes [of "runes t"] guards_agree [of "runes t"] by (auto simp: list_all_iff)
  moreover have "list_all (\<lambda>t. failsGuardrail (runes t) = None) (drop 4 mock_rationales)" by code_simp
  moreover have "set mock_rationales = set (take 4 mock_rationales) \<union> set (drop 4 mock_rationales)"
    by (metis append_take_drop_id set_append)
  ultimately show ?thesis unfolding list_all_iff by (metis Un_iff)
qed

lemma mock_texts:
  assumes "MockGenerator q = Some adv" shows "av_Rationale (recommendWithGuardrail q MockGenerator) = ad_Rationale adv"
proof -
  have "ad_Rationale adv \<in> runes ` set mock_rationales"
    using assms unfolding mock_rationales_def
    by (simp add: MockGenerator_def adviceFromSealed_def Let_def case_prod_beta split: option.splits if_splits) auto
  then obtain t where "t \<in> set mock_rationales" "ad_Rationale adv = runes t" by (rule imageE)
  then have "failsGuardrail (ad_Rationale adv) = None" using mock_rationales_pass by metis
  with assms show ?thesis by (simp add: recommendWithGuardrail_def Let_def)
qed

end
