(* ===== verification/Crowd.thy ===== *)
theory Crowd
  imports Complex_Main Social Hub Store
begin

text \<open>
  The simulated crowd of a demo room, \<^verbatim>\<open>internal/server/crowd.go\<close>. The ticks of one run are steps; what
  the random source and the clocks give are arguments, as are the ramp of the viewer number and the
  pace of the bids, which are floating-point formulas. Then: a simulated bid follows the rules,
  never ends an auction, never moves its end, and leaves the room as one more ascending bid would.
\<close>

section \<open>The next amount\<close>

text \<open>\<open>r\<close> is the draw from [0, 1).\<close>

definition first_k :: "rat \<Rightarrow> nat" where
  "first_k r = (if r > 94 / 100 then 3 else if r > 78 / 100 then 2 else 1)"

fun try_amount :: "int \<Rightarrow> int \<Rightarrow> int \<Rightarrow> nat \<Rightarrow> int option" where
  "try_amount cur step cap 0 = None"
| "try_amount cur step cap (Suc k) =
     (let amount = wrap64 (cur + wrap64 (int (Suc k) * step))
      in if amount > MaxMoneyCents then try_amount cur step cap k
         else if cap > 0 \<and> amount \<ge> cap then try_amount cur step cap k
         else Some amount)"

definition nextCrowdAmount :: "int \<Rightarrow> int \<Rightarrow> int \<Rightarrow> rat \<Rightarrow> int option" where
  "nextCrowdAmount currentCents stepCents capCents r =
     (if stepCents \<le> 0 then None else try_amount currentCents stepCents capCents (first_k r))"

text \<open>\<open>d\<close> is the draw from 0 to 3.\<close>

definition crowdLikesDelta :: "int \<Rightarrow> int \<Rightarrow> int" where
  "crowdLikesDelta viewers d = viewers div 900 + d"

definition crowdEnabled :: "bool \<Rightarrow> bool option \<Rightarrow> bool" where
  "crowdEnabled envDefault override = (case override of Some b \<Rightarrow> b | None \<Rightarrow> envDefault)"

section \<open>The runs of a gateway\<close>

text \<open>Which rooms have a run, with its cancellation flag and its viewer number. \<open>None\<close> for the whole is the
  nil receiver.\<close>

record crowd_slot =
  cw_cancelled :: bool
  cw_viewers :: int

type_synonym crowd_runs = "aid \<rightharpoonup> crowd_slot"

definition ViewerBoost :: "crowd_runs option \<Rightarrow> aid \<Rightarrow> int" where
  "ViewerBoost c aid = (case c of None \<Rightarrow> 0 | Some runs \<Rightarrow> (case runs aid of None \<Rightarrow> 0 | Some w \<Rightarrow> cw_viewers w))"

text \<open>Whether a run was launched, and the runs.\<close>

definition MaybeStart :: "bool \<Rightarrow> aid \<Rightarrow> bool option \<Rightarrow> crowd_runs option \<Rightarrow> bool \<times> crowd_runs option" where
  "MaybeStart defaultOn aid override c =
     (case c of
        None \<Rightarrow> (False, None)
      | Some runs \<Rightarrow>
          (if aid = [] \<or> \<not> crowdEnabled defaultOn override then (False, Some runs)
           else if runs aid \<noteq> None then (False, Some runs)
           else (True, Some (runs(aid \<mapsto> \<lparr>cw_cancelled = False, cw_viewers = 0\<rparr>)))))"

definition crowd_Stop :: "aid \<Rightarrow> crowd_runs option \<Rightarrow> crowd_runs option" where
  "crowd_Stop aid c =
     map_option (\<lambda>runs. case runs aid of None \<Rightarrow> runs | Some w \<Rightarrow> runs(aid \<mapsto> w\<lparr>cw_cancelled := True\<rparr>)) c"

text \<open>The deferred removal when the goroutine ends.\<close>

definition crowd_finish :: "aid \<Rightarrow> crowd_runs option \<Rightarrow> crowd_runs option" where
  "crowd_finish aid c = map_option (\<lambda>runs. runs(aid := None)) c"

section \<open>The bidders\<close>

definition crowdNicknames :: "string list" where
  "crowdNicknames = [
    ''MarcusFromBeijing'', ''DanaTheDesigner'', ''AlexInGuangzhou'', ''LunaOfHangzhou'', ''WayneShenzhen'',
    ''ChengduChili'', ''MountainCitySpice'', ''NanjingPlane'', ''WuhanNoodles'', ''XianTerracotta'',
    ''SuzhouGardens'', ''TianjinComedy'', ''ChangshaTea'', ''QingdaoSeaBreeze'', ''XiamenIslander'',
    ''CousinCollects'', ''AppraisalWhiz'', ''BargainCaptain'', ''SensibleBidder'', ''NeverBlinks'',
    ''WatchGourmand'', ''BagConnoisseur'', ''SneakerAnalyst'', ''StylistVv'', ''VintageHoarder'',
    ''RoomRegular'', ''NightOwlBuyer'', ''WeekendPicker'', ''PennyWiseAuntie'', ''BigSpenderEnergy'',
    ''QuietMystery'', ''PassingExpert'', ''UncleKnowsBest'', ''CuriousLee'', ''ThreeHourStakeout'',
    ''DeadSetOnIt'', ''WhalePlayer'', ''CalmAnalyst'', ''SpotsItInstantly'', ''RookieMisread'',
    ''HappyCheckout'', ''PaydayJustLanded'', ''BrokeNextMonth'', ''BiddingForMyWife'', ''PaddleForTheBoss'',
    ''AnonCollector007'', ''SouthernCollectors'', ''NorthernRegular'']"

record crowd_user =
  cu_id :: uid
  cu_nick :: string

definition sim_id :: "nat \<Rightarrow> uid" where
  "sim_id n = ''user_sim'' @ (if n < 10 then ''0'' else []) @ FormatInt (int n)"

text \<open>The loop of \<^verbatim>\<open>ensureSimUsers\<close> from position \<open>i\<close>; \<open>up\<close> says which writes answer. The result is kept for the
  life of the process, \<open>seeded\<close>.\<close>

fun seed_users :: "(nat \<Rightarrow> bool) \<Rightarrow> nat \<Rightarrow> string list \<Rightarrow> db \<Rightarrow> crowd_user list \<times> db" where
  "seed_users up i [] d = ([], d)"
| "seed_users up i (nick # ns) d =
     (case UpsertUser (up i) (sim_id (i + 1)) nick ''user'' d of
        (Some x, d') \<Rightarrow> seed_users up (i + 1) ns d'
      | (None, d') \<Rightarrow>
          (case seed_users up (i + 1) ns d' of
             (us, d2) \<Rightarrow> (\<lparr>cu_id = sim_id (i + 1), cu_nick = nick\<rparr> # us, d2)))"

definition ensureSimUsers ::
  "(nat \<Rightarrow> bool) \<Rightarrow> crowd_user list option \<Rightarrow> db \<Rightarrow> crowd_user list \<times> crowd_user list option \<times> db" where
  "ensureSimUsers up seeded d =
     (case seeded of
        Some us \<Rightarrow> (us, Some us, d)
      | None \<Rightarrow> (case seed_users up 0 crowdNicknames d of (us, d') \<Rightarrow> (us, Some us, d')))"

section \<open>The loop\<close>

record crowd_run =
  cr_bidsDone :: int
  cr_bidsStopped :: bool
  cr_armed :: bool
  cr_viewers :: int
  cr_over :: bool

definition crowd_begin :: crowd_run where
  "crowd_begin = \<lparr>cr_bidsDone = 0, cr_bidsStopped = False, cr_armed = True, cr_viewers = 0, cr_over = False\<rparr>"

text \<open>What the loop knows: the auction, its rules as MySQL had them at the start, the bidders, the target.\<close>

record crowd_conf =
  cc_aid :: aid
  cc_rules :: Rules
  cc_users :: "crowd_user list"
  cc_bidsTarget :: int

text \<open>Before the loop: rules and users, or no loop at all.\<close>

definition crowd_prepare :: "bool \<Rightarrow> aid \<Rightarrow> crowd_user list \<Rightarrow> int \<Rightarrow> db \<Rightarrow> crowd_conf option" where
  "crowd_prepare up aid us target d =
     (case GetRules up aid d of
        Inl x \<Rightarrow> None
      | Inr r \<Rightarrow>
          (if NormalizeMode (Mode r) \<noteq> ENGLISH then None
           else if us = [] then None
           else Some \<lparr>cc_aid = aid, cc_rules = r, cc_users = us, cc_bidsTarget = target\<rparr>))"

definition quietMs :: "Rules \<Rightarrow> int" where
  "quietMs r = wrap64 (wrap64 (ExtendWindowSec r * 1000) + 8000)"

text \<open>The statistics tick: \<open>v\<close> is the viewer number of the ramp, \<open>dl\<close> the like draw, \<open>viewers\<close> the
  connections of the room. The frame is \<open>None\<close> when the snapshot fails or the run ends.\<close>

definition stats_tick ::
  "crowd_conf \<Rightarrow> link \<Rightarrow> int \<Rightarrow> int \<Rightarrow> int \<Rightarrow> int \<Rightarrow> redis \<Rightarrow> crowd_run \<times> social_state
    \<Rightarrow> RoomSocialData option \<times> crowd_run \<times> social_state" where
  "stats_tick cf l v dl viewers now r st =
     (case st of (run, ss) \<Rightarrow>
       (case Snapshot l (cc_aid cf) r of
          IOErr \<Rightarrow> (None, run, ss)
        | IOk sn \<Rightarrow>
            (if sn_Status sn \<noteq> None \<and> sn_Status sn \<noteq> Some LIVE then (None, run\<lparr>cr_over := True\<rparr>, ss)
             else (case addLikes (cc_aid cf) (crowdLikesDelta v dl) ss of
                     (likes, ss') \<Rightarrow>
                       (Some \<lparr>so_Kind = ''stats'', so_UserID = [], so_DisplayName = [], so_Text = [],
                              so_GiftID = [], so_GiftName = [], so_GiftEmoji = [], so_LikeDelta = 0,
                              so_LikeCount = likes, so_ViewerCount = v + viewers,
                              so_SimViewerCount = v, so_ServerTimeMs = now\<rparr>,
                        run\<lparr>cr_viewers := v\<rparr>, ss')))))"

definition sim_bid :: "crowd_conf \<Rightarrow> nat \<Rightarrow> int \<Rightarrow> int \<Rightarrow> bid_args" where
  "sim_bid cf i n amount =
     (let u = cc_users cf ! (i mod length (cc_users cf))
      in \<lparr>ba_userId = cu_id u, ba_clientBidId = ''sim-'' @ cc_aid cf @ ''-'' @ FormatInt n,
          ba_amountStr = FormatInt amount, ba_displayName = cu_nick u\<rparr>)"

text \<open>The bid tick: the fates of snapshot and bid, the gateway's clock, the draws, the Redis clock. A tick
  comes only while the timer is armed.\<close>

definition bid_tick ::
  "crowd_conf \<Rightarrow> link \<Rightarrow> link \<Rightarrow> int \<Rightarrow> rat \<Rightarrow> nat \<Rightarrow> int \<times> int \<Rightarrow> crowd_run \<Rightarrow> redis \<Rightarrow> crowd_run \<times> redis" where
  "bid_tick cf l1 l2 nowMs draw i t run r =
     (if \<not> cr_armed run then (run, r)
      else if cr_bidsStopped run \<or> cr_bidsDone run \<ge> cc_bidsTarget cf
      then (run\<lparr>cr_bidsStopped := True, cr_armed := False\<rparr>, r)
      else (case Snapshot l1 (cc_aid cf) r of
              IOErr \<Rightarrow> (run, r)
            | IOk sn \<Rightarrow>
                (if sn_Status sn \<noteq> Some LIVE then (run, r)
                 else if sn_EndAtMs sn - nowMs \<le> quietMs (cc_rules cf)
                 then (run\<lparr>cr_bidsStopped := True, cr_armed := False\<rparr>, r)
                 else (case nextCrowdAmount (parseInt (sn_CurrentPriceCents sn)) (IncrementCents (cc_rules cf))
                              (CapPriceCents (cc_rules cf)) draw of
                         None \<Rightarrow> (run\<lparr>cr_bidsStopped := True, cr_armed := False\<rparr>, r)
                       | Some amount \<Rightarrow>
                           (case PlaceBid l2 t (cc_aid cf) (sim_bid cf i (cr_bidsDone run) amount) r of
                              (IOk (c, x), r') \<Rightarrow>
                                (if c = OK_ACCEPTED \<or> c = OK_EXTENDED
                                 then run\<lparr>cr_bidsDone := cr_bidsDone run + 1\<rparr> else run, r')
                            | (IOErr, r') \<Rightarrow> (run, r'))))))"

section \<open>The amounts follow the rules\<close>

lemma first_k_range: "first_k r \<in> {1, 2, 3}"
  by (simp add: first_k_def)

lemma try_amount_Some:
  assumes "try_amount cur step cap k = Some a" "0 \<le> cur" "cur \<le> MaxMoneyCents" "0 < step" "step \<le> MaxMoneyCents" "k \<le> 3"
  shows "a \<le> MaxMoneyCents \<and> (cap > 0 \<longrightarrow> a < cap) \<and> (\<exists>j. 1 \<le> j \<and> j \<le> k \<and> a = cur + int j * step)"
  using assms
proof (induction k)
  case (Suc k)
  have "int (Suc k) * step \<le> 3 * MaxMoneyCents" "0 \<le> int (Suc k) * step"
    using Suc.prems by (intro mult_mono mult_nonneg_nonneg; simp)+
  then have w: "wrap64 (cur + wrap64 (int (Suc k) * step)) = cur + int (Suc k) * step"
    using Suc.prems(2,3) by (simp add: wrap64_id int64_def MaxMoneyCents_def del: of_nat_Suc)
  show ?case
  proof (cases "try_amount cur step cap k = Some a")
    case True
    with Suc show ?thesis by (metis Suc_leD le_SucI)
  next
    case False
    with Suc.prems(1) have a: "a = cur + int (Suc k) * step" "a \<le> MaxMoneyCents" "cap > 0 \<longrightarrow> a < cap"
      unfolding try_amount.simps w by (auto simp: Let_def split: if_splits)
    then show ?thesis by (intro conjI exI [of _ "Suc k"]) simp_all
  qed
qed simp

lemma try_amount_None:
  assumes "try_amount cur step cap (Suc k) = None" "0 \<le> cur" "cur \<le> MaxMoneyCents" "0 < step" "step \<le> MaxMoneyCents"
  shows "cur + step > MaxMoneyCents \<or> cap > 0 \<and> cur + step \<ge> cap"
  using assms(1)
proof (induction k)
  case 0
  have "wrap64 (cur + wrap64 step) = cur + step"
    using assms by (simp add: wrap64_id int64_def MaxMoneyCents_def)
  with 0 show ?case by (auto simp: Let_def split: if_splits)
next
  case (Suc k)
  then show ?case by (simp only: try_amount.simps(2) [of _ _ _ "Suc k"] Let_def) (auto split: if_splits)
qed

text \<open>A bid there is whenever one step is legal and stays below the cap.\<close>

theorem nextCrowdAmount_iff:
  assumes "0 \<le> cur" "cur \<le> MaxMoneyCents" "0 < step" "step \<le> MaxMoneyCents"
  shows "nextCrowdAmount cur step cap r = None \<longleftrightarrow> cur + step > MaxMoneyCents \<or> cap > 0 \<and> cur + step \<ge> cap"
    and "nextCrowdAmount cur step cap r = Some a \<Longrightarrow>
      cur + step \<le> a \<and> a \<le> cur + 3 * step \<and> (a - cur) mod step = 0 \<and> a \<le> MaxMoneyCents \<and> (cap > 0 \<longrightarrow> a < cap)"
proof -
  obtain k where k: "first_k r = Suc k" "Suc k \<le> 3" using first_k_range [of r] by (auto simp: numeral_eq_Suc)
  have some: "a \<le> MaxMoneyCents \<and> (cap > 0 \<longrightarrow> a < cap) \<and> (\<exists>j. 1 \<le> j \<and> j \<le> 3 \<and> a = cur + int j * step)"
    if "nextCrowdAmount cur step cap r = Some a" for a
    using try_amount_Some [of cur step cap "Suc k" a] that assms k by (auto simp: nextCrowdAmount_def)
  have le: "step \<le> int j * step" "int j * step \<le> 3 * step" if "1 \<le> j" "j \<le> 3" for j
  proof -
    have "1 * step \<le> int j * step" "int j * step \<le> 3 * step" using that assms(3) by (intro mult_right_mono; simp)+
    then show "step \<le> int j * step" "int j * step \<le> 3 * step" by simp_all
  qed
  show "nextCrowdAmount cur step cap r = None \<longleftrightarrow> cur + step > MaxMoneyCents \<or> cap > 0 \<and> cur + step \<ge> cap"
  proof
    assume "nextCrowdAmount cur step cap r = None"
    then show "cur + step > MaxMoneyCents \<or> cap > 0 \<and> cur + step \<ge> cap"
      using try_amount_None [of cur step cap k] assms k by (simp add: nextCrowdAmount_def)
  next
    assume no: "cur + step > MaxMoneyCents \<or> cap > 0 \<and> cur + step \<ge> cap"
    show "nextCrowdAmount cur step cap r = None"
    proof (cases "nextCrowdAmount cur step cap r")
      case (Some b)
      with some [OF Some] no le show ?thesis by fastforce
    qed
  qed
  show "cur + step \<le> a \<and> a \<le> cur + 3 * step \<and> (a - cur) mod step = 0 \<and> a \<le> MaxMoneyCents \<and> (cap > 0 \<longrightarrow> a < cap)"
    if "nextCrowdAmount cur step cap r = Some a"
    using some [OF that] le by auto
qed

section \<open>A simulated bid never ends and never extends an auction\<close>

text \<open>In whatever state the bid finds the auction, as long as the cap is the one the run knows.\<close>

theorem sim_bid_no_sale:
  assumes "cap_of (hash_of k) = cap" "cap > 0 \<longrightarrow> num0 (ba_amountStr b) < cap" "room_inv k"
  shows "h_status (hash_of (snd (place_bid b t k))) = h_status (hash_of k)"
  using room_invD(3,4) [OF assms(3)] assms(1,2)
  by (cases rule: place_bid_cases [of b t k])
     (auto simp: commit_bid_eq cap_hit_def bid_guard_NoneD(2) frame_simps)

lemma sim_bid_no_extension:
  assumes "h_endAtMs (hash_of k) - redis_now t > h_extendWindowSec (hash_of k) * 1000" "room_inv k"
  shows "h_endAtMs (hash_of (snd (place_bid b t k))) = h_endAtMs (hash_of k)"
  using room_invD(3,4) [OF assms(2)] assms(1)
  by (cases rule: place_bid_cases [of b t k])
     (auto simp: commit_bid_eq newEndAtMs_def anti_snipe_def frame_simps)

text \<open>One tick: the keys of the room are as before, or as one bid leaves them.\<close>

lemma bid_tick_cases:
  obtains (idle) run' where "bid_tick cf l1 l2 nowMs draw i t run r = (run', r)"
  | (bid) run' amount where
      "bid_tick cf l1 l2 nowMs draw i t run r =
         (run', snd (PlaceBid l2 t (cc_aid cf) (sim_bid cf i (cr_bidsDone run) amount) r))"
      "nextCrowdAmount (parseInt (sn_CurrentPriceCents (snapshot_of (hash_of (rd_keys r (cc_aid cf))))))
         (IncrementCents (cc_rules cf)) (CapPriceCents (cc_rules cf)) draw = Some amount"
      "h_endAtMs (hash_of (rd_keys r (cc_aid cf))) - nowMs > quietMs (cc_rules cf)"
      "h_status (hash_of (rd_keys r (cc_aid cf))) = Some LIVE"
      "cr_bidsDone run' \<le> cr_bidsDone run + 1"
proof (cases "cr_armed run \<and> \<not> (cr_bidsStopped run \<or> cr_bidsDone run \<ge> cc_bidsTarget cf)
    \<and> Snapshot l1 (cc_aid cf) r = IOk (snapshot_of (hash_of (rd_keys r (cc_aid cf))))")
  case False
  have "Snapshot l1 (cc_aid cf) r \<in> {IOErr, IOk (snapshot_of (hash_of (rd_keys r (cc_aid cf))))}"
    by (simp add: Snapshot_def Let_def)
  with False have "\<exists>run'. bid_tick cf l1 l2 nowMs draw i t run r = (run', r)"
    by (auto simp: bid_tick_def)
  then show ?thesis using idle by blast
next
  case on: True
  let ?h = "hash_of (rd_keys r (cc_aid cf))"
  let ?next = "nextCrowdAmount (parseInt (sn_CurrentPriceCents (snapshot_of ?h)))
         (IncrementCents (cc_rules cf)) (CapPriceCents (cc_rules cf)) draw"
  note go = bid_tick_def [of cf l1 l2 nowMs draw i t run r]
  show ?thesis
  proof (cases "h_status ?h = Some LIVE \<and> h_endAtMs ?h - nowMs > quietMs (cc_rules cf) \<and> ?next \<noteq> None")
    case False
    with on have "\<exists>run'. bid_tick cf l1 l2 nowMs draw i t run r = (run', r)"
      by (auto simp: go snapshot_of_def)
    then show ?thesis using idle by blast
  next
    case True
    then obtain amount where a: "?next = Some amount" by blast
    let ?p = "PlaceBid l2 t (cc_aid cf) (sim_bid cf i (cr_bidsDone run) amount) r"
    have "bid_tick cf l1 l2 nowMs draw i t run r =
        (case ?p of (IOk (c, x), r') \<Rightarrow>
            (if c = OK_ACCEPTED \<or> c = OK_EXTENDED then run\<lparr>cr_bidsDone := cr_bidsDone run + 1\<rparr> else run, r')
          | (IOErr, r') \<Rightarrow> (run, r'))"
      using on True a by (simp add: go) (simp add: snapshot_of_def)
    then obtain run' where "bid_tick cf l1 l2 nowMs draw i t run r = (run', snd ?p)" "cr_bidsDone run' \<le> cr_bidsDone run + 1"
      by (cases ?p; cases "fst ?p") (auto split: if_splits)
    then show ?thesis using bid a True by simp
  qed
qed

theorem bid_tick_safe:
  assumes inv: "room_inv (rd_keys r (cc_aid cf))"
    and cap: "cap_of (hash_of (rd_keys r (cc_aid cf))) = CapPriceCents (cc_rules cf)"
    and win: "h_extendWindowSec (hash_of (rd_keys r (cc_aid cf))) = ExtendWindowSec (cc_rules cf)"
    and rng: "0 \<le> ExtendWindowSec (cc_rules cf)" "ExtendWindowSec (cc_rules cf) < 2 ^ 40"
    and price: "0 \<le> parseInt (sn_CurrentPriceCents (snapshot_of (hash_of (rd_keys r (cc_aid cf)))))"
      "parseInt (sn_CurrentPriceCents (snapshot_of (hash_of (rd_keys r (cc_aid cf))))) \<le> MaxMoneyCents"
    and step: "0 < IncrementCents (cc_rules cf)" "IncrementCents (cc_rules cf) \<le> MaxMoneyCents"
    and clock: "redis_now t < nowMs + 8000"
  shows "room_inv (rd_keys (snd (bid_tick cf l1 l2 nowMs draw i t run r)) (cc_aid cf))"
    and "h_status (hash_of (rd_keys (snd (bid_tick cf l1 l2 nowMs draw i t run r)) (cc_aid cf)))
           = h_status (hash_of (rd_keys r (cc_aid cf)))"
    and "h_endAtMs (hash_of (rd_keys (snd (bid_tick cf l1 l2 nowMs draw i t run r)) (cc_aid cf)))
           = h_endAtMs (hash_of (rd_keys r (cc_aid cf)))"
proof -
  let ?k = "rd_keys r (cc_aid cf)"
  let ?k' = "rd_keys (snd (bid_tick cf l1 l2 nowMs draw i t run r)) (cc_aid cf)"
  have q: "quietMs (cc_rules cf) = ExtendWindowSec (cc_rules cf) * 1000 + 8000"
    using rng by (simp add: quietMs_def wrap64_id int64_def)
  have "room_inv ?k' \<and> h_status (hash_of ?k') = h_status (hash_of ?k) \<and> h_endAtMs (hash_of ?k') = h_endAtMs (hash_of ?k)"
  proof (cases rule: bid_tick_cases [of cf l1 l2 nowMs draw i t run r])
    case idle
    then show ?thesis using inv by simp
  next
    case (bid run' amount)
    let ?b = "sim_bid cf i (cr_bidsDone run) amount"
    have amount: "CapPriceCents (cc_rules cf) > 0 \<longrightarrow> num0 (ba_amountStr ?b) < CapPriceCents (cc_rules cf)"
    proof -
      have n: "amount \<le> MaxMoneyCents" "0 \<le> amount" "CapPriceCents (cc_rules cf) > 0 \<longrightarrow> amount < CapPriceCents (cc_rules cf)"
        using nextCrowdAmount_iff(2) [OF price step bid(2)] price step by auto
      then show ?thesis by (simp add: sim_bid_def Let_def MaxMoneyCents_def)
    qed
    have time: "h_endAtMs (hash_of ?k) - redis_now t > h_extendWindowSec (hash_of ?k) * 1000"
      using bid(3) clock win by (simp add: q)
    have k': "?k' = (if l2 = Unreachable then ?k else snd (place_bid ?b t ?k))"
      using bid(1) eval_keys [of l2 "cc_aid cf" "place_bid ?b t" r] by (simp add: PlaceBid_def case_prod_beta)
    show ?thesis
      using ascending.keeps_inv [OF inv] sim_bid_no_sale [OF cap amount inv] sim_bid_no_extension [OF time inv] inv
      by (simp add: k')
  qed
  then show "room_inv ?k'" "h_status (hash_of ?k') = h_status (hash_of ?k)" "h_endAtMs (hash_of ?k') = h_endAtMs (hash_of ?k)"
    by simp_all
qed

section \<open>One run for each room\<close>

lemma MaybeStart_once:
  assumes "MaybeStart on aid ov (Some runs) = (started, c')"
  shows "started \<longleftrightarrow> aid \<noteq> [] \<and> crowdEnabled on ov \<and> runs aid = None"
    and "started \<Longrightarrow> \<not> fst (MaybeStart on aid ov c')"
    and "MaybeStart on aid ov (crowd_finish aid c') = MaybeStart on aid ov (Some (runs(aid := None)))"
  using assms by (auto simp: MaybeStart_def crowd_finish_def split: if_splits)

section \<open>The bidders are known users of their own\<close>

lemma seed_users_known:
  "seed_users up i ns d = (us, d') \<Longrightarrow>
     length us \<le> length ns \<and> (\<forall>u\<in>set us. \<exists>j<length ns. u = \<lparr>cu_id = sim_id (i + j + 1), cu_nick = ns ! j\<rparr> \<and> up (i + j))"
proof (induction up i ns d arbitrary: us d' rule: seed_users.induct)
  case (2 up i nick ns d)
  obtain e d1 where u: "UpsertUser (up i) (sim_id (i + 1)) nick ''user'' d = (e, d1)" by fastforce
  obtain vs d2 where v: "seed_users up (i + 1) ns d1 = (vs, d2)" by fastforce
  have shift: "\<exists>j<length (nick # ns). w = \<lparr>cu_id = sim_id (i + j + 1), cu_nick = (nick # ns) ! j\<rparr> \<and> up (i + j)"
    if "j < length ns" "w = \<lparr>cu_id = sim_id (i + 1 + j + 1), cu_nick = ns ! j\<rparr>" "up (i + 1 + j)" for w j
    using that by (intro exI [of _ "Suc j"]) simp
  have ih: "length vs \<le> length ns \<and> (\<forall>u\<in>set vs. \<exists>j<length ns. u = \<lparr>cu_id = sim_id (i + 1 + j + 1), cu_nick = ns ! j\<rparr> \<and> up (i + 1 + j))"
    using 2(1) [OF u [symmetric]] 2(2) [OF u [symmetric]] v by (cases e) blast+
  have more: "\<forall>w\<in>set vs. \<exists>j<length (nick # ns). w = \<lparr>cu_id = sim_id (i + j + 1), cu_nick = (nick # ns) ! j\<rparr> \<and> up (i + j)"
    using ih shift by blast
  show ?case
  proof (cases e)
    case None
    then have "up i" using u by (auto simp: UpsertUser_def split: if_splits)
    moreover have "us = \<lparr>cu_id = sim_id (i + 1), cu_nick = nick\<rparr> # vs" using 2(3) u v None by simp
    ultimately show ?thesis using ih more by (auto intro: exI [of _ 0])
  next
    case (Some x)
    then have "us = vs" using 2(3) u v by simp
    with ih more show ?thesis by simp
  qed
qed simp

end
