(* ===== verification/Metrics.thy ===== *)
theory Metrics
  imports Prelude
begin

text \<open>
  The instruments of \<^verbatim>\<open>internal/metrics/metrics.go\<close>: reservoir histograms, counters, the stream
  gauge and the registry. Durations are nanoseconds; their conversion to milliseconds is left out. The draw
  of the random source is an argument. Then: the reservoir is a sample of what was observed,
  every observation is equally likely to be in it, and a reported percentile has the
  nearest-rank property.
\<close>

section \<open>Histograms\<close>

record Histogram =
  hg_cap :: nat
  hg_samples :: "int list"
  hg_n :: nat

definition NewHistogram :: "int \<Rightarrow> Histogram" where
  "NewHistogram c = \<lparr>hg_cap = nat c, hg_samples = [], hg_n = 0\<rparr>"

text \<open>\<open>idx\<close> is the draw from below the new count.\<close>

definition Observe :: "int \<Rightarrow> nat \<Rightarrow> Histogram \<Rightarrow> Histogram" where
  "Observe d idx h =
     (if hg_cap h = 0 then h
      else (let d' = (if d < 0 then 0 else d); h' = h\<lparr>hg_n := hg_n h + 1\<rparr>
            in if length (hg_samples h) < hg_cap h then h'\<lparr>hg_samples := hg_samples h @ [d']\<rparr>
               else if idx < hg_cap h then h'\<lparr>hg_samples := (hg_samples h)[idx := d']\<rparr>
               else h'))"

definition Histogram_Reset :: "Histogram \<Rightarrow> Histogram" where
  "Histogram_Reset h = h\<lparr>hg_samples := [], hg_n := 0\<rparr>"

definition rankN :: "nat \<Rightarrow> nat \<Rightarrow> nat" where
  "rankN n p =
     (let idx = (p * n + 99) div 100; idx1 = (if idx < 1 then 1 else idx)
      in (if idx1 > n then n else idx1) - 1)"

definition rankPerMille :: "nat \<Rightarrow> nat \<Rightarrow> nat" where
  "rankPerMille n pm =
     (let idx = (pm * n + 999) div 1000; idx1 = (if idx < 1 then 1 else idx)
      in (if idx1 > n then n else idx1) - 1)"

record HistogramSnapshot =
  hs_Count :: nat
  hs_Min :: int
  hs_P50 :: int
  hs_P95 :: int
  hs_P99 :: int
  hs_P999 :: int
  hs_Max :: int

definition Histogram_Snapshot :: "Histogram \<Rightarrow> HistogramSnapshot" where
  "Histogram_Snapshot h =
     (let cp = sort (hg_samples h); n = length cp
      in if cp = [] then \<lparr>hs_Count = hg_n h, hs_Min = 0, hs_P50 = 0, hs_P95 = 0, hs_P99 = 0, hs_P999 = 0, hs_Max = 0\<rparr>
         else \<lparr>hs_Count = hg_n h, hs_Min = cp ! 0, hs_P50 = cp ! rankN n 50, hs_P95 = cp ! rankN n 95,
               hs_P99 = cp ! rankN n 99, hs_P999 = cp ! rankPerMille n 999, hs_Max = cp ! (n - 1)\<rparr>)"

section \<open>The registry\<close>

text \<open>The peak of the stream length: load, then compare and swap, until one succeeds. The list holds what the
  cell contains at each compare, as other goroutines leave it; past its end nobody interferes.\<close>

fun ObserveStreamLen :: "int \<Rightarrow> int list \<Rightarrow> int \<Rightarrow> int" where
  "ObserveStreamLen n [] cur = (if n \<le> cur then cur else n)"
| "ObserveStreamLen n (x # xs) cur =
     (if n \<le> cur then cur else if x = cur then n else ObserveStreamLen n xs x)"

record Registry =
  AckLatency :: Histogram
  BroadcastLatency :: Histogram
  RoomStatePatchLatency :: Histogram
  HammerLatency :: Histogram
  CatchupLatency :: Histogram
  ScriptTime :: Histogram
  HandlerOverhead :: Histogram
  BidsAccepted :: int
  BidsRejected :: int
  BackpressureDrop :: int
  SeqGap :: int
  BidsRejectedFastPath :: int
  RoomStatePatches :: int
  RoomStatePatchBids :: int
  TimerErrInternal :: int
  TimerErrInternalKeyType :: int
  TimerErrInternalSeqMismatch :: int
  AdmissionRejected :: int
  GoroutinePanics :: int
  StreamLenMax :: int
  ActiveConns :: int

definition new_registry :: Registry where
  "new_registry = (let h = NewHistogram 4096 in
     \<lparr>AckLatency = h, BroadcastLatency = h, RoomStatePatchLatency = h, HammerLatency = h,
      CatchupLatency = h, ScriptTime = h, HandlerOverhead = h, BidsAccepted = 0, BidsRejected = 0,
      BackpressureDrop = 0, SeqGap = 0, BidsRejectedFastPath = 0, RoomStatePatches = 0,
      RoomStatePatchBids = 0, TimerErrInternal = 0, TimerErrInternalKeyType = 0,
      TimerErrInternalSeqMismatch = 0, AdmissionRejected = 0, GoroutinePanics = 0,
      StreamLenMax = 0, ActiveConns = 0\<rparr>)"

definition Registry_Reset :: "Registry \<Rightarrow> Registry" where
  "Registry_Reset r = r\<lparr>
     AckLatency := Histogram_Reset (AckLatency r),
     BroadcastLatency := Histogram_Reset (BroadcastLatency r),
     RoomStatePatchLatency := Histogram_Reset (RoomStatePatchLatency r),
     HammerLatency := Histogram_Reset (HammerLatency r),
     CatchupLatency := Histogram_Reset (CatchupLatency r),
     ScriptTime := Histogram_Reset (ScriptTime r),
     HandlerOverhead := Histogram_Reset (HandlerOverhead r),
     BidsAccepted := 0, BidsRejected := 0, BidsRejectedFastPath := 0, RoomStatePatches := 0,
     RoomStatePatchBids := 0, TimerErrInternal := 0, TimerErrInternalKeyType := 0,
     TimerErrInternalSeqMismatch := 0, BackpressureDrop := 0, SeqGap := 0, AdmissionRejected := 0,
     GoroutinePanics := 0, StreamLenMax := 0\<rparr>"

text \<open>What \<^verbatim>\<open>/metrics\<close> serves; the three gauges of the runtime are arguments.\<close>

record MetricsSnapshot =
  sp_Ack :: HistogramSnapshot
  sp_Broadcast :: HistogramSnapshot
  sp_RoomStatePatch :: HistogramSnapshot
  sp_Hammer :: HistogramSnapshot
  sp_Catchup :: HistogramSnapshot
  sp_ScriptTime :: HistogramSnapshot
  sp_HandlerOverhead :: HistogramSnapshot
  sp_BidsAccepted :: int
  sp_BidsRejected :: int
  sp_BidsRejectedFastPath :: int
  sp_RoomStatePatches :: int
  sp_RoomStatePatchBids :: int
  sp_TimerErrInternal :: int
  sp_TimerErrInternalKeyType :: int
  sp_TimerErrInternalSeqMismatch :: int
  sp_BackpressureDrop :: int
  sp_SeqGap :: int
  sp_StreamLenMax :: int
  sp_ActiveConns :: int
  sp_AdmissionRejected :: int
  sp_GoroutinePanics :: int
  sp_HeapInuseBytes :: int
  sp_HeapSysBytes :: int
  sp_NumGoroutine :: int

definition Registry_Snapshot :: "int \<Rightarrow> int \<Rightarrow> int \<Rightarrow> Registry \<Rightarrow> MetricsSnapshot" where
  "Registry_Snapshot heapInuse heapSys goroutines r =
     \<lparr>sp_Ack = Histogram_Snapshot (AckLatency r), sp_Broadcast = Histogram_Snapshot (BroadcastLatency r),
      sp_RoomStatePatch = Histogram_Snapshot (RoomStatePatchLatency r), sp_Hammer = Histogram_Snapshot (HammerLatency r),
      sp_Catchup = Histogram_Snapshot (CatchupLatency r), sp_ScriptTime = Histogram_Snapshot (ScriptTime r),
      sp_HandlerOverhead = Histogram_Snapshot (HandlerOverhead r), sp_BidsAccepted = BidsAccepted r,
      sp_BidsRejected = BidsRejected r, sp_BidsRejectedFastPath = BidsRejectedFastPath r,
      sp_RoomStatePatches = RoomStatePatches r, sp_RoomStatePatchBids = RoomStatePatchBids r,
      sp_TimerErrInternal = TimerErrInternal r, sp_TimerErrInternalKeyType = TimerErrInternalKeyType r,
      sp_TimerErrInternalSeqMismatch = TimerErrInternalSeqMismatch r, sp_BackpressureDrop = BackpressureDrop r,
      sp_SeqGap = SeqGap r, sp_StreamLenMax = StreamLenMax r, sp_ActiveConns = ActiveConns r,
      sp_AdmissionRejected = AdmissionRejected r, sp_GoroutinePanics = GoroutinePanics r,
      sp_HeapInuseBytes = heapInuse, sp_HeapSysBytes = heapSys, sp_NumGoroutine = goroutines\<rparr>"

section \<open>The reservoir\<close>

definition hist_ok :: "Histogram \<Rightarrow> bool" where
  "hist_ok h \<longleftrightarrow> length (hg_samples h) = (if hg_cap h = 0 then 0 else min (hg_cap h) (hg_n h))
     \<and> (\<forall>d\<in>set (hg_samples h). 0 \<le> d)"

lemma hist_ok_new [simp]: "hist_ok (NewHistogram c)"
  by (simp add: hist_ok_def NewHistogram_def)

lemma hist_ok_reset [simp]: "hist_ok (Histogram_Reset h)"
  by (simp add: hist_ok_def Histogram_Reset_def)

lemma Observe_sel:
  "hg_cap (Observe d i h) = hg_cap h"
  "hg_n (Observe d i h) = (if hg_cap h = 0 then hg_n h else hg_n h + 1)"
  by (simp_all add: Observe_def Let_def)

lemma Observe_samples: "set (hg_samples (Observe d i h)) \<subseteq> insert (max 0 d) (set (hg_samples h))"
  by (auto simp: Observe_def Let_def max_def dest: subsetD [OF set_update_subset_insert])

lemma hist_ok_Observe: "hist_ok h \<Longrightarrow> hist_ok (Observe d i h)"
  using Observe_samples [of d i h] unfolding hist_ok_def
  by (auto simp: Observe_def Let_def)

definition observe_all :: "(int \<times> nat) list \<Rightarrow> Histogram \<Rightarrow> Histogram" where
  "observe_all ds h = foldl (\<lambda>h (d, i). Observe d i h) h ds"

lemma observe_all_snoc: "observe_all (ds @ [(d, i)]) h = Observe d i (observe_all ds h)"
  by (simp add: observe_all_def)

theorem reservoir:
  "let h = observe_all ds (NewHistogram c) in
     hist_ok h \<and> hg_cap h = nat c \<and> (c > 0 \<longrightarrow> hg_n h = length ds)
     \<and> set (hg_samples h) \<subseteq> (\<lambda>(d, i). max 0 d) ` set ds"
proof (induction ds rule: rev_induct)
  case Nil
  then show ?case by (simp add: observe_all_def) (simp add: NewHistogram_def)
next
  case (snoc x ds)
  obtain d i where x: "x = (d, i)" by fastforce
  show ?case
    using snoc Observe_samples [of d i "observe_all ds (NewHistogram c)"]
    by (auto simp: x observe_all_snoc Observe_sel Let_def hist_ok_Observe)
qed

text \<open>All outcomes of the draws, each sequence of draws once: the \<open>k\<close>-th draw is below \<open>k\<close>.\<close>

definition observe_any :: "int \<Rightarrow> Histogram list \<Rightarrow> Histogram list" where
  "observe_any d hs = concat (map (\<lambda>h. map (\<lambda>i. Observe d i h) [0..<hg_n h + 1]) hs)"

definition outcomes :: "nat \<Rightarrow> int list \<Rightarrow> Histogram list" where
  "outcomes c ds = foldl (\<lambda>hs d. observe_any d hs) [NewHistogram (int c)] ds"

lemma outcomes_snoc: "outcomes c (ds @ [d]) = observe_any d (outcomes c ds)"
  by (simp add: outcomes_def)

lemma count_concat: "length (filter P (concat xss)) = sum_list (map (\<lambda>xs. length (filter P xs)) xss)"
  by (induction xss) simp_all

lemma sum_if: "sum_list (map (\<lambda>h. if Q h then m else (0::nat)) hs) = m * length (filter Q hs)"
  by (induction hs) simp_all

lemma count_below: "length (filter (\<lambda>i. i < c) [0..<n]) = min c n"
  by (induction n) auto

lemma count_other: "p < n \<Longrightarrow> length (filter (\<lambda>i. i \<noteq> p) [0..<n]) = n - 1"
proof -
  assume "p < n"
  then have "[0..<n] = [0..<p] @ p # [Suc p..<n]" by (metis upt_add_eq_append upt_conv_Cons zero_le le_add_diff_inverse less_or_eq_imp_le)
  then show ?thesis using \<open>p < n\<close> by (simp add: filter_id_conv)
qed

text \<open>What every outcome looks like when the observations are different.\<close>

lemma outcome_shape:
  assumes "c > 0" "distinct ds" "\<forall>d\<in>set ds. 0 \<le> d" "h \<in> set (outcomes c ds)"
  shows "hg_cap h = c \<and> hg_n h = length ds \<and> distinct (hg_samples h) \<and> set (hg_samples h) \<subseteq> set ds
     \<and> length (hg_samples h) = min c (length ds)"
  using assms(2-4)
proof (induction ds arbitrary: h rule: rev_induct)
  case Nil
  then show ?case by (simp add: outcomes_def NewHistogram_def)
next
  case (snoc d ds)
  then obtain g i where g: "g \<in> set (outcomes c ds)" "h = Observe d i g"
    by (auto simp: outcomes_snoc observe_any_def)
  with snoc have ih: "hg_cap g = c \<and> hg_n g = length ds \<and> distinct (hg_samples g) \<and> set (hg_samples g) \<subseteq> set ds
     \<and> length (hg_samples g) = min c (length ds)" and new: "d \<notin> set ds" "0 \<le> d" by auto
  have "distinct (hg_samples h)"
    using ih new g(2) by (auto simp: Observe_def Let_def intro: distinct_list_update)
  moreover have "set (hg_samples h) \<subseteq> set (ds @ [d])"
    using Observe_samples [of d i g] ih new g(2) by (auto simp: max_def)
  moreover have "length (hg_samples h) = min c (length (ds @ [d]))"
    using ih assms(1) g(2) by (auto simp: Observe_def Let_def)
  ultimately show ?case using ih g(2) assms(1) by (simp add: Observe_sel)
qed

definition kept :: "int \<Rightarrow> Histogram list \<Rightarrow> nat" where
  "kept x hs = length (filter (\<lambda>h. x \<in> set (hg_samples h)) hs)"

lemma kept_step:
  assumes c: "c > 0" and h: "hg_cap h = c" "hg_n h = n" "distinct (hg_samples h)" "length (hg_samples h) = min c n"
    and d: "0 \<le> d" "d \<notin> set (hg_samples h)"
  shows "length (filter (\<lambda>i. x \<in> set (hg_samples (Observe d i h))) [0..<n + 1]) =
    (if x = d then min c (n + 1) else if x \<in> set (hg_samples h) then (if n < c then n + 1 else n) else 0)"
proof (cases "n < c")
  case True
  then have s: "hg_samples (Observe d i h) = hg_samples h @ [d]" for i
    using c h d by (simp add: Observe_def)
  have "length (filter (\<lambda>i. b) [0..<n + 1]) = (if b then n + 1 else 0)" for b by simp
  with True show ?thesis by (auto simp: s)
next
  case False
  then have s: "hg_samples (Observe d i h) = (if i < c then (hg_samples h)[i := d] else hg_samples h)" for i
    using c h d by (simp add: Observe_def)
  have len: "length (hg_samples h) = c" using False h by simp
  consider (new) "x = d" | (old) p where "x \<noteq> d" "p < c" "x = hg_samples h ! p" | (absent) "x \<noteq> d" "x \<notin> set (hg_samples h)"
    by (metis in_set_conv_nth len)
  then show ?thesis
  proof cases
    case new
    then have "x \<in> set (hg_samples (Observe d i h)) \<longleftrightarrow> i < c" for i
      using d len by (auto simp: s set_update_memI)
    with False new show ?thesis by (simp add: count_below del: upt_Suc)
  next
    case old
    have "x \<in> set (hg_samples (Observe d i h)) \<longleftrightarrow> i \<noteq> p" for i
    proof (cases "i < c")
      case True
      then have "x \<in> set ((hg_samples h)[i := d]) \<longleftrightarrow> i \<noteq> p"
        using old len h(3) by (auto simp: in_set_conv_nth nth_list_update nth_eq_iff_index_eq)
      with True show ?thesis by (simp add: s)
    next
      case False
      with old len show ?thesis by (auto simp: s)
    qed
    moreover have "x \<in> set (hg_samples h)" using old len by simp
    ultimately show ?thesis using False old by (simp add: count_other del: upt_Suc)
  next
    case absent
    then have "x \<notin> set (hg_samples (Observe d i h))" for i
      by (auto simp: s dest: subsetD [OF set_update_subset_insert])
    with absent show ?thesis by simp
  qed
qed

text \<open>Every observation is in the sample in the same share of the outcomes: the capacity over the count.\<close>

theorem reservoir_uniform:
  assumes "c > 0" "distinct ds" "\<forall>d\<in>set ds. 0 \<le> d" "x \<in> set ds"
  shows "length ds * kept x (outcomes c ds) = min c (length ds) * length (outcomes c ds)"
  using assms(2-4)
proof (induction ds arbitrary: x rule: rev_induct)
  case (snoc d ds)
  let ?n = "length ds" and ?hs = "outcomes c ds"
  have d: "d \<notin> set ds" "0 \<le> d" "distinct ds" "\<forall>d\<in>set ds. 0 \<le> d" using snoc.prems by auto
  note shape = outcome_shape [OF assms(1) d(3,4)]
  have total: "length (outcomes c (ds @ [d])) = (?n + 1) * length ?hs"
  proof -
    have "map length (map (\<lambda>h. map (\<lambda>i. Observe d i h) [0..<hg_n h + 1]) ?hs) = map (\<lambda>h. ?n + 1) ?hs"
      using shape by simp
    then show ?thesis
      unfolding outcomes_snoc observe_any_def length_concat by (simp only: sum_list_triv of_nat_id mult.commute)
  qed
  have each: "length (filter (\<lambda>h. x \<in> set (hg_samples h)) (map (\<lambda>i. Observe d i h) [0..<hg_n h + 1])) =
      (if x = d then min c (?n + 1) else if x \<in> set (hg_samples h) then (if ?n < c then ?n + 1 else ?n) else 0)"
    if "h \<in> set ?hs" for h
  proof -
    have "d \<notin> set (hg_samples h)" using shape [OF that] d by blast
    then show ?thesis
      using kept_step [of c h ?n d x] shape [OF that] d(2) assms(1)
      by (simp only: filter_map length_map comp_def simp_thms)
  qed
  have k: "kept x (outcomes c (ds @ [d])) = sum_list (map (\<lambda>h.
      if x = d then min c (?n + 1) else if x \<in> set (hg_samples h) then (if ?n < c then ?n + 1 else ?n) else 0) ?hs)"
    unfolding kept_def outcomes_snoc observe_any_def count_concat map_map
    by (intro arg_cong [of _ _ sum_list] map_cong) (simp_all only: comp_def each)
  show ?case
  proof (cases "x = d")
    case True
    then have "kept x (outcomes c (ds @ [d])) = min c (?n + 1) * length ?hs"
      unfolding k by (simp add: sum_list_triv)
    then show ?thesis by (simp only: total length_append list.size mult_ac add_0 One_nat_def add_Suc_right add_0_right)
  next
    case False
    then have x: "x \<in> set ds" using snoc.prems by simp
    from False have new: "kept x (outcomes c (ds @ [d])) = (if ?n < c then ?n + 1 else ?n) * kept x ?hs"
      unfolding k by (simp add: sum_if kept_def)
    note ih = snoc.IH [OF d(3,4) x]
    show ?thesis
    proof (cases "?n < c")
      case True
      then have "kept x ?hs = length ?hs" using ih x by auto
      with True new show ?thesis by (simp add: total)
    next
      case False
      then have "?n * kept x ?hs = c * length ?hs" using ih by simp
      with False new show ?thesis by (simp add: total algebra_simps)
    qed
  qed
qed simp

section \<open>Percentiles\<close>

lemma sorted_below:
  assumes "sorted xs" "i < length xs"
  shows "i + 1 \<le> length (filter (\<lambda>x. x \<le> xs ! i) xs)" "length (filter (\<lambda>x. x < xs ! i) xs) \<le> i"
proof -
  have "filter (\<lambda>x. x \<le> xs ! i) (take (Suc i) xs) = take (Suc i) xs"
    using assms(2) sorted_nth_mono [OF assms(1)] by (auto simp: filter_id_conv in_set_conv_nth less_Suc_eq_le)
  then have "length (filter (\<lambda>x. x \<le> xs ! i) (take (Suc i) xs)) = i + 1" using assms(2) by simp
  moreover have "length (filter P xs) = length (filter P (take j xs)) + length (filter P (drop j xs))" for P j
    by (metis append_take_drop_id filter_append length_append)
  ultimately show "i + 1 \<le> length (filter (\<lambda>x. x \<le> xs ! i) xs)" by (metis le_add1)
  have "filter (\<lambda>x. x < xs ! i) (drop i xs) = []"
    using assms(2) sorted_nth_mono [OF assms(1), of i] by (auto simp: filter_empty_conv in_set_conv_nth not_less)
  then have "length (filter (\<lambda>x. x < xs ! i) xs) = length (filter (\<lambda>x. x < xs ! i) (take i xs))"
    by (metis append_take_drop_id filter_append self_append_conv)
  also have "\<dots> \<le> i" by (metis length_filter_le length_take min.bounded_iff)
  finally show "length (filter (\<lambda>x. x < xs ! i) xs) \<le> i" .
qed

lemma rank_arith:
  assumes "r = (m + (k - 1)) div k - 1" "1 \<le> (m + (k - 1)) div k" "(m + (k - 1)) div k \<le> n" "0 < k"
  shows "r < n \<and> m \<le> k * (r + 1) \<and> k * r < (m :: nat)"
proof -
  have r: "r + 1 = (m + (k - 1)) div k" using assms(1,2) by simp
  have lo: "k * (r + 1) \<le> m + (k - 1)" unfolding r by simp
  have hi: "m + (k - 1) < k * (r + 1) + k" unfolding r using dividend_less_times_div [OF assms(4), of "m + (k - 1)"] by (simp add: algebra_simps)
  have "r < n" using r assms(3) by simp
  moreover have "m \<le> k * (r + 1)" using hi assms(4) by linarith
  moreover have "k * r < m" using lo assms(4) by (simp add: algebra_simps)
  ultimately show ?thesis by blast
qed

lemma rank_trans:
  "i + 1 \<le> a \<Longrightarrow> b \<le> i \<Longrightarrow> m \<le> 100 * (i + 1) \<Longrightarrow> 100 * i < m \<Longrightarrow> m \<le> 100 * a \<and> 100 * b < (m :: nat)"
  by auto

lemma rank_bounds:
  assumes "0 < n" "0 < p"
  shows "p \<le> 100 \<Longrightarrow> rankN n p < n \<and> p * n \<le> 100 * (rankN n p + 1) \<and> 100 * rankN n p < p * n"
    and "p \<le> 1000 \<Longrightarrow> rankPerMille n p < n \<and> p * n \<le> 1000 * (rankPerMille n p + 1) \<and> 1000 * rankPerMille n p < p * n"
proof -
  define m where "m = p * n"
  have pos: "0 < m" using assms by (simp add: m_def)
  show "rankN n p < n \<and> p * n \<le> 100 * (rankN n p + 1) \<and> 100 * rankN n p < p * n" if "p \<le> 100"
  proof -
    have le: "m \<le> 100 * n" using that by (simp add: m_def)
    then have q: "1 \<le> (m + 99) div 100" "(m + 99) div 100 \<le> n" using pos by linarith+
    then have "rankN n p = (m + 99) div 100 - 1" by (simp add: rankN_def Let_def m_def [symmetric])
    with q pos show ?thesis unfolding m_def [symmetric] by (intro rank_arith) simp_all
  qed
  show "rankPerMille n p < n \<and> p * n \<le> 1000 * (rankPerMille n p + 1) \<and> 1000 * rankPerMille n p < p * n" if "p \<le> 1000"
  proof -
    have le: "m \<le> 1000 * n" using that by (simp add: m_def)
    then have q: "1 \<le> (m + 999) div 1000" "(m + 999) div 1000 \<le> n" using pos by linarith+
    then have "rankPerMille n p = (m + 999) div 1000 - 1" by (simp add: rankPerMille_def Let_def m_def [symmetric])
    with q pos show ?thesis unfolding m_def [symmetric] by (intro rank_arith) simp_all
  qed
qed

text \<open>At least \<open>p\<close> percent of the sample is at most the percentile, and less than \<open>p\<close> percent is below it.\<close>

theorem percentile_right:
  assumes "hg_samples h \<noteq> []" "0 < p" "p \<le> 100"
  shows "let xs = hg_samples h; v = sort xs ! rankN (length xs) p
    in p * length xs \<le> 100 * length (filter (\<lambda>x. x \<le> v) xs) \<and> 100 * length (filter (\<lambda>x. x < v) xs) < p * length xs"
proof -
  let ?xs = "hg_samples h" and ?s = "sort (hg_samples h)" and ?i = "rankN (length (hg_samples h)) p"
  have r: "?i < length ?s" "p * length ?xs \<le> 100 * (?i + 1)" "100 * ?i < p * length ?xs"
    using rank_bounds(1) [of "length ?xs" p] assms by simp_all
  have f: "length (filter P ?xs) = length (filter P ?s)" for P
    by (metis filter_sort length_sort)
  have "?i + 1 \<le> length (filter (\<lambda>x. x \<le> ?s ! ?i) ?xs)" "length (filter (\<lambda>x. x < ?s ! ?i) ?xs) \<le> ?i"
    unfolding f using sorted_below [of ?s ?i] r(1) by simp_all
  then show ?thesis unfolding Let_def using r(2,3) by (rule rank_trans)
qed

theorem snapshot_ordered:
  assumes "hist_ok h" "hg_samples h \<noteq> []"
  shows "let s = Histogram_Snapshot h in 0 \<le> hs_Min s \<and> hs_Min s \<le> hs_P50 s \<and> hs_P50 s \<le> hs_P95 s \<and> hs_P95 s \<le> hs_P99 s
     \<and> hs_P99 s \<le> hs_P999 s \<and> hs_P999 s \<le> hs_Max s \<and> {hs_Min s, hs_P50 s, hs_P95 s, hs_P99 s, hs_P999 s, hs_Max s} \<subseteq> set (hg_samples h)"
proof -
  let ?s = "sort (hg_samples h)" and ?n = "length (hg_samples h)"
  have n: "0 < ?n" using assms(2) by simp
  note r = rank_bounds(1) [OF n, of 50] rank_bounds(1) [OF n, of 95] rank_bounds(1) [OF n, of 99]
    rank_bounds(2) [OF n, of 999]
  have o: "rankN ?n 50 \<le> rankN ?n 95" "rankN ?n 95 \<le> rankN ?n 99" "rankN ?n 99 \<le> rankPerMille ?n 999"
    "rankPerMille ?n 999 \<le> ?n - 1" using r by auto
  have m: "?s ! i \<le> ?s ! j" if "i \<le> j" "j < ?n" for i j using that by (intro sorted_nth_mono) simp_all
  have e: "?s ! i \<in> set (hg_samples h)" if "i < ?n" for i using that by (metis length_sort nth_mem set_sort)
  have "0 \<le> ?s ! 0" using e [of 0] n assms(1) by (simp add: hist_ok_def)
  moreover have "?s \<noteq> []" using assms(2) by (metis length_0_conv length_sort)
  ultimately show ?thesis using assms(2) o r n by (simp add: Histogram_Snapshot_def Let_def m e)
qed

section \<open>The gauge and the reset\<close>

lemma stream_peak:
  assumes "sorted (cur # xs)"
  shows "n \<le> ObserveStreamLen n xs cur \<and> cur \<le> ObserveStreamLen n xs cur
     \<and> ObserveStreamLen n xs cur \<in> insert n (set (cur # xs))"
  using assms by (induction n xs cur rule: ObserveStreamLen.induct) auto

lemma Registry_Reset_keeps: "ActiveConns (Registry_Reset r) = ActiveConns r"
  by (simp add: Registry_Reset_def)

lemma Registry_Reset_fresh:
  assumes "\<forall>f\<in>{AckLatency, BroadcastLatency, RoomStatePatchLatency, HammerLatency, CatchupLatency, ScriptTime, HandlerOverhead}.
    hg_cap (f r) = 4096"
  shows "Registry_Reset r = new_registry\<lparr>ActiveConns := ActiveConns r\<rparr>"
proof -
  have "Histogram_Reset h = NewHistogram 4096" if "hg_cap h = 4096" for h
    using that by (cases h) (simp add: Histogram_Reset_def NewHistogram_def)
  with assms show ?thesis by (cases r) (simp add: Registry_Reset_def new_registry_def Let_def)
qed

end
