(* ===== verification/Drill.thy ===== *)
theory Drill
  imports Bids Fanout Metrics
begin

text \<open>
  The chaos runner, \<^verbatim>\<open>tools/chaos-runner\<close>: the recorder of a drill (\<^verbatim>\<open>artifact.go\<close>), what the bidder's
  read loop makes of a frame (\<^verbatim>\<open>bidgen.go\<close>), and the invariants judged at the end
  (\<^verbatim>\<open>internal/invariants\<close>). Times are milliseconds; \<open>None\<close> is Go's zero time. Then: what a passed verdict says,
  and how the count behind \<^verbatim>\<open>seq_no_gap\<close> relates to the server's own frames.
\<close>

section \<open>The recorder\<close>

datatype bid_code = Wire code | ERR_TIMEOUT | ERR_WS_WRITE | ERR_WS_READ | ERR_UNKNOWN

record Recorder =
  rc_InjectedAt :: "int option"
  rc_UninjectedAt :: "int option"
  rc_AcceptedCount :: nat
  rc_AcceptedDuringInjection :: nat
  rc_TerminalCount :: nat
  rc_SeqConsumingObserved :: nat
  rc_RejectCodeCounts :: "bid_code \<Rightarrow> nat"
  rc_AckLatencies :: "int list"
  rc_FirstOKAfterUninject :: "int option"

definition NewRecorder :: Recorder where
  "NewRecorder = \<lparr>rc_InjectedAt = None, rc_UninjectedAt = None, rc_AcceptedCount = 0,
     rc_AcceptedDuringInjection = 0, rc_TerminalCount = 0, rc_SeqConsumingObserved = 0,
     rc_RejectCodeCounts = (\<lambda>c. 0), rc_AckLatencies = [], rc_FirstOKAfterUninject = None\<rparr>"

definition in_injection :: "int \<Rightarrow> Recorder \<Rightarrow> bool" where
  "in_injection t r \<longleftrightarrow>
     (case rc_InjectedAt r of
        None \<Rightarrow> False
      | Some i \<Rightarrow> (case rc_UninjectedAt r of None \<Rightarrow> True | Some u \<Rightarrow> t < u) \<and> i \<le> t)"

definition RecordBid :: "int \<Rightarrow> bid_code \<Rightarrow> int \<Rightarrow> Recorder \<Rightarrow> Recorder" where
  "RecordBid t c dur r =
     (let r1 = r\<lparr>rc_AckLatencies := rc_AckLatencies r @ [dur]\<rparr>
      in if c = Wire OK_ACCEPTED then
           r1\<lparr>rc_AcceptedCount := rc_AcceptedCount r + 1,
              rc_AcceptedDuringInjection := rc_AcceptedDuringInjection r + (if in_injection t r then 1 else 0),
              rc_FirstOKAfterUninject :=
                (case rc_UninjectedAt r of
                   Some u \<Rightarrow> (if u < t \<and> rc_FirstOKAfterUninject r = None then Some t else rc_FirstOKAfterUninject r)
                 | None \<Rightarrow> rc_FirstOKAfterUninject r)\<rparr>
         else if c \<in> {Wire OK_SOLD, Wire OK_NO_BID, Wire OK_CANCELLED}
         then r1\<lparr>rc_TerminalCount := rc_TerminalCount r + 1\<rparr>
         else r1\<lparr>rc_RejectCodeCounts := (rc_RejectCodeCounts r)(c := rc_RejectCodeCounts r c + 1)\<rparr>)"

definition RecordSeqConsumingEvent :: "Recorder \<Rightarrow> Recorder" where
  "RecordSeqConsumingEvent r = r\<lparr>rc_SeqConsumingObserved := rc_SeqConsumingObserved r + 1\<rparr>"

section \<open>The read loop\<close>

text \<open>One frame: what is passed to the bidding loop, if anything.\<close>

definition readPump :: "Envelope \<Rightarrow> Recorder \<Rightarrow> bid_code option \<times> Recorder" where
  "readPump e r =
     (if en_Type e = BID_ACCEPTED then (Some (Wire OK_ACCEPTED), RecordSeqConsumingEvent r)
      else if en_Type e = BID_REJECTED
      then (Some (case en_Data e of DRejected c \<Rightarrow> Wire c | _ \<Rightarrow> ERR_UNKNOWN), r)
      else if en_Type e \<in> {AUCTION_EXTENDED, AUCTION_SOLD, AUCTION_NO_BID, AUCTION_CANCELLED}
      then (None, RecordSeqConsumingEvent r)
      else (None, r))"

fun readPump_all :: "Envelope list \<Rightarrow> Recorder \<Rightarrow> bid_code list \<times> Recorder" where
  "readPump_all [] r = ([], r)"
| "readPump_all (e # es) r =
     (let (c, r1) = readPump e r; (cs, r2) = readPump_all es r1
      in ((case c of None \<Rightarrow> cs | Some x \<Rightarrow> x # cs), r2))"

text \<open>The \<open>n\<close>-th bid of the bidding loop.\<close>

definition drill_bid :: "int \<Rightarrow> nat \<Rightarrow> BidPlaceData" where
  "drill_bid startPrice n =
     \<lparr>bp_ClientBidID = ''chaos-bid-'' @ FormatInt (int n),
      bp_AmountCents = FormatInt ((if startPrice = 0 then 10000 else startPrice) + int n * 1000)\<rparr>"

section \<open>The invariants\<close>

record drill_env =
  de_preSeq :: "int option"
  de_postSeq :: "int option"
  de_recoveryDeadline :: int
  de_tolerance :: "int option"
  de_verifier :: "int option \<times> bool" \<comment> \<open>exit code, or none when it did not run; whether the output says consistent\<close>

definition SeqNoGap_Check :: "drill_env \<Rightarrow> Recorder \<Rightarrow> bool" where
  "SeqNoGap_Check e r =
     (case (de_preSeq e, de_postSeq e) of
        (Some a, Some b) \<Rightarrow> b = a + int (rc_SeqConsumingObserved r)
      | _ \<Rightarrow> False)"

definition RecoveryWithin_Check :: "drill_env \<Rightarrow> Recorder \<Rightarrow> bool" where
  "RecoveryWithin_Check e r =
     (case (rc_FirstOKAfterUninject r, rc_UninjectedAt r) of
        (Some t, Some u) \<Rightarrow> \<not> t - u > (if de_recoveryDeadline e = 0 then 30000 else de_recoveryDeadline e)
      | _ \<Rightarrow> False)"

definition VerifierConsistent_Check :: "drill_env \<Rightarrow> bool" where
  "VerifierConsistent_Check e \<longleftrightarrow> fst (de_verifier e) = Some 0 \<and> snd (de_verifier e)"

text \<open>\<open>p\<close> in percent; the product of the code is taken as exact.\<close>

definition drill_percentile :: "int list \<Rightarrow> nat \<Rightarrow> int" where
  "drill_percentile s p = (if s = [] then 0 else sort s ! ((length s - 1) * p div 100))"

definition LatencyEnvelope_Check :: "bool \<Rightarrow> drill_env \<Rightarrow> Recorder \<Rightarrow> bool" where
  "LatencyEnvelope_Check requireDuring e r =
     (if rc_AckLatencies r = [] then False
      else if rc_AcceptedCount r = 0 then False
      else if requireDuring \<and> rc_AcceptedDuringInjection r = 0 then False
      else \<not> drill_percentile (rc_AckLatencies r) 95 > (case de_tolerance e of Some t \<Rightarrow> t | None \<Rightarrow> 200))"

definition DegradeExpected_Check :: "code list \<Rightarrow> Recorder \<Rightarrow> bool" where
  "DegradeExpected_Check codes r = list_ex (\<lambda>c. rc_RejectCodeCounts r (Wire c) > 0) codes"

datatype invariant = SeqNoGap | RecoveryWithin | VerifierConsistent | LatencyEnvelope bool | DegradeExpected "code list"

definition invariants_For :: "string \<Rightarrow> invariant list" where
  "invariants_For phase =
     (let during = phase \<in> {''ai'', ''ws'', ''timer'', ''mysql'', ''tamper''};
          common = [SeqNoGap, RecoveryWithin, VerifierConsistent, LatencyEnvelope during]
      in if phase = ''redis'' then common @ [DegradeExpected [ERR_AUCTION_PAUSED]] else common)"

fun Check :: "drill_env \<Rightarrow> Recorder \<Rightarrow> invariant \<Rightarrow> bool" where
  "Check e r SeqNoGap = SeqNoGap_Check e r"
| "Check e r RecoveryWithin = RecoveryWithin_Check e r"
| "Check e r VerifierConsistent = VerifierConsistent_Check e"
| "Check e r (LatencyEnvelope d) = LatencyEnvelope_Check d e r"
| "Check e r (DegradeExpected cs) = DegradeExpected_Check cs r"

definition all_passed :: "string \<Rightarrow> drill_env \<Rightarrow> Recorder \<Rightarrow> bool" where
  "all_passed phase e r = list_all (Check e r) (invariants_For phase)"

section \<open>The recorder's counts\<close>

definition rec_inv :: "Recorder \<Rightarrow> bool" where
  "rec_inv r \<longleftrightarrow> rc_AcceptedDuringInjection r \<le> rc_AcceptedCount r \<and> rc_AcceptedCount r \<le> length (rc_AckLatencies r)
     \<and> (\<forall>t. rc_FirstOKAfterUninject r = Some t \<longrightarrow> 0 < rc_AcceptedCount r)"

lemma rec_inv_new [simp]: "rec_inv NewRecorder"
  by (simp add: rec_inv_def NewRecorder_def)

lemma rec_inv_bid: "rec_inv r \<Longrightarrow> rec_inv (RecordBid t c dur r)"
  by (auto simp: rec_inv_def RecordBid_def Let_def split: option.splits)

lemma rec_inv_seq: "rec_inv (RecordSeqConsumingEvent r) = rec_inv r"
  by (simp add: rec_inv_def RecordSeqConsumingEvent_def)

lemma length_filter_mono: "(\<And>x. P x \<Longrightarrow> Q x) \<Longrightarrow> length (filter P xs) \<le> length (filter Q xs)"
  by (induction xs) (auto simp: le_SucI)

text \<open>A passed verdict of the phases that leave bidding alone: there was an accepted bid while the fault was in, one in time
  after it, and all but a twentieth of the samples are in the envelope.\<close>

theorem passed_says:
  assumes pass: "all_passed phase e r" and phase: "phase \<in> {''ai'', ''ws'', ''timer'', ''mysql'', ''tamper''}"
  shows "0 < rc_AcceptedDuringInjection r"
    and "\<exists>t u. rc_FirstOKAfterUninject r = Some t \<and> rc_UninjectedAt r = Some u"
    and "(length (rc_AckLatencies r) - 1) * 95 div 100 + 1
      \<le> length (filter (\<lambda>x. x \<le> (case de_tolerance e of Some t \<Rightarrow> t | None \<Rightarrow> 200)) (rc_AckLatencies r))"
proof -
  have all: "RecoveryWithin_Check e r" "LatencyEnvelope_Check True e r"
    using assms by (auto simp: all_passed_def invariants_For_def Let_def)
  show "0 < rc_AcceptedDuringInjection r" using all(2) by (simp add: LatencyEnvelope_Check_def split: if_splits)
  show "\<exists>t u. rc_FirstOKAfterUninject r = Some t \<and> rc_UninjectedAt r = Some u"
    using all(1) by (auto simp: RecoveryWithin_Check_def split: option.splits)
  let ?s = "rc_AckLatencies r" and ?tol = "case de_tolerance e of Some t \<Rightarrow> t | None \<Rightarrow> 200"
  let ?i = "(length ?s - 1) * 95 div 100"
  have ne: "?s \<noteq> []" and le: "sort ?s ! ?i \<le> ?tol"
    using all(2) by (auto simp: LatencyEnvelope_Check_def drill_percentile_def split: if_splits)
  have "?i < length (sort ?s)" using ne by (cases ?s) auto
  then have "?i + 1 \<le> length (filter (\<lambda>x. x \<le> sort ?s ! ?i) (sort ?s))" by (intro sorted_below) simp_all
  also have "\<dots> = length (filter (\<lambda>x. x \<le> sort ?s ! ?i) ?s)" by (metis filter_sort length_sort)
  also have "\<dots> \<le> length (filter (\<lambda>x. x \<le> ?tol) ?s)"
    using le by (intro length_filter_mono) simp
  finally show "?i + 1 \<le> length (filter (\<lambda>x. x \<le> ?tol) ?s)" .
qed

text \<open>With few samples the index falls short: of two samples the smaller one is reported.\<close>

lemma two_samples: "a \<le> b \<Longrightarrow> drill_percentile [a, b] 95 = a \<and> drill_percentile [b, a] 95 = a"
  by (auto simp: drill_percentile_def)

section \<open>What the bidder reads, and what the auction counted\<close>

definition consuming :: "msg_type \<Rightarrow> bool" where
  "consuming t \<longleftrightarrow> t \<in> {BID_ACCEPTED, AUCTION_EXTENDED, AUCTION_SOLD, AUCTION_NO_BID, AUCTION_CANCELLED}"

lemma readPump_counts:
  "rc_SeqConsumingObserved (snd (readPump_all es r)) =
     rc_SeqConsumingObserved r + length (filter (\<lambda>e. consuming (en_Type e)) es)"
  by (induction es r rule: readPump_all.induct)
     (auto simp: readPump_def consuming_def RecordSeqConsumingEvent_def Let_def split: prod.splits)

text \<open>One attempt against the server: the answer on the bidder's own connection, and the broadcast of
  what the bid added to the log.\<close>

definition attempt :: "ws_conn \<Rightarrow> hub \<Rightarrow> bid_env \<times> BidPlaceData \<Rightarrow> redis \<times> gw_metrics \<Rightarrow> Envelope list \<times> redis \<times> gw_metrics" where
  "attempt c h x s =
     (case (x, s) of
        ((e, d), (r, m)) \<Rightarrow>
          (case bid_place e c d h r m of
             (ack, r', m') \<Rightarrow>
               (ack # map (\<lambda>n. event_envelope (be_wall e) (cn_aid c) (event_of n))
                  (drop (length (events_of (rd_keys r (cn_aid c)))) (events_of (rd_keys r' (cn_aid c)))), r', m')))"

fun drill :: "ws_conn \<Rightarrow> hub \<Rightarrow> (bid_env \<times> BidPlaceData) list \<Rightarrow> redis \<times> gw_metrics \<Rightarrow> Envelope list list \<times> redis \<times> gw_metrics" where
  "drill c h [] s = ([], s)"
| "drill c h (x # xs) s =
     (let (fs, s1) = attempt c h x s; (fss, s2) = drill c h xs s1 in (fs # fss, s2))"

lemma place_bid_consuming:
  assumes "room_inv k"
  shows "\<exists>es. events_of (snd (place_bid b t k)) = events_of k @ es \<and> (\<forall>m\<in>set es. consuming (e_type m))"
  using room_invD(3,4) [OF assms]
  by (cases rule: place_bid_cases [of b t k])
     (auto simp: commit_bid_eq bid_events_def second_event_def entries_def consuming_def frame_simps seq_entry_def
        split: if_splits)

lemma bid_place_keys:
  assumes "\<not> UsesSealedEngine (rs_mode (roomStateSnap h (cn_aid c)))" "\<not> UsesHybridEngine (rs_mode (roomStateSnap h (cn_aid c)))"
    and "bid_place e c d h r m = (ack, r', m')"
  shows "rd_keys r' (cn_aid c) = rd_keys r (cn_aid c) \<or> (\<exists>b. rd_keys r' (cn_aid c) = snd (place_bid b (be_redis e) (rd_keys r (cn_aid c))))"
  using assms
  by (auto simp: bid_place_def route_bid_def Let_def PlaceBid_def eval_keys [symmetric] split: if_splits prod.splits)
     (metis eval_keys snd_conv)+

lemma bid_answer_type: "en_Type (fst (bid_answer wall aid t res m)) \<in> {BID_ACCEPTED, BID_REJECTED}"
  by (cases "(wall, aid, t, res, m)" rule: bid_answer.cases) (auto simp: rejected_def NewEnvelope_def bidAccepted_def Let_def)

lemma bid_place_type: "bid_place e c d h r m = (ack, r', m') \<Longrightarrow> en_Type ack \<in> {BID_ACCEPTED, BID_REJECTED}"
proof -
  have "en_Type (fst (bid_place e c d h r m)) \<in> {BID_ACCEPTED, BID_REJECTED}"
    using bid_answer_type by (simp add: bid_place_def Let_def case_prod_beta) (simp add: rejected_def NewEnvelope_def)
  then show "bid_place e c d h r m = (ack, r', m') \<Longrightarrow> en_Type ack \<in> {BID_ACCEPTED, BID_REJECTED}" by simp
qed

lemma attempt_counts:
  assumes inv: "room_inv (rd_keys r (cn_aid c))"
    and mode: "\<not> UsesSealedEngine (rs_mode (roomStateSnap h (cn_aid c)))" "\<not> UsesHybridEngine (rs_mode (roomStateSnap h (cn_aid c)))"
    and run: "attempt c h x (r, m) = (fs, r', m')"
  shows "room_inv (rd_keys r' (cn_aid c))"
    and "int (length (filter (\<lambda>e. consuming (en_Type e)) fs)) =
      h_seq (hash_of (rd_keys r' (cn_aid c))) - h_seq (hash_of (rd_keys r (cn_aid c)))
      + (if en_Type (hd fs) = BID_ACCEPTED then 1 else 0)"
proof -
  obtain e d where x: "x = (e, d)" by fastforce
  let ?k = "rd_keys r (cn_aid c)" and ?k' = "rd_keys r' (cn_aid c)"
  obtain ack where ack: "bid_place e c d h r m = (ack, r', m')"
    "fs = ack # map (\<lambda>n. event_envelope (be_wall e) (cn_aid c) (event_of n)) (drop (length (events_of ?k)) (events_of ?k'))"
    using run by (auto simp: attempt_def x split: prod.splits)
  note keys = bid_place_keys [OF mode ack(1)]
  show inv': "room_inv ?k'" using keys inv ascending.keeps_inv by metis
  obtain es where es: "events_of ?k' = events_of ?k @ es" "\<forall>m\<in>set es. consuming (e_type m)"
    using keys place_bid_consuming [OF inv] by (metis append_Nil2 empty_iff list.set(1))
  note len = room_invD(2)
  have type: "en_Type ack \<in> {BID_ACCEPTED, BID_REJECTED}" using ack(1) by (rule bid_place_type)
  have "filter (\<lambda>e. consuming (en_Type e)) (map (\<lambda>n. event_envelope (be_wall e) (cn_aid c) (event_of n)) es)
      = map (\<lambda>n. event_envelope (be_wall e) (cn_aid c) (event_of n)) es"
    using es(2) by (auto simp: filter_id_conv event_envelope_def NewEnvelope_def event_of_def)
  then show "int (length (filter (\<lambda>e. consuming (en_Type e)) fs)) = h_seq (hash_of ?k') - h_seq (hash_of ?k)
      + (if en_Type (hd fs) = BID_ACCEPTED then 1 else 0)"
    using type by (auto simp: ack(2) es(1) len [OF inv] len [OF inv'] consuming_def)
qed

text \<open>A whole drill. The bidder's connection is a member of the room, so an accepted bid reaches it twice, as the answer
  and as the broadcast; a repeated one only as the answer.\<close>

definition answered_accepted :: "Envelope list list \<Rightarrow> nat" where
  "answered_accepted fss = length (filter (\<lambda>fs. en_Type (hd fs) = BID_ACCEPTED) fss)"

lemma drill_counts:
  assumes mode: "\<not> UsesSealedEngine (rs_mode (roomStateSnap h (cn_aid c)))" "\<not> UsesHybridEngine (rs_mode (roomStateSnap h (cn_aid c)))"
    and "room_inv (rd_keys r (cn_aid c))" "drill c h xs (r, m) = (fss, r', m')"
  shows "int (length (filter (\<lambda>e. consuming (en_Type e)) (concat fss))) =
      h_seq (hash_of (rd_keys r' (cn_aid c))) - h_seq (hash_of (rd_keys r (cn_aid c))) + int (answered_accepted fss)"
  using assms(3,4)
proof (induction xs arbitrary: r m fss r' m')
  case Nil
  then show ?case by (simp add: answered_accepted_def)
next
  case (Cons x xs)
  obtain fs r1 m1 where a: "attempt c h x (r, m) = (fs, r1, m1)" by (metis prod_cases3)
  obtain gss r2 m2 where d: "drill c h xs (r1, m1) = (gss, r2, m2)" by (metis prod_cases3)
  have eq: "fss = fs # gss" "r' = r2" using Cons.prems(2) a d by simp_all
  note one = attempt_counts [OF Cons.prems(1) mode a]
  show ?case using Cons.IH [OF one(1) d] one(2) by (simp add: eq answered_accepted_def)
qed

theorem seq_no_gap_counts:
  assumes "\<not> UsesSealedEngine (rs_mode (roomStateSnap h (cn_aid c)))" "\<not> UsesHybridEngine (rs_mode (roomStateSnap h (cn_aid c)))"
    and "room_inv (rd_keys r (cn_aid c))" "drill c h xs (r, m) = (fss, r', m')"
    and "de_preSeq e = Some (h_seq (hash_of (rd_keys r (cn_aid c))))" "de_postSeq e = Some (h_seq (hash_of (rd_keys r' (cn_aid c))))"
  shows "SeqNoGap_Check e (snd (readPump_all (concat fss) NewRecorder)) \<longleftrightarrow> answered_accepted fss = 0"
  using drill_counts [OF assms(1-4)] assms(5,6)
  by (simp add: SeqNoGap_Check_def readPump_counts) (simp add: NewRecorder_def)

end
