(* ===== verification/WriteBuffer.thy ===== *)
theory WriteBuffer
  imports Prelude "HOL-Library.Sublist"
begin

text \<open>
  \<^verbatim>\<open>server/ws_coalesce.go\<close>: the buffer between a WebSocket and its socket, with the
  \<^verbatim>\<open>bufio.Writer\<close> it wraps, and the lock that keeps a deadline from moving under a flush. The
  socket is an argument: call number \<open>i\<close> writes everything, or breaks after some bytes. Then: bytes
  leave in order and none is lost before the first error, a burst that fits leaves in one call, and a flush runs under its own
  deadline however the threads interleave.
\<close>

section \<open>The buffered writer\<close>

type_synonym sock = "nat \<Rightarrow> nat option"

record 'b wbuf =
  wb_buf :: "'b list"
  wb_err :: bool
  wb_sent :: "'b list"
  wb_calls :: nat

definition wsWriteBufBytes :: nat where
  "wsWriteBufBytes = 8 * 1024"

definition newBufferedConn :: "'b wbuf" where
  "newBufferedConn = \<lparr>wb_buf = [], wb_err = False, wb_sent = [], wb_calls = 0\<rparr>"

text \<open>One write to the socket: the count written, and whether it broke. A break leaves at least one byte behind.\<close>

definition sock_count :: "sock \<Rightarrow> 'b list \<Rightarrow> 'b wbuf \<Rightarrow> nat \<times> bool" where
  "sock_count so p w =
     (case so (wb_calls w) of None \<Rightarrow> (length p, False) | Some k \<Rightarrow> (min k (length p - 1), True))"

definition sock_write :: "sock \<Rightarrow> 'b list \<Rightarrow> 'b wbuf \<Rightarrow> nat \<times> 'b wbuf" where
  "sock_write so p w =
     (let (n, broke) = sock_count so p w
      in (n, w\<lparr>wb_sent := wb_sent w @ take n p, wb_calls := wb_calls w + 1, wb_err := broke\<rparr>))"

definition flush :: "sock \<Rightarrow> 'b wbuf \<Rightarrow> 'b wbuf" where
  "flush so w =
     (if wb_err w \<or> wb_buf w = [] then w
      else (let (n, w') = sock_write so (wb_buf w) w in w'\<lparr>wb_buf := drop n (wb_buf w)\<rparr>))"

lemma sock_count_le: "sock_count so p w = (n, b) \<Longrightarrow> n \<le> length p \<and> (\<not> b \<longrightarrow> n = length p)"
  by (auto simp: sock_count_def split: option.splits)

lemma flush_cases:
  obtains "flush so w = w" "wb_err w \<or> wb_buf w = []"
  | n where "\<not> wb_err w" "wb_buf w \<noteq> []" "n \<le> length (wb_buf w)"
    "wb_err (flush so w) \<or> n = length (wb_buf w)" "wb_calls (flush so w) = wb_calls w + 1"
    "wb_sent (flush so w) = wb_sent w @ take n (wb_buf w)" "wb_buf (flush so w) = drop n (wb_buf w)"
proof (cases "wb_err w \<or> wb_buf w = []")
  case True
  then show thesis by (intro that(1)) (simp_all add: flush_def)
next
  case False
  obtain n b where s: "sock_count so (wb_buf w) w = (n, b)" by fastforce
  with False sock_count_le [OF s] show thesis
    by (intro that(2) [of n]) (auto simp: flush_def sock_write_def)
qed

lemma flush_shrinks: "wb_err (flush so w) \<or> wb_buf (flush so w) = []"
  by (rule flush_cases [of so w]) auto

lemma sock_write_drops:
  assumes "sock_write so p w = (n, w')" "p \<noteq> []"
  shows "wb_err w' \<or> drop n p = []"
  using assms sock_count_le [of so p w] by (auto simp: sock_write_def split: prod.splits)

text \<open>\<^verbatim>\<open>bufio.Writer.Write\<close>: while the bytes do not fit, either write them straight through (empty buffer) or top up
  the buffer and flush. \<open>cap\<close> is the buffer's size.\<close>

function write_loop :: "sock \<Rightarrow> nat \<Rightarrow> 'b list \<Rightarrow> 'b wbuf \<Rightarrow> 'b list \<times> 'b wbuf" where
  "write_loop so cap p w =
     (if length p \<le> cap - length (wb_buf w) \<or> wb_err w then (p, w)
      else if wb_buf w = [] then
        (let (n, w') = sock_write so p w in write_loop so cap (drop n p) w')
      else (let n = cap - length (wb_buf w)
            in write_loop so cap (drop n p) (flush so (w\<lparr>wb_buf := wb_buf w @ take n p\<rparr>))))"
  by pat_completeness auto

termination
proof (relation "measure (\<lambda>(so, cap, p, w). if wb_err w then 0 else Suc (2 * length p + length (wb_buf w)))",
    goal_cases)
  case (2 so cap p w x n w')
  then have ne: "p \<noteq> []" by auto
  with 2 sock_write_drops [of so p w n w'] have "wb_err w' \<or> drop n p = []" by simp
  moreover have "wb_buf w' = wb_buf w" using 2 by (auto simp: sock_write_def split: prod.splits)
  ultimately show ?case using 2 ne by (auto simp: )
next
  case (3 so cap p w n)
  let ?w = "flush so (w\<lparr>wb_buf := wb_buf w @ take n p\<rparr>)"
  show ?case
  proof (cases "wb_err ?w")
    case False
    then have "wb_buf ?w = []" using flush_shrinks by blast
    then show ?thesis using 3 False by (cases "wb_buf w") auto
  qed (use 3 in simp)
qed simp_all

declare write_loop.simps [simp del]

definition Write :: "sock \<Rightarrow> nat \<Rightarrow> 'b list \<Rightarrow> 'b wbuf \<Rightarrow> 'b wbuf" where
  "Write so cap p w =
     (let (rest, w') = write_loop so cap p w
      in if wb_err w' then w' else w'\<lparr>wb_buf := wb_buf w' @ rest\<rparr>)"

section \<open>Order, and nothing lost\<close>

text \<open>\<open>bs\<close> was accepted so far: it is what was sent and what waits, and after an error what was sent is
  its beginning.\<close>

definition wb_inv :: "nat \<Rightarrow> 'b list \<Rightarrow> 'b wbuf \<Rightarrow> bool" where
  "wb_inv cap bs w \<longleftrightarrow> prefix (wb_sent w) bs
     \<and> (\<not> wb_err w \<longrightarrow> wb_sent w @ wb_buf w = bs \<and> length (wb_buf w) \<le> cap)"

lemma wb_inv_new: "wb_inv cap [] newBufferedConn"
  by (simp add: wb_inv_def newBufferedConn_def)

lemma wb_inv_more: "wb_inv cap bs w \<Longrightarrow> wb_err w \<Longrightarrow> wb_inv cap (bs @ p) w"
  by (auto simp: wb_inv_def)

lemma wb_inv_flush:
  assumes "wb_inv cap bs w" shows "wb_inv cap bs (flush so w)"
proof (rule flush_cases [of so w])
  fix n assume f: "\<not> wb_err w" "wb_sent (flush so w) = wb_sent w @ take n (wb_buf w)"
    "wb_buf (flush so w) = drop n (wb_buf w)"
  have "bs = wb_sent w @ wb_buf w" "length (wb_buf w) \<le> cap" using assms f(1) by (auto simp: wb_inv_def)
  then show ?thesis using f(2,3) by (auto simp: wb_inv_def take_is_prefix)
qed (use assms in simp)

definition wb_post :: "nat \<Rightarrow> 'b list \<Rightarrow> 'b list \<Rightarrow> 'b list \<Rightarrow> 'b wbuf \<Rightarrow> bool" where
  "wb_post cap bs p rest w \<longleftrightarrow>
     (if wb_err w then wb_inv cap (bs @ p) w
      else (\<exists>q. p = q @ rest \<and> wb_inv cap (bs @ q) w \<and> length (wb_buf w) + length rest \<le> cap))"

lemma wb_post_step: "wb_post cap (bs @ take n p) (drop n p) rest w \<Longrightarrow> wb_post cap bs p rest w"
  unfolding wb_post_def by (auto split: if_splits) (metis append_assoc append_take_drop_id)

lemma write_loop_inv:
  assumes "wb_inv cap bs w" "write_loop so cap p w = (rest, w')"
  shows "wb_post cap bs p rest w'"
  using assms
proof (induction so cap p w arbitrary: bs rest w' rule: write_loop.induct)
  case (1 so cap p w)
  show ?case
  proof (cases "length p \<le> cap - length (wb_buf w) \<or> wb_err w")
    case True
    then have "rest = p" "w' = w" using 1(4) by (simp_all add: write_loop.simps [of so cap p w])
    then show ?thesis
      using True 1(3) wb_inv_more [of cap bs w p] by (cases "wb_err w") (auto simp: wb_post_def wb_inv_def)
  next
    case more: False
    show ?thesis
    proof (cases "wb_buf w = []")
      case True
      obtain n w1 where s: "sock_write so p w = (n, w1)" by fastforce
      have loop: "write_loop so cap (drop n p) w1 = (rest, w')"
        using more True s 1(4) by (simp add: write_loop.simps [of so cap p w])
      have inv: "wb_inv cap (bs @ take n p) w1"
        using s 1(3) more True by (auto simp: sock_write_def wb_inv_def split: prod.splits)
      from "1.IH"(1) [OF more True s [symmetric] refl inv loop] show ?thesis by (rule wb_post_step)
    next
      case False
      let ?n = "cap - length (wb_buf w)"
      let ?w = "w\<lparr>wb_buf := wb_buf w @ take ?n p\<rparr>"
      have loop: "write_loop so cap (drop ?n p) (flush so ?w) = (rest, w')"
        using more False 1(4) by (simp add: write_loop.simps [of so cap p w] Let_def)
      have "wb_inv cap (bs @ take ?n p) ?w" using 1(3) more by (auto simp: wb_inv_def)
      then have inv: "wb_inv cap (bs @ take ?n p) (flush so ?w)" by (rule wb_inv_flush)
      from "1.IH"(2) [OF more False refl inv loop] show ?thesis by (rule wb_post_step)
    qed
  qed
qed

lemma wb_inv_write:
  assumes "wb_inv cap bs w" shows "wb_inv cap (bs @ p) (Write so cap p w)"
proof -
  obtain rest w' where l: "write_loop so cap p w = (rest, w')" by fastforce
  from write_loop_inv [OF assms l] show ?thesis
    by (auto simp: Write_def l wb_post_def wb_inv_def split: if_splits)
      (metis append_assoc prefixI)+
qed

text \<open>A burst that fits in the space left makes no call until the flush, then one.\<close>

lemma write_fits:
  assumes "length (wb_buf w) + length p \<le> cap" "\<not> wb_err w"
  shows "Write so cap p w = w\<lparr>wb_buf := wb_buf w @ p\<rparr>"
  using assms by (simp add: Write_def write_loop.simps [of so cap p w])

lemma burst_fits:
  assumes "length (wb_buf w) + length (concat ps) \<le> cap" "\<not> wb_err w"
  shows "fold (Write so cap) ps w = w\<lparr>wb_buf := wb_buf w @ concat ps\<rparr>"
  using assms
proof (induction ps arbitrary: w)
  case (Cons p ps)
  from Cons.IH [of "w\<lparr>wb_buf := wb_buf w @ p\<rparr>"] Cons.prems show ?case by (simp add: write_fits)
qed simp

theorem burst_one_call:
  assumes "length (concat ps) \<le> cap" "concat ps \<noteq> []" "wb_buf w = []" "\<not> wb_err w" "so (wb_calls w) = None"
  shows "flush so (fold (Write so cap) ps w) =
    w\<lparr>wb_sent := wb_sent w @ concat ps, wb_calls := wb_calls w + 1\<rparr>"
  using assms burst_fits [of w ps cap so] by (simp add: flush_def sock_write_def sock_count_def)

text \<open>Any sequence of writes and flushes.\<close>

datatype 'b wb_op = WbWrite "'b list" | WbFlush

fun wb_step :: "sock \<Rightarrow> nat \<Rightarrow> 'b wb_op \<Rightarrow> 'b wbuf \<Rightarrow> 'b wbuf" where
  "wb_step so cap (WbWrite p) w = Write so cap p w"
| "wb_step so cap WbFlush w = flush so w"

fun wb_bytes :: "'b wb_op list \<Rightarrow> 'b list" where
  "wb_bytes [] = []"
| "wb_bytes (WbWrite p # os) = p @ wb_bytes os"
| "wb_bytes (WbFlush # os) = wb_bytes os"

lemma wb_run: "wb_inv cap bs w \<Longrightarrow> wb_inv cap (bs @ wb_bytes os) (fold (wb_step so cap) os w)"
proof (induction os arbitrary: bs w rule: wb_bytes.induct)
  case (2 p os)
  from "2.IH" [OF wb_inv_write [OF "2.prems"]] show ?case by simp
next
  case (3 os)
  from "3.IH" [OF wb_inv_flush [OF "3.prems"]] show ?case by simp
qed simp

theorem coalescing_transparent:
  assumes w: "w = fold (wb_step so cap) os newBufferedConn"
  shows "prefix (wb_sent w) (wb_bytes os) \<and> (\<not> wb_err (flush so w) \<longrightarrow> wb_sent (flush so w) = wb_bytes os)"
proof -
  have inv: "wb_inv cap (wb_bytes os) w" using wb_run [OF wb_inv_new, of cap os so] by (simp add: w)
  then have "wb_inv cap (wb_bytes os) (flush so w)" by (rule wb_inv_flush)
  with flush_shrinks [of so w] inv show ?thesis by (auto simp: wb_inv_def)
qed

section \<open>The lock\<close>

text \<open>The threads that use one connection, a step at a time: every operation takes the lock, and a flush sets its
  deadline, writes and lets go; \<^verbatim>\<open>SetWriteDeadline\<close> of a control frame takes the lock too.\<close>

datatype pc = Idle | FlushLocked int | FlushArmed int | SetLocked int | Unlocking

record locked =
  lk_owner :: "nat option"
  lk_deadline :: int
  lk_pc :: "nat \<Rightarrow> pc"
  lk_flushes :: "(int \<times> int) list" \<comment> \<open>asked for, in force\<close>

inductive lock_step :: "locked \<Rightarrow> locked \<Rightarrow> bool" where
  take_flush: "lk_owner s = None \<Longrightarrow> lk_pc s i = Idle \<Longrightarrow>
     lock_step s (s\<lparr>lk_owner := Some i, lk_pc := (lk_pc s)(i := FlushLocked t)\<rparr>)"
| take_set: "lk_owner s = None \<Longrightarrow> lk_pc s i = Idle \<Longrightarrow>
     lock_step s (s\<lparr>lk_owner := Some i, lk_pc := (lk_pc s)(i := SetLocked t)\<rparr>)"
| arm: "lk_pc s i = FlushLocked t \<Longrightarrow>
     lock_step s (s\<lparr>lk_deadline := t, lk_pc := (lk_pc s)(i := FlushArmed t)\<rparr>)"
| write_out: "lk_pc s i = FlushArmed t \<Longrightarrow>
     lock_step s (s\<lparr>lk_flushes := lk_flushes s @ [(t, lk_deadline s)], lk_pc := (lk_pc s)(i := Unlocking)\<rparr>)"
| set_deadline: "lk_pc s i = SetLocked t \<Longrightarrow>
     lock_step s (s\<lparr>lk_deadline := t, lk_pc := (lk_pc s)(i := Unlocking)\<rparr>)"
| unlock: "lk_pc s i = Unlocking \<Longrightarrow>
     lock_step s (s\<lparr>lk_owner := None, lk_pc := (lk_pc s)(i := Idle)\<rparr>)"

definition lock_inv :: "locked \<Rightarrow> bool" where
  "lock_inv s \<longleftrightarrow> (\<forall>i. lk_pc s i \<noteq> Idle \<longrightarrow> lk_owner s = Some i)
     \<and> (\<forall>i t. lk_pc s i = FlushArmed t \<longrightarrow> lk_deadline s = t) \<and> (\<forall>(t, d)\<in>set (lk_flushes s). d = t)"

definition unlocked :: "int \<Rightarrow> locked" where
  "unlocked t = \<lparr>lk_owner = None, lk_deadline = t, lk_pc = (\<lambda>i. Idle), lk_flushes = []\<rparr>"

lemma one_owner: "lock_inv s \<Longrightarrow> lk_pc s i \<noteq> Idle \<Longrightarrow> lk_pc s j \<noteq> Idle \<Longrightarrow> j = i"
  unfolding lock_inv_def by (metis option.inject)

lemma lock_inv_step: "lock_step s s' \<Longrightarrow> lock_inv s \<Longrightarrow> lock_inv s'"
proof (induction rule: lock_step.induct)
  case (arm s i t)
  then have "lk_pc s j = Idle" if "j \<noteq> i" for j using one_owner [of s i j] that by auto
  with arm show ?case by (auto simp: lock_inv_def)
next
  case (set_deadline s i t)
  then have "lk_pc s j = Idle" if "j \<noteq> i" for j using one_owner [of s i j] that by auto
  with set_deadline show ?case by (auto simp: lock_inv_def)
next
  case (unlock s i)
  then have "lk_pc s j = Idle" if "j \<noteq> i" for j using one_owner [of s i j] that by auto
  with unlock show ?case by (auto simp: lock_inv_def)
next
  case (write_out s i t)
  then have "lk_pc s j = Idle" if "j \<noteq> i" for j using one_owner [of s i j] that by auto
  with write_out show ?case by (auto simp: lock_inv_def)
qed (auto simp: lock_inv_def)

theorem flush_own_deadline:
  assumes "lock_step\<^sup>*\<^sup>* (unlocked t0) s" "(asked, in_force) \<in> set (lk_flushes s)"
  shows "in_force = asked"
proof -
  have "lock_inv s" using assms(1)
  proof (induction rule: rtranclp_induct)
    case base
    show ?case by (simp add: lock_inv_def unlocked_def)
  qed (rule lock_inv_step)
  with assms(2) show ?thesis by (auto simp: lock_inv_def)
qed

end
