(* ===== verification/Startup.thy ===== *)
theory Startup
  imports Api Metrics
begin

text \<open>
  What decides how the process runs: \<^verbatim>\<open>config/config.go\<close> (the security baseline),
  \<^verbatim>\<open>server/server.go\<close> (which workers a mode starts, the profiler's address, the files of the web
  client), \<^verbatim>\<open>recover.go\<close> (supervised workers) and the reset of \<^verbatim>\<open>server/metrics.go\<close>. The environment
  is a function, empty where a variable is unset. The text the MySQL driver makes of its parts, SHA-256 and the parser of IPv6
  addresses are arguments.
\<close>

section \<open>Configuration\<close>

type_synonym environ = "string \<Rightarrow> string"

record Config = api_config +
  cf_HTTPAddr :: string
  cf_MySQLDSN :: string
  cf_RedisAddr :: string
  cf_RedisPassword :: string
  cf_AISidecarURL :: string
  cf_FrontendOrigin :: string
  cf_AppEnv :: string
  cf_EvidenceHMACKey :: string
  cf_MetricsResetToken :: string

record mysql_config =
  my_User :: string
  my_Passwd :: string
  my_Addr :: string
  my_DBName :: string
  my_TLSConfig :: string

definition defaultJWTSecret :: string where "defaultJWTSecret = ''change-me-local-only''"
definition defaultMySQLDSN :: string where
  "defaultMySQLDSN = ''lumen:lumen@tcp(localhost:3306)/lumen?parseTime=true&loc=UTC&charset=utf8mb4''"
definition defaultEvidenceKey :: string where "defaultEvidenceKey = ''change-me-evidence-local-only''"

definition env_or :: "environ \<Rightarrow> string \<Rightarrow> string \<Rightarrow> string" where
  "env_or ev key def = (if ev key \<noteq> [] then ev key else def)"

definition JoinHostPort :: "string \<Rightarrow> string \<Rightarrow> string" where
  "JoinHostPort host port =
     (if Contains host CHR '':'' then ''['' @ host @ '']:'' @ port else host @ '':'' @ port)"

definition mysqlDSN :: "(mysql_config \<Rightarrow> string) \<Rightarrow> environ \<Rightarrow> string" where
  "mysqlDSN formatDSN ev =
     (if ev ''MYSQL_DSN'' \<noteq> [] then ev ''MYSQL_DSN''
      else if ev ''MYSQL_HOST'' = [] then defaultMySQLDSN
      else formatDSN \<lparr>my_User = env_or ev ''MYSQL_USER'' ''lumen'', my_Passwd = ev ''MYSQL_PASSWORD'',
             my_Addr = JoinHostPort (ev ''MYSQL_HOST'') (env_or ev ''MYSQL_PORT'' ''3306''),
             my_DBName = env_or ev ''MYSQL_DATABASE'' ''lumen'', my_TLSConfig = env_or ev ''MYSQL_TLS'' []\<rparr>)"

datatype config_error = JwtSecretDefault | DevLoginEnabled | EvidenceKeyDefault | MysqlUnset

definition read_config :: "(mysql_config \<Rightarrow> string) \<Rightarrow> environ \<Rightarrow> Config" where
  "read_config formatDSN ev =
     \<lparr>cf_SellerKey = ev ''LUMEN_SELLER_KEY'',
      cf_JWTSecret = env_or ev ''JWT_SECRET'' defaultJWTSecret,
      cf_EnableDevLogin = (env_or ev ''ENABLE_DEV_LOGIN'' ''true'' = ''true''),
      cf_LivePushURLBase = env_or ev ''LIVE_PUSH_URL_BASE'' [],
      cf_LivePlayURLBase = env_or ev ''LIVE_PLAY_URL_BASE'' [],
      cf_HTTPAddr = env_or ev ''HTTP_ADDR'' '':8080'',
      cf_MySQLDSN = mysqlDSN formatDSN ev,
      cf_RedisAddr = env_or ev ''REDIS_ADDR'' ''localhost:6379'',
      cf_RedisPassword = env_or ev ''REDIS_PASSWORD'' [],
      cf_AISidecarURL = env_or ev ''AI_SIDECAR_URL'' ''http://localhost:8090'',
      cf_FrontendOrigin = env_or ev ''FRONTEND_ORIGIN'' ''http://localhost:8080'',
      cf_AppEnv = env_or ev ''APP_ENV'' ''dev'',
      cf_EvidenceHMACKey = env_or ev ''EVIDENCE_HMAC_KEY'' defaultEvidenceKey,
      cf_MetricsResetToken = ev ''METRICS_RESET_TOKEN''\<rparr>"

definition Load :: "(mysql_config \<Rightarrow> string) \<Rightarrow> environ \<Rightarrow> config_error + Config" where
  "Load formatDSN ev =
     (let c = read_config formatDSN ev in
      if cf_AppEnv c \<noteq> ''dev'' then
        (if cf_JWTSecret c = defaultJWTSecret \<or> cf_JWTSecret c = [] then Inl JwtSecretDefault
         else if cf_EnableDevLogin c then Inl DevLoginEnabled
         else if cf_EvidenceHMACKey c = defaultEvidenceKey \<or> cf_EvidenceHMACKey c = [] then Inl EvidenceKeyDefault
         else if ev ''MYSQL_DSN'' = [] \<and> ev ''MYSQL_HOST'' = [] then Inl MysqlUnset
         else Inr c)
      else Inr c)"

section \<open>Modes\<close>

datatype serve_worker = SubscribeWorker | PersistenceWorker | TimerWorker

definition timerDisabledByChaos :: "environ \<Rightarrow> Config \<Rightarrow> string \<Rightarrow> bool option" where
  "timerDisabledByChaos ev c mode =
     (if mode \<noteq> ''all'' \<and> mode \<noteq> ''timer'' then Some False
      else if ev ''LUMEN_CHAOS_DISABLE_TIMER'' \<noteq> ''1'' then Some False
      else if cf_AppEnv c \<noteq> ''dev'' then None
      else Some True)"

text \<open>\<^verbatim>\<open>Serve\<close> up to its listeners: no server at all when the timer switch is refused.\<close>

definition Serve_workers :: "environ \<Rightarrow> Config \<Rightarrow> string \<Rightarrow> serve_worker list option" where
  "Serve_workers ev c mode =
     (case timerDisabledByChaos ev c mode of
        None \<Rightarrow> None
      | Some timerDisabled \<Rightarrow>
          Some ((if mode = ''all'' \<or> mode = ''gateway'' then [SubscribeWorker] else [])
              @ (if mode = ''all'' \<or> mode = ''pg-writer'' then [PersistenceWorker] else [])
              @ (if (mode = ''all'' \<or> mode = ''timer'') \<and> \<not> timerDisabled then [TimerWorker] else [])))"

text \<open>Outside development nothing runs on the shipped secrets, nobody logs in without a key, and the timer cannot be switched off.\<close>

theorem prod_baseline:
  assumes "Load f ev = Inr c" "cf_AppEnv c \<noteq> ''dev''"
  shows "cf_JWTSecret c \<notin> {[], defaultJWTSecret}" "cf_EvidenceHMACKey c \<notin> {[], defaultEvidenceKey}"
    "handleDevLogin e hm (api_config.truncate c) body d = (Fail 403 ''dev-login disabled'', d)"
    "mode = ''all'' \<or> mode = ''timer'' \<Longrightarrow> Serve_workers ev c mode = Some ws \<Longrightarrow> TimerWorker \<in> set ws"
proof -
  from assms have c: "cf_JWTSecret c \<notin> {[], defaultJWTSecret}" "cf_EvidenceHMACKey c \<notin> {[], defaultEvidenceKey}"
    "\<not> cf_EnableDevLogin c"
    by (auto simp: Load_def Let_def split: if_splits)
  then show "cf_JWTSecret c \<notin> {[], defaultJWTSecret}" "cf_EvidenceHMACKey c \<notin> {[], defaultEvidenceKey}" by blast+
  from c(3) show "handleDevLogin e hm (api_config.truncate c) body d = (Fail 403 ''dev-login disabled'', d)"
    by (simp add: handleDevLogin_def api_config.truncate_def)
  show "mode = ''all'' \<or> mode = ''timer'' \<Longrightarrow> Serve_workers ev c mode = Some ws \<Longrightarrow> TimerWorker \<in> set ws"
    using assms(2) by (auto simp: Serve_workers_def timerDisabledByChaos_def split: if_splits)
qed

section \<open>The profiler listens on the loopback interface only\<close>

fun split_on :: "char \<Rightarrow> string \<Rightarrow> string list" where
  "split_on c [] = [[]]"
| "split_on c (x # xs) =
     (if x = c then [] # split_on c xs
      else (case split_on c xs of [] \<Rightarrow> [[x]] | w # ws \<Rightarrow> (x # w) # ws))"

text \<open>\<^verbatim>\<open>net.SplitHostPort\<close>; the port starts after the last colon.\<close>

definition last_colon :: "string \<Rightarrow> (string \<times> string) option" where
  "last_colon s =
     (if Contains s CHR '':'' then
        (let port = rev (before CHR '':'' (rev s)) in Some (take (length s - length port - 1) s, port))
      else None)"

definition SplitHostPort :: "string \<Rightarrow> (string \<times> string) option" where
  "SplitHostPort s =
     (case last_colon s of
        None \<Rightarrow> None
      | Some (pre, port) \<Rightarrow>
          (if HasPrefix s ''['' then
             (let host = before CHR '']'' (tl s) in
              if pre \<noteq> ''['' @ host @ '']'' \<or> Contains host CHR ''['' \<or> Contains port CHR ''['' \<or> Contains port CHR '']''
              then None else Some (host, port))
           else if Contains pre CHR '':'' \<or> Contains s CHR ''['' \<or> Contains s CHR '']'' then None
           else Some (pre, port)))"

definition parse_octet :: "string \<Rightarrow> nat option" where
  "parse_octet s =
     (if s = [] \<or> \<not> list_all is_digit s \<or> length s > 1 \<and> hd s = CHR ''0'' \<or> length s > 3 then None
      else (case digits_val 0 s of Some n \<Rightarrow> (if n \<le> 255 then Some (nat n) else None) | None \<Rightarrow> None))"

definition parseIPv4 :: "string \<Rightarrow> nat list option" where
  "parseIPv4 s =
     (let os = map parse_octet (split_on CHR ''.'' s)
      in if length os = 4 \<and> None \<notin> set os then Some (map the os) else None)"

text \<open>\<^verbatim>\<open>netip.ParseAddr\<close> followed by \<^verbatim>\<open>IsLoopback\<close>: the first dot, colon or percent sign decides the
  syntax; \<open>loopback6\<close> says that the text is an IPv6 address and a loopback one.\<close>

definition ParseAddr_IsLoopback :: "(string \<Rightarrow> bool) \<Rightarrow> string \<Rightarrow> bool" where
  "ParseAddr_IsLoopback loopback6 s =
     (case find (\<lambda>c. c \<in> {CHR ''.'', CHR '':'', CHR ''%''}) s of
        None \<Rightarrow> False
      | Some c \<Rightarrow>
          (if c = CHR ''.'' then (case parseIPv4 s of Some os \<Rightarrow> hd os = 127 | None \<Rightarrow> False)
           else c = CHR '':'' \<and> loopback6 s))"

definition isLoopbackHostPort :: "(string \<Rightarrow> bool) \<Rightarrow> string \<Rightarrow> bool" where
  "isLoopbackHostPort loopback6 addr =
     (case SplitHostPort addr of
        None \<Rightarrow> False
      | Some (host, port) \<Rightarrow>
          host \<noteq> [] \<and> (host = ''localhost'' \<or> ParseAddr_IsLoopback loopback6 host))"

definition pprof_listens :: "(string \<Rightarrow> bool) \<Rightarrow> environ \<Rightarrow> string option" where
  "pprof_listens loopback6 ev =
     (let addr = TrimSpace (ev ''PPROF_ADDR'')
      in if addr \<noteq> [] \<and> isLoopbackHostPort loopback6 addr then Some addr else None)"

theorem pprof_private:
  assumes "pprof_listens loopback6 ev = Some addr"
  obtains port where "SplitHostPort addr = Some (''localhost'', port)"
  | host port os where "SplitHostPort addr = Some (host, port)" "parseIPv4 host = Some os" "hd os = 127"
  | host port where "SplitHostPort addr = Some (host, port)" "loopback6 host"
  using assms
  by (auto simp: pprof_listens_def isLoopbackHostPort_def ParseAddr_IsLoopback_def Let_def
      split: if_splits option.splits list.splits)

lemma public_addresses_refused:
  "\<not> isLoopbackHostPort l6 '':6060''" "\<not> isLoopbackHostPort l6 ''0.0.0.0:6060''" "\<not> isLoopbackHostPort l6 ''128.0.0.1:6060''"
  "\<not> isLoopbackHostPort l6 ''6060''" "\<not> isLoopbackHostPort l6 ''metrics.example:6060''" "\<not> isLoopbackHostPort l6 ''127.0.0.01:6060''"
  "isLoopbackHostPort l6 ''127.0.0.1:6060''" "isLoopbackHostPort l6 ''localhost:6060''"
  by code_simp+

section \<open>The web client\<close>

text \<open>\<^verbatim>\<open>path.Clean\<close> of a rooted path, as its elements.\<close>

definition clean_step :: "string list \<Rightarrow> string \<Rightarrow> string list" where
  "clean_step st s = (if s = [] \<or> s = ''.'' then st else if s = ''..'' then tl st else s # st)"

definition Clean :: "string \<Rightarrow> string list" where
  "Clean p = rev (foldl clean_step [] (split_on CHR ''/'' p))"

definition containsDotDot :: "string \<Rightarrow> bool" where
  "containsDotDot p \<longleftrightarrow> ''..'' \<in> set (concat (map (split_on (CHR 0x5C)) (split_on CHR ''/'' p)))"

text \<open>The answer: the 404 of the API, a file below the web directory, the redirects of \<^verbatim>\<open>net/http\<close>, its
  refusal of a path with dots, or the entry page. \<open>fs\<close> is what \<^verbatim>\<open>os.Stat\<close> finds below the web directory: whether it is a
  directory.\<close>

datatype served = ApiNotFound | Asset "string list" | Redirected | BadPath | IndexPage

definition spaFileServer :: "(string list \<Rightarrow> bool option) \<Rightarrow> string \<Rightarrow> served" where
  "spaFileServer fs p =
     (if HasPrefix p ''/api/'' \<or> p = ''/api'' \<or> HasPrefix p ''/ws'' then ApiNotFound
      else if p \<noteq> ''/'' \<and> fs (Clean p) = Some False then
        (if HasSuffix p ''/index.html'' \<or> HasSuffix p ''/'' then Redirected else Asset (Clean p))
      else if containsDotDot p then BadPath
      else if HasSuffix p ''/index.html'' then Redirected
      else IndexPage)"

lemma split_on_free: "w \<in> set (split_on c s) \<Longrightarrow> c \<notin> set w"
  by (induction s arbitrary: w) (auto split: if_splits list.splits)

lemma clean_step_set: "w \<in> set (clean_step st x) \<Longrightarrow> w \<in> set st \<or> w = x \<and> w \<noteq> [] \<and> w \<noteq> ''.'' \<and> w \<noteq> ''..''"
  by (cases st) (auto simp: clean_step_def split: if_splits)

lemma clean_steps:
  assumes "w \<in> set (foldl clean_step st ws)"
  shows "w \<in> set st \<or> w \<in> set ws \<and> w \<noteq> [] \<and> w \<noteq> ''.'' \<and> w \<noteq> ''..''"
  using assms
proof (induction ws arbitrary: st)
  case (Cons x xs)
  then show ?case using clean_step_set [of w st x] by fastforce
qed simp

theorem asset_below_root:
  assumes "spaFileServer fs p = Asset rel" "s \<in> set rel"
  shows "s \<noteq> [] \<and> s \<noteq> ''.'' \<and> s \<noteq> ''..'' \<and> CHR ''/'' \<notin> set s \<and> fs rel = Some False"
proof -
  from assms have r: "rel = Clean p" "fs rel = Some False" by (auto simp: spaFileServer_def split: if_splits)
  with assms(2) clean_steps [of s "[]" "split_on CHR ''/'' p"] split_on_free [of s "CHR ''/''" p]
  show ?thesis by (auto simp: Clean_def)
qed

text \<open>Cleaning is idempotent: a cleaned path is its own.\<close>

definition join_path :: "string list \<Rightarrow> string" where
  "join_path ws = concat (map (\<lambda>w. CHR ''/'' # w) ws)"

lemma split_on_word: "c \<notin> set w \<Longrightarrow> split_on c (w @ c # s) = w # split_on c s"
  by (induction w) auto

lemma split_on_last: "c \<notin> set w \<Longrightarrow> split_on c w = [w]"
  by (induction w) auto

lemma split_join: "\<forall>w\<in>set ws. CHR ''/'' \<notin> set w \<Longrightarrow> split_on CHR ''/'' (join_path ws) = [] # ws"
proof (induction ws)
  case (Cons w ws)
  have "split_on CHR ''/'' (w @ join_path ws) = w # ws"
  proof (cases ws)
    case Nil
    then show ?thesis using Cons.prems by (simp add: join_path_def split_on_last)
  next
    case (Cons v vs)
    have "split_on CHR ''/'' (w @ CHR ''/'' # v @ join_path vs) = w # split_on CHR ''/'' (v @ join_path vs)"
      using Cons.prems by (simp add: split_on_word)
    with Cons.IH Cons.prems Cons show ?thesis by (simp add: join_path_def)
  qed
  then show ?case by (simp add: join_path_def)
qed (simp add: join_path_def)

lemma foldl_clean_id: "\<forall>w\<in>set ws. w \<noteq> [] \<and> w \<noteq> ''.'' \<and> w \<noteq> ''..'' \<Longrightarrow> foldl clean_step st ws = rev ws @ st"
  by (induction ws arbitrary: st) (auto simp: clean_step_def)

theorem Clean_idem: "Clean (join_path (Clean p)) = Clean p"
proof -
  have "w \<noteq> [] \<and> w \<noteq> ''.'' \<and> w \<noteq> ''..'' \<and> CHR ''/'' \<notin> set w" if "w \<in> set (Clean p)" for w
    using that clean_steps [of w "[]" "split_on CHR ''/'' p"] split_on_free [of w "CHR ''/''" p] by (auto simp: Clean_def)
  then have "split_on CHR ''/'' (join_path (Clean p)) = [] # Clean p" "foldl clean_step [] (Clean p) = rev (Clean p)"
    by (simp_all add: split_join foldl_clean_id)
  then show ?thesis by (simp add: Clean_def [of "join_path (Clean p)"] clean_step_def)
qed

section \<open>Supervised workers\<close>

datatype run_end = Returned | Panicked

text \<open>One entry per run of the worker: how it ended, whether the context was still live then, and still after the
  backoff. The result: runs, recovered panics, and whether the supervisor is done.\<close>

fun goSupervised :: "(run_end \<times> bool \<times> bool) list \<Rightarrow> nat \<times> nat \<times> bool" where
  "goSupervised [] = (0, 0, False)"
| "goSupervised ((r, live, live') # rs) =
     (if live \<and> live'
      then (case goSupervised rs of (n, k, stopped) \<Rightarrow> (n + 1, k + of_bool (r = Panicked), stopped))
      else (1, of_bool (r = Panicked), True))"

theorem worker_survives:
  "\<forall>(r, live, live')\<in>set rs. live \<and> live' \<Longrightarrow>
    goSupervised rs = (length rs, length (filter (\<lambda>(r, l). r = Panicked) rs), False)"
  by (induction rs rule: goSupervised.induct) auto

theorem worker_stops:
  "(r, live, live') \<in> set rs \<Longrightarrow> \<not> (live \<and> live') \<Longrightarrow> snd (snd (goSupervised rs))"
  by (induction rs rule: goSupervised.induct) (auto split: prod.splits)

section \<open>The reset of the metrics\<close>

datatype reset_answer = ResetDisabled | ResetForbidden | ResetRefused int | ResetDone

definition handleMetricsReset ::
  "(string \<Rightarrow> string) \<Rightarrow> Config \<Rightarrow> string \<Rightarrow> Registry option \<Rightarrow> reset_answer \<times> Registry option" where
  "handleMetricsReset sha256 c token m =
     (if cf_MetricsResetToken c = [] then (ResetDisabled, m)
      else if sha256 token \<noteq> sha256 (cf_MetricsResetToken c) then (ResetForbidden, m)
      else (case m of
              None \<Rightarrow> (ResetDone, None)
            | Some r \<Rightarrow> (if ActiveConns r \<noteq> 0 then (ResetRefused (ActiveConns r), m)
                         else (ResetDone, Some (Registry_Reset r)))))"

theorem reset_guarded:
  assumes "handleMetricsReset sha256 c token (Some r) = (a, m)" "m \<noteq> Some r"
    and "sha256 token = sha256 (cf_MetricsResetToken c) \<Longrightarrow> token = cf_MetricsResetToken c"
  shows "token = cf_MetricsResetToken c \<and> token \<noteq> [] \<and> ActiveConns r = 0 \<and> m = Some (Registry_Reset r) \<and> a = ResetDone"
  using assms by (auto simp: handleMetricsReset_def split: if_splits)

end
