(* ===== verification/Bootstrap.thy ===== *)
theory Bootstrap
  imports Bids
begin

text \<open>
  How a store comes to be (\<^verbatim>\<open>internal/store/store.go\<close>: the constructors, \<^verbatim>\<open>migrate\<close>,
  \<^verbatim>\<open>pingWithRetry\<close>, \<^verbatim>\<open>loadScripts\<close>, and the embedded texts of \<^verbatim>\<open>internal/lua/lua.go\<close>): waiting
  for both servers, loading the scripts, bringing an old schema up to date. The digest Redis makes of a script is
  an argument. Then: a migration can be interrupted anywhere and run again, each digest runs its own script, and
  neither survives what the code does not expect, a second gateway that migrates at the same time or a Redis that lost its
  scripts.
\<close>

section \<open>Waiting\<close>

text \<open>One entry per attempt: whether the server answered, and whether the context lived through the pause.\<close>

datatype ping_result = Ready | Cancelled | NotReady

fun ping_loop :: "nat \<Rightarrow> (bool \<times> bool) list \<Rightarrow> ping_result" where
  "ping_loop 0 xs = NotReady"
| "ping_loop (Suc n) [] = NotReady"
| "ping_loop (Suc n) ((up, live) # xs) =
     (if up then Ready else if \<not> live then Cancelled else ping_loop n xs)"

definition pingWithRetry :: "(bool \<times> bool) list \<Rightarrow> ping_result" where
  "pingWithRetry xs = ping_loop 30 xs"

lemma ping_loop_Ready: "ping_loop n xs = Ready \<Longrightarrow> \<exists>i<n. i < length xs \<and> fst (xs ! i)"
proof (induction n xs rule: ping_loop.induct)
  case (3 n up live xs)
  show ?case
  proof (cases up)
    case False
    with 3 obtain i where "i < n" "i < length xs" "fst (xs ! i)" by (auto split: if_splits)
    then show ?thesis by (intro exI [of _ "Suc i"]) simp
  qed auto
qed simp_all

lemma ping_loop_waits:
  "i < n \<Longrightarrow> i < length xs \<Longrightarrow> fst (xs ! i) \<Longrightarrow> \<forall>j<i. snd (xs ! j) \<Longrightarrow> ping_loop n xs = Ready"
proof (induction n xs arbitrary: i rule: ping_loop.induct)
  case (3 n up live xs)
  show ?case
  proof (cases i)
    case (Suc k)
    have "\<forall>j<k. snd (xs ! j)" using 3(5) Suc by auto
    moreover have live using 3(5) Suc by auto
    ultimately show ?thesis using 3(1) [of k] 3(2-4) Suc by simp
  qed (use 3 in simp)
qed simp_all

text \<open>A server that comes up within 30 attempts is waited for.\<close>

theorem ping_30:
  "pingWithRetry xs = Ready \<Longrightarrow> \<exists>i<30. i < length xs \<and> fst (xs ! i)"
  "i < 30 \<Longrightarrow> i < length xs \<Longrightarrow> fst (xs ! i) \<Longrightarrow> \<forall>j<i. snd (xs ! j) \<Longrightarrow> pingWithRetry xs = Ready"
  unfolding pingWithRetry_def by (rule ping_loop_Ready, assumption) (rule ping_loop_waits)

section \<open>The schema\<close>

record schema =
  sc_tables :: "string list"
  sc_columns :: "(string \<times> string) list"
  sc_indexes :: "(string \<times> string) list"

text \<open>The steps in the order of \<^verbatim>\<open>migrate\<close>; an index with its columns, a table with all of its own.\<close>

datatype migration =
  EnsureColumn string string
| EnsureIndex string string "string list"
| EnsureTable string "string list"

definition migrations :: "migration list" where
  "migrations =
     [EnsureColumn ''auction_rules'' ''max_extensions'',
      EnsureColumn ''auction_rules'' ''mode'',
      EnsureColumn ''auctions'' ''parent_auction_id'',
      EnsureIndex ''auctions'' ''idx_auctions_parent'' [''parent_auction_id''],
      EnsureTable ''coin_ledger'' [''id'', ''auction_id'', ''user_id'', ''delta_coins'', ''reason'', ''seq'', ''created_at''],
      EnsureColumn ''auction_events'' ''updated_at'',
      EnsureColumn ''auction_events'' ''hmac_key_version'',
      EnsureIndex ''auction_events'' ''idx_events_auction_updated'' [''auction_id'', ''updated_at''],
      EnsureTable ''evidence_chain_cache''
        [''auction_id'', ''verified_seq'', ''events_count'', ''chain_head'', ''max_event_updated_at'', ''verified_at''],
      EnsureColumn ''auction_rules'' ''live_play_url'',
      EnsureColumn ''auction_rules'' ''live_stream_key'']"

text \<open>What is asked of the catalogue, and the statement that follows. The server refuses a column or an index that is
  there, and what has no table or column to stand on.\<close>

fun present :: "migration \<Rightarrow> schema \<Rightarrow> bool" where
  "present (EnsureColumn t c) s = ((t, c) \<in> set (sc_columns s))"
| "present (EnsureIndex t i cs) s = ((t, i) \<in> set (sc_indexes s))"
| "present (EnsureTable t cs) s = (t \<in> set (sc_tables s))"

fun apply_ddl :: "migration \<Rightarrow> schema \<Rightarrow> schema option" where
  "apply_ddl (EnsureColumn t c) s =
     (if t \<notin> set (sc_tables s) \<or> (t, c) \<in> set (sc_columns s) then None
      else Some (s\<lparr>sc_columns := (t, c) # sc_columns s\<rparr>))"
| "apply_ddl (EnsureIndex t i cs) s =
     (if (t, i) \<in> set (sc_indexes s) \<or> \<not> list_all (\<lambda>c. (t, c) \<in> set (sc_columns s)) cs then None
      else Some (s\<lparr>sc_indexes := (t, i) # sc_indexes s\<rparr>))"
| "apply_ddl (EnsureTable t cs) s =
     Some (if t \<in> set (sc_tables s) then s
           else s\<lparr>sc_tables := t # sc_tables s, sc_columns := map (Pair t) cs @ sc_columns s\<rparr>)"

text \<open>\<^verbatim>\<open>ensureColumn\<close>, \<^verbatim>\<open>ensureIndex\<close> and \<^verbatim>\<open>CREATE TABLE IF NOT EXISTS\<close>; \<open>up\<close> says which of the numbered
  statements the server answers. \<open>None\<close> is an error of the step.\<close>

fun ensure :: "(nat \<Rightarrow> bool) \<Rightarrow> nat \<Rightarrow> migration \<Rightarrow> schema \<Rightarrow> bool \<times> schema" where
  "ensure up n (EnsureTable t cs) s =
     (if \<not> up n then (False, s) else (True, the (apply_ddl (EnsureTable t cs) s)))"
| "ensure up n m s =
     (if \<not> up n then (False, s)
      else if present m s then (True, s)
      else if \<not> up (n + 1) then (False, s)
      else (case apply_ddl m s of None \<Rightarrow> (False, s) | Some s' \<Rightarrow> (True, s')))"

fun migrate_from :: "(nat \<Rightarrow> bool) \<Rightarrow> nat \<Rightarrow> migration list \<Rightarrow> schema \<Rightarrow> bool \<times> schema" where
  "migrate_from up n [] s = (True, s)"
| "migrate_from up n (m # ms) s =
     (let (ok, s') = ensure up n m s in if ok then migrate_from up (n + 2) ms s' else (False, s'))"

definition migrate :: "(nat \<Rightarrow> bool) \<Rightarrow> schema \<Rightarrow> bool \<times> schema" where
  "migrate up s = migrate_from up 0 migrations s"

text \<open>What is up to date, and a schema the steps can start from: the tables of the first release.\<close>

definition current :: "schema \<Rightarrow> bool" where
  "current s \<longleftrightarrow> list_all (\<lambda>m. present m s) migrations"

definition first_release :: "schema \<Rightarrow> bool" where
  "first_release s \<longleftrightarrow> {''auctions'', ''auction_rules'', ''auction_events''} \<subseteq> set (sc_tables s)
     \<and> (''auction_events'', ''auction_id'') \<in> set (sc_columns s)"

definition grows :: "schema \<Rightarrow> schema \<Rightarrow> bool" where
  "grows s s' \<longleftrightarrow> set (sc_tables s) \<subseteq> set (sc_tables s') \<and> set (sc_columns s) \<subseteq> set (sc_columns s')
     \<and> set (sc_indexes s) \<subseteq> set (sc_indexes s')"

lemma grows_refl: "grows s s" by (simp add: grows_def)
lemma grows_trans: "grows a b \<Longrightarrow> grows b c \<Longrightarrow> grows a c" by (auto simp: grows_def)

lemma present_grows: "present m s \<Longrightarrow> grows s s' \<Longrightarrow> present m s'"
  by (cases m) (auto simp: grows_def)

lemma ddl_grows: "apply_ddl m s = Some s' \<Longrightarrow> grows s s' \<and> present m s'"
  by (cases m) (auto simp: grows_def split: if_splits)

lemma ensure_eq:
  "ensure up n m s =
    (if \<not> up n then (False, s)
     else if present m s then (True, s)
     else case m of
       EnsureTable t cs \<Rightarrow> (True, the (apply_ddl m s))
     | _ \<Rightarrow> if \<not> up (n + 1) then (False, s)
            else (case apply_ddl m s of None \<Rightarrow> (False, s) | Some s' \<Rightarrow> (True, s')))"
  by (cases m) simp_all

lemma ensure_grows: "ensure up n m s = (ok, s') \<Longrightarrow> grows s s' \<and> (ok \<longrightarrow> present m s')"
proof (cases m)
  case (EnsureColumn t c)
  assume "ensure up n m s = (ok, s')"
  then show ?thesis using EnsureColumn by (auto simp: grows_def split: if_splits)
next
  case (EnsureIndex t i cs)
  assume "ensure up n m s = (ok, s')"
  then show ?thesis using EnsureIndex by (auto simp: grows_def split: if_splits)
next
  case (EnsureTable t cs)
  assume "ensure up n m s = (ok, s')"
  then show ?thesis using EnsureTable by (auto simp: grows_def split: if_splits)
qed

lemma ensure_present: "present m s \<Longrightarrow> ensure up n m s = (up n, s)"
  by (simp add: ensure_eq)

lemma migrate_from_grows: "migrate_from up n ms s = (ok, s') \<Longrightarrow> grows s s' \<and> (ok \<longrightarrow> list_all (\<lambda>m. present m s') ms)"
proof (induction ms arbitrary: n s)
  case (Cons m ms)
  obtain ok1 s1 where e: "ensure up n m s = (ok1, s1)" by fastforce
  note g = ensure_grows [OF e]
  show ?case
  proof (cases ok1)
    case True
    then have r: "grows s1 s' \<and> (ok \<longrightarrow> list_all (\<lambda>m. present m s') ms)" using Cons.IH [of "n + 2" s1] Cons.prems e by simp
    then have "present m s'" using g True present_grows by blast
    with r g show ?thesis using grows_trans [of s s1 s'] by simp
  qed (use Cons.prems e g in auto)
qed (simp add: grows_refl)

text \<open>Interrupted anywhere, a migration only adds; run on an up-to-date schema it changes nothing.\<close>

theorem migrate_grows: "migrate up s = (ok, s') \<Longrightarrow> grows s s' \<and> (ok \<longrightarrow> current s')"
  using migrate_from_grows by (simp add: migrate_def current_def)

theorem migrate_idem: "current s \<Longrightarrow> snd (migrate up s) = s"
proof -
  have "list_all (\<lambda>m. present m s) ms \<Longrightarrow> snd (migrate_from up n ms s) = s" for ms n
    by (induction ms arbitrary: n) (auto simp: ensure_present)
  then show "current s \<Longrightarrow> snd (migrate up s) = s" by (simp add: current_def migrate_def)
qed

text \<open>The order of the steps is right: each finds what it stands on, from any state an earlier release or an
  interrupted migration can have left.\<close>

fun ready :: "migration \<Rightarrow> schema \<Rightarrow> bool" where
  "ready (EnsureColumn t c) s = (t \<in> set (sc_tables s))"
| "ready (EnsureIndex t i cs) s = list_all (\<lambda>c. (t, c) \<in> set (sc_columns s)) cs"
| "ready (EnsureTable t cs) s = True"

lemma ensure_ready: "ready m s \<Longrightarrow> \<exists>s'. ensure (\<lambda>i. True) n m s = (True, s')"
  by (cases m) auto

lemma ready_grows: "ready m s \<Longrightarrow> grows s s' \<Longrightarrow> ready m s'"
  by (cases m) (auto simp: grows_def list_all_iff)

text \<open>Each step is ready on its own, or stands on a column that an earlier step adds.\<close>

fun ready_after :: "migration list \<Rightarrow> migration \<Rightarrow> schema \<Rightarrow> bool" where
  "ready_after done (EnsureIndex t i cs) s =
     list_all (\<lambda>c. (t, c) \<in> set (sc_columns s) \<or> EnsureColumn t c \<in> set done) cs"
| "ready_after done m s = ready m s"

lemma ready_after_ready:
  "ready_after done m s \<Longrightarrow> list_all (\<lambda>x. present x s) done \<Longrightarrow> ready m s"
  by (cases m) (auto simp: list_all_iff, fastforce)

lemma ready_after_grows: "ready_after done m s \<Longrightarrow> grows s s' \<Longrightarrow> ready_after done m s'"
  by (cases m) (auto simp: grows_def list_all_iff)

lemma migrate_from_completes:
  assumes "\<forall>i<length ms. ready_after (done @ take i ms) (ms ! i) s" "list_all (\<lambda>x. present x s) done"
  shows "\<exists>s'. migrate_from (\<lambda>i. True) n ms s = (True, s')"
  using assms
proof (induction ms arbitrary: n s "done")
  case (Cons m ms)
  have "ready m s" using Cons.prems(1) [rule_format, of 0] Cons.prems(2) by (auto intro: ready_after_ready)
  then obtain s1 where e: "ensure (\<lambda>i. True) n m s = (True, s1)" using ensure_ready by blast
  have g: "grows s s1" "present m s1" using ensure_grows [OF e] by simp_all
  have "\<forall>i<length ms. ready_after ((done @ [m]) @ take i ms) (ms ! i) s1"
  proof (intro allI impI)
    fix i assume "i < length ms"
    then have "ready_after (done @ take (Suc i) (m # ms)) ((m # ms) ! Suc i) s" using Cons.prems(1) [rule_format, of "Suc i"] by simp
    then show "ready_after ((done @ [m]) @ take i ms) (ms ! i) s1" using ready_after_grows [OF _ g(1)] by simp
  qed
  moreover have "list_all (\<lambda>x. present x s1) (done @ [m])"
    using Cons.prems(2) g by (auto simp: list_all_iff intro: present_grows)
  ultimately show ?case using Cons.IH [of "done @ [m]" s1 "n + 2"] e by auto
qed simp

theorem migrate_completes:
  assumes "first_release s"
  shows "\<exists>s'. migrate (\<lambda>i. True) s = (True, s')"
proof -
  have "\<forall>i<length migrations. ready_after (take i migrations) (migrations ! i) s"
  proof -
    have "\<forall>i\<in>set [0..<11]. ready_after (take i migrations) (migrations ! i) s"
      using assms by (simp add: upt_rec migrations_def first_release_def)
    moreover have "length migrations = 11" by (simp add: migrations_def)
    ultimately show ?thesis by simp
  qed
  then show ?thesis using migrate_from_completes [of migrations "[]" s] by (simp add: migrate_def)
qed

text \<open>An interrupted migration, run again, completes.\<close>

theorem migrate_resumes:
  assumes "first_release s" "migrate up s = (ok, s1)"
  shows "\<exists>s2. migrate (\<lambda>i. True) s1 = (True, s2) \<and> current s2"
proof -
  have "grows s s1" using migrate_grows [OF assms(2)] by blast
  with assms(1) have "first_release s1" by (auto simp: first_release_def grows_def)
  then obtain s2 where m: "migrate (\<lambda>i. True) s1 = (True, s2)" using migrate_completes by blast
  with migrate_grows [OF m] show ?thesis by blast
qed

text \<open>Two gateways that start together: both find the column missing, and the statement of the slower fails.\<close>

theorem migrate_race:
  assumes "\<not> present m s" "apply_ddl m s = Some s'" "\<forall>t cs. m \<noteq> EnsureTable t cs"
  shows "apply_ddl m s' = None"
  using assms by (cases m) (auto split: if_splits)

section \<open>Scripts\<close>

datatype lua_script = PlaceBidLua | PlaceBidSealedLua | PlaceBidHybridLua | CloseSealedLua | CloseAllPayLua
  | FreezeRulesLua | StartAuctionLua | CloseAuctionLua | CancelAuctionLua

record shas =
  shaPlaceBid :: string
  shaPlaceBidSealed :: string
  shaPlaceBidHybrid :: string
  shaFreeze :: string
  shaStart :: string
  shaClose :: string
  shaCloseSealed :: string
  shaCloseAllPay :: string
  shaCancel :: string

definition no_shas :: shas where
  "no_shas = \<lparr>shaPlaceBid = [], shaPlaceBidSealed = [], shaPlaceBidHybrid = [], shaFreeze = [], shaStart = [],
     shaClose = [], shaCloseSealed = [], shaCloseAllPay = [], shaCancel = []\<rparr>"

definition load_order :: "(lua_script \<times> (string \<Rightarrow> shas \<Rightarrow> shas)) list" where
  "load_order =
     [(PlaceBidLua, \<lambda>h s. s\<lparr>shaPlaceBid := h\<rparr>), (PlaceBidSealedLua, \<lambda>h s. s\<lparr>shaPlaceBidSealed := h\<rparr>),
      (PlaceBidHybridLua, \<lambda>h s. s\<lparr>shaPlaceBidHybrid := h\<rparr>), (CloseSealedLua, \<lambda>h s. s\<lparr>shaCloseSealed := h\<rparr>),
      (CloseAllPayLua, \<lambda>h s. s\<lparr>shaCloseAllPay := h\<rparr>), (FreezeRulesLua, \<lambda>h s. s\<lparr>shaFreeze := h\<rparr>),
      (StartAuctionLua, \<lambda>h s. s\<lparr>shaStart := h\<rparr>), (CloseAuctionLua, \<lambda>h s. s\<lparr>shaClose := h\<rparr>),
      (CancelAuctionLua, \<lambda>h s. s\<lparr>shaCancel := h\<rparr>)]"

text \<open>\<^verbatim>\<open>SCRIPT LOAD\<close> keeps the script under its digest. The flag says that every load was answered.\<close>

type_synonym script_cache = "string \<Rightarrow> lua_script option"

fun load_all ::
  "(lua_script \<Rightarrow> string) \<Rightarrow> (nat \<Rightarrow> bool) \<Rightarrow> nat \<Rightarrow> (lua_script \<times> (string \<Rightarrow> shas \<Rightarrow> shas)) list
   \<Rightarrow> shas \<times> script_cache \<Rightarrow> bool \<times> shas \<times> script_cache" where
  "load_all sha up n [] s = (True, s)"
| "load_all sha up n ((x, put) # xs) (s, cache) =
     (if \<not> up n then (False, s, cache)
      else load_all sha up (n + 1) xs (put (sha x) s, cache(sha x \<mapsto> x)))"

definition loadScripts ::
  "(lua_script \<Rightarrow> string) \<Rightarrow> (nat \<Rightarrow> bool) \<Rightarrow> script_cache \<Rightarrow> bool \<times> shas \<times> script_cache" where
  "loadScripts sha up cache = load_all sha up 0 load_order (no_shas, cache)"

text \<open>\<^verbatim>\<open>EvalSha\<close>: the script that runs, or the error text.\<close>

definition noscript :: string where "noscript = ''NOSCRIPT No matching script. Please use EVAL.''"

definition EvalSha :: "script_cache \<Rightarrow> string \<Rightarrow> string + lua_script" where
  "EvalSha cache h = (case cache h of None \<Rightarrow> Inl noscript | Some x \<Rightarrow> Inr x)"

theorem scripts_right:
  assumes "inj sha" "loadScripts sha up cache = (True, s, cache')"
  shows "EvalSha cache' (shaPlaceBid s) = Inr PlaceBidLua \<and> EvalSha cache' (shaPlaceBidSealed s) = Inr PlaceBidSealedLua
    \<and> EvalSha cache' (shaPlaceBidHybrid s) = Inr PlaceBidHybridLua \<and> EvalSha cache' (shaFreeze s) = Inr FreezeRulesLua
    \<and> EvalSha cache' (shaStart s) = Inr StartAuctionLua \<and> EvalSha cache' (shaClose s) = Inr CloseAuctionLua
    \<and> EvalSha cache' (shaCloseSealed s) = Inr CloseSealedLua \<and> EvalSha cache' (shaCloseAllPay s) = Inr CloseAllPayLua
    \<and> EvalSha cache' (shaCancel s) = Inr CancelAuctionLua"
  using assms(2)
  by (auto simp: loadScripts_def load_order_def no_shas_def EvalSha_def inj_eq [OF assms(1)] split: if_splits)

text \<open>A Redis that restarts has no scripts: the digests of the gateway run nothing, and every bid is answered with an
  internal error until the gateway is started again.\<close>

theorem flushed_scripts_fail:
  "EvalSha Map.empty h = Inl noscript \<and> bidErrCode noscript = ERR_INTERNAL"
proof -
  have "ContainsStr (ToUpper noscript) ''NOSCRIPT''" by code_simp
  then show ?thesis by (simp add: EvalSha_def bidErrCode_def)
qed

section \<open>The constructor\<close>

datatype store_error = NilKeySource | KeySourceError | RedisNotReady ping_result | MysqlOpen | MysqlNotReady ping_result
  | ScriptsNotLoaded | MigrateFailed

record store_env =
  sv_keys :: "(int \<times> string) option option" \<comment> \<open>no source, a source that fails, a version and a key\<close>
  sv_redis :: "(bool \<times> bool) list"
  sv_opens :: bool
  sv_mysql :: "(bool \<times> bool) list"
  sv_loads :: "nat \<Rightarrow> bool"
  sv_sql :: "nat \<Rightarrow> bool"

record booted =
  bt_shas :: shas
  bt_keyVersion :: int
  bt_key :: string

definition NewStore ::
  "(lua_script \<Rightarrow> string) \<Rightarrow> store_env \<Rightarrow> script_cache \<times> schema \<Rightarrow> (store_error + booted) \<times> script_cache \<times> schema" where
  "NewStore sha v w =
     (let (cache, sch) = w in
      case sv_keys v of
        None \<Rightarrow> (Inl NilKeySource, w)
      | Some None \<Rightarrow> (Inl KeySourceError, w)
      | Some (Some (ver, key)) \<Rightarrow>
          (if pingWithRetry (sv_redis v) \<noteq> Ready then (Inl (RedisNotReady (pingWithRetry (sv_redis v))), w)
           else if \<not> sv_opens v then (Inl MysqlOpen, w)
           else if pingWithRetry (sv_mysql v) \<noteq> Ready then (Inl (MysqlNotReady (pingWithRetry (sv_mysql v))), w)
           else (let (loaded, s, cache') = loadScripts sha (sv_loads v) cache in
             if \<not> loaded then (Inl ScriptsNotLoaded, cache', sch)
             else (let (ok, sch') = migrate (sv_sql v) sch in
               if \<not> ok then (Inl MigrateFailed, cache', sch')
               else (Inr \<lparr>bt_shas = s, bt_keyVersion = ver, bt_key = key\<rparr>, cache', sch')))))"

text \<open>A store that comes up has its scripts, its key and a current schema; one that does not has removed nothing.\<close>

theorem store_boots:
  assumes "NewStore sha v (cache, sch) = (r, cache', sch')" "inj sha"
  shows "case r of
      Inr b \<Rightarrow> current sch' \<and> sv_keys v = Some (Some (bt_keyVersion b, bt_key b))
        \<and> EvalSha cache' (shaPlaceBid (bt_shas b)) = Inr PlaceBidLua \<and> EvalSha cache' (shaClose (bt_shas b)) = Inr CloseAuctionLua
    | Inl x \<Rightarrow> grows sch sch'"
proof -
  obtain loaded s c1 where l: "loadScripts sha (sv_loads v) cache = (loaded, s, c1)" by (metis prod_cases3)
  obtain ok s1 where m: "migrate (sv_sql v) sch = (ok, s1)" by fastforce
  note g = migrate_grows [OF m]
  have sc: "loaded \<Longrightarrow> EvalSha c1 (shaPlaceBid s) = Inr PlaceBidLua \<and> EvalSha c1 (shaClose s) = Inr CloseAuctionLua"
    using scripts_right [OF assms(2), of "sv_loads v" cache s c1] l by simp
  show ?thesis
  proof (cases r)
    case (Inr b)
    with assms(1) g sc show ?thesis
      by (auto simp: NewStore_def Let_def l m split: option.splits prod.splits if_splits)
  next
    case (Inl x)
    with assms(1) g show ?thesis
      by (auto simp: NewStore_def Let_def l m grows_refl split: option.splits prod.splits if_splits)
  qed
qed

end
