(* ===== verification/Proxy.thy ===== *)
theory Proxy
  imports Api Ssrf
begin

text \<open>
  The two requests the backend hands to the AI sidecar: \<^verbatim>\<open>handleFactsDraft\<close> with
  \<^verbatim>\<open>rewriteRelativeImageURLs\<close> (\<^verbatim>\<open>server/api.go\<close>) and \<^verbatim>\<open>handleListingDraft\<close>
  (\<^verbatim>\<open>server/listing_api.go\<close>). The sidecar's answer is an argument. Then: after the rewriting no
  image is named by a path alone, rewriting again changes nothing, and what the rewriting makes of an upload is
  exactly what the sidecar's guard refuses when the site is reached over a local address.
\<close>

section \<open>Image addresses\<close>

text \<open>An element of a decoded array, and a decoded body: its \<^verbatim>\<open>imageUrls\<close> when they are an array, and the rest.\<close>

datatype any_value = AnyString string | AnyOther string

record draft_body =
  db_imageUrls :: "any_value list option"
  db_rest :: string

definition relative_url :: "string \<Rightarrow> bool" where
  "relative_url s \<longleftrightarrow> HasPrefix s ''/'' \<and> \<not> HasPrefix s ''//''"

definition EqualFold :: "string \<Rightarrow> string \<Rightarrow> bool" where
  "EqualFold s t \<longleftrightarrow> ToLower s = ToLower t"

record inbound_request =
  ir_TLS :: bool
  ir_ForwardedProto :: string
  ir_Host :: string

definition request_scheme :: "inbound_request \<Rightarrow> string" where
  "request_scheme r = (if ir_TLS r \<or> EqualFold (ir_ForwardedProto r) ''https'' then ''https'' else ''http'')"

definition absolute_url :: "inbound_request \<Rightarrow> string \<Rightarrow> string" where
  "absolute_url r s = request_scheme r @ ''://'' @ ir_Host r @ s"

fun rewrite_value :: "inbound_request \<Rightarrow> any_value \<Rightarrow> any_value" where
  "rewrite_value r (AnyString s) = AnyString (if relative_url s then absolute_url r s else s)"
| "rewrite_value r (AnyOther x) = AnyOther x"

text \<open>\<^term>\<open>None\<close> is a body that is no object: it is passed on as it came.\<close>

definition rewriteRelativeImageURLs :: "inbound_request \<Rightarrow> draft_body option \<Rightarrow> draft_body option" where
  "rewriteRelativeImageURLs r body =
     (case body of
        None \<Rightarrow> None
      | Some m \<Rightarrow>
          (case db_imageUrls m of
             None \<Rightarrow> Some m
           | Some urls \<Rightarrow> Some (m\<lparr>db_imageUrls := Some (map (rewrite_value r) urls)\<rparr>)))"

section \<open>The requests\<close>

datatype 'b proxied = PUnauthorized | PBadGateway | PAnswer int "'b list"

definition forward :: "nat \<Rightarrow> (int \<times> 'b list) option \<Rightarrow> 'b proxied" where
  "forward limit answer = (case answer of None \<Rightarrow> PBadGateway | Some (status, body) \<Rightarrow> PAnswer status (take limit body))"

definition proxy_limit :: nat where "proxy_limit = 2 ^ 20"

text \<open>\<open>sidecar\<close> answers the forwarded body, or does not.\<close>

definition handleFactsDraft ::
  "uid option \<Rightarrow> inbound_request \<Rightarrow> draft_body option \<Rightarrow> (draft_body option \<Rightarrow> (int \<times> 'b list) option) \<Rightarrow> 'b proxied" where
  "handleFactsDraft user r body sidecar =
     (case user of None \<Rightarrow> PUnauthorized
      | Some u \<Rightarrow> forward proxy_limit (sidecar (rewriteRelativeImageURLs r body)))"

definition handleListingDraft ::
  "uid option \<Rightarrow> 'a list \<Rightarrow> ('a list \<Rightarrow> (int \<times> 'b list) option) \<Rightarrow> 'b proxied" where
  "handleListingDraft user body sidecar =
     (case user of None \<Rightarrow> PUnauthorized | Some u \<Rightarrow> forward proxy_limit (sidecar (take (64 * 2 ^ 10) body)))"

section \<open>What the sidecar is given\<close>

lemma absolute_not_relative: "\<not> relative_url (absolute_url r s)"
  by (simp add: relative_url_def absolute_url_def request_scheme_def HasPrefix_def)

definition no_relative :: "draft_body \<Rightarrow> bool" where
  "no_relative m \<longleftrightarrow> (case db_imageUrls m of None \<Rightarrow> True
     | Some us \<Rightarrow> list_all (\<lambda>u. case u of AnyString s \<Rightarrow> \<not> relative_url s | AnyOther x \<Rightarrow> True) us)"

lemma rewrite_value_abs: "case rewrite_value r u of AnyString s \<Rightarrow> \<not> relative_url s | AnyOther x \<Rightarrow> True"
  by (cases u) (simp_all add: absolute_not_relative)

lemma rewrite_value_idem: "rewrite_value r' (rewrite_value r u) = rewrite_value r u"
  by (cases u) (simp_all add: absolute_not_relative)

theorem rewritten:
  assumes "rewriteRelativeImageURLs r (Some m) = Some m'"
  shows "no_relative m' \<and> db_rest m' = db_rest m \<and> (no_relative m \<longrightarrow> m' = m)
    \<and> rewriteRelativeImageURLs r' (Some m') = Some m'"
proof (cases "db_imageUrls m")
  case None
  with assms show ?thesis by (auto simp: rewriteRelativeImageURLs_def no_relative_def)
next
  case (Some us)
  have id: "map (rewrite_value r) us = us" if "no_relative m"
  proof (rule map_idI)
    fix u assume "u \<in> set us"
    then have "case u of AnyString s \<Rightarrow> \<not> relative_url s | AnyOther x \<Rightarrow> True"
      using that Some by (auto simp: no_relative_def list_all_iff simp del: any_value.case)
    then show "rewrite_value r u = u" by (cases u) simp_all
  qed
  from Some assms have "m' = m\<lparr>db_imageUrls := Some (map (rewrite_value r) us)\<rparr>"
    by (simp add: rewriteRelativeImageURLs_def)
  with Some id show ?thesis
    by (auto simp: rewriteRelativeImageURLs_def no_relative_def list_all_iff rewrite_value_idem
        intro: rewrite_value_abs)
qed

section \<open>An upload of the site itself\<close>

text \<open>The address the sidecar's client dials for an absolute address: the host up to the first slash, with the port of the
  scheme when it names none.\<close>

definition url_target :: "string \<Rightarrow> (string \<times> string) option" where
  "url_target u =
     (if HasPrefix u ''http://'' \<or> HasPrefix u ''https://'' then
        (let host = before CHR ''/'' (drop (if HasPrefix u ''https://'' then 8 else 7) u)
         in if Contains host CHR '':'' then Some (before CHR '':'' host, drop (length (before CHR '':'' host) + 1) host)
            else Some (host, if HasPrefix u ''https://'' then ''443'' else ''80''))
      else None)"

lemma target_of_absolute:
  assumes "CHR ''/'' \<notin> set (ir_Host r)" "CHR '':'' \<notin> set name" "ir_Host r = name @ '':'' @ port \<or> ir_Host r = name" "relative_url s"
  shows "\<exists>p. url_target (absolute_url r s) = Some (name, p)"
proof -
  obtain t where s: "s = CHR ''/'' # t" using assms(4) by (cases s) (auto simp: relative_url_def HasPrefix_def split: if_splits)
  have h: "before CHR ''/'' (ir_Host r @ s) = ir_Host r" using assms(1) by (simp add: s before_append)
  have n: "before CHR '':'' (name @ CHR '':'' # port) = name" "before CHR '':'' name = name"
    using assms(2) by (simp_all add: before_append before_id)
  show ?thesis
    using assms(2,3) h n
    by (cases "request_scheme r = ''https''")
      (auto simp: absolute_url_def request_scheme_def url_target_def HasPrefix_def Contains_def Let_def split: if_splits)
qed

text \<open>When the name in the request's host header resolves to a blocked address, as \<^verbatim>\<open>localhost\<close> does, the picture the rewriting
  names can never be fetched.\<close>

theorem local_upload_refused:
  assumes "CHR ''/'' \<notin> set (ir_Host r)" "CHR '':'' \<notin> set name" "ir_Host r = name @ '':'' @ port \<or> ir_Host r = name"
    and "relative_url s" "lookup name = Some ips" "x \<in> set ips" "blocked x"
  shows "\<exists>y. FetchImage blocked lookup peer (Some (url_target (absolute_url r s))) = Inl (ErrBlockedAddress y)"
proof -
  obtain p where t: "url_target (absolute_url r s) = Some (name, p)" using target_of_absolute [OF assms(1-4)] by blast
  obtain y where "find blocked ips = Some y" using assms(6,7) by (metis find_None_iff not_Some_eq)
  with t assms(5) show ?thesis by (simp add: FetchImage_def client_Do_def DialContext_def)
qed

end
