(* ===== verification/Gates.thy ===== *)
theory Gates
  imports Join Engine ModePolicy "HOL-Library.Monad_Syntax"
begin

text \<open>
  The runs that accept the service: \<^verbatim>\<open>server/e2e.go\<close>, \<^verbatim>\<open>demo.go\<close> and \<^verbatim>\<open>demo_modes.go\<close>. A run is a client of
  the stack; what the stack answers is an argument, and an error of any kind is \<^term>\<open>None\<close>. Then: what the waits
  check and what they let through, and that the runs of the modes pass on the scripts as modelled here.
\<close>

section \<open>Reading a connection\<close>

text \<open>What a connection will deliver: frames, or a read that fails. Past the end the deadline strikes.\<close>

datatype recv = Frame Envelope | ReadFails

definition payload_of :: "Envelope \<Rightarrow> json option" where
  "payload_of e = (case en_Data e of DEvent j \<Rightarrow> Some j | _ \<Rightarrow> None)"

definition bid_of :: "Envelope \<Rightarrow> BidAcceptedData option" where
  "bid_of e = (case en_Data e of DBid d \<Rightarrow> Some d | DEvent j \<Rightarrow> decode_bid j | _ \<Rightarrow> None)"

definition check :: "bool \<Rightarrow> unit option" where
  "check b = (if b then Some () else None)"

fun waitForType :: "msg_type \<Rightarrow> recv list \<Rightarrow> recv list option" where
  "waitForType ty (Frame e # fs) = (if en_Type e = ty then Some fs else waitForType ty fs)"
| "waitForType ty fs = None"

fun waitForExtended :: "recv list \<Rightarrow> (AuctionExtendedData \<times> recv list) option" where
  "waitForExtended (Frame e # fs) =
     (if en_Type e = AUCTION_EXTENDED
      then (case payload_of e of None \<Rightarrow> None | Some j \<Rightarrow> map_option (\<lambda>d. (d, fs)) (decode_ext j))
      else waitForExtended fs)"
| "waitForExtended fs = None"

fun waitForSoldNoExtend :: "recv list \<Rightarrow> recv list option" where
  "waitForSoldNoExtend (Frame e # fs) =
     (if en_Type e = AUCTION_EXTENDED then None
      else if en_Type e = AUCTION_SOLD then Some fs else waitForSoldNoExtend fs)"
| "waitForSoldNoExtend fs = None"

fun waitForRevealedAssertSealed :: "recv list \<Rightarrow> (AuctionRevealedData \<times> recv list) option" where
  "waitForRevealedAssertSealed (Frame e # fs) =
     (if en_Type e = AUCTION_REVEALED
      then (case payload_of e of None \<Rightarrow> None | Some j \<Rightarrow> map_option (\<lambda>d. (d, fs)) (decode_reveal j))
      else waitForRevealedAssertSealed fs)"
| "waitForRevealedAssertSealed fs = None"

fun waitForHybridSold :: "recv list \<Rightarrow> (AuctionSoldData \<times> recv list) option" where
  "waitForHybridSold (Frame e # fs) =
     (if en_Type e = AUCTION_SOLD
      then (case payload_of e of None \<Rightarrow> None | Some j \<Rightarrow> map_option (\<lambda>d. (d, fs)) (decode_sold j))
      else waitForHybridSold fs)"
| "waitForHybridSold fs = None"

definition hybrid_bid_ok :: "uid \<Rightarrow> uid \<Rightarrow> int \<Rightarrow> BidAcceptedData \<Rightarrow> bool" where
  "hybrid_bid_ok alice bob ordinal d \<longleftrightarrow>
     bid_amountCents d \<noteq> ''12000'' \<and> bid_userId d \<noteq> bob
     \<and> (if ordinal = 1 then bid_amountCents d = ''10000'' \<and> bid_userId d = []
        else ordinal = 2 \<and> bid_amountCents d = ''11000'' \<and> bid_userId d = alice)"

fun observeHybridAccepted :: "uid \<Rightarrow> uid \<Rightarrow> int \<Rightarrow> recv list \<Rightarrow> recv list option" where
  "observeHybridAccepted alice bob ordinal (Frame e # fs) =
     (if en_Type e = BID_ACCEPTED
      then (case bid_of e of None \<Rightarrow> None
            | Some d \<Rightarrow> if hybrid_bid_ok alice bob ordinal d then Some fs else None)
      else if en_Type e = AUCTION_SOLD then None
      else observeHybridAccepted alice bob ordinal fs)"
| "observeHybridAccepted alice bob ordinal fs = None"

section \<open>Polling\<close>

text \<open>One entry per request: the status, or none when the call fails, and whether the deadline has passed
  by then.\<close>

fun assertNoOrder :: "(int option \<times> bool) list \<Rightarrow> unit option" where
  "assertNoOrder [] = None"
| "assertNoOrder ((st, late) # ps) =
     (case st of None \<Rightarrow> None
      | Some c \<Rightarrow> if c = 200 then None else if late then Some () else assertNoOrder ps)"

fun fetchEvidenceHead :: "(string option \<times> bool) list \<Rightarrow> string option" where
  "fetchEvidenceHead [] = None"
| "fetchEvidenceHead ((h, late) # ps) =
     (if h \<noteq> None \<and> h \<noteq> Some [] then h else if late then None else fetchEvidenceHead ps)"

text \<open>Here the deadline is looked at before the call.\<close>

fun waitEventsCount :: "int \<Rightarrow> (bool \<times> int option) list \<Rightarrow> unit option" where
  "waitEventsCount want [] = None"
| "waitEventsCount want ((late, n) # ps) =
     (if late then None
      else (case n of Some c \<Rightarrow> if c \<ge> want then Some () else waitEventsCount want ps
            | None \<Rightarrow> waitEventsCount want ps))"

section \<open>The stack\<close>

record session =
  se_UserID :: uid
  se_Token :: string

record stack =
  st_login :: "string \<Rightarrow> string \<Rightarrow> session option"
  st_product :: "string \<Rightarrow> string option"
  st_facts :: "string option" \<comment> \<open>the disclaimer of the drafted facts\<close>
  st_create :: "string \<Rightarrow> string \<Rightarrow> Rules \<Rightarrow> (int \<times> aid) option" \<comment> \<open>status and id\<close>
  st_freeze :: "aid \<Rightarrow> code option"
  st_start :: "aid \<Rightarrow> int \<Rightarrow> code option"
  st_dial :: "nat \<Rightarrow> string \<Rightarrow> aid \<Rightarrow> recv list option" \<comment> \<open>the frames of the \<open>i\<close>-th connection\<close>
  st_write :: "nat \<Rightarrow> money \<Rightarrow> bool" \<comment> \<open>a bid written to the \<open>i\<close>-th connection\<close>
  st_order :: "aid \<Rightarrow> (int option \<times> bool) list"
  st_head :: "aid \<Rightarrow> (string option \<times> bool) list"
  st_count :: "aid \<Rightarrow> (bool \<times> int option) list"
  st_spawn :: "aid \<Rightarrow> (aid \<times> aid \<times> money) option" \<comment> \<open>auction, parent, seeded start price\<close>
  st_price :: "aid \<Rightarrow> money option"

definition assertFactsMock :: "stack \<Rightarrow> unit option" where
  "assertFactsMock k = (case st_facts k of None \<Rightarrow> None | Some t \<Rightarrow> check (t \<noteq> []))"

definition createAuction :: "stack \<Rightarrow> string \<Rightarrow> string \<Rightarrow> Rules \<Rightarrow> aid option" where
  "createAuction k tok pid rules =
     (case st_create k tok pid rules of None \<Rightarrow> None | Some (c, aid) \<Rightarrow> if c \<ge> 300 then None else Some aid)"

definition assertCreateAuctionForbidden :: "stack \<Rightarrow> string \<Rightarrow> string \<Rightarrow> Rules \<Rightarrow> unit option" where
  "assertCreateAuctionForbidden k tok pid rules =
     (case st_create k tok pid rules of None \<Rightarrow> None | Some (c, aid) \<Rightarrow> check (c = 403))"

definition postExpectCode :: "code option \<Rightarrow> code \<Rightarrow> unit option" where
  "postExpectCode got want = (case got of None \<Rightarrow> None | Some c \<Rightarrow> check (c = want))"

definition dialAndJoin :: "stack \<Rightarrow> nat \<Rightarrow> string \<Rightarrow> aid \<Rightarrow> recv list option" where
  "dialAndJoin k i tok aid = (case st_dial k i tok aid of None \<Rightarrow> None | Some fs \<Rightarrow> waitForType ROOM_SNAPSHOT fs)"

definition placeDemoBid :: "stack \<Rightarrow> nat \<Rightarrow> money \<Rightarrow> unit option" where
  "placeDemoBid k i amount = check (st_write k i amount)"

section \<open>The runs\<close>

definition e2eRules :: Rules where
  "e2eRules = \<lparr>Mode = ModeEmpty, StartPriceCents = 10000, IncrementCents = 1000, CapPriceCents = 1000000,
     DurationSec = 60, ExtendWindowSec = 10, ExtendSec = 10, MaxExtensions = 0, LivePlayUrl = [], LiveStreamKey = []\<rparr>"

definition demoDurationMs :: int where "demoDurationMs = 12000"

definition demoRules :: Rules where
  "demoRules = \<lparr>Mode = ModeEmpty, StartPriceCents = 10000, IncrementCents = 1000, CapPriceCents = 1000000,
     DurationSec = demoDurationMs div 1000, ExtendWindowSec = 600, ExtendSec = 3, MaxExtensions = 2,
     LivePlayUrl = [], LiveStreamKey = []\<rparr>"

definition RunE2E :: "stack \<Rightarrow> aid option" where
  "RunE2E k = do {
     seller \<leftarrow> st_login k ''Seller E2E'' ''seller'';
     pid \<leftarrow> st_product k (se_Token seller);
     other \<leftarrow> st_login k ''Other Seller E2E'' ''seller'';
     _ \<leftarrow> assertCreateAuctionForbidden k (se_Token other) pid e2eRules;
     _ \<leftarrow> assertFactsMock k;
     aid \<leftarrow> createAuction k (se_Token seller) pid e2eRules;
     _ \<leftarrow> postExpectCode (st_freeze k aid) OK_FROZEN;
     _ \<leftarrow> postExpectCode (st_start k aid 60000) OK_LIVE;
     buyer \<leftarrow> st_login k ''Buyer E2E'' ''user'';
     observer \<leftarrow> dialAndJoin k 0 (se_Token buyer) aid;
     bidder \<leftarrow> dialAndJoin k 1 (se_Token buyer) aid;
     _ \<leftarrow> check (st_write k 1 ''11000'');
     _ \<leftarrow> waitForType BID_ACCEPTED bidder;
     _ \<leftarrow> waitForType BID_ACCEPTED observer;
     _ \<leftarrow> waitEventsCount 1 (st_count k aid);
     Some aid }"

text \<open>The part all demonstrations share: seller, product, facts, auction, freeze and start.\<close>

definition open_demo :: "stack \<Rightarrow> Rules \<Rightarrow> aid option" where
  "open_demo k rules = do {
     seller \<leftarrow> st_login k ''Demo Seller'' ''seller'';
     pid \<leftarrow> st_product k (se_Token seller);
     _ \<leftarrow> assertFactsMock k;
     aid \<leftarrow> createAuction k (se_Token seller) pid rules;
     _ \<leftarrow> postExpectCode (st_freeze k aid) OK_FROZEN;
     _ \<leftarrow> postExpectCode (st_start k aid demoDurationMs) OK_LIVE;
     Some aid }"

definition RunDemo :: "stack \<Rightarrow> aid option" where
  "RunDemo k = do {
     aid \<leftarrow> open_demo k demoRules;
     buyerA \<leftarrow> st_login k ''Demo Bidder A'' ''user'';
     buyerB \<leftarrow> st_login k ''Demo Bidder B'' ''user'';
     connA \<leftarrow> dialAndJoin k 0 (se_Token buyerA) aid;
     connB \<leftarrow> dialAndJoin k 1 (se_Token buyerB) aid;
     _ \<leftarrow> placeDemoBid k 0 ''11000'';
     (ext1, connA1) \<leftarrow> waitForExtended connA;
     _ \<leftarrow> check (ext_extendCount ext1 = 1);
     _ \<leftarrow> placeDemoBid k 1 ''12000'';
     (ext2, connA2) \<leftarrow> waitForExtended connA1;
     _ \<leftarrow> check (ext_extendCount ext2 = 2);
     _ \<leftarrow> waitForType AUCTION_SOLD connA2;
     _ \<leftarrow> fetchEvidenceHead (st_head k aid);
     Some aid }"

definition RunDemoSuddenDeath :: "stack \<Rightarrow> aid option" where
  "RunDemoSuddenDeath k = do {
     aid \<leftarrow> open_demo k (demoRules\<lparr>Mode := SUDDEN_DEATH\<rparr>);
     buyer \<leftarrow> st_login k ''Demo Bidder A'' ''user'';
     conn \<leftarrow> dialAndJoin k 0 (se_Token buyer) aid;
     _ \<leftarrow> placeDemoBid k 0 ''11000'';
     _ \<leftarrow> waitForSoldNoExtend conn;
     _ \<leftarrow> fetchEvidenceHead (st_head k aid);
     Some aid }"

definition runDemoSealedCore :: "stack \<Rightarrow> mode \<Rightarrow> aid option" where
  "runDemoSealedCore k mode = do {
     aid \<leftarrow> open_demo k (demoRules\<lparr>Mode := mode\<rparr>);
     buyerA \<leftarrow> st_login k ''Demo Bidder A'' ''user'';
     buyerB \<leftarrow> st_login k ''Demo Bidder B'' ''user'';
     connA \<leftarrow> dialAndJoin k 0 (se_Token buyerA) aid;
     connB \<leftarrow> dialAndJoin k 1 (se_Token buyerB) aid;
     _ \<leftarrow> placeDemoBid k 0 ''11000'';
     _ \<leftarrow> placeDemoBid k 1 ''12000'';
     (reveal, connA1) \<leftarrow> waitForRevealedAssertSealed connA;
     _ \<leftarrow> check (length (reveal_bids reveal) = 2);
     _ \<leftarrow> check (reveal_winnerId reveal = se_UserID buyerB);
     _ \<leftarrow> check (reveal_amountCents reveal = (if mode = VICKREY then ''11000'' else ''12000''));
     _ \<leftarrow> waitForType AUCTION_SOLD connA1;
     _ \<leftarrow> fetchEvidenceHead (st_head k aid);
     Some aid }"

definition RunDemoSealed :: "stack \<Rightarrow> aid option" where
  "RunDemoSealed k = runDemoSealedCore k SEALED_FIRST"

definition RunDemoVickrey :: "stack \<Rightarrow> aid option" where
  "RunDemoVickrey k = runDemoSealedCore k VICKREY"

definition RunDemoAllPay :: "stack \<Rightarrow> aid option" where
  "RunDemoAllPay k = do {
     aid \<leftarrow> open_demo k (demoRules\<lparr>Mode := ALL_PAY\<rparr>);
     buyerA \<leftarrow> st_login k ''Demo Bidder A'' ''user'';
     buyerB \<leftarrow> st_login k ''Demo Bidder B'' ''user'';
     connA \<leftarrow> dialAndJoin k 0 (se_Token buyerA) aid;
     connB \<leftarrow> dialAndJoin k 1 (se_Token buyerB) aid;
     _ \<leftarrow> placeDemoBid k 0 ''11000'';
     _ \<leftarrow> placeDemoBid k 1 ''12000'';
     (reveal, connA1) \<leftarrow> waitForRevealedAssertSealed connA;
     _ \<leftarrow> check (length (reveal_bids reveal) = 2);
     _ \<leftarrow> check (reveal_winnerId reveal = se_UserID buyerB);
     _ \<leftarrow> check (reveal_amountCents reveal = ''12000'');
     _ \<leftarrow> waitForType AUCTION_SOLD connA1;
     _ \<leftarrow> assertNoOrder (st_order k aid);
     _ \<leftarrow> fetchEvidenceHead (st_head k aid);
     Some aid }"

definition RunDemoHybrid :: "stack \<Rightarrow> aid option" where
  "RunDemoHybrid k = do {
     aid \<leftarrow> open_demo k (demoRules\<lparr>Mode := HYBRID_REVEAL\<rparr>);
     buyerA \<leftarrow> st_login k ''Demo Bidder A'' ''user'';
     buyerB \<leftarrow> st_login k ''Demo Bidder B'' ''user'';
     watcher \<leftarrow> st_login k ''Demo Observer'' ''user'';
     connA \<leftarrow> dialAndJoin k 0 (se_Token buyerA) aid;
     connB \<leftarrow> dialAndJoin k 1 (se_Token buyerB) aid;
     obs \<leftarrow> dialAndJoin k 2 (se_Token watcher) aid;
     _ \<leftarrow> placeDemoBid k 0 ''11000'';
     obs1 \<leftarrow> observeHybridAccepted (se_UserID buyerA) (se_UserID buyerB) 1 obs;
     _ \<leftarrow> placeDemoBid k 1 ''12000'';
     obs2 \<leftarrow> observeHybridAccepted (se_UserID buyerA) (se_UserID buyerB) 2 obs1;
     (sold, obs3) \<leftarrow> waitForHybridSold obs2;
     _ \<leftarrow> check (sold_winnerId sold = se_UserID buyerB);
     _ \<leftarrow> check (sold_amountCents sold = ''12000'');
     _ \<leftarrow> fetchEvidenceHead (st_head k aid);
     Some aid }"

definition RunDemoPrequalify :: "stack \<Rightarrow> (aid \<times> aid) option" where
  "RunDemoPrequalify k = do {
     parent \<leftarrow> open_demo k (demoRules\<lparr>Mode := SEALED_FIRST\<rparr>);
     buyerA \<leftarrow> st_login k ''Demo Bidder A'' ''user'';
     buyerB \<leftarrow> st_login k ''Demo Bidder B'' ''user'';
     cA \<leftarrow> dialAndJoin k 0 (se_Token buyerA) parent;
     cB \<leftarrow> dialAndJoin k 1 (se_Token buyerB) parent;
     _ \<leftarrow> placeDemoBid k 0 ''11000'';
     _ \<leftarrow> placeDemoBid k 1 ''12000'';
     (reveal, cA1) \<leftarrow> waitForRevealedAssertSealed cA;
     _ \<leftarrow> check (reveal_amountCents reveal = ''12000'');
     _ \<leftarrow> waitForType AUCTION_SOLD cA1;
     (formal, linked, seeded) \<leftarrow> st_spawn k parent;
     _ \<leftarrow> check (seeded = ''11000'');
     _ \<leftarrow> check (linked = parent);
     _ \<leftarrow> postExpectCode (st_freeze k formal) OK_FROZEN;
     price \<leftarrow> st_price k formal;
     _ \<leftarrow> check (price = ''11000'');
     Some (parent, formal) }"

section \<open>What the waits check\<close>

text \<open>The run of sudden death passes exactly when the sale comes before any extension.\<close>

theorem no_extend_gate:
  "waitForSoldNoExtend fs = Some rest \<longleftrightarrow>
    (\<exists>pre e. fs = map Frame pre @ Frame e # rest \<and> en_Type e = AUCTION_SOLD
      \<and> list_all (\<lambda>x. en_Type x \<noteq> AUCTION_SOLD \<and> en_Type x \<noteq> AUCTION_EXTENDED) pre)"
  (is "?l fs \<longleftrightarrow> ?r fs")
proof
  show "?l fs \<Longrightarrow> ?r fs"
  proof (induction fs rule: waitForSoldNoExtend.induct)
    case (1 e fs)
    show ?case
    proof (cases "en_Type e = AUCTION_SOLD")
      case True
      with "1.prems" show ?thesis by (intro exI [of _ "[]"] exI [of _ e]) auto
    next
      case False
      with 1 obtain pre x where "fs = map Frame pre @ Frame x # rest" "en_Type x = AUCTION_SOLD"
        "list_all (\<lambda>x. en_Type x \<noteq> AUCTION_SOLD \<and> en_Type x \<noteq> AUCTION_EXTENDED) pre" "en_Type e \<noteq> AUCTION_EXTENDED"
        by (auto split: if_splits)
      with False show ?thesis by (intro exI [of _ "e # pre"] exI [of _ x]) simp
    qed
  qed simp_all
next
  have "list_all (\<lambda>x. en_Type x \<noteq> AUCTION_SOLD \<and> en_Type x \<noteq> AUCTION_EXTENDED) pre \<Longrightarrow> en_Type e = AUCTION_SOLD \<Longrightarrow>
      waitForSoldNoExtend (map Frame pre @ Frame e # rest) = Some rest" for pre e
    by (induction pre) auto
  then show "?r fs \<Longrightarrow> ?l fs" by auto
qed

text \<open>The wait of the sealed runs is said to fail on an amount that reaches the room; it does not look.\<close>

theorem sealed_gate_blind:
  "list_all (\<lambda>x. en_Type x \<noteq> AUCTION_REVEALED) leaks \<Longrightarrow>
    waitForRevealedAssertSealed (map Frame leaks @ fs) = waitForRevealedAssertSealed fs"
  by (induction leaks) auto

text \<open>The money gate of the all-pay run fails on the status 200 only: a server that refuses to answer passes.\<close>

theorem order_gate_blind:
  "c \<noteq> 200 \<Longrightarrow> assertNoOrder (replicate n (Some c, False) @ [(Some c, True)]) = Some ()"
  by (induction n) auto

theorem order_gate: "assertNoOrder ps = Some () \<Longrightarrow> (Some 200, late) \<in> set ps \<Longrightarrow> \<exists>c. (Some c, True) \<in> set ps \<and> c \<noteq> 200"
  by (induction ps rule: assertNoOrder.induct) (auto split: option.splits if_splits)

section \<open>The runs pass on the scripts\<close>

text \<open>The commands of a run, by mode: the rules as the policy of the mode leaves them, two bids, the hammer after
  the last possible end.\<close>

definition run_policy :: "mode \<Rightarrow> AuctionMode" where
  "run_policy m = (if m = SUDDEN_DEATH then suddenDeathMode m
     else if m \<in> {SEALED_FIRST, VICKREY, ALL_PAY} then sealedMode m else baseMode m)"

definition run_bid :: "uid \<Rightarrow> money \<Rightarrow> bid_args" where
  "run_bid u a = \<lparr>ba_userId = u, ba_clientBidId = ''cb'', ba_amountStr = a, ba_displayName = u\<rparr>"

definition run_bid_cmd :: "mode \<Rightarrow> uid \<Rightarrow> money \<Rightarrow> cmd" where
  "run_bid_cmd m u a =
     (if m \<in> {SEALED_FIRST, VICKREY, ALL_PAY} then CSealed (run_bid u a)
      else if m = HYBRID_REVEAL then CHybrid (run_bid u a) else CBid (run_bid u a))"

definition run_close :: "mode \<Rightarrow> cmd" where
  "run_close m = (if m = ALL_PAY then CCloseAllPay else if m = VICKREY then CCloseSealed SECOND
     else if m = SEALED_FIRST then CCloseSealed FIRST else CClose)"

definition run_cmds :: "mode \<Rightarrow> (uid \<times> money) list \<Rightarrow> (cmd \<times> int \<times> int) list" where
  "run_cmds m bids =
     [(CFreeze \<lparr>fr_rules = NormalizeRules (run_policy m) (demoRules\<lparr>Mode := m\<rparr>), fr_sellerId = ''seller''\<rparr>, (0, 0)),
      (CStart demoDurationMs, (0, 0))]
     @ map (\<lambda>(u, a). (run_bid_cmd m u a, (1, 0))) bids @ [(run_close m, (20, 0))]"

fun run_all :: "(cmd \<times> int \<times> int) list \<Rightarrow> akeys \<Rightarrow> akeys" where
  "run_all [] k = k"
| "run_all ((c, t) # cs) k = run_all cs (snd (exec c t k))"

definition room_frames :: "mode \<Rightarrow> (uid \<times> money) list \<Rightarrow> recv list" where
  "room_frames m bids =
     map (\<lambda>e. Frame (event_envelope 0 ''auc'' (event_of e))) (events_of (run_all (run_cmds m bids) empty_keys))"

text \<open>A stack whose rooms deliver what the scripts append.\<close>

definition script_stack :: "mode \<Rightarrow> (uid \<times> money) list \<Rightarrow> stack" where
  "script_stack m bids =
     \<lparr>st_login = (\<lambda>n r. Some \<lparr>se_UserID = (if n = ''Demo Bidder B'' then ''b'' else ''a''), se_Token = n\<rparr>),
      st_product = (\<lambda>t. Some ''p''), st_facts = Some ''d'', st_create = (\<lambda>t p r. Some (200, ''auc'')),
      st_freeze = (\<lambda>a. Some OK_FROZEN), st_start = (\<lambda>a d. Some OK_LIVE),
      st_dial = (\<lambda>i t a. Some (Frame (NewEnvelope 0 ROOM_SNAPSHOT ''auc'' 0 DNone) # room_frames m bids)),
      st_write = (\<lambda>i a. True), st_order = (\<lambda>a. [(Some 404, True)]), st_head = (\<lambda>a. [(Some ''h'', False)]),
      st_count = (\<lambda>a. []), st_spawn = (\<lambda>a. None), st_price = (\<lambda>a. None)\<rparr>"


lemma check_True [simp]: "check True = Some ()" by (simp add: check_def)

lemma demo_frames:
  "\<exists>e1 r1 e2 r2 r3. waitForExtended (room_frames ENGLISH [(''a'', ''11000''), (''b'', ''12000'')]) = Some (e1, r1)
     \<and> ext_extendCount e1 = 1 \<and> waitForExtended r1 = Some (e2, r2) \<and> ext_extendCount e2 = 2 \<and> waitForType AUCTION_SOLD r2 = Some r3"
proof -
  have "case waitForExtended (room_frames ENGLISH [(''a'', ''11000''), (''b'', ''12000'')]) of None \<Rightarrow> False
    | Some (e1, r1) \<Rightarrow> ext_extendCount e1 = 1 \<and> (case waitForExtended r1 of None \<Rightarrow> False
       | Some (e2, r2) \<Rightarrow> ext_extendCount e2 = 2 \<and> waitForType AUCTION_SOLD r2 \<noteq> None)"
    by code_simp
  then show ?thesis by (auto split: option.splits)
qed

lemma sudden_frames: "waitForSoldNoExtend (room_frames SUDDEN_DEATH [(''a'', ''11000'')]) \<noteq> None"
  by code_simp

lemma sealed_frames:
  assumes "m \<in> {SEALED_FIRST, VICKREY, ALL_PAY}"
  shows "\<exists>d r r2. waitForRevealedAssertSealed (room_frames m [(''a'', ''11000''), (''b'', ''12000'')]) = Some (d, r)
    \<and> length (reveal_bids d) = 2 \<and> reveal_winnerId d = ''b''
    \<and> reveal_amountCents d = (if m = VICKREY then ''11000'' else ''12000'') \<and> waitForType AUCTION_SOLD r = Some r2"
proof -
  have "list_all (\<lambda>m. case waitForRevealedAssertSealed (room_frames m [(''a'', ''11000''), (''b'', ''12000'')]) of None \<Rightarrow> False
    | Some (d, r) \<Rightarrow> length (reveal_bids d) = 2 \<and> reveal_winnerId d = ''b''
        \<and> reveal_amountCents d = (if m = VICKREY then ''11000'' else ''12000'')
        \<and> waitForType AUCTION_SOLD r \<noteq> None) [SEALED_FIRST, VICKREY, ALL_PAY]"
    by code_simp
  with assms show ?thesis by (auto split: option.splits)
qed

lemma hybrid_frames:
  "\<exists>r1 r2 d r3. observeHybridAccepted ''a'' ''b'' 1 (room_frames HYBRID_REVEAL [(''a'', ''11000''), (''b'', ''12000'')]) = Some r1
    \<and> observeHybridAccepted ''a'' ''b'' 2 r1 = Some r2 \<and> waitForHybridSold r2 = Some (d, r3)
    \<and> sold_winnerId d = ''b'' \<and> sold_amountCents d = ''12000''"
proof -
  have "case observeHybridAccepted ''a'' ''b'' 1 (room_frames HYBRID_REVEAL [(''a'', ''11000''), (''b'', ''12000'')]) of
      None \<Rightarrow> False
    | Some r1 \<Rightarrow> (case observeHybridAccepted ''a'' ''b'' 2 r1 of None \<Rightarrow> False
      | Some r2 \<Rightarrow> (case waitForHybridSold r2 of None \<Rightarrow> False
        | Some (d, r3) \<Rightarrow> sold_winnerId d = ''b'' \<and> sold_amountCents d = ''12000''))"
    by code_simp
  then show ?thesis by (auto split: option.splits)
qed

lemma script_stack_sel [simp]:
  "st_login (script_stack m bids) n r = Some \<lparr>se_UserID = (if n = ''Demo Bidder B'' then ''b'' else ''a''), se_Token = n\<rparr>"
  "open_demo (script_stack m bids) rules = Some ''auc''"
  "dialAndJoin (script_stack m bids) i tok aid = Some (room_frames m bids)"
  "placeDemoBid (script_stack m bids) i amount = Some ()"
  "fetchEvidenceHead (st_head (script_stack m bids) aid) = Some ''h''"
  "assertNoOrder (st_order (script_stack m bids) aid) = Some ()"
  by (simp_all add: script_stack_def open_demo_def dialAndJoin_def placeDemoBid_def assertFactsMock_def
      createAuction_def postExpectCode_def NewEnvelope_def)

text \<open>Every demonstration passes on a stack whose rooms deliver what the scripts append.\<close>

theorem runs_pass:
  "RunDemo (script_stack ENGLISH [(''a'', ''11000''), (''b'', ''12000'')]) = Some ''auc''"
  "RunDemoSuddenDeath (script_stack SUDDEN_DEATH [(''a'', ''11000'')]) = Some ''auc''"
  "RunDemoSealed (script_stack SEALED_FIRST [(''a'', ''11000''), (''b'', ''12000'')]) = Some ''auc''"
  "RunDemoVickrey (script_stack VICKREY [(''a'', ''11000''), (''b'', ''12000'')]) = Some ''auc''"
  "RunDemoAllPay (script_stack ALL_PAY [(''a'', ''11000''), (''b'', ''12000'')]) = Some ''auc''"
  "RunDemoHybrid (script_stack HYBRID_REVEAL [(''a'', ''11000''), (''b'', ''12000'')]) = Some ''auc''"
  using demo_frames sudden_frames sealed_frames [of SEALED_FIRST] sealed_frames [of VICKREY] sealed_frames [of ALL_PAY]
    hybrid_frames
  by (auto simp: RunDemo_def RunDemoSuddenDeath_def RunDemoSealed_def RunDemoVickrey_def runDemoSealedCore_def
      RunDemoAllPay_def RunDemoHybrid_def)

end
