(* ===== verification/Chaos.thy ===== *)
theory Chaos
  imports Gates Gateway
begin

text \<open>
  The phases of a fault drill, \<^verbatim>\<open>server/chaos.go\<close>, as clients of the stack. Then, against the gateway and the
  scripts as modelled here: the amount a phase bids is one the script accepts, the catch-up phase fails as soon as
  there is something to catch up, and the phase for a stopped gateway passes on a running one.
\<close>

section \<open>Options\<close>

datatype chaos_phase =
  PhaseSetup | PhaseBidExpect | PhaseConnectFails | PhaseStateExpect | PhaseCatchup | PhaseWaitEvents | PhaseUnknown

text \<open>Absent texts are \<^term>\<open>None\<close> or empty.\<close>

record ChaosOptions =
  co_Target :: string
  co_Phase :: chaos_phase
  co_AID :: aid
  co_Token :: string
  co_Code :: "code option"
  co_State :: "auction_state option"
  co_LastSeq :: int
  co_WantSeq :: int
  co_DurationMs :: int

text \<open>What the phases ask of the stack beyond the runs of the modes: a dial without a token that succeeds, the frames after
  a join with a last number, and the status at each poll, after whether the deadline has passed.\<close>

record chaos_stack = stack +
  ck_bare :: bool
  ck_rejoin :: "string \<Rightarrow> aid \<Rightarrow> int \<Rightarrow> recv list option"
  ck_status :: "aid \<Rightarrow> (bool \<times> auction_state option) list"

section \<open>A bid and its answer\<close>

definition isAcceptCode :: "code \<Rightarrow> bool" where
  "isAcceptCode c \<longleftrightarrow> c \<in> {OK_ACCEPTED, OK_EXTENDED, OK_SOLD}"

definition snapshot_in :: "Envelope \<Rightarrow> RoomSnapshotData option" where
  "snapshot_in e = (case en_Data e of DSnapshot s \<Rightarrow> Some s | _ \<Rightarrow> None)"

fun chaosDialJoinSnapshot :: "recv list \<Rightarrow> (RoomSnapshotData \<times> recv list) option" where
  "chaosDialJoinSnapshot (Frame e # fs) =
     (if en_Type e \<noteq> ROOM_SNAPSHOT then chaosDialJoinSnapshot fs
      else map_option (\<lambda>s. (s, fs)) (snapshot_in e))"
| "chaosDialJoinSnapshot fs = None"

text \<open>Parse errors are ignored and leave what \<^verbatim>\<open>ParseInt\<close> returns with them.\<close>

definition chaos_step :: "RoomSnapshotData \<Rightarrow> int" where
  "chaos_step snap =
     (case sn_Rules snap of
        None \<Rightarrow> 1000
      | Some r \<Rightarrow> (case ParseInt (rs_stepCents r) of POk n \<Rightarrow> if n > 0 then n else 1000 | _ \<Rightarrow> 1000))"

definition chaosNextAcceptedAmount :: "money \<Rightarrow> RoomSnapshotData \<Rightarrow> money" where
  "chaosNextAcceptedAmount requested snap =
     (let current = parseInt (sn_CurrentPriceCents snap); amount = parseInt requested;
          next1 = wrap64 (current + chaos_step snap)
      in FormatInt (if amount > next1 then amount else next1))"

fun chaos_answer :: "code \<Rightarrow> recv list \<Rightarrow> unit option" where
  "chaos_answer expect (Frame e # fs) =
     (if en_Type e = BID_ACCEPTED then check (isAcceptCode expect)
      else if en_Type e = BID_REJECTED
      then (case en_Data e of DRejected c \<Rightarrow> check (c = expect) | _ \<Rightarrow> None)
      else chaos_answer expect fs)"
| "chaos_answer expect fs = None"

definition chaosPlaceBidExpect :: "'a stack_scheme \<Rightarrow> aid \<Rightarrow> string \<Rightarrow> money \<Rightarrow> code \<Rightarrow> unit option" where
  "chaosPlaceBidExpect k aid token amount expect =
     (case st_dial k 0 token aid of
        None \<Rightarrow> None
      | Some fs \<Rightarrow>
          (if expect = ERR_AUCTION_PAUSED
           then (if st_write k 0 amount then chaos_answer expect fs else None)
           else (case chaosDialJoinSnapshot fs of
                   None \<Rightarrow> None
                 | Some (snap, fs') \<Rightarrow>
                     (let a = (if isAcceptCode expect then chaosNextAcceptedAmount amount snap else amount)
                      in if st_write k 0 a then chaos_answer expect fs' else None))))"

section \<open>The phases\<close>

definition chaos_rules :: "int \<Rightarrow> Rules" where
  "chaos_rules durationMs =
     (if durationMs > 0 \<and> durationMs \<le> ExtendWindowSec e2eRules * 1000
      then e2eRules\<lparr>ExtendWindowSec := 0, ExtendSec := 0\<rparr> else e2eRules)"

definition createChaosAuction :: "'a stack_scheme \<Rightarrow> string \<Rightarrow> string \<Rightarrow> ChaosOptions \<Rightarrow> aid option" where
  "createChaosAuction k tok pid co =
     (case st_create k tok pid (chaos_rules (co_DurationMs co)) of
        None \<Rightarrow> None
      | Some (c, aid) \<Rightarrow> if c \<ge> 300 then None else Some aid)"

text \<open>The number in the nicknames is left out.\<close>

definition chaosSetup :: "'a stack_scheme \<Rightarrow> ChaosOptions \<Rightarrow> (aid \<times> string) option" where
  "chaosSetup k co = do {
     seller \<leftarrow> st_login k ''Chaos Seller'' ''seller'';
     pid \<leftarrow> st_product k (se_Token seller);
     aid \<leftarrow> createChaosAuction k (se_Token seller) pid co;
     _ \<leftarrow> postExpectCode (st_freeze k aid) OK_FROZEN;
     _ \<leftarrow> postExpectCode (st_start k aid (if co_DurationMs co \<le> 0 then 600000 else co_DurationMs co)) OK_LIVE;
     buyer \<leftarrow> st_login k ''Chaos Buyer'' ''user'';
     _ \<leftarrow> chaosPlaceBidExpect k aid (se_Token buyer) ''11000'' OK_ACCEPTED;
     Some (aid, se_Token buyer) }"

definition chaosBidExpect :: "'a stack_scheme \<Rightarrow> ChaosOptions \<Rightarrow> unit option" where
  "chaosBidExpect k co =
     (case co_Code co of
        None \<Rightarrow> None
      | Some expect \<Rightarrow>
          (if co_AID co = [] then None
           else if co_Token co \<noteq> [] then chaosPlaceBidExpect k (co_AID co) (co_Token co) ''12000'' expect
           else (case st_login k ''Chaos Buyer'' ''user'' of
                   None \<Rightarrow> None
                 | Some buyer \<Rightarrow> chaosPlaceBidExpect k (co_AID co) (se_Token buyer) ''12000'' expect)))"

definition chaosConnectFails :: "chaos_stack \<Rightarrow> unit option" where
  "chaosConnectFails k = check (\<not> ck_bare k)"

fun poll_status :: "auction_state \<Rightarrow> (bool \<times> auction_state option) list \<Rightarrow> unit option" where
  "poll_status want [] = None"
| "poll_status want ((late, st) # ps) =
     (if late then None else if st = Some want then Some () else poll_status want ps)"

definition chaosStateExpect :: "chaos_stack \<Rightarrow> ChaosOptions \<Rightarrow> unit option" where
  "chaosStateExpect k co =
     (case co_State co of
        None \<Rightarrow> None
      | Some want \<Rightarrow> if co_AID co = [] then None else poll_status want (ck_status k (co_AID co)))"

text \<open>One frame is read.\<close>

fun catchup_answer :: "int \<Rightarrow> recv list \<Rightarrow> unit option" where
  "catchup_answer want (Frame e # fs) =
     (if en_Type e \<noteq> ROOM_SNAPSHOT then None
      else (case snapshot_in e of None \<Rightarrow> None | Some rs \<Rightarrow> check (want \<le> sn_Seq rs)))"
| "catchup_answer want fs = None"

definition chaosCatchup :: "chaos_stack \<Rightarrow> ChaosOptions \<Rightarrow> unit option" where
  "chaosCatchup k co = do {
     _ \<leftarrow> check (co_AID co \<noteq> []);
     buyer \<leftarrow> st_login k ''Chaos Reconnect'' ''user'';
     fs \<leftarrow> ck_rejoin k (se_Token buyer) (co_AID co) (co_LastSeq co);
     catchup_answer (co_WantSeq co) fs }"

definition chaosWaitEvents :: "'a stack_scheme \<Rightarrow> ChaosOptions \<Rightarrow> unit option" where
  "chaosWaitEvents k co =
     (if co_AID co = [] \<or> co_WantSeq co = 0 then None else waitEventsCount (co_WantSeq co) (st_count k (co_AID co)))"

definition RunChaos :: "chaos_stack \<Rightarrow> ChaosOptions \<Rightarrow> unit option" where
  "RunChaos k co =
     (if co_Target co = [] then None
      else (case co_Phase co of
              PhaseSetup \<Rightarrow> map_option (\<lambda>x. ()) (chaosSetup k co)
            | PhaseBidExpect \<Rightarrow> chaosBidExpect k co
            | PhaseConnectFails \<Rightarrow> chaosConnectFails k
            | PhaseStateExpect \<Rightarrow> chaosStateExpect k co
            | PhaseCatchup \<Rightarrow> chaosCatchup k co
            | PhaseWaitEvents \<Rightarrow> chaosWaitEvents k co
            | PhaseUnknown \<Rightarrow> None))"

section \<open>The log holds events only\<close>

definition plain :: "akeys \<Rightarrow> bool" where
  "plain k \<longleftrightarrow> list_all (\<lambda>m. e_type m \<noteq> ROOM_SNAPSHOT) (events_of k)"

lemma plain_writes [simp]:
  "plain (set_hash h k) = plain k" "plain (publish q ty p k) = plain k" "plain (cache_ack u cb j now k) = plain k"
  "plain (ensure_dedupe_ttl u now k) = plain k" "plain (k\<lparr>k_leaderboard := l\<rparr>) = plain k"
  "plain (k\<lparr>k_sealed := s\<rparr>) = plain k" "plain (k\<lparr>k_sealednames := n\<rparr>) = plain k"
  by (simp_all add: plain_def set_hash_def publish_def cache_ack_def ensure_dedupe_ttl_def split: slot.splits)

lemma plain_append: "append_event q ty p k = Some k' \<Longrightarrow> ty \<noteq> ROOM_SNAPSHOT \<Longrightarrow> plain k \<Longrightarrow> plain k'"
  by (auto simp: append_event_def xadd_def plain_def split: option.splits if_splits)

lemma plain_end: "ty \<noteq> ROOM_SNAPSHOT \<Longrightarrow> plain k \<Longrightarrow> plain (snd (end_auction c st ty p h k))"
  by (auto simp: end_auction_def Let_def dest: plain_append split: option.splits)

lemma plain_commit: "plain k \<Longrightarrow> plain (snd (commit_bid b a now h h' ack bid k))"
  by (auto simp: commit_bid_def Let_def dest!: plain_append split: option.splits)

lemma plain_prologue: "plain k \<Longrightarrow> (\<And>a now h. plain (snd (f a now h))) \<Longrightarrow> plain (snd (bid_prologue b t k f))"
  by (simp add: bid_prologue_def Let_def split: option.splits)

lemma plain_emit: "list_all (\<lambda>(ty, mk). ty \<noteq> ROOM_SNAPSHOT) ms \<Longrightarrow> plain k \<Longrightarrow>
    (case emit_all ms k of Inl k' \<Rightarrow> plain k' | Inr k' \<Rightarrow> plain k')"
proof (induction ms k rule: emit_all.induct)
  case (2 ty mk ms k)
  have "case emit ty mk k of Inl k' \<Rightarrow> plain k' | Inr k' \<Rightarrow> plain k'"
    using 2(2,3) by (auto simp: emit_def Let_def dest!: plain_append split: option.splits)
  with 2 show ?case by (cases "emit ty mk k") simp_all
qed simp

lemma plain_reveal: "list_all (\<lambda>(ty, mk). ty \<noteq> ROOM_SNAPSHOT) extra \<Longrightarrow> plain k \<Longrightarrow>
    plain (snd (reveal_and_sell price extra h now z k))"
  using plain_emit [of "[(AUCTION_REVEALED, \<lambda>q. reveal_json q (revealed_bids (names_of k) z) (fst (hd z)) price now)] @ extra
      @ [(AUCTION_SOLD, \<lambda>q. sold_json q (fst (hd z)) price now)]"
      "set_hash (h\<lparr>h_winnerId := fst (hd z), h_currentPriceCents := Some price, h_status := Some SOLD\<rparr>)
         (k\<lparr>k_leaderboard := Present (fold (\<lambda>(u, s). zadd u s) z (board_of k))\<rparr>)"]
  by (auto simp: reveal_and_sell_def Let_def simp del: emit_all.simps split: sum.splits)

lemma plain_close: "plain k \<Longrightarrow> (\<And>h now z. plain (snd (f h now z))) \<Longrightarrow> plain (snd (close_prologue t k f))"
  by (simp add: close_prologue_def Let_def plain_end)

lemma plain_forfeits: "list_all (\<lambda>(ty, mk). ty \<noteq> ROOM_SNAPSHOT) (forfeits z now)"
  by (induction z now rule: forfeits.induct) simp_all

lemma plain_sealed: "plain k \<Longrightarrow> plain (snd (place_bid_sealed b t k))"
  by (auto simp: place_bid_sealed_def record_sealed_def Let_def dest!: plain_append split: option.splits)

lemma plain_exec: "plain k \<Longrightarrow> plain (snd (exec c t k))"
  by (cases c)
     (auto simp: freeze_rules_def start_auction_def place_bid_def place_bid_hybrid_def close_auction_def cancel_auction_def
        close_auction_sealed_def close_auction_allpay_def Let_def
        intro!: plain_prologue plain_commit plain_end plain_close plain_reveal plain_forfeits plain_sealed)

lemma reachable_plain: "reachable k \<Longrightarrow> plain k"
proof (induction rule: reachable.induct)
  case reach_init
  show ?case by (simp add: plain_def empty_keys_def)
qed (rule plain_exec)

section \<open>The catch-up phase\<close>

text \<open>What a client reads of the critical lane.\<close>

definition lane_frames :: "Envelope conn \<Rightarrow> recv list" where
  "lane_frames c = concat (map (\<lambda>f. case f of Raw e \<Rightarrow> [Frame e] | Prepared e \<Rightarrow> [Frame e]) (cx_crit c))"

lemma raw_frames: "concat (map (\<lambda>f. case f of Raw e \<Rightarrow> [Frame e] | Prepared e \<Rightarrow> [Frame e]) (map Raw es)) = map Frame es"
  by (induction es) simp_all

lemma catchup_join_frames:
  assumes "list_all (\<lambda>m. e_type m \<noteq> ROOM_SNAPSHOT) es" "p \<le> length es"
  shows "catchup_answer want (map Frame (join_frames e aid (drop p es) snap)) =
    (if p = length es \<and> want \<le> sn_Seq snap then Some () else None)"
proof (cases "drop p es")
  case Nil
  then show ?thesis using assms(2) by (simp add: join_frames_def snapshot_in_def NewEnvelope_def check_def)
next
  case (Cons m ms)
  then have "m \<in> set es" "p \<noteq> length es" by (metis in_set_dropD list.set_intros(1), auto)
  with Cons assms(1) show ?thesis
    by (simp add: join_frames_def list_all_iff event_envelope_def event_of_def NewEnvelope_def)
qed

text \<open>The phase is meant to show that nothing is lost over an outage. The gateway replays what was missed before the
  snapshot, and the phase wants the snapshot first: it passes exactly when nothing was missed.\<close>

theorem catchup_phase:
  assumes reach: "reachable (rd_keys r1 aid)" and good: "\<not> bad_type (k_state (rd_keys r1 aid))"
    and r2: "readable (rd_keys r2 aid)" "events_of (rd_keys r2 aid) = events_of (rd_keys r1 aid) @ later"
      "length (events_of (rd_keys r2 aid)) < je_fuel e"
    and up: "je_read e = Answered" "je_snapshot e = Answered"
    and p: "p \<le> length (events_of (rd_keys r1 aid))" "int (length (events_of (rd_keys r1 aid))) - int p \<le> catchupMaxGap"
    and ok: "\<forall>m\<in>set (events_of (rd_keys r1 aid)). e_payload m \<noteq> JBad"
    and aid: "aid \<noteq> []" "201 \<le> je_cap e"
    and j: "room_join e \<lparr>rj_AuctionID = aid, rj_LastSeq = int p\<rparr> r1 r2 (w, newConn, h) = (w', c', h')"
    and co: "co_AID co = aid" "co_LastSeq co = int p" "st_login k ''Chaos Reconnect'' ''user'' = Some buyer"
    and k: "ck_rejoin k (se_Token buyer) aid (int p) = Some (lane_frames c')"
  shows "chaosCatchup k co = Some () \<longleftrightarrow>
    p = length (events_of (rd_keys r1 aid)) \<and> co_WantSeq co \<le> int (length (events_of (rd_keys r1 aid)))"
proof -
  let ?es = "events_of (rd_keys r1 aid)"
  obtain snap where s: "cx_crit c' = map Raw (join_frames e aid (drop p ?es) snap)" "sn_Seq snap = int (length ?es)"
    using room_join_frames [OF reachable_inv [OF reach] good r2 up(2) ok aid(1) _ _ _ _ j] aid(2) up(1) p(2)
    by (auto simp: newConn_def replayed_events_def)
  have l: "lane_frames c' = map Frame (join_frames e aid (drop p ?es) snap)"
    unfolding lane_frames_def s(1) by (rule raw_frames)
  have "list_all (\<lambda>m. e_type m \<noteq> ROOM_SNAPSHOT) ?es" using reachable_plain [OF reach] by (simp add: plain_def)
  from catchup_join_frames [OF this p(1), of "co_WantSeq co" e aid snap] show ?thesis
    using co k aid(1) s(2) unfolding l by (auto simp: chaosCatchup_def check_def)
qed

section \<open>The other phases\<close>

text \<open>The dial of the phase for a stopped gateway carries no token: a gateway that runs refuses it, and the phase
  passes.\<close>

theorem connect_fails_blind:
  "fst (handleWS hm (up\<lparr>up_token := []\<rparr>) d items g) = WsUnauthorized"
  "ck_bare k = (fst (handleWS hm (up\<lparr>up_token := []\<rparr>) d items g) \<in> {WsOpen, WsClosed}) \<Longrightarrow> chaosConnectFails k = Some ()"
  by (simp_all add: handleWS_def auth_Verify_def Contains_def chaosConnectFails_def check_def)

text \<open>A repeated bid is answered by a \<^verbatim>\<open>BID_ACCEPTED\<close>; a phase that expects DUPLICATE fails on it.\<close>

lemma duplicate_phase:
  "chaos_answer DUPLICATE (Frame (fst (bid_answer wall aid err (IOk (DUPLICATE, q, p)) m)) # fs) = None"
  by (simp add: bidAccepted_def Let_def NewEnvelope_def isAcceptCode_def check_def)

text \<open>The amount a phase bids is one the script takes, unless a cap is in the way.\<close>

lemma next_amount:
  assumes "h_currentPriceCents h = Some (FormatInt p)" "h_incrementCents h = FormatInt inc"
    and "0 \<le> p" "0 < inc" "p + inc \<le> MaxMoneyCents" "0 \<le> n" "n \<le> MaxMoneyCents"
  shows "chaosNextAcceptedAmount (FormatInt n) (snapshot_of h) = FormatInt (max n (p + inc))"
proof -
  have i: "int64 p" "int64 n" "int64 inc" "int64 (p + inc)" using assms by (auto simp: int64_def MaxMoneyCents_def)
  have "chaos_step (snapshot_of h) = inc"
    using assms(2,4) i(3) by (simp add: chaos_step_def snapshot_of_def snapshotRules_def moneyOrZero_def)
  then show ?thesis
    using i by (simp add: chaosNextAcceptedAmount_def Let_def wrap64_id max_def) (simp add: snapshot_of_def assms(1))
qed

theorem drill_bid_accepted:
  assumes h: "h_currentPriceCents h = Some (FormatInt p)" "h_incrementCents h = FormatInt inc" "h_capPriceCents h = FormatInt c"
    and n: "0 \<le> p" "0 < inc" "0 \<le> n" "max n (p + inc) \<le> MaxMoneyCents"
    and live: "h_status h = Some LIVE" "\<not> h_paused h" "u \<noteq> h_sellerId h" "now < h_endAtMs h"
  shows "bid_guard h u (tonumber (chaosNextAcceptedAmount (FormatInt n) (snapshot_of h))) now = None
    \<longleftrightarrow> (0 < c \<longrightarrow> max n (p + inc) \<le> c)"
proof -
  have "chaosNextAcceptedAmount (FormatInt n) (snapshot_of h) = FormatInt (max n (p + inc))"
    using n by (intro next_amount [OF h(1,2)]) auto
  moreover have x: "lua_num (max n (p + inc)) = max n (p + inc)" using n by (intro lua_num_exact) (auto simp: MaxMoneyCents_def)
  moreover have p: "num0 (FormatInt p) = p" using n by (simp add: MaxMoneyCents_def max_def split: if_splits)
  moreover have i: "num0 (FormatInt inc) = inc" using n by (simp add: MaxMoneyCents_def max_def split: if_splits)
  moreover have "required_bid h \<le> max n (p + inc)"
  proof -
    have "price_num h = p" "num0 (h_incrementCents h) = inc" using p i by (simp_all add: price_num_def h)
    then show ?thesis using n required_le [of "max n (p + inc)" h] by simp
  qed
  moreover have "0 < max n (p + inc)" using n by simp
  moreover have "0 < cap_of h \<and> max n (p + inc) > cap_of h \<longleftrightarrow> 0 < c \<and> max n (p + inc) > c"
  proof -
    have "lua_num c < max n (p + inc) \<longleftrightarrow> c < max n (p + inc)"
      using n by (intro lua_num_less_iff) (auto simp: MaxMoneyCents_def)
    moreover have "0 < lua_num c \<longleftrightarrow> 0 < c" by (auto simp: lua_num_pos)
    ultimately show ?thesis by (simp add: cap_of_def h)
  qed
  ultimately show ?thesis using n live by (simp add: bid_guard_None_iff not_less) auto
qed

lemma chaos_rules_valid: "Validate (chaos_rules d) = None"
  by (simp add: chaos_rules_def e2eRules_def Validate_def MaxMoneyCents_def)

text \<open>An auction short enough to end inside the drill is never extended.\<close>

lemma short_drill_fixed: "0 < d \<Longrightarrow> d \<le> 10000 \<Longrightarrow> ExtendWindowSec (chaos_rules d) = 0 \<and> ExtendSec (chaos_rules d) = 0"
  by (simp add: chaos_rules_def e2eRules_def)

lemma poll_status_seen: "poll_status want ps = Some () \<Longrightarrow> (False, Some want) \<in> set ps"
  by (induction want ps rule: poll_status.induct) (auto split: if_splits)

end
