(* ===== verification/Seed.thy ===== *)
theory Seed
  imports ApiLifecycle
begin

text \<open>
  The data of the demonstrations, \<^verbatim>\<open>server/seed.go\<close>: a seller, a buyer, a product and an auction driven to LIVE
  in both stores. Then: a seeding that succeeds leaves the auction open for bids and can be repeated; one that
  fails half-way is not repaired by the next.
\<close>

definition seed_rules :: Rules where
  "seed_rules = \<lparr>Mode = ModeEmpty, StartPriceCents = 10000, IncrementCents = 1000, CapPriceCents = 1000000,
     DurationSec = 3600, ExtendWindowSec = 10, ExtendSec = 10, MaxExtensions = 5, LivePlayUrl = [], LiveStreamKey = []\<rparr>"

definition seed_facts :: string where
  \<open>seed_facts = ''{"facts":[{"field":"category","value":"watch","highRisk":false}],"highRiskFieldsDisclaimer":"High-risk fields are seller statements and are not verified by AI."}''\<close>

text \<open>From the rules to LIVE, as both commands do it. An unexpected code is only logged when \<open>strict\<close> is not
  set. The calls of the database are numbered from \<open>n\<close>.\<close>

definition drive_live ::
  "api_env \<Rightarrow> bool \<Rightarrow> nat \<Rightarrow> aid \<Rightarrow> uid \<Rightarrow> Rules \<Rightarrow> int \<Rightarrow> db \<times> redis \<Rightarrow> unit option \<times> db \<times> redis" where
  "drive_live e strict n aid seller rules durationMs s =
     (case s of (d, r) \<Rightarrow>
        (case FreezeRules (ae_redis e 0) (ae_time e) aid seller rules r of
           (IOErr, r1) \<Rightarrow> (None, d, r1)
         | (IOk c, r1) \<Rightarrow>
             (if strict \<and> c \<noteq> OK_FROZEN then (None, d, r1)
              else (let d1 = snd (UpdateAuctionStatus (ae_db e n) (ae_now e) aid SCHEDULED d) in
                    case StartAuction (ae_redis e 1) (ae_redis e 2) (ae_time e) aid durationMs r1 of
                      (IOErr, r2) \<Rightarrow> (None, d1, r2)
                    | (IOk (c2, endAt), r2) \<Rightarrow>
                        (if strict \<and> c2 \<noteq> OK_LIVE then (None, d1, r2)
                         else (Some (), snd (UpdateAuctionStatus (ae_db e (n + 1)) (ae_now e) aid LIVE d1), r2))))))"

text \<open>A statement that fails ends the command.\<close>

definition and_then :: "db_err option \<times> db \<Rightarrow> redis \<Rightarrow> (db \<times> redis \<Rightarrow> unit option \<times> db \<times> redis) \<Rightarrow> unit option \<times> db \<times> redis" where
  "and_then x r f = (case x of (Some err, d) \<Rightarrow> (None, d, r) | (None, d) \<Rightarrow> f (d, r))"

definition Seed :: "api_env \<Rightarrow> bool \<Rightarrow> db \<times> redis \<Rightarrow> unit option \<times> db \<times> redis" where
  "Seed e opened s =
     (case s of (d, r) \<Rightarrow>
        if \<not> opened then (None, s)
        else (case GetAuction (ae_db e 0) ''auc_demo'' d of
                Inr a \<Rightarrow> (Some (), s)
              | Inl x \<Rightarrow>
                  and_then (UpsertUser (ae_db e 1) ''seller_demo'' ''Demo Seller'' ''seller'' d) r (\<lambda>(d, r).
                  and_then (UpsertUser (ae_db e 2) ''buyer_demo'' ''Demo Buyer'' ''user'' d) r (\<lambda>(d, r).
                  and_then (CreateProduct (ae_db e 3) \<lparr>pr_id = ''prod_demo'', pr_seller = ''seller_demo'', pr_name = ''Vintage Watch'',
                      pr_image = ''https://example.com/watch.jpg'', pr_description = ''Demo item for T1''\<rparr> d) r (\<lambda>(d, r).
                  and_then (CreateAuction (ae_db e 4) (ae_now e) ''auc_demo'' ''prod_demo'' ''seller_demo'' seed_rules True seed_facts d) r
                    (drive_live e False 5 ''auc_demo'' ''seller_demo'' seed_rules 3600000))))))"

definition load_rules :: "int \<Rightarrow> Rules" where
  "load_rules durationSec = \<lparr>Mode = ModeEmpty, StartPriceCents = 100000, IncrementCents = 1, CapPriceCents = 0,
     DurationSec = durationSec, ExtendWindowSec = 0, ExtendSec = 0, MaxExtensions = 0, LivePlayUrl = [], LiveStreamKey = []\<rparr>"

definition load_facts :: string where
  \<open>load_facts = ''{"facts":[]}''\<close>

text \<open>The result is the id that is printed.\<close>

definition SeedLoad :: "api_env \<Rightarrow> bool \<Rightarrow> int \<Rightarrow> int \<Rightarrow> db \<times> redis \<Rightarrow> aid option \<times> db \<times> redis" where
  "SeedLoad e opened nano durationSec s =
     (case s of (d, r) \<Rightarrow>
        if \<not> opened then (None, s)
        else (let dur = (if durationSec \<le> 0 then 3600 else durationSec); suffix = FormatInt nano;
                  seller = ''seller_load_'' @ suffix; prod = ''prod_load_'' @ suffix; aid = ''auc_load_'' @ suffix;
                  (ok, s') = and_then (UpsertUser (ae_db e 0) seller ''Load Seller'' ''seller'' d) r (\<lambda>(d, r).
                    and_then (CreateProduct (ae_db e 1) \<lparr>pr_id = prod, pr_seller = seller, pr_name = ''Load Test Item'',
                        pr_image = ''https://example.com/load.jpg'', pr_description = ''Load test auction''\<rparr> d) r (\<lambda>(d, r).
                    and_then (CreateAuction (ae_db e 2) (ae_now e) aid prod seller (load_rules dur) True load_facts d) r
                      (drive_live e True 3 aid seller (load_rules dur) (wrap64 (dur * 1000)))))
              in (map_option (\<lambda>x. aid) ok, s')))"

section \<open>A seeding that succeeds\<close>

lemma drive_live_fresh:
  assumes "ae_redis e 0 = Answered" "ae_redis e 1 = Answered"
    and "\<not> bad_type (k_state (rd_keys r aid))" "h_status (hash_of (rd_keys r aid)) \<in> {None, Some DRAFT}"
  shows "\<exists>r'. drive_live e strict n aid seller rules dur (d, r) =
      (Some (), snd (UpdateAuctionStatus (ae_db e (n + 1)) (ae_now e) aid LIVE
                  (snd (UpdateAuctionStatus (ae_db e n) (ae_now e) aid SCHEDULED d))), r')
    \<and> hash_of (rd_keys r' aid) = (frozen_hash \<lparr>fr_rules = rules, fr_sellerId = seller\<rparr> (hash_of (rd_keys r aid)))
         \<lparr>h_status := Some LIVE, h_endAtMs := redis_now (ae_time e) + dur\<rparr>
    \<and> zscore (rd_active r') aid = (if ae_redis e 2 = Unreachable then zscore (rd_active r) aid else Some (redis_now (ae_time e) + dur))"
proof -
  have f: "h_status (frozen_hash a h) = Some SCHEDULED" for a h by (simp add: frozen_hash_def Let_def)
  show ?thesis
    using assms by (auto simp: drive_live_def FreezeRules_def eval_def freeze_rules_def StartAuction_def start_auction_def
        put_keys_def set_hash_def TrackActive_def Let_def f)
qed

lemma db_steps [simp]:
  "and_then (None, d) r f = f (d, r)" "and_then (Some x, d) r f = (None, d, r)"
  by (simp_all add: and_then_def)

lemma find_snoc: "find P (xs @ [x]) = (case find P xs of None \<Rightarrow> if P x then Some x else None | Some y \<Rightarrow> Some y)"
  by (induction xs) simp_all

lemma seed_prepares:
  assumes up: "\<And>i. ae_db e i"
    and new: "auction_by ''auc_demo'' d = None" "auction_rules d ''auc_demo'' = None"
      "find (\<lambda>p. pr_id p = ''prod_demo'') (products d) = None"
  obtains d3 a where "Seed e True (d, r) = drive_live e False 5 ''auc_demo'' ''seller_demo'' seed_rules 3600000 (d3, r)"
    "auction_by ''auc_demo'' d3 = Some a" "ar_id a = ''auc_demo''" "ar_seller a = ''seller_demo''" "ar_status a = DRAFT"
    "auction_rules d3 ''auc_demo'' = Some (seed_rules\<lparr>Mode := ENGLISH\<rparr>)"
proof -
  define d1 where "d1 = snd (UpsertUser True ''buyer_demo'' ''Demo Buyer'' ''user''
      (snd (UpsertUser True ''seller_demo'' ''Demo Seller'' ''seller'' d)))"
  define p where "p = \<lparr>pr_id = ''prod_demo'', pr_seller = ''seller_demo'', pr_name = ''Vintage Watch'',
      pr_image = ''https://example.com/watch.jpg'', pr_description = ''Demo item for T1''\<rparr>"
  define d2 where "d2 = d1\<lparr>products := products d1 @ [p]\<rparr>"
  define d3 where "d3 = snd (CreateAuction True (ae_now e) ''auc_demo'' ''prod_demo'' ''seller_demo'' seed_rules True seed_facts d2)"
  have same: "auctions d1 = auctions d" "auction_rules d1 = auction_rules d" "products d1 = products d"
    by (simp_all add: d1_def UpsertUser_def)
  have np: "\<not> (\<exists>q\<in>set (products d1). pr_id q = pr_id p)"
    using new(3) by (auto simp: same p_def find_None_iff)
  have prod: "CreateProduct True p d1 = (None, d2)"
    by (simp only: CreateProduct_def np d2_def not_True_eq_False simp_thms if_False)
  have fp: "find (\<lambda>p. pr_id p = ''prod_demo'') (products d2) = Some p" "pr_seller p = ''seller_demo''"
    using new(3) by (simp_all add: d2_def same find_snoc p_def)
  have cr: "CreateAuction True (ae_now e) ''auc_demo'' ''prod_demo'' ''seller_demo'' seed_rules True seed_facts d2 = (None, d3)"
    using new(1,2) fp by (simp add: CreateAuction_def d3_def auction_by_def d2_def same)
  obtain a where row: "auction_by ''auc_demo'' d3 = Some a" "ar_id a = ''auc_demo''" "ar_seller a = ''seller_demo''" "ar_status a = DRAFT"
    using new(1,2) fp by (simp add: d3_def CreateAuction_def auction_by_def d2_def same find_snoc)
  have rules: "auction_rules d3 ''auc_demo'' = Some (seed_rules\<lparr>Mode := ENGLISH\<rparr>)"
    using new(1,2) fp by (simp add: d3_def CreateAuction_def auction_by_def d2_def same seed_rules_def)
  have "Seed e True (d, r) = drive_live e False 5 ''auc_demo'' ''seller_demo'' seed_rules 3600000 (d3, r)"
    using new(1) up prod cr by (simp add: Seed_def GetAuction_def UpsertUser_def d1_def p_def)
  then show ?thesis using row rules by (rule that)
qed

text \<open>On stores that answer and know nothing of the demonstration, the auction is LIVE in both afterwards, with the
  rules frozen and the close an hour ahead.\<close>

theorem seed_live:
  assumes up: "\<And>i. ae_db e i" "\<And>i. ae_redis e i = Answered"
    and new: "auction_by ''auc_demo'' d = None" "auction_rules d ''auc_demo'' = None"
      "find (\<lambda>p. pr_id p = ''prod_demo'') (products d) = None"
    and room: "\<not> bad_type (k_state (rd_keys r ''auc_demo''))" "h_status (hash_of (rd_keys r ''auc_demo'')) \<in> {None, Some DRAFT}"
  shows "\<exists>d' r' a. Seed e True (d, r) = (Some (), d', r') \<and> auction_by ''auc_demo'' d' = Some a \<and> ar_status a = LIVE
    \<and> ar_seller a = ''seller_demo'' \<and> auction_rules d' ''auc_demo'' = Some (seed_rules\<lparr>Mode := ENGLISH\<rparr>)
    \<and> h_status (hash_of (rd_keys r' ''auc_demo'')) = Some LIVE
    \<and> h_endAtMs (hash_of (rd_keys r' ''auc_demo'')) = redis_now (ae_time e) + 3600000
    \<and> zscore (rd_active r') ''auc_demo'' = Some (redis_now (ae_time e) + 3600000)"
proof -
  obtain d3 a where s: "Seed e True (d, r) = drive_live e False 5 ''auc_demo'' ''seller_demo'' seed_rules 3600000 (d3, r)"
    "auction_by ''auc_demo'' d3 = Some a" "ar_id a = ''auc_demo''" "ar_seller a = ''seller_demo''" "ar_status a = DRAFT"
    "auction_rules d3 ''auc_demo'' = Some (seed_rules\<lparr>Mode := ENGLISH\<rparr>)"
    by (rule seed_prepares [OF up(1) new])
  obtain r' where dr: "drive_live e False 5 ''auc_demo'' ''seller_demo'' seed_rules 3600000 (d3, r) =
      (Some (), snd (UpdateAuctionStatus True (ae_now e) ''auc_demo'' LIVE
                  (snd (UpdateAuctionStatus True (ae_now e) ''auc_demo'' SCHEDULED d3))), r')"
      "h_status (hash_of (rd_keys r' ''auc_demo'')) = Some LIVE"
      "h_endAtMs (hash_of (rd_keys r' ''auc_demo'')) = redis_now (ae_time e) + 3600000"
      "zscore (rd_active r') ''auc_demo'' = Some (redis_now (ae_time e) + 3600000)"
    using drive_live_fresh [OF up(2) up(2) room, of False 5 "''seller_demo''" seed_rules 3600000 d3] up by auto
  show ?thesis unfolding s(1) dr(1) using s dr by (simp add: auction_by_status frame_simps)
qed

section \<open>Seeding again\<close>

lemma status_known: "auction_by i (snd (UpdateAuctionStatus up now aid st d)) = None \<longleftrightarrow> auction_by i d = None"
  using auction_by_status [of i now aid st d] by (cases up) (simp_all add: UpdateAuctionStatus_def)

lemma drive_live_known:
  "drive_live e strict n aid seller rules dur (d, r) = (x, d', r') \<Longrightarrow> auction_by i d' = None \<longleftrightarrow> auction_by i d = None"
  by (auto simp: drive_live_def Let_def status_known split: prod.splits io.splits if_splits)

lemma created_known: "CreateAuction up now i p s r fc cf d = (None, d') \<Longrightarrow> auction_by i d' \<noteq> None"
  by (auto simp: CreateAuction_def auction_by_def find_snoc split: if_splits option.splits)

lemma seeded_known: "Seed e opened s = (Some (), d', r') \<Longrightarrow> auction_by ''auc_demo'' d' \<noteq> None"
  by (auto simp: Seed_def and_then_def GetAuction_def split: prod.splits option.splits if_splits sum.splits
      dest!: drive_live_known [of e _ _ _ _ _ _ _ _ _ _ _ "''auc_demo''"] created_known)

text \<open>After a seeding that succeeded another one changes nothing.\<close>

theorem seed_repeat:
  assumes "Seed e opened s = (Some (), d', r')" "ae_db e2 0"
  shows "Seed e2 True (d', r') = (Some (), d', r')"
  using seeded_known [OF assms(1)] assms(2) by (auto simp: Seed_def GetAuction_def)

text \<open>When Redis is away the first time, the row stays in DRAFT, and every later seeding says that there is
  nothing to do.\<close>

theorem seed_half:
  assumes up: "\<And>i. ae_db e i" and down: "ae_redis e 0 = Unreachable"
    and new: "auction_by ''auc_demo'' d = None" "auction_rules d ''auc_demo'' = None"
      "find (\<lambda>p. pr_id p = ''prod_demo'') (products d) = None"
    and later: "ae_db e2 0"
  shows "\<exists>d' a. Seed e True (d, r) = (None, d', r) \<and> auction_by ''auc_demo'' d' = Some a \<and> ar_status a = DRAFT
    \<and> Seed e2 True (d', r) = (Some (), d', r)"
proof -
  obtain d3 a where s: "Seed e True (d, r) = drive_live e False 5 ''auc_demo'' ''seller_demo'' seed_rules 3600000 (d3, r)"
    "auction_by ''auc_demo'' d3 = Some a" "ar_status a = DRAFT"
    by (rule seed_prepares [OF up new]) blast
  have "drive_live e False 5 ''auc_demo'' ''seller_demo'' seed_rules 3600000 (d3, r) = (None, d3, r)"
    using down by (simp add: drive_live_def FreezeRules_def eval_def Let_def)
  with s later show ?thesis by (simp add: Seed_def GetAuction_def)
qed

end
