(* ===== verification/Load.thy ===== *)
theory Load
  imports Chaos Metrics Ascending
begin

text \<open>
  The measuring clients: \<^verbatim>\<open>server/load.go\<close> and \<^verbatim>\<open>perf.go\<close>. A bidder is a function of what its
  connection delivers and of how far the shared counter of amounts has moved in between. Durations are nanoseconds.
  Then: what the counters of a run add up to, what a bidder does after a read that timed out, what the probe sees of a
  join, and what a passed run says.
\<close>

section \<open>Settings\<close>

definition envInt :: "(string \<Rightarrow> string) \<Rightarrow> string \<Rightarrow> int \<Rightarrow> int" where
  "envInt env key def =
     (if env key = [] then def else (case ParseInt (env key) of POk n \<Rightarrow> if n > 0 then n else def | _ \<Rightarrow> def))"

definition envIntAllowZero :: "(string \<Rightarrow> string) \<Rightarrow> string \<Rightarrow> int \<Rightarrow> int" where
  "envIntAllowZero env key def =
     (if env key = [] then def else (case ParseInt (env key) of POk n \<Rightarrow> if n \<ge> 0 then n else def | _ \<Rightarrow> def))"

definition envBool :: "(string \<Rightarrow> string) \<Rightarrow> string \<Rightarrow> bool \<Rightarrow> bool" where
  "envBool env key def =
     (let v = ToLower (TrimSpace (env key)) in
      if v \<in> {''1'', ''true'', ''yes'', ''y'', ''on''} then True
      else if v \<in> {''0'', ''false'', ''no'', ''n'', ''off''} then False
      else def)"

record loadConfig =
  lc_Observers :: int
  lc_Bidders :: int
  lc_Duration :: int
  lc_BidInterval :: int
  lc_AckP95Budget :: int
  lc_BroadcastP95Budget :: int
  lc_CatchupP95Budget :: int
  lc_HammerP95Budget :: int
  lc_ScriptP99Budget :: int
  lc_HandlerP99Budget :: int
  lc_AuctionDuration :: int
  lc_ObserverStaggerMs :: int
  lc_AuctionID :: aid
  lc_StartAmountCents :: int
  lc_BidsPerBidder :: int
  lc_RetryTooLow :: bool
  lc_BidMaxAttempts :: int
  lc_ExpectRoomStatePatch :: bool
  lc_VerifyObserverCatchup :: bool

definition loadStartCents :: int where "loadStartCents = 100000"

definition defaultRoomStatePatchMinViewers :: int where "defaultRoomStatePatchMinViewers = 1000"

definition loadConfigFromEnv :: "(string \<Rightarrow> string) \<Rightarrow> loadConfig" where
  "loadConfigFromEnv env =
     (let observers = envIntAllowZero env ''LOAD_OBSERVERS'' 500;
          ms = (\<lambda>key def. wrap64 (envInt env key def * 1000000)); sec = (\<lambda>key def. wrap64 (envInt env key def * 1000000000))
      in \<lparr>lc_Observers = observers, lc_Bidders = envInt env ''LOAD_BIDDERS'' 50, lc_Duration = sec ''LOAD_DURATION_SEC'' 60,
          lc_BidInterval = ms ''LOAD_BID_INTERVAL_MS'' 100, lc_AckP95Budget = ms ''LOAD_ACK_P95_MS'' 80,
          lc_BroadcastP95Budget = ms ''LOAD_BROADCAST_P95_MS'' 150, lc_CatchupP95Budget = ms ''LOAD_CATCHUP_P95_MS'' 1000,
          lc_HammerP95Budget = ms ''LOAD_HAMMER_P95_MS'' 500, lc_ScriptP99Budget = ms ''LOAD_SCRIPT_P99_MS'' 5,
          lc_HandlerP99Budget = ms ''LOAD_HANDLER_P99_MS'' 5, lc_AuctionDuration = sec ''LOAD_AUCTION_DUR_SEC'' 3600,
          lc_ObserverStaggerMs = envInt env ''LOAD_OBSERVER_STAGGER_MS'' 10,
          lc_AuctionID = TrimSpace (env ''LOAD_AUCTION_ID''), lc_StartAmountCents = envInt env ''LOAD_START_CENTS'' loadStartCents,
          lc_BidsPerBidder = envInt env ''LOAD_BIDS_PER_BIDDER'' 0, lc_RetryTooLow = envBool env ''LOAD_RETRY_TOO_LOW'' False,
          lc_BidMaxAttempts = envInt env ''LOAD_BID_MAX_ATTEMPTS'' 25,
          lc_ExpectRoomStatePatch = envBool env ''LOAD_EXPECT_ROOM_STATE_PATCH''
            (defaultRoomStatePatchMinViewers > 0 \<and> observers \<ge> defaultRoomStatePatchMinViewers),
          lc_VerifyObserverCatchup = envBool env ''LOAD_VERIFY_OBSERVER_CATCHUP'' True\<rparr>)"

section \<open>The auctions that are measured\<close>

definition stream_rules :: "int \<Rightarrow> int \<Rightarrow> Rules" where
  "stream_rules start durationSec = \<lparr>Mode = ModeEmpty, StartPriceCents = start, IncrementCents = 1, CapPriceCents = 0,
     DurationSec = durationSec, ExtendWindowSec = 0, ExtendSec = 0, MaxExtensions = 0, LivePlayUrl = [], LiveStreamKey = []\<rparr>"

definition loadSetupAuction :: "stack \<Rightarrow> loadConfig \<Rightarrow> aid option" where
  "loadSetupAuction k cfg = do {
     seller \<leftarrow> st_login k ''Load Seller'' ''seller'';
     pid \<leftarrow> st_product k (se_Token seller);
     aid \<leftarrow> createAuction k (se_Token seller) pid (stream_rules loadStartCents (lc_AuctionDuration cfg div 1000000000));
     _ \<leftarrow> postExpectCode (st_freeze k aid) OK_FROZEN;
     _ \<leftarrow> postExpectCode (st_start k aid (lc_AuctionDuration cfg div 1000000)) OK_LIVE;
     Some aid }"

definition perfSetupAuction :: "stack \<Rightarrow> aid option" where
  "perfSetupAuction k = do {
     seller \<leftarrow> st_login k ''Perf Seller'' ''seller'';
     pid \<leftarrow> st_product k (se_Token seller);
     aid \<leftarrow> createAuction k (se_Token seller) pid (stream_rules 10000 3600);
     _ \<leftarrow> postExpectCode (st_freeze k aid) OK_FROZEN;
     _ \<leftarrow> postExpectCode (st_start k aid 3600000) OK_LIVE;
     Some aid }"

section \<open>A bidder\<close>

definition bidAmount :: "Envelope \<Rightarrow> money" where
  "bidAmount e = (case bid_of e of None \<Rightarrow> [] | Some d \<Rightarrow> bid_amountCents d)"

datatype bidOutcome = BidTaken | BidRefused "code option" | BidUnread

text \<open>A failed read stays: gorilla's connection answers every later read with the same error.\<close>

fun waitForBidOutcome :: "money \<Rightarrow> recv list \<Rightarrow> bidOutcome \<times> recv list" where
  "waitForBidOutcome amount (Frame e # fs) =
     (if en_Type e = BID_ACCEPTED then
        (if bidAmount e = amount then (BidTaken, fs) else waitForBidOutcome amount fs)
      else if en_Type e = BID_REJECTED
      then (BidRefused (case en_Data e of DRejected c \<Rightarrow> Some c | _ \<Rightarrow> None), fs)
      else waitForBidOutcome amount fs)"
| "waitForBidOutcome amount (ReadFails # fs) = (BidUnread, ReadFails # fs)"
| "waitForBidOutcome amount [] = (BidUnread, [ReadFails])"

text \<open>The shared counters, the amount counter among them, and the bidder's own attempts and connection.\<close>

record load_run =
  lr_amount :: int
  lr_sent :: nat
  lr_acked :: nat
  lr_rejected :: nat
  lr_errors :: nat
  lr_attempts :: nat
  lr_frames :: "recv list"

text \<open>What happens around the \<open>i\<close>-th attempt: the amounts other bidders took, and whether the write succeeds.\<close>

type_synonym attempts_env = "nat \<Rightarrow> int \<times> bool"

fun try_bids :: "nat \<Rightarrow> bool \<Rightarrow> attempts_env \<Rightarrow> load_run \<Rightarrow> (bool \<times> bool) \<times> load_run" where
  "try_bids 0 retry en s = ((False, True), s\<lparr>lr_errors := lr_errors s + 1\<rparr>)"
| "try_bids (Suc n) retry en s =
     (let (others, wrote) = en (lr_attempts s);
          amt = wrap64 (lr_amount s + others + 1);
          s1 = s\<lparr>lr_amount := amt, lr_attempts := lr_attempts s + 1\<rparr>
      in if \<not> wrote then ((False, False), s1\<lparr>lr_errors := lr_errors s + 1\<rparr>)
         else (let (out, fs) = waitForBidOutcome (FormatInt amt) (lr_frames s);
                   s2 = s1\<lparr>lr_sent := lr_sent s + 1, lr_frames := fs\<rparr>
               in case out of
                    BidUnread \<Rightarrow> ((False, True), s2\<lparr>lr_errors := lr_errors s + 1\<rparr>)
                  | BidTaken \<Rightarrow> ((True, True), s2\<lparr>lr_acked := lr_acked s + 1\<rparr>)
                  | BidRefused c \<Rightarrow>
                      (let s3 = s2\<lparr>lr_rejected := lr_rejected s + 1\<rparr>
                       in if \<not> retry \<or> c \<noteq> Some ERR_TOO_LOW then ((False, True), s3\<lparr>lr_errors := lr_errors s + 1\<rparr>)
                          else try_bids n retry en s3)))"

definition placeLoadBid :: "loadConfig \<Rightarrow> attempts_env \<Rightarrow> load_run \<Rightarrow> (bool \<times> bool) \<times> load_run" where
  "placeLoadBid cfg en s =
     try_bids (if lc_RetryTooLow cfg then nat (lc_BidMaxAttempts cfg) else 1) (lc_RetryTooLow cfg) en s"

text \<open>\<open>ticks\<close> is how often the ticker fires before the run ends.\<close>

fun bidder_loop :: "nat \<Rightarrow> loadConfig \<Rightarrow> attempts_env \<Rightarrow> int \<Rightarrow> load_run \<Rightarrow> load_run" where
  "bidder_loop 0 cfg en acceptedLocal s = s"
| "bidder_loop (Suc ticks) cfg en acceptedLocal s =
     (if lc_BidsPerBidder cfg > 0 \<and> acceptedLocal \<ge> lc_BidsPerBidder cfg then s
      else (let ((accepted, keepAlive), s') = placeLoadBid cfg en s; n = acceptedLocal + (if accepted then 1 else 0)
            in if \<not> keepAlive then s'
               else if lc_BidsPerBidder cfg > 0 \<and> n \<ge> lc_BidsPerBidder cfg then s'
               else bidder_loop ticks cfg en n s'))"

text \<open>The dial errors of bidders and observers are counted together.\<close>

definition runBidder :: "nat \<Rightarrow> loadConfig \<Rightarrow> attempts_env \<Rightarrow> recv list option \<Rightarrow> nat \<times> load_run \<Rightarrow> nat \<times> load_run" where
  "runBidder ticks cfg en conn st =
     (case (conn, st) of
        (None, dialErr, s) \<Rightarrow> (dialErr + 1, s)
      | (Some fs, dialErr, s) \<Rightarrow> (dialErr, bidder_loop ticks cfg en 0 (s\<lparr>lr_attempts := 0, lr_frames := fs\<rparr>)))"

section \<open>Observers\<close>

datatype read_error = NetClosed | CloseCode int | OtherReadError

fun isBenignClose :: "read_error \<Rightarrow> bool" where
  "isBenignClose NetClosed = True"
| "isBenignClose (CloseCode c) = (c \<in> {1000, 1001, 1005, 1006})"
| "isBenignClose OtherReadError = False"

text \<open>\<^term>\<open>None\<close> is a frame that does not parse.\<close>

definition loadFrameSeq :: "Envelope option \<Rightarrow> int" where
  "loadFrameSeq raw =
     (case raw of
        None \<Rightarrow> 0
      | Some e \<Rightarrow>
          (if en_Seq e > 0 then en_Seq e
           else (case en_Data e of
                   DEvent j \<Rightarrow> (if is_struct j then (case jint Jseq j of Some n \<Rightarrow> n | None \<Rightarrow> 0) else 0)
                 | DBid d \<Rightarrow> bid_seq d
                 | DSnapshot d \<Rightarrow> sn_Seq d
                 | DPatch d \<Rightarrow> pa_Seq d
                 | _ \<Rightarrow> 0)))"

record loadStats =
  ls_observerFrame :: nat
  ls_observerErr :: nat
  ls_dialErr :: nat
  ls_observerLastSeq :: "int list"

definition recordObserverLastSeq :: "int \<Rightarrow> loadStats \<Rightarrow> loadStats" where
  "recordObserverLastSeq seq st = st\<lparr>ls_observerLastSeq := ls_observerLastSeq st @ [seq]\<rparr>"

text \<open>An observer that is connected reads frames until a read fails, after the run (\<open>over\<close>) or before.\<close>

definition runObserver :: "((Envelope option) list \<times> bool \<times> read_error) option \<Rightarrow> loadStats \<Rightarrow> loadStats" where
  "runObserver conn st =
     (case conn of
        None \<Rightarrow> st\<lparr>ls_dialErr := ls_dialErr st + 1\<rparr>
      | Some (raws, over, err) \<Rightarrow>
          recordObserverLastSeq (fold (\<lambda>raw lastSeq. if loadFrameSeq raw > lastSeq then loadFrameSeq raw else lastSeq) raws 0)
            (st\<lparr>ls_observerFrame := ls_observerFrame st + length raws,
                ls_observerErr := ls_observerErr st + (if over \<or> isBenignClose err then 0 else 1)\<rparr>))"

record observerSnapshot =
  os_Frames :: nat
  os_Errors :: nat
  os_DialErrs :: nat
  os_SeqSamples :: nat
  os_LastSeqMin :: int
  os_LastSeqMax :: int

definition observerSnapshot_of :: "loadStats \<Rightarrow> observerSnapshot" where
  "observerSnapshot_of st =
     (let (mn, mx) = (case ls_observerLastSeq st of
            [] \<Rightarrow> (0, 0)
          | q # qs \<Rightarrow> fold (\<lambda>seq (mn, mx). (if seq < mn then seq else mn, if seq > mx then seq else mx)) qs (q, q))
      in \<lparr>os_Frames = ls_observerFrame st, os_Errors = ls_observerErr st, os_DialErrs = ls_dialErr st,
          os_SeqSamples = length (ls_observerLastSeq st), os_LastSeqMin = mn, os_LastSeqMax = mx\<rparr>)"

section \<open>The probe of the catch-up\<close>

text \<open>Frames before the snapshot are counted.\<close>

fun dialJoinSnapshot :: "nat \<Rightarrow> recv list \<Rightarrow> (RoomSnapshotData \<times> nat) option" where
  "dialJoinSnapshot replayed (Frame e # fs) =
     (if en_Type e \<noteq> ROOM_SNAPSHOT then dialJoinSnapshot (replayed + 1) fs
      else (case en_Data e of DSnapshot s \<Rightarrow> Some (s, replayed) | _ \<Rightarrow> None))"
| "dialJoinSnapshot replayed fs = None"

record loadCatchupProbe =
  cp_LastSeq :: int
  cp_SnapshotSeq :: int
  cp_ReplayFrames :: nat
  cp_OK :: bool
  cp_Error :: bool

definition no_probe :: "int \<Rightarrow> loadCatchupProbe" where
  "no_probe lastSeq = \<lparr>cp_LastSeq = lastSeq, cp_SnapshotSeq = 0, cp_ReplayFrames = 0, cp_OK = False, cp_Error = False\<rparr>"

definition probeLoadObserverCatchup :: "recv list option \<Rightarrow> int \<Rightarrow> int \<Rightarrow> loadCatchupProbe" where
  "probeLoadObserverCatchup conn lastSeq finalSeq =
     (case conn of
        None \<Rightarrow> (no_probe lastSeq)\<lparr>cp_Error := True\<rparr>
      | Some fs \<Rightarrow>
          (case dialJoinSnapshot 0 fs of
             None \<Rightarrow> (no_probe lastSeq)\<lparr>cp_Error := True\<rparr>
           | Some (snap, n) \<Rightarrow>
               (no_probe lastSeq)\<lparr>cp_SnapshotSeq := sn_Seq snap, cp_ReplayFrames := n, cp_OK := sn_Seq snap \<ge> finalSeq\<rparr>))"

section \<open>The report\<close>

record loadReport =
  lp_Config :: loadConfig
  lp_Pre :: MetricsSnapshot
  lp_Post :: MetricsSnapshot
  lp_FinalSeq :: int
  lp_Observer :: observerSnapshot
  lp_Sent :: nat
  lp_Acked :: nat
  lp_Probe :: loadCatchupProbe

datatype breach =
  NoAckSamples | NoFanoutSamples | AckSlow | BroadcastSlow | PatchSlow | NoPatches | NoPatchBids | HammerSlow
| CatchupSlow | ScriptSlow | HandlerSlow | ReadErrors | DialErrors | NoSeqSamples | FewSeqSamples | ProbeFailed
| ProbeBehind | SeqGaps | NothingAcked | FewAccepted

text \<open>The budgets are milliseconds in the code; both sides are the same durations here.\<close>

definition catchup_breaches :: "loadReport \<Rightarrow> breach list" where
  "catchup_breaches r =
     (let o1 = lp_Observer r; connected = max 0 (lc_Observers (lp_Config r) - int (os_DialErrs o1)) in
      if os_SeqSamples o1 = 0 then [NoSeqSamples]
      else if int (os_SeqSamples o1) < connected then [FewSeqSamples]
      else if cp_Error (lp_Probe r) then [ProbeFailed]
      else if \<not> cp_OK (lp_Probe r) \<or> cp_SnapshotSeq (lp_Probe r) < lp_FinalSeq r then [ProbeBehind] else [])"

definition breaches :: "loadReport \<Rightarrow> breach list" where
  "breaches r =
     (let c = lp_Config r; post = lp_Post r; pre = lp_Pre r; o1 = lp_Observer r; when = (\<lambda>b x. if b then [x] else []) in
      when (hs_Count (sp_Ack post) = 0) NoAckSamples
      @ when (hs_Count (sp_Broadcast post) = 0 \<and> hs_Count (sp_RoomStatePatch post) = 0) NoFanoutSamples
      @ when (hs_P95 (sp_Ack post) > lc_AckP95Budget c) AckSlow
      @ when (hs_P95 (sp_Broadcast post) > lc_BroadcastP95Budget c) BroadcastSlow
      @ when (hs_P95 (sp_RoomStatePatch post) > lc_BroadcastP95Budget c) PatchSlow
      @ when (lc_ExpectRoomStatePatch c \<and> sp_RoomStatePatches post - sp_RoomStatePatches pre \<le> 0) NoPatches
      @ when (lc_ExpectRoomStatePatch c \<and> sp_RoomStatePatchBids post - sp_RoomStatePatchBids pre \<le> 0) NoPatchBids
      @ when (hs_Count (sp_Hammer post) > 0 \<and> hs_P95 (sp_Hammer post) > lc_HammerP95Budget c) HammerSlow
      @ when (hs_Count (sp_Catchup post) > 0 \<and> hs_P95 (sp_Catchup post) > lc_CatchupP95Budget c) CatchupSlow
      @ when (hs_P99 (sp_ScriptTime post) > lc_ScriptP99Budget c) ScriptSlow
      @ when (hs_Count (sp_HandlerOverhead post) > 0 \<and> hs_P99 (sp_HandlerOverhead post) > lc_HandlerP99Budget c) HandlerSlow
      @ when (os_Errors o1 > 0) ReadErrors
      @ when (os_DialErrs o1 > 0) DialErrors
      @ (if lc_VerifyObserverCatchup c \<and> lc_Observers c > 0 then catchup_breaches r else [])
      @ when (sp_SeqGap post - sp_SeqGap pre > 0) SeqGaps
      @ when (lp_Sent r > 0 \<and> lp_Acked r = 0) NothingAcked
      @ when (lc_BidsPerBidder c > 0 \<and> int (lp_Acked r) < lc_Bidders c * lc_BidsPerBidder c) FewAccepted)"

section \<open>The smoke test\<close>

fun waitForBidAccepted :: "money \<Rightarrow> recv list \<Rightarrow> recv list option" where
  "waitForBidAccepted amount (Frame e # fs) =
     (if en_Type e = BID_ACCEPTED \<and> bidAmount e = amount then Some fs else waitForBidAccepted amount fs)"
| "waitForBidAccepted amount fs = None"

text \<open>One bid after the other, from the \<open>i\<close>-th of \<open>n\<close>: its write, its answer, its round trip.\<close>

fun perf_bids :: "nat \<Rightarrow> nat \<Rightarrow> (bool \<times> int) list \<Rightarrow> recv list \<Rightarrow> int list option" where
  "perf_bids 0 i env fs = Some []"
| "perf_bids (Suc n) i [] fs = None"
| "perf_bids (Suc n) i ((wrote, rtt) # env) fs =
     (if \<not> wrote then None
      else (case waitForBidAccepted (FormatInt (10000 + int i + 1)) fs of
              None \<Rightarrow> None
            | Some fs' \<Rightarrow> map_option ((#) rtt) (perf_bids n (i + 1) env fs')))"

definition perf_rank :: "nat \<Rightarrow> nat \<Rightarrow> nat" where
  "perf_rank n p =
     (let idx = (p * n + 99) div 100; idx1 = (if idx < 1 then 1 else idx); idx2 = (if idx1 > n then n else idx1)
      in idx2 - 1)"

definition percentiles :: "int list \<Rightarrow> int \<times> int \<times> int" where
  "percentiles xs =
     (if xs = [] then (0, 0, 0)
      else (let s = sort xs; n = length s in (s ! perf_rank n 50, s ! perf_rank n 95, s ! perf_rank n 99)))"

text \<open>\<open>sends\<close> are the bids with their round trips, \<open>bcast\<close> the times of the observer.\<close>

definition RunPerfSmoke :: "stack \<Rightarrow> nat \<Rightarrow> int \<Rightarrow> int \<Rightarrow> (bool \<times> int) list \<Rightarrow> int list \<Rightarrow> unit option" where
  "RunPerfSmoke k n ackBudget bcastBudget sends bcast = do {
     aid \<leftarrow> perfSetupAuction k;
     buyer \<leftarrow> st_login k ''Perf Buyer'' ''user'';
     observer \<leftarrow> dialAndJoin k 0 (se_Token buyer) aid;
     bidder \<leftarrow> dialAndJoin k 1 (se_Token buyer) aid;
     ack \<leftarrow> perf_bids n 0 sends bidder;
     check (length ack \<ge> n \<and> fst (snd (percentiles ack)) \<le> ackBudget
       \<and> length bcast \<ge> n \<and> fst (snd (percentiles bcast)) \<le> bcastBudget) }"

section \<open>The load run\<close>

text \<open>What the run meets: the metrics before and after, what each observer and bidder gets, the final snapshot and the
  connection of the probe.\<close>

record load_world =
  lw_pre :: "MetricsSnapshot option"
  lw_post :: "MetricsSnapshot option"
  lw_observers :: "((Envelope option) list \<times> bool \<times> read_error) option list"
  lw_bidders :: "(nat \<times> attempts_env \<times> recv list option) list"
  lw_final :: "RoomSnapshotData option"
  lw_probe :: "recv list option"

definition no_stats :: loadStats where
  "no_stats = \<lparr>ls_observerFrame = 0, ls_observerErr = 0, ls_dialErr = 0, ls_observerLastSeq = []\<rparr>"

definition no_run :: "int \<Rightarrow> load_run" where
  "no_run start = \<lparr>lr_amount = start, lr_sent = 0, lr_acked = 0, lr_rejected = 0, lr_errors = 0, lr_attempts = 0, lr_frames = []\<rparr>"

text \<open>One bidder after the other: the counters are sums, and what the others do to the amount is in \<open>attempts_env\<close>.\<close>

definition load_report :: "loadConfig \<Rightarrow> load_world \<Rightarrow> MetricsSnapshot \<Rightarrow> MetricsSnapshot \<Rightarrow> RoomSnapshotData \<Rightarrow> loadReport" where
  "load_report cfg w pre post final =
     (let st = fold runObserver (lw_observers w) no_stats;
          (dialErr, run) = fold (\<lambda>(ticks, en, conn). runBidder ticks cfg en conn) (lw_bidders w) (ls_dialErr st, no_run (lc_StartAmountCents cfg));
          o1 = observerSnapshot_of (st\<lparr>ls_dialErr := dialErr\<rparr>)
      in \<lparr>lp_Config = cfg, lp_Pre = pre, lp_Post = post, lp_FinalSeq = sn_Seq final, lp_Observer = o1,
          lp_Sent = lr_sent run, lp_Acked = lr_acked run,
          lp_Probe = (if lc_VerifyObserverCatchup cfg \<and> os_SeqSamples o1 > 0
                      then probeLoadObserverCatchup (lw_probe w) (os_LastSeqMin o1) (sn_Seq final)
                      else no_probe (os_LastSeqMin o1))\<rparr>)"

definition RunLoad :: "stack \<Rightarrow> loadConfig \<Rightarrow> load_world \<Rightarrow> aid option" where
  "RunLoad k cfg w = do {
     aid \<leftarrow> (if lc_AuctionID cfg = [] then loadSetupAuction k cfg else Some (lc_AuctionID cfg));
     pre \<leftarrow> lw_pre w;
     observer \<leftarrow> st_login k ''Load Observer'' ''user'';
     _ \<leftarrow> check (list_all (\<lambda>i. st_login k (''Load Bidder '' @ FormatInt i) ''user'' \<noteq> None) [0..lc_Bidders cfg - 1]);
     post \<leftarrow> lw_post w;
     final \<leftarrow> lw_final w;
     _ \<leftarrow> check (breaches (load_report cfg w pre post final) = []);
     Some aid }"

section \<open>What the counters add up to\<close>

definition counted :: "load_run \<Rightarrow> bool" where
  "counted s \<longleftrightarrow> lr_acked s + lr_rejected s \<le> lr_sent s \<and> lr_sent s \<le> lr_acked s + lr_rejected s + lr_errors s"

lemma try_bids_counted: "counted s \<Longrightarrow> counted (snd (try_bids n retry en s))"
proof (induction n arbitrary: s)
  case (Suc n)
  obtain others wrote where en: "en (lr_attempts s) = (others, wrote)" by (rule prod.exhaust)
  obtain out fs where w: "waitForBidOutcome (FormatInt (wrap64 (lr_amount s + others + 1))) (lr_frames s) = (out, fs)"
    by (rule prod.exhaust)
  have c: "lr_acked s + lr_rejected s \<le> lr_sent s" "lr_sent s \<le> lr_acked s + lr_rejected s + lr_errors s"
    using Suc.prems by (simp_all add: counted_def)
  show ?case
  proof (cases "wrote \<and> (\<exists>x. out = BidRefused x)")
    case True
    then obtain x where x: "wrote" "out = BidRefused x" by blast
    let ?s3 = "s\<lparr>lr_amount := wrap64 (lr_amount s + others + 1), lr_attempts := lr_attempts s + 1,
      lr_sent := lr_sent s + 1, lr_frames := fs, lr_rejected := lr_rejected s + 1\<rparr>"
    have e: "snd (try_bids (Suc n) retry en s) = (if \<not> retry \<or> x \<noteq> Some ERR_TOO_LOW then ?s3\<lparr>lr_errors := lr_errors s + 1\<rparr>
        else snd (try_bids n retry en ?s3))"
      by (simp add: en w x Let_def)
    have "counted ?s3" "counted (?s3\<lparr>lr_errors := lr_errors s + 1\<rparr>)" using c by (simp_all add: counted_def)
    with Suc.IH [of ?s3] show ?thesis unfolding e by (cases "\<not> retry \<or> x \<noteq> Some ERR_TOO_LOW") (simp_all only: if_True if_False simp_thms)
  next
    case False
    then show ?thesis using c by (cases wrote; cases out) (simp_all add: en w counted_def)
  qed
qed (simp add: counted_def)

text \<open>A tick, as what it returns and what it leaves.\<close>

lemma bidder_tick:
  "bidder_loop (Suc ticks) cfg en n s = s
   \<or> bidder_loop (Suc ticks) cfg en n s = snd (placeLoadBid cfg en s)
   \<or> (\<exists>m. bidder_loop (Suc ticks) cfg en n s = bidder_loop ticks cfg en m (snd (placeLoadBid cfg en s)))"
proof -
  obtain acc keep s' where p: "placeLoadBid cfg en s = ((acc, keep), s')" by (metis prod.exhaust)
  show ?thesis by (auto simp: p Let_def)
qed

lemma bidder_counted: "counted s \<Longrightarrow> counted (bidder_loop ticks cfg en n s)"
proof (induction ticks arbitrary: n s)
  case (Suc ticks)
  have "counted (snd (placeLoadBid cfg en s))" using Suc.prems by (simp add: placeLoadBid_def try_bids_counted del: try_bids.simps)
  with Suc bidder_tick [of ticks cfg en n s] show ?case by metis
qed simp

text \<open>Every bid that is sent is answered, refused or booked as an error.\<close>

theorem bidders_counted:
  "counted (snd (fold (\<lambda>(ticks, en, conn). runBidder ticks cfg en conn) bs (d, no_run start)))"
proof -
  have "counted (snd st) \<Longrightarrow> counted (snd (fold (\<lambda>(ticks, en, conn). runBidder ticks cfg en conn) bs st))" for st
  proof (induction bs arbitrary: st)
    case (Cons b bs)
    obtain ticks en conn where b: "b = (ticks, en, conn)" by (rule prod_cases3)
    have "counted (snd (runBidder ticks cfg en conn st))"
      using Cons.prems by (cases st; cases conn) (auto simp: runBidder_def counted_def intro!: bidder_counted [unfolded counted_def])
    with Cons.IH b show ?case by simp
  qed simp
  then show ?thesis by (simp add: counted_def no_run_def)
qed

section \<open>A read that timed out\<close>

lemma unread_stays: "waitForBidOutcome a fs = (BidUnread, gs) \<Longrightarrow> \<exists>hs. gs = ReadFails # hs"
  by (induction a fs rule: waitForBidOutcome.induct) (auto split: if_splits)

lemma try_bids_deaf:
  "lr_frames s = ReadFails # fs \<Longrightarrow>
    lr_acked (snd (try_bids n retry en s)) = lr_acked s \<and> lr_frames (snd (try_bids n retry en s)) = ReadFails # fs"
proof (cases n)
  case (Suc m)
  obtain others wrote where en: "en (lr_attempts s) = (others, wrote)" by (rule prod.exhaust)
  show "lr_frames s = ReadFails # fs \<Longrightarrow> ?thesis" by (cases wrote) (simp_all add: Suc en)
qed simp

text \<open>The loop of a bidder is said to go on after an answer that did not come in time; the connection never
  yields another frame, so the bidder sends and nothing is answered any more.\<close>

theorem deaf_bidder:
  assumes "lr_frames s = ReadFails # fs"
  shows "lr_acked (bidder_loop ticks cfg en n s) = lr_acked s"
  using assms
proof (induction ticks arbitrary: n s)
  case (Suc ticks)
  have "lr_acked (snd (placeLoadBid cfg en s)) = lr_acked s \<and> lr_frames (snd (placeLoadBid cfg en s)) = ReadFails # fs"
    unfolding placeLoadBid_def by (rule try_bids_deaf [OF Suc.prems])
  with Suc bidder_tick [of ticks cfg en n s] show ?case by metis
qed simp

theorem first_timeout_is_last:
  assumes "try_bids (Suc n) retry en s = ((False, True), s')" "en (lr_attempts s) = (others, True)"
    and "fst (waitForBidOutcome (FormatInt (wrap64 (lr_amount s + others + 1))) (lr_frames s)) = BidUnread"
  shows "lr_acked (bidder_loop ticks cfg en2 m s') = lr_acked s"
proof -
  obtain gs where g: "waitForBidOutcome (FormatInt (wrap64 (lr_amount s + others + 1))) (lr_frames s) = (BidUnread, gs)"
    using assms(3) by (metis prod.collapse)
  then obtain hs where "gs = ReadFails # hs" using unread_stays by blast
  moreover have "lr_frames s' = gs \<and> lr_acked s' = lr_acked s" using assms(1,2) g by (auto simp: Let_def)
  ultimately show ?thesis using deaf_bidder [of s' hs] by simp
qed

section \<open>Observers and the probe\<close>

lemma observers_sampled:
  "length (ls_observerLastSeq (fold runObserver os st)) + ls_dialErr (fold runObserver os st)
     = length (ls_observerLastSeq st) + ls_dialErr st + length os"
proof (induction os arbitrary: st)
  case (Cons x os)
  then show ?case by (cases x) (auto simp: runObserver_def recordObserverLastSeq_def)
qed simp

lemma bidder_dials: "fst st \<le> fst (fold (\<lambda>(ticks, en, conn). runBidder ticks cfg en conn) bs st)"
proof (induction bs arbitrary: st)
  case (Cons b bs)
  obtain ticks en conn where b: "b = (ticks, en, conn)" by (rule prod_cases3)
  have "fst st \<le> fst (runBidder ticks cfg en conn st)" by (cases st; cases conn) (simp_all add: runBidder_def)
  with Cons [of "runBidder ticks cfg en conn st"] b show ?case by simp
qed simp

text \<open>Every observer that connected leaves a sample: the check for missing samples cannot fire.\<close>

theorem samples_complete:
  assumes "int (length (lw_observers w)) = lc_Observers cfg"
  shows "FewSeqSamples \<notin> set (breaches (load_report cfg w pre post final))"
proof -
  let ?st = "fold runObserver (lw_observers w) no_stats"
  obtain d run where b: "fold (\<lambda>(ticks, en, conn). runBidder ticks cfg en conn) (lw_bidders w) (ls_dialErr ?st, no_run (lc_StartAmountCents cfg)) = (d, run)"
    by (rule prod.exhaust)
  have "ls_dialErr ?st \<le> d" using bidder_dials [of "(ls_dialErr ?st, no_run (lc_StartAmountCents cfg))"] b by (metis fst_conv)
  then have "lc_Observers cfg - int d \<le> int (length (ls_observerLastSeq ?st))"
    using observers_sampled [of "lw_observers w" no_stats] assms by (simp add: no_stats_def)
  then show ?thesis
    by (auto simp: breaches_def Let_def catchup_breaches_def load_report_def b [unfolded case_prod_unfold] observerSnapshot_of_def
        case_prod_unfold split: if_splits)
qed

text \<open>The last number of an observer is the greatest it has seen.\<close>

lemma last_seq_max:
  "fold (\<lambda>raw q. if loadFrameSeq raw > q then loadFrameSeq raw else q) raws a = Max (insert a (loadFrameSeq ` set raws))"
proof (induction raws arbitrary: a)
  case (Cons r raws)
  have "(if loadFrameSeq r > a then loadFrameSeq r else a) = max a (loadFrameSeq r)" by (simp add: max_def)
  moreover have "Max (insert (max a (loadFrameSeq r)) (loadFrameSeq ` set raws)) = Max (insert a (loadFrameSeq ` set (r # raws)))"
    by (cases "raws = []") (simp_all add: max.left_commute max.assoc)
  ultimately show ?case using Cons by simp
qed simp

lemma extremes:
  "fold (\<lambda>seq (mn, mx). (if seq < mn then seq else mn, if seq > mx then seq else mx)) qs (a, b) =
    (Min (insert a (set qs)), Max (insert b (set qs)))" for qs :: "int list"
proof (induction qs arbitrary: a b)
  case (Cons q qs)
  have m: "(if q < a then q else a) = min a q" "(if q > b then q else b) = max b q" by (simp_all add: min_def max_def)
  show ?case
    by (cases "qs = []") (simp_all add: m Cons min.left_commute min.assoc max.left_commute max.assoc)
qed simp

theorem watermarks:
  assumes "ls_observerLastSeq st \<noteq> []"
  shows "os_LastSeqMin (observerSnapshot_of st) = Min (set (ls_observerLastSeq st))"
    and "os_LastSeqMax (observerSnapshot_of st) = Max (set (ls_observerLastSeq st))"
  using assms by (cases "ls_observerLastSeq st"; simp add: observerSnapshot_of_def extremes)+

lemma probe_skips:
  "list_all (\<lambda>m. e_type m \<noteq> ROOM_SNAPSHOT) ms \<Longrightarrow>
    dialJoinSnapshot n (map Frame (map (\<lambda>ev. event_envelope wall aid (event_of ev)) ms @ [NewEnvelope wall ROOM_SNAPSHOT aid q (DSnapshot snap)]))
      = Some (snap, n + length ms)"
  by (induction ms arbitrary: n) (simp_all add: NewEnvelope_def event_envelope_def event_of_def)

text \<open>On the frames of a join the probe finds the snapshot and counts what was missed.\<close>

theorem probe_counts_missed:
  assumes "list_all (\<lambda>m. e_type m \<noteq> ROOM_SNAPSHOT) ms"
  shows "dialJoinSnapshot 0 (map Frame (join_frames e aid ms snap)) = Some (snap, length ms)"
  using probe_skips [of ms 0 "je_wall e" aid "sn_Seq snap" snap] assms
  by (simp add: join_frames_def)

section \<open>Percentiles\<close>

text \<open>The smoke test and the registry compute the same percentiles.\<close>

theorem percentiles_agree:
  assumes "hg_samples h = xs"
  shows "percentiles xs = (let s = Histogram_Snapshot h in (hs_P50 s, hs_P95 s, hs_P99 s))"
proof -
  have "sort xs = [] \<longleftrightarrow> xs = []" by (metis length_0_conv length_sort)
  then show ?thesis by (simp add: assms percentiles_def Histogram_Snapshot_def perf_rank_def rankN_def Let_def)
qed

section \<open>The stream of bids\<close>

text \<open>The measured auctions take every stream of rising amounts: no bid is refused, none extends or ends them.\<close>

fun all_taken :: "auction \<Rightarrow> (uid \<times> int \<times> int) list \<Rightarrow> bool" where
  "all_taken A [] = True"
| "all_taken A ((u, a, now) # bs) \<longleftrightarrow> takes A u a now \<and> all_taken (after_bid A u a now) bs"

theorem rising_bids_taken:
  assumes "a_phase A = Open" "\<not> a_paused A" "a_step A = 1" "a_cap A = 0" "a_window A = 0" "0 \<le> a_price A"
    and "sorted_wrt (<) (a_price A # map (\<lambda>(u, a, now). a) bs)"
    and "\<forall>(u, a, now)\<in>set bs. a \<le> MaxMoneyCents \<and> now < a_deadline A \<and> u \<noteq> a_seller A"
  shows "all_taken A bs"
  using assms
proof (induction bs arbitrary: A)
  case (Cons b bs)
  obtain u a now where b: "b = (u, a, now)" by (rule prod_cases3)
  let ?A = "after_bid A u a now"
  have t: "takes A u a now" using Cons.prems b by (auto simp: takes_def min_raise_def)
  have "a_phase ?A = Open" "\<not> a_paused ?A" "a_step ?A = 1" "a_cap ?A = 0" "a_window ?A = 0" "a_price ?A = a"
      "a_deadline ?A = a_deadline A" "a_seller ?A = a_seller A"
    using Cons.prems by (auto simp: after_bid_def buys_out_def extends_def)
  then have "all_taken ?A bs" using Cons.prems b by (intro Cons.IH) auto
  with t b show ?case by simp
qed simp

lemma stream_rules_abs:
  assumes "0 \<le> start" "start \<le> MaxMoneyCents"
    and "hash_of k = frozen_hash \<lparr>fr_rules = stream_rules start d, fr_sellerId = s\<rparr> h\<lparr>h_status := Some LIVE, h_endAtMs := e\<rparr>"
  shows "a_phase (abs_auction k) = Open" "\<not> a_paused (abs_auction k)" "a_step (abs_auction k) = 1" "a_cap (abs_auction k) = 0"
    "a_window (abs_auction k) = 0" "a_price (abs_auction k) = start" "a_deadline (abs_auction k) = e" "a_seller (abs_auction k) = s"
  using assms(1,2)
  by (simp_all add: abs_auction_def Let_def assms(3) phase_of_def frozen_hash_def stream_rules_def cap_of_def price_num_def MaxMoneyCents_def)

section \<open>The latency of a broadcast\<close>

text \<open>What the gateway records for an event it fans out: nothing for an event without a time, and nothing for an old one
  that is told again. \<open>nowNs\<close> is the clock; differences saturate.\<close>

definition eventServerTimeMs :: "json \<Rightarrow> int" where
  "eventServerTimeMs j = (if is_struct j then (case jint JserverTimeMs j of Some n \<Rightarrow> n | None \<Rightarrow> 0) else 0)"

definition maxBroadcastObserveAge :: int where
  "maxBroadcastObserveAge = 30000000000"

definition saturate :: "int \<Rightarrow> int" where
  "saturate n = max (- (2 ^ 63)) (min (2 ^ 63 - 1) n)"

definition observeBroadcastLatency :: "int \<Rightarrow> nat \<Rightarrow> json \<Rightarrow> Histogram \<Rightarrow> Histogram" where
  "observeBroadcastLatency nowNs idx payload h =
     (let ts = eventServerTimeMs payload in
      if ts \<le> 0 then h
      else (let d = saturate (nowNs - ts * 1000000)
            in if d < maxBroadcastObserveAge then Observe d idx h else h))"

theorem samples_are_fresh:
  assumes "\<forall>s\<in>set (hg_samples h). 0 \<le> s \<and> s < maxBroadcastObserveAge"
  shows "\<forall>s\<in>set (hg_samples (observeBroadcastLatency nowNs idx payload h)). 0 \<le> s \<and> s < maxBroadcastObserveAge"
proof -
  have p: "0 < maxBroadcastObserveAge" by (simp add: maxBroadcastObserveAge_def)
  have "\<forall>s\<in>set (hg_samples (Observe d idx h)). 0 \<le> s \<and> s < maxBroadcastObserveAge" if "d < maxBroadcastObserveAge" for d
    using assms that p by (auto simp: Observe_def Let_def dest!: set_update_subset_insert [THEN subsetD])
  then show ?thesis using assms unfolding observeBroadcastLatency_def Let_def by auto
qed

text \<open>An event that the scripts wrote at \<open>now\<close> counts when it is told within thirty seconds.\<close>

lemma bid_time: "int64 now \<Longrightarrow> eventServerTimeMs (bid_json q u disp a e st n now) = now"
  by (simp add: eventServerTimeMs_def bid_json_def jint_def)

end
