(* ===== verification/Runner.thy ===== *)
theory Runner
  imports Drill Gateway
begin

text \<open>
  One drill of the chaos runner from start to verdict: \<^verbatim>\<open>cmd/runner/main.go\<close>, \<^verbatim>\<open>internal/phases\<close>,
  \<^verbatim>\<open>internal/orchestrator\<close>. Docker and the clock are arguments. Then: the fault is taken back at most once, a drill that
  is cancelled leaves it in, the guard against foreign targets, and that the gateway closes the
  runner's connection at its first frame.
\<close>

section \<open>Targets and phases\<close>

text \<open>What \<^verbatim>\<open>url.Parse\<close> makes of the flag: scheme, host with port, host.\<close>

type_synonym parsed_url = "(string \<times> string \<times> string) option"

definition isLocalTarget :: "parsed_url \<Rightarrow> bool" where
  "isLocalTarget u =
     (case u of
        None \<Rightarrow> False
      | Some (scheme, host, h) \<Rightarrow>
          (if scheme = [] \<or> host = [] then False
           else if h \<in> {''localhost'', ''127.0.0.1'', ''::1'', ''0.0.0.0''} then True
           else if HasSuffix h ''.local'' then True
           else HasPrefix h ''127.''))"

datatype lookup = Implemented | NotImplemented | UnknownPhase

definition AllNames :: "string list" where
  "AllNames = [''ai'', ''redis'', ''mysql'', ''ws'', ''timer'', ''slowclient'', ''schrodinger'', ''tamper'']"

definition Lookup :: "string \<Rightarrow> lookup" where
  "Lookup name =
     (if name = ''ai'' then Implemented
      else if name \<in> {''redis'', ''mysql'', ''ws'', ''timer'', ''slowclient'', ''schrodinger'', ''tamper''} then NotImplemented
      else UnknownPhase)"

section \<open>The steady bidder\<close>

text \<open>One tick: what the pump reads before the bid is sent and within two seconds after it, whether the write
  succeeds, and the time and duration that are recorded. \<^term>\<open>PFail\<close> is a failed read.\<close>

datatype pump_item = PFrame Envelope | PFail

record tick =
  tk_before :: "pump_item list"
  tk_write :: bool
  tk_after :: "pump_item list"
  tk_at :: int
  tk_dur :: int

fun pump :: "pump_item list \<Rightarrow> Recorder \<Rightarrow> bid_code list \<times> Recorder" where
  "pump [] r = ([], r)"
| "pump (PFail # is) r = ([ERR_WS_READ], r)"
| "pump (PFrame e # is) r =
     (let (c, r1) = readPump e r; (cs, r2) = pump is r1
      in ((case c of None \<Rightarrow> cs | Some x \<Rightarrow> x # cs), r2))"

text \<open>What was read before the bid is discarded; the first code after it is the answer.\<close>

fun bid_loop :: "tick list \<Rightarrow> Recorder \<Rightarrow> Recorder" where
  "bid_loop [] r = r"
| "bid_loop (t # ts) r =
     (let r1 = snd (pump (tk_before t) r)
      in if \<not> tk_write t then RecordBid (tk_at t) ERR_WS_WRITE (tk_dur t) r1
         else (case pump (tk_after t) r1 of
                 ([], r2) \<Rightarrow> bid_loop ts (RecordBid (tk_at t) ERR_TIMEOUT (tk_dur t) r2)
               | (c # cs, r2) \<Rightarrow> bid_loop ts (RecordBid (tk_at t) c (tk_dur t) r2)))"

text \<open>The log-in, the frames after \<^verbatim>\<open>ROOM_JOIN\<close>, the snapshot and the ticks of the drill.\<close>

record bidder_world =
  bw_rate :: int
  bw_login :: "string option"
  bw_frames :: "Envelope list option"
  bw_snapshot :: bool
  bw_ticks :: "tick list"

definition dev_login :: "int \<Rightarrow> string option \<Rightarrow> string option" where
  "dev_login status token = (if status \<noteq> 200 then None else case token of Some (c # cs) \<Rightarrow> Some (c # cs) | _ \<Rightarrow> None)"

definition steady_join :: "Envelope list \<Rightarrow> bool" where
  "steady_join es = list_ex (\<lambda>e. en_Type e = ROOM_SNAPSHOT) es"

definition steadyBidder_Run :: "bidder_world \<Rightarrow> Recorder \<Rightarrow> Recorder" where
  "steadyBidder_Run b r =
     (if bw_rate b \<le> 0 \<or> bw_login b = None then r
      else (case bw_frames b of
              None \<Rightarrow> r
            | Some es \<Rightarrow> if \<not> steady_join es \<or> \<not> bw_snapshot b then r else bid_loop (bw_ticks b) r))"

text \<open>The runner's envelope has no \<^verbatim>\<open>schemaVersion\<close>; absent, it decodes to zero.\<close>

definition runner_frame :: "in_msg \<Rightarrow> inbound" where
  "runner_frame m = Inbound 0 m"

section \<open>The fault\<close>

text \<open>The container is up or not. A command whose context is done is never started.\<close>

definition composeKill :: "bool \<Rightarrow> bool \<Rightarrow> bool \<Rightarrow> bool \<times> bool" where
  "composeKill ctxDone works up = (if ctxDone \<or> \<not> works then (False, up) else (True, False))"

definition composeStart :: "bool \<Rightarrow> bool \<Rightarrow> bool \<Rightarrow> bool \<times> bool" where
  "composeStart ctxDone works up = (if ctxDone \<or> \<not> works then (False, up) else (True, True))"

text \<open>\<^verbatim>\<open>sync.Once\<close> around the undo: whether it ran, what it returned, how often the container was started.\<close>

record undo_state =
  un_done :: bool
  un_ok :: bool
  un_up :: bool
  un_calls :: nat

definition undo_once :: "bool \<Rightarrow> bool \<Rightarrow> undo_state \<Rightarrow> bool \<times> undo_state" where
  "undo_once ctxDone works u =
     (if un_done u then (un_ok u, u)
      else (let (ok, up) = composeStart ctxDone works (un_up u)
            in (ok, \<lparr>un_done = True, un_ok = ok, un_up = up, un_calls = un_calls u + 1\<rparr>)))"

section \<open>The drill\<close>

record drill_world =
  dw_phase :: string
  dw_pre :: "int option"
  dw_post :: "int option"
  dw_kill :: bool
  dw_start :: bool
  dw_cancelled :: bool \<comment> \<open>the context is done when the hold ends\<close>
  dw_injectAt :: int
  dw_uninjectAt :: int
  dw_before :: bidder_world \<comment> \<open>what the bidder does before the fault is taken back\<close>
  dw_after :: "tick list" \<comment> \<open>and after\<close>
  dw_verifier :: "int option \<times> bool"
  dw_write :: bool

definition recoveryDeadline :: "string \<Rightarrow> int" where
  "recoveryDeadline phase = 30000"

definition invariant_env :: "drill_world \<Rightarrow> drill_env" where
  "invariant_env w = \<lparr>de_preSeq = dw_pre w, de_postSeq = dw_post w, de_recoveryDeadline = recoveryDeadline (dw_phase w),
     de_tolerance = Some 200, de_verifier = dw_verifier w\<rparr>"

definition steady_running :: "bidder_world \<Rightarrow> bool" where
  "steady_running b \<longleftrightarrow> \<not> (bw_rate b \<le> 0 \<or> bw_login b = None)
     \<and> (case bw_frames b of None \<Rightarrow> False | Some es \<Rightarrow> steady_join es \<and> bw_snapshot b)"

text \<open>The recorder over the drill: injected, bids, uninjected, bids.\<close>

definition drill_record :: "drill_world \<Rightarrow> Recorder" where
  "drill_record w =
     (let r1 = NewRecorder\<lparr>rc_InjectedAt := Some (dw_injectAt w)\<rparr>;
          r2 = (steadyBidder_Run (dw_before w) r1)\<lparr>rc_UninjectedAt := Some (dw_uninjectAt w)\<rparr>
      in if steady_running (dw_before w) \<and> list_all tk_write (bw_ticks (dw_before w)) then bid_loop (dw_after w) r2 else r2)"

text \<open>The verdict, or \<^term>\<open>None\<close> for an error, and the container with the number of starts.\<close>

definition orchestrator_Run :: "drill_world \<Rightarrow> bool \<Rightarrow> bool option \<times> bool \<times> nat" where
  "orchestrator_Run w up =
     (if dw_pre w = None then (None, up, 0)
      else (let (injected, up1) = composeKill False (dw_kill w) up
            in if \<not> injected then (None, up1, 0)
               else (let (ok, u1) = undo_once (dw_cancelled w) (dw_start w) \<lparr>un_done = False, un_ok = True, un_up = up1, un_calls = 0\<rparr>;
                         passed = all_passed (dw_phase w) (invariant_env w) (drill_record w);
                         (ok2, u2) = undo_once False (dw_start w) u1
                     in (if dw_write w then Some passed else None, un_up u2, un_calls u2))))"

text \<open>The exit code of the command.\<close>

definition runner_main :: "string \<Rightarrow> bool \<Rightarrow> parsed_url \<Rightarrow> parsed_url \<Rightarrow> drill_world \<Rightarrow> bool \<Rightarrow> int \<times> bool" where
  "runner_main phase allowProd compose toxi w up =
     (if phase = [] then (2, up)
      else if \<not> allowProd \<and> \<not> isLocalTarget compose then (2, up)
      else if \<not> allowProd \<and> \<not> isLocalTarget toxi then (2, up)
      else (case Lookup phase of
              NotImplemented \<Rightarrow> (78, up)
            | UnknownPhase \<Rightarrow> (2, up)
            | Implemented \<Rightarrow>
                (case orchestrator_Run (w\<lparr>dw_phase := phase\<rparr>) up of
                   (None, up', n) \<Rightarrow> (3, up')
                 | (Some p, up', n) \<Rightarrow> (if p then 0 else 1, up'))))"

section \<open>Taking the fault back\<close>

text \<open>The container is started at most once, and it is up again after a drill that ran to its end.\<close>

theorem undone_once:
  assumes "orchestrator_Run w up = (v, up', n)"
  shows "n \<le> 1" and "up \<Longrightarrow> \<not> dw_cancelled w \<Longrightarrow> dw_start w \<Longrightarrow> up'"
  using assms by (auto simp: orchestrator_Run_def undo_once_def composeStart_def composeKill_def Let_def split: if_splits)

text \<open>A drill that is interrupted during the hold runs its undo under the cancelled context, where no command starts,
  and the deferred second try finds the undo done: the fault stays in although a start would have worked.\<close>

theorem cancelled_stays_down:
  assumes "dw_pre w \<noteq> None" "dw_kill w" "dw_cancelled w"
  shows "fst (snd (orchestrator_Run w up)) = False"
  using assms by (auto simp: orchestrator_Run_def undo_once_def composeStart_def composeKill_def Let_def)

section \<open>The targets\<close>

text \<open>The guard means 127.0.0.0/8 and takes every name that begins with \<open>127.\<close>.\<close>

lemma foreign_local: "isLocalTarget (Some (''http'', ''127.example.com:80'', ''127.example.com''))"
  by (simp add: isLocalTarget_def HasPrefix_def)

lemma lookup_names: "Lookup n \<noteq> UnknownPhase \<longleftrightarrow> n \<in> set AllNames"
  by (auto simp: Lookup_def AllNames_def)

section \<open>The bidder against the gateway\<close>

lemma pump_same:
  "rc_AckLatencies (snd (pump is r)) = rc_AckLatencies r \<and> rc_AcceptedCount (snd (pump is r)) = rc_AcceptedCount r"
  by (induction "is" r rule: pump.induct)
     (auto simp: readPump_def RecordSeqConsumingEvent_def Let_def split: prod.splits)

text \<open>Every attempt leaves one sample.\<close>

lemma samples_grow: "length (rc_AckLatencies (bid_loop ts r)) \<le> length (rc_AckLatencies r) + length ts"
proof (induction ts r rule: bid_loop.induct)
  case (2 t ts r)
  have rb: "length (rc_AckLatencies (RecordBid a c du s)) = length (rc_AckLatencies s) + 1" for a c du s
    by (simp add: RecordBid_def Let_def split: option.splits)
  obtain cs r2 where p: "pump (tk_after t) (snd (pump (tk_before t) r)) = (cs, r2)" by (rule prod.exhaust)
  have "rc_AckLatencies r2 = rc_AckLatencies r"
    using pump_same [of "tk_after t" "snd (pump (tk_before t) r)"] pump_same [of "tk_before t" r] p by simp
  then show ?case
    using 2 pump_same [of "tk_before t" r] p by (cases "tk_write t"; cases cs) (auto simp: rb Let_def)
qed simp

text \<open>The gateway speaks schema 2 and closes a connection at the first frame of another; the runner's first
  frame is its join. The bidder sees no snapshot and never bids.\<close>

theorem runner_is_refused:
  assumes "handleWS hm up d (Own e (runner_frame m) # rest) g = (res, c, g')"
  shows "res \<noteq> WsOpen \<and> cx_crit c = [] \<and> cx_broadcast c = [] \<and> cx_wire c = []
    \<and> (res = WsClosed \<longrightarrow> cx_closeCode c = schemaMismatchCloseCode)"
  using assms
  by (auto simp: handleWS_def runner_frame_def SchemaVersion_def Let_def teardown_def conn_close_def closeWithCode_def
      newConn_def schemaMismatchCloseCode_def split: option.splits prod.splits if_splits)

theorem drill_never_passes:
  assumes "\<not> steady_join es" "bw_frames (dw_before w) = Some es"
  shows "fst (orchestrator_Run w up) \<noteq> Some True"
proof -
  have "rc_AckLatencies (drill_record w) = []"
    using assms by (simp add: drill_record_def steady_running_def steadyBidder_Run_def Let_def NewRecorder_def)
  then have "\<not> LatencyEnvelope_Check b (invariant_env w) (drill_record w)" for b by (simp add: LatencyEnvelope_Check_def)
  then have "\<not> all_passed (dw_phase w) (invariant_env w) (drill_record w)"
    by (simp add: all_passed_def invariants_For_def Let_def)
  then show ?thesis by (simp add: orchestrator_Run_def Let_def split: prod.splits)
qed

end
