(* ===== verification/Wsload.thy ===== *)
theory Wsload
  imports Complex_Main "HOL-Library.Multiset" "HOL-Library.AList" Gateway Ssrf Metrics Ascending Startup
begin

text \<open>
  The connection generator \<^verbatim>\<open>tools/loadtest/wsload\<close>: its counters, a run as a sequence of steps of any of
  its connections, the probe before a run, and the client's percentiles. Then: what the counters add up to, that the
  peak is exact under the compare-and-swap loop, and what its bidders see of a large room.
\<close>

section \<open>The peak counter\<close>

text \<open>\<^verbatim>\<open>markActive\<close> in its atomic steps: the addition, the load, the compare-and-swap. \<open>most\<close> is ghost state:
  the highest number of connections so far.\<close>

datatype peak_pc = Outside | Added int | Loaded int int

record peak_state =
  pk_active :: int
  pk_peak :: int
  pk_pc :: "nat \<Rightarrow> peak_pc"
  pk_most :: int

definition peak_init :: peak_state where
  "peak_init = \<lparr>pk_active = 0, pk_peak = 0, pk_pc = (\<lambda>_. Outside), pk_most = 0\<rparr>"

definition peak_add :: "nat \<Rightarrow> peak_state \<Rightarrow> peak_state" where
  "peak_add i s = (let n = pk_active s + 1 in
     s\<lparr>pk_active := n, pk_most := max (pk_most s) n, pk_pc := (pk_pc s)(i := Added n)\<rparr>)"

definition peak_sub :: "peak_state \<Rightarrow> peak_state" where
  "peak_sub s = s\<lparr>pk_active := pk_active s - 1\<rparr>"

definition peak_load :: "nat \<Rightarrow> int \<Rightarrow> peak_state \<Rightarrow> peak_state" where
  "peak_load i n s =
     s\<lparr>pk_pc := (pk_pc s)(i := if n \<le> pk_peak s then Outside else Loaded n (pk_peak s))\<rparr>"

definition peak_cas :: "nat \<Rightarrow> int \<Rightarrow> int \<Rightarrow> peak_state \<Rightarrow> peak_state" where
  "peak_cas i n p s =
     (if pk_peak s = p then s\<lparr>pk_peak := n, pk_pc := (pk_pc s)(i := Outside)\<rparr>
      else s\<lparr>pk_pc := (pk_pc s)(i := Added n)\<rparr>)"

inductive peak_step :: "peak_state \<Rightarrow> peak_state \<Rightarrow> bool" where
  k_add: "pk_pc s i = Outside \<Longrightarrow> peak_step s (peak_add i s)"
| k_sub: "peak_step s (peak_sub s)"
| k_load: "pk_pc s i = Added n \<Longrightarrow> peak_step s (peak_load i n s)"
| k_cas: "pk_pc s i = Loaded n p \<Longrightarrow> peak_step s (peak_cas i n p s)"

inductive peak_reachable :: "peak_state \<Rightarrow> bool" where
  peak_start: "peak_reachable peak_init"
| peak_next: "peak_reachable s \<Longrightarrow> peak_step s s' \<Longrightarrow> peak_reachable s'"

section \<open>Frames\<close>

text \<open>The members of the envelope the client looks at. A code is a name of the wire; none is \<^term>\<open>None\<close>.\<close>

record ws_frame =
  fr_Type :: msg_type
  fr_CurrentPriceCents :: money
  fr_AmountCents :: money
  fr_UserID :: uid
  fr_Code :: "code option"

definition empty_frame :: "msg_type \<Rightarrow> ws_frame" where
  "empty_frame ty = \<lparr>fr_Type = ty, fr_CurrentPriceCents = [], fr_AmountCents = [], fr_UserID = [], fr_Code = None\<rparr>"

definition frame_of :: "Envelope \<Rightarrow> ws_frame option" where
  "frame_of e =
     (let f = empty_frame (en_Type e) in
      case en_Data e of
        DNone \<Rightarrow> Some f
      | DEvent j \<Rightarrow>
          (if \<not> is_struct j then None
           else (case (jstr JamountCents j, jstr JuserId j) of
                   (Some a, Some u) \<Rightarrow> Some (f\<lparr>fr_AmountCents := a, fr_UserID := u\<rparr>)
                 | _ \<Rightarrow> None))
      | DBid d \<Rightarrow> Some (f\<lparr>fr_AmountCents := bid_amountCents d, fr_UserID := bid_userId d\<rparr>)
      | DRejected c \<Rightarrow> Some (f\<lparr>fr_Code := Some c\<rparr>)
      | DSnapshot s \<Rightarrow> Some (f\<lparr>fr_CurrentPriceCents := sn_CurrentPriceCents s\<rparr>)
      | DPatch d \<Rightarrow> Some (f\<lparr>fr_CurrentPriceCents := pa_CurrentPriceCents d\<rparr>))"

definition parseCents :: "string \<Rightarrow> int option" where
  "parseCents s = (if s = [] then None else (case ParseInt s of POk n \<Rightarrow> Some n | _ \<Rightarrow> None))"

text \<open>What the generator sends: schema 2, as the gateway wants.\<close>

definition ws_envelope :: "in_msg \<Rightarrow> inbound" where
  "ws_envelope m = Inbound 2 m"

text \<open>The user id is the part of the token before the first dot.\<close>

definition token_uid :: "string \<Rightarrow> uid" where
  "token_uid tok = (if Contains tok dot \<and> before dot tok \<noteq> [] then before dot tok else tok)"

section \<open>Counters\<close>

record stats =
  st_connectOK :: nat
  st_connectFail :: nat
  st_closedEarly :: nat
  st_framesRecv :: nat
  st_bidsSent :: nat
  st_bidsAccepted :: nat
  st_bidsRejected :: nat
  st_active :: int
  st_peakActive :: int
  st_ackNs :: "int list"
  st_dialErr :: "string multiset"
  st_rejCode :: "code option multiset"

definition new_stats :: stats where
  "new_stats = \<lparr>st_connectOK = 0, st_connectFail = 0, st_closedEarly = 0, st_framesRecv = 0, st_bidsSent = 0,
     st_bidsAccepted = 0, st_bidsRejected = 0, st_active = 0, st_peakActive = 0, st_ackNs = [],
     st_dialErr = {#}, st_rejCode = {#}\<rparr>"

definition markActive :: "int \<Rightarrow> stats \<Rightarrow> stats" where
  "markActive delta s =
     (let n = st_active s + delta
      in s\<lparr>st_active := n, st_peakActive := if delta > 0 \<and> n > st_peakActive s then n else st_peakActive s\<rparr>)"

text \<open>A long message keeps its last part.\<close>

fun last_index :: "string \<Rightarrow> string \<Rightarrow> nat option" where
  "last_index [] sub = None"
| "last_index (c # s) sub =
     (case last_index s sub of Some i \<Rightarrow> Some (i + 1) | None \<Rightarrow> (if HasPrefix (c # s) sub then Some 0 else None))"

fun first_index :: "string \<Rightarrow> string \<Rightarrow> nat option" where
  "first_index [] sub = None"
| "first_index (c # s) sub = (if HasPrefix (c # s) sub then Some 0 else map_option Suc (first_index s sub))"

definition collapseDialErr :: "string \<Rightarrow> string" where
  "collapseDialErr msg =
     (case first_index msg '': '' of
        Some i \<Rightarrow> (if i > 0 \<and> length msg > 60
                     then (case last_index msg '': '' of Some j \<Rightarrow> drop (j + 2) msg | None \<Rightarrow> msg)
                     else msg)
      | None \<Rightarrow> msg)"

definition recordDialErr :: "string \<Rightarrow> stats \<Rightarrow> stats" where
  "recordDialErr err s = s\<lparr>st_dialErr := add_mset (collapseDialErr err) (st_dialErr s)\<rparr>"

definition recordAck :: "int \<Rightarrow> stats \<Rightarrow> stats" where
  "recordAck ns s = s\<lparr>st_ackNs := st_ackNs s @ [ns]\<rparr>"

definition recordReject :: "code option \<Rightarrow> stats \<Rightarrow> stats" where
  "recordReject c s = s\<lparr>st_bidsRejected := st_bidsRejected s + 1, st_rejCode := add_mset c (st_rejCode s)\<rparr>"

section \<open>A connection\<close>

text \<open>\<open>wc_reading\<close> and \<open>wc_writing\<close>: the reader and, of a bidder, the ticker still run. The connection counts as
  active until both have ended.\<close>

record wconn =
  wc_uid :: uid
  wc_bidder :: bool
  wc_reading :: bool
  wc_writing :: bool
  wc_cur :: int
  wc_pending :: "(money \<times> int) list"

definition wc_open :: "wconn \<Rightarrow> bool" where
  "wc_open c \<longleftrightarrow> wc_reading c \<or> wc_writing c"

definition track :: "int option \<Rightarrow> wconn \<Rightarrow> wconn" where
  "track v c = (case v of Some n \<Rightarrow> (if n > wc_cur c then c\<lparr>wc_cur := n\<rparr> else c) | None \<Rightarrow> c)"

definition onFrame :: "ws_frame \<Rightarrow> int \<Rightarrow> wconn \<Rightarrow> stats \<Rightarrow> wconn \<times> stats" where
  "onFrame f now c s =
     (if fr_Type f = ROOM_SNAPSHOT then (track (parseCents (fr_CurrentPriceCents f)) c, s)
      else if fr_Type f = BID_ACCEPTED then
        (let c1 = track (parseCents (fr_AmountCents f)) c in
         if fr_UserID f \<noteq> wc_uid c then (c1, s)
         else (case map_of (wc_pending c) (fr_AmountCents f) of
                 None \<Rightarrow> (c1, s)
               | Some t0 \<Rightarrow>
                   (c1\<lparr>wc_pending := AList.delete (fr_AmountCents f) (wc_pending c)\<rparr>,
                    (recordAck (now - t0) s)\<lparr>st_bidsAccepted := st_bidsAccepted s + 1\<rparr>)))
      else if fr_Type f = BID_REJECTED then (c, recordReject (fr_Code f) s)
      else (c, s))"

lemma track_simps [simp]:
  "wc_uid (track v c) = wc_uid c" "wc_bidder (track v c) = wc_bidder c" "wc_reading (track v c) = wc_reading c"
  "wc_writing (track v c) = wc_writing c" "wc_pending (track v c) = wc_pending c" "wc_cur c \<le> wc_cur (track v c)"
  by (simp_all add: track_def split: option.split)

text \<open>One message read by the loop.\<close>

definition read_one :: "Envelope option \<Rightarrow> int \<Rightarrow> wconn \<Rightarrow> stats \<Rightarrow> wconn \<times> stats" where
  "read_one raw now c s =
     (let s1 = s\<lparr>st_framesRecv := st_framesRecv s + 1\<rparr>
      in if \<not> wc_bidder c then (c, s1)
         else (case Option.bind raw frame_of of None \<Rightarrow> (c, s1) | Some f \<Rightarrow> onFrame f now c s1))"

definition next_amount :: "wconn \<Rightarrow> int" where
  "next_amount c = wrap64 (wc_cur c + 1)"

text \<open>The steps: a dial with its outcome, a message (\<^term>\<open>None\<close>: not an envelope), the end of the reader at some
  time, a tick of the bidder, the end of the hold.\<close>

datatype dial_result = DialFails string | Dialled bool

datatype wconn_op = MsgRead "Envelope option" int | ReadEnds int | BidTick bool int | HoldEnds

definition leave :: "wconn \<Rightarrow> wconn \<Rightarrow> stats \<Rightarrow> stats" where
  "leave old new s = (if wc_open old \<and> \<not> wc_open new then markActive (- 1) s else s)"

fun wconn_step :: "int \<Rightarrow> wconn_op \<Rightarrow> wconn \<Rightarrow> stats \<Rightarrow> wconn \<times> stats" where
  "wconn_step endAt (MsgRead raw now) c s = (if wc_reading c then read_one raw now c s else (c, s))"
| "wconn_step endAt (ReadEnds now) c s =
     (if wc_reading c
      then (let c' = c\<lparr>wc_reading := False\<rparr>;
                s1 = (if now < endAt - 1000000000 then s\<lparr>st_closedEarly := st_closedEarly s + 1\<rparr> else s)
            in (c', leave c c' s1))
      else (c, s))"
| "wconn_step endAt (BidTick wrote now) c s =
     (if wc_writing c
      then (let c1 = c\<lparr>wc_pending := AList.update (FormatInt (next_amount c)) now (wc_pending c)\<rparr>
            in if wrote then (c1, s\<lparr>st_bidsSent := st_bidsSent s + 1\<rparr>)
               else (let c2 = c1\<lparr>wc_writing := False\<rparr> in (c2, leave c c2 s)))
      else (c, s))"
| "wconn_step endAt HoldEnds c s =
     (if wc_writing c then (let c' = c\<lparr>wc_writing := False\<rparr> in (c', leave c c' s)) else (c, s))"

text \<open>The beginning of \<^verbatim>\<open>runConn\<close>: dial, count, join.\<close>

definition runConn_start :: "string \<Rightarrow> bool \<Rightarrow> dial_result \<Rightarrow> stats \<Rightarrow> wconn option \<times> stats" where
  "runConn_start tok bidder d s =
     (case d of
        DialFails err \<Rightarrow> (None, recordDialErr err (s\<lparr>st_connectFail := st_connectFail s + 1\<rparr>))
      | Dialled joined \<Rightarrow>
          (let s1 = markActive 1 (s\<lparr>st_connectOK := st_connectOK s + 1\<rparr>);
               c = \<lparr>wc_uid = token_uid tok, wc_bidder = bidder, wc_reading = joined, wc_writing = joined \<and> bidder,
                    wc_cur = 100000, wc_pending = []\<rparr>
           in (Some c, if joined then s1 else markActive (- 1) (s1\<lparr>st_closedEarly := st_closedEarly s1 + 1\<rparr>))))"

section \<open>A run\<close>

text \<open>The goroutines in any order: a dial, or a step of the connection with that number.\<close>

datatype run_op = Dial string bool dial_result | On nat wconn_op

fun run_step :: "int \<Rightarrow> run_op \<Rightarrow> wconn list \<times> stats \<Rightarrow> wconn list \<times> stats" where
  "run_step endAt (Dial tok bidder d) (cs, s) =
     (case runConn_start tok bidder d s of
        (None, s1) \<Rightarrow> (cs, s1)
      | (Some c, s1) \<Rightarrow> (cs @ [c], s1))"
| "run_step endAt (On i p) (cs, s) =
     (if i < length cs then (let (c, s1) = wconn_step endAt p (cs ! i) s in (cs[i := c], s1)) else (cs, s))"

definition wsload_run :: "int \<Rightarrow> run_op list \<Rightarrow> wconn list \<times> stats" where
  "wsload_run endAt ops = fold (run_step endAt) ops ([], new_stats)"

text \<open>The connections of a ramp; Go's division panics when there are none.\<close>

definition ramp_interval :: "int \<Rightarrow> int \<Rightarrow> int option" where
  "ramp_interval ramp tot =
     (if tot = 0 then None
      else (let q = sgn ramp * sgn tot * (\<bar>ramp\<bar> div \<bar>tot\<bar>) in Some (if q \<le> 0 then 1000 else q)))"

definition ramp_plan :: "int \<Rightarrow> int \<Rightarrow> string list \<Rightarrow> (string \<times> bool) list" where
  "ramp_plan conns bidders tokens =
     map (\<lambda>i. (tokens ! (i mod length tokens), int i < bidders)) [0..<nat (wrap64 (conns + bidders))]"

definition loadTokens :: "string option \<Rightarrow> string list option" where
  "loadTokens file = map_option (\<lambda>b. filter (\<lambda>s. s \<noteq> []) (map TrimSpace (split_on (CHR 0x0A) b))) file"

section \<open>Percentiles of the report\<close>

text \<open>\<^verbatim>\<open>math.Ceil\<close> of \<open>p/100*n\<close>, written on integers.\<close>

definition pct :: "int list \<Rightarrow> nat \<Rightarrow> int" where
  "pct xs p =
     (if xs = [] then 0
      else (let i = int ((p * length xs + 99) div 100) - 1; i1 = (if i < 0 then 0 else i);
                i2 = (if i1 \<ge> int (length xs) then int (length xs) - 1 else i1)
            in xs ! nat i2))"

section \<open>The probe\<close>

datatype preflightMode = PreflightAbort | PreflightWarn | PreflightOff

definition parsePreflightMode :: "string \<Rightarrow> preflightMode option" where
  "parsePreflightMode s =
     (let v = ToLower (TrimSpace s) in
      if v \<in> {[], ''abort''} then Some PreflightAbort
      else if v = ''warn'' then Some PreflightWarn
      else if v \<in> {''off'', ''false'', ''no'', ''skip'', ''0''} then Some PreflightOff
      else None)"

datatype hostClass = HostUnknown | HostLoopback | HostPrivate | HostPublicIP | HostName

definition isCGNAT :: "ip \<Rightarrow> bool" where
  "isCGNAT x = (case To4 x of None \<Rightarrow> False | Some v \<Rightarrow> v ! 0 = 100 \<and> v ! 1 \<ge> 64 \<and> v ! 1 \<le> 127)"

definition TrimSuffix :: "string \<Rightarrow> string \<Rightarrow> string" where
  "TrimSuffix s p = (if HasSuffix s p then take (length s - length p) s else s)"

text \<open>\<^verbatim>\<open>net.ParseIP\<close>: the first dot, colon or percent sign decides the syntax; \<open>parse6\<close> reads the IPv6 form.\<close>

definition ParseIP :: "(string \<Rightarrow> ip option) \<Rightarrow> string \<Rightarrow> ip option" where
  "ParseIP parse6 s =
     (case find (\<lambda>c. c \<in> {CHR ''.'', CHR '':'', CHR ''%''}) s of
        None \<Rightarrow> None
      | Some c \<Rightarrow>
          (if c = CHR ''.'' then map_option (\<lambda>os. v4InV6Prefix @ map word_of_nat os) (parseIPv4 s)
           else if c = CHR '':'' then parse6 s
           else None))"

definition ip_class :: "ip \<Rightarrow> hostClass" where
  "ip_class x =
     (if IsLoopback x then HostLoopback
      else if IsPrivate x \<or> IsLinkLocalUnicast x \<or> isCGNAT x then HostPrivate
      else HostPublicIP)"

text \<open>\<open>url_host\<close> is the host \<^verbatim>\<open>url.Parse\<close> finds.\<close>

definition classifyHost ::
  "(string \<Rightarrow> string option) \<Rightarrow> (string \<Rightarrow> ip option) \<Rightarrow> string \<Rightarrow> hostClass \<times> string" where
  "classifyHost url_host parse6 raw =
     (let h = TrimSpace raw;
          h1 = (if ContainsStr h ''://'' then (case url_host h of Some u \<Rightarrow> (if u \<noteq> [] then u else h) | None \<Rightarrow> h) else h);
          h2 = (case SplitHostPort h1 of Some (host, port) \<Rightarrow> host | None \<Rightarrow> h1);
          h3 = TrimSuffix (TrimPrefix h2 ''['') '']''
      in if h3 = [] then (HostUnknown, [])
         else if ToLower h3 = ''localhost'' then (HostLoopback, h3)
         else (case ParseIP parse6 h3 of
                 None \<Rightarrow> (HostName, h3)
               | Some x \<Rightarrow> (ip_class x, h3)))"

record preflightResult =
  pr_attempted :: nat
  pr_connectOK :: nat
  pr_framesSeen :: nat
  pr_sampleErr :: string

definition okFraction :: "preflightResult \<Rightarrow> rat" where
  "okFraction r = (if pr_attempted r = 0 then 0 else of_nat (pr_connectOK r) / of_nat (pr_attempted r))"

text \<open>The parts of the diagnosis: frames flow or the auction is idle; a sample error, and the hint of a hairpin.\<close>

datatype diagnosis = Flowing | Idle | Failed "string option" bool

definition evaluatePreflight :: "preflightResult \<Rightarrow> rat \<Rightarrow> hostClass \<Rightarrow> bool \<times> diagnosis" where
  "evaluatePreflight r minOK cls =
     (if pr_attempted r > 0 \<and> okFraction r \<ge> minOK
      then (True, if pr_framesSeen r = 0 then Idle else Flowing)
      else (False, Failed (if pr_sampleErr r \<noteq> [] then Some (pr_sampleErr r) else None) (cls = HostPublicIP)))"

text \<open>What a probe meets: a dial error, or whether the join is written and a frame read.\<close>

datatype probe = ProbeFails string | Probed bool bool

definition probe_count :: "int \<Rightarrow> string list \<Rightarrow> int" where
  "probe_count conns tokens =
     (let n = (if conns > int (length tokens) then int (length tokens) else conns) in if n < 1 then 1 else n)"

fun probe_step :: "probe \<Rightarrow> preflightResult \<Rightarrow> preflightResult" where
  "probe_step (ProbeFails err) r =
     (if pr_sampleErr r = [] then r\<lparr>pr_sampleErr := collapseDialErr err\<rparr> else r)"
| "probe_step (Probed wrote got) r =
     (let r1 = r\<lparr>pr_connectOK := pr_connectOK r + 1\<rparr>
      in if wrote \<and> got then r1\<lparr>pr_framesSeen := pr_framesSeen r1 + 1\<rparr> else r1)"

text \<open>\<open>probes\<close> in the order they end, one per token that is used.\<close>

definition runPreflight :: "probe list \<Rightarrow> preflightResult" where
  "runPreflight probes =
     (fold probe_step probes \<lparr>pr_attempted = 0, pr_connectOK = 0, pr_framesSeen = 0, pr_sampleErr = []\<rparr>)
       \<lparr>pr_attempted := length probes\<rparr>"

section \<open>The command\<close>

datatype wsload_exit = BadFlags | NoTokens | ProbeFailed | DividePanic | Ramp "(string \<times> bool) list" int

record wsload_flags =
  wf_host :: string
  wf_aid :: aid
  wf_conns :: int
  wf_bidders :: int
  wf_ramp :: int
  wf_preflight :: string
  wf_preflightConns :: int
  wf_minOK :: rat

text \<open>\<open>probe_of n\<close> is what \<open>n\<close> probes meet.\<close>

definition wsload_main ::
  "(string \<Rightarrow> string option) \<Rightarrow> (string \<Rightarrow> ip option) \<Rightarrow> (int \<Rightarrow> probe list) \<Rightarrow> string option \<Rightarrow> wsload_flags \<Rightarrow> wsload_exit" where
  "wsload_main url_host parse6 probe_of file f =
     (if wf_aid f = [] then BadFlags
      else (case parsePreflightMode (wf_preflight f) of
              None \<Rightarrow> BadFlags
            | Some m \<Rightarrow>
                (case loadTokens file of
                   None \<Rightarrow> NoTokens
                 | Some tokens \<Rightarrow>
                     (if tokens = [] then NoTokens
                      else (let ok = (m = PreflightOff \<or> m = PreflightWarn
                                \<or> fst (evaluatePreflight (runPreflight (probe_of (probe_count (wf_preflightConns f) tokens)))
                                       (wf_minOK f) (fst (classifyHost url_host parse6 (wf_host f)))))
                            in if \<not> ok then ProbeFailed
                               else (case ramp_interval (wf_ramp f) (wrap64 (wf_conns f + wf_bidders f)) of
                                       None \<Rightarrow> DividePanic
                                     | Some q \<Rightarrow> Ramp (ramp_plan (wf_conns f) (wf_bidders f) tokens) q))))))"

section \<open>The peak is exact\<close>

fun in_loop :: "peak_pc \<Rightarrow> int option" where
  "in_loop Outside = None"
| "in_loop (Added n) = Some n"
| "in_loop (Loaded n q) = Some n"

definition peak_inv :: "peak_state \<Rightarrow> bool" where
  "peak_inv s \<longleftrightarrow> pk_active s \<le> pk_most s \<and> pk_peak s \<le> pk_most s
     \<and> (pk_peak s = pk_most s \<or> (\<exists>i. in_loop (pk_pc s i) = Some (pk_most s)))
     \<and> (\<forall>i n. in_loop (pk_pc s i) = Some n \<longrightarrow> n \<le> pk_most s)
     \<and> (\<forall>i n p. pk_pc s i = Loaded n p \<longrightarrow> p < n)"

lemma peak_invD:
  assumes "peak_inv s"
  shows "in_loop (pk_pc s i) = Some n \<Longrightarrow> n \<le> pk_most s" and "pk_pc s i = Loaded n p \<Longrightarrow> p < n"
  using assms unfolding peak_inv_def by blast+

lemma peak_inv_add:
  assumes "peak_inv s" "pk_pc s i = Outside"
  shows "peak_inv (peak_add i s)"
proof -
  let ?s = "peak_add i s" and ?n = "pk_active s + 1"
  have m: "pk_most ?s = max (pk_most s) ?n" "pk_peak ?s = pk_peak s" "pk_active ?s = ?n"
    "pk_pc ?s = (pk_pc s)(i := Added ?n)" by (simp_all add: peak_add_def Let_def)
  have i: "in_loop (pk_pc ?s j) = (if j = i then Some ?n else in_loop (pk_pc s j))" for j by (simp add: m)
  have "pk_peak ?s = pk_most ?s \<or> (\<exists>j. in_loop (pk_pc ?s j) = Some (pk_most ?s))"
  proof (cases "?n \<ge> pk_most s")
    case True
    then show ?thesis by (auto simp: i m(1) max_def intro: exI [of _ i])
  next
    case False
    then have same: "pk_most ?s = pk_most s" by (simp add: m)
    have "in_loop (pk_pc s i) = None" using assms(2) by simp
    then show ?thesis using assms(1) by (auto simp: peak_inv_def i same m(2)) (metis option.distinct(1))
  qed
  moreover have "n \<le> pk_most ?s" if "in_loop (pk_pc ?s j) = Some n" for j n
    using that peak_invD(1) [OF assms(1), of j n] by (auto simp: i m(1) split: if_splits)
  moreover have "p < n" if "pk_pc ?s j = Loaded n p" for j n p
    using that assms(1) by (auto simp: peak_inv_def m(4) split: if_splits)
  moreover have "pk_peak s \<le> max (pk_most s) ?n" using assms(1) by (auto simp: peak_inv_def)
  ultimately show ?thesis unfolding peak_inv_def by (auto simp: m)
qed

lemma peak_inv_load:
  assumes "peak_inv s" "pk_pc s i = Added n"
  shows "peak_inv (peak_load i n s)"
proof -
  let ?s = "peak_load i n s"
  have m: "pk_most ?s = pk_most s" "pk_peak ?s = pk_peak s" "pk_active ?s = pk_active s" by (simp_all add: peak_load_def)
  have i: "in_loop (pk_pc ?s j) = (if j = i \<and> n \<le> pk_peak s then None else in_loop (pk_pc s j))" for j
    using assms(2) by (simp add: peak_load_def)
  have "n \<le> pk_most s" using peak_invD(1) [OF assms(1), of i n] assms(2) by simp
  moreover have "p < n'" if "pk_pc ?s j = Loaded n' p" for j n' p
    using that assms(1) by (auto simp: peak_inv_def peak_load_def split: if_splits)
  ultimately show ?thesis using assms unfolding peak_inv_def m i by (smt (verit) in_loop.simps(2) option.inject option.distinct(1))
qed

lemma peak_inv_cas:
  assumes "peak_inv s" "pk_pc s i = Loaded n p"
  shows "peak_inv (peak_cas i n p s)"
proof -
  let ?s = "peak_cas i n p s"
  have m: "pk_most ?s = pk_most s" "pk_peak ?s = (if pk_peak s = p then n else pk_peak s)" "pk_active ?s = pk_active s"
    by (simp_all add: peak_cas_def)
  have i: "in_loop (pk_pc ?s j) = (if j = i \<and> pk_peak s = p then None else in_loop (pk_pc s j))" for j
    using assms(2) by (simp add: peak_cas_def)
  have n: "n \<le> pk_most s" "p < n" using peak_invD [OF assms(1), of i n] assms(2) by simp_all
  have l: "q < n'" if "pk_pc ?s j = Loaded n' q" for j n' q
    using that assms(1) by (auto simp: peak_inv_def peak_cas_def split: if_splits)
  have "pk_peak ?s = pk_most s \<or> (\<exists>j. in_loop (pk_pc ?s j) = Some (pk_most s))"
  proof (cases "pk_peak s = p")
    case True
    then have "pk_peak s \<noteq> pk_most s" using n by simp
    then obtain j where j: "in_loop (pk_pc s j) = Some (pk_most s)" using assms(1) by (auto simp: peak_inv_def)
    show ?thesis
    proof (cases "j = i")
      case True
      then have "n = pk_most s" using j assms(2) by simp
      then show ?thesis using \<open>pk_peak s = p\<close> by (simp add: peak_cas_def)
    next
      case False
      then show ?thesis using j by (auto simp: i)
    qed
  next
    case False
    then show ?thesis using assms(1) by (auto simp: peak_inv_def i m)
  qed
  then show ?thesis using assms(1) n l unfolding peak_inv_def m(1,3) by (auto simp: m(2) i split: if_splits)
qed

lemma peak_inv_reachable: "peak_reachable s \<Longrightarrow> peak_inv s"
proof (induction rule: peak_reachable.induct)
  case peak_start
  then show ?case by (simp add: peak_inv_def peak_init_def)
next
  case (peak_next s s')
  from peak_next(2,3) show ?case
    by cases (auto simp: peak_inv_add peak_inv_load peak_inv_cas, auto simp: peak_inv_def peak_sub_def)
qed

text \<open>Whatever the goroutines do to each other, the peak never exceeds the highest number of connections, and is
  that number when none of them is inside \<^verbatim>\<open>markActive\<close>.\<close>

theorem peak_exact:
  assumes "peak_reachable s"
  shows "pk_active s \<le> pk_most s" and "pk_peak s \<le> pk_most s"
    and "\<forall>i. pk_pc s i = Outside \<Longrightarrow> pk_peak s = pk_most s"
  using peak_inv_reachable [OF assms] by (auto simp: peak_inv_def)

section \<open>What the counters add up to\<close>

definition tally :: "('a \<Rightarrow> bool) \<Rightarrow> 'a list \<Rightarrow> nat" where
  "tally P xs = length (filter P xs)"

lemma tally_simps [simp]: "tally P [] = 0" "tally P (xs @ [x]) = tally P xs + of_bool (P x)"
  by (simp_all add: tally_def)

lemma tally_update:
  "i < length xs \<Longrightarrow> tally P (xs[i := x]) + of_bool (P (xs ! i)) = tally P xs + of_bool (P x)"
proof (induction xs arbitrary: i)
  case (Cons y ys)
  then show ?case using Cons.IH [of "i - 1"] by (cases i) (simp_all add: tally_def)
qed simp

definition pendings :: "wconn list \<Rightarrow> nat" where
  "pendings cs = sum_list (map (\<lambda>c. length (wc_pending c)) cs)"

lemma pendings_simps [simp]: "pendings [] = 0" "pendings (cs @ [c]) = pendings cs + length (wc_pending c)"
  by (simp_all add: pendings_def)

lemma pendings_update:
  "i < length cs \<Longrightarrow> pendings (cs[i := c]) + length (wc_pending (cs ! i)) = pendings cs + length (wc_pending c)"
  by (induction cs arbitrary: i) (auto simp: pendings_def nth_Cons split: nat.splits)

lemma length_AList_update: "length (AList.update k v xs) \<le> length xs + 1"
  by (induction xs) auto

lemma length_AList_delete: "map_of xs k \<noteq> None \<Longrightarrow> length (AList.delete k xs) + 1 \<le> length xs"
proof -
  assume "map_of xs k \<noteq> None"
  then obtain v where "(k, v) \<in> set xs" by (auto dest: map_of_SomeD)
  then have "length (filter (\<lambda>p. k \<noteq> fst p) xs) < length xs"
    by (intro length_filter_less [of "(k, v)"]) auto
  then show ?thesis by (simp add: AList.delete_eq case_prod_unfold)
qed

text \<open>A bidder whose ticker has ended may have left one amount pending that was never sent.\<close>

definition ended :: "wconn \<Rightarrow> bool" where
  "ended c \<longleftrightarrow> wc_bidder c \<and> \<not> wc_writing c"

definition sums_ok :: "wconn list \<times> stats \<Rightarrow> bool" where
  "sums_ok r \<longleftrightarrow> (case r of (cs, s) \<Rightarrow>
     list_all (\<lambda>c. wc_writing c \<longrightarrow> wc_bidder c) cs
     \<and> st_connectOK s = length cs
     \<and> st_connectFail s = size (st_dialErr s)
     \<and> st_bidsRejected s = size (st_rejCode s)
     \<and> st_bidsAccepted s = length (st_ackNs s)
     \<and> st_active s = int (tally wc_open cs)
     \<and> st_active s \<le> st_peakActive s \<and> st_peakActive s \<le> int (st_connectOK s)
     \<and> st_closedEarly s \<le> tally (\<lambda>c. \<not> wc_reading c) cs
     \<and> st_bidsAccepted s + pendings cs \<le> st_bidsSent s + tally ended cs)"

text \<open>What one step adds, of a connection and of the counters.\<close>

definition adds :: "wconn \<Rightarrow> wconn \<Rightarrow> stats \<Rightarrow> stats \<Rightarrow> bool" where
  "adds c c' s s' \<longleftrightarrow>
     (wc_writing c' \<longrightarrow> wc_bidder c')
     \<and> st_connectOK s' = st_connectOK s \<and> st_connectFail s' = st_connectFail s \<and> st_dialErr s' = st_dialErr s
     \<and> st_bidsRejected s' + size (st_rejCode s) = st_bidsRejected s + size (st_rejCode s')
     \<and> st_bidsAccepted s' + length (st_ackNs s) = st_bidsAccepted s + length (st_ackNs s')
     \<and> st_active s' + of_bool (wc_open c) = st_active s + of_bool (wc_open c') \<and> st_active s' \<le> st_active s
     \<and> st_peakActive s' = st_peakActive s
     \<and> st_closedEarly s' + of_bool (\<not> wc_reading c) \<le> st_closedEarly s + of_bool (\<not> wc_reading c')
     \<and> st_bidsAccepted s' + length (wc_pending c') + st_bidsSent s + of_bool (ended c)
         \<le> st_bidsAccepted s + length (wc_pending c) + st_bidsSent s' + of_bool (ended c')"

lemmas conn_defs = wc_open_def ended_def leave_def markActive_def recordReject_def recordAck_def Let_def

lemma adds_refl: "(wc_writing c \<longrightarrow> wc_bidder c) \<Longrightarrow> adds c c s s"
  by (simp add: adds_def)

lemma onFrame_adds:
  assumes "onFrame f now c s = (c', s')" "wc_writing c \<longrightarrow> wc_bidder c"
  shows "adds c c' s s'"
proof -
  consider (acc) t0 where "map_of (wc_pending c) (fr_AmountCents f) = Some t0" "fr_Type f = BID_ACCEPTED"
      "fr_UserID f = wc_uid c"
    | (rej) "fr_Type f = BID_REJECTED"
    | (snap) "fr_Type f = ROOM_SNAPSHOT"
    | (other) "fr_Type f = BID_ACCEPTED" "fr_UserID f \<noteq> wc_uid c \<or> map_of (wc_pending c) (fr_AmountCents f) = None"
    | (rest) "fr_Type f \<notin> {BID_ACCEPTED, BID_REJECTED, ROOM_SNAPSHOT}"
    by (cases "map_of (wc_pending c) (fr_AmountCents f)") blast+
  then show ?thesis
  proof cases
    case acc
    then have c': "c' = (track (parseCents (fr_AmountCents f)) c)\<lparr>wc_pending := AList.delete (fr_AmountCents f) (wc_pending c)\<rparr>"
        "s' = (recordAck (now - t0) s)\<lparr>st_bidsAccepted := st_bidsAccepted s + 1\<rparr>"
      using assms(1) by (simp_all add: onFrame_def Let_def)
    have "length (AList.delete (fr_AmountCents f) (wc_pending c)) + 1 \<le> length (wc_pending c)"
      using acc(1) by (intro length_AList_delete) simp
    then show ?thesis using assms(2) by (simp add: c' adds_def conn_defs)
  next
    case other
    then have "c' = track (parseCents (fr_AmountCents f)) c \<and> s' = s"
      using assms(1) by (auto simp: onFrame_def Let_def split: if_splits)
    then show ?thesis using assms(2) by (simp add: adds_def conn_defs)
  qed (use assms in \<open>auto simp: onFrame_def adds_def conn_defs\<close>)
qed

lemma wconn_step_adds:
  assumes "wconn_step endAt p c s = (c', s')" "wc_writing c \<longrightarrow> wc_bidder c"
  shows "adds c c' s s'"
proof (cases p)
  case (MsgRead raw now)
  let ?s = "s\<lparr>st_framesRecv := st_framesRecv s + 1\<rparr>"
  have lift: "adds c c' ?s t \<Longrightarrow> adds c c' s t" for t by (simp add: adds_def)
  show ?thesis
  proof (cases "wc_reading c \<and> wc_bidder c \<and> Option.bind raw frame_of \<noteq> None")
    case True
    then obtain f where "Option.bind raw frame_of = Some f" by auto
    then have "onFrame f now c ?s = (c', s')" using assms(1) True by (simp add: MsgRead read_one_def Let_def)
    then show ?thesis by (intro lift onFrame_adds [OF _ assms(2)])
  next
    case False
    then have "c' = c" "s' = s \<or> s' = ?s"
      using assms(1) by (auto simp: MsgRead read_one_def Let_def split: if_splits option.splits)
    then show ?thesis using adds_refl [OF assms(2)] lift by metis
  qed
next
  case (ReadEnds now)
  have "adds c (fst (wconn_step endAt p c s)) s (snd (wconn_step endAt p c s))"
    using assms(2) unfolding ReadEnds
    by (cases "wc_reading c"; cases "wc_writing c"; cases "now < endAt - 1000000000") (simp_all add: adds_def conn_defs)
  then show ?thesis by (simp add: assms(1))
next
  case (BidTick wrote now)
  have "adds c (fst (wconn_step endAt p c s)) s (snd (wconn_step endAt p c s))"
    using assms(2) length_AList_update [of "FormatInt (next_amount c)" now "wc_pending c"] unfolding BidTick
    by (cases "wc_reading c"; cases "wc_writing c"; cases wrote) (simp_all add: adds_def conn_defs)
  then show ?thesis by (simp add: assms(1))
next
  case HoldEnds
  have "adds c (fst (wconn_step endAt p c s)) s (snd (wconn_step endAt p c s))"
    using assms(2) unfolding HoldEnds by (cases "wc_reading c"; cases "wc_writing c") (simp_all add: adds_def conn_defs)
  then show ?thesis by (simp add: assms(1))
qed

lemma sums_ok_step:
  assumes "sums_ok r"
  shows "sums_ok (run_step endAt p r)"
proof -
  obtain cs s where r: "r = (cs, s)" by (rule prod.exhaust)
  show ?thesis
  proof (cases p)
    case (Dial tok bidder d)
    have "tally wc_open cs \<le> length cs" by (simp add: tally_def)
    then show ?thesis using assms unfolding r Dial
      by (cases d) (auto simp: sums_ok_def runConn_start_def recordDialErr_def conn_defs)
  next
    case (On i q)
    show ?thesis
    proof (cases "i < length cs")
      case True
      obtain c' s' where cs': "wconn_step endAt q (cs ! i) s = (c', s')" by (rule prod.exhaust)
      have w: "wc_writing (cs ! i) \<longrightarrow> wc_bidder (cs ! i)" using assms True by (auto simp: r sums_ok_def list_all_length)
      have a: "adds (cs ! i) c' s s'" using cs' w by (rule wconn_step_adds)
      have l: "list_all (\<lambda>c. wc_writing c \<longrightarrow> wc_bidder c) (cs[i := c'])"
        using assms a True by (auto simp: r sums_ok_def adds_def list_all_length nth_list_update)
      note up = tally_update [OF True, of wc_open c'] tally_update [OF True, of "\<lambda>c. \<not> wc_reading c" c']
        tally_update [OF True, of ended c'] pendings_update [OF True, of c']
      have o: "int (tally wc_open (cs[i := c'])) + of_bool (wc_open (cs ! i)) = int (tally wc_open cs) + of_bool (wc_open c')"
        using up(1) by (metis of_nat_add of_nat_of_bool)
      have old: "st_connectOK s = length cs" "st_connectFail s = size (st_dialErr s)"
          "st_bidsRejected s = size (st_rejCode s)" "st_bidsAccepted s = length (st_ackNs s)"
        and act: "st_active s = int (tally wc_open cs)"
        and bnd: "st_active s \<le> st_peakActive s" "st_peakActive s \<le> int (st_connectOK s)"
        and early: "st_closedEarly s \<le> tally (\<lambda>c. \<not> wc_reading c) cs"
        and acks: "st_bidsAccepted s + pendings cs \<le> st_bidsSent s + tally ended cs"
        using assms by (auto simp: r sums_ok_def)
      have "st_active s' = int (tally wc_open (cs[i := c']))" using o a act by (simp add: adds_def)
      moreover have "st_closedEarly s' \<le> tally (\<lambda>c. \<not> wc_reading c) (cs[i := c'])"
        using up(2) a early by (simp add: adds_def)
      moreover have "st_bidsAccepted s' + pendings (cs[i := c']) \<le> st_bidsSent s' + tally ended (cs[i := c'])"
        using up(3,4) a acks by (simp add: adds_def)
      ultimately have "sums_ok (cs[i := c'], s')"
        using a l old bnd by (simp add: sums_ok_def adds_def)
      then show ?thesis by (simp add: r On cs' True)
    next
      case False
      then show ?thesis using assms by (simp add: r On)
    qed
  qed
qed

text \<open>In any run, at any moment: every dial is a success or a counted failure; the active count is the number of open
  connections and the peak is between it and the dials that succeeded; a connection is counted as dropped at most
  once; every acknowledgement is one sample, and there are no more than bids sent, up to one per bidder whose last
  write failed.\<close>

theorem run_accounted: "sums_ok (wsload_run endAt ops)"
proof -
  have "sums_ok (fold (run_step endAt) ops r)" if "sums_ok r" for r
    using that by (induction ops arbitrary: r) (simp_all add: sums_ok_step)
  moreover have "sums_ok ([], new_stats)" by (simp add: sums_ok_def new_stats_def)
  ultimately show ?thesis by (simp add: wsload_run_def)
qed

section \<open>Large rooms\<close>

lemma read_cur: "wc_cur c \<le> wc_cur (fst (read_one raw now c s))"
  by (auto simp: read_one_def onFrame_def Let_def split: option.split)

text \<open>In a room with as many viewers as the patch threshold an accepted bid is not broadcast but folded into a patch,
  and a patch changes nothing the bidder knows.\<close>

lemma patch_unseen: "wc_cur (fst (read_one (Some (patch_envelope wall aid pt)) now c s)) = wc_cur c"
  by (simp add: read_one_def patch_envelope_def NewEnvelope_def frame_of_def empty_frame_def onFrame_def Let_def)

theorem large_room_hides_bids:
  assumes "patch_enabled p" "ev_Type e = BID_ACCEPTED" "decode_bid (ev_Payload e) = Some d" "bid_status d \<noteq> state_name SOLD"
    and "pc_minViewers (pq_cfg p) \<le> viewerCount h aid" "offer h aid e p = (b, p')"
  shows "b" and "(aid', env) \<in> set (fst (flushAid wall aid p')) \<Longrightarrow> wc_cur (fst (read_one (Some env) now c s)) = wc_cur c"
  using assms
  by (auto simp: offer_def offerBidAccepted_def Let_def flushAid_def patch_unseen split: if_splits)

text \<open>So a bidder that is not answered \<^verbatim>\<open>BID_ACCEPTED\<close> itself keeps its price: whatever else it reads, when the
  price has passed its next amount it is refused, with every later bid.\<close>

definition tells_price :: "Envelope \<Rightarrow> bool" where
  "tells_price e \<longleftrightarrow> en_Type e = ROOM_SNAPSHOT \<or> en_Type e = BID_ACCEPTED"

lemma frame_type: "frame_of e = Some f \<Longrightarrow> fr_Type f = en_Type e"
  by (auto simp: frame_of_def empty_frame_def Let_def split: frame_data.splits option.splits if_splits)

lemma silent_read: "\<not> tells_price e \<Longrightarrow> wc_cur (fst (read_one (Some e) now c s)) = wc_cur c"
  by (auto simp: read_one_def onFrame_def Let_def tells_price_def frame_type split: option.split)

fun telling :: "wconn_op \<Rightarrow> bool" where
  "telling (MsgRead (Some e) now) = tells_price e"
| "telling _ = False"

lemma silent_step: "\<not> telling p \<Longrightarrow> wc_cur (fst (wconn_step endAt p c s)) = wc_cur c"
proof (cases p)
  case (MsgRead raw now)
  assume "\<not> telling p"
  then show ?thesis using MsgRead silent_read by (cases raw) (auto simp: read_one_def Let_def)
qed (auto simp: Let_def)

definition wconn_run :: "int \<Rightarrow> wconn_op list \<Rightarrow> wconn \<times> stats \<Rightarrow> wconn \<times> stats" where
  "wconn_run endAt ps r = fold (\<lambda>p (c, s). wconn_step endAt p c s) ps r"

lemma silent_run: "list_all (\<lambda>p. \<not> telling p) ps \<Longrightarrow> wc_cur (fst (wconn_run endAt ps r)) = wc_cur (fst r)"
  unfolding wconn_run_def by (induction ps arbitrary: r) (simp_all add: silent_step case_prod_unfold)

theorem left_behind:
  assumes "ladder k" "h_status (hash_of k) = Some LIVE" "\<not> h_paused (hash_of k)" "wc_uid c \<noteq> h_sellerId (hash_of k)"
    and "now < h_endAtMs (hash_of k)" "0 \<le> wc_cur c" "wc_cur c < price_num (hash_of k)" "price_num (hash_of k) \<le> MaxMoneyCents"
    and "list_all (\<lambda>p. \<not> telling p) ps"
  shows "bid_guard (hash_of k) (wc_uid c) (Some (next_amount (fst (wconn_run endAt ps (c, s))))) now
    = Some (Reply ERR_TOO_LOW [RInt (wc_cur c + 1), RInt (required_bid (hash_of k))])"
proof -
  have "int64 (wc_cur c + 1)" using assms(6-8) by (simp add: int64_def MaxMoneyCents_def)
  then have n: "next_amount (fst (wconn_run endAt ps (c, s))) = wc_cur c + 1"
    using silent_run [OF assms(9), of endAt "(c, s)"] by (simp add: next_amount_def wrap64_id)
  have "wc_cur c + 1 < required_bid (hash_of k)"
  proof -
    have "\<not> required_bid (hash_of k) \<le> wc_cur c + 1"
      using assms(1,2,6-8) required_le [of "wc_cur c + 1" "hash_of k"] by (auto simp: ladder_def Let_def)
    then show ?thesis by simp
  qed
  then show ?thesis unfolding n using assms by (auto simp: bid_guard_def)
qed

section \<open>Tokens, frames, percentiles\<close>

lemma issued_token: "u \<noteq> [] \<Longrightarrow> dot \<notin> set u \<Longrightarrow> token_uid (Token hm secret u) = u"
  by (simp add: token_uid_def Token_def Contains_def before_append)

lemma distinct_bidders:
  assumes "distinct tokens" "0 \<le> bidders" "bidders \<le> int (length tokens)" "0 \<le> conns" "int64 (conns + bidders)"
  shows "map fst (filter snd (ramp_plan conns bidders tokens)) = take (nat bidders) tokens"
proof -
  have w: "wrap64 (conns + bidders) = conns + bidders" using assms(5) by (rule wrap64_id)
  have "filter (\<lambda>i. int i < bidders) [0..<nat (conns + bidders)] = [0..<nat bidders]"
  proof -
    have "[0..<nat (conns + bidders)] = [0..<nat bidders] @ [nat bidders..<nat (conns + bidders)]"
      using assms(2,4) upt_add_eq_append [of 0 "nat bidders" "nat conns"] by (simp add: nat_add_distrib add.commute)
    moreover have "filter (\<lambda>i. int i < bidders) [0..<nat bidders] = [0..<nat bidders]" by (rule filter_True) auto
    moreover have "filter (\<lambda>i. int i < bidders) [nat bidders..<nat (conns + bidders)] = []"
      by (rule filter_False) auto
    ultimately show ?thesis by simp
  qed
  moreover have "map (\<lambda>i. tokens ! (i mod length tokens)) [0..<nat bidders] = take (nat bidders) tokens"
    using assms(3) by (intro nth_equalityI) auto
  ultimately show ?thesis by (simp add: ramp_plan_def filter_map o_def w)
qed

text \<open>The client ranks as the server's histogram does.\<close>

theorem pct_is_rank:
  assumes "xs \<noteq> []" "p \<le> 100"
  shows "pct xs p = xs ! rankN (length xs) p"
proof -
  define k n where "k = (p * length xs + 99) div 100" and "n = length xs"
  have "p * length xs \<le> 100 * length xs" using assms(2) by simp
  then have "k < Suc n" unfolding k_def n_def by (intro less_mult_imp_div_less) (simp only: mult_Suc)
  moreover have "1 \<le> n" using assms(1) by (cases xs) (simp_all add: n_def)
  ultimately have "rankN n p = k - 1" and "pct xs p = xs ! (k - 1)"
    using assms(1) unfolding rankN_def pct_def Let_def n_def unfolding k_def [symmetric]
    by (cases k; simp)+
  then show ?thesis by (simp add: n_def)
qed

section \<open>The probe\<close>

lemma probe_fold:
  "pr_connectOK (fold probe_step ps r) \<le> pr_connectOK r + length ps"
  "pr_framesSeen r \<le> pr_connectOK r \<Longrightarrow> pr_framesSeen (fold probe_step ps r) \<le> pr_connectOK (fold probe_step ps r)"
proof (induction ps arbitrary: r)
  case (Cons p ps)
  {
    case 1
    show ?case using Cons.IH(1) [of "probe_step p r"] by (cases p) (auto simp: Let_def split: if_splits)
  next
    case 2
    then show ?case by (cases p) (auto simp: Let_def intro!: Cons.IH(2))
  }
qed simp_all

theorem probe_counts:
  shows "pr_framesSeen (runPreflight ps) \<le> pr_connectOK (runPreflight ps)"
    and "pr_connectOK (runPreflight ps) \<le> pr_attempted (runPreflight ps)"
    and "0 \<le> okFraction (runPreflight ps)" and "okFraction (runPreflight ps) \<le> 1"
  using probe_fold [where ps = ps and r = "\<lparr>pr_attempted = 0, pr_connectOK = 0, pr_framesSeen = 0, pr_sampleErr = []\<rparr>"]
  by (auto simp: runPreflight_def okFraction_def divide_le_eq)

lemma probe_count_ok: "tokens \<noteq> [] \<Longrightarrow> 1 \<le> probe_count n tokens \<and> probe_count n tokens \<le> int (length tokens)"
  by (cases tokens) (auto simp: probe_count_def Let_def)

text \<open>A gateway that answers every probe but knows none of the tokens is reported as a broken path.\<close>

theorem refused_tokens_blame_network:
  assumes "list_all (\<lambda>p. \<exists>err. p = ProbeFails err \<and> collapseDialErr err \<noteq> []) ps" "ps \<noteq> []" "0 < minOK"
  shows "\<exists>err. evaluatePreflight (runPreflight ps) minOK cls = (False, Failed (Some err) (cls = HostPublicIP))"
proof -
  have f: "pr_connectOK (fold probe_step qs r) = pr_connectOK r
      \<and> (pr_sampleErr r \<noteq> [] \<or> qs \<noteq> [] \<longrightarrow> pr_sampleErr (fold probe_step qs r) \<noteq> [])"
    if "list_all (\<lambda>p. \<exists>err. p = ProbeFails err \<and> collapseDialErr err \<noteq> []) qs" for qs r
    using that by (induction qs arbitrary: r) auto
  show ?thesis using f [OF assms(1)] assms(2,3) by (simp add: evaluatePreflight_def runPreflight_def okFraction_def)
qed

lemma public_is_routable:
  "ip_class x = HostPublicIP \<longleftrightarrow> \<not> IsLoopback x \<and> \<not> IsPrivate x \<and> \<not> IsLinkLocalUnicast x \<and> \<not> isCGNAT x"
  by (simp add: ip_class_def)

text \<open>Every interface of the own host, 0.0.0.0, is taken for a public address.\<close>

lemma zero_is_public: "ip_class (net_IPv4 0 0 0 0) = HostPublicIP"
  by (simp add: public_is_routable IsLoopback_def IsPrivate_def IsLinkLocalUnicast_def isCGNAT_def To4_def net_IPv4_def
      v4InV6Prefix_def)

end
