(* ===== verification/Llm.thy ===== *)
theory Llm
  imports Drafts Advisor
begin

text \<open>
  The AI sidecar around its guards: the client of the language model (\<^verbatim>\<open>internal/llm/openai.go\<close>), the choice of
  a generator from the environment in \<^verbatim>\<open>auctioneer.go\<close>, \<^verbatim>\<open>listing.go\<close> and \<^verbatim>\<open>vlm.go\<close>, the prompts of the
  commentary, and the routes of \<^verbatim>\<open>cmd/sidecar/main.go\<close>. The network and the decoding of JSON are arguments.
  Then: what a completion is, that a box without credentials calls nobody, that the backend takes what the
  sidecar answers, and where the vision endpoint breaks.
\<close>

section \<open>Configuration\<close>

type_synonym environment = "string \<Rightarrow> string"

definition DefaultArkBaseURL :: string where
  "DefaultArkBaseURL = ''https://ark.cn-beijing.volces.com/api/v3''"

record llm_config =
  lm_BaseURL :: string
  lm_APIKey :: string
  lm_Model :: string
  lm_Timeout :: int \<comment> \<open>nanoseconds\<close>
  lm_Thinking :: string

definition llm_envOr :: "environment \<Rightarrow> string \<Rightarrow> string \<Rightarrow> string" where
  "llm_envOr env key def = (let v = TrimSpace (env key) in if v \<noteq> [] then v else def)"

definition envDurationMs :: "environment \<Rightarrow> string \<Rightarrow> int \<Rightarrow> int" where
  "envDurationMs env key def =
     (let v = TrimSpace (env key) in
      if v = [] then def
      else (case ParseInt v of POk ms \<Rightarrow> (if ms \<le> 0 then def else wrap64 (ms * 1000000)) | _ \<Rightarrow> def))"

definition ConfigFromEnv :: "environment \<Rightarrow> string \<Rightarrow> string \<Rightarrow> string \<Rightarrow> llm_config" where
  "ConfigFromEnv env prefix defBaseURL defModel =
     \<lparr>lm_BaseURL = llm_envOr env (prefix @ ''_BASE_URL'') defBaseURL,
      lm_APIKey = TrimSpace (env (prefix @ ''_API_KEY'')),
      lm_Model = llm_envOr env (prefix @ ''_MODEL'') defModel,
      lm_Timeout = envDurationMs env (prefix @ ''_TIMEOUT_MS'') 30000000000,
      lm_Thinking = TrimSpace (env (prefix @ ''_THINKING''))\<rparr>"

definition Enabled :: "llm_config \<Rightarrow> bool" where
  "Enabled c \<longleftrightarrow> TrimSpace (lm_APIKey c) \<noteq> [] \<and> TrimSpace (lm_Model c) \<noteq> []"

section \<open>One completion\<close>

text \<open>A turn is a text, or a text with the bytes of an image, which travel in a data URL.\<close>

datatype llm_content = TextPart "rune list" | ImagePart "rune list" "8 word list"

record llm_message =
  ms_Role :: string
  ms_Content :: llm_content

definition System :: "rune list \<Rightarrow> llm_message" where "System t = \<lparr>ms_Role = ''system'', ms_Content = TextPart t\<rparr>"
definition UserText :: "rune list \<Rightarrow> llm_message" where "UserText t = \<lparr>ms_Role = ''user'', ms_Content = TextPart t\<rparr>"
definition UserWithImage :: "rune list \<Rightarrow> 8 word list \<Rightarrow> llm_message" where
  "UserWithImage t img = \<lparr>ms_Role = ''user'', ms_Content = ImagePart t img\<rparr>"

text \<open>The temperature is kept in tenths.\<close>

record chatRequest =
  cr_Model :: string
  cr_Messages :: "llm_message list"
  cr_MaxTokens :: int
  cr_Temperature10 :: int
  cr_Thinking :: "string option"

text \<open>The decoded answer: the contents of its choices and the message of its error.\<close>

record chatResponse =
  ch_Choices :: "rune list list"
  ch_Error :: "rune list option"

text \<open>What the network does with URL, key, body and timeout: no answer, an answer whose body breaks, or status and
  body; and how a body decodes.\<close>

record llm_net =
  ln_post :: "string \<Rightarrow> string \<Rightarrow> chatRequest \<Rightarrow> int \<Rightarrow> (int \<times> 8 word list option) option"
  ln_decode :: "8 word list \<Rightarrow> chatResponse option"

datatype llm_error = ErrNotConfigured | ErrTransport | ErrBodyRead | ErrHttpStatus int "8 word list"
  | ErrDecode | ErrApi "rune list" | ErrEmptyChoices | ErrEmptyCompletion

definition TrimRight_slash :: "string \<Rightarrow> string" where
  "TrimRight_slash s = rev (dropWhile (\<lambda>c. c = CHR ''/'') (rev s))"

definition chat_body :: "llm_config \<Rightarrow> llm_message list \<Rightarrow> int \<Rightarrow> int \<Rightarrow> chatRequest" where
  "chat_body c msgs maxTokens temperature10 =
     \<lparr>cr_Model = lm_Model c, cr_Messages = msgs, cr_MaxTokens = (if maxTokens \<le> 0 then 512 else maxTokens),
      cr_Temperature10 = temperature10, cr_Thinking = (if lm_Thinking c \<noteq> [] then Some (lm_Thinking c) else None)\<rparr>"

definition call_timeout :: "llm_config \<Rightarrow> int" where
  "call_timeout c = (if lm_Timeout c \<le> 0 then 8000000000 else lm_Timeout c)"

definition Complete :: "llm_net \<Rightarrow> llm_config \<Rightarrow> llm_message list \<Rightarrow> int \<Rightarrow> int \<Rightarrow> llm_error + rune list" where
  "Complete net c msgs maxTokens temperature10 =
     (if \<not> Enabled c then Inl ErrNotConfigured
      else (case ln_post net (TrimRight_slash (lm_BaseURL c) @ ''/chat/completions'') (lm_APIKey c)
                   (chat_body c msgs maxTokens temperature10) (call_timeout c) of
                 None \<Rightarrow> Inl ErrTransport
               | Some (status, None) \<Rightarrow> Inl ErrBodyRead
               | Some (status, Some raw) \<Rightarrow>
                   (let kept = take (2 ^ 20) raw in
                    if status \<noteq> 200 then Inl (ErrHttpStatus status (take 200 kept))
                    else (case ln_decode net kept of
                            None \<Rightarrow> Inl ErrDecode
                          | Some r \<Rightarrow>
                              (if \<exists>m. ch_Error r = Some m \<and> m \<noteq> [] then Inl (ErrApi (the (ch_Error r)))
                               else (case ch_Choices r of
                                       [] \<Rightarrow> Inl ErrEmptyChoices
                                     | t # ts \<Rightarrow>
                                         (if TrimSpaces t = [] then Inl ErrEmptyCompletion else Inr (TrimSpaces t))))))))"

definition answer_of :: "'e + 'a \<Rightarrow> 'a option" where
  "answer_of r = (case r of Inl x \<Rightarrow> None | Inr y \<Rightarrow> Some y)"

section \<open>Commentary\<close>

record Ctx =
  cx_CurrentPriceCents :: string
  cx_StepCents :: string
  cx_WinnerDisplayName :: "rune list"
  cx_ExtendCount :: int
  cx_SecondsSinceLastBid :: int

record auct_request =
  ar_AuctionID :: string
  ar_Trigger :: string
  ar_Ctx :: Ctx

definition runes_int :: "int \<Rightarrow> rune list" where
  "runes_int n = runes (FormatInt n)"

definition renderTriggerCtx :: "auct_request \<Rightarrow> rune list" where
  "renderTriggerCtx q =
     (let w = cx_WinnerDisplayName (ar_Ctx q); winner = (if w = [] then runes ''nobody yet'' else w); t = ar_Trigger q in
      if t = ''open'' then runes ''Scene=auction opening. Leader='' @ winner
        @ runes ''. Open the session and remind everyone about the last-10-seconds anti-snipe extension.''
      else if t = ''surge'' then runes ''Scene=bidding heating up, increments coming faster. Leader='' @ winner
        @ runes '', extended '' @ runes_int (cx_ExtendCount (ar_Ctx q)) @ runes '' time(s). Build the tension.''
      else if t = ''cold'' then (runes ''Scene=cold spell, quiet for '' @ runes_int (cx_SecondsSinceLastBid (ar_Ctx q))
        @ runes '' seconds. Leader='') @ winner @ runes ''. Push the room to bid back.''
      else if t = ''hammer'' then runes ''Scene=hammer, sold. Winner='' @ winner
        @ runes ''. Announce the sale, congratulate them, and mention the sequence is on the chain.''
      else runes ''Scene=auction in progress.'')"

definition auct_Mock :: "auct_request \<Rightarrow> rune list option" where
  "auct_Mock q =
     (let w = cx_WinnerDisplayName (ar_Ctx q); winner = (if w = [] then runes ''SeaBreeze_2024'' else w); t = ar_Trigger q in
      if t = ''open'' then Some (runes ''We are open - '' @ winner @ runes '', watch the clock.'')
      else if t = ''surge'' then Some (winner @ runes '' jumps three steps at once - that is a serious bidder.'')
      else if t = ''cold'' then Some (runes ''Quiet for '' @ runes_int (cx_SecondsSinceLastBid (ar_Ctx q))
        @ runes ''s - who is going to break the silence?'')
      else if t = ''hammer'' then Some (runes ''Hammer down - '' @ winner @ runes '' takes it; sequence on the chain.'')
      else None)"

definition auctioneerSystem :: string where
  "auctioneerSystem = ''You are the AI auctioneer of a live-streamed auction. Given the auction state, write ONE spoken-style English line ''
     @ ''of at most 20 words that names the current situation and lifts the energy. Never include a URL, a phone number, a specific ''
     @ ''currency amount, or claims such as \"guaranteed authentic\", \"100% genuine\", \"tenfold refund\", \"absolute lowest price\", ''
     @ ''\"only one in existence\", or \"buyback at original price\". Output only the line itself, with no quotes and no prefix.''"

definition auct_ark :: "llm_net \<Rightarrow> llm_config \<Rightarrow> auct_request \<Rightarrow> rune list option" where
  "auct_ark net cfg q = answer_of (Complete net cfg [System (runes auctioneerSystem), UserText (renderTriggerCtx q)] 96 9)"

text \<open>The generator and the label of its model.\<close>

definition auct_Select :: "environment \<Rightarrow> llm_net \<Rightarrow> (auct_request \<Rightarrow> rune list option) \<times> string" where
  "auct_Select env net =
     (let cfg = ConfigFromEnv env ''LLM'' DefaultArkBaseURL [] in
      if \<not> Enabled cfg then (auct_Mock, ''mock-llm-T7'') else (auct_ark net cfg, lm_Model cfg))"

definition auct_Handler ::
  "(auct_request \<Rightarrow> rune list option) \<times> string \<Rightarrow> auct_request option \<Rightarrow> int \<times> (commentary \<times> string) option" where
  "auct_Handler g body =
     (case body of
        None \<Rightarrow> (400, None)
      | Some q \<Rightarrow>
          (if \<not> validTrigger (ar_Trigger q) then (400, None)
           else (200, Some (generateWithGuardrail (ar_Trigger q) (fst g q), snd g))))"

section \<open>Listing copy\<close>

definition listing_system :: string where
  "listing_system = ''You are the copywriting assistant for a live auction. From the product information the seller provides, produce JSON: ''
     @ ''{\"title\":\"lot title\",\"sellingPoints\":[\"point 1\",\"point 2\",\"point 3\"],\"script\":\"opening line\"}''
     @ ''. Requirements: the title is at most 80 characters; 3-4 selling points of at most 60 characters each; the script is at most 320 characters and sounds spoken. ''
     @ ''Never make absolute or unverified claims such as guaranteed authentic, genuine, absolute, lowest price, or only one in existence. ''
     @ ''Never invent facts that are not in the input (brand, year, and condition may only quote what the seller gave). ''
     @ ''Never include a URL, a phone number, or a specific currency amount. Output only the JSON, with no prefix and no code fence.''"

text \<open>\<open>decode\<close> reads the object as a draft.\<close>

definition parseDraft :: "(rune list \<Rightarrow> Draft option) \<Rightarrow> rune list \<Rightarrow> Draft option" where
  "parseDraft decode content = decode (extractJSONObject content)"

definition listing_ark ::
  "llm_net \<Rightarrow> (rune list \<Rightarrow> Draft option) \<Rightarrow> llm_config \<Rightarrow> listing_request \<Rightarrow> Draft option" where
  "listing_ark net decode cfg q =
     Option.bind (answer_of (Complete net cfg [System (runes listing_system), UserText (renderInput q)] 400 8)) (parseDraft decode)"

definition listing_Select ::
  "environment \<Rightarrow> llm_net \<Rightarrow> (rune list \<Rightarrow> Draft option) \<Rightarrow> (listing_request \<Rightarrow> Draft option) \<times> string" where
  "listing_Select env net decode =
     (let cfg = ConfigFromEnv env ''LLM'' DefaultArkBaseURL [] in
      if \<not> Enabled cfg then (\<lambda>q. Some (listing_Mock q), ''mock-listing'') else (listing_ark net decode cfg, lm_Model cfg))"

definition listing_Handler ::
  "(listing_request \<Rightarrow> Draft option) \<times> string \<Rightarrow> listing_request option \<Rightarrow> int \<times> listing_response option" where
  "listing_Handler g body =
     (case body of None \<Rightarrow> (400, None) | Some q \<Rightarrow> (200, Some (draftWithGuardrail (snd g) q (fst g q))))"

section \<open>Facts from an image\<close>

definition visionSystem :: string where
  "visionSystem = ''You are the vision assistant for a live auction: you extract objective facts, estimate a market reference price, and write an intro people want to act on. Return exactly one compact JSON object, with no explanation and no markdown code fence, and all text in English:'' @ [CHR 0x0A]
     @ ''{\"facts\":[{\"field\":\"category|brand|model|condition|defects|material|color|estimateCNY\",\"value\":\"...\",\"confidence\":0.0-1.0,\"highRisk\":false}],\"intro\":\"...\"}'' @ [CHR 0x0A]
     @ ''facts rules: value holds only what is objectively visible in the image; any field touching authenticity must have highRisk=true and confidence=0, because the platform does not guarantee authenticity.'' @ [CHR 0x0A]
     @ ''estimateCNY rules: estimate a market reference price from the image; value holds only a whole CNY number (such as \"12000\") and must have highRisk=true and confidence<=0.5, because the estimate is only for the seller configuring the increment and is never shown to buyers.'' @ [CHR 0x0A]
     @ ''intro rules: at most 110 characters, human and vivid like a top host reading it aloud, a little playful, and aimed at making people want to bid; ''
     @ ''you may mention how it feels in hand, where it fits, and one telling detail; describe only what is genuinely visible in the image and never exaggerate or invent; ''
     @ ''never include authenticity claims, hints about appreciation or investment, a specific price, a phone number, a link, or a disclaimer (the system appends the disclaimer itself).''"

text \<open>A reply as JSON: no object, \<^verbatim>\<open>null\<close>, or an object with the model name, when that is a string, and with facts
  and introduction, when they have their types.\<close>

datatype vision_json = VNoObject | VNull | VObject "rune list option" "(VLMFact list \<times> rune list) option"

definition cannedVisionFacts :: vlm_reply where
  "cannedVisionFacts =
     \<lparr>vy_Facts =
        [\<lparr>vf_Field = runes ''category'', vf_Value = runes ''watch'', vf_Confidence = 93 / 100, vf_HighRisk = False\<rparr>,
         \<lparr>vf_Field = runes ''brand'', vf_Value = runes ''Patek Philippe'', vf_Confidence = 88 / 100, vf_HighRisk = False\<rparr>,
         \<lparr>vf_Field = runes ''authenticity'', vf_Value = runes ''unverified'', vf_Confidence = 0, vf_HighRisk = True\<rparr>],
      vy_Intro = [], vy_ModelName = runes ''doubao-vlm-stub''\<rparr>"

text \<open>\<^verbatim>\<open>withModelName\<close> followed by the decoding in \<^verbatim>\<open>parseDoubao\<close>. Assigning into the nil map that \<^verbatim>\<open>null\<close> decodes
  to panics.\<close>

datatype vision_call = VisionFails | VisionPanics | VisionRaw "vlm_reply option"

definition withModelName :: "vision_json \<Rightarrow> string \<Rightarrow> vision_call" where
  "withModelName j model =
     (case j of
        VNoObject \<Rightarrow> VisionRaw None
      | VNull \<Rightarrow> VisionPanics
      | VObject name rest \<Rightarrow>
          (let m = (case name of Some v \<Rightarrow> (if TrimSpaces v = [] then runes model else v) | None \<Rightarrow> runes model)
           in VisionRaw (map_option (\<lambda>(fs, intro). \<lparr>vy_Facts = fs, vy_Intro = intro, vy_ModelName = m\<rparr>) rest)))"

definition callDoubao ::
  "environment \<Rightarrow> llm_net \<Rightarrow> (rune list \<Rightarrow> vision_json) \<Rightarrow> string \<Rightarrow> rune list \<Rightarrow> 8 word list \<Rightarrow> vision_call" where
  "callDoubao env net decode key prompt img =
     (let c0 = ConfigFromEnv env ''VLM'' DefaultArkBaseURL [];
          cfg = (if lm_APIKey c0 = [] then c0\<lparr>lm_APIKey := TrimSpace key\<rparr> else c0)
      in if \<not> Enabled cfg then VisionRaw (Some cannedVisionFacts)
         else (case Complete net cfg [System (runes visionSystem), UserWithImage prompt img] 700 5 of
                 Inl x \<Rightarrow> VisionFails
               | Inr content \<Rightarrow> withModelName (decode (extractJSONObject content)) (lm_Model cfg)))"

text \<open>The generator: canned, or the real one with its key.\<close>

definition vlm_Select :: "environment \<Rightarrow> string option" where
  "vlm_Select env =
     (if env ''VLM_MODE'' = ''mock'' then None
      else (let cfg = ConfigFromEnv env ''VLM'' DefaultArkBaseURL [];
                key = (if lm_APIKey cfg = [] then TrimSpace (env ''VLM_DOUBAO_KEY'') else lm_APIKey cfg)
            in if \<not> (Enabled cfg \<or> env ''VLM_MODE'' = ''real'') \<or> key = [] then None else Some key))"

text \<open>The route; \<^term>\<open>None\<close> is a panic, which the server turns into a connection without a response.\<close>

definition facts_route ::
  "environment \<Rightarrow> llm_net \<Rightarrow> (rune list \<Rightarrow> vision_json) \<Rightarrow> (string \<Rightarrow> ip list option) \<Rightarrow> (ip \<Rightarrow> response option)
    \<Rightarrow> vlm_request option \<Rightarrow> (int \<times> vlm_response option) option" where
  "facts_route env net decode lookup peer body =
     (case vlm_Select env of
        None \<Rightarrow> Some (vlm_Handler (\<lambda>q. Inr vlm_Mock) body)
      | Some key \<Rightarrow>
          (let call = callDoubao env net decode key;
               panics = (\<exists>q\<in>set_option body. \<exists>u\<in>set (take 1 (vq_ImageURLs q)).
                 case FetchImage blocked lookup peer u of
                   Inl x \<Rightarrow> False
                 | Inr img \<Rightarrow> call (buildPrompt (vq_Title q) (vq_Description q)) img = VisionPanics)
           in if panics then None
              else Some (vlm_Handler (doubaoGenerate lookup peer
                (\<lambda>p img. case call p img of VisionRaw r \<Rightarrow> Some r | _ \<Rightarrow> None)) body)))"

section \<open>The routes\<close>

datatype sidecar_request = Healthz | FactsDraft "vlm_request option" | LlmAuctioneer "auct_request option"
  | LlmListing "listing_request option" | LlmRecommend "AdvRequest option" | OtherRoute

datatype sidecar_response = HealthOk | FactsResponse "(int \<times> vlm_response option) option"
  | AuctResponse "int \<times> (commentary \<times> string) option" | ListingResponse "int \<times> listing_response option"
  | AdviceResponse "int \<times> AdvResponse option" | NotFound

record sidecar_world =
  sw_net :: llm_net
  sw_draft :: "rune list \<Rightarrow> Draft option"
  sw_vision :: "rune list \<Rightarrow> vision_json"
  sw_lookup :: "string \<Rightarrow> ip list option"
  sw_peer :: "ip \<Rightarrow> response option"

definition sidecar_serve :: "environment \<Rightarrow> sidecar_world \<Rightarrow> sidecar_request \<Rightarrow> sidecar_response" where
  "sidecar_serve env w q =
     (case q of
        Healthz \<Rightarrow> HealthOk
      | FactsDraft b \<Rightarrow> FactsResponse (facts_route env (sw_net w) (sw_vision w) (sw_lookup w) (sw_peer w) b)
      | LlmAuctioneer b \<Rightarrow> AuctResponse (auct_Handler (auct_Select env (sw_net w)) b)
      | LlmListing b \<Rightarrow> ListingResponse (listing_Handler (listing_Select env (sw_net w) (sw_draft w)) b)
      | LlmRecommend b \<Rightarrow> AdviceResponse (HandlerFunc MockGenerator b)
      | OtherRoute \<Rightarrow> NotFound)"

definition sidecar_addr :: "environment \<Rightarrow> string" where
  "sidecar_addr env = (if env ''SIDECAR_ADDR'' = [] then '':8090'' else env ''SIDECAR_ADDR'')"

section \<open>Completions\<close>

lemma trim_nil [simp]: "TrimSpace [] = []"
  by (simp add: TrimSpace_def)

text \<open>A completion is never blank, the request carries the model and key of the configuration to the completions
  path, and what an error keeps of the body is short.\<close>

theorem complete_text:
  assumes "Complete net c msgs n t = Inr text"
  shows "text \<noteq> []" and "Enabled c"
    and "\<exists>raw. ln_post net (TrimRight_slash (lm_BaseURL c) @ ''/chat/completions'') (lm_APIKey c) (chat_body c msgs n t) (call_timeout c)
      = Some (200, Some raw)"
  using assms
  by (auto simp: Complete_def Let_def split: if_splits option.splits list.splits)

lemma status_snippet: "Complete net c msgs n t = Inl (ErrHttpStatus s b) \<Longrightarrow> s \<noteq> 200 \<and> length b \<le> 200"
  by (auto simp: Complete_def Let_def split: if_splits option.splits list.splits)

lemma no_double_slash: "TrimRight_slash (s @ ''/'') = TrimRight_slash s"
  by (simp add: TrimRight_slash_def)

section \<open>Without credentials\<close>

definition no_credentials :: "environment \<Rightarrow> bool" where
  "no_credentials env \<longleftrightarrow> TrimSpace (env ''LLM_API_KEY'') = [] \<and> TrimSpace (env ''VLM_API_KEY'') = []
     \<and> TrimSpace (env ''VLM_DOUBAO_KEY'') = []"

text \<open>A box without keys answers without the network, whatever else the environment says.\<close>

theorem offline_box:
  assumes "no_credentials env"
  shows "sidecar_serve env w q = sidecar_serve env w' q"
  using assms
  by (cases q) (simp_all add: sidecar_serve_def no_credentials_def auct_Select_def listing_Select_def vlm_Select_def
      facts_route_def ConfigFromEnv_def Enabled_def Let_def)

section \<open>Commentary from the sidecar to the room\<close>

lemma select_answers:
  assumes "validTrigger (ar_Trigger q)"
  shows "fst (auct_Select env net) q \<noteq> Some []"
proof -
  have "auct_ark net cfg q \<noteq> Some []" for cfg
    using complete_text(1) by (auto simp: auct_ark_def answer_of_def split: sum.splits)
  then show ?thesis using assms
    by (auto simp: auct_Select_def auct_Mock_def Let_def validTrigger_def runes_def)
qed

text \<open>Whatever the model says, a commentary the sidecar sends is one the backend passes on unchanged.\<close>

theorem sidecar_commentary_kept:
  assumes "auct_Handler (auct_Select env net) body = (200, Some (c, m))"
  shows "fire (cm_Trigger c) (Answered_with c) = c" and "failsAuctioneerGuardrail (cm_Commentary c) = None"
proof -
  obtain q a where q: "body = Some q" "validTrigger (ar_Trigger q)" "c = generateWithGuardrail (ar_Trigger q) a" "a \<noteq> Some []"
    using assms select_answers by (fastforce simp: auct_Handler_def split: option.splits if_splits)
  have t: "cm_Trigger c = ar_Trigger q" by (simp add: q(3) generateWithGuardrail_def split: option.split)
  show k: "fire (cm_Trigger c) (Answered_with c) = c"
    using fire_own [OF q(2), of a] q(4) by (simp only: t) (simp add: q(3))
  show "failsAuctioneerGuardrail (cm_Commentary c) = None"
    using fire_passes [of "cm_Trigger c" "Answered_with c"] by (simp only: k)
qed

text \<open>The name of the leader goes into the prompt as it is, currency signs included.\<close>

lemma name_in_prompt:
  assumes "validTrigger (ar_Trigger q)" "cx_WinnerDisplayName (ar_Ctx q) \<noteq> []"
  shows "\<exists>u v. renderTriggerCtx q = u @ cx_WinnerDisplayName (ar_Ctx q) @ v"
proof -
  have "\<exists>u v. renderTriggerCtx q = u @ cx_WinnerDisplayName (ar_Ctx q) @ v" if "ar_Trigger q = t" "t \<in> {''open'', ''surge'', ''cold'', ''hammer''}" for t
    using that assms(2)
    by (elim insertE emptyE) (simp_all del: append_assoc add: renderTriggerCtx_def Let_def, (rule exI, rule exI, rule refl)+)
  then show ?thesis using assms(1) by (simp add: validTrigger_def)
qed

section \<open>Listing copy is guarded whatever the environment\<close>

theorem listing_route_guarded:
  assumes "listing_Handler (listing_Select env net decode) body = (200, Some r)"
  shows "draftFailsGuardrail \<lparr>dr_Title = lp_Title r, dr_SellingPoints = lp_SellingPoints r, dr_Script = lp_Script r\<rparr> = None"
  using assms listing_guarded by (auto simp: listing_Handler_def split: option.splits)

section \<open>The vision endpoint\<close>

text \<open>A model that answers \<^verbatim>\<open>null\<close> crashes the request; every other failure is a 502.\<close>

theorem null_answer_panics:
  assumes "vlm_Select env = Some key" "Enabled (ConfigFromEnv env ''VLM'' DefaultArkBaseURL [])"
    and "FetchImage blocked lookup peer u = Inr img"
    and "Complete net (ConfigFromEnv env ''VLM'' DefaultArkBaseURL [])
        [System (runes visionSystem), UserWithImage (buildPrompt t d) img] 700 5 = Inr content"
    and "decode (extractJSONObject content) = VNull"
  shows "facts_route env net decode lookup peer (Some \<lparr>vq_ImageURLs = [u], vq_Title = t, vq_Description = d\<rparr>) = None"
proof -
  have "lm_APIKey (ConfigFromEnv env ''VLM'' DefaultArkBaseURL []) \<noteq> []"
    using assms(2) by (auto simp: Enabled_def)
  then have "callDoubao env net decode key (buildPrompt t d) img = VisionPanics"
    using assms(2,4,5) by (simp add: callDoubao_def withModelName_def Let_def)
  then show ?thesis using assms(1,3) by (simp add: facts_route_def Let_def)
qed

text \<open>Asked for the real model with a key but no model name, the endpoint reports the same watch for every picture,
  its brand as seen and not as a risk.\<close>

theorem same_watch_for_all:
  assumes "vlm_Select env = Some key" "TrimSpace (env ''VLM_MODEL'') = []"
    and "facts_route env net decode lookup peer (Some q) = Some (200, Some r)"
  shows "vp_Facts r = vy_Facts cannedVisionFacts" and "vp_ModelName r = runes ''doubao-vlm-stub''"
proof -
  let ?c = "ConfigFromEnv env ''VLM'' DefaultArkBaseURL []"
  have off: "\<not> Enabled (?c\<lparr>lm_APIKey := x\<rparr>)" "\<not> Enabled ?c" for x
    using assms(2) by (simp_all add: Enabled_def ConfigFromEnv_def llm_envOr_def Let_def TrimSpace_def)
  have raw: "callDoubao env net decode key p img = VisionRaw (Some cannedVisionFacts)" for p img
    using off by (simp add: callDoubao_def Let_def)
  have "vlm_Handler (doubaoGenerate lookup peer (\<lambda>p img. Some (Some cannedVisionFacts))) (Some q) = (200, Some r)"
    using assms(1,3) by (simp add: facts_route_def Let_def raw split: if_splits)
  then obtain g where "doubaoGenerate lookup peer (\<lambda>p img. Some (Some cannedVisionFacts)) q = Inr g"
      "vp_Facts r = vp_Facts g" "vp_ModelName r = vp_ModelName g"
    by (auto simp: vlm_Handler_def split: sum.splits if_splits)
  then have "vp_Facts r = vy_Facts cannedVisionFacts" "vp_ModelName r = vy_ModelName cannedVisionFacts"
    by (auto simp: doubaoGenerate_def parseDoubao_def split: list.splits sum.splits)
  then show "vp_Facts r = vy_Facts cannedVisionFacts" "vp_ModelName r = runes ''doubao-vlm-stub''"
    by (simp_all add: cannedVisionFacts_def)
qed

lemma real_without_key:
  "TrimSpace (env ''VLM_API_KEY'') = [] \<Longrightarrow> TrimSpace (env ''VLM_DOUBAO_KEY'') = [] \<Longrightarrow> vlm_Select env = None"
  by (simp add: vlm_Select_def ConfigFromEnv_def Let_def)

end
