(* ===== verification/Routes.thy ===== *)
theory Routes
  imports Startup
begin

text \<open>
  The routing table of \<^verbatim>\<open>server/server.go\<close> and the request multiplexer of Go's \<^verbatim>\<open>net/http\<close> as the table uses it,
  up to the static files of the web client. Paths are escaped paths. Then: no two entries of the table take the same
  request, an API path is never answered with the web page, a request that only reads reaches no handler that
  writes, and a wrong method is answered as an unknown path.
\<close>

section \<open>The table\<close>

datatype handler = Health | Version | MetricsRead | MetricsReset | Login | DevLogin | CreateProduct_h | FactsDraft_h
  | ListingDraft_h | ListAuctions_h | CreateAuction_h | RecommendMode | GetAuction_h | GetAuctionStream | UploadStreamVideo
  | PatchAuction | EventsCount_h | Leaderboard_h | PlaceBidHTTP | Evidence_h | GetOrder_h | Freeze_h | Start_h | Cancel_h
  | DeleteAuction_h | PrequalifyRecommendation | SpawnFormal | PayOrder | Social_h | Upload_h | UploadVideo_h | WebSocket

datatype seg = Word string | Var

type_synonym entry = "string \<times> seg list \<times> handler"

definition auction_path :: "seg list" where
  "auction_path = [Word ''api'', Word ''auctions'', Var]"

definition route_table :: "entry list" where
  "route_table =
    [(''GET'', [Word ''healthz''], Health),
     (''GET'', [Word ''version''], Version),
     (''GET'', [Word ''metrics''], MetricsRead),
     (''POST'', [Word ''admin'', Word ''metrics'', Word ''reset''], MetricsReset),
     (''POST'', [Word ''api'', Word ''login''], Login),
     (''POST'', [Word ''api'', Word ''dev-login''], DevLogin),
     (''POST'', [Word ''api'', Word ''products''], CreateProduct_h),
     (''POST'', [Word ''api'', Word ''facts'', Word ''draft''], FactsDraft_h),
     (''POST'', [Word ''api'', Word ''listing'', Word ''draft''], ListingDraft_h),
     (''GET'', [Word ''api'', Word ''auctions''], ListAuctions_h),
     (''POST'', [Word ''api'', Word ''auctions''], CreateAuction_h),
     (''POST'', [Word ''api'', Word ''recommend-mode''], RecommendMode),
     (''GET'', auction_path, GetAuction_h),
     (''GET'', auction_path @ [Word ''stream''], GetAuctionStream),
     (''POST'', auction_path @ [Word ''stream'', Word ''video''], UploadStreamVideo),
     (''PATCH'', auction_path, PatchAuction),
     (''GET'', auction_path @ [Word ''events-count''], EventsCount_h),
     (''GET'', auction_path @ [Word ''leaderboard''], Leaderboard_h),
     (''POST'', auction_path @ [Word ''bids''], PlaceBidHTTP),
     (''GET'', auction_path @ [Word ''evidence''], Evidence_h),
     (''GET'', auction_path @ [Word ''order''], GetOrder_h),
     (''POST'', auction_path @ [Word ''freeze''], Freeze_h),
     (''POST'', auction_path @ [Word ''start''], Start_h),
     (''POST'', auction_path @ [Word ''cancel''], Cancel_h),
     (''DELETE'', auction_path, DeleteAuction_h),
     (''GET'', auction_path @ [Word ''prequalify-recommendation''], PrequalifyRecommendation),
     (''POST'', auction_path @ [Word ''spawn-formal''], SpawnFormal),
     (''POST'', auction_path @ [Word ''pay''], PayOrder),
     (''POST'', auction_path @ [Word ''social''], Social_h),
     (''POST'', [Word ''api'', Word ''upload''], Upload_h),
     (''POST'', [Word ''api'', Word ''upload'', Word ''video''], UploadVideo_h),
     (''GET'', [Word ''ws''], WebSocket)]"

section \<open>The multiplexer\<close>

text \<open>A GET pattern takes HEAD too; a variable takes one segment that is not empty.\<close>

definition takes_method :: "string \<Rightarrow> string \<Rightarrow> bool" where
  "takes_method pat m \<longleftrightarrow> m = pat \<or> pat = ''GET'' \<and> m = ''HEAD''"

fun takes_seg :: "seg \<Rightarrow> string \<Rightarrow> bool" where
  "takes_seg (Word w) s \<longleftrightarrow> s = w"
| "takes_seg Var s \<longleftrightarrow> s \<noteq> []"

text \<open>The segments after the leading slash; a trailing slash leaves an empty last one.\<close>

definition segments :: "string \<Rightarrow> string list" where
  "segments p = tl (split_on CHR ''/'' p)"

definition takes_entry :: "string \<Rightarrow> string list \<Rightarrow> entry \<Rightarrow> bool" where
  "takes_entry m ss e \<longleftrightarrow> (case e of (pat, segs, h) \<Rightarrow> takes_method pat m \<and> list_all2 takes_seg segs ss)"

fun bound_id :: "seg list \<Rightarrow> string list \<Rightarrow> string" where
  "bound_id (Var # segs) (s # ss) = s"
| "bound_id (Word w # segs) (s # ss) = bound_id segs ss"
| "bound_id segs ss = []"

text \<open>\<^verbatim>\<open>cleanPath\<close>: rooted, cleaned, a trailing slash kept.\<close>

definition cleanPath :: "string \<Rightarrow> string" where
  "cleanPath p =
     (if p = [] then ''/''
      else (let q = (if HasPrefix p ''/'' then p else CHR ''/'' # p); c = join_path (Clean q)
            in if c = [] then ''/'' else if HasSuffix q ''/'' then c @ ''/'' else c))"

definition canonical :: "string \<Rightarrow> string \<Rightarrow> string" where
  "canonical m p = (if m = ''CONNECT'' then p else cleanPath p)"

text \<open>Where a request goes: a handler with the id of the path, uploaded files, the stream server, the web client, or
  a redirect.\<close>

datatype target = Handled handler string | Uploads string | LiveProxy string | WebClient string | MovedTo string

definition mux :: "string \<Rightarrow> string \<Rightarrow> target" where
  "mux m p =
     (let q = canonical m p in
      case find (takes_entry m (segments q)) route_table of
        Some (pat, segs, h) \<Rightarrow> (if q \<noteq> p then MovedTo q else Handled h (bound_id segs (segments q)))
      | None \<Rightarrow>
          (if q = ''/live'' \<or> q = ''/uploads'' \<and> takes_method ''GET'' m then MovedTo (q @ ''/'')
           else if q \<noteq> p then MovedTo q
           else if HasPrefix q ''/live/'' then LiveProxy q
           else if HasPrefix q ''/uploads/'' \<and> takes_method ''GET'' m then Uploads q
           else WebClient q))"

text \<open>The answer: \<open>fs\<close> is the web directory.\<close>

datatype answer = ByHandler handler string | ByUploads string | ByProxy string | ByClient served | ByRedirect string

definition serve_request :: "(string list \<Rightarrow> bool option) \<Rightarrow> string \<Rightarrow> string \<Rightarrow> answer" where
  "serve_request fs m p =
     (case mux m p of
        Handled h i \<Rightarrow> ByHandler h i
      | Uploads q \<Rightarrow> ByUploads q
      | LiveProxy q \<Rightarrow> ByProxy q
      | WebClient q \<Rightarrow> ByClient (spaFileServer fs q)
      | MovedTo q \<Rightarrow> ByRedirect q)"

section \<open>One entry per request\<close>

text \<open>The multiplexer prefers the more specific of two patterns that take a request. In this table there never are two:
  patterns that could both take one have the same length, methods that meet and compatible segments.\<close>

fun segs_meet :: "seg \<Rightarrow> seg \<Rightarrow> bool" where
  "segs_meet (Word a) (Word b) \<longleftrightarrow> a = b"
| "segs_meet (Word a) Var \<longleftrightarrow> a \<noteq> []"
| "segs_meet Var (Word b) \<longleftrightarrow> b \<noteq> []"
| "segs_meet Var Var \<longleftrightarrow> True"

definition entries_meet :: "entry \<Rightarrow> entry \<Rightarrow> bool" where
  "entries_meet e f \<longleftrightarrow> fst e = fst f \<and> list_all2 segs_meet (fst (snd e)) (fst (snd f))"

lemma takes_segs_meet:
  "list_all2 takes_seg a ss \<Longrightarrow> list_all2 takes_seg b ss \<Longrightarrow> list_all2 segs_meet a b"
proof (induction a arbitrary: b ss)
  case (Cons x xs)
  then obtain s ss' y ys where "ss = s # ss'" "b = y # ys" by (cases ss; cases b) auto
  then show ?case using Cons by (cases x; cases y) auto
qed auto

fun apart :: "entry list \<Rightarrow> bool" where
  "apart [] \<longleftrightarrow> True"
| "apart (e # es) \<longleftrightarrow> \<not> list_ex (entries_meet e) es \<and> apart es"

lemma table_apart: "apart route_table"
  by code_simp

lemma table_methods: "list_all (\<lambda>e. fst e \<in> {''GET'', ''POST'', ''PATCH'', ''DELETE''}) route_table"
  by code_simp

lemma apart_unique:
  assumes "apart es" "e \<in> set es" "f \<in> set es" "entries_meet e f" "entries_meet f e"
  shows "e = f"
  using assms by (induction es) (auto simp: list_ex_iff)

theorem one_entry:
  assumes "e \<in> set route_table" "f \<in> set route_table" "takes_entry m ss e" "takes_entry m ss f"
  shows "e = f"
proof -
  have k: "fst e \<in> {''GET'', ''POST'', ''PATCH'', ''DELETE''}" "fst f \<in> {''GET'', ''POST'', ''PATCH'', ''DELETE''}"
    using table_methods assms(1,2) unfolding list_all_iff by blast+
  have "fst e = fst f"
    using assms(3,4) k by (cases e; cases f) (auto simp: takes_entry_def takes_method_def)
  moreover have "list_all2 segs_meet (fst (snd e)) (fst (snd f))" "list_all2 segs_meet (fst (snd f)) (fst (snd e))"
    using assms(3,4) by (auto simp: takes_entry_def split: prod.splits intro: takes_segs_meet)
  ultimately have "entries_meet e f" "entries_meet f e" by (simp_all add: entries_meet_def)
  then show ?thesis by (rule apart_unique [OF table_apart assms(1,2)])
qed

lemma mux_handled:
  assumes "mux m p = Handled h i"
  shows "\<exists>pat segs. (pat, segs, h) \<in> set route_table \<and> takes_method pat m \<and> list_all2 takes_seg segs (segments p)
    \<and> i = bound_id segs (segments p)"
proof -
  define q where "q = canonical m p"
  obtain e where e: "find (takes_entry m (segments q)) route_table = Some e" "q = p"
      "Handled h i = (case e of (pat, segs, h) \<Rightarrow> Handled h (bound_id segs (segments q)))"
    using assms unfolding mux_def Let_def q_def [symmetric]
    by (auto split: option.splits prod.splits if_splits)
  then have "e \<in> set route_table" "takes_entry m (segments p) e" by (auto simp: find_Some_iff)
  with e show ?thesis by (cases e) (auto simp: takes_entry_def)
qed

text \<open>And every entry is reached by the requests it takes, on a clean path.\<close>

theorem entry_reached:
  assumes "(pat, segs, h) \<in> set route_table" "takes_method pat m" "list_all2 takes_seg segs (segments p)" "canonical m p = p"
  shows "mux m p = Handled h (bound_id segs (segments p))"
proof -
  have t: "takes_entry m (segments p) (pat, segs, h)" using assms by (simp add: takes_entry_def)
  then obtain e where e: "find (takes_entry m (segments p)) route_table = Some e"
    using assms(1) by (cases "find (takes_entry m (segments p)) route_table") (auto simp: find_None_iff)
  then have "e \<in> set route_table" "takes_entry m (segments p) e" by (auto simp: find_Some_iff)
  then have "e = (pat, segs, h)" using one_entry assms(1) t by blast
  then show ?thesis using e assms(4) by (simp add: mux_def)
qed

section \<open>Methods\<close>

definition writes :: "handler \<Rightarrow> bool" where
  "writes h \<longleftrightarrow> h \<notin> {Health, Version, MetricsRead, ListAuctions_h, GetAuction_h, GetAuctionStream, EventsCount_h,
     Leaderboard_h, Evidence_h, GetOrder_h, PrequalifyRecommendation, WebSocket}"

lemma get_entries: "list_all (\<lambda>e. fst e = ''GET'' \<longrightarrow> \<not> writes (snd (snd e))) route_table"
  by code_simp

lemma other_entries: "list_all (\<lambda>e. fst e \<noteq> ''GET'' \<longrightarrow> writes (snd (snd e))) route_table"
  by code_simp

text \<open>A GET or HEAD request reaches no handler that writes, and any other method no handler that reads.\<close>

theorem reads_do_not_write:
  assumes "serve_request fs m p = ByHandler h i"
  shows "m = ''GET'' \<or> m = ''HEAD'' \<longleftrightarrow> \<not> writes h"
proof -
  obtain pat segs where e: "(pat, segs, h) \<in> set route_table" "takes_method pat m"
    using assms mux_handled [of m p h i] by (auto simp: serve_request_def split: target.splits)
  have k: "pat \<in> {''GET'', ''POST'', ''PATCH'', ''DELETE''}" using table_methods e(1) unfolding list_all_iff by fastforce
  have w: "pat = ''GET'' \<longleftrightarrow> \<not> writes h" using get_entries other_entries e(1) unfolding list_all_iff by fastforce
  show ?thesis using k w e(2) by (auto simp: takes_method_def)
qed

section \<open>API paths\<close>

lemma api_prefix:
  assumes "HasPrefix q ''/api/'' \<or> q = ''/api'' \<or> HasPrefix q ''/ws''"
  shows "\<not> HasPrefix q ''/live/'' \<and> \<not> HasPrefix q ''/uploads/'' \<and> q \<noteq> ''/live'' \<and> q \<noteq> ''/uploads'' \<and> spaFileServer fs q = ApiNotFound"
proof -
  consider r where "q = ''/api/'' @ r" | "q = ''/api''" | r where "q = ''/ws'' @ r"
    using assms HasPrefixE [of q] by blast
  then show ?thesis by cases (simp_all add: HasPrefix_def spaFileServer_def)
qed

text \<open>A path of the API is answered by a handler, a redirect to its clean form, or the 404 of the API: never by the
  web page, and never by a 405.\<close>

theorem api_never_page:
  assumes "HasPrefix p ''/api/'' \<or> p = ''/api'' \<or> HasPrefix p ''/ws''"
  shows "serve_request fs m p \<in> {ByClient ApiNotFound} \<union> range ByRedirect \<union> range (\<lambda>(h, i). ByHandler h i)"
proof (cases "mux m p")
  case (Handled h i)
  then show ?thesis by (auto simp: serve_request_def intro: range_eqI [of _ _ "(h, i)"])
next
  case (MovedTo q)
  then show ?thesis by (simp add: serve_request_def)
next
  case (Uploads q)
  then have "HasPrefix p ''/uploads/''" unfolding mux_def Let_def by (auto split: option.splits prod.splits if_splits)
  then show ?thesis using api_prefix [OF assms] by simp
next
  case (LiveProxy q)
  then have "HasPrefix p ''/live/''" unfolding mux_def Let_def by (auto split: option.splits prod.splits if_splits)
  then show ?thesis using api_prefix [OF assms] by simp
next
  case (WebClient q)
  then have "q = p" unfolding mux_def Let_def by (auto split: option.splits prod.splits if_splits)
  then show ?thesis using WebClient api_prefix [OF assms] by (simp add: serve_request_def)
qed

text \<open>A known path with a method no entry has is an unknown path.\<close>

theorem wrong_method_not_found:
  assumes "canonical m p = p" "HasPrefix p ''/api/''" "\<And>e. e \<in> set route_table \<Longrightarrow> \<not> takes_entry m (segments p) e"
  shows "serve_request fs m p = ByClient ApiNotFound"
proof -
  have "find (takes_entry m (segments p)) route_table = None" using assms(3) by (auto simp: find_None_iff)
  moreover have "\<not> HasPrefix p ''/live/'' \<and> \<not> HasPrefix p ''/uploads/'' \<and> p \<noteq> ''/live'' \<and> p \<noteq> ''/uploads'' \<and> spaFileServer fs p = ApiNotFound"
    using assms(2) by (intro api_prefix) simp
  ultimately show ?thesis using assms(1) by (simp add: serve_request_def mux_def)
qed

text \<open>The directory of the uploaded files itself is a request for the file server, which lists directories.\<close>

lemma uploads_listed: "mux ''GET'' ''/uploads/'' = Uploads ''/uploads/''"
  by code_simp

section \<open>Modes\<close>

text \<open>The routes do not depend on the mode: a server without the subscriber takes connections to which no event is
  ever sent. A mode that does not exist is such a server.\<close>

theorem socket_without_subscriber:
  assumes "Serve_workers ev c mode = Some ws" "mode \<notin> {''all'', ''gateway''}"
  shows "SubscribeWorker \<notin> set ws" and "mux ''GET'' ''/ws'' = Handled WebSocket []"
proof -
  show "SubscribeWorker \<notin> set ws" using assms by (auto simp: Serve_workers_def split: option.splits)
  show "mux ''GET'' ''/ws'' = Handled WebSocket []" by code_simp
qed

lemma unknown_mode_serves:
  "mode \<notin> {''all'', ''gateway'', ''pg-writer'', ''timer''} \<Longrightarrow> Serve_workers ev c mode = Some []"
  by (simp add: Serve_workers_def timerDisabledByChaos_def)

end
