(* ===== verification/Commands.thy ===== *)
theory Commands
  imports Startup Verify
begin

text \<open>
  The command line of the backend: \<^verbatim>\<open>cmd/lumen/main.go\<close> and \<^verbatim>\<open>server/cleanup.go\<close>. What the \<^verbatim>\<open>flag\<close> package made of the
  arguments is an argument, a value for every flag that was given; how a command ends is one too, for the commands
  that other theories model. Then: the exit codes, that the clean-up deletes only on demand and only what the load
  tests made, and that verification succeeds exactly on a consistent report.
\<close>

section \<open>Arguments\<close>

record flags =
  fl_mode :: "string option"
  fl_durationSec :: "int option"
  fl_prefix :: "string option"
  fl_execute :: "bool option"
  fl_auction :: "aid option"
  fl_target :: "string option"
  fl_phase :: "string option"
  fl_aid :: "aid option"
  fl_token :: "string option"
  fl_code :: "string option"
  fl_state :: "string option"
  fl_lastSeq :: "int option"
  fl_wantSeq :: "int option"
  fl_durationMs :: "int option"
  fl_timeoutMs :: "int option"

definition given :: "'a \<Rightarrow> 'a option \<Rightarrow> 'a" where
  "given def v = (case v of None \<Rightarrow> def | Some x \<Rightarrow> x)"

definition cli_envBool :: "environ \<Rightarrow> string \<Rightarrow> bool \<Rightarrow> bool" where
  "cli_envBool ev key fallback =
     (if ev key \<in> {''1'', ''true'', ''TRUE'', ''yes'', ''YES''} then True
      else if ev key \<in> {''0'', ''false'', ''FALSE'', ''no'', ''NO''} then False
      else fallback)"

record chaos_args =
  ca_Target :: string
  ca_Phase :: string
  ca_AID :: aid
  ca_Token :: string
  ca_Code :: string
  ca_State :: string
  ca_LastSeq :: int
  ca_WantSeq :: int
  ca_DurationMs :: int
  ca_TimeoutNs :: int

datatype demo = DemoAuction | DemoSuddenDeath | DemoSealed | DemoVickrey | DemoHybrid | DemoAllPay | DemoPrequalify

datatype command = Serve_c string | Seed_c | SeedLoad_c int | Cleanup_c string bool | Verify_c aid | VerifyEvidence_c aid
  | E2E_c string | Demo_c demo string | PerfSmoke_c string | Load_c string | Chaos_c chaos_args

datatype cli = UsageExit | MissingPhase | Command command

definition target_of :: "environ \<Rightarrow> string" where
  "target_of ev = env_or ev ''TARGET'' ''http://localhost:8080''"

definition chaos_of :: "environ \<Rightarrow> flags \<Rightarrow> chaos_args" where
  "chaos_of ev f =
     \<lparr>ca_Target = given (target_of ev) (fl_target f), ca_Phase = given [] (fl_phase f), ca_AID = given [] (fl_aid f),
      ca_Token = given [] (fl_token f), ca_Code = given [] (fl_code f), ca_State = given [] (fl_state f),
      ca_LastSeq = given 0 (fl_lastSeq f), ca_WantSeq = given 0 (fl_wantSeq f), ca_DurationMs = given 0 (fl_durationMs f),
      ca_TimeoutNs = wrap64 (given 10000 (fl_timeoutMs f) * 1000000)\<rparr>"

definition parse_command :: "environ \<Rightarrow> string option \<Rightarrow> flags \<Rightarrow> cli" where
  "parse_command ev arg f =
     (case arg of
        None \<Rightarrow> UsageExit
      | Some c \<Rightarrow>
          (if c = ''serve'' then Command (Serve_c (given ''all'' (fl_mode f)))
           else if c = ''seed'' then Command Seed_c
           else if c = ''seed-load'' then Command (SeedLoad_c (given 3600 (fl_durationSec f)))
           else if c = ''cleanup-load-auctions'' then
             Command (Cleanup_c (given (env_or ev ''LOAD_CLEANUP_AUCTION_PREFIX'' ''auc_load_'') (fl_prefix f))
               (given (cli_envBool ev ''LOAD_CLEANUP_EXECUTE'' False) (fl_execute f)))
           else if c = ''verify'' then Command (Verify_c (given (ev ''VERIFY_AID'') (fl_auction f)))
           else if c = ''verify-evidence'' then Command (VerifyEvidence_c (given (ev ''VERIFY_AID'') (fl_auction f)))
           else if c = ''e2e'' then Command (E2E_c (target_of ev))
           else if c = ''demo-auction'' then Command (Demo_c DemoAuction (target_of ev))
           else if c = ''demo-sudden-death'' then Command (Demo_c DemoSuddenDeath (target_of ev))
           else if c = ''demo-sealed'' then Command (Demo_c DemoSealed (target_of ev))
           else if c = ''demo-vickrey'' then Command (Demo_c DemoVickrey (target_of ev))
           else if c = ''demo-hybrid'' then Command (Demo_c DemoHybrid (target_of ev))
           else if c = ''demo-allpay'' then Command (Demo_c DemoAllPay (target_of ev))
           else if c = ''demo-prequalify'' then Command (Demo_c DemoPrequalify (target_of ev))
           else if c = ''perf-smoke'' then Command (PerfSmoke_c (target_of ev))
           else if c = ''load'' then Command (Load_c (target_of ev))
           else if c = ''chaos'' then
             (if given [] (fl_phase f) = [] then MissingPhase else Command (Chaos_c (chaos_of ev f)))
           else UsageExit))"

text \<open>The commands on the stores read the configuration first.\<close>

fun needs_config :: "command \<Rightarrow> bool" where
  "needs_config (E2E_c t) = False"
| "needs_config (Demo_c d t) = False"
| "needs_config (PerfSmoke_c t) = False"
| "needs_config (Load_c t) = False"
| "needs_config (Chaos_c a) = False"
| "needs_config c = True"

definition mustConfig :: "(mysql_config \<Rightarrow> string) \<Rightarrow> environ \<Rightarrow> Config option" where
  "mustConfig fmt ev = (case Startup.Load fmt ev of Inl e \<Rightarrow> None | Inr c \<Rightarrow> Some c)"

text \<open>The exit code; \<open>run\<close> says whether a command returns without an error.\<close>

definition lumen_main ::
  "(mysql_config \<Rightarrow> string) \<Rightarrow> environ \<Rightarrow> string option \<Rightarrow> flags \<Rightarrow> (Config option \<Rightarrow> command \<Rightarrow> bool) \<Rightarrow> int" where
  "lumen_main fmt ev arg f run =
     (case parse_command ev arg f of
        UsageExit \<Rightarrow> 2
      | MissingPhase \<Rightarrow> 1
      | Command c \<Rightarrow>
          (if needs_config c \<and> mustConfig fmt ev = None then 1
           else if run (mustConfig fmt ev) c then 0 else 1))"

section \<open>Clean-up\<close>

text \<open>\<open>opened\<close>: Redis answered; \<open>scan\<close> and \<open>active\<close>: what the scan and the timer index return, if they do. The result: what
  is deleted and what is untracked.\<close>

definition RunCleanupLoadArtifacts ::
  "bool \<Rightarrow> string list option \<Rightarrow> aid list option \<Rightarrow> string \<Rightarrow> bool \<Rightarrow> (CleanupResult \<times> string list \<times> aid list) option" where
  "RunCleanupLoadArtifacts opened scan active prefix execute =
     (if \<not> opened then None
      else (case (scan, active) of
              (Some ks, Some as) \<Rightarrow> CleanupLoadArtifacts prefix execute ks as
            | _ \<Rightarrow> None))"

section \<open>Exit codes\<close>

theorem exit_codes:
  "lumen_main fmt ev arg f run \<in> {0, 1, 2}"
  "lumen_main fmt ev arg f run = 0 \<longleftrightarrow>
     (\<exists>c. parse_command ev arg f = Command c \<and> (needs_config c \<longrightarrow> mustConfig fmt ev \<noteq> None) \<and> run (mustConfig fmt ev) c)"
  by (auto simp: lumen_main_def split: cli.splits)

text \<open>Outside development no command touches the stores on the shipped secrets.\<close>

theorem command_baseline:
  assumes "parse_command ev arg f = Command c" "needs_config c" "lumen_main fmt ev arg f run = 0" "env_or ev ''APP_ENV'' ''dev'' \<noteq> ''dev''"
  shows "env_or ev ''JWT_SECRET'' defaultJWTSecret \<noteq> defaultJWTSecret"
    and "env_or ev ''EVIDENCE_HMAC_KEY'' defaultEvidenceKey \<noteq> defaultEvidenceKey"
proof -
  obtain cfg where l: "Startup.Load fmt ev = Inr cfg"
    using assms(1-3) by (auto simp: lumen_main_def mustConfig_def split: sum.splits if_splits)
  then have "cf_AppEnv cfg \<noteq> ''dev''" "cfg = read_config fmt ev"
    using assms(4) by (auto simp: Startup.Load_def Let_def read_config_def split: if_splits)
  then show "env_or ev ''JWT_SECRET'' defaultJWTSecret \<noteq> defaultJWTSecret"
    "env_or ev ''EVIDENCE_HMAC_KEY'' defaultEvidenceKey \<noteq> defaultEvidenceKey"
    using prod_baseline(1,2) [OF l] by (auto simp: read_config_def)
qed

section \<open>The clean-up deletes only on demand\<close>

theorem cleanup_dry_by_default:
  assumes "parse_command ev (Some ''cleanup-load-auctions'') f = Command (Cleanup_c prefix execute)"
    and "fl_execute f \<noteq> Some True" "ev ''LOAD_CLEANUP_EXECUTE'' = []"
    and "RunCleanupLoadArtifacts opened scan active prefix execute = Some (res, del, untrack)"
  shows "del = []" and "untrack = []"
proof -
  have "\<not> execute" using assms(1-3)
    by (cases "fl_execute f") (auto simp: parse_command_def given_def cli_envBool_def)
  then show "del = []" "untrack = []"
    using assms(4) by (auto simp: RunCleanupLoadArtifacts_def CleanupLoadArtifacts_def Let_def split: if_splits option.splits)
qed

text \<open>Whatever prefix is given, nothing but the auctions of the load tests is deleted.\<close>

theorem cleanup_command_confined:
  assumes "RunCleanupLoadArtifacts opened scan active prefix execute = Some (res, del, untrack)"
  shows "\<forall>k\<in>set del. HasPrefix (aidFromAuctionTaggedKey k) ''auc_load_''" and "\<forall>a\<in>set untrack. HasPrefix a ''auc_load_''"
proof -
  obtain ks as where "CleanupLoadArtifacts prefix execute ks as = Some (res, del, untrack)"
    using assms by (auto simp: RunCleanupLoadArtifacts_def split: if_splits option.splits)
  then show "\<forall>k\<in>set del. HasPrefix (aidFromAuctionTaggedKey k) ''auc_load_''" "\<forall>a\<in>set untrack. HasPrefix a ''auc_load_''"
    by (rule cleanup_confined)+
qed

section \<open>Verification\<close>

text \<open>The command succeeds exactly when the report says consistent, and then stream and database have the same events
  and the chain is sound.\<close>

theorem verify_command:
  assumes "parse_command ev (Some ''verify'') f = Command c"
    and "run = (\<lambda>cfg c. case c of Verify_c aid \<Rightarrow> snd (fst (RunVerify fuel l1 l2 up E lookup now aid r d)) | _ \<Rightarrow> False)"
  shows "lumen_main fmt ev (Some ''verify'') f run = 0 \<longleftrightarrow>
    mustConfig fmt ev \<noteq> None \<and>
    (\<exists>rep. fst (computeVerifyReport fuel l1 l2 up E lookup now (verify_aid (given (ev ''VERIFY_AID'') (fl_auction f))) r d) = Inr rep
       \<and> Consistent rep)"
  using assms(2)
  by (auto simp: exit_codes(2) parse_command_def RunVerify_def split: prod.splits sum.splits)

lemma default_auction: "ev ''VERIFY_AID'' = [] \<Longrightarrow> fl_auction f = None \<Longrightarrow>
    verify_aid (given (ev ''VERIFY_AID'') (fl_auction f)) = ''auc_demo''"
  by (simp add: verify_aid_def given_def)

end
