(* ===== verification/Spec2Isabelle.thy ===== *)
theory Spec2Isabelle
  imports Engine Ascending SeqGuard Singleflight Verify Timer EvidenceCache SealedClose Join ApiLifecycle ApiReads Scenario
    Auctioneer Ssrf Social Advisor Crowd Metrics Drafts Drill
    Gateway Upload WriteBuffer Startup Bootstrap Proxy Gates
    Chaos Seed Load Runner Wsload Llm Routes Commands
begin

text \<open>
  Lumen live auctions, \<^verbatim>\<open>src/apps/lumen\<close>: a verification library.

  The program. Gateways (Go) hold WebSocket connections and serve a REST interface. The state of a
  running auction lives in Redis, under keys tagged with the auction's id: a state hash, a stream of
  numbered events, a leaderboard, a set of sealed bids, and one deduplication hash per bidder. Only
  Lua scripts change them, and Redis runs one script at a time, so a script is one atomic step. Each
  accepted step appends to the stream and publishes the same events to the gateways, which fan them
  out to the rooms. A persistence worker copies the stream into MySQL, where events are chained by a
  keyed hash, and settles sales as orders or as virtual coins. A timer closes auctions whose end has
  passed. A verifier compares Redis, stream and MySQL.

  How the model is laid out. Every theory names the files it translates.
  \<^item> Prelude, GoStrings, Decimal, Json: named theorem collections, Redis key slots
    (absent, of a wrong type, present), outcomes of remote calls, Go's int64 (\<open>wrap64\<close>), the string functions
    the code uses, decimal text as strconv and Lua's tonumber read it (Lua's numbers are float64: \<open>lua_num\<close> rounds
    an integer to 53 bits, ties to even), JSON values.
  \<^item> Model (\<^verbatim>\<open>model/model.go\<close>): modes, states, codes, \<open>Rules\<close> with
    \<open>Validate\<close>, money, and the events' payloads with their decoders.
  \<^item> Redis, Room: the keys of one auction as a record, the commands the scripts issue, the expiry of the
    deduplication hashes (\<open>live_dedupe\<close>: a hash past its deadline reads as absent), and
    \<open>room_inv\<close>: the counter of the hash is the length of the stream, numbers have no gap, a final event is
    last, the status is terminal exactly when there is one.
  \<^item> Lifecycle, PlaceBid, HybridBid, SealedBid (\<^verbatim>\<open>lua/*.lua\<close>): the nine scripts, each a
    function from arguments, the Redis time and the keys to a reply and new keys, on every branch. The
    locale \<open>hot_script\<close> states what a script promises (invariant kept, refusals write nothing,
    terminal auctions frozen, cached acknowledgements kept); every script is an interpretation.
  \<^item> Engine: the command type and \<open>exec\<close> over all scripts, \<open>reachable\<close>.
    Ascending: the ladder invariant of the leaderboard. SealedClose: reveal, price rules, the
    second-price utility. CacheSound: what the gateway's price cache may know.
  \<^item> Keys, StreamRead, Store (\<^verbatim>\<open>store/store.go\<close>): key names and their inverses, the
    paged stream read (fuel bounds the number of pages; any fuel above the length of the stream is
    enough, and this is proved), script calls where a call is answered, unreachable, or executed with a
    lost answer. Singleflight (\<^verbatim>\<open>store_singleflight.go\<close>): the coalescing as a step
    relation over callers. SeqGuard (\<^verbatim>\<open>seqguard.go\<close>).
  \<^item> ModePolicy (\<^verbatim>\<open>server/mode.go\<close>, \<^verbatim>\<open>recommend.go\<close>): the
    registry and rule normalisation (locale \<open>mode_policy\<close>).
  \<^item> Db, Evidence, EvidenceProofs, EvidenceCache (\<^verbatim>\<open>store/storedb.go\<close>,
    \<^verbatim>\<open>evidence_key.go\<close>): the tables as lists in key order, every statement of the core, the Redis purge of a deletion call by call,
    the hash chain with key versions, and its cached verification. The keyed hash and the JSON encoder are
    parameters (\<open>hasher\<close>); \<open>proper\<close> says that the current key is known and hashes are not empty.
  \<^item> Persistence, Projection (\<^verbatim>\<open>server/persistence.go\<close>): one pass of the worker. Each
    call of the pass has its fate: a failed statement or transaction has no effect, and for the insert of an
    event, which is \<^verbatim>\<open>INSERT IGNORE\<close>, \<^verbatim>\<open>SELECT\<close> and the transaction of \<^verbatim>\<open>fillEventHash\<close>, \<open>insert_call\<close>
    says how far it came and whether its answer was lost. The rows are always a chained prefix and at most one
    row without hash; the cursor never passes a row that is missing or has no hash.
    Timer (\<^verbatim>\<open>timer.go\<close>), Verify (\<^verbatim>\<open>verify.go\<close>).
  \<^item> Hub, Fanout, Bids, Conn, Join (\<^verbatim>\<open>server/ws.go\<close>, \<^verbatim>\<open>ws_state_patch.go\<close>): rooms and their
    cache, the subscriber's cursor and coalesced patches, the bid paths of WebSocket and HTTP, the three
    outbound lanes with the join barrier and the write pump as a step function over operations, and
    ROOM_JOIN. Gateway puts them together: one connection from its upgrade to its end. WriteBuffer
    (\<^verbatim>\<open>ws_coalesce.go\<close>): the buffer under the frames and its lock.
  \<^item> Auth, Api, ApiLifecycle, ApiReads (\<^verbatim>\<open>auth.go\<close>, \<^verbatim>\<open>api.go\<close>): tokens, log-in and the
    REST handlers, each a function from the environment (which calls fail), the caller and both
    stores to a response and both stores. Upload (\<^verbatim>\<open>upload.go\<close>): pictures and clips, on the
    bytes of the file. Bootstrap (\<^verbatim>\<open>store.go\<close>): waiting, scripts and migrations of a new store. Startup (\<^verbatim>\<open>config.go\<close>, \<^verbatim>\<open>server.go\<close>, \<^verbatim>\<open>recover.go\<close>): the security
    baseline, workers, static files. Routes: the routing table and the multiplexer. Commands
    (\<^verbatim>\<open>cmd/lumen/main.go\<close>, \<^verbatim>\<open>cleanup.go\<close>): the command line and its exit codes.
  \<^item> Regex, Guardrail, Auctioneer, Ssrf, Advisor, Drafts, Llm (\<^verbatim>\<open>server/auctioneer.go\<close>, \<^verbatim>\<open>ai_events.go\<close>,
    \<^verbatim>\<open>apps/ai-sidecar\<close>): a matcher for the patterns of the text guards, proved equal to the
    definition of matching; the guards on both sides; when commentary fires; the address guard of the
    image fetch on bytes; the price advice; listing copy and facts from an image; the client of the language model, the choice of
    generators and the routes of the sidecar. Proxy (\<^verbatim>\<open>api.go\<close>): what the backend forwards. The language model is an argument everywhere.
    Social, Crowd, Metrics, Drill (\<^verbatim>\<open>server/social.go\<close>, \<^verbatim>\<open>crowd.go\<close>, \<^verbatim>\<open>metrics/metrics.go\<close>,
    \<^verbatim>\<open>tools/chaos-runner\<close>): the social channel, the simulated bidders, the reservoirs and
    percentiles, the invariants of a drill; Runner: one drill from start to verdict. Gates (\<^verbatim>\<open>server/e2e.go\<close>, \<^verbatim>\<open>demo.go\<close>,
    \<^verbatim>\<open>demo_modes.go\<close>): the demonstration runs as clients, and that they pass on the scripts. Chaos, Load, Seed
    (\<^verbatim>\<open>chaos.go\<close>, \<^verbatim>\<open>load.go\<close>, \<^verbatim>\<open>perf.go\<close>, \<^verbatim>\<open>seed.go\<close>): the phases of a drill, the measuring
    clients with their verdict, and the seeding of the stores. Wsload (\<^verbatim>\<open>tools/loadtest/wsload\<close>): the
    connection generator, with its peak counter as a step relation, and its probe.
  \<^item> Scenario: one small auction in every state, for the instances below.

  What the theorems below show. The scripts: logs without gaps, adjudication as an abstract auction
  would decide it, finality, exact replay of a bid repeated within the 24 hours of the acknowledgement cache, clean refusals. The modes: bounded
  deadlines, secrecy of hybrid and sealed bids, prices and truthfulness of the second-price close. The timer: due
  auctions that are not suppressed after an internal error close, none closes early. Redis to MySQL: faithful projection under faults, verification
  of what was projected, complete paged reads, a chain head that pins the history. The gateway: a fast reject
  that changes no answer, lossless lanes, complete fan-out, a join that replays up to 200 missed events. The requests: ownership, payment,
  freeze in both stores, deletion. Some state what the code does where it falls short: a hidden
  leader shown by the single view, a bid lost to a cold mode cache, an all-pay order after a
  failed read, a cancel overwritten by a start.

  Conventions. Redis time is a pair of seconds and microseconds. Missing hash fields read as the
  code reads them (zero, empty). Times, counts and sequence numbers are integers; where Go's int64
  could wrap and the code does not bound the value, the wrap is written out. Amounts are decimal
  text, as on the wire; what a script computes from them is rounded as float64 is. Times, counts and sequence
  numbers in the scripts are taken to be below 2^53. Concurrency appears where the code shares state: scripts interleave in any
  order, handlers are split where another request can come between, connections and coalesced reads are step
  relations.

  Not modelled: HTTP headers and JSON framing; the goroutines behind the channels (their
  effect is the order of steps); metrics other than those the code branches on; MySQL
  collation and isolation beyond one statement or one transaction at a time; expiry of Redis keys
  other than the deduplication hashes (the scripts set no other deadline), and eviction; what a language model does, and base64 and JSON on the way to it; the
  floating-point curves of the crowd (viewers and pace); the parsing of command-line flags; the scripts in other languages
  under \<^verbatim>\<open>tools/loadtest\<close>.
\<close>

section \<open>The adjudicating scripts\<close>

text \<open>C1: Whatever scripts run, in whatever order and at whatever time, on an auction that began with no
keys, the event log carries the sequence numbers 1 to n without a gap, the counter of the state
hash is n, the status is terminal exactly when a closing event was logged, and nothing was logged
after that event.\<close>

theorem log_gap_free:
  assumes "reachable k"
  shows "map e_seq (events_of k) = map (\<lambda>i. int i + 1) [0..<length (events_of k)]
    \<and> h_seq (hash_of k) = int (length (events_of k))
    \<and> status_terminal (hash_of k) = (\<exists>e\<in>set (events_of k). final_event (e_type e))
    \<and> (\<forall>e\<in>set (butlast (events_of k)). \<not> final_event (e_type e))"
proof -
  have inv: "room_inv k" by (rule reachable_inv [OF assms])
  then have "status_terminal (hash_of k) = has_final (events_of k)" "\<not> has_final (butlast (events_of k))"
    by (auto simp: room_inv_def ends_final_def has_final_def dest: in_set_butlastD split: if_splits)
  then show ?thesis using room_invD [OF inv] by (simp add: log_ok_def has_final_def)
qed

lemma log_gap_free_witness: "h_seq (hash_of demo_one) = int (length (events_of demo_one))
    \<and> status_terminal (hash_of demo_one) = (\<exists>e\<in>set (events_of demo_one). final_event (e_type e))"
proof -
  have "reachable demo_one"
    using reach_exec [OF demo_live_reachable, of ENGLISH "CBid (demo_bid ''u'' ''c1'' ''150'')" "(1, 0)"]
    by (simp add: demo_one_run del: exec.simps)
  from log_gap_free [OF this] show ?thesis by blast
qed

text \<open>C2: A first-seen bid on readable keys is accepted by the ascending script exactly when the abstract
auction takes it (open, not paused, before the deadline, not the seller, within the money bound, at
least the minimum raise, not above the cap), and the state it leaves is the abstract auction after
that bid: new price and leader, the bidder's best bid, the extended deadline, closed on a buy-out.
A refused bid leaves the abstract auction as it was. A bid above the cap is refused, never clipped to
the cap: the script and proto/redis-keys.md say so, while README.md and docs/redis-keys.md describe
clipping (a finding of the development).\<close>

theorem place_bid_refines:
  assumes "room_inv k" "\<not> bid_keys_bad (ba_userId b) k"
    and "d_acks (dedupe_at (redis_now t) k (ba_userId b)) (ba_clientBidId b) = None"
  shows "let ok = tonumber (ba_amountStr b) \<noteq> None
               \<and> takes (abs_auction k) (ba_userId b) (num0 (ba_amountStr b)) (redis_now t)
         in accepting (fst (place_bid b t k)) = ok
          \<and> abs_auction (snd (place_bid b t k)) =
              (if ok then after_bid (abs_auction k) (ba_userId b) (num0 (ba_amountStr b)) (redis_now t)
               else abs_auction k)"
  using place_bid_adjudicates assms unfolding adjudicates_def by blast

lemma place_bid_refines_witness:
  "a_leader (abs_auction (snd (place_bid (demo_bid ''u'' ''c1'' ''150'') (1, 0) (demo_live ENGLISH)))) = ''u''"
proof -
  have "\<not> bid_keys_bad ''u'' (demo_live ENGLISH)" "d_acks (dedupe_at (redis_now (1, 0)) (demo_live ENGLISH) ''u'') ''c1'' = None"
    by (simp_all add: bid_keys_bad_def demo_live_def empty_keys_def empty_dedupe_def live_dedupe_def)
  moreover have "takes (abs_auction (demo_live ENGLISH)) ''u'' 150 1000"
    by (simp add: takes_def abs_auction_def phase_of_def min_raise_def demo_hash_def MaxMoneyCents_def price_num_def cap_of_def Let_def)
  ultimately show ?thesis
    using place_bid_refines [of "demo_live ENGLISH" "demo_bid ''u'' ''c1'' ''150''" "(1, 0)"] demo_live_inv [of ENGLISH]
    by (simp add: redis_now_def after_bid_def Let_def)
qed

text \<open>C3: On every reachable auction the hybrid script decides as the ascending script does: same reply, same
state hash up to the leader's display name, same leaderboard, same acknowledgement cache and the same
kinds and numbers of events. Only what is broadcast differs.\<close>

theorem hybrid_decides_alike: "reachable k \<Longrightarrow> outcome (place_bid_hybrid b t k) = outcome (place_bid b t k)"
  by (rule hybrid_same_outcome [OF reachable_inv])

lemma hybrid_decides_alike_witness:
  "outcome (place_bid_hybrid (demo_bid ''u'' ''c1'' ''150'') (1, 0) (demo_live HYBRID_REVEAL)) =
   outcome (place_bid (demo_bid ''u'' ''c1'' ''150'') (1, 0) (demo_live HYBRID_REVEAL))"
  by (rule hybrid_decides_alike [OF demo_live_reachable]) simp

text \<open>C4: In an ascending or hybrid auction reached by any commands the leader of the state hash holds the
current price on the leaderboard, every other bidder's best is strictly below it, a leader is never
missing while there are bids, and an auction marked sold has a leader and a final event that names
that leader and that price.\<close>

theorem leader_holds_price:
  assumes "asc_reachable k"
  shows "(h_winnerId (hash_of k) = [] \<longrightarrow> board_of k = [])
    \<and> (h_winnerId (hash_of k) \<noteq> [] \<longrightarrow> zscore (board_of k) (h_winnerId (hash_of k)) = Some (price_num (hash_of k))
         \<and> (\<forall>m s. zscore (board_of k) m = Some s \<longrightarrow> m \<noteq> h_winnerId (hash_of k) \<longrightarrow> s < price_num (hash_of k)))
    \<and> (h_status (hash_of k) = Some SOLD \<longrightarrow> h_winnerId (hash_of k) \<noteq> []
         \<and> (\<exists>now. last_opt (events_of k) = Some (seq_entry (h_seq (hash_of k)) AUCTION_SOLD
               (sold_json (h_seq (hash_of k)) (h_winnerId (hash_of k)) (price_str (hash_of k)) now))))"
  using asc_ladder [OF assms] unfolding ladder_def Let_def by blast

lemma leader_holds_price_witness: "zscore (board_of demo_one) ''u'' = Some 150"
  using leader_holds_price [OF demo_one_asc] by (simp add: price_num_def)

lemma place_bid_accepted:
  assumes "room_inv k" "reply_code (fst (place_bid b t k)) \<in> {Some OK_ACCEPTED, Some OK_EXTENDED, Some OK_SOLD}"
  shows "bid_guard (hash_of k) (ba_userId b) (tonumber (ba_amountStr b)) (redis_now t) = None"
    and "price_num (hash_of (snd (place_bid b t k))) = num0 (ba_amountStr b)"
    and "h_winnerId (hash_of (snd (place_bid b t k))) = ba_userId b"
proof -
  note inv = room_invD(4,3) [OF assms(1)]
  have "bid_guard (hash_of k) (ba_userId b) (tonumber (ba_amountStr b)) (redis_now t) = None
    \<and> price_num (hash_of (snd (place_bid b t k))) = num0 (ba_amountStr b)
    \<and> h_winnerId (hash_of (snd (place_bid b t k))) = ba_userId b"
  proof (cases rule: place_bid_cases [of b t k])
    case (refused r)
    with assms(2) show ?thesis by (cases r) auto
  next
    case (replayed cached)
    with assms(2) show ?thesis by simp
  next
    case accepted
    then show ?thesis using inv by (simp add: commit_bid_eq price_num_def)
  qed
  then show "bid_guard (hash_of k) (ba_userId b) (tonumber (ba_amountStr b)) (redis_now t) = None"
    and "price_num (hash_of (snd (place_bid b t k))) = num0 (ba_amountStr b)"
    and "h_winnerId (hash_of (snd (place_bid b t k))) = ba_userId b" by auto
qed

text \<open>C5: A terminal auction is frozen: no later sequence of commands changes its state hash, its leaderboard,
its log, its sealed bids or what it published.\<close>

theorem terminal_is_final:
  assumes "status_terminal (hash_of k)"
  shows "k_state (exec_all cs k) = k_state k \<and> k_leaderboard (exec_all cs k) = k_leaderboard k
    \<and> k_events (exec_all cs k) = k_events k \<and> k_sealed (exec_all cs k) = k_sealed k
    \<and> k_sealednames (exec_all cs k) = k_sealednames k \<and> k_pub (exec_all cs k) = k_pub k"
  using engine.runs_terminal [OF assms, of cs] by (simp add: exec_all_runs same_room_def)

lemma terminal_is_final_witness:
  "k_events (exec_all [(CBid (demo_bid ''v'' ''c2'' ''500''), (62, 0))] (snd (close_script ENGLISH (61, 0) demo_one)))
     = k_events (snd (close_script ENGLISH (61, 0) demo_one))"
proof -
  have "status_terminal (hash_of (snd (close_script ENGLISH (61, 0) demo_one)))"
    using close_script_closes [OF demo_one_inv, of "(61, 0)" ENGLISH] by (auto simp: redis_now_def demo_hash_def)
  from terminal_is_final [OF this] show ?thesis by blast
qed



text \<open>C7: A script that answers with an error code has written nothing: the auction's keys are the very same.\<close>

theorem refusal_is_clean: "\<not> accepting (fst (exec c t k)) \<Longrightarrow> snd (exec c t k) = k"
  by (rule engine.refusal_writes_nothing)

lemma refusal_is_clean_witness: "snd (exec (CStart 1000) (0, 0) demo_one) = demo_one"
  by (rule refusal_is_clean) (simp add: start_auction_def demo_hash_def demo_one_def Let_def)

section \<open>Modes\<close>

text \<open>C8: An auction frozen with rules that passed validation and the mode's normalisation, and then started,
ends by a time known at its start: start time plus duration plus the extension allowance, whatever
is bid and whenever.\<close>

theorem deadline_bounded:
  fixes r :: Rules and s :: uid and t1 t2 :: "int \<times> int" and d :: int and k :: akeys
  assumes "room_inv k" "h_status (hash_of k) \<in> {None, Some DRAFT}" "\<not> bad_type (k_state k)" "Validate r = None"
  shows "h_endAtMs (hash_of (ascending.runs cs (snd (start_auction d t2
      (snd (freeze_rules \<lparr>fr_rules = NormalizeRules m r, fr_sellerId = s\<rparr> t1 k))))))
    \<le> redis_now t2 + d + MaxExtensions (NormalizeRules m r) * ExtendSec (NormalizeRules m r) * 1000"
  by (rule mode_policy.frozen_bounded [OF NormalizeRules_policy assms])

lemma deadline_bounded_witness:
  "h_endAtMs (hash_of (ascending.runs [(demo_bid ''u'' ''c1'' ''150'', (59, 0))] (snd (start_auction 60000 (0, 0)
      (snd (freeze_rules \<lparr>fr_rules = NormalizeRules (baseMode ENGLISH) (demo_rules ENGLISH), fr_sellerId = ''s''\<rparr> (0, 0) empty_keys))))))
    \<le> redis_now (0, 0) + 60000 + MaxExtensions (NormalizeRules (baseMode ENGLISH) (demo_rules ENGLISH))
        * ExtendSec (NormalizeRules (baseMode ENGLISH) (demo_rules ENGLISH)) * 1000"
  by (rule deadline_bounded)
     (simp_all add: room_inv_empty, simp_all add: empty_keys_def empty_hash_def demo_rules_def Validate_def MaxMoneyCents_def)

text \<open>C9: In a hybrid auction that stays open, what is logged and published for an accepted bid does not depend
on who bid or how much: two bids that the same state accepts leave the same log and the same
messages.\<close>

theorem hybrid_bid_hidden:
  assumes "reachable k" "reply_code (fst (place_bid_hybrid b t k)) \<in> {Some OK_ACCEPTED, Some OK_EXTENDED}"
    and "reply_code (fst (place_bid_hybrid b' t k)) \<in> {Some OK_ACCEPTED, Some OK_EXTENDED}"
  shows "events_of (snd (place_bid_hybrid b t k)) = events_of (snd (place_bid_hybrid b' t k))
    \<and> k_pub (snd (place_bid_hybrid b t k)) = k_pub (snd (place_bid_hybrid b' t k))"
  by (rule hybrid_broadcast_indep [OF reachable_inv [OF assms(1)] assms(2,3)])

lemma hybrid_bid_hidden_witness:
  "k_pub (snd (place_bid_hybrid (demo_bid ''u'' ''c1'' ''150'') (1, 0) (demo_live HYBRID_REVEAL)))
   = k_pub (snd (place_bid_hybrid (demo_bid ''v'' ''c2'' ''400'') (1, 0) (demo_live HYBRID_REVEAL)))"
  using hybrid_bid_hidden [OF demo_live_reachable, of HYBRID_REVEAL "demo_bid ''u'' ''c1'' ''150''" "(1, 0)" "demo_bid ''v'' ''c2'' ''400''"]
  by (simp add: demo_hybrid_accepts)

text \<open>C10: Sealed bids stay secret while the auction runs: two runs of the same bidders at the same times whose
admissible amounts differ leave the same state hash, log, leaderboard, published messages and display
names, and the same set of bidders. Only the private scores and acknowledgements differ.\<close>

theorem sealed_amounts_secret:
  assumes "room_inv k"
    and "list_all2 (\<lambda>(b, t) (b', t'). same_but_amount b b' \<and> t = t'
           \<and> sealed_amount_ok (hash_of k) (ba_amountStr b) \<and> sealed_amount_ok (hash_of k) (ba_amountStr b')) cs cs'"
  shows "k_state (sealed.runs cs k) = k_state (sealed.runs cs' k) \<and> k_events (sealed.runs cs k) = k_events (sealed.runs cs' k)
    \<and> k_pub (sealed.runs cs k) = k_pub (sealed.runs cs' k) \<and> k_leaderboard (sealed.runs cs k) = k_leaderboard (sealed.runs cs' k)
    \<and> k_sealednames (sealed.runs cs k) = k_sealednames (sealed.runs cs' k)
    \<and> fst ` set (sealed_of (sealed.runs cs k)) = fst ` set (sealed_of (sealed.runs cs' k))"
proof -
  have "same_public k k" by (rule same_public_refl [OF room_invD(6) [OF assms(1)]])
  from sealed_runs_public [OF this assms] show ?thesis by (simp add: same_public_def)
qed

lemma sealed_amounts_secret_witness:
  "k_pub (sealed.runs [(demo_bid ''u'' ''c1'' ''150'', (1, 0))] (demo_live SEALED_FIRST))
   = k_pub (sealed.runs [(demo_bid ''u'' ''c1'' ''400'', (1, 0))] (demo_live SEALED_FIRST))"
  using sealed_amounts_secret [OF demo_live_inv, of SEALED_FIRST
      "[(demo_bid ''u'' ''c1'' ''150'', (1, 0))]" "[(demo_bid ''u'' ''c1'' ''400'', (1, 0))]"]
  by (simp add: same_but_amount_def sealed_amount_ok_def demo_hash_def MaxMoneyCents_def cap_of_def)

text \<open>C11: In a second-price sealed auction no bid does better than the true value: whatever the other sealed
bids are, a bidder who values the item at v and bids v gains at least as much from the close as with
any other amount.\<close>

theorem vickrey_truthful:
  assumes "close_ready t k" "zset_ok z" "u \<notin> fst ` set z"
  shows "utility u v (snd (close_auction_sealed SECOND t (with_sealed (zadd u a z) k)))
    \<le> utility u v (snd (close_auction_sealed SECOND t (with_sealed (zadd u v z) k)))"
  using vickrey_utility [OF assms, of v a] vickrey_utility [OF assms, of v v] by (auto simp: zbefore_def)

lemma vickrey_truthful_witness:
  "utility ''u'' 300 (snd (close_auction_sealed SECOND (61, 0) (with_sealed (zadd ''u'' 500 [(''v'', 400)]) (demo_live VICKREY))))
    \<le> utility ''u'' 300 (snd (close_auction_sealed SECOND (61, 0) (with_sealed (zadd ''u'' 300 [(''v'', 400)]) (demo_live VICKREY))))"
  by (rule vickrey_truthful) (simp_all add: demo_close_ready zset_ok_def)

text \<open>C12: A due sealed auction with bids sells to the first of the score order, the highest bid, ties by name,
at the price of its rule; the sealed scores and names are erased and every bid becomes public on the
leaderboard.\<close>

theorem sealed_close_sells:
  assumes "close_ready t k" "sealed_of k \<noteq> []"
  shows "reply_code (fst (close_auction_sealed m t k)) = Some OK_SOLD
    \<and> h_winnerId (hash_of (snd (close_auction_sealed m t k))) = fst (hd (sealed_of k))
    \<and> h_currentPriceCents (hash_of (snd (close_auction_sealed m t k))) = Some (finalPrice m (hash_of k) (sealed_of k))
    \<and> k_sealed (snd (close_auction_sealed m t k)) = Absent \<and> k_sealednames (snd (close_auction_sealed m t k)) = Absent
    \<and> board_of (snd (close_auction_sealed m t k)) = fold (\<lambda>(u, s). zadd u s) (sealed_of k) (board_of k)"
proof -
  have "room_inv k" using assms(1) by (simp add: close_ready_def)
  with close_ready_sold [OF assms, of m] close_sealed_sold [of k m t] show ?thesis by simp
qed

lemma sealed_close_sells_witness:
  "h_winnerId (hash_of (snd (close_auction_sealed FIRST (61, 0) (with_sealed [(''v'', 400), (''u'', 300)] (demo_live SEALED_FIRST))))) = ''v''"
  using sealed_close_sells [of "(61, 0)" "with_sealed [(''v'', 400), (''u'', 300)] (demo_live SEALED_FIRST)" FIRST]
    close_ready_with_sealed [OF demo_close_ready, of SEALED_FIRST "[(''v'', 400), (''u'', 300)]"]
  by (simp add: zset_ok_def zbefore_def with_sealed_def)

section \<open>The timer\<close>

text \<open>C13: A live auction that the timer index lost is found again from its state key and closed once it is due.
Let the auction have a deadline and keys of the right types, let the scan of the reconciliation reach its
state key, and let the calls about it be answered. If it is not suppressed, then after this reconciliation and one
hammer tick at a time not before its end its status is terminal in every mode and it has left the
index. If it is suppressed, as the timer does for 30 minutes after a close that answered ERR_INTERNAL,
the reconciliation leaves its place in the index, or its absence, as it was.\<close>

theorem due_auction_closes:
  fixes kss :: "string list list" and m :: "timer_metrics option"
  assumes "room_inv (rd_keys r a)" "keys_good (rd_keys r a)"
    and "h_status (hash_of (rd_keys r a)) = Some LIVE" "0 < h_endAtMs (hash_of (rd_keys r a))"
    and "re_clock E = Answered" "re_snap E a = Answered" "re_supp E a = Answered" "re_track E a = Answered"
    and "stateKey a \<in> set (concat kss)" "a \<noteq> []"
    and "h_endAtMs (hash_of (rd_keys r a)) \<le> redis_now t" "ce_time (F a) = t" "all_answered (F a)"
  shows "if h_suppressUntilMs (hash_of (rd_keys r a)) \<le> redis_now (re_time E)
    then status_terminal (hash_of (rd_keys (fst (hammerDue Answered Answered t F (fst (reconcileActive E (map Some kss) r), m))) a))
      \<and> zscore (rd_active (fst (hammerDue Answered Answered t F (fst (reconcileActive E (map Some kss) r), m)))) a = None
    else zscore (rd_active (fst (reconcileActive E (map Some kss) r))) a = zscore (rd_active r) a"
proof (cases "h_suppressUntilMs (hash_of (rd_keys r a)) \<le> redis_now (re_time E)")
  case True
  then have "hammerable (redis_now (re_time E)) (hash_of (rd_keys r a))" using assms(3,4) by (simp add: hammerable_def)
  from reconcile_then_hammer [where F = F, OF assms(1,2) this assms(5-)] True show ?thesis by simp
next
  case False
  then show ?thesis using reconcile_suppressed [of E r a] assms(5) by simp
qed

lemma due_auction_closes_witness:
  "status_terminal (hash_of (rd_keys (fst (hammerDue Answered Answered (61, 0) (\<lambda>a. demo_close_env (61, 0))
      (fst (reconcileActive demo_reconcile (map Some [[''auction:{a}:state'']]) (demo_redis demo_one\<lparr>rd_active := []\<rparr>)), None))) ''a''))"
proof -
  have "stateKey ''a'' \<in> set (concat [[''auction:{a}:state'']])" by (simp add: stateKey_def tag_def)
  from due_auction_closes [where r = "demo_redis demo_one\<lparr>rd_active := []\<rparr>" and a = "''a''" and E = demo_reconcile
      and F = "\<lambda>a. demo_close_env (61, 0)" and t = "(61, 0)" and m = None, OF _ _ _ _ _ _ _ _ this]
  show ?thesis
    by (simp add: demo_redis_def demo_reconcile_def demo_close_env_def all_answered_def demo_hash_def redis_now_def demo_one_inv)
qed

text \<open>C14: The hammer never falls early: handling a live auction whose end lies after the time of the call
changes no key of any auction.\<close>

theorem no_early_hammer:
  assumes "keys_good (rd_keys (fst s) aid)" "room_inv (rd_keys (fst s) aid)"
    and "h_status (hash_of (rd_keys (fst s) aid)) = Some LIVE"
      "redis_now (ce_time E) < h_endAtMs (hash_of (rd_keys (fst s) aid))"
    and "ce_script E = Answered" "ce_mode E = Answered"
  shows "rd_keys (fst (closeDue E aid s)) = rd_keys (fst s)"
  by (rule closeDue_early [OF assms])

lemma no_early_hammer_witness:
  "rd_keys (fst (closeDue (demo_close_env (1, 0)) ''a'' (demo_redis demo_one, None))) = rd_keys (demo_redis demo_one)"
  using no_early_hammer [of "(demo_redis demo_one, None)" "''a''" "demo_close_env (1, 0)"]
  by (simp add: demo_redis_def demo_close_env_def demo_hash_def redis_now_def demo_one_inv)

section \<open>From Redis to MySQL\<close>

text \<open>C15: The projection is a faithful copy under faults, on a stream that can be read and whose sales and forfeits can be settled:
whichever database calls of a pass fail, and wherever the insert of an event stops (before the insert, between
the insert and the fill of the hash, or after either with the answer lost; no other call touches these rows),
from a sound state the rows are a hash-chained prefix of the stream followed by at most one row of the next event,
still without its hash, and the cursor never passes an event whose row is missing or without hash. A pass in which every call
answers heals such a row, brings the cursor to the end and leaves the whole stream as one hash chain.\<close>

theorem projection_faithful:
  assumes "proper E L" "readable k" "\<forall>e\<in>set (events_of k). settles e"
    and "worker_ok E L aid (events_of k) w" "length (events_of k) < fuel"
  shows "worker_ok E L aid (events_of k) (project fuel fs E now aid k w)
    \<and> ((\<forall>i. fs i = no_faults) \<longrightarrow>
        w_cursor (project fuel fs E now aid k w) aid = position (length (events_of k))
        \<and> projected E L aid (events_of k) (length (events_of k)) (w_db (project fuel fs E now aid k w))
        \<and> (\<exists>h. chain E L (auction_events (w_db (project fuel fs E now aid k w)) aid) h)
        \<and> map row_data (auction_events (w_db (project fuel fs E now aid k w)) aid) = map entry_data (events_of k))"
  using project_sound [OF assms] projected_full [where es = "events_of k"] by blast

lemma projection_faithful_witness:
  "projected demo_hasher demo_lookup ''a'' (events_of demo_one) 1
     (w_db (project 2 (\<lambda>i. no_faults) demo_hasher 1 ''a'' demo_one \<lparr>w_cursor = (\<lambda>a. []), w_db = demo_db LIVE ENGLISH []\<rparr>))"
proof -
  have "worker_ok demo_hasher demo_lookup ''a'' (events_of demo_one) \<lparr>w_cursor = (\<lambda>a. []), w_db = demo_db LIVE ENGLISH []\<rparr>"
    unfolding worker_ok_def
    by (rule exI [of _ 0], rule exI [of _ 0]) (simp add: position_def projected_def demo_db_def auction_by_def chain_def)
  moreover have "\<forall>e\<in>set (events_of demo_one). settles e"
    by (simp add: settles_def seq_entry_def demo_payload_def bid_json_def)
  ultimately show ?thesis using projection_faithful [OF demo_proper demo_readable(1), of "''a''" _ 2 "\<lambda>i. no_faults" 1] by auto
qed

text \<open>C16: The verifier accepts what the worker produced: for an auction whose stream is fully projected, with
its keys known, the three-way check of snapshot, stream and MySQL reports a consistent auction with
an intact chain, with or without a verification cache.\<close>

theorem projected_auction_verifies:
  assumes "readable (rd_keys r aid)" "\<not> bad_type (k_state (rd_keys r aid))" "length (events_of (rd_keys r aid)) < fuel"
    and "projected E L aid (events_of (rd_keys r aid)) (length (events_of (rd_keys r aid))) d"
    and "keys_known L (auction_events d aid)"
    and "\<And>c. chain_cache d aid = Some c \<Longrightarrow> \<exists>rows0. cache_of E L rows0 (auction_events d aid) c"
  shows "\<exists>rep. fst (computeVerifyReport fuel Answered Answered True E L now aid r d) = Inr rep \<and> Consistent rep"
  by (rule projected_consistent [OF assms])

lemma projected_auction_verifies_witness:
  "\<exists>rep. fst (computeVerifyReport 2 Answered Answered True demo_hasher demo_lookup 5 ''a'' (demo_redis demo_one)
     (demo_db LIVE ENGLISH [demo_row])) = Inr rep \<and> Consistent rep"
  using demo_readable(1) demo_projected
  by (intro projected_auction_verifies)
     (simp_all add: demo_redis_def, simp_all add: demo_one_def demo_db_def keys_known_def demo_row_def chained_row_def new_row_def demo_lookup_def demo_hasher_def)

text \<open>C17: The paged read of a readable auction's stream after event p returns, with any fuel above the length of
the log, and returns exactly the events from p + 1 on, in order, none twice and none missing.\<close>

theorem read_after_complete:
  assumes "readable k" "length (events_of k) < fuel" "p \<le> length (events_of k)"
  shows "\<exists>nl. ReadEventsAfter fuel (id_str (int p, 0)) k = Collected (map event_of (drop p (events_of k))) nl"
  by (rule ReadEventsAfter_seq [OF assms])

lemma read_after_complete_witness:
  "\<exists>nl. ReadEventsAfter 2 (id_str (int 0, 0)) demo_one = Collected [event_of (seq_entry 1 BID_ACCEPTED demo_payload)] nl"
  using read_after_complete [OF demo_readable(1), of 2 0] by simp

section \<open>The evidence chain\<close>

text \<open>C18: The published head pins the history: two verified chains with the same length and head have the same
numbers, types and payload texts in every row, unless some row and its counterpart have different
hashed texts with the same MAC. The MAC's text has no newline, as hexadecimal.\<close>

theorem head_pins_history:
  assumes "\<forall>k m. newline \<notin> set (mac E k m)"
    and "verify_rows E L xs 1 [] = Verified n h" "verify_rows E L ys 1 [] = Verified n h"
    and "\<forall>i<length xs. \<not> collide E L (xs ! i) (ys ! i)"
  shows "map (contents E) xs = map (contents E) ys"
  by (rule same_head_same_contents [OF assms(1) _ assms(2-4)]) simp

lemma head_pins_history_witness: "map (contents demo_hasher) [demo_row] = map (contents demo_hasher) [demo_row\<lparr>ev_updated := 9\<rparr>]"
proof -
  obtain h where "verify_rows demo_hasher demo_lookup [demo_row] 1 [] = Verified 1 h"
    using demo_chain by (auto simp: chain_def)
  moreover from this have "verify_rows demo_hasher demo_lookup [demo_row\<lparr>ev_updated := 9\<rparr>] 1 [] = Verified 1 h"
    by (auto split: if_splits option.splits)
  moreover have "\<forall>k m. newline \<notin> set (mac demo_hasher k m)" by (auto simp: demo_hasher_def newline_def)
  ultimately show ?thesis
    by (intro head_pins_history [where L = demo_lookup and n = 1 and h = h]) (simp_all add: collide_def row_text_def)
qed

text \<open>C19: The verification cache changes no verdict: on rows with known keys, verification with any cache row
written by an earlier verification of this auction gives what a check of the whole chain gives.\<close>

theorem cached_check_is_full:
  assumes "seq_sorted rows" "keys_known L rows"
    and "\<And>c. cache = Some c \<Longrightarrow> \<exists>rows0. cache_of E L rows0 rows c"
  shows "fst (VerifyEvidenceChain E L now rows cache) = full_check E L rows"
  by (rule VerifyEvidenceChain_full [OF assms])

lemma cached_check_is_full_witness:
  "\<exists>h. fst (VerifyEvidenceChain demo_hasher demo_lookup 9 [demo_row]
     (Some \<lparr>c_verifiedSeq = 1, c_eventsCount = 1, c_chainHead = h, c_maxUpdated = 1, c_verifiedAt = 5\<rparr>)) = ChainOk"
proof -
  obtain h where ch: "chain demo_hasher demo_lookup [demo_row] h" using demo_chain ..
  then have "verify_rows demo_hasher demo_lookup [demo_row] 1 [] = Verified 1 h" by (simp add: chain_def)
  then have "\<exists>rows0. cache_of demo_hasher demo_lookup rows0 [demo_row]
      \<lparr>c_verifiedSeq = 1, c_eventsCount = 1, c_chainHead = h, c_maxUpdated = 1, c_verifiedAt = 5\<rparr>"
    by (intro exI [of _ "[demo_row]"]) (simp add: cache_of_def)
  moreover have "keys_known demo_lookup [demo_row]"
    by (simp add: keys_known_def demo_row_def chained_row_def new_row_def demo_lookup_def demo_hasher_def)
  ultimately have full: "fst (VerifyEvidenceChain demo_hasher demo_lookup 9 [demo_row]
      (Some \<lparr>c_verifiedSeq = 1, c_eventsCount = 1, c_chainHead = h, c_maxUpdated = 1, c_verifiedAt = 5\<rparr>))
      = full_check demo_hasher demo_lookup [demo_row]"
    by (intro cached_check_is_full [OF sorted_chain [OF ch]]) blast+
  show ?thesis by (rule exI [of _ h]) (simp only: full chain_full [OF ch])
qed

section \<open>Orders\<close>

text \<open>C20: The projection of an auction's stream never changes or removes an order and never makes a second order
for an auction, whatever fails and however often it repeats.\<close>

theorem orders_append_only:
  "\<exists>xs. orders (w_db (project fuel fs E now aid k w)) = orders (w_db w) @ xs
    \<and> distinct (map or_auction xs) \<and> (\<forall>x. x \<in> set xs \<longrightarrow> (\<forall>y. y \<in> set (orders (w_db w)) \<longrightarrow> or_auction x \<noteq> or_auction y))"
  using project_keeps [of w fuel fs E now aid k] unfolding keeps_orders_def by fastforce

lemma orders_append_only_witness:
  "\<exists>xs. orders (w_db (project 2 (\<lambda>i. no_faults) demo_hasher 1 ''a'' demo_one \<lparr>w_cursor = (\<lambda>a. []), w_db = demo_db LIVE ENGLISH []\<rparr>)) = [] @ xs"
  using orders_append_only [of 2 "\<lambda>i. no_faults" demo_hasher 1 "''a''" demo_one "\<lparr>w_cursor = (\<lambda>a. []), w_db = demo_db LIVE ENGLISH []\<rparr>"]
  by (auto simp: demo_db_def)

text \<open>C21: A sale of an all-pay auction makes no order while its rules can be read; the same sale makes a real
order when the read of the rules fails, because the worker then falls back to the order path.\<close>

theorem all_pay_settlement:
  assumes "all_pay aid d" "sold_outcome p = Some (u, n)" "auction_by aid d = Some a" "order_by aid d = None"
  shows "(up_rules f \<longrightarrow> orders (snd (projectSold f now aid p d)) = orders d)
    \<and> orders (snd (projectSold (no_faults\<lparr>up_rules := False\<rparr>) now aid p d)) = orders d @
        [\<lparr>or_id = ''ord_'' @ aid, or_auction = aid, or_product = ar_product a, or_buyer = u, or_amount = n, or_status = OCreated\<rparr>]"
  using projectSold_all_pay [OF assms(1)] projectSold_blind [OF assms(2-4)] by blast

lemma all_pay_settlement_witness:
  "map or_amount (orders (snd (projectSold (no_faults\<lparr>up_rules := False\<rparr>) 1 ''a'' (sold_json 3 ''u'' ''150'' 1000) (demo_db LIVE ALL_PAY [])))) = [150]"
proof -
  have "sold_outcome (sold_json 3 ''u'' (FormatInt 150) 1000) = Some (''u'', 150)"
    by (simp add: sold_outcome_def int64_def del: demo_text)
  then show ?thesis
    using all_pay_settlement [of "''a''" "demo_db LIVE ALL_PAY []" "sold_json 3 ''u'' ''150'' 1000" "''u''" 150 _ no_faults 1]
    by (simp add: demo_db_def all_pay_def demo_rules_def auction_by_def order_by_def)
qed

section \<open>The gateway\<close>

text \<open>C22: The fast reject of the WebSocket gateway changes no answer on an ascending auction that the scripts reached: with a room cache fed only by events of
the auction's own log and the gateway's clock at most the margin behind Redis, a bid message gets the
same reply and leaves the same keys as when every bid went to the script.\<close>

theorem fast_reject_transparent:
  assumes "asc_reachable (rd_keys r (cn_aid c))" "fed (rd_keys r (cn_aid c)) (cn_aid c) h"
    and "redis_now (be_redis e) \<le> be_wall e + fastRejectExpiryMarginMs" "be_script e = Answered"
  shows "fst (bid_place e c d h r m) = fst (bid_place_unfiltered e c d h r m)
    \<and> fst (snd (bid_place e c d h r m)) = fst (snd (bid_place_unfiltered e c d h r m))"
  using filter_transparent [OF assms] by blast

lemma fast_reject_transparent_witness:
  "fst (bid_place demo_bid_env demo_conn demo_place demo_hub (demo_redis demo_one) demo_metrics)
   = fst (bid_place_unfiltered demo_bid_env demo_conn demo_place demo_hub (demo_redis demo_one) demo_metrics)"
  using fast_reject_transparent [of "demo_redis demo_one" demo_conn demo_hub demo_bid_env] demo_hub_fed demo_one_asc
  by (simp add: demo_redis_def demo_conn_def demo_bid_env_def redis_now_def fastRejectExpiryMarginMs_def)

text \<open>C23: However pushes, broadcasts, join barriers and turns of the write pump interleave and whatever writes
fail, a connection's two reliable lanes stay within their capacity and what reached the socket is, lane by
lane, a prefix of what was handed in, in order. While the connection is open nothing is lost:
written, queued and parked frames together are exactly what was handed in.\<close>

theorem lanes_lossless:
  fixes os :: "'f conn_op list"
  assumes "bracketed False os"
  shows "let (run, c) = fold (conn_step cap ping so) os (True, newConn) in
      length (cx_crit c) \<le> cap \<and> length (cx_broadcast c) \<le> cap \<and> length (cx_pending c) \<le> cap
      \<and> prefix (written Crit c) (pushes os) \<and> prefix (written Bcast c) (fans os)
      \<and> (\<not> cx_done c \<longrightarrow> written Crit c @ cx_crit c = pushes os
           \<and> written Bcast c @ cx_broadcast c @ cx_pending c = fans os)"
proof -
  have "bracketed (cx_joining (snd (True, newConn :: 'f conn))) os" using assms by (simp add: newConn_def)
  from run_inv [OF newConn_inv this, of cap ping so] show ?thesis by (auto simp: conn_inv_def split: prod.splits)
qed

lemma lanes_lossless_witness:
  "let (run, c) = fold (conn_step 4 0 demo_socket) [Begin, Fan (Raw 7), Push (Raw 5), Splice, Turn PickCrit True False] (True, newConn) in
      \<not> cx_done c \<longrightarrow> written Crit c @ cx_crit c = [Raw 5] \<and> written Bcast c @ cx_broadcast c @ cx_pending c = [Raw 7]"
  using lanes_lossless [of "[Begin, Fan (Raw 7), Push (Raw 5), Splice, Turn PickCrit True False]" 4 0 demo_socket]
  by (auto simp del: fold_simps split: prod.splits)

text \<open>C24: A fan-out pass over a readable room brings the room up to date: the cursor moves to the last event,
no sequence gap is counted, and what the room was sent so far, together with the state patch still
being folded, is told from the auction's whole log, each event once and in order.\<close>

theorem fanout_tells_all:
  assumes "readable (rd_keys r aid)" "length (events_of (rd_keys r aid)) < fuel"
    and "last_seq s aid = int p" "p \<le> length (events_of (rd_keys r aid))"
    and "\<forall>e\<in>set (events_of (rd_keys r aid)). e_payload e \<noteq> JBad"
    and "told aid (map event_of (take p (events_of (rd_keys r aid)))) (filter (\<lambda>x. fst x = aid) (fa_out s)) (fa_patch s)"
  shows "told aid (map event_of (events_of (rd_keys r aid)))
       (filter (\<lambda>x. fst x = aid) (fa_out (fanout fuel False l1 Answered wall aid r s))) (fa_patch (fanout fuel False l1 Answered wall aid r s))
    \<and> last_seq (fanout fuel False l1 Answered wall aid r s) aid = int (length (events_of (rd_keys r aid)))
    \<and> fa_seqGap (fanout fuel False l1 Answered wall aid r s) = fa_seqGap s"
  using fanout_told [OF assms] fanout_cursor [OF assms(1-5)] by blast

lemma fanout_tells_all_witness:
  "last_seq (fanout 2 False Answered Answered 5 ''a'' (demo_redis demo_one) demo_fan) ''a'' = 1"
  using fanout_tells_all [of "demo_redis demo_one" "''a''" 2 demo_fan 0 Answered 5] demo_readable(1)
  by (simp add: demo_redis_def demo_fan_def last_seq_def told_nothing seq_entry_def demo_payload_def bid_json_def newCoalescer_def)

text \<open>C25: The client's sequence guard delivers each event once and in order from any stream in which every event
after the mark arrives after its predecessors, repeats allowed: exactly the numbers after the mark are
applied, ascending, and the guard ends at the last of them.\<close>

theorem guard_exactly_once:
  assumes "delivery g ss n" "0 \<le> g"
  shows "applied ss g = ([g + 1..n], n)"
  by (rule delivery_applied [OF assms])

lemma guard_exactly_once_witness: "applied [4, 2, 5, 4, 6] 3 = ([4, 5, 6], 6)"
proof -
  have "delivery 3 [4, 2, 5, 4, 6] 6"
    using delivery.intros(2) [of 3 "[2, 5, 4, 6]" 6] delivery.intros(2) [of 4 "[4, 6]" 6] delivery.intros(2) [of 5 "[]" 6]
    by (simp add: d_again d_done)
  from guard_exactly_once [OF this] show ?thesis by simp
qed

text \<open>C26: Concurrent reads of the same key share one call: in every reachable state each call has read the store
at most once, every answered caller got the value its leader read for the key it asked for, and every
waiting caller can still be answered.\<close>

theorem coalesced_reads:
  assumes "flight_reachable f"
  shows "reads f l \<le> 1
    \<and> (answered f i = Some v \<longrightarrow> (\<exists>ld. waiting f i = Some ld \<and> key_of f ld = key_of f i \<and> value_of f ld = Some v \<and> reads f ld = 1))
    \<and> (waiting f i = Some ld \<longrightarrow> (\<exists>g w. flight_step\<^sup>*\<^sup>* f g \<and> answered g i = Some w))"
proof -
  note inv = flight_reachable_inv [OF assms]
  have "reads f ld = 1 \<and> key_of f ld = key_of f i" if "waiting f i = Some ld" "value_of f ld = Some v" for ld
    using flight_invD(2) [OF inv that(1)] flight_invD(4) [OF inv, of ld] that(2) by simp
  then have "answered f i = Some v \<longrightarrow> (\<exists>ld. waiting f i = Some ld \<and> key_of f ld = key_of f i \<and> value_of f ld = Some v \<and> reads f ld = 1)"
    using flight_invD(5) [OF inv, of i v] by blast
  moreover have "reads f l \<le> 1" by (simp add: flight_invD(4) [OF inv])
  ultimately show ?thesis using flight_completes [OF inv] by blast
qed

lemma coalesced_reads_witness:
  "answered (Do_wake 2 (7::nat) (Do_leave ''k'' (Do_read 1 7 (Do_enter 2 ''k'' (Do_enter 1 ''k'' flight_init))))) 2 = Some 7
   \<and> reads (Do_wake 2 (7::nat) (Do_leave ''k'' (Do_read 1 7 (Do_enter 2 ''k'' (Do_enter 1 ''k'' flight_init))))) 1 \<le> 1"
proof -
  let ?f2 = "Do_enter 2 ''k'' (Do_enter 1 ''k'' (flight_init :: nat flight))"
  have "flight_reachable (Do_wake 2 7 (Do_leave ''k'' (Do_read 1 7 ?f2)))"
    by (intro flight_next [OF _ f_wake] flight_next [OF _ f_leave] flight_next [OF _ f_read] flight_next [OF _ f_enter] flight_start)
       (auto simp: flight_init_def Do_enter_def Do_read_def Do_leave_def)
  from coalesced_reads [OF this, of 1] show ?thesis by (simp add: flight_init_def Do_enter_def Do_read_def Do_leave_def Do_wake_def)
qed

text \<open>C27: A client that joins a room with a remembered sequence number p is queued the events it missed up to the
snapshot, then the snapshot: when the stream read answers and at most 200 events are missing (catchupMaxGap),
the frames are the events p + 1 to n in order and one snapshot of number n with the price and status of the
state hash, even when events arrive between the two reads; when more are missing, or the stream read fails, the
snapshot alone. The state hash was read, the payloads are JSON, and the critical lane has room for 201
frames. The events that arrive during the join wait in the pending lane; their order is the subject of the lanes.\<close>

theorem joined_client_complete:
  assumes "room_inv (rd_keys r1 aid)" "\<not> bad_type (k_state (rd_keys r1 aid))"
    and "readable (rd_keys r2 aid)" "events_of (rd_keys r2 aid) = events_of (rd_keys r1 aid) @ later"
    and "length (events_of (rd_keys r2 aid)) < je_fuel e" "je_snapshot e = Answered"
    and "\<forall>m\<in>set (events_of (rd_keys r1 aid)). e_payload m \<noteq> JBad"
    and "aid \<noteq> []" "\<not> cx_done c" "length (cx_crit c) + 201 \<le> je_cap e"
    and "rj_AuctionID d = aid" "rj_LastSeq d = int p"
    and "room_join e d r1 r2 (w, c, h) = (w', c', h')"
  shows "\<exists>snap. cx_crit c' = cx_crit c @ map Raw
        ((if je_read e = Answered \<and> int (length (events_of (rd_keys r1 aid))) - int p \<le> catchupMaxGap
          then map (\<lambda>ev. event_envelope (je_wall e) aid (event_of ev)) (drop p (events_of (rd_keys r1 aid))) else [])
         @ [NewEnvelope (je_wall e) ROOM_SNAPSHOT aid (sn_Seq snap) (DSnapshot snap)])
      \<and> sn_Seq snap = int (length (events_of (rd_keys r1 aid)))
      \<and> sn_CurrentPriceCents snap = sn_CurrentPriceCents (snapshot_of (hash_of (rd_keys r1 aid)))
      \<and> sn_Status snap = h_status (hash_of (rd_keys r1 aid)) \<and> \<not> cx_done c' \<and> \<not> cx_joining c'"
proof -
  obtain snap where "cx_crit c' = cx_crit c @ map Raw (join_frames e aid (replayed_events e (events_of (rd_keys r1 aid)) p) snap)"
    and s: "sn_Seq snap = int (length (events_of (rd_keys r1 aid)))"
      "sn_CurrentPriceCents snap = sn_CurrentPriceCents (snapshot_of (hash_of (rd_keys r1 aid)))"
      "sn_Status snap = h_status (hash_of (rd_keys r1 aid))" "\<not> cx_done c'" "\<not> cx_joining c'"
    using room_join_frames [OF assms] by blast
  then show ?thesis
    by (intro exI [of _ snap]) (simp add: join_frames_def replayed_events_def)
qed

lemma joined_client_complete_witness:
  "length (cx_crit (fst (snd (room_join demo_join \<lparr>rj_AuctionID = ''a'', rj_LastSeq = 0\<rparr> (demo_redis demo_one) (demo_redis demo_one)
     (demo_conn, newConn, newHub))))) = 2"
proof -
  obtain w' c' h' where j: "room_join demo_join \<lparr>rj_AuctionID = ''a'', rj_LastSeq = 0\<rparr> (demo_redis demo_one) (demo_redis demo_one)
     (demo_conn, newConn, newHub) = (w', c', h')" by (rule prod_cases3)
  have "length (cx_crit c') = 2"
    using joined_client_complete [OF _ _ _ _ _ _ _ _ _ _ _ _ j, of "''a''" "[]" 0] demo_one_inv demo_readable(1)
    by (auto simp: demo_redis_def demo_join_def catchupMaxGap_def newConn_def demo_one_def seq_entry_def demo_payload_def bid_json_def)
  then show ?thesis by (simp only: j fst_conv snd_conv)
qed

section \<open>The seller's and the buyer's requests\<close>

text \<open>C28: Paying an order succeeds only for its buyer, leaves the order paid and every other auction's order as
it was, and paying again answers the same and changes nothing.\<close>

theorem pay_once:
  assumes "handlePayOrder e user aid d = (Ok x, d')"
  shows "user = Some (or_buyer x) \<and> or_auction x = aid \<and> or_status x \<noteq> OCreated \<and> order_by aid d' = Some x
    \<and> (\<forall>i. i \<noteq> aid \<longrightarrow> order_by i d' = order_by i d)
    \<and> handlePayOrder e user aid d' = (Ok x, d')"
  by (rule handlePayOrder_once [OF assms])

lemma pay_once_witness:
  "fst (handlePayOrder demo_env (Some ''u'') ''a'' (snd (handlePayOrder demo_env (Some ''u'') ''a'' demo_sold_db)))
   = Ok (demo_order\<lparr>or_status := OPaid\<rparr>)"
proof -
  have paid: "handlePayOrder demo_env (Some ''u'') ''a'' demo_sold_db
     = (Ok (demo_order\<lparr>or_status := OPaid\<rparr>), demo_sold_db\<lparr>orders := [demo_order\<lparr>or_status := OPaid\<rparr>]\<rparr>)"
    by (simp add: handlePayOrder_def GetOrder_def PayOrder_def order_by_def demo_sold_db_def demo_order_def demo_env_def update_where_def)
  have "handlePayOrder demo_env (Some ''u'') ''a'' (snd (handlePayOrder demo_env (Some ''u'') ''a'' demo_sold_db))
     = (Ok (demo_order\<lparr>or_status := OPaid\<rparr>), demo_sold_db\<lparr>orders := [demo_order\<lparr>or_status := OPaid\<rparr>]\<rparr>)"
    unfolding paid snd_conv using pay_once [OF paid] by blast
  then show ?thesis by (rule arg_cong [where f = fst, THEN trans]) simp
qed

text \<open>C29: Every rule set the create and spawn handlers store is runnable: it passes validation, is bounded by
the anti-snipe limits and names a registered mode; so stored rules that are all runnable stay so,
whatever the request says and whichever call fails.\<close>

theorem stored_rules_runnable:
  assumes "rules_ok d"
  shows "rules_ok (snd (handleCreateAuction e cf i k user cbody d))
    \<and> rules_ok (snd (handleSpawnFormal e cf fuel i k user pa sbody d r))"
  using handleCreateAuction_rules [OF assms] handleSpawnFormal_rules [OF assms] by blast

lemma stored_rules_runnable_witness:
  "rules_ok (snd (handleCreateAuction demo_env demo_config ''i'' ''k'' (Some ''s'') None (demo_db DRAFT ENGLISH [])))"
proof -
  have "rules_ok (demo_db DRAFT ENGLISH [])"
    by (simp add: rules_ok_def demo_db_def runnable_def demo_rules_def Validate_def MaxMoneyCents_def bounded_rules_def modeFor_def)
  from stored_rules_runnable [OF this] show ?thesis by blast
qed

text \<open>C30: A caller who is not the seller of an auction, or is not logged in, changes nothing in either store by
any of the seller's requests: edit, freeze, start, cancel and delete.\<close>

theorem strangers_change_nothing:
  assumes "not_seller user aid d"
  shows "snd (handlePatchAuction e user aid patch d) = d \<and> snd (handleFreeze e user aid facts (d, r)) = (d, r)
    \<and> snd (handleStart e user aid du (d, r)) = (d, r) \<and> snd (handleCancel e user aid (d, r)) = (d, r)
    \<and> snd (handleDeleteAuction e user aid (d, r)) = (d, r)"
  using assms by (simp add: stranger)

lemma strangers_change_nothing_witness:
  "snd (handleCancel demo_env (Some ''u'') ''a'' (demo_db LIVE ENGLISH [], demo_redis demo_one)) = (demo_db LIVE ENGLISH [], demo_redis demo_one)"
proof -
  have "not_seller (Some ''u'') ''a'' (demo_db LIVE ENGLISH [])" by (simp add: not_seller_def demo_db_def auction_by_def)
  from strangers_change_nothing [OF this] show ?thesis by blast
qed

text \<open>C31: The start handler writes MySQL after its script without the transition lock: when a cancel that
succeeds falls between the two, Redis ends cancelled and MySQL live, although both requests answered
success.\<close>

theorem start_overwrites_cancel:
  assumes "room_inv (rd_keys r aid)"
    and "start_script e user aid body (d, r) = (Ok n, s1)"
    and "handleCancel f user aid s1 = (Ok c, s2)"
    and "start_project e aid n s2 = (Ok m, d3, r3)"
  shows "h_status (hash_of (rd_keys r3 aid)) = Some CANCELLED
    \<and> (\<exists>a. auction_by aid d3 = Some a \<and> ar_status a = LIVE)"
  by (rule start_cancel_race [OF assms])

lemma start_overwrites_cancel_witness:
  "\<exists>d3 r3 a. start_project demo_env ''a'' 61000 (snd (handleCancel demo_env (Some ''s'') ''a''
       (snd (start_script demo_env (Some ''s'') ''a'' (Some 60000) (demo_db SCHEDULED ENGLISH [], demo_redis demo_scheduled))))) = (Ok 61000, d3, r3)
     \<and> h_status (hash_of (rd_keys r3 ''a'')) = Some CANCELLED \<and> auction_by ''a'' d3 = Some a \<and> ar_status a = LIVE"
proof -
  let ?s = "(demo_db SCHEDULED ENGLISH [], demo_redis demo_scheduled)"
  obtain n s1 where st: "start_script demo_env (Some ''s'') ''a'' (Some 60000) ?s = (n, s1)" by (rule prod.exhaust)
  obtain c s2 where ca: "handleCancel demo_env (Some ''s'') ''a'' s1 = (c, s2)" by (rule prod.exhaust)
  obtain m d3 r3 where pr: "start_project demo_env ''a'' 61000 s2 = (m, d3, r3)" by (rule prod_cases3)
  have "n = Ok 61000 \<and> c = Ok OK_CANCELLED \<and> m = Ok 61000" using demo_race by (simp add: st ca pr)
  moreover have "room_inv (rd_keys (demo_redis demo_scheduled) ''a'')" by (simp add: demo_redis_def demo_scheduled_inv)
  ultimately show ?thesis using start_overwrites_cancel [OF _ _ _ pr [THEN trans]] st ca pr by simp
qed

text \<open>C32: With auction ids unique, a deletion that is answered with success was the seller's, of an auction that had ended; it leaves no
row of the auction, its order, events, rules, coins or verification cache in MySQL, and touches no other
auction: not its row, product, orders, events, rules, coins or verification cache, no user, not its Redis
keys nor its place in the timer index. The Redis keys of the auction are deleted as far as the scan found
them and the DEL was answered: a key may stay when a call of the purge fails, none when the scan named all
and the DEL was answered.\<close>

theorem deletion_confined:
  assumes "handleDeleteAuction e user aid (d, r) = (Ok res, d', r')" "ids_unique d"
  shows "(\<exists>a. auction_by aid d = Some a \<and> user = Some (ar_seller a) \<and> IsTerminal (ar_status a))
    \<and> erased aid d' \<and> users d' = users d
    \<and> (\<forall>i. i \<noteq> aid \<longrightarrow> same_auction i d d' \<and> rd_keys r' i = rd_keys r i
          \<and> zscore (rd_active r') i = zscore (rd_active r) i)
    \<and> (pc_del (ae_purge e) \<longrightarrow> (\<forall>x. has_key (rd_keys r aid) x \<longrightarrow> x \<in> set (scan_seen (take 1000 (pc_pages (ae_purge e)))))
          \<longrightarrow> (\<forall>x. \<not> has_key (rd_keys r' aid) x))"
proof -
  obtain a pd p where a: "auction_by aid d = Some a" "user = Some (ar_seller a)" "IsTerminal (ar_status a)"
      and d: "delete_tx aid p d = (Inr pd, d')" and r: "r' = purge_redis (ae_purge e) aid r"
    using handleDeleteAuction_Ok [OF assms(1)] by metis
  show ?thesis
    using a delete_tx_erased [OF d assms(2) a(1,3)] delete_tx_other [OF d] delete_tx_form(7) [OF d]
      purge_confined [of _ aid "ae_purge e" r] purge_complete [of "ae_purge e" r aid] unfolding r by blast
qed

lemma deletion_confined_witness:
  "erased ''a'' (fst (snd (handleDeleteAuction demo_env (Some ''s'') ''a'' (demo_sold_db, demo_redis demo_one))))"
proof -
  obtain x d' r' where h: "handleDeleteAuction demo_env (Some ''s'') ''a'' (demo_sold_db, demo_redis demo_one) = (x, d', r')"
    by (rule prod_cases3)
  have "\<exists>res. x = Ok res" using demo_deletes by (auto simp: h split: resp.splits)
  moreover have "ids_unique demo_sold_db" by (simp add: ids_unique_def demo_sold_db_def demo_db_def)
  ultimately show ?thesis using deletion_confined h by fastforce
qed

text \<open>C33: The public list tells nothing of the price and leader of a live auction in a hidden mode: with any other
price, leader and counter in the state hash the list is the same. The bid count of a row is no secret of
the list: it is the number of BID_ACCEPTED events of that auction in MySQL. The single-auction view answers with exactly
the price and leader of the state hash, so for the hybrid mode it shows what the list and the broadcasts hide.\<close>

theorem list_hides_view_shows:
  assumes "h_status (hash_of (rd_keys r aid)) = Some LIVE" "hides_standing (hash_of (rd_keys r aid))"
    and "r' = put_keys aid (set_hash ((hash_of (rd_keys r aid))
          \<lparr>h_currentPriceCents := Some p, h_winnerId := w, h_winnerDisplayName := dn, h_bidCount := n\<rparr>) (rd_keys r aid)) r"
  shows "handleListAuctions up lk limit d r' = handleListAuctions up lk limit d r
    \<and> (handleListAuctions up lk limit d r = Ok rows \<longrightarrow> (\<forall>x\<in>set rows. dto_BidCount x =
         int (length (filter (\<lambda>e. ev_type e = BID_ACCEPTED) (auction_events d (dto_AuctionID x))))))
    \<and> (handleGetAuction e aid hb sim likes d r' = Ok v \<longrightarrow>
         sn_WinnerID (rv_Snapshot v) = w \<and> sn_CurrentPriceCents (rv_Snapshot v) = p)"
proof -
  have "\<not> bad_type (k_state (rd_keys r aid))" using assms(1) by (cases "k_state (rd_keys r aid)") (auto simp: empty_hash_def)
  then have "bad_type (k_state (rd_keys r' a)) = bad_type (k_state (rd_keys r a))" for a
    by (simp add: assms(3) put_keys_def set_hash_def)
  moreover have "same_but_standing (rd_keys r a) (rd_keys r' a)" for a
    using assms(2) by (auto simp: same_but_standing_def assms(3) put_keys_def set_hash_def)
  ultimately show ?thesis
    using list_hides_standing [of r r'] list_counts [of up lk limit d r rows] view_shows_standing [of e aid hb sim likes d r' v p] assms(1)
    by (simp add: assms(3) put_keys_def set_hash_def)
qed

lemma list_hides_view_shows_witness:
  "handleListAuctions True (\<lambda>a. Answered) ''10'' (demo_db LIVE HYBRID_REVEAL []) (put_keys ''a'' (set_hash ((demo_hash HYBRID_REVEAL)
      \<lparr>h_currentPriceCents := Some ''150'', h_winnerId := ''u'', h_winnerDisplayName := ''u'', h_bidCount := 1\<rparr>) (demo_live HYBRID_REVEAL)) (demo_redis (demo_live HYBRID_REVEAL)))
   = handleListAuctions True (\<lambda>a. Answered) ''10'' (demo_db LIVE HYBRID_REVEAL []) (demo_redis (demo_live HYBRID_REVEAL))"
proof -
  have "hides_standing (demo_hash HYBRID_REVEAL)" by (simp add: hides_standing_def snapshotRules_def demo_hash_def)
  then show ?thesis
    using list_hides_view_shows [where r = "demo_redis (demo_live HYBRID_REVEAL)" and aid = "''a''"]
    by (simp add: demo_redis_def demo_hash_def)
qed

text \<open>C34: The evidence card of a sale is right. Take a sold ascending or hybrid auction whose stream can be read and settled, and a
worker that either has not yet passed the sale and finds no order and no all-pay rules, or finds an order
of this buyer and amount. A projection in which every call is answered leaves an order of
the leader for the amount of the state hash's price, and the card computed from MySQL alone, with that order, shows
ORDER_CREATED, the leader, that amount and the number of the Redis state hash. Before the order is there
the card shows SOLD with the same winner, price and number. The order's amount is the price read as an integer.\<close>

theorem evidence_card_right:
  assumes "asc_reachable k" "h_status (hash_of k) = Some SOLD" "\<forall>e\<in>set (events_of k). settles e"
    and "readable k" "proper E L" "worker_ok E L aid (events_of k) w" "length (events_of k) < fuel" "\<forall>i. fs i = no_faults"
    and "(\<exists>x. order_by aid (w_db w) = Some x \<and> or_buyer x = h_winnerId (hash_of k)
          \<and> ParseInt (price_str (hash_of k)) = POk (or_amount x))
      \<or> order_by aid (w_db w) = None \<and> \<not> all_pay aid (w_db w) \<and> w_cursor w aid \<noteq> position (length (events_of k))"
  shows "let d = w_db (project fuel fs E now aid k w) in
      (\<exists>x. order_by aid d = Some x \<and> or_buyer x = h_winnerId (hash_of k)
        \<and> ParseInt (price_str (hash_of k)) = POk (or_amount x)
        \<and> evidenceSummary st (map timeline_event (auction_events d aid)) (order_by aid d) =
          \<lparr>es_Status = state_name ORDER_CREATED, es_CurrentPriceCents = FormatInt (or_amount x),
           es_WinnerID = h_winnerId (hash_of k), es_Seq = h_seq (hash_of k)\<rparr>)
      \<and> evidenceSummary st (map timeline_event (auction_events d aid)) None =
          \<lparr>es_Status = state_name SOLD, es_CurrentPriceCents = price_str (hash_of k),
           es_WinnerID = h_winnerId (hash_of k), es_Seq = h_seq (hash_of k)\<rparr>"
proof -
  have "projected E L aid (events_of k) (length (events_of k)) (w_db (project fuel fs E now aid k w))"
    using project_sound(2) [OF assms(5,4,3,6,7)] assms(8) by blast
  from evidence_sold [OF asc_ladder [OF assms(1)] asc_inv [OF assms(1)] assms(2) this assms(3), of st]
    evidence_order [OF asc_ladder [OF assms(1)] assms(2-9), where st = st and now = now]
  show ?thesis by (simp add: Let_def)
qed

lemma evidence_card_right_witness:
  "es_Status (evidenceSummary SOLD
     (map timeline_event (auction_events (w_db (project 3 (\<lambda>i. no_faults) demo_hasher 1 ''a'' demo_sold demo_worker)) ''a''))
     (order_by ''a'' (w_db (project 3 (\<lambda>i. no_faults) demo_hasher 1 ''a'' demo_sold demo_worker)))) = state_name ORDER_CREATED"
proof -
  note w = demo_worker_facts
  show ?thesis
    using evidence_card_right [OF demo_sold_asc demo_sold_facts(1,2) demo_sold_readable demo_proper w(1), of 3 "\<lambda>i. no_faults" 1 SOLD] w(2-)
    by (auto simp: Let_def)
qed

text \<open>C35: Money survives the boundaries it crosses: a 64-bit amount of cents written as JSON, as an SQL value or as
decimal text is read back as the same amount by Go. The scripts' tonumber gives a float64: it reads
amounts up to 2^53 exactly, which covers every amount within MaxMoneyCents; larger ones may be rounded, as
2^53 + 1 is, but never to an amount within that bound.\<close>

theorem money_roundtrip:
  assumes "int64 c"
  shows "Cents_UnmarshalJSON (Cents_MarshalJSON c) = Some c \<and> Cents_Scan (Cents_Value c) = Some c
    \<and> Cents_Scan (SqlBytes (FormatInt c)) = Some c
    \<and> (\<bar>c\<bar> \<le> 2 ^ 53 \<longrightarrow> tonumber (FormatInt c) = Some c)
    \<and> (MaxMoneyCents < c \<longrightarrow> (\<exists>x. tonumber (FormatInt c) = Some x \<and> MaxMoneyCents < x))
    \<and> tonumber (FormatInt (2 ^ 53 + 1)) = Some (2 ^ 53)"
  using Cents_json_roundtrip [OF assms] Cents_sql_roundtrip Cents_sql_bytes [OF assms] lua_num_less_iff [of "2 ^ 53" c]
    lua_num_high [of c] lua_num_rounds
  by (auto simp: MaxMoneyCents_def lua_num_def)

lemma money_roundtrip_witness: "Cents_UnmarshalJSON (Cents_MarshalJSON (- 150)) = Some (- 150)"
  using money_roundtrip [of "- 150"] by (simp add: int64_def)

section \<open>The connection, and what surrounds the engine\<close>

text \<open>C36: However a WebSocket request ends, and whatever the rest of the program does meanwhile, the gateway's
books are right: the slot reserved for it is given back exactly once, an overload only counts a
rejection, an open connection counts once, and a connection that is not open is a member of no room.\<close>

theorem session_accounted:
  assumes "gw_conns g = Some (active, rej)" "handleWS hm up d items g = (res, c, g')"
    and "\<forall>a. up_id up \<notin> set (members (gw_hub g) a)" "list_all (leaves_alone (up_id up)) items"
  shows "gw_conns g' =
      (case res of
         WsOpen \<Rightarrow> Some (active + world_conns items + 1, rej)
       | WsClosed \<Rightarrow> Some (active + world_conns items, rej)
       | WsOverloaded \<Rightarrow> Some (active, rej + 1)
       | _ \<Rightarrow> Some (active, rej))
    \<and> (res = WsOpen \<or> (\<forall>a. up_id up \<notin> set (members (gw_hub g') a)))"
proof -
  have "\<forall>a. up_id up \<notin> set (members (gw_hub g') a)" if "res \<noteq> WsOpen"
  proof (cases "res = WsClosed")
    case True
    with assms(2) have "handleWS hm up d items g = (WsClosed, c, g')" by simp
    from closed_nowhere [OF this assms(3,4)] show ?thesis .
  next
    case False
    with turned_away_hub [OF assms(2) that] assms(3) show ?thesis by simp
  qed
  with slot_returned [OF assms(1,2)] show ?thesis by blast
qed

lemma session_accounted_witness:
  "gw_conns (snd (snd (handleWS (\<lambda>k m. m) demo_upgrade (demo_db LIVE ENGLISH []) demo_items demo_gw))) = Some (4, 0)"
proof -
  have res: "fst (handleWS (\<lambda>k m. m) demo_upgrade (demo_db LIVE ENGLISH []) demo_items demo_gw) = WsClosed"
    by (simp add: handleWS_def demo_upgrade_def demo_gw_def demo_items_def auth_Verify_def Contains_def before_def Token_def
        dot_def tryReserveWS_def OriginAllowed_def Let_def split: prod.split)
  obtain r c g' where h: "handleWS (\<lambda>k m. m) demo_upgrade (demo_db LIVE ENGLISH []) demo_items demo_gw = (r, c, g')"
    by (rule prod_cases3)
  have "gw_conns demo_gw = Some (3, 0)" "\<forall>a. up_id demo_upgrade \<notin> set (members (gw_hub demo_gw) a)"
    "list_all (leaves_alone (up_id demo_upgrade)) demo_items" "world_conns demo_items = 1"
    by (simp_all add: demo_gw_def demo_upgrade_def demo_items_def members_def newHub_def leaves_alone_def)
  with session_accounted [OF _ h] res show ?thesis by (simp add: h)
qed

text \<open>C37: An upload either stores a seller's picture, whole, under a fresh name of digits, letters, dash and dot
inside the upload directory, and never a file that starts like markup; or it is refused, and then no
file that was there changed and, when the removal works, none is left behind.\<close>

theorem upload_confined:
  assumes "handleUpload cf user v fs = (r, fs')"
  shows "case r of Ok url \<Rightarrow> picture_stored cf user v fs url fs'
    | _ \<Rightarrow> (\<forall>n. fs n \<noteq> None \<longrightarrow> fs' n = fs n) \<and> (ue_Remove v \<longrightarrow> fs' = fs)"
  by (rule upload_outcome [OF assms])

lemma upload_confined_witness:
  "snd (handleUpload demo_config (Some ''seller_ann'') (demo_upload\<lparr>ue_File := Some [0x3C, 0x68]\<rparr>) Map.empty) = Map.empty"
proof -
  obtain r fs' where h: "handleUpload demo_config (Some ''seller_ann'') (demo_upload\<lparr>ue_File := Some [0x3C, 0x68]\<rparr>) Map.empty = (r, fs')"
    by (rule prod.exhaust)
  have "\<not> picture_stored demo_config (Some ''seller_ann'') (demo_upload\<lparr>ue_File := Some [0x3C, 0x68]\<rparr>) Map.empty url fs'" for url
    by (simp add: picture_stored_def)
  moreover have "ue_Remove (demo_upload\<lparr>ue_File := Some [0x3C, 0x68]\<rparr>)" by (simp add: demo_upload_def)
  ultimately show ?thesis using upload_confined [OF h] by (cases r) (simp_all add: h)
qed

text \<open>C38: An image the sidecar fetches for a seller comes from a public address: every address its host name
resolved to lies outside each listed loopback, private, link-local, multicast and metadata network, in
whatever length it was written; the bytes are the peer's whole answer, within the cap, with no redirect.\<close>

theorem image_fetch_public:
  assumes "FetchImage blocked lookup peer url = Inr body"
    and "\<forall>host ips x. lookup host = Some ips \<and> x \<in> set ips \<longrightarrow> length x = 4 \<or> length x = 16"
  shows "\<exists>host port ips x r. url = Some (Some (host, port)) \<and> lookup host = Some ips \<and> x \<in> set ips \<and> list_all public ips
    \<and> peer x = Some r \<and> re_Status r = 200 \<and> body = re_Body r \<and> length body \<le> maxImageBytes"
proof -
  obtain addr x r where f: "url = Some addr" "DialContext blocked lookup addr = Inr x" "peer x = Some r"
    "re_Status r = 200" "length body \<le> maxImageBytes" "body = re_Body r"
    using FetchImage_ok [OF assms(1)] by blast
  obtain host port ips where d: "addr = Some (host, port)" "lookup host = Some ips" "x \<in> set ips"
    "\<forall>y\<in>set ips. \<not> blocked y"
    using dial_vetted [OF f(2)] by blast
  have "list_all public ips" using d(2,4) assms(2) blocked_public by (auto simp: list_all_iff)
  with f d show ?thesis by blast
qed

lemma image_fetch_public_witness:
  "public [93, 184, 216, 34] \<and> \<not> public [10, 0, 0, 7]"
proof -
  let ?lookup = "\<lambda>h :: string. if h = ''cdn'' then Some [[93, 184, 216, 34 :: 8 word]] else None"
  let ?peer = "\<lambda>x :: ip. Some \<lparr>re_Status = 200, re_Location = False, re_Body = [1, 2], re_Breaks = None\<rparr>"
  have pass: "\<not> blocked [93, 184, 216, 34]" "blocked [10, 0, 0, 7]" by code_simp+
  then have "FetchImage blocked ?lookup ?peer (Some (Some (''cdn'', ''443''))) = Inr [1, 2]"
    by (simp add: FetchImage_def client_Do_def DialContext_def read_limited_def redirect_status_def maxImageBytes_def)
  from image_fetch_public [OF this] have "public [93, 184, 216, 34]" by auto
  with pass(2) blocked_public [of "[10, 0, 0, 7]"] show ?thesis by simp
qed

text \<open>C39: Whatever the language model, the sidecar and the network do, the commentary sent to a room is not
empty, has at most 80 characters, no part of it matches the patterns of a link, a phone number or a sum
of money, and it contains none of the banned promises.\<close>

theorem commentary_clean:
  "let text = cm_Commentary (fire trigger answer) in 0 < length text \<and> length text \<le> 80
    \<and> \<not> (\<exists>i j. i \<le> length text \<and> (matches text reURL i j \<or> matches text rePhone i j \<or> matches text reMoney i j))
    \<and> \<not> (\<exists>w u v. w \<in> set bannedWords \<and> text = u @ w @ v)"
  using guard_length [OF fire_passes, of trigger answer] fire_clean fire_no_banned
  unfolding Let_def by metis

section \<open>The mode cache\<close>

text \<open>C40: While the gateway has no mode cached for an auction, a WebSocket bid goes to the ascending script
whatever the auction's mode: the price and leader it sets are public, no sealed bid is stored, and if
there was none the sealed close ends the auction without a winner.\<close>

theorem cold_cache_bid_lost:
  assumes "room_inv (rd_keys r aid)" "rs_mode (roomStateSnap h aid) = ModeEmpty" "sealed_of (rd_keys r aid) = []"
    and "route_bid (rs_mode (roomStateSnap h aid)) Answered t aid b r = (res, r')" "close_ready t' (rd_keys r' aid)"
  shows "rd_keys r' aid = snd (place_bid b t (rd_keys r aid))
    \<and> reply_code (fst (close_auction_sealed m t' (rd_keys r' aid))) = Some OK_NO_BID"
proof -
  have k: "rd_keys r' aid = snd (place_bid b t (rd_keys r aid))"
    using assms(4) by (auto simp: cold_cache_routes_english [OF assms(2)] dest: PlaceBid_keys)
  then have "sealed_of (rd_keys r' aid) = []" using assms(3) by (simp add: place_bid_sealed_of [OF assms(1)])
  then show ?thesis using close_ready_no_bid [OF assms(5)] k by simp
qed

lemma cold_cache_bid_lost_witness:
  "reply_code (fst (close_auction_sealed SECOND (61, 0) (rd_keys (snd (route_bid (rs_mode (roomStateSnap newHub ''a'')) Answered (1, 0) ''a''
      (demo_bid ''u'' ''c1'' ''150'') (demo_redis (demo_live VICKREY)))) ''a''))) = Some OK_NO_BID"
proof -
  obtain res r' where p: "route_bid (rs_mode (roomStateSnap newHub ''a'')) Answered (1, 0) ''a''
      (demo_bid ''u'' ''c1'' ''150'') (demo_redis (demo_live VICKREY)) = (res, r')" by (rule prod.exhaust)
  have "close_ready (61, 0) (rd_keys r' ''a'')" using demo_cold unfolding p snd_conv .
  moreover have "room_inv (rd_keys (demo_redis (demo_live VICKREY)) ''a'')" "rs_mode (roomStateSnap newHub ''a'') = ModeEmpty"
      "sealed_of (rd_keys (demo_redis (demo_live VICKREY)) ''a'') = []"
    using demo_live_inv [of VICKREY] by (simp_all add: demo_redis_def cold_def) (simp add: demo_live_def empty_keys_def)
  ultimately show ?thesis unfolding p snd_conv using cold_cache_bid_lost [OF _ _ _ p] by blast
qed

section \<open>Further theorems\<close>

text \<open>An accepted bid in a reachable ascending auction raises the price strictly and by at least the
required raise, stays within the cap and the money bound, is not the seller's, arrives before the
deadline on a live auction that is not paused, and makes the bidder the leader.\<close>

theorem accepted_bid_raises:
  assumes "asc_reachable k" "reply_code (fst (place_bid b t k)) \<in> {Some OK_ACCEPTED, Some OK_EXTENDED, Some OK_SOLD}"
  shows "price_num (hash_of k) < price_num (hash_of (snd (place_bid b t k)))
    \<and> required_bid (hash_of k) \<le> price_num (hash_of (snd (place_bid b t k)))
    \<and> price_num (hash_of (snd (place_bid b t k))) \<le> MaxMoneyCents
    \<and> (0 < cap_of (hash_of k) \<longrightarrow> price_num (hash_of (snd (place_bid b t k))) \<le> cap_of (hash_of k))
    \<and> h_status (hash_of k) = Some LIVE \<and> \<not> h_paused (hash_of k) \<and> redis_now t < h_endAtMs (hash_of k)
    \<and> (h_sellerId (hash_of k) \<noteq> [] \<longrightarrow> ba_userId b \<noteq> h_sellerId (hash_of k))
    \<and> h_winnerId (hash_of (snd (place_bid b t k))) = ba_userId b"
proof -
  note acc = place_bid_accepted [OF asc_inv [OF assms(1)] assms(2)]
  show ?thesis
    using bid_guard_NoneD [OF acc(1)] accepted_above [OF asc_ladder [OF assms(1)] acc(1)] acc(2,3) by simp
qed

lemma accepted_bid_raises_witness:
  "price_num (hash_of (demo_live ENGLISH)) < price_num (hash_of (snd (place_bid (demo_bid ''u'' ''c1'' ''150'') (1, 0) (demo_live ENGLISH))))"
proof -
  have "reply_code (fst (place_bid (demo_bid ''u'' ''c1'' ''150'') (1, 0) (demo_live ENGLISH))) = Some OK_ACCEPTED"
    using demo_one_run by simp
  with accepted_bid_raises [OF demo_live_asc, of ENGLISH "demo_bid ''u'' ''c1'' ''150''" "(1, 0)"] show ?thesis by simp
qed

text \<open>Inserting an event into a hash-chained timeline: the next number extends the chain; a number that is
already there changes nothing, silently if the event is the same and with an error if it differs; a
number beyond the next one is stored without a hash and reported, and verification then breaks at it.\<close>

theorem insert_event_outcomes:
  assumes "chain E L rows h" "proper E L" "1 \<le> q" "payload \<noteq> JBad"
  shows "if q \<le> int (length rows) then
       InsertEvent Insert_ok E now q ty payload rows =
         (if ev_type (rows ! nat (q - 1)) = ty \<and> ev_payload (rows ! nat (q - 1)) = payload
          then (None, rows) else (Some ErrEventPayloadMismatch, rows))
     else if q = int (length rows) + 1 then
       (\<exists>r h'. InsertEvent Insert_ok E now q ty payload rows = (None, rows @ [r]) \<and> chain E L (rows @ [r]) h'
          \<and> ev_seq r = q \<and> ev_type r = ty \<and> ev_payload r = payload)
     else InsertEvent Insert_ok E now q ty payload rows = (Some ErrPreviousEventHashMissing, rows @ [new_row q ty payload now])
       \<and> verify_rows E L (rows @ [new_row q ty payload now]) 1 [] = BreakAt q"
proof -
  consider "q \<le> int (length rows)" | "q = int (length rows) + 1" | "int (length rows) + 1 < q" by linarith
  then show ?thesis
  proof cases
    case 1
    with InsertEvent_again(1) [OF assms(1,2,3) _ assms(4), where us = "[]" and now = now and ty = ty] show ?thesis by simp
  next
    case 2
    with InsertEvent_next [OF assms(1,2) _ assms(4), where now = now and ty = ty] show ?thesis by (auto simp: chained_row_def new_row_def)
  next
    case 3
    with InsertEvent_gap [OF assms(1,2) _ assms(4), where now = now and ty = ty] show ?thesis by simp
  qed
qed

lemma insert_event_outcomes_witness:
  "InsertEvent Insert_ok demo_hasher 7 1 AUCTION_SOLD demo_payload [demo_row] = (Some ErrEventPayloadMismatch, [demo_row])"
proof -
  obtain h where "chain demo_hasher demo_lookup [demo_row] h" using demo_chain ..
  from insert_event_outcomes [OF this demo_proper, of 1 demo_payload 7 AUCTION_SOLD] show ?thesis
    by (simp add: demo_row_def chained_row_def new_row_def demo_payload_def bid_json_def)
qed

text \<open>A freeze that is answered with success froze both stores: it was the seller's request on a draft
whose facts are confirmed, MySQL has the auction scheduled with its rules unchanged, and Redis has a
scheduled state with those rules and that seller, no other auction touched.\<close>

theorem freeze_both_stores:
  assumes "handleFreeze e user aid facts (d, r) = (Ok c, d', r')"
  shows "c = OK_FROZEN \<and> (\<exists>u rules cur a. user = Some u \<and> auction_rules d aid = Some rules
    \<and> auction_by aid d = Some cur \<and> ar_seller cur = u \<and> ar_status cur = DRAFT \<and> ar_factsConfirmed cur
    \<and> auction_by aid d' = Some a \<and> ar_status a = SCHEDULED \<and> ar_seller a = u \<and> auction_rules d' = auction_rules d
    \<and> hash_of (rd_keys r' aid) = frozen_hash \<lparr>fr_rules = rules, fr_sellerId = u\<rparr> (hash_of (rd_keys r aid))
    \<and> (\<forall>i. i \<noteq> aid \<longrightarrow> rd_keys r' i = rd_keys r i))"
proof -
  obtain u facts' rules where h: "c = OK_FROZEN" "user = Some u" "auction_rules d aid = Some rules"
      "freeze_locked e u aid facts' rules (d, r) = (Inr OK_FROZEN, d', r')"
    using handleFreeze_Ok [OF assms] by metis
  show ?thesis
    by (rule freeze_locked_OK [OF h(4)]) (auto simp: h put_keys_def set_hash_def)
qed

lemma freeze_both_stores_witness:
  "h_status (hash_of (rd_keys (snd (snd (handleFreeze demo_env (Some ''s'') ''a'' (Some ''f'') (demo_db DRAFT ENGLISH [], demo_redis empty_keys)))) ''a'')) = Some SCHEDULED"
proof -
  have ok: "fst (handleFreeze demo_env (Some ''s'') ''a'' (Some ''f'') (demo_db DRAFT ENGLISH [], demo_redis empty_keys)) = Ok OK_FROZEN"
    by code_simp
  show ?thesis
    by (cases "handleFreeze demo_env (Some ''s'') ''a'' (Some ''f'') (demo_db DRAFT ENGLISH [], demo_redis empty_keys)" rule: prod_cases3)
       (use ok freeze_both_stores in \<open>fastforce simp: frozen_hash_def\<close>)
qed

text \<open>The token of a log-in verifies to the account id it was made for, no other string does, and with a
seller key configured an account that passes the seller gate was logged in with that key.\<close>

theorem login_identity:
  assumes "login_id cfgKey nickname sellerKey = Some (role, u)"
  shows "(auth_Verify hm secret tok = Some u \<longleftrightarrow> tok = Token hm secret u)
    \<and> (cfgKey \<noteq> [] \<and> requireSeller cfgKey u \<longrightarrow> TrimSpace sellerKey = cfgKey)"
  using login_token [OF assms] verified_token [of hm secret tok u] login_seller [OF assms] by auto

lemma login_identity_witness:
  "auth_Verify (\<lambda>k m. ''h'') ''jw'' (Token (\<lambda>k m. ''h'') ''jw'' ''user_ann'') = Some ''user_ann''"
proof -
  have "login_id ''sk'' ''ann'' [] = Some (''user'', ''user_ann'')" by code_simp
  from login_identity [OF this] show ?thesis by blast
qed

end
